(* ===== verification/Prelude.thy ===== *)
theory Prelude
  imports Main "HOL-Library.Multiset" "HOL-Library.List_Lexorder" "HOL-Library.Product_Lexorder"
begin

text \<open>
  Shared vocabulary of the development: Python strings as lists of code points, the few
  library functions of Python that several components call (\<open>str.strip\<close>,
  \<open>max\<close> with a key, \<open>list.pop\<close>), and the generic interface of a component
  whose operations keep an invariant.

  Conventions. A method that may raise and that changes its object returns a pair of the
  result (\<open>Inl\<close> the exception, \<open>Inr\<close> the returned value) and the object after the call,
  so that what a raising call has already written is visible. A method that raises without
  touching an object returns the sum alone. Python integers are \<open>int\<close>; counters and
  lengths, which the code never makes negative, are \<open>nat\<close>.
\<close>

named_theorems inv_simps \<open>definitions that unfold a component invariant\<close>
named_theorems inv_intros \<open>one-step preservation lemmas of component invariants\<close>
named_theorems pystr_simps \<open>evaluation of Python strings\<close>

section \<open>Python strings\<close>

text \<open>A \<open>str\<close> is its sequence of Unicode code points; a literal is written \<open>lit ''...''\<close>.\<close>

type_synonym pystr = "nat list"

definition lit :: "string \<Rightarrow> pystr" where
  "lit s = map of_char s"

lemma lit_simps [simp, pystr_simps]:
  "lit [] = []" "lit (c # s) = of_char c # lit s"
  by (simp_all add: lit_def)

lemma lit_append [simp]: "lit (s @ t) = lit s @ lit t"
  by (simp add: lit_def)

lemma length_lit [simp]: "length (lit s) = length s"
  by (simp add: lit_def)

text \<open>
  \<open>str.isspace\<close> of one character: the code points Python treats as white space. The same
  set is stripped by \<open>str.strip\<close> and matched by \<open>\s\<close> in a \<open>str\<close> pattern.
\<close>

definition isspace :: "nat \<Rightarrow> bool" where
  "isspace c \<longleftrightarrow>
     (9 \<le> c \<and> c \<le> 13) \<or> (28 \<le> c \<and> c \<le> 32) \<or> c = 133 \<or> c = 160 \<or> c = 5760 \<or>
     (8192 \<le> c \<and> c \<le> 8202) \<or> c = 8232 \<or> c = 8233 \<or> c = 8239 \<or> c = 8287 \<or> c = 12288"

definition lstrip :: "pystr \<Rightarrow> pystr" where
  "lstrip s = dropWhile isspace s"

definition rstrip :: "pystr \<Rightarrow> pystr" where
  "rstrip s = rev (dropWhile isspace (rev s))"

definition strip :: "pystr \<Rightarrow> pystr" where
  "strip s = rstrip (lstrip s)"

text \<open>\<open>not s.strip()\<close>: the string is empty or all white space.\<close>

definition blank :: "pystr \<Rightarrow> bool" where
  "blank s \<longleftrightarrow> strip s = []"

lemma rstrip_Nil_iff: "rstrip s = [] \<longleftrightarrow> list_all isspace s"
  by (simp add: rstrip_def dropWhile_eq_Nil_conv list_all_iff)

lemma lstrip_Nil_iff: "lstrip s = [] \<longleftrightarrow> list_all isspace s"
  by (simp add: lstrip_def dropWhile_eq_Nil_conv list_all_iff)

lemma list_all_lstrip [simp]: "list_all isspace (lstrip s) \<longleftrightarrow> list_all isspace s"
  by (induction s) (auto simp: lstrip_def)

lemma blank_iff: "blank s \<longleftrightarrow> list_all isspace s"
  by (simp add: blank_def strip_def rstrip_Nil_iff)

text \<open>Stripping removes white space only: the other characters stay, in their order.\<close>

definition visible :: "pystr \<Rightarrow> pystr" where
  "visible s = filter (\<lambda>c. \<not> isspace c) s"

lemma visible_append [simp]: "visible (s @ t) = visible s @ visible t"
  by (simp add: visible_def)

lemma visible_Nil [simp]: "visible [] = []"
  by (simp add: visible_def)

lemma visible_dropWhile: "visible (dropWhile isspace s) = visible s"
  by (induction s) (auto simp: visible_def)

lemma visible_lstrip [simp]: "visible (lstrip s) = visible s"
  by (simp add: lstrip_def visible_dropWhile)

lemma visible_rev: "visible (rev s) = rev (visible s)"
  by (simp add: visible_def rev_filter)

lemma visible_rstrip [simp]: "visible (rstrip s) = visible s"
  by (simp add: rstrip_def visible_rev visible_dropWhile)

lemma visible_strip [simp]: "visible (strip s) = visible s"
  by (simp add: strip_def)

lemma visible_Nil_iff: "visible s = [] \<longleftrightarrow> blank s"
  by (auto simp: visible_def blank_iff filter_empty_conv list_all_iff)

lemma blank_strip [simp]: "blank (strip s) \<longleftrightarrow> blank s"
  by (simp flip: visible_Nil_iff)

lemma length_rstrip_le: "length (rstrip s) \<le> length s"
  using length_dropWhile_le [of isspace "rev s"] by (simp add: rstrip_def)

lemma length_lstrip_le: "length (lstrip s) \<le> length s"
  by (simp add: lstrip_def length_dropWhile_le)

lemma length_strip_le: "length (strip s) \<le> length s"
  using length_rstrip_le [of "lstrip s"] length_lstrip_le [of s] by (simp add: strip_def)

text \<open>\<open>str(n)\<close> of an integer: decimal digits, with a sign for a negative one.\<close>

fun nat_digits :: "nat \<Rightarrow> pystr" where
  "nat_digits n = (if n < 10 then [48 + n] else nat_digits (n div 10) @ [48 + n mod 10])"

declare nat_digits.simps [simp del]

definition str_int :: "int \<Rightarrow> pystr" where
  "str_int n = (if n < 0 then 45 # nat_digits (nat (- n)) else nat_digits (nat n))"

section \<open>Lists\<close>

text \<open>\<open>xs.pop(i)\<close> for an index in range: the list without its element at \<open>i\<close>.\<close>

definition pop_at :: "nat \<Rightarrow> 'a list \<Rightarrow> 'a list" where
  "pop_at i xs = take i xs @ drop (Suc i) xs"

lemma pop_at_Cons [simp]:
  "pop_at 0 (x # xs) = xs" "pop_at (Suc i) (x # xs) = x # pop_at i xs"
  by (simp_all add: pop_at_def)

lemma length_pop_at [simp]: "i < length xs \<Longrightarrow> length (pop_at i xs) = length xs - 1"
  by (simp add: pop_at_def)

lemma set_pop_at_subset: "set (pop_at i xs) \<subseteq> set xs"
  by (auto simp: pop_at_def dest: in_set_takeD in_set_dropD)

lemma map_pop_at: "map f (pop_at i xs) = pop_at i (map f xs)"
  by (simp add: pop_at_def take_map drop_map)

lemma sorted_wrt_pop_at: "sorted_wrt P xs \<Longrightarrow> sorted_wrt P (pop_at i xs)"
proof (induction xs arbitrary: i)
  case Nil
  then show ?case by (simp add: pop_at_def)
next
  case (Cons x xs)
  then show ?case
    by (cases i) (auto dest: set_pop_at_subset [THEN subsetD])
qed

lemma mset_pop_at:
  "i < length xs \<Longrightarrow> mset xs = add_mset (xs ! i) (mset (pop_at i xs))"
  by (metis Cons_nth_drop_Suc append_take_drop_id mset.simps(2) mset_append pop_at_def
      union_mset_add_mset_right)

text \<open>
  \<open>max(xs, key=f)\<close>: the first element with the largest key. The list is given by its
  first element and the rest, since Python raises on an empty one.
\<close>

fun argmax :: "('a \<Rightarrow> 'k::linorder) \<Rightarrow> 'a \<Rightarrow> 'a list \<Rightarrow> 'a" where
  "argmax f x [] = x"
| "argmax f x (y # ys) = argmax f (if f x < f y then y else x) ys"

lemma argmax_in: "argmax f x xs \<in> set (x # xs)"
  by (induction f x xs rule: argmax.induct) (auto split: if_splits)

lemma argmax_ge: "y \<in> set (x # xs) \<Longrightarrow> f y \<le> f (argmax f x xs)"
proof (induction f x xs arbitrary: y rule: argmax.induct)
  case (1 f x)
  then show ?case by simp
next
  case (2 f x z zs)
  have "f w \<le> f (argmax f (if f x < f z then z else x) zs)"
    if "w \<in> set ((if f x < f z then z else x) # zs)" for w
    using that by (rule "2.IH")
  from this [of y] this [of "if f x < f z then z else x"] "2.prems" show ?case
    by (auto split: if_splits)
qed

text \<open>A sum over a list loses exactly the weight of the popped element.\<close>

lemma sum_list_pop_at:
  fixes f :: "'a \<Rightarrow> nat"
  shows "i < length xs \<Longrightarrow> sum_list (map f xs) = f (xs ! i) + sum_list (map f (pop_at i xs))"
  by (induction xs arbitrary: i) (auto simp: nth_Cons split: nat.splits)

section \<open>Checks\<close>

text \<open>The first of a sequence of checks that raises.\<close>

fun first_error :: "'e option list \<Rightarrow> 'e option" where
  "first_error [] = None"
| "first_error (None # es) = first_error es"
| "first_error (Some e # es) = Some e"

lemma first_error_None [simp]: "first_error es = None \<longleftrightarrow> list_all (\<lambda>e. e = None) es"
  by (induction es rule: first_error.induct) auto

section \<open>Components driven by operations\<close>

text \<open>
  The contract every stateful component offers its owner: a set of atomic operations, and
  an invariant that each of them keeps. Concurrent tasks reach a component through such
  atomic operations only (each holds the component's lock, or runs without an
  \<open>await\<close>), so an interleaving of tasks is a sequence of operations.
\<close>

locale op_system =
  fixes apply_op :: "'s \<Rightarrow> 'op \<Rightarrow> 's"
    and inv :: "'s \<Rightarrow> bool"
  assumes step_inv: "inv s \<Longrightarrow> inv (apply_op s p)"
begin

definition run :: "'s \<Rightarrow> 'op list \<Rightarrow> 's" where
  "run s ps = foldl apply_op s ps"

lemma run_simps [simp]:
  "run s [] = s" "run s (p # ps) = run (apply_op s p) ps"
  "run s (ps @ qs) = run (run s ps) qs"
  by (simp_all add: run_def)

lemma run_inv: "inv s \<Longrightarrow> inv (run s ps)"
  by (induction ps arbitrary: s) (simp_all add: step_inv)

lemma run_mono:
  fixes f :: "'s \<Rightarrow> 'k::preorder"
  assumes "\<And>t p. inv t \<Longrightarrow> f t \<le> f (apply_op t p)" and "inv s"
  shows "f s \<le> f (run s ps)"
  using \<open>inv s\<close>
proof (induction ps arbitrary: s)
  case Nil
  then show ?case by simp
next
  case (Cons p ps)
  have "f s \<le> f (apply_op s p)" using assms(1) Cons.prems .
  also have "\<dots> \<le> f (run (apply_op s p) ps)"
    using Cons.prems by (intro Cons.IH step_inv)
  finally show ?case by simp
qed

lemma run_stable:
  assumes "\<And>t p. inv t \<Longrightarrow> P t \<Longrightarrow> P (apply_op t p)" and "inv s" and "P s"
  shows "P (run s ps)"
  using assms(2,3) by (induction ps arbitrary: s) (simp_all add: step_inv assms(1))

end

end
