(* ===== verification/Mailbox.thy ===== *)
theory Mailbox
  imports Prelude
begin

text \<open>
  The bounded priority mailbox of \<^verbatim>\<open>runtime/mailbox.py\<close>. Every method runs under the
  mailbox's condition lock, so it is one atomic operation on the record below.
  \<open>_condition\<close> itself is not part of the record: a getter that finds the mailbox empty
  and open waits (\<open>Inr None\<close>), a \<open>put_wait\<close> that cannot be admitted waits
  (\<open>Inr None\<close>); waking up is running the same operation again on the mailbox as it
  is then. \<open>_space_available\<close> is the flag of the \<open>asyncio.Event\<close> on which a
  waiting \<open>put_wait\<close> blocks.
\<close>

section \<open>Data\<close>

datatype OverflowPolicy = REJECT | DROP_LOWEST | COALESCE

datatype PutOutcome = ACCEPTED | COALESCED | EVICTED_LOWEST | REJECTED_FULL | CANCELLED

datatype mailbox_error = MailboxClosed | MailboxTypeError | MailboxValueError

record 'a put_result =
  pr_outcome :: PutOutcome
  pr_item :: 'a
  pr_displaced :: "'a option"

definition outcome_accepted :: "PutOutcome \<Rightarrow> bool" where
  "outcome_accepted r \<longleftrightarrow> r = ACCEPTED \<or> r = COALESCED \<or> r = EVICTED_LOWEST"

definition pr_accepted :: "'a put_result \<Rightarrow> bool" where
  "pr_accepted r = outcome_accepted (pr_outcome r)"

record mailbox_stats =
  st_accepted :: nat
  st_dequeued :: nat
  st_coalesced :: nat
  st_rejected :: nat
  st_cancelled :: nat
  st_evicted :: nat
  st_discarded_on_close :: nat
  st_high_watermark :: nat

record 'a entry =
  e_item :: 'a
  e_priority :: int
  e_order :: nat

text \<open>
  The callables given to the constructor are fields. \<open>priority_of\<close> may return a value that
  is not an integer, which the code refuses with a \<open>TypeError\<close>: that is \<open>None\<close>.
\<close>

record ('a, 'k) mailbox =
  mb_capacity :: nat
  mb_overflow :: OverflowPolicy
  mb_priority_of :: "'a \<Rightarrow> int option"
  mb_coalesce_key :: "('a \<Rightarrow> 'k option) option"
  mb_coalescer :: "'a \<Rightarrow> 'a \<Rightarrow> 'a"
  mb_space_available :: bool
  mb_items :: "'a entry list"
  mb_next_order :: nat
  mb_closed :: bool
  mb_accepted :: nat
  mb_dequeued :: nat
  mb_coalesced :: nat
  mb_rejected :: nat
  mb_cancelled :: nat
  mb_evicted :: nat
  mb_discarded_on_close :: nat
  mb_high_watermark :: nat

definition mailbox_init ::
  "int \<Rightarrow> OverflowPolicy \<Rightarrow> ('a \<Rightarrow> int option) \<Rightarrow> ('a \<Rightarrow> 'k option) option \<Rightarrow>
   ('a \<Rightarrow> 'a \<Rightarrow> 'a) option \<Rightarrow> mailbox_error + ('a, 'k) mailbox" where
  "mailbox_init capacity overflow priority_of coalesce_key coalescer =
     (if capacity < 1 then Inl MailboxValueError
      else if overflow = COALESCE \<and> coalesce_key = None then Inl MailboxValueError
      else Inr \<lparr>mb_capacity = nat capacity, mb_overflow = overflow,
        mb_priority_of = priority_of, mb_coalesce_key = coalesce_key,
        mb_coalescer = (case coalescer of None \<Rightarrow> (\<lambda>_ new. new) | Some f \<Rightarrow> f),
        mb_space_available = True, mb_items = [], mb_next_order = 0, mb_closed = False,
        mb_accepted = 0, mb_dequeued = 0, mb_coalesced = 0, mb_rejected = 0,
        mb_cancelled = 0, mb_evicted = 0, mb_discarded_on_close = 0,
        mb_high_watermark = 0\<rparr>)"

definition mb_qsize :: "('a, 'k) mailbox \<Rightarrow> nat" where
  "mb_qsize m = length (mb_items m)"

definition mb_empty :: "('a, 'k) mailbox \<Rightarrow> bool" where
  "mb_empty m \<longleftrightarrow> mb_items m = []"

definition mb_stats :: "('a, 'k) mailbox \<Rightarrow> mailbox_stats" where
  "mb_stats m = \<lparr>st_accepted = mb_accepted m, st_dequeued = mb_dequeued m,
     st_coalesced = mb_coalesced m, st_rejected = mb_rejected m,
     st_cancelled = mb_cancelled m, st_evicted = mb_evicted m,
     st_discarded_on_close = mb_discarded_on_close m,
     st_high_watermark = mb_high_watermark m\<rparr>"

section \<open>Operations\<close>

definition mb_append :: "('a, 'k) mailbox \<Rightarrow> 'a \<Rightarrow> int \<Rightarrow> ('a, 'k) mailbox" where
  "mb_append m x p =
     (let items = mb_items m @ [\<lparr>e_item = x, e_priority = p, e_order = mb_next_order m\<rparr>]
      in m\<lparr>mb_items := items,
           mb_next_order := Suc (mb_next_order m),
           mb_accepted := Suc (mb_accepted m),
           mb_high_watermark := max (mb_high_watermark m) (length items),
           mb_space_available :=
             (if mb_capacity m \<le> length items then False else mb_space_available m)\<rparr>)"

text \<open>\<open>_matching_entry\<close>: the index of the first pending entry with the same coalescing key.\<close>

fun find_key :: "('a \<Rightarrow> 'k option) \<Rightarrow> 'k \<Rightarrow> 'a entry list \<Rightarrow> nat option" where
  "find_key key k [] = None"
| "find_key key k (e # es) =
     (if key (e_item e) = Some k then Some 0 else map_option Suc (find_key key k es))"

definition matching_entry :: "('a, 'k) mailbox \<Rightarrow> 'a \<Rightarrow> nat option" where
  "matching_entry m x =
     (case mb_coalesce_key m of None \<Rightarrow> None
      | Some key \<Rightarrow>
          (case key x of None \<Rightarrow> None | Some k \<Rightarrow> find_key key k (mb_items m)))"

text \<open>The lowest queued priority and the newest entry of that tier (an index of \<open>_items\<close>).\<close>

definition lowest_priority :: "'a entry list \<Rightarrow> int" where
  "lowest_priority es = Min (e_priority ` set es)"

definition tier_indices :: "'a entry list \<Rightarrow> int \<Rightarrow> nat list" where
  "tier_indices es p = filter (\<lambda>i. e_priority (es ! i) = p) [0..<length es]"

definition drop_index :: "'a entry list \<Rightarrow> nat" where
  "drop_index es =
     (let cs = tier_indices es (lowest_priority es)
      in argmax (\<lambda>i. e_order (es ! i)) (hd cs) (tl cs))"

text \<open>
  \<open>_try_put_locked\<close>. \<open>accept_if\<close> is what the callable of that name returns when it is
  evaluated under the lock (\<open>None\<close>: no callable given). The result \<open>Inr None\<close> is the
  method's \<open>None\<close>: not resolved, the caller has to wait.
\<close>

definition try_put_locked ::
  "('a, 'k) mailbox \<Rightarrow> 'a \<Rightarrow> int \<Rightarrow> bool \<Rightarrow> bool option \<Rightarrow> bool \<Rightarrow>
   (mailbox_error + 'a put_result option) \<times> ('a, 'k) mailbox" where
  "try_put_locked m x p reject_when_full accept_if allow_displacement =
     (if mb_closed m then (Inl MailboxClosed, m)
      else if accept_if = Some False then
        (Inr (Some \<lparr>pr_outcome = CANCELLED, pr_item = x, pr_displaced = None\<rparr>),
         m\<lparr>mb_cancelled := Suc (mb_cancelled m)\<rparr>)
      else
        (case (if mb_overflow m = COALESCE then matching_entry m x else None) of
           Some i \<Rightarrow>
             (let e = mb_items m ! i;
                  combined = mb_coalescer m (e_item e) x
              in (case mb_priority_of m combined of
                    None \<Rightarrow> (Inl MailboxTypeError, m)
                  | Some q \<Rightarrow>
                      (Inr (Some \<lparr>pr_outcome = COALESCED, pr_item = combined,
                                  pr_displaced = Some (e_item e)\<rparr>),
                       m\<lparr>mb_items := (mb_items m)[i := e\<lparr>e_item := combined, e_priority := q\<rparr>],
                         mb_accepted := Suc (mb_accepted m),
                         mb_coalesced := Suc (mb_coalesced m)\<rparr>)))
         | None \<Rightarrow>
             (if length (mb_items m) < mb_capacity m then
                (Inr (Some \<lparr>pr_outcome = ACCEPTED, pr_item = x, pr_displaced = None\<rparr>),
                 mb_append m x p)
              else if mb_overflow m = DROP_LOWEST \<and> allow_displacement \<and>
                      lowest_priority (mb_items m) < p then
                (let i = drop_index (mb_items m)
                 in (Inr (Some \<lparr>pr_outcome = EVICTED_LOWEST, pr_item = x,
                                pr_displaced = Some (e_item (mb_items m ! i))\<rparr>),
                     mb_append (m\<lparr>mb_items := pop_at i (mb_items m),
                                  mb_evicted := Suc (mb_evicted m)\<rparr>) x p))
              else if reject_when_full then
                (Inr (Some \<lparr>pr_outcome = REJECTED_FULL, pr_item = x, pr_displaced = None\<rparr>),
                 m\<lparr>mb_rejected := Suc (mb_rejected m)\<rparr>)
              else (Inr None, m))))"

text \<open>
  \<open>put\<close>: one immediate attempt. The unresolved case is the code's \<open>AssertionError\<close>; with
  \<open>reject_when_full\<close> it does not occur (\<open>try_put_resolves\<close> below), so the result carries
  it as \<open>Inr None\<close>.
\<close>

definition mb_put ::
  "('a, 'k) mailbox \<Rightarrow> 'a \<Rightarrow> (mailbox_error + 'a put_result option) \<times> ('a, 'k) mailbox" where
  "mb_put m x =
     (case mb_priority_of m x of
        None \<Rightarrow> (Inl MailboxTypeError, m)
      | Some p \<Rightarrow> try_put_locked m x p True None True)"

text \<open>\<open>get\<close>: the index of the entry delivered next, and the removal of that entry.\<close>

definition get_index :: "'a entry list \<Rightarrow> nat" where
  "get_index es =
     argmax (\<lambda>i. (e_priority (es ! i), - int (e_order (es ! i)))) 0 [1..<length es]"

definition mb_get ::
  "('a, 'k) mailbox \<Rightarrow> (mailbox_error + 'a option) \<times> ('a, 'k) mailbox" where
  "mb_get m =
     (if mb_items m = [] then
        (if mb_closed m then (Inl MailboxClosed, m) else (Inr None, m))
      else
        (let i = get_index (mb_items m)
         in (Inr (Some (e_item (mb_items m ! i))),
             m\<lparr>mb_items := pop_at i (mb_items m),
               mb_dequeued := Suc (mb_dequeued m),
               mb_space_available := True\<rparr>)))"

text \<open>The order in which \<open>close(discard=True)\<close> lists what it discards.\<close>

definition delivery :: "'a entry list \<Rightarrow> 'a entry list" where
  "delivery es = sort_key (\<lambda>e. (- e_priority e, e_order e)) es"

definition mb_close :: "('a, 'k) mailbox \<Rightarrow> bool \<Rightarrow> 'a list \<times> ('a, 'k) mailbox" where
  "mb_close m discard =
     (let m' = m\<lparr>mb_closed := True, mb_space_available := True\<rparr>
      in if discard \<and> mb_items m \<noteq> [] then
           (let discarded = map e_item (delivery (mb_items m))
            in (discarded,
                m'\<lparr>mb_items := [],
                   mb_discarded_on_close := mb_discarded_on_close m + length discarded\<rparr>))
         else ([], m'))"

text \<open>
  \<open>put_wait\<close>. Between two attempts other tasks run; what wakes the waiting call is either
  the space event (\<open>Wake_space m' a\<close>: the mailbox is then \<open>m'\<close> and \<open>accept_if\<close> gives
  \<open>a\<close>) or the completion of \<open>cancel_waiter\<close> (\<open>Wake_cancelled m'\<close>). The result
  \<open>None\<close> is a call that is still waiting when the sequence of wake-ups ends.
\<close>

datatype ('a, 'k) wake =
  Wake_space "('a, 'k) mailbox" "bool option"
| Wake_cancelled "('a, 'k) mailbox"

fun put_wait_loop ::
  "('a, 'k) mailbox \<Rightarrow> 'a \<Rightarrow> int \<Rightarrow> bool option \<Rightarrow> bool \<Rightarrow> ('a, 'k) wake list \<Rightarrow>
   (mailbox_error + 'a put_result) option \<times> ('a, 'k) mailbox" where
  "put_wait_loop m x p accept_if allow ws =
     (case try_put_locked m x p False accept_if allow of
        (Inl e, m') \<Rightarrow> (Some (Inl e), m')
      | (Inr (Some r), m') \<Rightarrow> (Some (Inr r), m')
      | (Inr None, m') \<Rightarrow>
          (case ws of
             [] \<Rightarrow> (None, m')
           | Wake_cancelled m'' # _ \<Rightarrow>
               (Some (Inr \<lparr>pr_outcome = CANCELLED, pr_item = x, pr_displaced = None\<rparr>),
                m''\<lparr>mb_cancelled := Suc (mb_cancelled m'')\<rparr>)
           | Wake_space m'' a # ws' \<Rightarrow> put_wait_loop m'' x p a allow ws'))"

declare put_wait_loop.simps [simp del]

definition mb_put_wait ::
  "('a, 'k) mailbox \<Rightarrow> 'a \<Rightarrow> bool option \<Rightarrow> bool \<Rightarrow> ('a, 'k) wake list \<Rightarrow>
   (mailbox_error + 'a put_result) option \<times> ('a, 'k) mailbox" where
  "mb_put_wait m x accept_if allow ws =
     (case mb_priority_of m x of
        None \<Rightarrow> (Some (Inl MailboxTypeError), m)
      | Some p \<Rightarrow> put_wait_loop m x p accept_if allow ws)"

section \<open>Interleaved use\<close>

text \<open>
  What the tasks sharing a mailbox do to it, one atomic operation at a time: an immediate
  put, one attempt of a waiting put, the cancellation of a waiting put, a get, a close.
\<close>

datatype 'a mb_op =
  Op_put 'a
| Op_put_attempt 'a "bool option" bool
| Op_put_cancelled
| Op_get
| Op_close bool

fun mb_apply :: "('a, 'k) mailbox \<Rightarrow> 'a mb_op \<Rightarrow> ('a, 'k) mailbox" where
  "mb_apply m (Op_put x) = snd (mb_put m x)"
| "mb_apply m (Op_put_attempt x accept_if allow) = snd (mb_put_wait m x accept_if allow [])"
| "mb_apply m Op_put_cancelled = m\<lparr>mb_cancelled := Suc (mb_cancelled m)\<rparr>"
| "mb_apply m Op_get = snd (mb_get m)"
| "mb_apply m (Op_close discard) = snd (mb_close m discard)"

section \<open>Invariant\<close>

definition entries_ok :: "nat \<Rightarrow> 'a entry list \<Rightarrow> bool" where
  "entries_ok n es \<longleftrightarrow> sorted_wrt (<) (map e_order es) \<and> (\<forall>e \<in> set es. e_order e < n)"

text \<open>
  Bounded queue, orders that identify entries, the space event set exactly when a waiting
  put may proceed (or must be told that the mailbox is closed), and the books balanced:
  every admission is still queued, was delivered, was merged into another entry, was
  evicted or was discarded by close.
\<close>

definition mailbox_inv :: "('a, 'k) mailbox \<Rightarrow> bool" where
  "mailbox_inv m \<longleftrightarrow>
     1 \<le> mb_capacity m \<and>
     length (mb_items m) \<le> mb_capacity m \<and>
     entries_ok (mb_next_order m) (mb_items m) \<and>
     mb_space_available m = (mb_closed m \<or> length (mb_items m) < mb_capacity m) \<and>
     mb_accepted m = mb_coalesced m + mb_dequeued m + mb_evicted m +
       mb_discarded_on_close m + length (mb_items m) \<and>
     length (mb_items m) \<le> mb_high_watermark m \<and>
     mb_high_watermark m \<le> mb_capacity m"

lemma entries_ok_Nil [simp]: "entries_ok n []"
  by (simp add: entries_ok_def)

lemma entries_ok_snoc:
  "entries_ok n es \<Longrightarrow> entries_ok (Suc n) (es @ [\<lparr>e_item = x, e_priority = p, e_order = n\<rparr>])"
  by (auto simp: entries_ok_def sorted_wrt_append)

lemma entries_ok_pop_at: "entries_ok n es \<Longrightarrow> entries_ok n (pop_at i es)"
  using set_pop_at_subset [of i es]
  by (auto simp: entries_ok_def map_pop_at intro: sorted_wrt_pop_at)

lemma entries_ok_update:
  assumes "entries_ok n es" and "e_order e = e_order (es ! i)"
  shows "entries_ok n (es[i := e])"
proof (cases "i < length es")
  case True
  have "map e_order (es[i := e]) = map e_order es"
    using True assms(2) by (simp add: map_update list_update_same_conv)
  moreover have "\<forall>d \<in> set (es[i := e]). e_order d < n"
    using assms True by (auto simp: entries_ok_def dest!: set_update_subset_insert [THEN subsetD])
  ultimately show ?thesis using assms(1) by (simp add: entries_ok_def)
next
  case False
  with assms(1) show ?thesis by (simp add: list_update_beyond)
qed

lemma tier_indices_nonempty:
  assumes "es \<noteq> []"
  shows "tier_indices es (lowest_priority es) \<noteq> []"
proof -
  have "lowest_priority es \<in> e_priority ` set es"
    unfolding lowest_priority_def using assms by (intro Min_in) auto
  then obtain i where "i < length es" "e_priority (es ! i) = lowest_priority es"
    by (auto simp: in_set_conv_nth)
  then show ?thesis by (auto simp: tier_indices_def filter_empty_conv)
qed

lemma drop_index_in: 
  assumes "es \<noteq> []"
  shows "drop_index es \<in> set (tier_indices es (lowest_priority es))"
proof -
  let ?cs = "tier_indices es (lowest_priority es)"
  have "argmax (\<lambda>i. e_order (es ! i)) (hd ?cs) (tl ?cs) \<in> set (hd ?cs # tl ?cs)"
    by (rule argmax_in)
  then show ?thesis using tier_indices_nonempty [OF assms] by (simp add: drop_index_def Let_def)
qed

lemma drop_index_less: "es \<noteq> [] \<Longrightarrow> drop_index es < length es"
  using drop_index_in [of es] by (simp add: tier_indices_def)

lemma get_index_less: "es \<noteq> [] \<Longrightarrow> get_index es < length es"
  using argmax_in [of "\<lambda>i. (e_priority (es ! i), - int (e_order (es ! i)))" 0 "[1..<length es]"]
  by (auto simp: get_index_def)

lemma find_key_less: "find_key key k es = Some i \<Longrightarrow> i < length es"
  by (induction es arbitrary: i) (auto split: if_splits)

lemma mb_append_inv:
  assumes "mailbox_inv (m\<lparr>mb_space_available := True\<rparr>)" "\<not> mb_closed m"
    "length (mb_items m) < mb_capacity m" "mb_space_available m \<or> length (mb_items m) + 1 = mb_capacity m"
  shows "mailbox_inv (mb_append m x p)"
  using assms by (auto simp: mailbox_inv_def mb_append_def Let_def intro: entries_ok_snoc)

lemma length_lt_capacity_ne: "mailbox_inv m \<Longrightarrow> \<not> length (mb_items m) < mb_capacity m \<Longrightarrow> mb_items m \<noteq> []"
  by (auto simp: mailbox_inv_def)

lemma try_put_inv:
  assumes inv: "mailbox_inv m"
  shows "mailbox_inv (snd (try_put_locked m x p rej acc allow))"
proof -
  have append: "mailbox_inv (mb_append m x p)"
    if "\<not> mb_closed m" "length (mb_items m) < mb_capacity m"
    using that inv by (intro mb_append_inv) (auto simp: mailbox_inv_def)
  have evict: "mailbox_inv (mb_append (m\<lparr>mb_items := pop_at (drop_index (mb_items m)) (mb_items m),
        mb_evicted := Suc (mb_evicted m)\<rparr>) x p)"
    if "\<not> mb_closed m" "\<not> length (mb_items m) < mb_capacity m"
  proof -
    have ne: "mb_items m \<noteq> []" using inv that(2) by (rule length_lt_capacity_ne)
    then show ?thesis
      using inv that drop_index_less [OF ne] by (intro mb_append_inv)
        (auto simp: mailbox_inv_def entries_ok_pop_at neq_Nil_conv)
  qed
  have coal: "mailbox_inv (m\<lparr>mb_items := (mb_items m)[i := (mb_items m ! i)\<lparr>e_item := y, e_priority := q\<rparr>],
        mb_accepted := Suc (mb_accepted m), mb_coalesced := Suc (mb_coalesced m)\<rparr>)" for i y q
    using inv by (auto simp: mailbox_inv_def intro: entries_ok_update)
  from inv append evict coal show ?thesis
    by (auto simp: try_put_locked_def Let_def mailbox_inv_def [of "m\<lparr>mb_cancelled := _\<rparr>"]
        mailbox_inv_def [of "m\<lparr>mb_rejected := _\<rparr>"] mailbox_inv_def [of m] split: option.splits if_splits)
qed

lemma mb_put_inv: "mailbox_inv m \<Longrightarrow> mailbox_inv (snd (mb_put m x))"
  by (simp add: mb_put_def try_put_inv split: option.split)

lemma put_wait_attempt:
  "snd (mb_put_wait m x acc allow []) =
     (case mb_priority_of m x of None \<Rightarrow> m | Some p \<Rightarrow> snd (try_put_locked m x p False acc allow))"
  by (simp add: mb_put_wait_def put_wait_loop.simps split: option.splits prod.splits sum.splits)

lemma mb_get_inv: "mailbox_inv m \<Longrightarrow> mailbox_inv (snd (mb_get m))"
  using get_index_less [of "mb_items m"]
  by (auto simp: mb_get_def mailbox_inv_def Let_def entries_ok_pop_at)

lemma length_delivery [simp]: "length (delivery es) = length es"
  by (simp add: delivery_def)

lemma mb_close_inv: "mailbox_inv m \<Longrightarrow> mailbox_inv (snd (mb_close m discard))"
  by (auto simp: mb_close_def mailbox_inv_def Let_def)

lemma mb_apply_inv: "mailbox_inv m \<Longrightarrow> mailbox_inv (mb_apply m p)"
proof (cases p)
  case (Op_put_attempt x acc allow)
  then show "mailbox_inv m \<Longrightarrow> ?thesis"
    by (auto simp: put_wait_attempt try_put_inv split: option.split)
next
  case Op_put_cancelled
  then show "mailbox_inv m \<Longrightarrow> ?thesis" by (simp add: mailbox_inv_def)
qed (simp_all add: mb_put_inv mb_get_inv mb_close_inv)

lemma mailbox_init_inv: "mailbox_init c ov pf ck co = Inr m \<Longrightarrow> mailbox_inv m"
  by (auto simp: mailbox_init_def mailbox_inv_def split: if_splits)

interpretation mb: op_system mb_apply mailbox_inv
  by unfold_locales (rule mb_apply_inv)

section \<open>Delivery order: refinement of a sorted queue\<close>

text \<open>
  The abstract view of a mailbox is the list of its entries in delivery order. The code
  never sorts its list: it searches it on every get and every eviction.
\<close>

abbreviation rank :: "'a entry \<Rightarrow> int \<times> nat" where
  "rank e \<equiv> (- e_priority e, e_order e)"

lemma mset_delivery [simp]: "mset (delivery es) = mset es"
  by (simp add: delivery_def)

lemma set_delivery [simp]: "set (delivery es) = set es"
  by (simp add: delivery_def)

lemma sorted_delivery: "sorted (map rank (delivery es))"
  unfolding delivery_def by (rule sorted_sort_key)

lemma delivery_Nil_iff [simp]: "delivery es = [] \<longleftrightarrow> es = []"
  by (metis length_0_conv length_delivery)

lemma delivery_Nil [simp]: "delivery [] = []"
  by simp

lemma inj_rank: "entries_ok n es \<Longrightarrow> inj_on rank (set es)"
proof (rule inj_onI)
  fix a b assume ok: "entries_ok n es" and "a \<in> set es" "b \<in> set es" "rank a = rank b"
  then obtain i j where "i < length es" "j < length es" "a = es ! i" "b = es ! j"
    by (auto simp: in_set_conv_nth)
  moreover from ok have "distinct (map e_order es)"
    by (simp add: entries_ok_def strict_sorted_iff)
  ultimately have "i = j"
    using \<open>rank a = rank b\<close> by (auto simp: distinct_conv_nth)
  then show "a = b" using \<open>a = es ! i\<close> \<open>b = es ! j\<close> by simp
qed

lemma sorted_rank_unique:
  assumes "mset xs = mset ys" "sorted (map rank xs)" "sorted (map rank ys)" "inj_on rank (set xs)"
  shows "xs = ys"
proof -
  have "mset (map rank xs) = mset (map rank ys)" using assms(1) by simp
  then have "map rank xs = map rank ys"
    using assms(2,3) by (metis sorted_sort_id properties_for_sort)
  moreover have "set ys = set xs" using assms(1) by (metis set_mset_mset)
  ultimately show ?thesis using assms(4) by (simp add: map_inj_on)
qed

lemma delivery_unique:
  assumes "entries_ok n es" "mset xs = mset es" "sorted (map rank xs)"
  shows "delivery es = xs"
proof (rule sorted_rank_unique)
  show "mset (delivery es) = mset xs" using assms(2) by simp
  show "sorted (map rank (delivery es))" by (rule sorted_delivery)
  show "sorted (map rank xs)" by fact
  show "inj_on rank (set (delivery es))" using inj_rank [OF assms(1)] by simp
qed

lemma get_index_minimal:
  assumes "e \<in> set es"
  shows "rank (es ! get_index es) \<le> rank e"
proof -
  obtain i where i: "i < length es" "e = es ! i" using assms by (auto simp: in_set_conv_nth)
  let ?f = "\<lambda>i. (e_priority (es ! i), - int (e_order (es ! i)))"
  have "?f i \<le> ?f (argmax ?f 0 [1..<length es])"
    by (rule argmax_ge) (use i in auto)
  then show ?thesis using i by (auto simp: get_index_def)
qed

lemma delivery_get:
  assumes "entries_ok n es" "es \<noteq> []"
  shows "delivery es = es ! get_index es # delivery (pop_at (get_index es) es)"
proof (rule delivery_unique [OF assms(1)])
  let ?i = "get_index es"
  have i: "?i < length es" using assms(2) by (rule get_index_less)
  show "mset (es ! ?i # delivery (pop_at ?i es)) = mset es"
    using mset_pop_at [OF i] by simp
  have "rank (es ! ?i) \<le> rank e" if "e \<in> set (pop_at ?i es)" for e
    using that set_pop_at_subset [of ?i es] get_index_minimal by (metis subsetD)
  then show "sorted (map rank (es ! ?i # delivery (pop_at ?i es)))"
    using sorted_delivery by simp
qed

lemma drop_index_maximal:
  assumes "e \<in> set es" "es \<noteq> []"
  shows "rank e \<le> rank (es ! drop_index es)"
proof -
  let ?low = "lowest_priority es" and ?cs = "tier_indices es (lowest_priority es)"
  have prio: "e_priority (es ! drop_index es) = ?low"
    using drop_index_in [OF assms(2)] by (simp add: tier_indices_def)
  have low: "?low \<le> e_priority e"
    unfolding lowest_priority_def using assms(1) by (intro Min_le) auto
  obtain i where i: "i < length es" "e = es ! i" using assms(1) by (auto simp: in_set_conv_nth)
  show ?thesis
  proof (cases "e_priority e = ?low")
    case True
    then have "i \<in> set ?cs" using i by (simp add: tier_indices_def)
    then have "e_order (es ! i) \<le> e_order (es ! argmax (\<lambda>i. e_order (es ! i)) (hd ?cs) (tl ?cs))"
      using tier_indices_nonempty [OF assms(2)] by (intro argmax_ge) (simp)
    then show ?thesis using True prio i by (simp add: drop_index_def Let_def)
  next
    case False
    then show ?thesis using low prio by simp
  qed
qed

lemma delivery_drop:
  assumes "entries_ok n es" "es \<noteq> []"
  shows "delivery es = delivery (pop_at (drop_index es) es) @ [es ! drop_index es]"
proof (rule delivery_unique [OF assms(1)])
  let ?i = "drop_index es"
  have i: "?i < length es" using assms(2) by (rule drop_index_less)
  show "mset (delivery (pop_at ?i es) @ [es ! ?i]) = mset es"
    using mset_pop_at [OF i] by simp
  have "rank e \<le> rank (es ! ?i)" if "e \<in> set (pop_at ?i es)" for e
    using that set_pop_at_subset [of ?i es] drop_index_maximal by (metis assms(2) subsetD)
  then show "sorted (map rank (delivery (pop_at ?i es) @ [es ! ?i]))"
    using sorted_delivery by (auto simp: sorted_append)
qed

lemma delivery_snoc:
  assumes "entries_ok n es"
  shows "delivery (es @ [\<lparr>e_item = x, e_priority = p, e_order = n\<rparr>]) =
    insort_key rank \<lparr>e_item = x, e_priority = p, e_order = n\<rparr> (delivery es)"
  by (rule delivery_unique [OF entries_ok_snoc [OF assms]])
    (simp_all add: sorted_delivery sorted_insort_key)

text \<open>
  A consumer's view of a source of items: what is pending comes out one item per get, in
  order. \<open>drain\<close> takes up to \<open>n\<close> items and stops early at a wait or an exception.
\<close>

primrec drain :: "('s \<Rightarrow> ('e + 'a option) \<times> 's) \<Rightarrow> nat \<Rightarrow> 's \<Rightarrow> 'a list \<times> 's" where
  "drain get 0 s = ([], s)"
| "drain get (Suc n) s =
     (case get s of
        (Inr (Some x), s') \<Rightarrow> (let (xs, s'') = drain get n s' in (x # xs, s''))
      | (_, s') \<Rightarrow> ([], s'))"

locale delivering =
  fixes get :: "'s \<Rightarrow> ('e + 'a option) \<times> 's"
    and pending :: "'s \<Rightarrow> 'a list"
    and invar :: "'s \<Rightarrow> bool"
  assumes get_next: "invar s \<Longrightarrow> pending s = x # xs \<Longrightarrow>
      \<exists>s'. get s = (Inr (Some x), s') \<and> pending s' = xs \<and> invar s'"
begin

lemma drain_prefix:
  "invar s \<Longrightarrow> n \<le> length (pending s) \<Longrightarrow>
   \<exists>s'. drain get n s = (take n (pending s), s') \<and> pending s' = drop n (pending s) \<and> invar s'"
proof (induction n arbitrary: s)
  case 0
  then show ?case by simp
next
  case (Suc n)
  then obtain x xs where p: "pending s = x # xs" by (cases "pending s") auto
  from get_next [OF Suc.prems(1) p] obtain s' where
    s': "get s = (Inr (Some x), s')" "pending s' = xs" "invar s'" by blast
  with Suc.prems p have "n \<le> length (pending s')" by simp
  from Suc.IH [OF s'(3) this] show ?case using s' p by auto
qed

lemma drain_all:
  assumes "invar s"
  shows "\<exists>s'. drain get (length (pending s)) s = (pending s, s') \<and> pending s' = [] \<and> invar s'"
  using drain_prefix [OF assms order.refl] by auto

end

definition mb_pending :: "('a, 'k) mailbox \<Rightarrow> 'a list" where
  "mb_pending m = map e_item (delivery (mb_items m))"

lemma mb_get_delivery:
  assumes "mailbox_inv m" "mb_items m \<noteq> []"
  shows "\<exists>m'. mb_get m = (Inr (Some (e_item (hd (delivery (mb_items m))))), m') \<and>
    delivery (mb_items m') = tl (delivery (mb_items m)) \<and>
    mb_closed m' = mb_closed m \<and> mailbox_inv m'"
proof -
  have ok: "entries_ok (mb_next_order m) (mb_items m)" using assms(1) by (simp add: mailbox_inv_def)
  from mb_get_inv [OF assms(1)] assms(2) show ?thesis
    by (auto simp: mb_get_def Let_def delivery_get [OF ok assms(2)])
qed

lemma mb_get_pending:
  assumes "mailbox_inv m" "mb_pending m = x # xs"
  shows "\<exists>m'. mb_get m = (Inr (Some x), m') \<and> mb_pending m' = xs \<and>
    mb_closed m' = mb_closed m \<and> mailbox_inv m'"
proof -
  from assms(2) have "mb_items m \<noteq> []" by (auto simp: mb_pending_def)
  from mb_get_delivery [OF assms(1) this] show ?thesis using assms(2)
    by (auto simp: mb_pending_def map_tl)
qed

interpretation mbd: delivering mb_get mb_pending "\<lambda>m. mailbox_inv m \<and> mb_closed m = b" for b
proof
  fix m :: "('a, 'k) mailbox" and x xs
  assume "mailbox_inv m \<and> mb_closed m = b" and "mb_pending m = x # xs"
  then show "\<exists>m'. mb_get m = (Inr (Some x), m') \<and> mb_pending m' = xs \<and>
      mailbox_inv m' \<and> mb_closed m' = b"
    using mb_get_pending [of m x xs] by auto
qed

section \<open>Properties\<close>

text \<open>C1: Whatever the tasks that share a mailbox do, in whatever order, the queue never
  exceeds its capacity, the high watermark records a reached size within it, and the
  statistics balance: each accepted item was merged into a pending one, delivered,
  evicted, discarded by close, or is still queued.\<close>

theorem mailbox_bounded_and_accounted:
  assumes "mailbox_init c ov pf ck co = Inr m"
  shows "let m' = foldl mb_apply m ops; st = mb_stats m' in
    mb_qsize m' \<le> nat c \<and> mb_qsize m' \<le> st_high_watermark st \<and> st_high_watermark st \<le> nat c \<and>
    st_accepted st = st_coalesced st + st_dequeued st + st_evicted st +
      st_discarded_on_close st + mb_qsize m'"
proof -
  have cap: "mb_capacity (foldl mb_apply m ops) = nat c"
  proof -
    have "mb_capacity (mb_apply m p) = mb_capacity m" for m :: "('a, 'b) mailbox" and p
      by (cases p) (auto simp: mb_put_def put_wait_attempt try_put_locked_def mb_append_def Let_def
          mb_get_def mb_close_def split: option.splits)
    then have "mb_capacity (foldl mb_apply m ops) = mb_capacity m"
      by (induction ops arbitrary: m) simp_all
    then show ?thesis using assms by (auto simp: mailbox_init_def split: if_splits)
  qed
  have "mailbox_inv (foldl mb_apply m ops)"
    using mb.run_inv [OF mailbox_init_inv [OF assms]] by (simp add: mb.run_def)
  then show ?thesis
    using cap by (simp add: mailbox_inv_def mb_qsize_def mb_stats_def Let_def)
qed

text \<open>A graceful close loses nothing: after \<open>close(discard=False)\<close> successive gets
  return exactly the queued items, higher priorities first and first-in-first-out within
  a priority, and the get after the last one raises \<open>MailboxClosed\<close>.\<close>

theorem mailbox_graceful_close_drains:
  assumes "mailbox_inv m"
  shows "let m' = snd (mb_close m False); n = mb_qsize m; (xs, m'') = drain mb_get n m' in
    xs = map e_item (sort_key (\<lambda>e. (- e_priority e, e_order e)) (mb_items m)) \<and>
    fst (mb_get m'') = Inl MailboxClosed"
proof -
  let ?m = "snd (mb_close m False)"
  have pend: "mb_pending ?m = mb_pending m" and cl: "mb_closed ?m"
    by (simp_all add: mb_close_def mb_pending_def)
  have n: "length (mb_pending m) = mb_qsize m"
    by (simp add: mb_pending_def mb_qsize_def)
  obtain m'' where dr: "drain mb_get (mb_qsize m) ?m = (mb_pending m, m'')"
    and e: "mb_pending m'' = []" and c: "mb_closed m''"
    using mbd.drain_all [of ?m True] mb_close_inv [OF assms] cl by (auto simp: n pend)
  have "mb_items m'' = []" using e by (simp add: mb_pending_def)
  then have "fst (mb_get m'') = Inl MailboxClosed" using c by (simp add: mb_get_def)
  then show ?thesis using dr by (simp add: Let_def mb_pending_def delivery_def)
qed

text \<open>Overflow under \<open>DROP_LOWEST\<close>. On a full, open mailbox an immediate put is
  admitted exactly when it is strictly more important than the last entry in delivery
  order; that entry (the newest of the lowest tier) is displaced and reported, and the new
  one takes its place in the order. Otherwise the put is rejected and what is queued stays
  as it is.\<close>

theorem drop_lowest_displaces_last:
  assumes inv: "mailbox_inv m" and op: "\<not> mb_closed m" and ov: "mb_overflow m = DROP_LOWEST"
    and full: "mb_qsize m = mb_capacity m" and pf: "mb_priority_of m x = Some p"
  shows "let (r, m') = mb_put m x; d = delivery (mb_items m);
             e = \<lparr>e_item = x, e_priority = p, e_order = mb_next_order m\<rparr> in
    (if e_priority (last d) < p
     then r = Inr (Some \<lparr>pr_outcome = EVICTED_LOWEST, pr_item = x,
                         pr_displaced = Some (e_item (last d))\<rparr>) \<and>
          delivery (mb_items m') = insort_key (\<lambda>e. (- e_priority e, e_order e)) e (butlast d)
     else r = Inr (Some \<lparr>pr_outcome = REJECTED_FULL, pr_item = x, pr_displaced = None\<rparr>) \<and>
          mb_items m' = mb_items m)"
proof -
  let ?es = "mb_items m"
  have ok: "entries_ok (mb_next_order m) ?es" and ne: "?es \<noteq> []"
    using inv full by (auto simp: mailbox_inv_def mb_qsize_def)
  have d: "delivery ?es = delivery (pop_at (drop_index ?es) ?es) @ [?es ! drop_index ?es]"
    using ok ne by (rule delivery_drop)
  have low: "e_priority (?es ! drop_index ?es) = lowest_priority ?es"
    using drop_index_in [OF ne] by (simp add: tier_indices_def)
  have snoc: "delivery (pop_at (drop_index ?es) ?es @ [\<lparr>e_item = x, e_priority = p, e_order = mb_next_order m\<rparr>])
      = insort_key rank \<lparr>e_item = x, e_priority = p, e_order = mb_next_order m\<rparr>
          (delivery (pop_at (drop_index ?es) ?es))"
    using entries_ok_pop_at [OF ok] by (rule delivery_snoc)
  show ?thesis
    using full op ov pf low snoc
    by (simp add: mb_put_def try_put_locked_def Let_def mb_qsize_def mb_append_def d)
qed

text \<open>\<open>put_wait\<close> is lossless and never spins. Without displacement allowed, no attempt
  removes a queued entry: what was queued is still queued, at the same place, with at most
  one entry merged or one appended. An attempt that does not resolve leaves the mailbox as
  it was and the space event clear, so the caller blocks until a get or a close sets it.\<close>

theorem put_wait_lossless:
  assumes inv: "mailbox_inv m"
  shows "let (r, m') = try_put_locked m x p False accept_if False in
    length (mb_items m) \<le> length (mb_items m') \<and>
    map e_order (mb_items m) = take (length (mb_items m)) (map e_order (mb_items m')) \<and>
    mb_evicted m' = mb_evicted m \<and>
    (r = Inr None \<longrightarrow> m' = m \<and> \<not> mb_space_available m \<and> mb_qsize m = mb_capacity m)"
proof -
  have upd: "map e_order ((mb_items m)[i := (mb_items m ! i)\<lparr>e_item := y, e_priority := q\<rparr>]) =
      map e_order (mb_items m)" for i y q
    by (cases "i < length (mb_items m)")
      (auto simp: map_update list_update_same_conv list_update_beyond)
  show ?thesis using inv
    by (auto simp: try_put_locked_def Let_def mb_append_def upd mailbox_inv_def mb_qsize_def
        split: option.splits)
qed

section \<open>Witnesses\<close>

definition demo_mailbox :: "(int, unit) mailbox" where
  "demo_mailbox = projr (mailbox_init 2 DROP_LOWEST Some None None)"

lemma demo_mailbox_init: "mailbox_init 2 DROP_LOWEST Some None None = Inr demo_mailbox"
  by (simp add: demo_mailbox_def mailbox_init_def)

definition demo_full :: "(int, unit) mailbox" where
  "demo_full = foldl mb_apply demo_mailbox [Op_put 5, Op_put 7]"

lemma demo_full_inv: "mailbox_inv demo_full"
  unfolding demo_full_def
  by (rule mb.run_inv [OF mailbox_init_inv [OF demo_mailbox_init], unfolded mb.run_def])

theorem mailbox_bounded_and_accounted_witness:
  "mailbox_init 2 DROP_LOWEST Some None None = Inr demo_mailbox \<and>
   (let m' = foldl mb_apply demo_mailbox [Op_put 5, Op_put 7, Op_put 9, Op_put 1, Op_get];
        st = mb_stats m' in
    mb_qsize m' \<le> nat 2 \<and> mb_qsize m' \<le> st_high_watermark st \<and> st_high_watermark st \<le> nat 2 \<and>
    st_accepted st = st_coalesced st + st_dequeued st + st_evicted st +
      st_discarded_on_close st + mb_qsize m')"
  using demo_mailbox_init mailbox_bounded_and_accounted [OF demo_mailbox_init] by (rule conjI)

lemma demo_run_stats:
  "mb_stats (foldl mb_apply demo_mailbox [Op_put 5, Op_put 7, Op_put 9, Op_put 1, Op_get]) =
   \<lparr>st_accepted = 3, st_dequeued = 1, st_coalesced = 0, st_rejected = 1, st_cancelled = 0,
    st_evicted = 1, st_discarded_on_close = 0, st_high_watermark = 2\<rparr>"
  by code_simp

theorem mailbox_graceful_close_drains_witness:
  "mailbox_inv demo_full \<and>
   (let m' = snd (mb_close demo_full False); n = mb_qsize demo_full; (xs, m'') = drain mb_get n m' in
    xs = map e_item (sort_key (\<lambda>e. (- e_priority e, e_order e)) (mb_items demo_full)) \<and>
    fst (mb_get m'') = Inl MailboxClosed)"
  using demo_full_inv mailbox_graceful_close_drains [OF demo_full_inv] by (rule conjI)

lemma demo_drain: "fst (drain mb_get 2 (snd (mb_close demo_full False))) = [7, 5]"
  by code_simp

lemma demo_full_shape:
  "\<not> mb_closed demo_full" "mb_overflow demo_full = DROP_LOWEST"
  "mb_qsize demo_full = mb_capacity demo_full" "mb_priority_of demo_full 9 = Some 9"
  by code_simp+

theorem drop_lowest_displaces_last_witness:
  "let (r, m') = mb_put demo_full 9; d = delivery (mb_items demo_full);
       e = \<lparr>e_item = 9, e_priority = 9, e_order = mb_next_order demo_full\<rparr> in
    (if e_priority (last d) < 9
     then r = Inr (Some \<lparr>pr_outcome = EVICTED_LOWEST, pr_item = 9,
                         pr_displaced = Some (e_item (last d))\<rparr>) \<and>
          delivery (mb_items m') = insort_key (\<lambda>e. (- e_priority e, e_order e)) e (butlast d)
     else r = Inr (Some \<lparr>pr_outcome = REJECTED_FULL, pr_item = 9, pr_displaced = None\<rparr>) \<and>
          mb_items m' = mb_items demo_full)"
  by (rule drop_lowest_displaces_last [OF demo_full_inv demo_full_shape])

lemma demo_displaced:
  "fst (mb_put demo_full 9) =
     Inr (Some \<lparr>pr_outcome = EVICTED_LOWEST, pr_item = 9, pr_displaced = Some 5\<rparr>)"
  by code_simp

theorem put_wait_lossless_witness:
  "mailbox_inv demo_full \<and>
   (let (r, m') = try_put_locked demo_full 9 9 False None False in
    length (mb_items demo_full) \<le> length (mb_items m') \<and>
    map e_order (mb_items demo_full) = take (length (mb_items demo_full)) (map e_order (mb_items m')) \<and>
    mb_evicted m' = mb_evicted demo_full \<and>
    (r = Inr None \<longrightarrow> m' = demo_full \<and> \<not> mb_space_available demo_full \<and>
       mb_qsize demo_full = mb_capacity demo_full))"
  using demo_full_inv put_wait_lossless [OF demo_full_inv] by (rule conjI)

end
