(* ===== verification/Generations.thy ===== *)
theory Generations
  imports Prelude
begin

text \<open>
  Generation-based cancellation, \<^verbatim>\<open>runtime/cancellation.py\<close>. A token shares its
  \<open>_CancellationState\<close> object with the source that issued it, so cancelling the source's
  current state is seen through every token of that generation. The model keeps these
  objects in a store, a list of states addressed by index; the source and the tokens
  hold addresses. The source's lock makes each method one atomic operation. A monotonic
  clock reading is an argument of the operations that take one.
\<close>

section \<open>Data\<close>

type_synonym generation = int

record cancel_state =
  cs_event :: bool
  cs_reason :: "pystr option"
  cs_cancelled_at_ms :: "int option"

type_synonym cs_addr = nat

record cancel_token =
  tk_generation :: generation
  tk_state :: cs_addr

record cancel_source =
  src_generation :: generation
  src_state :: cs_addr
  src_closed :: bool
  src_store :: "cancel_state list"

datatype cancel_error =
  CancelValueError
| SourceClosed
| StaleGenerationError generation generation bool
| CancelledError pystr

definition new_state :: cancel_state where
  "new_state = \<lparr>cs_event = False, cs_reason = None, cs_cancelled_at_ms = None\<rparr>"

text \<open>\<open>CancellationGeneration.__post_init__\<close> and \<open>next\<close>.\<close>

definition make_generation :: "int \<Rightarrow> cancel_error + generation" where
  "make_generation v = (if v < 0 then Inl CancelValueError else Inr v)"

definition next_generation :: "generation \<Rightarrow> cancel_error + generation" where
  "next_generation g = make_generation (g + 1)"

section \<open>Operations\<close>

text \<open>\<open>_CancellationState.cancel\<close>: the first cancellation wins; later ones change nothing.\<close>

definition state_cancel :: "pystr \<Rightarrow> int \<Rightarrow> cancel_state \<Rightarrow> bool \<times> cancel_state" where
  "state_cancel reason now_ns st =
     (if cs_event st then (False, st)
      else (True, st\<lparr>cs_reason := Some reason,
                     cs_cancelled_at_ms := Some (now_ns div 1000000),
                     cs_event := True\<rparr>))"

definition source_init :: "int \<Rightarrow> cancel_error + cancel_source" where
  "source_init initial =
     (case make_generation initial of
        Inl e \<Rightarrow> Inl e
      | Inr g \<Rightarrow> Inr \<lparr>src_generation = g, src_state = 0, src_closed = False,
                      src_store = [new_state]\<rparr>)"

definition current_state :: "cancel_source \<Rightarrow> cancel_state" where
  "current_state s = src_store s ! src_state s"

definition source_token :: "cancel_source \<Rightarrow> cancel_token" where
  "source_token s = \<lparr>tk_generation = src_generation s, tk_state = src_state s\<rparr>"

definition cancel_state_of :: "cancel_source \<Rightarrow> pystr \<Rightarrow> int \<Rightarrow> bool \<times> cancel_source" where
  "cancel_state_of s reason now =
     (let (changed, st) = state_cancel reason now (current_state s)
      in (changed, s\<lparr>src_store := (src_store s)[src_state s := st]\<rparr>))"

definition advance ::
  "cancel_source \<Rightarrow> pystr \<Rightarrow> int \<Rightarrow> (cancel_error + cancel_token) \<times> cancel_source" where
  "advance s reason now =
     (if blank reason then (Inl CancelValueError, s)
      else if src_closed s then (Inl SourceClosed, s)
      else
        (let s1 = snd (cancel_state_of s reason now)
         in (case next_generation (src_generation s1) of
               Inl e \<Rightarrow> (Inl e, s1)
             | Inr g \<Rightarrow>
                 (let s2 = s1\<lparr>src_generation := g, src_state := length (src_store s1),
                              src_store := src_store s1 @ [new_state]\<rparr>
                  in (Inr (source_token s2), s2)))))"

definition cancel_current ::
  "cancel_source \<Rightarrow> pystr \<Rightarrow> int \<Rightarrow> (cancel_error + bool) \<times> cancel_source" where
  "cancel_current s reason now =
     (if blank reason then (Inl CancelValueError, s)
      else let (changed, s') = cancel_state_of s reason now in (Inr changed, s'))"

definition source_close ::
  "cancel_source \<Rightarrow> pystr \<Rightarrow> int \<Rightarrow> (cancel_error + bool) \<times> cancel_source" where
  "source_close s reason now =
     (if blank reason then (Inl CancelValueError, s)
      else let (changed, s') = cancel_state_of s reason now
           in (Inr changed, s'\<lparr>src_closed := True\<rparr>))"

definition accepts :: "cancel_source \<Rightarrow> generation \<Rightarrow> bool" where
  "accepts s g \<longleftrightarrow> \<not> src_closed s \<and> g = src_generation s \<and> \<not> cs_event (current_state s)"

definition ensure_current :: "cancel_source \<Rightarrow> generation \<Rightarrow> cancel_error + cancel_token" where
  "ensure_current s g =
     (let cancelled = src_closed s \<or> cs_event (current_state s)
      in if g \<noteq> src_generation s \<or> cancelled
         then Inl (StaleGenerationError g (src_generation s) cancelled)
         else Inr (source_token s))"

text \<open>\<open>CancellationToken\<close>: a read-only view through the shared state.\<close>

definition token_cancelled :: "cancel_source \<Rightarrow> cancel_token \<Rightarrow> bool" where
  "token_cancelled s t = cs_event (src_store s ! tk_state t)"

definition token_reason :: "cancel_source \<Rightarrow> cancel_token \<Rightarrow> pystr option" where
  "token_reason s t = cs_reason (src_store s ! tk_state t)"

definition token_cancelled_at_ms :: "cancel_source \<Rightarrow> cancel_token \<Rightarrow> int option" where
  "token_cancelled_at_ms s t = cs_cancelled_at_ms (src_store s ! tk_state t)"

definition reason_or_default :: "pystr option \<Rightarrow> pystr" where
  "reason_or_default r = (case r of None \<Rightarrow> lit ''cancelled''
     | Some x \<Rightarrow> if x = [] then lit ''cancelled'' else x)"

text \<open>\<open>wait_cancelled\<close> returns once the event is set (\<open>None\<close>: it still waits).\<close>

definition wait_cancelled :: "cancel_source \<Rightarrow> cancel_token \<Rightarrow> pystr option" where
  "wait_cancelled s t =
     (if token_cancelled s t then Some (reason_or_default (token_reason s t)) else None)"

definition raise_if_cancelled :: "cancel_source \<Rightarrow> cancel_token \<Rightarrow> cancel_error + unit" where
  "raise_if_cancelled s t =
     (if token_cancelled s t then Inl (CancelledError (reason_or_default (token_reason s t)))
      else Inr ())"

section \<open>Interleaved use and invariant\<close>

datatype cancel_op = Op_advance pystr int | Op_cancel_current pystr int | Op_source_close pystr int

fun cancel_apply :: "cancel_source \<Rightarrow> cancel_op \<Rightarrow> cancel_source" where
  "cancel_apply s (Op_advance r now) = snd (advance s r now)"
| "cancel_apply s (Op_cancel_current r now) = snd (cancel_current s r now)"
| "cancel_apply s (Op_source_close r now) = snd (source_close s r now)"

text \<open>
  The store holds one state per generation issued so far, the newest one last; every
  older state is cancelled, and a closed source has its current state cancelled.
\<close>

definition source_inv :: "cancel_source \<Rightarrow> bool" where
  "source_inv s \<longleftrightarrow>
     0 \<le> src_generation s \<and>
     length (src_store s) = Suc (src_state s) \<and>
     (\<forall>i < src_state s. cs_event (src_store s ! i)) \<and>
     (src_closed s \<longrightarrow> cs_event (current_state s))"

lemma state_cancel_event [simp]: "cs_event (snd (state_cancel r now st))"
  by (simp add: state_cancel_def)

lemma state_cancel_id: "cs_event st \<Longrightarrow> state_cancel r now st = (False, st)"
  by (simp add: state_cancel_def)

lemma cancel_state_of_simps [simp]:
  "src_generation (snd (cancel_state_of s r now)) = src_generation s"
  "src_state (snd (cancel_state_of s r now)) = src_state s"
  "src_closed (snd (cancel_state_of s r now)) = src_closed s"
  "src_store (snd (cancel_state_of s r now)) =
     (src_store s)[src_state s := snd (state_cancel r now (current_state s))]"
  by (simp_all add: cancel_state_of_def split: prod.split)

lemma current_state_cancel:
  "source_inv s \<Longrightarrow> current_state (snd (cancel_state_of s r now)) = snd (state_cancel r now (current_state s))"
  by (simp add: current_state_def source_inv_def)

lemma cancel_state_of_inv: "source_inv s \<Longrightarrow> source_inv (snd (cancel_state_of s r now))"
  using current_state_cancel [of s r now]
  by (auto simp: source_inv_def nth_list_update)

lemma next_generation_simp: "0 \<le> g \<Longrightarrow> next_generation g = Inr (g + 1)"
  by (simp add: next_generation_def make_generation_def)

lemma advance_eq:
  assumes "source_inv s"
  shows "advance s r now =
    (if blank r then (Inl CancelValueError, s)
     else if src_closed s then (Inl SourceClosed, s)
     else let s2 = s\<lparr>src_generation := src_generation s + 1, src_state := Suc (src_state s),
            src_store := (src_store s)[src_state s := snd (state_cancel r now (current_state s))] @ [new_state]\<rparr>
          in (Inr (source_token s2), s2))"
proof -
  have g: "next_generation (src_generation s) = Inr (src_generation s + 1)"
    using assms by (simp add: source_inv_def next_generation_simp)
  have "(snd (cancel_state_of s r now))
      \<lparr>src_generation := src_generation s + 1, src_state := length (src_store s),
       src_store := (src_store s)[src_state s := snd (state_cancel r now (current_state s))] @ [new_state]\<rparr>
    = s\<lparr>src_generation := src_generation s + 1, src_state := Suc (src_state s),
       src_store := (src_store s)[src_state s := snd (state_cancel r now (current_state s))] @ [new_state]\<rparr>"
    using assms by (simp add: cancel_state_of_def source_inv_def split: prod.split)
  then show ?thesis by (simp add: advance_def Let_def g)
qed

lemma advance_inv: "source_inv s \<Longrightarrow> source_inv (snd (advance s r now))"
  by (auto simp: advance_eq Let_def)
    (auto simp: source_inv_def nth_append nth_list_update less_Suc_eq)

lemma cancel_apply_inv: "source_inv s \<Longrightarrow> source_inv (cancel_apply s p)"
proof (cases p)
  case (Op_cancel_current r now)
  then show "source_inv s \<Longrightarrow> ?thesis"
    using cancel_state_of_inv [of s r now] by (auto simp: cancel_current_def split: prod.splits)
next
  case (Op_source_close r now)
  have "source_inv (s'\<lparr>src_closed := True\<rparr>)" if "source_inv s'" "cs_event (current_state s')" for s'
    using that by (simp add: source_inv_def current_state_def)
  with Op_source_close show "source_inv s \<Longrightarrow> ?thesis"
    using cancel_state_of_inv [of s r now] current_state_cancel [of s r now]
    by (auto simp: source_close_def split: prod.splits)
qed (simp add: advance_inv)

lemma source_init_inv: "source_init i = Inr s \<Longrightarrow> source_inv s"
  by (auto simp: source_init_def make_generation_def source_inv_def split: if_splits)

section \<open>The generation gate\<close>

text \<open>
  What a component that publishes results relies on: a gate admits at most the current
  generation, generations only grow, and an operation on the gate never re-admits a
  generation that it does not admit any more.
\<close>

locale generation_gate = op_system apply_op inv
  for apply_op :: "'s \<Rightarrow> 'op \<Rightarrow> 's" and inv :: "'s \<Rightarrow> bool" +
  fixes admits :: "'s \<Rightarrow> int \<Rightarrow> bool" and current :: "'s \<Rightarrow> int"
  assumes admits_current: "inv s \<Longrightarrow> admits s g \<Longrightarrow> g = current s"
    and current_mono: "inv s \<Longrightarrow> current s \<le> current (apply_op s p)"
    and revoked_step: "inv s \<Longrightarrow> g \<le> current s \<Longrightarrow> \<not> admits s g \<Longrightarrow> \<not> admits (apply_op s p) g"
begin

lemma admits_unique: "inv s \<Longrightarrow> admits s g \<Longrightarrow> admits s h \<Longrightarrow> g = h"
  by (auto dest: admits_current)

lemma current_run_mono: "inv s \<Longrightarrow> current s \<le> current (run s ps)"
  by (rule run_mono) (rule current_mono)

lemma revoked_forever:
  assumes "inv s" "g \<le> current s" "\<not> admits s g"
  shows "\<not> admits (run s ps) g"
proof -
  have "g \<le> current (run s ps) \<and> \<not> admits (run s ps) g"
  proof (rule run_stable [where P = "\<lambda>t. g \<le> current t \<and> \<not> admits t g"])
    show "g \<le> current (apply_op t p) \<and> \<not> admits (apply_op t p) g"
      if "inv t" "g \<le> current t \<and> \<not> admits t g" for t p
      using that current_mono [of t p] revoked_step [of t g p] by linarith
  qed (use assms in auto)
  then show ?thesis by simp
qed

lemma superseded_forever: "inv s \<Longrightarrow> g < current s \<Longrightarrow> \<not> admits (run s ps) g"
  using revoked_forever [of s g ps] admits_current [of s g] by fastforce

end

lemma accepts_current: "accepts s g \<Longrightarrow> g = src_generation s"
  by (simp add: accepts_def)

lemma cancel_apply_mono: "source_inv s \<Longrightarrow> src_generation s \<le> src_generation (cancel_apply s p)"
  by (cases p) (auto simp: advance_eq Let_def cancel_current_def source_close_def
      cancel_state_of_def split: prod.splits)

lemma accepts_revoked_step:
  assumes "source_inv s" "g \<le> src_generation s" "\<not> accepts s g"
  shows "\<not> accepts (cancel_apply s p) g"
proof (cases p)
  case (Op_advance r now)
  then show ?thesis using assms by (auto simp: advance_eq Let_def accepts_def)
next
  case (Op_cancel_current r now)
  have "\<not> accepts (snd (cancel_state_of s r now)) g"
    using current_state_cancel [OF assms(1), of r now] by (simp add: accepts_def)
  with Op_cancel_current assms(3) show ?thesis
    by (auto simp: cancel_current_def split: prod.splits)
next
  case (Op_source_close r now)
  then show ?thesis using assms(3)
    by (auto simp: source_close_def accepts_def split: prod.splits)
qed

interpretation gate: generation_gate cancel_apply source_inv accepts src_generation
  by unfold_locales
    (auto intro: cancel_apply_inv cancel_apply_mono dest: accepts_current accepts_revoked_step)

text \<open>A state that is cancelled stays as it is, whatever happens to the source.\<close>

lemma cancelled_state_frozen_step:
  assumes "source_inv s" "i \<le> src_state s" "cs_event (src_store s ! i)"
  shows "i \<le> src_state (cancel_apply s p) \<and> src_store (cancel_apply s p) ! i = src_store s ! i"
proof -
  have len: "i < length (src_store s)" using assms(1,2) by (simp add: source_inv_def)
  have upd: "(src_store s)[src_state s := snd (state_cancel r now (current_state s))] ! i = src_store s ! i"
    for r now
    using assms(3) len
    by (cases "i = src_state s") (simp_all add: current_state_def state_cancel_id)
  show ?thesis using assms(1,2) len upd
    by (cases p) (auto simp: advance_eq Let_def nth_append cancel_current_def source_close_def
        cancel_state_of_def case_prod_beta)
qed

lemma cancelled_state_frozen:
  assumes "source_inv s" "i \<le> src_state s" "cs_event (src_store s ! i)"
  shows "src_store (foldl cancel_apply s ops) ! i = src_store s ! i"
proof -
  let ?P = "\<lambda>t. i \<le> src_state t \<and> src_store t ! i = src_store s ! i"
  have "?P (gate.run s ops)"
    by (rule gate.run_stable [where P = ?P])
      (use assms cancelled_state_frozen_step in auto)
  then show ?thesis by (simp add: gate.run_def)
qed

section \<open>Properties\<close>

text \<open>\<open>advance\<close> revokes before it grants. On an open source it returns a token of the next
  generation that is live and is the only one accepted; every token the source had issued
  before is cancelled, the one just revoked with the given reason.\<close>

theorem advance_revokes_then_grants:
  assumes "source_inv s" "\<not> src_closed s" "\<not> blank reason"
  shows "\<exists>t s'. advance s reason now = (Inr t, s') \<and>
    tk_generation t = src_generation s + 1 \<and> \<not> token_cancelled s' t \<and>
    (\<forall>g. accepts s' g \<longleftrightarrow> g = src_generation s + 1) \<and>
    (\<forall>g i. i \<le> src_state s \<longrightarrow> token_cancelled s' \<lparr>tk_generation = g, tk_state = i\<rparr>) \<and>
    (\<not> token_cancelled s (source_token s) \<longrightarrow>
       token_reason s' (source_token s) = Some reason \<and>
       token_cancelled_at_ms s' (source_token s) = Some (now div 1000000))"
proof -
  let ?st = "snd (state_cancel reason now (current_state s))"
  let ?s2 = "s\<lparr>src_generation := src_generation s + 1, src_state := Suc (src_state s),
    src_store := (src_store s)[src_state s := ?st] @ [new_state]\<rparr>"
  have adv: "advance s reason now = (Inr (source_token ?s2), ?s2)"
    using assms by (simp add: advance_eq Let_def)
  have len: "length (src_store s) = Suc (src_state s)"
    and old: "\<And>i. i < src_state s \<Longrightarrow> cs_event (src_store s ! i)"
    using assms(1) by (auto simp: source_inv_def)
  have "token_cancelled ?s2 \<lparr>tk_generation = g, tk_state = i\<rparr>" if "i \<le> src_state s" for g i
    using that old [of i] len
    by (cases "i = src_state s") (auto simp: token_cancelled_def nth_append)
  moreover have "\<not> token_cancelled ?s2 (source_token ?s2)" and "accepts ?s2 g \<longleftrightarrow> g = src_generation s + 1" for g
    using len assms(2)
    by (auto simp: token_cancelled_def source_token_def nth_append new_state_def accepts_def current_state_def)
  moreover have "token_reason ?s2 (source_token s) = Some reason \<and>
      token_cancelled_at_ms ?s2 (source_token s) = Some (now div 1000000)"
    if "\<not> token_cancelled s (source_token s)"
    using that len by (auto simp: token_reason_def token_cancelled_at_ms_def token_cancelled_def
        source_token_def nth_append state_cancel_def current_state_def)
  ultimately show ?thesis
    using adv by (intro exI [of _ "source_token ?s2"] exI [of _ ?s2]) (simp add: source_token_def)
qed

text \<open>C2: Revocation is final. A generation that is not accepted now and is not in the future
  is never accepted again, whatever sequence of advances, cancellations and closes follows;
  and a token that is cancelled keeps its reason and its time of cancellation.\<close>

theorem revocation_is_final:
  assumes "source_inv s" "g \<le> src_generation s" "\<not> accepts s g"
  shows "\<not> accepts (foldl cancel_apply s ops) g \<and>
    (tk_state t \<le> src_state s \<longrightarrow> token_cancelled s t \<longrightarrow>
       token_cancelled (foldl cancel_apply s ops) t \<and>
       token_reason (foldl cancel_apply s ops) t = token_reason s t \<and>
       token_cancelled_at_ms (foldl cancel_apply s ops) t = token_cancelled_at_ms s t)"
proof -
  have "\<not> accepts (foldl cancel_apply s ops) g"
    using gate.revoked_forever [OF assms] by (simp add: gate.run_def)
  then show ?thesis
    using cancelled_state_frozen [OF assms(1), of "tk_state t" ops]
    by (auto simp: token_cancelled_def token_reason_def token_cancelled_at_ms_def)
qed

section \<open>Witnesses\<close>

definition demo_source :: cancel_source where
  "demo_source = projr (source_init 0)"

lemma demo_source_inv: "source_inv demo_source"
  by (rule source_init_inv [of 0]) (simp add: demo_source_def source_init_def make_generation_def)

lemma demo_source_shape: "\<not> src_closed demo_source" "\<not> blank (lit ''new turn'')"
  by (simp_all add: demo_source_def source_init_def make_generation_def blank_iff isspace_def)

theorem advance_revokes_then_grants_witness:
  "\<exists>t s'. advance demo_source (lit ''new turn'') 5000000 = (Inr t, s') \<and>
    tk_generation t = src_generation demo_source + 1 \<and> \<not> token_cancelled s' t \<and>
    (\<forall>g. accepts s' g \<longleftrightarrow> g = src_generation demo_source + 1) \<and>
    (\<forall>g i. i \<le> src_state demo_source \<longrightarrow> token_cancelled s' \<lparr>tk_generation = g, tk_state = i\<rparr>) \<and>
    (\<not> token_cancelled demo_source (source_token demo_source) \<longrightarrow>
       token_reason s' (source_token demo_source) = Some (lit ''new turn'') \<and>
       token_cancelled_at_ms s' (source_token demo_source) = Some (5000000 div 1000000))"
  by (rule advance_revokes_then_grants [OF demo_source_inv demo_source_shape])

definition demo_advanced :: cancel_source where
  "demo_advanced = snd (advance demo_source (lit ''new turn'') 5000000)"

lemma demo_advanced_eq:
  "demo_advanced =
     \<lparr>src_generation = 1, src_state = 1, src_closed = False,
      src_store = [\<lparr>cs_event = True, cs_reason = Some (lit ''new turn''), cs_cancelled_at_ms = Some 5\<rparr>,
                   new_state]\<rparr>"
  by (simp add: demo_advanced_def demo_source_def source_init_def make_generation_def advance_def
      blank_iff isspace_def next_generation_def cancel_state_of_def state_cancel_def current_state_def
      new_state_def Let_def)

lemma demo_advanced_shape:
  "source_inv demo_advanced" "(0::int) \<le> src_generation demo_advanced" "\<not> accepts demo_advanced 0"
proof -
  show "source_inv demo_advanced"
    unfolding demo_advanced_def by (rule advance_inv [OF demo_source_inv])
  show "(0::int) \<le> src_generation demo_advanced" "\<not> accepts demo_advanced 0"
    by (simp_all add: demo_advanced_eq accepts_def)
qed

theorem revocation_is_final_witness:
  "\<not> accepts (foldl cancel_apply demo_advanced [Op_advance (lit ''again'') 7, Op_cancel_current (lit ''x'') 9]) 0 \<and>
   token_reason (foldl cancel_apply demo_advanced [Op_advance (lit ''again'') 7, Op_cancel_current (lit ''x'') 9])
     (source_token demo_source) = Some (lit ''new turn'')"
proof -
  have "tk_state (source_token demo_source) \<le> src_state demo_advanced"
    and "token_cancelled demo_advanced (source_token demo_source)"
    and "token_reason demo_advanced (source_token demo_source) = Some (lit ''new turn'')"
    by (simp_all add: demo_advanced_eq source_token_def demo_source_def source_init_def
        make_generation_def token_cancelled_def token_reason_def)
  then show ?thesis
    using revocation_is_final [OF demo_advanced_shape, of "[Op_advance (lit ''again'') 7, Op_cancel_current (lit ''x'') 9]"
        "source_token demo_source"] by metis
qed

end
