(* ===== verification/Interaction.thy ===== *)
theory Interaction
  imports Prelude
begin

text \<open>
  The interaction state machine of \<^verbatim>\<open>domain/interaction.py\<close>: the transition table, the
  machine with its revision counter, and every transition it admits.
\<close>

datatype InteractionState =
  IDLE | LISTENING | PROCESSING | SPEAKING | WAITING_APPROVAL | INTERRUPTING | DEGRADED

text \<open>\<open>_TRANSITIONS\<close>, and \<open>allowed_from\<close>.\<close>

fun transitions :: "InteractionState \<Rightarrow> InteractionState set" where
  "transitions IDLE = {LISTENING, PROCESSING, DEGRADED}"
| "transitions LISTENING = {IDLE, PROCESSING, INTERRUPTING, DEGRADED}"
| "transitions PROCESSING = {IDLE, SPEAKING, WAITING_APPROVAL, INTERRUPTING, DEGRADED}"
| "transitions SPEAKING = {IDLE, INTERRUPTING, DEGRADED}"
| "transitions WAITING_APPROVAL = {IDLE, PROCESSING, INTERRUPTING, DEGRADED}"
| "transitions INTERRUPTING = {IDLE, LISTENING, PROCESSING, DEGRADED}"
| "transitions DEGRADED = {IDLE, LISTENING}"

datatype interaction_error =
  InteractionValueError
| InvalidInteractionTransition InteractionState InteractionState

record interaction_transition =
  it_previous :: InteractionState
  it_current :: InteractionState
  it_revision :: nat
  it_reason :: pystr

record interaction_machine =
  im_state :: InteractionState
  im_revision :: nat

definition machine_init :: "InteractionState \<Rightarrow> interaction_machine" where
  "machine_init initial = \<lparr>im_state = initial, im_revision = 0\<rparr>"

definition can_transition :: "interaction_machine \<Rightarrow> InteractionState \<Rightarrow> bool" where
  "can_transition m requested \<longleftrightarrow> requested \<in> transitions (im_state m)"

definition transition ::
  "interaction_machine \<Rightarrow> InteractionState \<Rightarrow> pystr \<Rightarrow>
   (interaction_error + interaction_transition) \<times> interaction_machine" where
  "transition m requested reason =
     (if blank reason then (Inl InteractionValueError, m)
      else if requested \<notin> transitions (im_state m) then
        (Inl (InvalidInteractionTransition (im_state m) requested), m)
      else
        (let m' = \<lparr>im_state = requested, im_revision = Suc (im_revision m)\<rparr>
         in (Inr \<lparr>it_previous = im_state m, it_current = requested,
                  it_revision = im_revision m', it_reason = reason\<rparr>, m')))"

section \<open>The steps as a relation\<close>

text \<open>One legal move of the machine; \<open>reaches\<close> is a path of moves.\<close>

inductive moves :: "InteractionState \<Rightarrow> InteractionState \<Rightarrow> bool" where
  "s' \<in> transitions s \<Longrightarrow> moves s s'"

inductive_simps moves_iff: "moves s s'"

inductive reaches :: "InteractionState \<Rightarrow> InteractionState list \<Rightarrow> InteractionState \<Rightarrow> bool" where
  reaches_Nil: "reaches s [] s"
| reaches_Cons: "moves s t \<Longrightarrow> reaches t ts u \<Longrightarrow> reaches s (t # ts) u"

inductive_cases reaches_NilE: "reaches s [] u"
inductive_cases reaches_ConsE: "reaches s (t # ts) u"

lemmas transition_facts = transition_def can_transition_def Let_def

lemma transition_Inr_iff:
  "(\<exists>t m'. transition m r reason = (Inr t, m')) \<longleftrightarrow> \<not> blank reason \<and> moves (im_state m) r"
  by (simp add: transition_facts moves_iff)

lemma transition_moves: "transition m r reason = (Inr t, m') \<Longrightarrow>
    moves (im_state m) r \<and> m' = \<lparr>im_state = r, im_revision = Suc (im_revision m)\<rparr> \<and>
    it_previous t = im_state m \<and> it_current t = r \<and> it_revision t = im_revision m'"
  by (auto simp: transition_facts moves_iff split: if_splits)

lemma transition_error: "transition m r reason = (Inl e, m') \<Longrightarrow> m' = m"
  by (auto simp: transition_facts split: if_splits)

text \<open>A sequence of requests; a request that raises leaves the machine as it was.\<close>

definition request :: "interaction_machine \<Rightarrow> InteractionState \<times> pystr \<Rightarrow> interaction_machine" where
  "request m q = snd (transition m (fst q) (snd q))"

text \<open>Speech is only ever entered from processing; approval too.\<close>

lemma moves_into_speaking: "moves s SPEAKING \<longleftrightarrow> s = PROCESSING"
  by (cases s) (simp_all add: moves_iff)

lemma moves_into_approval: "moves s WAITING_APPROVAL \<longleftrightarrow> s = PROCESSING"
  by (cases s) (simp_all add: moves_iff)

lemma moves_irrefl: "\<not> moves s s"
  by (cases s) (simp_all add: moves_iff)

lemma moves_to_idle: "s \<noteq> IDLE \<Longrightarrow> moves s IDLE"
  by (cases s) (simp_all add: moves_iff)

lemma moves_to_degraded: "s \<noteq> DEGRADED \<Longrightarrow> moves s DEGRADED"
  by (cases s) (simp_all add: moves_iff)

section \<open>Properties\<close>

text \<open>The replies to a list of requests, one per request, and the machine after them.\<close>

fun serve ::
  "interaction_machine \<Rightarrow> (InteractionState \<times> pystr) list \<Rightarrow>
   (interaction_error + interaction_transition) list \<times> interaction_machine" where
  "serve m [] = ([], m)"
| "serve m (q # qs) =
     (let (reply, m') = transition m (fst q) (snd q); (replies, m'') = serve m' qs
      in (reply # replies, m''))"

text \<open>What a client can read from the replies alone: the moves granted, and where they lead.\<close>

definition granted ::
  "(interaction_error + interaction_transition) list \<Rightarrow> interaction_transition list" where
  "granted replies = List.map_filter (\<lambda>r. case r of Inl e \<Rightarrow> None | Inr t \<Rightarrow> Some t) replies"

definition position ::
  "InteractionState \<Rightarrow> (interaction_error + interaction_transition) list \<Rightarrow> InteractionState" where
  "position s replies = last (s # map it_current (granted replies))"

text \<open>The reply the table prescribes for a request, given the replies before it.\<close>

definition prescribed ::
  "InteractionState \<Rightarrow> (interaction_error + interaction_transition) list \<Rightarrow>
   InteractionState \<times> pystr \<Rightarrow> interaction_error + interaction_transition" where
  "prescribed s before q =
     (if blank (snd q) then Inl InteractionValueError
      else if \<not> moves (position s before) (fst q) then
        Inl (InvalidInteractionTransition (position s before) (fst q))
      else Inr \<lparr>it_previous = position s before, it_current = fst q,
                it_revision = Suc (length (granted before)), it_reason = snd q\<rparr>)"

lemma granted_simps [simp]:
  "granted [] = []"
  "granted (Inl e # rs) = granted rs"
  "granted (Inr t # rs) = t # granted rs"
  "granted (rs @ rs') = granted rs @ granted rs'"
  by (simp_all add: granted_def List.map_filter_def)

definition at_history ::
  "InteractionState \<Rightarrow> (interaction_error + interaction_transition) list \<Rightarrow>
   interaction_machine \<Rightarrow> bool" where
  "at_history s replies m \<longleftrightarrow>
     im_state m = position s replies \<and> im_revision m = length (granted replies)"

lemma transition_prescribed:
  assumes "at_history s before m"
  shows "fst (transition m (fst q) (snd q)) = prescribed s before q"
    and "at_history s (before @ [prescribed s before q]) (request m q)"
  using assms
  by (auto simp: at_history_def prescribed_def request_def transition_facts moves_iff position_def)

lemma serve_prescribed:
  assumes "at_history s before m"
  shows "length (fst (serve m qs)) = length qs"
    and "\<forall>i<length qs. fst (serve m qs) ! i =
           prescribed s (before @ take i (fst (serve m qs))) (qs ! i)"
    and "at_history s (before @ fst (serve m qs)) (snd (serve m qs))"
proof -
  have "length (fst (serve m qs)) = length qs \<and>
     (\<forall>i<length qs. fst (serve m qs) ! i =
           prescribed s (before @ take i (fst (serve m qs))) (qs ! i)) \<and>
     at_history s (before @ fst (serve m qs)) (snd (serve m qs))"
    using assms
  proof (induction qs arbitrary: m before)
    case Nil
    then show ?case by simp
  next
    case (Cons q qs)
    note q = transition_prescribed [OF Cons.prems, of q]
    note rest = Cons.IH [OF q(2)]
    have unfold: "serve m (q # qs) =
        (prescribed s before q # fst (serve (request m q) qs), snd (serve (request m q) qs))"
      using q(1) by (simp add: request_def Let_def split_beta)
    show ?case
      unfolding unfold using rest by (auto simp: nth_Cons split: nat.split)
  qed
  then show "length (fst (serve m qs)) = length qs"
    "\<forall>i<length qs. fst (serve m qs) ! i =
       prescribed s (before @ take i (fst (serve m qs))) (qs ! i)"
    "at_history s (before @ fst (serve m qs)) (snd (serve m qs))" by blast+
qed

lemma prescribed_into_speaking:
  "prescribed s before q = Inr t \<Longrightarrow> it_current t = SPEAKING \<Longrightarrow> it_previous t = PROCESSING"
  by (auto simp: prescribed_def moves_into_speaking split: if_splits)

text \<open>C23: Whatever requests a fresh machine receives, its replies are the ones the
  transition table prescribes, each read off the replies before it: a request with a blank
  reason is refused as such, a request for a state the table does not allow from the target
  of the last move granted is refused with the two states, and any other is granted with the
  states it joins, the next revision and its own reason. After the requests the machine is in
  the target of the last move granted, and its revision is the number of moves granted, so
  that a refusal changes nothing. \<open>SPEAKING\<close> is only ever entered from \<open>PROCESSING\<close>.\<close>

theorem interaction_requests_follow_table:
  "let (replies, m) = serve (machine_init s) qs in
     length replies = length qs \<and>
     (\<forall>i<length qs. replies ! i = prescribed s (take i replies) (qs ! i)) \<and>
     m = \<lparr>im_state = position s replies, im_revision = length (granted replies)\<rparr> \<and>
     (\<forall>t. Inr t \<in> set replies \<and> it_current t = SPEAKING \<longrightarrow> it_previous t = PROCESSING)"
proof -
  obtain replies m where run: "serve (machine_init s) qs = (replies, m)" by fastforce
  have start: "at_history s [] (machine_init s)"
    by (simp add: at_history_def position_def machine_init_def)
  note all = serve_prescribed [OF start, of qs, unfolded run append_Nil fst_conv snd_conv]
  have "it_previous t = PROCESSING" if "Inr t \<in> set replies" "it_current t = SPEAKING" for t
    using that all(1,2) prescribed_into_speaking by (metis in_set_conv_nth)
  then show ?thesis
    using all by (auto simp: run at_history_def)
qed

theorem interaction_requests_follow_table_witness:
  "let (replies, m) = serve (machine_init IDLE)
      [(PROCESSING, lit ''turn''), (LISTENING, lit ''no''), (SPEAKING, []), (SPEAKING, lit ''audio'')]
   in length replies = 4 \<and> replies ! 1 = Inl (InvalidInteractionTransition PROCESSING LISTENING) \<and>
     replies ! 2 = Inl InteractionValueError \<and> m = \<lparr>im_state = SPEAKING, im_revision = 2\<rparr>"
proof -
  have run: "serve (machine_init IDLE)
      [(PROCESSING, lit ''turn''), (LISTENING, lit ''no''), (SPEAKING, []), (SPEAKING, lit ''audio'')] =
     ([Inr \<lparr>it_previous = IDLE, it_current = PROCESSING, it_revision = 1, it_reason = lit ''turn''\<rparr>,
       Inl (InvalidInteractionTransition PROCESSING LISTENING), Inl InteractionValueError,
       Inr \<lparr>it_previous = PROCESSING, it_current = SPEAKING, it_revision = 2, it_reason = lit ''audio''\<rparr>],
      \<lparr>im_state = SPEAKING, im_revision = 2\<rparr>)"
    by (simp add: machine_init_def transition_def Let_def blank_iff isspace_def)
  have "length (fst (serve (machine_init IDLE)
      [(PROCESSING, lit ''turn''), (LISTENING, lit ''no''), (SPEAKING, []), (SPEAKING, lit ''audio'')])) = 4"
    using interaction_requests_follow_table [of IDLE
      "[(PROCESSING, lit ''turn''), (LISTENING, lit ''no''), (SPEAKING, []), (SPEAKING, lit ''audio'')]"]
    by (simp del: serve.simps lit_simps add: case_prod_beta Let_def)
  then show ?thesis
    unfolding run by simp
qed
end
