(* ===== verification/PyFloat.thy ===== *)
theory PyFloat
  imports Complex_Main Prelude "HOL-Library.Log_Nat"
begin

text \<open>
  Python floats as far as the program looks at them: a finite value is the rational it
  denotes (a binary64 number), next to the infinities and NaN; comparisons with NaN are
  false. Arithmetic computes the exact rational result and rounds it to the nearest binary64
  number, ties to even, as IEEE 754 prescribes; a result beyond the largest finite number is
  an infinity. A decimal literal of the source denotes the nearest binary64 number, which is
  written out here as an exact fraction. The two zeros, which compare equal, are one value.
\<close>

datatype pyfloat = Fin rat | PosInf | NegInf | NaN

fun isfinite :: "pyfloat \<Rightarrow> bool" where
  "isfinite (Fin q) \<longleftrightarrow> True"
| "isfinite _ \<longleftrightarrow> False"

fun fle :: "pyfloat \<Rightarrow> pyfloat \<Rightarrow> bool" where
  "fle NaN _ \<longleftrightarrow> False"
| "fle _ NaN \<longleftrightarrow> False"
| "fle NegInf _ \<longleftrightarrow> True"
| "fle _ PosInf \<longleftrightarrow> True"
| "fle (Fin x) (Fin y) \<longleftrightarrow> x \<le> y"
| "fle _ _ \<longleftrightarrow> False"

definition flt :: "pyfloat \<Rightarrow> pyfloat \<Rightarrow> bool" where
  "flt x y \<longleftrightarrow> fle x y \<and> \<not> fle y x"

lemma fle_Fin [simp]: "fle (Fin x) (Fin y) \<longleftrightarrow> x \<le> y"
  by simp

lemma flt_Fin [simp]: "flt (Fin x) (Fin y) \<longleftrightarrow> x < y"
  by (auto simp: flt_def)

lemma flt_NaN [simp]: "\<not> flt x NaN" "\<not> flt NaN x"
  by (cases x; simp add: flt_def)+

lemma isfinite_iff: "isfinite x \<longleftrightarrow> (\<exists>q. x = Fin q)"
  by (cases x) simp_all

text \<open>
  A total order for sorting by a float: Python's order on every value but NaN, which no
  sorted float of the program is.
\<close>

fun float_rank :: "pyfloat \<Rightarrow> nat \<times> rat" where
  "float_rank NegInf = (0, 0)"
| "float_rank (Fin q) = (1, q)"
| "float_rank PosInf = (2, 0)"
| "float_rank NaN = (3, 0)"

lemma float_rank_inj: "float_rank x = float_rank y \<Longrightarrow> x = y"
  by (cases x; cases y) simp_all

instantiation pyfloat :: linorder
begin

definition less_eq_pyfloat :: "pyfloat \<Rightarrow> pyfloat \<Rightarrow> bool" where
  "less_eq_pyfloat x y \<longleftrightarrow> float_rank x \<le> float_rank y"

definition less_pyfloat :: "pyfloat \<Rightarrow> pyfloat \<Rightarrow> bool" where
  "less_pyfloat x y \<longleftrightarrow> float_rank x < float_rank y"

instance
  by standard (auto simp: less_eq_pyfloat_def less_pyfloat_def dest: float_rank_inj antisym)

end

lemma float_order_fle: "x \<noteq> NaN \<Longrightarrow> y \<noteq> NaN \<Longrightarrow> x \<le> y \<longleftrightarrow> fle x y"
  by (cases x; cases y) (simp_all add: less_eq_pyfloat_def)

text \<open>Literals of the source.\<close>

definition f_0_12 :: pyfloat where "f_0_12 = Fin (1080863910568919 / 9007199254740992)"
definition f_0_16 :: pyfloat where "f_0_16 = Fin (5764607523034235 / 36028797018963968)"
definition f_0_2 :: pyfloat where "f_0_2 = Fin (3602879701896397 / 18014398509481984)"
definition f_0_65 :: pyfloat where "f_0_65 = Fin (5854679515581645 / 9007199254740992)"
definition f_0_75 :: pyfloat where "f_0_75 = Fin (3 / 4)"
definition f_0_8 :: pyfloat where "f_0_8 = Fin (3602879701896397 / 4503599627370496)"
definition f_0_9 :: pyfloat where "f_0_9 = Fin (8106479329266893 / 9007199254740992)"

fun fneg :: "pyfloat \<Rightarrow> pyfloat" where
  "fneg (Fin x) = Fin (- x)"
| "fneg PosInf = NegInf"
| "fneg NegInf = PosInf"
| "fneg NaN = NaN"

section \<open>Rounding to binary64\<close>

text \<open>The exponent of a positive rational: \<open>2\<^bsup>e\<^esup> \<le> a < 2\<^bsup>e+1\<^esup>\<close>.\<close>

definition exponent :: "rat \<Rightarrow> int" where
  "exponent a =
     (let e = bitlen (fst (quotient_of a)) - bitlen (snd (quotient_of a))
      in if a < 2 powi e then e - 1 else e)"

definition round_even :: "rat \<Rightarrow> int" where
  "round_even x =
     (let r = x - of_int \<lfloor>x\<rfloor>
      in if r < 1 / 2 then \<lfloor>x\<rfloor>
         else if 1 / 2 < r then \<lfloor>x\<rfloor> + 1
         else if even \<lfloor>x\<rfloor> then \<lfloor>x\<rfloor> else \<lfloor>x\<rfloor> + 1)"

definition quantum :: "rat \<Rightarrow> int" where
  "quantum a = max (exponent a - 52) (- 1074)"

definition round_pos :: "rat \<Rightarrow> rat" where
  "round_pos a = of_int (round_even (a / 2 powi quantum a)) * 2 powi quantum a"

definition round_double :: "rat \<Rightarrow> pyfloat" where
  "round_double q =
     (if q = 0 then Fin 0
      else if 2 powi 1024 \<le> round_pos \<bar>q\<bar> then (if 0 < q then PosInf else NegInf)
      else Fin (sgn q * round_pos \<bar>q\<bar>))"

fun fadd :: "pyfloat \<Rightarrow> pyfloat \<Rightarrow> pyfloat" where
  "fadd (Fin x) (Fin y) = round_double (x + y)"
| "fadd NaN _ = NaN"
| "fadd _ NaN = NaN"
| "fadd PosInf NegInf = NaN"
| "fadd NegInf PosInf = NaN"
| "fadd PosInf _ = PosInf"
| "fadd NegInf _ = NegInf"
| "fadd _ y = y"

definition fsub :: "pyfloat \<Rightarrow> pyfloat \<Rightarrow> pyfloat" where
  "fsub x y = fadd x (fneg y)"

fun fsign :: "pyfloat \<Rightarrow> rat" where
  "fsign (Fin x) = sgn x"
| "fsign PosInf = 1"
| "fsign NegInf = - 1"
| "fsign NaN = 0"

definition fmul :: "pyfloat \<Rightarrow> pyfloat \<Rightarrow> pyfloat" where
  "fmul x y =
     (case (x, y) of
        (Fin a, Fin b) \<Rightarrow> round_double (a * b)
      | _ \<Rightarrow>
          if x = NaN \<or> y = NaN \<or> fsign x * fsign y = 0 then NaN
          else if 0 < fsign x * fsign y then PosInf else NegInf)"

text \<open>\<open>min\<close> returns its first argument unless the second is smaller.\<close>

definition fmin :: "pyfloat \<Rightarrow> pyfloat \<Rightarrow> pyfloat" where
  "fmin x y = (if flt y x then y else x)"

lemma exponent_bounds:
  assumes "0 < a"
  shows "2 powi exponent a \<le> a" and "a < 2 powi (exponent a + 1)"
proof -
  obtain p q where pq: "quotient_of a = (p, q)" by (cases "quotient_of a")
  have q: "0 < q" using quotient_of_denom_pos [OF pq] .
  have a: "a = of_int p / of_int q" by (rule quotient_of_div [OF pq])
  have p: "0 < p" using assms q by (simp add: a zero_less_divide_iff)
  define m n where "m = nat (bitlen p)" and "n = nat (bitlen q)"
  have bl: "bitlen p = int m" "bitlen q = int n" by (simp_all add: m_def n_def bitlen_nonneg)
  have mn: "0 < m" "0 < n" using p q bl bitlen_eq_zero_iff [of p] bitlen_eq_zero_iff [of q] by auto
  have hi: "p < 2 ^ m" "q < 2 ^ n" and lo: "2 ^ (m - 1) \<le> p" "2 ^ (n - 1) \<le> q"
    using bitlen_bounds [OF p] bitlen_bounds [OF q] mn by (simp_all add: bl nat_diff_distrib)
  have r: "rat_of_int p < 2 ^ m" "rat_of_int q < 2 ^ n" "2 ^ (m - 1) \<le> rat_of_int p" "2 ^ (n - 1) \<le> rat_of_int q"
    using hi lo by (metis of_int_less_iff of_int_le_iff of_int_numeral of_int_power)+
  have qp: "0 < rat_of_int q" using q by simp
  have up: "a < 2 powi (int m - int n + 1)"
  proof -
    have "2 * rat_of_int p < 2 * 2 ^ m" using r by simp
    also have "\<dots> = 2 powi (int m - int n + 1) * 2 * 2 ^ (n - 1)"
      using mn by (cases n) (simp_all add: power_int_diff)
    also have "\<dots> \<le> 2 powi (int m - int n + 1) * 2 * rat_of_int q" using r by simp
    finally show ?thesis using qp by (simp add: a pos_divide_less_eq)
  qed
  have down: "2 powi (int m - int n - 1) \<le> a"
  proof -
    have "2 powi (int m - int n - 1) * rat_of_int q \<le> 2 powi (int m - int n - 1) * 2 ^ n" using r by simp
    also have "\<dots> = 2 ^ (m - 1)"
    proof -
      have "(2::rat) ^ (m - 1) = 2 powi (int m - 1)" using mn by (simp add: power_int_def nat_diff_distrib)
      then show ?thesis by (simp add: power_int_diff)
    qed
    also have "\<dots> \<le> rat_of_int p" using r by simp
    finally show ?thesis using qp by (simp add: a pos_le_divide_eq)
  qed
  show "2 powi exponent a \<le> a" "a < 2 powi (exponent a + 1)"
    using up down by (auto simp: exponent_def pq bl Let_def)
qed

lemma two_powi_less: "(2::rat) powi i < 2 powi j \<longleftrightarrow> i < j"
proof
  show "i < j" if "(2::rat) powi i < 2 powi j"
    using that power_int_increasing [of j i "2::rat"] by (cases "j \<le> i") auto
qed (simp add: power_int_strict_increasing)

lemma two_powi_le: "(2::rat) powi i \<le> 2 powi j \<longleftrightarrow> i \<le> j"
  using two_powi_less [of j i] by (simp add: linorder_not_less [symmetric])

lemma two_powi_split:
  assumes "j \<le> i"
  shows "(2::rat) powi i = of_int (2 ^ nat (i - j)) * 2 powi j"
proof -
  have "(2::rat) powi i = 2 powi (i - j) * 2 powi j" by (simp flip: power_int_add)
  then show ?thesis using assms by (simp add: power_int_def [of _ "i - j"])
qed

lemma exponent_mono:
  assumes "0 < a" "a \<le> b"
  shows "exponent a \<le> exponent b"
proof -
  have "(2::rat) powi exponent a < 2 powi (exponent b + 1)"
    using exponent_bounds [of a] exponent_bounds [of b] assms by linarith
  then show ?thesis by (simp add: two_powi_less)
qed

lemma round_even_int [simp]: "round_even (of_int i) = i"
  by (simp add: round_even_def)

lemma round_even_bounds: "\<lfloor>x\<rfloor> \<le> round_even x" "round_even x \<le> \<lfloor>x\<rfloor> + 1"
  by (simp_all add: round_even_def Let_def)

lemma round_even_mono:
  assumes "x \<le> y"
  shows "round_even x \<le> round_even y"
proof (cases "\<lfloor>x\<rfloor> = \<lfloor>y\<rfloor>")
  case True
  then show ?thesis using assms by (auto simp: round_even_def Let_def)
next
  case False
  then have "\<lfloor>x\<rfloor> + 1 \<le> \<lfloor>y\<rfloor>" using floor_mono [OF assms] by linarith
  then show ?thesis using round_even_bounds [of x] round_even_bounds [of y] by linarith
qed

lemma round_pos_nonneg: "0 < a \<Longrightarrow> 0 \<le> round_pos a"
  using round_even_mono [of 0 "a / 2 powi quantum a"] round_even_int [of 0]
  by (simp add: round_pos_def)

text \<open>A multiple of a power of two not below the quantum is not moved by rounding.\<close>

lemma round_pos_mult:
  assumes "a = of_int m * 2 powi j" "quantum a \<le> j"
  shows "round_pos a = a"
proof -
  have "(2::rat) powi j / 2 powi quantum a = of_int (2 ^ nat (j - quantum a))"
    using two_powi_split [OF assms(2)] by simp
  then have "a / 2 powi quantum a = of_int (m * 2 ^ nat (j - quantum a))"
    by (metis assms(1) of_int_mult times_divide_eq_right)
  then have "round_even (a / 2 powi quantum a) = m * 2 ^ nat (j - quantum a)" by (metis round_even_int)
  then have "round_pos a = of_int (m * 2 ^ nat (j - quantum a)) * 2 powi quantum a"
    unfolding round_pos_def by (rule arg_cong)
  also have "\<dots> = a"
    using \<open>a / 2 powi quantum a = of_int (m * 2 ^ nat (j - quantum a))\<close> by (simp add: divide_eq_eq)
  finally show ?thesis .
qed

lemma round_pos_mono:
  assumes "0 < a" "a \<le> b"
  shows "round_pos a \<le> round_pos b"
proof (cases "quantum a = quantum b")
  case True
  have "a / 2 powi quantum b \<le> b / 2 powi quantum b"
    using assms by (simp add: divide_right_mono)
  from round_even_mono [OF this] show ?thesis by (simp add: round_pos_def True)
next
  case False
  have e: "exponent a \<le> exponent b" by (rule exponent_mono) fact+
  have k: "quantum a < quantum b" "quantum b = exponent b - 52" "exponent a < exponent b"
    using False e by (auto simp: quantum_def)
  let ?m = "2 powi exponent b :: rat"
  have m: "?m = of_int (2 ^ nat (exponent b - j)) * 2 powi j" if "j \<le> exponent b" for j
    by (rule two_powi_split [OF that])
  have am: "a \<le> ?m"
    using exponent_bounds(2) [of a] two_powi_le [of "exponent a + 1" "exponent b"] assms(1) k by linarith
  have mb: "?m \<le> b" using exponent_bounds(1) [of b] assms by linarith
  have "round_pos a \<le> ?m"
  proof -
    have "a / 2 powi quantum a \<le> of_int (2 ^ nat (exponent b - quantum a))"
      using am m [of "quantum a"] k by (simp add: pos_divide_le_eq)
    from round_even_mono [OF this] have "round_even (a / 2 powi quantum a) \<le> 2 ^ nat (exponent b - quantum a)"
      by (metis round_even_int)
    then have "rat_of_int (round_even (a / 2 powi quantum a)) \<le> of_int (2 ^ nat (exponent b - quantum a))"
      by (rule of_int_le_iff [THEN iffD2])
    then show ?thesis using m [of "quantum a"] k by (simp add: round_pos_def)
  qed
  moreover have "?m \<le> round_pos b"
  proof -
    have "of_int (2 ^ nat (exponent b - quantum b)) \<le> b / 2 powi quantum b"
      using mb m [of "quantum b"] k by (simp add: pos_le_divide_eq)
    from round_even_mono [OF this] have "2 ^ nat (exponent b - quantum b) \<le> round_even (b / 2 powi quantum b)"
      by (metis round_even_int)
    then have "rat_of_int (2 ^ nat (exponent b - quantum b)) \<le> of_int (round_even (b / 2 powi quantum b))"
      by (rule of_int_le_iff [THEN iffD2])
    then show ?thesis using m [of "quantum b"] k by (simp add: round_pos_def)
  qed
  ultimately show ?thesis by simp
qed

lemma round_double_mono:
  assumes "x \<le> y"
  shows "fle (round_double x) (round_double y)"
proof -
  have pos: "fle (round_double a) (round_double b)" if "0 < a" "a \<le> b" for a b
    using round_pos_mono [OF that] that by (auto simp: round_double_def)
  have zero: "fle (round_double 0) (round_double a) \<and> fle (round_double (- a)) (round_double 0)" if "0 < a" for a
    using round_pos_nonneg [OF that] that by (auto simp: round_double_def)
  have neg: "fle (round_double (- b)) (round_double (- a))" if "0 < a" "a \<le> b" for a b
    using round_pos_mono [OF that] that by (auto simp: round_double_def)
  have across: "fle (round_double (- a)) (round_double b)" if "0 < a" "0 < b" for a b
    using round_pos_nonneg [of a] round_pos_nonneg [of b] that by (auto simp: round_double_def)
  consider "0 < x" | "x = 0" "y = 0" | "x = 0" "0 < y" | "x < 0" "y < 0" | "x < 0" "y = 0" | "x < 0" "0 < y"
    using assms by linarith
  then show ?thesis
  proof cases
    case 1 then show ?thesis by (rule pos) fact
  next
    case 2 then show ?thesis by (simp add: round_double_def)
  next
    case 3 then show ?thesis using zero by simp
  next
    case 4 then show ?thesis using neg [of "- y" "- x"] assms by simp
  next
    case 5 then show ?thesis using zero [of "- x"] by simp
  next
    case 6 then show ?thesis using across [of "- x" y] by simp
  qed
qed

text \<open>The binary64 numbers: the values rounding leaves alone.\<close>

definition is_double :: "rat \<Rightarrow> bool" where
  "is_double q \<longleftrightarrow> round_double q = Fin q"

fun double :: "pyfloat \<Rightarrow> bool" where
  "double (Fin q) \<longleftrightarrow> is_double q"
| "double _ \<longleftrightarrow> True"

lemma is_double_dyadic:
  assumes "q = of_int m * 2 powi j" "\<bar>m\<bar> < 2 ^ 53" "- 1074 \<le> j" "j \<le> 971"
  shows "is_double q"
proof (cases "q = 0")
  case True
  then show ?thesis by (simp add: is_double_def round_double_def)
next
  case False
  then have p: "0 < \<bar>q\<bar>" by simp
  have a: "\<bar>q\<bar> = of_int \<bar>m\<bar> * 2 powi j" by (simp add: assms(1) abs_mult)
  have "of_int \<bar>m\<bar> < (2::rat) powi 53"
    using assms(2) of_int_less_iff [where 'a = rat, of "\<bar>m\<bar>" "2 ^ 53"] by simp
  then have lt: "\<bar>q\<bar> < 2 powi (53 + j)" unfolding a by (simp add: power_int_add)
  have "(2::rat) powi exponent \<bar>q\<bar> < 2 powi (53 + j)"
    by (rule order_le_less_trans [OF exponent_bounds(1) [OF p] lt])
  then have "quantum \<bar>q\<bar> \<le> j" using assms(3) by (simp add: two_powi_less quantum_def)
  then have r: "round_pos \<bar>q\<bar> = \<bar>q\<bar>" by (rule round_pos_mult [OF a])
  have "\<bar>q\<bar> < (2::rat) powi 1024"
    by (rule order_less_le_trans [OF lt]) (use assms(4) in \<open>simp add: two_powi_le del: power_int_numeral\<close>)
  then show ?thesis
    using False by (simp add: is_double_def round_double_def r mult_sgn_abs del: power_int_numeral)
qed

lemma is_double_int: "\<bar>i\<bar> < 2 ^ 53 \<Longrightarrow> is_double (of_int i)"
  by (rule is_double_dyadic [of _ i 0]) simp_all

lemma fadd_ge:
  assumes "is_double x" "0 \<le> y"
  shows "fle (Fin x) (fadd (Fin x) (Fin y))"
  using round_double_mono [of x "x + y"] assms by (simp add: is_double_def)

lemma fsub_mono:
  "x \<le> y \<Longrightarrow> fle (fsub (Fin x) (Fin w)) (fsub (Fin y) (Fin w))"
  by (simp add: fsub_def round_double_mono)

end
