(* ===== verification/PcmTypes.thy ===== *)
theory PcmTypes
  imports Prelude "HOL-Library.Word"
begin

text \<open>
  The audio values of \<^verbatim>\<open>media/types.py\<close>. A frozen dataclass is a record; its
  \<open>__post_init__\<close> is a checking function that gives the exception, and the constructor
  \<open>make_...\<close> returns the record only when the check passes. Checks on Python's dynamic types
  (\<open>isinstance\<close>) are discharged by HOL's types.
\<close>

type_synonym byte = "8 word"
type_synonym bytes = "byte list"
type_synonym uuid = "128 word"

datatype media_error =
  SampleRateOutOfRange | ChannelsOutOfRange
| SequenceNegative | CapturedAtNegative | FrameEmpty | FrameIncomplete
| UtteranceEmpty | UtteranceStreamMixed | UtteranceFormatMixed
| UtteranceSequenceOrder | UtteranceOverlap
| SpeechStartOutside | SpeechEndBeforeStart | SpeechEndOutside

datatype PcmEncoding = S16_LE

record PcmFormat =
  pf_sample_rate_hz :: int
  pf_channels :: int
  pf_encoding :: PcmEncoding

definition check_pcm_format :: "PcmFormat \<Rightarrow> media_error option" where
  "check_pcm_format f =
     (if \<not> (8000 \<le> pf_sample_rate_hz f \<and> pf_sample_rate_hz f \<le> 192000)
        then Some SampleRateOutOfRange
      else if \<not> (1 \<le> pf_channels f \<and> pf_channels f \<le> 8) then Some ChannelsOutOfRange
      else None)"

definition make_pcm_format :: "int \<Rightarrow> int \<Rightarrow> PcmEncoding \<Rightarrow> media_error + PcmFormat" where
  "make_pcm_format rate channels enc =
     (let f = \<lparr>pf_sample_rate_hz = rate, pf_channels = channels, pf_encoding = enc\<rparr>
      in case check_pcm_format f of None \<Rightarrow> Inr f | Some e \<Rightarrow> Inl e)"

definition bytes_per_sample_frame :: "PcmFormat \<Rightarrow> int" where
  "bytes_per_sample_frame f = pf_channels f * 2"

record PcmFrame =
  fr_stream_id :: uuid
  fr_sequence :: int
  fr_captured_at_ns :: int
  fr_format :: PcmFormat
  fr_pcm :: bytes

definition fr_len :: "PcmFrame \<Rightarrow> int" where
  "fr_len f = int (length (fr_pcm f))"

definition check_pcm_frame :: "PcmFrame \<Rightarrow> media_error option" where
  "check_pcm_frame f =
     (if fr_sequence f < 0 then Some SequenceNegative
      else if fr_captured_at_ns f < 0 then Some CapturedAtNegative
      else if fr_pcm f = [] then Some FrameEmpty
      else if fr_len f mod bytes_per_sample_frame (fr_format f) \<noteq> 0 then Some FrameIncomplete
      else None)"

definition sample_frame_count :: "PcmFrame \<Rightarrow> int" where
  "sample_frame_count f = fr_len f div bytes_per_sample_frame (fr_format f)"

definition duration_ns :: "PcmFrame \<Rightarrow> int" where
  "duration_ns f = sample_frame_count f * 1000000000 div pf_sample_rate_hz (fr_format f)"

definition end_ns :: "PcmFrame \<Rightarrow> int" where
  "end_ns f = fr_captured_at_ns f + duration_ns f"

text \<open>A frame value that exists in the program: it and its format passed their checks.\<close>

definition frame_ok :: "PcmFrame \<Rightarrow> bool" where
  "frame_ok f \<longleftrightarrow> check_pcm_format (fr_format f) = None \<and> check_pcm_frame f = None"

datatype UtteranceEndReason = SILENCE | MAX_DURATION | MAX_BYTES | STREAM_ENDED

record PcmUtterance =
  ut_utterance_id :: uuid
  ut_stream_id :: uuid
  ut_format :: PcmFormat
  ut_frames :: "PcmFrame list"
  ut_speech_started_at_ns :: int
  ut_speech_ended_at_ns :: int
  ut_end_reason :: UtteranceEndReason

text \<open>The loop over the frames in \<open>PcmUtterance.__post_init__\<close>, with the previous frame.\<close>

fun check_utterance_frames ::
  "uuid \<Rightarrow> PcmFormat \<Rightarrow> PcmFrame option \<Rightarrow> PcmFrame list \<Rightarrow> media_error option" where
  "check_utterance_frames sid fmt prev [] = None"
| "check_utterance_frames sid fmt prev (f # fs) =
     (if fr_stream_id f \<noteq> sid then Some UtteranceStreamMixed
      else if fr_format f \<noteq> fmt then Some UtteranceFormatMixed
      else
        (case prev of
           None \<Rightarrow> check_utterance_frames sid fmt (Some f) fs
         | Some p \<Rightarrow>
             (if fr_sequence f \<le> fr_sequence p then Some UtteranceSequenceOrder
              else if fr_captured_at_ns f < end_ns p then Some UtteranceOverlap
              else check_utterance_frames sid fmt (Some f) fs)))"

definition check_pcm_utterance :: "PcmUtterance \<Rightarrow> media_error option" where
  "check_pcm_utterance u =
     (case ut_frames u of
        [] \<Rightarrow> Some UtteranceEmpty
      | f0 # _ \<Rightarrow>
          (case check_utterance_frames (ut_stream_id u) (ut_format u) None (ut_frames u) of
             Some e \<Rightarrow> Some e
           | None \<Rightarrow>
               (let captured_end = end_ns (last (ut_frames u))
                in if \<not> (fr_captured_at_ns f0 \<le> ut_speech_started_at_ns u \<and>
                         ut_speech_started_at_ns u \<le> captured_end) then Some SpeechStartOutside
                   else if \<not> ut_speech_started_at_ns u \<le> ut_speech_ended_at_ns u
                     then Some SpeechEndBeforeStart
                   else if ut_speech_ended_at_ns u > captured_end then Some SpeechEndOutside
                   else None)))"

definition sum_bytes :: "PcmFrame list \<Rightarrow> int" where
  "sum_bytes fs = sum_list (map fr_len fs)"

definition sum_duration :: "PcmFrame list \<Rightarrow> int" where
  "sum_duration fs = sum_list (map duration_ns fs)"

definition ut_byte_count :: "PcmUtterance \<Rightarrow> int" where
  "ut_byte_count u = sum_bytes (ut_frames u)"

definition ut_audio_duration_ns :: "PcmUtterance \<Rightarrow> int" where
  "ut_audio_duration_ns u = sum_duration (ut_frames u)"

definition ut_pcm :: "PcmUtterance \<Rightarrow> bytes" where
  "ut_pcm u = concat (map fr_pcm (ut_frames u))"

section \<open>Facts\<close>

lemma sum_bytes_simps [simp]:
  "sum_bytes [] = 0" "sum_bytes (f # fs) = fr_len f + sum_bytes fs"
  "sum_bytes (fs @ gs) = sum_bytes fs + sum_bytes gs"
  by (simp_all add: sum_bytes_def)

lemma sum_duration_simps [simp]:
  "sum_duration [] = 0" "sum_duration (f # fs) = duration_ns f + sum_duration fs"
  "sum_duration (fs @ gs) = sum_duration fs + sum_duration gs"
  by (simp_all add: sum_duration_def)

lemma fr_len_nonneg [simp]: "0 \<le> fr_len f"
  by (simp add: fr_len_def)

lemma sum_bytes_nonneg [simp]: "0 \<le> sum_bytes fs"
  by (induction fs) simp_all

lemma format_okD:
  "check_pcm_format f = None \<Longrightarrow> 8000 \<le> pf_sample_rate_hz f \<and> 1 \<le> pf_channels f \<and> pf_channels f \<le> 8"
  by (auto simp: check_pcm_format_def split: if_splits)

lemma duration_nonneg: "frame_ok f \<Longrightarrow> 0 \<le> duration_ns f"
  using format_okD [of "fr_format f"]
  by (auto simp: frame_ok_def duration_ns_def sample_frame_count_def bytes_per_sample_frame_def
      pos_imp_zdiv_nonneg_iff)

lemma sum_duration_nonneg: "list_all frame_ok fs \<Longrightarrow> 0 \<le> sum_duration fs"
  by (induction fs) (auto intro: add_nonneg_nonneg duration_nonneg)

lemma captured_le_end: "frame_ok f \<Longrightarrow> fr_captured_at_ns f \<le> end_ns f"
  by (simp add: end_ns_def duration_nonneg)

text \<open>A valid frame holds a whole number of 16-bit samples.\<close>

lemma frame_len_even:
  assumes "frame_ok f"
  shows "even (length (fr_pcm f))"
proof -
  have "fr_len f mod (pf_channels (fr_format f) * 2) = 0"
    using assms by (auto simp: frame_ok_def check_pcm_frame_def bytes_per_sample_frame_def split: if_splits)
  then have "2 dvd fr_len f" by (metis dvd_eq_mod_eq_0 dvd_mult_right)
  then show ?thesis by (simp add: fr_len_def)
qed

text \<open>\<open>before a b\<close>: frame \<open>b\<close> may follow frame \<open>a\<close> in one stream.\<close>

definition before :: "PcmFrame \<Rightarrow> PcmFrame \<Rightarrow> bool" where
  "before a b \<longleftrightarrow> fr_sequence a < fr_sequence b \<and> end_ns a \<le> fr_captured_at_ns b"

lemma check_utterance_frames_ok:
  assumes "sorted_wrt before fs" "\<And>f. f \<in> set fs \<Longrightarrow> fr_stream_id f = sid \<and> fr_format f = fmt"
    "\<And>p f. prev = Some p \<Longrightarrow> f \<in> set fs \<Longrightarrow> before p f"
  shows "check_utterance_frames sid fmt prev fs = None"
  using assms
proof (induction fs arbitrary: prev)
  case Nil
  then show ?case by simp
next
  case (Cons f fs)
  have "check_utterance_frames sid fmt (Some f) fs = None"
    using Cons.prems by (intro Cons.IH) auto
  moreover have "before p f" if "prev = Some p" for p
    using Cons.prems(3) [OF that, of f] by simp
  moreover have "fr_stream_id f = sid" "fr_format f = fmt"
    using Cons.prems(2) [of f] by simp_all
  ultimately show ?case by (auto simp: before_def split: option.splits)
qed

end
