(* ===== verification/Events.thy ===== *)
theory Events
  imports PyFloat PcmTypes
begin

text \<open>
  The event contract of \<^verbatim>\<open>domain/events.py\<close>: labels, JSON payloads that are frozen on the way
  in and thawed on the way out, and the envelope with its constructor check and the two
  copying operations a session uses. A field update of a frozen dataclass
  (\<open>dataclasses.replace\<close>) runs the constructor again.
\<close>

section \<open>Labels\<close>

datatype TrustLabel =
  Trust_SYSTEM | Trust_OWNER | Trust_TRUSTED_OPERATOR | Trust_LOCAL_SENSOR | Trust_PUBLIC_VIEWER
| Trust_RETRIEVED_DOCUMENT | Trust_TOOL | Trust_PLUGIN | Trust_UNKNOWN

datatype Visibility =
  Vis_PRIVATE | Vis_OWNER_ONLY | Vis_SESSION | Vis_STREAM_SAFE | Vis_PUBLIC

datatype RetentionClass =
  Ret_EPHEMERAL_MEDIA | Ret_OPERATIONAL_TRACE | Ret_TRANSCRIPT | Ret_AUDIT | Ret_DURABLE_DOMAIN

datatype EventPriority = Prio_BACKGROUND | Prio_LOW | Prio_NORMAL | Prio_HIGH | Prio_CRITICAL

fun priority_value :: "EventPriority \<Rightarrow> int" where
  "priority_value Prio_BACKGROUND = 10"
| "priority_value Prio_LOW = 25"
| "priority_value Prio_NORMAL = 50"
| "priority_value Prio_HIGH = 75"
| "priority_value Prio_CRITICAL = 100"

section \<open>JSON payloads\<close>

text \<open>
  What \<open>_freeze_json\<close> may be given: JSON values, keys that are not strings, and objects that
  are not JSON at all. A mapping lists its items in insertion order with distinct keys.
\<close>

datatype pykey = KStr pystr | KOther

datatype pyval =
  PNone | PBool bool | PInt int | PStr pystr | PFloat pyfloat
| PDict "(pykey \<times> pyval) list" | PSeq "pyval list" | PBytes bytes | PObject

datatype frozen =
  FNone | FBool bool | FInt int | FStr pystr | FFloat rat
| FMap "(pystr \<times> frozen) list" | FTuple "frozen list"

datatype json_error = NonFiniteFloat | KeyNotString | NotJson | PayloadNotMapping

fun freeze_json :: "pyval \<Rightarrow> json_error + frozen"
  and freeze_items :: "(pykey \<times> pyval) list \<Rightarrow> json_error + (pystr \<times> frozen) list"
  and freeze_seq :: "pyval list \<Rightarrow> json_error + frozen list" where
  "freeze_json PNone = Inr FNone"
| "freeze_json (PBool b) = Inr (FBool b)"
| "freeze_json (PInt i) = Inr (FInt i)"
| "freeze_json (PStr s) = Inr (FStr s)"
| "freeze_json (PFloat x) = (case x of Fin q \<Rightarrow> Inr (FFloat q) | _ \<Rightarrow> Inl NonFiniteFloat)"
| "freeze_json (PDict kvs) = (case freeze_items kvs of Inl e \<Rightarrow> Inl e | Inr m \<Rightarrow> Inr (FMap m))"
| "freeze_json (PSeq vs) = (case freeze_seq vs of Inl e \<Rightarrow> Inl e | Inr t \<Rightarrow> Inr (FTuple t))"
| "freeze_json (PBytes b) = Inl NotJson"
| "freeze_json PObject = Inl NotJson"
| "freeze_items [] = Inr []"
| "freeze_items ((k, v) # kvs) =
     (case k of
        KOther \<Rightarrow> Inl KeyNotString
      | KStr s \<Rightarrow>
          (case freeze_json v of
             Inl e \<Rightarrow> Inl e
           | Inr f \<Rightarrow> (case freeze_items kvs of Inl e \<Rightarrow> Inl e | Inr m \<Rightarrow> Inr ((s, f) # m))))"
| "freeze_seq [] = Inr []"
| "freeze_seq (v # vs) =
     (case freeze_json v of
        Inl e \<Rightarrow> Inl e
      | Inr f \<Rightarrow> (case freeze_seq vs of Inl e \<Rightarrow> Inl e | Inr t \<Rightarrow> Inr (f # t)))"

text \<open>\<open>_freeze_payload\<close> of a mapping (a typed payload is converted by its own method first).\<close>

definition freeze_payload :: "pyval \<Rightarrow> json_error + (pystr \<times> frozen) list" where
  "freeze_payload v =
     (case freeze_json v of
        Inl e \<Rightarrow> Inl e
      | Inr (FMap m) \<Rightarrow> Inr m
      | Inr _ \<Rightarrow> Inl PayloadNotMapping)"

fun thaw_json :: "frozen \<Rightarrow> pyval" where
  "thaw_json FNone = PNone"
| "thaw_json (FBool b) = PBool b"
| "thaw_json (FInt i) = PInt i"
| "thaw_json (FStr s) = PStr s"
| "thaw_json (FFloat q) = PFloat (Fin q)"
| "thaw_json (FMap m) = PDict (map (\<lambda>(k, v). (KStr k, thaw_json v)) m)"
| "thaw_json (FTuple t) = PSeq (map thaw_json t)"

lemma freeze_seq_thaw:
  "(\<And>f. f \<in> set t \<Longrightarrow> freeze_json (thaw_json f) = Inr f) \<Longrightarrow> freeze_seq (map thaw_json t) = Inr t"
  by (induction t) simp_all

lemma freeze_items_thaw:
  "\<forall>p \<in> set m. freeze_json (thaw_json (snd p)) = Inr (snd p) \<Longrightarrow>
   freeze_items (map (\<lambda>(k, v). (KStr k, thaw_json v)) m) = Inr m"
  by (induction m) (simp_all add: case_prod_beta)

lemma freeze_thaw: "freeze_json (thaw_json f) = Inr f"
proof (induction f)
  case (FMap m)
  then have "\<forall>p \<in> set m. freeze_json (thaw_json (snd p)) = Inr (snd p)" by (auto intro: snds.intros)
  then show ?case using freeze_items_thaw [of m] by simp
next
  case (FTuple t)
  then show ?case using freeze_seq_thaw [of t] by simp
qed simp_all

text \<open>Thawing gives back the very value that was frozen.\<close>

lemma thaw_freeze:
  "freeze_json v = Inr f \<Longrightarrow> thaw_json f = v"
  "freeze_items kvs = Inr m \<Longrightarrow> map (\<lambda>(k, v). (KStr k, thaw_json v)) m = kvs"
  "freeze_seq vs = Inr t \<Longrightarrow> map thaw_json t = vs"
  by (induction v and kvs and vs arbitrary: f and m and t rule: freeze_json_freeze_items_freeze_seq.induct)
    (auto split: sum.splits pyfloat.splits pykey.splits)

text \<open>Exactly the JSON values with finite floats and string keys can be frozen.\<close>

fun json_ok :: "pyval \<Rightarrow> bool" where
  "json_ok (PFloat x) \<longleftrightarrow> (case x of Fin _ \<Rightarrow> True | _ \<Rightarrow> False)"
| "json_ok (PDict kvs) \<longleftrightarrow> (\<forall>(k, v) \<in> set kvs. k \<noteq> KOther \<and> json_ok v)"
| "json_ok (PSeq vs) \<longleftrightarrow> (\<forall>v \<in> set vs. json_ok v)"
| "json_ok (PBytes b) \<longleftrightarrow> False"
| "json_ok PObject \<longleftrightarrow> False"
| "json_ok _ \<longleftrightarrow> True"

lemma freeze_total:
  "(\<exists>f. freeze_json v = Inr f) \<longleftrightarrow> json_ok v"
  "(\<exists>m. freeze_items kvs = Inr m) \<longleftrightarrow> (\<forall>(k, v) \<in> set kvs. k \<noteq> KOther \<and> json_ok v)"
  "(\<exists>t. freeze_seq vs = Inr t) \<longleftrightarrow> (\<forall>v \<in> set vs. json_ok v)"
proof (induction v and kvs and vs rule: freeze_json_freeze_items_freeze_seq.induct)
  case (11 k v kvs)
  then show ?case
    by (cases k; cases "freeze_json v"; cases "freeze_items kvs") auto
next
  case (13 v vs)
  then show ?case
    by (cases "freeze_json v"; cases "freeze_seq vs") auto
qed (auto split: sum.splits pyfloat.splits)

section \<open>Envelopes\<close>

text \<open>A \<open>datetime\<close>: microseconds since the epoch and the UTC offset, if it is aware.\<close>

record datetime =
  dt_micros :: int
  dt_utcoffset :: "int option"

record EventEnvelope =
  ev_type :: pystr
  ev_payload :: "(pystr \<times> frozen) list"
  ev_event_id :: uuid
  ev_schema_version :: int
  ev_occurred_at :: datetime
  ev_monotonic_at_ms :: int
  ev_session_id :: "uuid option"
  ev_actor_id :: "pystr option"
  ev_correlation_id :: uuid
  ev_causation_id :: "uuid option"
  ev_sequence :: "int option"
  ev_priority :: int
  ev_trust :: TrustLabel
  ev_visibility :: Visibility
  ev_retention :: RetentionClass

datatype event_error =
  EventTypeInvalid | SchemaVersionInvalid | OccurredAtNaive | MonotonicNegative | ActorIdBlank
| EventSequenceNegative | EventPayloadInvalid json_error | EventOtherSession

text \<open>
  The pattern \<^verbatim>\<open>[a-z][a-z0-9]*(?:[._-][a-z0-9]+)*\<close>: \<open>type_rest True\<close> is the
  automaton inside a word, \<open>type_rest False\<close> right after a separator.
\<close>

definition is_lower :: "nat \<Rightarrow> bool" where
  "is_lower c \<longleftrightarrow> 97 \<le> c \<and> c \<le> 122"

definition is_lower_digit :: "nat \<Rightarrow> bool" where
  "is_lower_digit c \<longleftrightarrow> is_lower c \<or> (48 \<le> c \<and> c \<le> 57)"

definition is_separator :: "nat \<Rightarrow> bool" where
  "is_separator c \<longleftrightarrow> c = 46 \<or> c = 95 \<or> c = 45"

fun type_rest :: "bool \<Rightarrow> pystr \<Rightarrow> bool" where
  "type_rest in_word [] = in_word"
| "type_rest in_word (c # s) =
     (if is_lower_digit c then type_rest True s
      else in_word \<and> is_separator c \<and> type_rest False s)"

definition event_type_ok :: "pystr \<Rightarrow> bool" where
  "event_type_ok s = (case s of [] \<Rightarrow> False | c # s' \<Rightarrow> is_lower c \<and> type_rest True s')"

definition check_envelope :: "EventEnvelope \<Rightarrow> event_error option" where
  "check_envelope e =
     (if \<not> event_type_ok (ev_type e) then Some EventTypeInvalid
      else if ev_schema_version e < 1 then Some SchemaVersionInvalid
      else if dt_utcoffset (ev_occurred_at e) = None then Some OccurredAtNaive
      else if ev_monotonic_at_ms e < 0 then Some MonotonicNegative
      else if (case ev_actor_id e of None \<Rightarrow> False | Some a \<Rightarrow> blank a) then Some ActorIdBlank
      else if (case ev_sequence e of None \<Rightarrow> False | Some n \<Rightarrow> n < 0) then Some EventSequenceNegative
      else None)"

text \<open>The constructor: the checks, then the payload is frozen.\<close>

definition make_envelope :: "EventEnvelope \<Rightarrow> pyval \<Rightarrow> event_error + EventEnvelope" where
  "make_envelope e payload =
     (case check_envelope e of
        Some err \<Rightarrow> Inl err
      | None \<Rightarrow>
          (case freeze_payload payload of
             Inl err \<Rightarrow> Inl (EventPayloadInvalid err)
           | Inr m \<Rightarrow> Inr (e\<lparr>ev_payload := m\<rparr>)))"

text \<open>\<open>dataclasses.replace\<close>: the constructor on the changed fields and the frozen payload.\<close>

definition replace_envelope :: "EventEnvelope \<Rightarrow> event_error + EventEnvelope" where
  "replace_envelope e = make_envelope e (thaw_json (FMap (ev_payload e)))"

definition with_sequence :: "EventEnvelope \<Rightarrow> int \<Rightarrow> event_error + EventEnvelope" where
  "with_sequence e n = replace_envelope (e\<lparr>ev_sequence := Some n\<rparr>)"

definition for_session :: "EventEnvelope \<Rightarrow> uuid \<Rightarrow> event_error + EventEnvelope" where
  "for_session e sid =
     (case ev_session_id e of
        Some s \<Rightarrow> if s \<noteq> sid then Inl EventOtherSession else Inr e
      | None \<Rightarrow> replace_envelope (e\<lparr>ev_session_id := Some sid\<rparr>))"

text \<open>
  \<open>create\<close>: \<open>fresh\<close> is what \<open>uuid4\<close> gives, \<open>now\<close> and \<open>monotonic_ns\<close> the clock readings.
  The payload is frozen before the constructor freezes it again.
\<close>

definition create_envelope ::
  "pystr \<Rightarrow> pyval option \<Rightarrow> uuid option \<Rightarrow> int \<Rightarrow> datetime option \<Rightarrow> int option \<Rightarrow> uuid option \<Rightarrow>
   pystr option \<Rightarrow> uuid option \<Rightarrow> uuid option \<Rightarrow> int option \<Rightarrow> int \<Rightarrow> TrustLabel \<Rightarrow> Visibility \<Rightarrow>
   RetentionClass \<Rightarrow> uuid \<Rightarrow> datetime \<Rightarrow> int \<Rightarrow> event_error + EventEnvelope" where
  "create_envelope event_type payload event_id schema_version occurred_at monotonic_at_ms session_id
     actor_id correlation_id causation_id sequence priority trust visibility retention fresh now monotonic_ns =
     (let resolved = (case event_id of None \<Rightarrow> fresh | Some i \<Rightarrow> i)
      in (case freeze_payload (case payload of None \<Rightarrow> PDict [] | Some p \<Rightarrow> p) of
            Inl err \<Rightarrow> Inl (EventPayloadInvalid err)
          | Inr m \<Rightarrow>
              replace_envelope
                \<lparr>ev_type = event_type, ev_payload = m, ev_event_id = resolved,
                 ev_schema_version = schema_version,
                 ev_occurred_at = (case occurred_at of None \<Rightarrow> now | Some t \<Rightarrow> t),
                 ev_monotonic_at_ms =
                   (case monotonic_at_ms of None \<Rightarrow> monotonic_ns div 1000000 | Some t \<Rightarrow> t),
                 ev_session_id = session_id, ev_actor_id = actor_id,
                 ev_correlation_id = (case correlation_id of None \<Rightarrow> resolved | Some c \<Rightarrow> c),
                 ev_causation_id = causation_id, ev_sequence = sequence, ev_priority = priority,
                 ev_trust = trust, ev_visibility = visibility, ev_retention = retention\<rparr>))"

text \<open>An envelope that exists: its constructor passed.\<close>

definition envelope_ok :: "EventEnvelope \<Rightarrow> bool" where
  "envelope_ok e \<longleftrightarrow> check_envelope e = None"

lemma freeze_payload_thaw [simp]: "freeze_payload (thaw_json (FMap m)) = Inr m"
  using freeze_thaw [of "FMap m"] by (simp only: freeze_payload_def sum.case frozen.case)

lemma replace_envelope_ok [simp]:
  "replace_envelope e = (if envelope_ok e then Inr e else Inl (the (check_envelope e)))"
  by (auto simp del: thaw_json.simps
      simp: replace_envelope_def make_envelope_def envelope_ok_def split: option.splits)

lemma with_sequence_ok:
  "envelope_ok e \<Longrightarrow> 0 \<le> n \<Longrightarrow>
   with_sequence e n = Inr (e\<lparr>ev_sequence := Some n\<rparr>) \<and> envelope_ok (e\<lparr>ev_sequence := Some n\<rparr>)"
  by (auto simp: with_sequence_def envelope_ok_def check_envelope_def split: if_splits)

lemma for_session_ok:
  "envelope_ok e \<Longrightarrow>
   for_session e sid =
     (if ev_session_id e \<noteq> None \<and> ev_session_id e \<noteq> Some sid then Inl EventOtherSession
      else Inr (e\<lparr>ev_session_id := Some sid\<rparr>)) \<and> envelope_ok (e\<lparr>ev_session_id := Some sid\<rparr>)"
  by (auto simp: for_session_def envelope_ok_def check_envelope_def split: option.splits if_splits)

section \<open>Properties\<close>

text \<open>
  freezing a payload accepts exactly the values made of JSON scalars with finite floats,
  sequences and mappings with string keys; thawing what was frozen gives the value back, and
  freezing again gives the same frozen value, so that copying an envelope never changes its
  payload.
\<close>

theorem payload_freeze_roundtrip:
  "((\<exists>f. freeze_json v = Inr f) \<longleftrightarrow> json_ok v) \<and>
   (\<forall>f. freeze_json v = Inr f \<longleftrightarrow> thaw_json f = v)"
  using freeze_total(1) thaw_freeze(1) freeze_thaw by auto

end
