(* ===== verification/Session.thy ===== *)
theory Session
  imports Mailbox Generations Interaction Events
begin

text \<open>
  The session actor of \<^verbatim>\<open>runtime/session.py\<close>. The event loop interleaves tasks only where one
  awaits something that is not ready. The locks of the actor are held only across awaits
  that are ready at once (the mailbox methods, \<open>_stamp\<close>), so each method is one atomic
  operation from the moment it has its locks, except for the four places where a task really
  waits: \<open>put_wait\<close> on a mailbox, \<open>get\<close> on an empty one, the handler of the
  application, and the children being cancelled. There the method is split: the first
  part returns what the task keeps while it waits, the second is an attempt that may be
  repeated.

  \<open>ac_observed\<close> lists the events the observer was called with, the only effect of
  \<open>_observe_event\<close> outside the actor. The failure of a task is a value of type \<open>'x\<close>.
\<close>

section \<open>Data\<close>

datatype SessionLifecycle =
  Life_NEW | Life_STARTING | Life_RUNNING | Life_STOPPING | Life_STOPPED | Life_FAILED

record SessionMessage =
  sm_event :: EventEnvelope
  sm_token :: cancel_token

record SessionSubmission =
  sb_generation :: generation
  sb_event :: EventEnvelope
  sb_outcome :: PutOutcome
  sb_displaced_event_id :: "uuid option"

definition sb_accepted :: "SessionSubmission \<Rightarrow> bool" where
  "sb_accepted s = outcome_accepted (sb_outcome s)"

datatype session_error =
  SessionLifecycleError | SessionTimeoutError
| SessionCancelError cancel_error
| SessionEventError event_error
| SessionMailboxError mailbox_error
| SessionInteractionError interaction_error

text \<open>
  The actor task: not created, created and not yet scheduled, waiting for a message, in the
  handler, cancelling its children (those listed) before it ends with a terminal lifecycle,
  ended by returning, ended by a \<open>CancelledError\<close>.
\<close>

datatype actor_task =
  Task_none | Task_created | Task_getting | Task_handling SessionMessage
| Task_closing SessionLifecycle "nat list" | Task_returned | Task_cancelled

record ('k, 'x) actor =
  ac_session_id :: uuid
  ac_inbox :: "(SessionMessage, 'k) mailbox"
  ac_outbox :: "(EventEnvelope, 'k) mailbox"
  ac_cancellation :: cancel_source
  ac_interaction :: interaction_machine
  ac_observer :: "(EventEnvelope \<Rightarrow> bool) option"
  ac_observed :: "EventEnvelope list"
  ac_observer_failures :: nat
  ac_lifecycle :: SessionLifecycle
  ac_failure :: "'x option"
  ac_task :: actor_task
  ac_cancel_requested :: bool
  ac_children :: "nat list"
  ac_stopped :: bool
  ac_sequence :: int
  ac_stale_results :: nat

definition actor_init ::
  "uuid \<Rightarrow> int \<Rightarrow> int \<Rightarrow> OverflowPolicy \<Rightarrow> (SessionMessage \<Rightarrow> 'k option) option \<Rightarrow>
   (SessionMessage \<Rightarrow> SessionMessage \<Rightarrow> SessionMessage) option \<Rightarrow> (EventEnvelope \<Rightarrow> bool) option \<Rightarrow>
   session_error + ('k, 'x) actor" where
  "actor_init sid inbox_capacity outbox_capacity overflow coalesce_key coalescer observer =
     (if overflow = COALESCE \<and> coalesce_key = None then Inl (SessionMailboxError MailboxValueError)
      else
        (case mailbox_init inbox_capacity overflow (\<lambda>m. Some (ev_priority (sm_event m)))
                coalesce_key coalescer of
           Inl e \<Rightarrow> Inl (SessionMailboxError e)
         | Inr inbox \<Rightarrow>
             (case mailbox_init outbox_capacity DROP_LOWEST (\<lambda>e. Some (ev_priority e)) None None of
                Inl e \<Rightarrow> Inl (SessionMailboxError e)
              | Inr outbox \<Rightarrow>
                  (case source_init 0 of
                     Inl e \<Rightarrow> Inl (SessionCancelError e)
                   | Inr src \<Rightarrow>
                       Inr \<lparr>ac_session_id = sid, ac_inbox = inbox, ac_outbox = outbox,
                            ac_cancellation = src, ac_interaction = machine_init IDLE,
                            ac_observer = observer, ac_observed = [], ac_observer_failures = 0,
                            ac_lifecycle = Life_NEW, ac_failure = None, ac_task = Task_none,
                            ac_cancel_requested = False, ac_children = [], ac_stopped = False,
                            ac_sequence = 0, ac_stale_results = 0\<rparr>))))"

section \<open>Submission and publication\<close>

definition ensure_running :: "('k, 'x) actor \<Rightarrow> bool" where
  "ensure_running a \<longleftrightarrow> ac_lifecycle a = Life_RUNNING"

definition actor_start :: "('k, 'x) actor \<Rightarrow> (session_error + unit) \<times> ('k, 'x) actor" where
  "actor_start a =
     (if ac_lifecycle a \<noteq> Life_NEW then (Inl SessionLifecycleError, a)
      else (Inr (), a\<lparr>ac_task := Task_created, ac_lifecycle := Life_RUNNING\<rparr>))"

definition stamp ::
  "('k, 'x) actor \<Rightarrow> EventEnvelope \<Rightarrow> (session_error + EventEnvelope) \<times> ('k, 'x) actor" where
  "stamp a e =
     (case for_session e (ac_session_id a) of
        Inl err \<Rightarrow> (Inl (SessionEventError err), a)
      | Inr scoped \<Rightarrow>
          (let a' = a\<lparr>ac_sequence := ac_sequence a + 1\<rparr>
           in (case with_sequence scoped (ac_sequence a) of
                 Inl err \<Rightarrow> (Inl (SessionEventError err), a')
               | Inr stamped \<Rightarrow> (Inr stamped, a'))))"

definition observe_event :: "('k, 'x) actor \<Rightarrow> EventEnvelope \<Rightarrow> ('k, 'x) actor" where
  "observe_event a e =
     (case ac_observer a of
        None \<Rightarrow> a
      | Some raises \<Rightarrow>
          a\<lparr>ac_observed := ac_observed a @ [e],
            ac_observer_failures := ac_observer_failures a + (if raises e then 1 else 0)\<rparr>)"

definition submission :: "EventEnvelope \<Rightarrow> cancel_token \<Rightarrow> SessionMessage put_result \<Rightarrow> SessionSubmission" where
  "submission stamped token r =
     \<lparr>sb_generation = tk_generation token, sb_event = stamped, sb_outcome = pr_outcome r,
      sb_displaced_event_id = map_option (\<lambda>m. ev_event_id (sm_event m)) (pr_displaced r)\<rparr>"

definition submit_with_token ::
  "('k, 'x) actor \<Rightarrow> EventEnvelope \<Rightarrow> cancel_token \<Rightarrow>
   (session_error + SessionSubmission option) \<times> ('k, 'x) actor" where
  "submit_with_token a e token =
     (case stamp a e of
        (Inl err, a1) \<Rightarrow> (Inl err, a1)
      | (Inr stamped, a1) \<Rightarrow>
          (case mb_put (ac_inbox a1) \<lparr>sm_event = stamped, sm_token = token\<rparr> of
             (Inl err, m) \<Rightarrow> (Inl (SessionMailboxError err), a1\<lparr>ac_inbox := m\<rparr>)
           | (Inr None, m) \<Rightarrow> (Inr None, a1\<lparr>ac_inbox := m\<rparr>)
           | (Inr (Some r), m) \<Rightarrow>
               (let a2 = a1\<lparr>ac_inbox := m\<rparr>
                in (Inr (Some (submission stamped token r)),
                    if pr_accepted r then observe_event a2 stamped else a2))))"

definition current_token :: "('k, 'x) actor \<Rightarrow> cancel_error + cancel_token" where
  "current_token a = ensure_current (ac_cancellation a) (src_generation (ac_cancellation a))"

definition submit ::
  "('k, 'x) actor \<Rightarrow> EventEnvelope \<Rightarrow> (session_error + SessionSubmission option) \<times> ('k, 'x) actor" where
  "submit a e =
     (if \<not> ensure_running a then (Inl SessionLifecycleError, a)
      else
        (case current_token a of
           Inl err \<Rightarrow> (Inl (SessionCancelError err), a)
         | Inr token \<Rightarrow> submit_with_token a e token))"

definition submit_foreground_turn ::
  "('k, 'x) actor \<Rightarrow> EventEnvelope \<Rightarrow> pystr \<Rightarrow> int \<Rightarrow>
   (session_error + SessionSubmission option) \<times> ('k, 'x) actor" where
  "submit_foreground_turn a e reason now =
     (if \<not> ensure_running a then (Inl SessionLifecycleError, a)
      else
        (case advance (ac_cancellation a) reason now of
           (Inl err, s) \<Rightarrow> (Inl (SessionCancelError err), a\<lparr>ac_cancellation := s\<rparr>)
         | (Inr token, s) \<Rightarrow> submit_with_token (a\<lparr>ac_cancellation := s\<rparr>) e token))"

text \<open>
  \<open>submit_wait\<close> and \<open>submit_foreground_turn_wait\<close>: the part under the locks gives the
  message with which the call then waits for room.
\<close>

definition submit_wait_begin ::
  "('k, 'x) actor \<Rightarrow> EventEnvelope \<Rightarrow> (session_error + SessionMessage) \<times> ('k, 'x) actor" where
  "submit_wait_begin a e =
     (if \<not> ensure_running a then (Inl SessionLifecycleError, a)
      else
        (case current_token a of
           Inl err \<Rightarrow> (Inl (SessionCancelError err), a)
         | Inr token \<Rightarrow>
             (case stamp a e of
                (Inl err, a1) \<Rightarrow> (Inl err, a1)
              | (Inr stamped, a1) \<Rightarrow> (Inr \<lparr>sm_event = stamped, sm_token = token\<rparr>, a1))))"

definition submit_foreground_wait_begin ::
  "('k, 'x) actor \<Rightarrow> EventEnvelope \<Rightarrow> pystr \<Rightarrow> int \<Rightarrow>
   (session_error + SessionMessage) \<times> ('k, 'x) actor" where
  "submit_foreground_wait_begin a e reason now =
     (if \<not> ensure_running a then (Inl SessionLifecycleError, a)
      else
        (case advance (ac_cancellation a) reason now of
           (Inl err, s) \<Rightarrow> (Inl (SessionCancelError err), a\<lparr>ac_cancellation := s\<rparr>)
         | (Inr token, s) \<Rightarrow>
             (case stamp (a\<lparr>ac_cancellation := s\<rparr>) e of
                (Inl err, a1) \<Rightarrow> (Inl err, a1)
              | (Inr stamped, a1) \<Rightarrow> (Inr \<lparr>sm_event = stamped, sm_token = token\<rparr>, a1))))"

text \<open>
  \<open>_submit_stamped_wait\<close>: one attempt (\<open>Inr None\<close>: the call goes on waiting), and the
  outcome when \<open>token.wait_cancelled\<close> completes first.
\<close>

definition submit_stamped_attempt ::
  "('k, 'x) actor \<Rightarrow> SessionMessage \<Rightarrow> (session_error + SessionSubmission option) \<times> ('k, 'x) actor" where
  "submit_stamped_attempt a msg =
     (case mb_put_wait (ac_inbox a) msg
             (Some (accepts (ac_cancellation a) (tk_generation (sm_token msg)))) False [] of
        (None, m) \<Rightarrow> (Inr None, a\<lparr>ac_inbox := m\<rparr>)
      | (Some (Inl err), m) \<Rightarrow> (Inl (SessionMailboxError err), a\<lparr>ac_inbox := m\<rparr>)
      | (Some (Inr r), m) \<Rightarrow>
          (let a2 = a\<lparr>ac_inbox := m\<rparr>
           in (Inr (Some (submission (sm_event msg) (sm_token msg) r)),
               if pr_accepted r then observe_event a2 (sm_event msg) else a2)))"

definition submit_stamped_cancelled ::
  "('k, 'x) actor \<Rightarrow> SessionMessage \<Rightarrow> SessionSubmission \<times> ('k, 'x) actor" where
  "submit_stamped_cancelled a msg =
     (submission (sm_event msg) (sm_token msg)
        \<lparr>pr_outcome = CANCELLED, pr_item = msg, pr_displaced = None\<rparr>,
      a\<lparr>ac_inbox := mb_apply (ac_inbox a) Op_put_cancelled\<rparr>)"

text \<open>
  \<open>publish_result\<close>: under the generation gate (\<open>Inr None\<close>: it returns \<open>False\<close>), then attempts
  on the outbox (\<open>None\<close>: still waiting), or the cancellation of the token.
\<close>

definition publish_begin ::
  "('k, 'x) actor \<Rightarrow> EventEnvelope \<Rightarrow> generation \<Rightarrow>
   (session_error + (EventEnvelope \<times> cancel_token) option) \<times> ('k, 'x) actor" where
  "publish_begin a e g =
     (case ensure_current (ac_cancellation a) g of
        Inl _ \<Rightarrow> (Inr None, a\<lparr>ac_stale_results := Suc (ac_stale_results a)\<rparr>)
      | Inr token \<Rightarrow>
          (case stamp a e of
             (Inl err, a1) \<Rightarrow> (Inl err, a1)
           | (Inr stamped, a1) \<Rightarrow> (Inr (Some (stamped, token)), a1)))"

definition publish_attempt ::
  "('k, 'x) actor \<Rightarrow> EventEnvelope \<Rightarrow> generation \<Rightarrow> (session_error + bool option) \<times> ('k, 'x) actor" where
  "publish_attempt a stamped g =
     (case mb_put_wait (ac_outbox a) stamped (Some (accepts (ac_cancellation a) g)) True [] of
        (None, m) \<Rightarrow> (Inr None, a\<lparr>ac_outbox := m\<rparr>)
      | (Some (Inl MailboxClosed), m) \<Rightarrow> (Inr (Some False), a\<lparr>ac_outbox := m\<rparr>)
      | (Some (Inl err), m) \<Rightarrow> (Inl (SessionMailboxError err), a\<lparr>ac_outbox := m\<rparr>)
      | (Some (Inr r), m) \<Rightarrow>
          (let a2 = a\<lparr>ac_outbox := m\<rparr>
           in if pr_accepted r then (Inr (Some True), observe_event a2 stamped)
              else
                (Inr (Some False),
                 if pr_outcome r = CANCELLED
                 then a2\<lparr>ac_stale_results := Suc (ac_stale_results a2)\<rparr> else a2)))"

definition publish_cancelled :: "('k, 'x) actor \<Rightarrow> bool \<times> ('k, 'x) actor" where
  "publish_cancelled a =
     (False, a\<lparr>ac_outbox := mb_apply (ac_outbox a) Op_put_cancelled,
               ac_stale_results := Suc (ac_stale_results a)\<rparr>)"

definition receive_output ::
  "('k, 'x) actor \<Rightarrow> (session_error + EventEnvelope option) \<times> ('k, 'x) actor" where
  "receive_output a =
     (case mb_get (ac_outbox a) of
        (Inl err, m) \<Rightarrow> (Inl (SessionMailboxError err), a\<lparr>ac_outbox := m\<rparr>)
      | (Inr r, m) \<Rightarrow> (Inr r, a\<lparr>ac_outbox := m\<rparr>))"

definition transition_interaction ::
  "('k, 'x) actor \<Rightarrow> InteractionState \<Rightarrow> pystr \<Rightarrow> (session_error + unit) \<times> ('k, 'x) actor" where
  "transition_interaction a requested reason =
     (if ac_lifecycle a \<notin> {Life_RUNNING, Life_STOPPING} then (Inl SessionLifecycleError, a)
      else
        (case transition (ac_interaction a) requested reason of
           (Inl err, m) \<Rightarrow> (Inl (SessionInteractionError err), a\<lparr>ac_interaction := m\<rparr>)
         | (Inr _, m) \<Rightarrow> (Inr (), a\<lparr>ac_interaction := m\<rparr>)))"

definition transition_interaction_if_current ::
  "('k, 'x) actor \<Rightarrow> InteractionState \<Rightarrow> generation \<Rightarrow> pystr \<Rightarrow>
   (session_error + bool) \<times> ('k, 'x) actor" where
  "transition_interaction_if_current a requested g reason =
     (case ensure_current (ac_cancellation a) g of
        Inl _ \<Rightarrow> (Inr False, a\<lparr>ac_stale_results := Suc (ac_stale_results a)\<rparr>)
      | Inr _ \<Rightarrow>
          (case transition_interaction a requested reason of
             (Inl err, a') \<Rightarrow> (Inl err, a')
           | (Inr _, a') \<Rightarrow> (Inr True, a')))"

section \<open>Lifecycle\<close>

definition actor_spawn :: "('k, 'x) actor \<Rightarrow> nat \<Rightarrow> (session_error + unit) \<times> ('k, 'x) actor" where
  "actor_spawn a child =
     (if ac_lifecycle a \<noteq> Life_RUNNING then (Inl SessionLifecycleError, a)
      else (Inr (), a\<lparr>ac_children := List.insert child (ac_children a)\<rparr>))"

definition task_ended :: "('k, 'x) actor \<Rightarrow> bool" where
  "task_ended a \<longleftrightarrow> ac_task a = Task_returned \<or> ac_task a = Task_cancelled"

text \<open>\<open>_actor_task.cancel()\<close>: requests a cancellation; an ended task ignores it.\<close>

definition cancel_actor_task :: "('k, 'x) actor \<Rightarrow> ('k, 'x) actor" where
  "cancel_actor_task a =
     (if ac_task a = Task_none \<or> task_ended a then a else a\<lparr>ac_cancel_requested := True\<rparr>)"

datatype 'x child_outcome = Child_cancelled | Child_returned | Child_raised 'x

definition child_done :: "('k, 'x) actor \<Rightarrow> nat \<Rightarrow> 'x child_outcome \<Rightarrow> ('k, 'x) actor" where
  "child_done a child outcome =
     (let a1 = a\<lparr>ac_children := removeAll child (ac_children a)\<rparr>
      in (case outcome of
            Child_raised x \<Rightarrow>
              if ac_lifecycle a1 \<noteq> Life_RUNNING then a1
              else cancel_actor_task (a1\<lparr>ac_failure := Some x\<rparr>)
          | _ \<Rightarrow> a1))"

text \<open>
  \<open>_run\<close>: its first scheduling, one iteration of its loop, the ends of the handler, and the
  \<open>finally\<close> block up to and after the wait for the children.
\<close>

definition run_schedule :: "('k, 'x) actor \<Rightarrow> ('k, 'x) actor" where
  "run_schedule a =
     (if ac_cancel_requested a then a\<lparr>ac_task := Task_cancelled, ac_cancel_requested := False\<rparr>
      else a\<lparr>ac_task := Task_getting\<rparr>)"

definition close_with :: "pystr \<Rightarrow> int \<Rightarrow> ('k, 'x) actor \<Rightarrow> ('k, 'x) actor" where
  "close_with reason now a = a\<lparr>ac_cancellation := snd (source_close (ac_cancellation a) reason now)\<rparr>"

definition run_finally :: "('k, 'x) actor \<Rightarrow> SessionLifecycle \<Rightarrow> int \<Rightarrow> ('k, 'x) actor" where
  "run_finally a terminal now =
     (let a1 = close_with (lit ''session actor stopped'') now a
      in a1\<lparr>ac_inbox := snd (mb_close (ac_inbox a1) True),
            ac_task := Task_closing terminal (ac_children a1)\<rparr>)"

definition run_get :: "('k, 'x) actor \<Rightarrow> int \<Rightarrow> ('k, 'x) actor" where
  "run_get a now =
     (case mb_get (ac_inbox a) of
        (Inl _, m) \<Rightarrow> run_finally (a\<lparr>ac_inbox := m\<rparr>) Life_STOPPED now
      | (Inr None, m) \<Rightarrow> a\<lparr>ac_inbox := m\<rparr>
      | (Inr (Some msg), m) \<Rightarrow> a\<lparr>ac_inbox := m, ac_task := Task_handling msg\<rparr>)"

definition run_handler_returned :: "('k, 'x) actor \<Rightarrow> ('k, 'x) actor" where
  "run_handler_returned a = a\<lparr>ac_task := Task_getting\<rparr>"

definition run_handler_raised :: "('k, 'x) actor \<Rightarrow> 'x \<Rightarrow> int \<Rightarrow> ('k, 'x) actor" where
  "run_handler_raised a x now = run_finally (a\<lparr>ac_failure := Some x\<rparr>) Life_FAILED now"

definition run_cancelled :: "('k, 'x) actor \<Rightarrow> int \<Rightarrow> ('k, 'x) actor" where
  "run_cancelled a now =
     run_finally (a\<lparr>ac_cancel_requested := False\<rparr>)
       (if ac_failure a \<noteq> None then Life_FAILED else Life_STOPPED) now"

definition final_interaction :: "SessionLifecycle \<Rightarrow> interaction_machine \<Rightarrow> interaction_machine" where
  "final_interaction terminal m =
     (if terminal = Life_FAILED \<and> can_transition m DEGRADED
        then snd (transition m DEGRADED (lit ''session actor failure''))
      else if terminal = Life_STOPPED \<and> im_state m \<noteq> IDLE \<and> can_transition m IDLE
        then snd (transition m IDLE (lit ''session stopped''))
      else m)"

definition run_closed :: "('k, 'x) actor \<Rightarrow> SessionLifecycle \<Rightarrow> ('k, 'x) actor" where
  "run_closed a terminal =
     a\<lparr>ac_children := [], ac_outbox := snd (mb_close (ac_outbox a) False),
       ac_interaction := final_interaction terminal (ac_interaction a),
       ac_lifecycle := terminal, ac_stopped := True, ac_task := Task_returned,
       ac_cancel_requested := False\<rparr>"

text \<open>A cancellation that arrives while the \<open>finally\<close> block waits for the children ends it there.\<close>

definition run_closing_cancelled :: "('k, 'x) actor \<Rightarrow> ('k, 'x) actor" where
  "run_closing_cancelled a = a\<lparr>ac_task := Task_cancelled, ac_cancel_requested := False\<rparr>"

text \<open>
  \<open>stop\<close>: the part under the lifecycle lock (\<open>Inr True\<close>: the call goes on to wait for the
  task), and what it does once the task ended or the timeout expired. \<open>finalize\<close> is
  \<open>_finalize_cancelled_before_run\<close>, split at its wait for the children.
\<close>

definition stop_begin ::
  "('k, 'x) actor \<Rightarrow> bool \<Rightarrow> rat \<Rightarrow> int \<Rightarrow> (session_error + bool) \<times> ('k, 'x) actor" where
  "stop_begin a graceful timeout now =
     (if timeout \<le> 0 then (Inl SessionTimeoutError, a)
      else if ac_lifecycle a = Life_STOPPED \<or> ac_lifecycle a = Life_FAILED then (Inr False, a)
      else if ac_lifecycle a = Life_NEW then
        (let a1 = close_with (lit ''session closed'') now (a\<lparr>ac_lifecycle := Life_STOPPED\<rparr>)
         in (Inr False,
             a1\<lparr>ac_inbox := snd (mb_close (ac_inbox a1) True),
                ac_outbox := snd (mb_close (ac_outbox a1) False), ac_stopped := True\<rparr>))
      else
        (let a1 = close_with (lit ''session stopping'') now (a\<lparr>ac_lifecycle := Life_STOPPING\<rparr>);
             a2 = a1\<lparr>ac_inbox := snd (mb_close (ac_inbox a1) (\<not> graceful))\<rparr>
         in if ac_task a2 = Task_none then (Inr False, a2)
            else (Inr True, if graceful then a2 else cancel_actor_task a2)))"

datatype stop_phase = Stop_waiting bool | Stop_timed_out | Stop_finalizing "nat list"

datatype stop_result = Stop_returned | Stop_raised_cancelled | Stop_continues stop_phase

definition finalize_begin :: "('k, 'x) actor \<Rightarrow> stop_result \<times> ('k, 'x) actor" where
  "finalize_begin a =
     (if ac_stopped a then (Stop_returned, a)
      else (Stop_continues (Stop_finalizing (ac_children a)),
            a\<lparr>ac_inbox := snd (mb_close (ac_inbox a) True)\<rparr>))"

definition finalize_end :: "('k, 'x) actor \<Rightarrow> ('k, 'x) actor" where
  "finalize_end a =
     a\<lparr>ac_children := [], ac_outbox := snd (mb_close (ac_outbox a) False),
       ac_lifecycle := Life_STOPPED, ac_stopped := True\<rparr>"

definition stop_task_ended :: "('k, 'x) actor \<Rightarrow> bool \<Rightarrow> stop_result \<times> ('k, 'x) actor" where
  "stop_task_ended a graceful =
     (if ac_task a \<noteq> Task_cancelled then (Stop_returned, a)
      else if graceful then (Stop_raised_cancelled, a)
      else finalize_begin a)"

definition stop_timeout :: "('k, 'x) actor \<Rightarrow> ('k, 'x) actor" where
  "stop_timeout a = cancel_actor_task a"

end
