(* ===== verification/SessionInv.thy ===== *)
theory SessionInv
  imports Session
begin

text \<open>
  The session actor with the tasks that use it, as a system of atomic operations; its
  invariants; and the properties of cancellation, ordering and shutdown that follow.
\<close>

section \<open>The system\<close>

text \<open>
  The actor, the submissions and publications that wait for room in a mailbox, and the calls
  of \<open>stop\<close> that wait for the actor task.
\<close>

record ('k, 'x) sess =
  se_actor :: "('k, 'x) actor"
  se_submits :: "SessionMessage list"
  se_pubs :: "(EventEnvelope \<times> generation \<times> cancel_token) list"
  se_stops :: "stop_phase list"

text \<open>
  The scheduler's choices. An index names one of the waiting calls. What the application
  does (the handler, the children, the events it sends) is unrestricted, except that an
  event is a value of the envelope type, which passed its constructor.
\<close>

datatype 'x sess_op =
  Do_start
| Do_submit EventEnvelope
| Do_foreground EventEnvelope pystr int
| Do_submit_wait EventEnvelope
| Do_foreground_wait EventEnvelope pystr int
| Do_submit_attempt nat
| Do_submit_cancelled nat
| Do_publish EventEnvelope generation
| Do_publish_attempt nat
| Do_publish_cancelled nat
| Do_receive
| Do_transition InteractionState pystr
| Do_transition_if_current InteractionState generation pystr
| Do_spawn nat
| Do_child_done nat "'x child_outcome"
| Do_schedule
| Do_get int
| Do_handler_returned
| Do_handler_raised 'x int
| Do_cancelled int
| Do_closed
| Do_closing_cancelled
| Do_stop bool rat int
| Do_stop_task_ended nat
| Do_stop_timeout nat
| Do_stop_finalized nat

definition with_actor :: "('k, 'x) sess \<Rightarrow> ('k, 'x) actor \<Rightarrow> ('k, 'x) sess" where
  "with_actor s a = s\<lparr>se_actor := a\<rparr>"

definition admit_submit ::
  "('k, 'x) sess \<Rightarrow> (session_error + SessionMessage) \<times> ('k, 'x) actor \<Rightarrow> ('k, 'x) sess" where
  "admit_submit s r =
     (case r of
        (Inl _, a) \<Rightarrow> with_actor s a
      | (Inr msg, a) \<Rightarrow> (with_actor s a)\<lparr>se_submits := se_submits s @ [msg]\<rparr>)"

definition stop_continues :: "('k, 'x) sess \<Rightarrow> nat \<Rightarrow> stop_result \<times> ('k, 'x) actor \<Rightarrow> ('k, 'x) sess" where
  "stop_continues s i r =
     (with_actor s (snd r))\<lparr>se_stops :=
        (case fst r of
           Stop_continues ph \<Rightarrow> (se_stops s)[i := ph]
         | _ \<Rightarrow> pop_at i (se_stops s))\<rparr>"

fun sess_apply :: "('k, 'x) sess \<Rightarrow> 'x sess_op \<Rightarrow> ('k, 'x) sess" where
  "sess_apply s Do_start = with_actor s (snd (actor_start (se_actor s)))"
| "sess_apply s (Do_submit e) =
     (if envelope_ok e then with_actor s (snd (submit (se_actor s) e)) else s)"
| "sess_apply s (Do_foreground e r now) =
     (if envelope_ok e then with_actor s (snd (submit_foreground_turn (se_actor s) e r now)) else s)"
| "sess_apply s (Do_submit_wait e) =
     (if envelope_ok e then admit_submit s (submit_wait_begin (se_actor s) e) else s)"
| "sess_apply s (Do_foreground_wait e r now) =
     (if envelope_ok e then admit_submit s (submit_foreground_wait_begin (se_actor s) e r now) else s)"
| "sess_apply s (Do_submit_attempt i) =
     (if i < length (se_submits s) then
        (case submit_stamped_attempt (se_actor s) (se_submits s ! i) of
           (Inr None, a) \<Rightarrow> with_actor s a
         | (_, a) \<Rightarrow> (with_actor s a)\<lparr>se_submits := pop_at i (se_submits s)\<rparr>)
      else s)"
| "sess_apply s (Do_submit_cancelled i) =
     (if i < length (se_submits s) \<and>
         token_cancelled (ac_cancellation (se_actor s)) (sm_token (se_submits s ! i)) then
        (with_actor s (snd (submit_stamped_cancelled (se_actor s) (se_submits s ! i))))
          \<lparr>se_submits := pop_at i (se_submits s)\<rparr>
      else s)"
| "sess_apply s (Do_publish e g) =
     (if envelope_ok e then
        (case publish_begin (se_actor s) e g of
           (Inr (Some (stamped, token)), a) \<Rightarrow>
             (with_actor s a)\<lparr>se_pubs := se_pubs s @ [(stamped, g, token)]\<rparr>
         | (_, a) \<Rightarrow> with_actor s a)
      else s)"
| "sess_apply s (Do_publish_attempt i) =
     (if i < length (se_pubs s) then
        (case publish_attempt (se_actor s) (fst (se_pubs s ! i)) (fst (snd (se_pubs s ! i))) of
           (Inr None, a) \<Rightarrow> with_actor s a
         | (_, a) \<Rightarrow> (with_actor s a)\<lparr>se_pubs := pop_at i (se_pubs s)\<rparr>)
      else s)"
| "sess_apply s (Do_publish_cancelled i) =
     (if i < length (se_pubs s) \<and>
         token_cancelled (ac_cancellation (se_actor s)) (snd (snd (se_pubs s ! i))) then
        (with_actor s (snd (publish_cancelled (se_actor s))))\<lparr>se_pubs := pop_at i (se_pubs s)\<rparr>
      else s)"
| "sess_apply s Do_receive = with_actor s (snd (receive_output (se_actor s)))"
| "sess_apply s (Do_transition q r) = with_actor s (snd (transition_interaction (se_actor s) q r))"
| "sess_apply s (Do_transition_if_current q g r) =
     with_actor s (snd (transition_interaction_if_current (se_actor s) q g r))"
| "sess_apply s (Do_spawn c) = with_actor s (snd (actor_spawn (se_actor s) c))"
| "sess_apply s (Do_child_done c r) =
     (if c \<in> set (ac_children (se_actor s)) then with_actor s (child_done (se_actor s) c r) else s)"
| "sess_apply s Do_schedule =
     (if ac_task (se_actor s) = Task_created then with_actor s (run_schedule (se_actor s)) else s)"
| "sess_apply s (Do_get now) =
     (if ac_task (se_actor s) = Task_getting then with_actor s (run_get (se_actor s) now) else s)"
| "sess_apply s Do_handler_returned =
     (case ac_task (se_actor s) of
        Task_handling _ \<Rightarrow> with_actor s (run_handler_returned (se_actor s))
      | _ \<Rightarrow> s)"
| "sess_apply s (Do_handler_raised x now) =
     (case ac_task (se_actor s) of
        Task_handling _ \<Rightarrow> with_actor s (run_handler_raised (se_actor s) x now)
      | _ \<Rightarrow> s)"
| "sess_apply s (Do_cancelled now) =
     (if ac_cancel_requested (se_actor s) then
        (case ac_task (se_actor s) of
           Task_getting \<Rightarrow> with_actor s (run_cancelled (se_actor s) now)
         | Task_handling _ \<Rightarrow> with_actor s (run_cancelled (se_actor s) now)
         | _ \<Rightarrow> s)
      else s)"
| "sess_apply s Do_closed =
     (case ac_task (se_actor s) of
        Task_closing terminal awaited \<Rightarrow>
          if \<not> ac_cancel_requested (se_actor s) \<and> set awaited \<inter> set (ac_children (se_actor s)) = {}
          then with_actor s (run_closed (se_actor s) terminal) else s
      | _ \<Rightarrow> s)"
| "sess_apply s Do_closing_cancelled =
     (case ac_task (se_actor s) of
        Task_closing _ _ \<Rightarrow>
          if ac_cancel_requested (se_actor s) then with_actor s (run_closing_cancelled (se_actor s)) else s
      | _ \<Rightarrow> s)"
| "sess_apply s (Do_stop graceful timeout now) =
     (case stop_begin (se_actor s) graceful timeout now of
        (Inr True, a) \<Rightarrow> (with_actor s a)\<lparr>se_stops := se_stops s @ [Stop_waiting graceful]\<rparr>
      | (_, a) \<Rightarrow> with_actor s a)"
| "sess_apply s (Do_stop_task_ended i) =
     (if i < length (se_stops s) \<and> task_ended (se_actor s) then
        (case se_stops s ! i of
           Stop_waiting graceful \<Rightarrow> stop_continues s i (stop_task_ended (se_actor s) graceful)
         | Stop_timed_out \<Rightarrow> stop_continues s i (finalize_begin (se_actor s))
         | Stop_finalizing _ \<Rightarrow> s)
      else s)"
| "sess_apply s (Do_stop_timeout i) =
     (if i < length (se_stops s) \<and> \<not> task_ended (se_actor s) then
        (case se_stops s ! i of
           Stop_waiting _ \<Rightarrow>
             (with_actor s (stop_timeout (se_actor s)))\<lparr>se_stops := (se_stops s)[i := Stop_timed_out]\<rparr>
         | _ \<Rightarrow> s)
      else s)"
| "sess_apply s (Do_stop_finalized i) =
     (if i < length (se_stops s) then
        (case se_stops s ! i of
           Stop_finalizing awaited \<Rightarrow>
             if set awaited \<inter> set (ac_children (se_actor s)) = {}
             then (with_actor s (finalize_end (se_actor s)))\<lparr>se_stops := pop_at i (se_stops s)\<rparr>
             else s
         | _ \<Rightarrow> s)
      else s)"

definition sess_init :: "('k, 'x) actor \<Rightarrow> ('k, 'x) sess" where
  "sess_init a = \<lparr>se_actor = a, se_submits = [], se_pubs = [], se_stops = []\<rparr>"

section \<open>What an operation may do to the parts\<close>

text \<open>
  \<open>evolves a b\<close>: from \<open>a\<close> to \<open>b\<close> the mailboxes and the cancellation source changed only
  through their own operations, and the identity of the session not at all.
\<close>

definition evolves :: "('k, 'x) actor \<Rightarrow> ('k, 'x) actor \<Rightarrow> bool" where
  "evolves a b \<longleftrightarrow>
     (\<exists>ps qs rs. ac_inbox b = mb.run (ac_inbox a) ps \<and> ac_outbox b = mb.run (ac_outbox a) qs \<and>
        ac_cancellation b = gate.run (ac_cancellation a) rs) \<and>
     ac_session_id b = ac_session_id a \<and> ac_observer b = ac_observer a"

lemma evolves_same:
  "ac_inbox b = ac_inbox a \<Longrightarrow> ac_outbox b = ac_outbox a \<Longrightarrow> ac_cancellation b = ac_cancellation a \<Longrightarrow>
   ac_session_id b = ac_session_id a \<Longrightarrow> ac_observer b = ac_observer a \<Longrightarrow> evolves a b"
  unfolding evolves_def
  by (intro conjI exI [of _ "[]"]) simp_all

lemma evolves_refl [simp]: "evolves a a"
  by (rule evolves_same) simp_all

lemma evolves_trans: "evolves a b \<Longrightarrow> evolves b c \<Longrightarrow> evolves a c"
  unfolding evolves_def by (metis mb.run_simps(3) gate.run_simps(3))

lemma evolves_inbox: "evolves a b \<Longrightarrow> evolves a (b\<lparr>ac_inbox := mb_apply (ac_inbox b) p\<rparr>)"
  by (rule evolves_trans, assumption, unfold evolves_def)
    (intro conjI exI [of _ "[p]"] exI [of _ "[]"]; simp)

lemma evolves_outbox: "evolves a b \<Longrightarrow> evolves a (b\<lparr>ac_outbox := mb_apply (ac_outbox b) p\<rparr>)"
  by (rule evolves_trans, assumption, unfold evolves_def)
    (intro conjI exI [of _ "[]"] exI [of _ "[p]"]; simp)

lemma evolves_source: "evolves a b \<Longrightarrow> evolves a (b\<lparr>ac_cancellation := cancel_apply (ac_cancellation b) p\<rparr>)"
  by (rule evolves_trans, assumption, unfold evolves_def)
    (intro conjI exI [of _ "[]"] exI [of _ "[p]"]; simp)

text \<open>The operations that leave the lifecycle, the task and the children alone.\<close>

definition quiet :: "('k, 'x) actor \<Rightarrow> ('k, 'x) actor \<Rightarrow> bool" where
  "quiet a b \<longleftrightarrow> evolves a b \<and> ac_lifecycle b = ac_lifecycle a \<and> ac_failure b = ac_failure a \<and>
     ac_task b = ac_task a \<and> ac_cancel_requested b = ac_cancel_requested a \<and>
     ac_children b = ac_children a \<and> ac_stopped b = ac_stopped a"

lemma quiet_refl [simp]: "quiet a a"
  by (simp add: quiet_def)

lemma quiet_trans: "quiet a b \<Longrightarrow> quiet b c \<Longrightarrow> quiet a c"
  by (auto simp: quiet_def intro: evolves_trans)

lemma quiet_evolves: "quiet a b \<Longrightarrow> evolves a b"
  by (simp add: quiet_def)

lemma quiet_inbox:
  "quiet a (a\<lparr>ac_inbox := snd (mb_put (ac_inbox a) x)\<rparr>)"
  "quiet a (a\<lparr>ac_inbox := snd (mb_put_wait (ac_inbox a) x acc allow [])\<rparr>)"
  "quiet a (a\<lparr>ac_inbox := mb_apply (ac_inbox a) Op_put_cancelled\<rparr>)"
  using evolves_inbox [of a a "Op_put x"] evolves_inbox [of a a "Op_put_attempt x acc allow"]
    evolves_inbox [of a a Op_put_cancelled] by (simp_all add: quiet_def)

lemma quiet_outbox:
  "quiet a (a\<lparr>ac_outbox := snd (mb_put_wait (ac_outbox a) y acc allow [])\<rparr>)"
  "quiet a (a\<lparr>ac_outbox := snd (mb_get (ac_outbox a))\<rparr>)"
  "quiet a (a\<lparr>ac_outbox := mb_apply (ac_outbox a) Op_put_cancelled\<rparr>)"
  using evolves_outbox [of a a "Op_put_attempt y acc allow"] evolves_outbox [of a a Op_get]
    evolves_outbox [of a a Op_put_cancelled] by (simp_all add: quiet_def)

lemma quiet_source: "quiet a (a\<lparr>ac_cancellation := snd (advance (ac_cancellation a) r now)\<rparr>)"
  using evolves_source [of a a "Op_advance r now"] by (simp add: quiet_def)

lemma quiet_rest:
  "quiet a (a\<lparr>ac_stale_results := n\<rparr>)" "quiet a (a\<lparr>ac_interaction := m\<rparr>)" "quiet a (a\<lparr>ac_sequence := k\<rparr>)"
  "quiet a (observe_event a e)"
  by (auto simp: quiet_def observe_event_def intro: evolves_same split: option.split)

lemma stamp_quiet: "quiet a (snd (stamp a e))"
  using quiet_rest(3) [of a] by (auto simp: stamp_def Let_def split: sum.split)

lemma submit_with_token_quiet: "quiet a (snd (submit_with_token a e t))"
proof (cases "stamp a e")
  case (Pair r a1)
  have q1: "quiet a a1" using stamp_quiet [of a e] Pair by simp
  have q2: "quiet a (a1\<lparr>ac_inbox := snd (mb_put (ac_inbox a1) x)\<rparr>)" for x
    by (rule quiet_trans [OF q1 quiet_inbox(1)])
  then have "quiet a (observe_event (a1\<lparr>ac_inbox := snd (mb_put (ac_inbox a1) x)\<rparr>) y)" for x y
    by (rule quiet_trans [OF _ quiet_rest(4)])
  then show ?thesis
    using q1 q2 by (auto simp: submit_with_token_def Pair Let_def case_prod_beta split: sum.splits option.splits)
qed

lemma submit_quiet: "quiet a (snd (submit a e))"
  by (simp add: submit_def submit_with_token_quiet split: sum.split)

lemma submit_foreground_quiet: "quiet a (snd (submit_foreground_turn a e r now))"
  using quiet_source [of a r now] submit_with_token_quiet
  by (auto simp: submit_foreground_turn_def case_prod_beta split: sum.split intro: quiet_trans)

lemma submit_wait_quiet: "quiet a (snd (submit_wait_begin a e))"
  using stamp_quiet [of a e]
  by (auto simp: submit_wait_begin_def case_prod_beta split: sum.split)

lemma submit_foreground_wait_quiet: "quiet a (snd (submit_foreground_wait_begin a e r now))"
  using quiet_source [of a r now] stamp_quiet
  by (auto simp: submit_foreground_wait_begin_def case_prod_beta split: sum.split intro: quiet_trans)

lemma submit_attempt_quiet: "quiet a (snd (submit_stamped_attempt a m))"
  using quiet_inbox(2) [of a m] quiet_trans [OF quiet_inbox(2) quiet_rest(4)]
  by (auto simp: submit_stamped_attempt_def Let_def case_prod_beta split: sum.split option.split)

lemma publish_begin_quiet: "quiet a (snd (publish_begin a e g))"
  using quiet_rest(1) stamp_quiet [of a e]
  by (auto simp: publish_begin_def case_prod_beta split: sum.split)

lemma publish_attempt_quiet: "quiet a (snd (publish_attempt a e g))"
  using quiet_outbox(1) [of a e] quiet_trans [OF quiet_outbox(1) quiet_rest(4)]
    quiet_trans [OF quiet_outbox(1) quiet_rest(1)]
  by (auto simp: publish_attempt_def Let_def case_prod_beta split: sum.split option.split mailbox_error.split)

lemma publish_cancelled_quiet: "quiet a (snd (publish_cancelled a))"
  using quiet_trans [OF quiet_outbox(3) quiet_rest(1)] by (simp add: publish_cancelled_def)

lemma receive_quiet: "quiet a (snd (receive_output a))"
  using quiet_outbox(2) [of a] by (simp add: receive_output_def case_prod_beta split: sum.split)

lemma transition_quiet: "quiet a (snd (transition_interaction a q r))"
  using quiet_rest(2) [of a] by (simp add: transition_interaction_def case_prod_beta split: sum.split)

lemma transition_if_current_quiet: "quiet a (snd (transition_interaction_if_current a q g r))"
  using quiet_rest(1) [of a] transition_quiet [of a q r]
  by (simp add: transition_interaction_if_current_def case_prod_beta split: sum.split)

lemmas quiet_ops = submit_quiet submit_foreground_quiet submit_wait_quiet submit_foreground_wait_quiet
  submit_attempt_quiet publish_begin_quiet publish_attempt_quiet publish_cancelled_quiet receive_quiet
  transition_quiet transition_if_current_quiet

text \<open>The other operations keep the parts' disciplines too.\<close>

lemma evolves_closers:
  "evolves a b \<Longrightarrow> evolves a (close_with r now b)"
  "evolves a b \<Longrightarrow> evolves a (b\<lparr>ac_inbox := snd (mb_close (ac_inbox b) d)\<rparr>)"
  "evolves a b \<Longrightarrow> evolves a (b\<lparr>ac_outbox := snd (mb_close (ac_outbox b) d)\<rparr>)"
  "evolves a b \<Longrightarrow> evolves a (b\<lparr>ac_inbox := snd (mb_get (ac_inbox b))\<rparr>)"
  using evolves_source [of a b "Op_source_close r now"] evolves_inbox [of a b "Op_close d"]
    evolves_outbox [of a b "Op_close d"] evolves_inbox [of a b Op_get]
  by (simp_all add: close_with_def)

lemma evolves_rest:
  "evolves a b \<Longrightarrow> evolves a (b\<lparr>ac_task := t\<rparr>)" "evolves a b \<Longrightarrow> evolves a (b\<lparr>ac_lifecycle := l\<rparr>)"
  "evolves a b \<Longrightarrow> evolves a (b\<lparr>ac_children := c\<rparr>)" "evolves a b \<Longrightarrow> evolves a (b\<lparr>ac_stopped := st\<rparr>)"
  "evolves a b \<Longrightarrow> evolves a (b\<lparr>ac_cancel_requested := cr\<rparr>)" "evolves a b \<Longrightarrow> evolves a (b\<lparr>ac_failure := f\<rparr>)"
  "evolves a b \<Longrightarrow> evolves a (b\<lparr>ac_interaction := m\<rparr>)"
  by (auto elim!: evolves_trans intro: evolves_same)

lemma run_finally_evolves: "evolves a b \<Longrightarrow> evolves a (run_finally b t now)"
  unfolding run_finally_def Let_def by (intro evolves_closers evolves_rest)

lemma cancel_task_evolves: "evolves a b \<Longrightarrow> evolves a (cancel_actor_task b)"
  by (simp add: cancel_actor_task_def evolves_rest)

lemma lifecycle_evolves:
  "evolves a (snd (actor_start a))" "evolves a (snd (actor_spawn a c))" "evolves a (child_done a c r)"
  "evolves a (run_schedule a)" "evolves a (run_get a now)" "evolves a (run_handler_returned a)"
  "evolves a (run_handler_raised a x now)" "evolves a (run_cancelled a now)" "evolves a (run_closed a t)"
  "evolves a (run_closing_cancelled a)" "evolves a (snd (stop_begin a gr timeout now))"
  "evolves a (snd (finalize_begin a))" "evolves a (finalize_end a)"
  "evolves a (snd (stop_task_ended a gr))" "evolves a (stop_timeout a)"
proof -
  have get: "evolves a (a\<lparr>ac_inbox := snd (mb_get (ac_inbox a))\<rparr>)" by (intro evolves_closers evolves_refl)
  show "evolves a (snd (actor_start a))"
    by (auto simp: actor_start_def intro!: evolves_rest)
  show "evolves a (snd (actor_spawn a c))" by (auto simp: actor_spawn_def intro!: evolves_rest)
  show "evolves a (child_done a c r)"
    by (auto simp: child_done_def Let_def split: child_outcome.split intro!: evolves_rest cancel_task_evolves)
  show "evolves a (run_schedule a)" by (auto simp: run_schedule_def intro!: evolves_rest)
  show "evolves a (run_get a now)"
    using get by (auto simp: run_get_def case_prod_beta split: sum.split option.split
        intro!: run_finally_evolves evolves_rest)
  show "evolves a (run_handler_returned a)" by (auto simp: run_handler_returned_def intro!: evolves_rest)
  show "evolves a (run_handler_raised a x now)"
    by (auto simp: run_handler_raised_def intro!: run_finally_evolves evolves_rest)
  show "evolves a (run_cancelled a now)"
    by (auto simp: run_cancelled_def intro!: run_finally_evolves evolves_rest)
  show "evolves a (run_closing_cancelled a)" by (auto simp: run_closing_cancelled_def intro!: evolves_rest)
  have "run_closed a t = ((((((a\<lparr>ac_outbox := snd (mb_close (ac_outbox a) False)\<rparr>)\<lparr>ac_children := []\<rparr>)
      \<lparr>ac_interaction := final_interaction t (ac_interaction a)\<rparr>)\<lparr>ac_lifecycle := t\<rparr>)\<lparr>ac_stopped := True\<rparr>)
      \<lparr>ac_task := Task_returned\<rparr>)\<lparr>ac_cancel_requested := False\<rparr>"
    by (simp add: run_closed_def)
  then show "evolves a (run_closed a t)" by (auto intro!: evolves_closers evolves_rest)
  show fin: "evolves a (snd (finalize_begin a))" by (auto simp: finalize_begin_def intro!: evolves_closers)
  have "finalize_end a = (((a\<lparr>ac_outbox := snd (mb_close (ac_outbox a) False)\<rparr>)\<lparr>ac_children := []\<rparr>)
      \<lparr>ac_lifecycle := Life_STOPPED\<rparr>)\<lparr>ac_stopped := True\<rparr>" by (simp add: finalize_end_def)
  then show "evolves a (finalize_end a)" by (auto intro!: evolves_closers evolves_rest)
  show "evolves a (snd (stop_task_ended a gr))" using fin by (simp add: stop_task_ended_def)
  show "evolves a (stop_timeout a)" by (simp add: stop_timeout_def cancel_task_evolves)
  have close: "evolves a ((b\<lparr>ac_inbox := snd (mb_close (ac_inbox b) d)\<rparr>)\<lparr>ac_outbox := snd (mb_close (ac_outbox b) d')\<rparr>)"
    if "evolves a b" for b d d'
    using evolves_closers(3) [OF evolves_closers(2) [OF that]] by simp
  show "evolves a (snd (stop_begin a gr timeout now))"
    by (auto simp: stop_begin_def Let_def intro!: cancel_task_evolves close evolves_closers evolves_rest)
qed

lemma sess_apply_evolves: "evolves (se_actor s) (se_actor (sess_apply s p))"
proof (cases p)
  case (Do_submit_cancelled i)
  then show ?thesis
    using quiet_evolves [OF quiet_inbox(3), of "se_actor s"]
    by (simp add: with_actor_def submit_stamped_cancelled_def)
qed (auto simp: with_actor_def admit_submit_def stop_continues_def case_prod_beta
      intro: lifecycle_evolves quiet_evolves [OF quiet_ops(1)] quiet_evolves [OF quiet_ops(2)]
        quiet_evolves [OF quiet_ops(3)] quiet_evolves [OF quiet_ops(4)] quiet_evolves [OF quiet_ops(5)]
        quiet_evolves [OF quiet_ops(6)] quiet_evolves [OF quiet_ops(7)] quiet_evolves [OF quiet_ops(8)]
        quiet_evolves [OF quiet_ops(9)] quiet_evolves [OF quiet_ops(10)] quiet_evolves [OF quiet_ops(11)]
      split: sum.split option.split actor_task.split stop_phase.split bool.split)

section \<open>The parts stay sound\<close>

definition parts_inv :: "('k, 'x) sess \<Rightarrow> bool" where
  "parts_inv s \<longleftrightarrow> mailbox_inv (ac_inbox (se_actor s)) \<and> mailbox_inv (ac_outbox (se_actor s)) \<and>
     source_inv (ac_cancellation (se_actor s))"

lemma parts_inv_evolves: "parts_inv s \<Longrightarrow> evolves (se_actor s) a \<Longrightarrow> parts_inv (s\<lparr>se_actor := a\<rparr>)"
  by (auto simp: parts_inv_def evolves_def mb.run_inv gate.run_inv)

lemma parts_inv_apply:
  assumes "parts_inv s"
  shows "parts_inv (sess_apply s p)"
  using parts_inv_evolves [OF assms sess_apply_evolves, of p] by (simp add: parts_inv_def)

text \<open>
  The session is itself a gate for generations: seen from outside, it revokes for good.
\<close>

interpretation sgate: generation_gate sess_apply parts_inv
  "\<lambda>s. accepts (ac_cancellation (se_actor s))" "\<lambda>s. src_generation (ac_cancellation (se_actor s))"
proof
  fix s :: "('k, 'x) sess" and p g
  assume inv: "parts_inv s"
  then have src: "source_inv (ac_cancellation (se_actor s))" by (simp add: parts_inv_def)
  obtain rs where rs: "ac_cancellation (se_actor (sess_apply s p)) = gate.run (ac_cancellation (se_actor s)) rs"
    using sess_apply_evolves [of s p] by (auto simp: evolves_def)
  show "parts_inv (sess_apply s p)" using inv by (rule parts_inv_apply)
  show "accepts (ac_cancellation (se_actor s)) g \<Longrightarrow> g = src_generation (ac_cancellation (se_actor s))"
    by (rule accepts_current)
  show "src_generation (ac_cancellation (se_actor s)) \<le> src_generation (ac_cancellation (se_actor (sess_apply s p)))"
    unfolding rs using src by (rule gate.current_run_mono)
  show "g \<le> src_generation (ac_cancellation (se_actor s)) \<Longrightarrow> \<not> accepts (ac_cancellation (se_actor s)) g \<Longrightarrow>
      \<not> accepts (ac_cancellation (se_actor (sess_apply s p))) g"
    unfolding rs using src by (rule gate.revoked_forever)
qed

section \<open>Stamped events\<close>

text \<open>The events that are waiting for room or have been shown to the observer.\<close>

definition live_events :: "('k, 'x) sess \<Rightarrow> EventEnvelope list" where
  "live_events s = map sm_event (se_submits s) @ map fst (se_pubs s) @ ac_observed (se_actor s)"

definition stamped_below :: "uuid \<Rightarrow> int \<Rightarrow> EventEnvelope \<Rightarrow> bool" where
  "stamped_below sid n e \<longleftrightarrow> envelope_ok e \<and> ev_session_id e = Some sid \<and>
     (\<exists>k. ev_sequence e = Some k \<and> 0 \<le> k \<and> k < n)"

definition unique_sequences :: "EventEnvelope multiset \<Rightarrow> bool" where
  "unique_sequences M \<longleftrightarrow> (\<forall>n. size (filter_mset (\<lambda>e. ev_sequence e = Some n) M) \<le> 1)"

definition stamped_inv :: "('k, 'x) sess \<Rightarrow> bool" where
  "stamped_inv s \<longleftrightarrow> 0 \<le> ac_sequence (se_actor s) \<and>
     (\<forall>e \<in> set (live_events s). stamped_below (ac_session_id (se_actor s)) (ac_sequence (se_actor s)) e) \<and>
     unique_sequences (mset (live_events s))"

lemma unique_sequences_mono: "unique_sequences M \<Longrightarrow> N \<subseteq># M \<Longrightarrow> unique_sequences N"
  unfolding unique_sequences_def
  by (meson multiset_filter_mono order_trans size_mset_mono)

lemma unique_sequences_add:
  assumes "unique_sequences M" "ev_sequence e = Some n" "\<And>x. x \<in># M \<Longrightarrow> ev_sequence x \<noteq> Some n"
  shows "unique_sequences (add_mset e M)"
proof -
  have "filter_mset (\<lambda>x. ev_sequence x = Some n) M = {#}"
    using assms(3) by (auto simp: filter_mset_eq_mempty_iff)
  then show ?thesis using assms(1,2) by (auto simp: unique_sequences_def)
qed

text \<open>
  What an operation does to the live events: it drops some, moves some, or adds one that
  carries the next sequence number.
\<close>

definition grows :: "('k, 'x) sess \<Rightarrow> ('k, 'x) sess \<Rightarrow> bool" where
  "grows s t \<longleftrightarrow>
     ac_session_id (se_actor t) = ac_session_id (se_actor s) \<and>
     (mset (live_events t) \<subseteq># mset (live_events s) \<and> ac_sequence (se_actor s) \<le> ac_sequence (se_actor t) \<or>
      (\<exists>e. mset (live_events t) \<subseteq># add_mset e (mset (live_events s)) \<and>
         ac_sequence (se_actor t) = ac_sequence (se_actor s) + 1 \<and> envelope_ok e \<and>
         ev_session_id e = Some (ac_session_id (se_actor s)) \<and>
         ev_sequence e = Some (ac_sequence (se_actor s))))"

lemma stamped_inv_grows:
  assumes inv: "stamped_inv s" and gr: "grows s t"
  shows "stamped_inv t"
proof -
  let ?n = "ac_sequence (se_actor s)" and ?sid = "ac_session_id (se_actor s)"
  have old: "stamped_below ?sid ?n x" if "x \<in># mset (live_events s)" for x
    using inv that by (simp add: stamped_inv_def)
  from gr consider
    (shrink) "mset (live_events t) \<subseteq># mset (live_events s)" "?n \<le> ac_sequence (se_actor t)"
  | (add) e where "mset (live_events t) \<subseteq># add_mset e (mset (live_events s))"
      "ac_sequence (se_actor t) = ?n + 1" "envelope_ok e" "ev_session_id e = Some ?sid" "ev_sequence e = Some ?n"
    by (auto simp: grows_def)
  then show ?thesis
  proof cases
    case shrink
    have "stamped_below ?sid (ac_sequence (se_actor t)) x" if "x \<in> set (live_events t)" for x
      using old [of x] mset_subset_eqD [OF shrink(1), of x] that shrink(2)
      by (fastforce simp: stamped_below_def)
    then show ?thesis
      using inv gr shrink unique_sequences_mono by (auto simp: stamped_inv_def grows_def)
  next
    case add
    have "stamped_below ?sid (?n + 1) x" if "x \<in> set (live_events t)" for x
      using old [of x] mset_subset_eqD [OF add(1), of x] that add inv
      by (fastforce simp: stamped_below_def stamped_inv_def)
    moreover have "unique_sequences (add_mset e (mset (live_events s)))"
    proof (rule unique_sequences_add [OF _ add(5)])
      show "ev_sequence x \<noteq> Some ?n" if "x \<in># mset (live_events s)" for x
        using old [OF that] by (auto simp: stamped_below_def)
    qed (use inv in \<open>simp add: stamped_inv_def\<close>)
    ultimately show ?thesis
      using inv gr add unique_sequences_mono by (auto simp: stamped_inv_def grows_def)
  qed
qed

lemma stamp_cases:
  assumes "envelope_ok e" "0 \<le> ac_sequence a"
  obtains err where "stamp a e = (Inl err, a)"
  | e' where "stamp a e = (Inr e', a\<lparr>ac_sequence := ac_sequence a + 1\<rparr>)" "envelope_ok e'"
      "ev_session_id e' = Some (ac_session_id a)" "ev_sequence e' = Some (ac_sequence a)"
proof (cases "ev_session_id e \<noteq> None \<and> ev_session_id e \<noteq> Some (ac_session_id a)")
  case True
  then show thesis using that(1) for_session_ok [OF assms(1), of "ac_session_id a"] by (simp add: stamp_def)
next
  case False
  let ?s = "e\<lparr>ev_session_id := Some (ac_session_id a)\<rparr>"
  have "for_session e (ac_session_id a) = Inr ?s" "envelope_ok ?s"
    using False for_session_ok [OF assms(1), of "ac_session_id a"] by auto
  then show thesis
    using with_sequence_ok [of ?s "ac_sequence a"] assms(2)
    by (intro that(2) [of "?s\<lparr>ev_sequence := Some (ac_sequence a)\<rparr>"]) (simp_all add: stamp_def Let_def)
qed

lemma observe_simps [simp]:
  "ac_sequence (observe_event a e) = ac_sequence a" "ac_session_id (observe_event a e) = ac_session_id a"
  "mset (ac_observed (observe_event a e)) =
     (if ac_observer a = None then mset (ac_observed a) else add_mset e (mset (ac_observed a)))"
  by (auto simp: observe_event_def split: option.split)

lemma grows_actor:
  assumes "ac_session_id b = ac_session_id (se_actor s)" "ac_sequence b = ac_sequence (se_actor s)"
    "ac_observed b = ac_observed (se_actor s)"
  shows "grows s (with_actor s b)"
  using assms by (auto simp: grows_def live_events_def with_actor_def)

lemma submit_with_token_grows:
  assumes "envelope_ok e" "0 \<le> ac_sequence a" "ac_sequence a = ac_sequence (se_actor s)"
    "ac_session_id a = ac_session_id (se_actor s)" "ac_observed a = ac_observed (se_actor s)"
  shows "grows s (with_actor s (snd (submit_with_token a e t)))"
  using assms(1,2)
proof (cases rule: stamp_cases)
  case (1 err)
  then show ?thesis using assms by (simp add: submit_with_token_def grows_actor)
next
  case (2 e')
  let ?b = "snd (submit_with_token a e t)"
  have b: "ac_sequence ?b = ac_sequence a + 1" "ac_session_id ?b = ac_session_id a"
    "mset (ac_observed ?b) \<subseteq># add_mset e' (mset (ac_observed a))"
    by (auto simp: submit_with_token_def 2 Let_def case_prod_beta split: sum.split option.split)
  then show ?thesis
    using 2 assms by (auto simp: grows_def live_events_def with_actor_def subset_mset.add_mono)
qed

lemma admit_submit_grows:
  assumes "envelope_ok e" "0 \<le> ac_sequence a" "ac_sequence a = ac_sequence (se_actor s)"
    "ac_session_id a = ac_session_id (se_actor s)" "ac_observed a = ac_observed (se_actor s)"
  shows "grows s (admit_submit s (case stamp a e of
      (Inl err, b) \<Rightarrow> (Inl err, b) | (Inr st, b) \<Rightarrow> (Inr \<lparr>sm_event = st, sm_token = t\<rparr>, b)))"
  using assms(1,2)
  by (cases rule: stamp_cases)
    (use assms in \<open>auto simp: admit_submit_def grows_def live_events_def with_actor_def\<close>)

lemma admit_submit_error:
  "grows s (with_actor s b) \<Longrightarrow> grows s (admit_submit s (Inl err, b))"
  by (simp add: admit_submit_def)

lemma lifecycle_silent:
  "ac_observed (snd (actor_start a)) = ac_observed a" "ac_sequence (snd (actor_start a)) = ac_sequence a"
  "ac_observed (snd (actor_spawn a c)) = ac_observed a" "ac_sequence (snd (actor_spawn a c)) = ac_sequence a"
  "ac_observed (child_done a c r) = ac_observed a" "ac_sequence (child_done a c r) = ac_sequence a"
  "ac_observed (run_schedule a) = ac_observed a" "ac_sequence (run_schedule a) = ac_sequence a"
  "ac_observed (run_get a now) = ac_observed a" "ac_sequence (run_get a now) = ac_sequence a"
  "ac_observed (run_handler_returned a) = ac_observed a" "ac_sequence (run_handler_returned a) = ac_sequence a"
  "ac_observed (run_handler_raised a x now) = ac_observed a"
  "ac_sequence (run_handler_raised a x now) = ac_sequence a"
  "ac_observed (run_cancelled a now) = ac_observed a" "ac_sequence (run_cancelled a now) = ac_sequence a"
  "ac_observed (run_closed a t) = ac_observed a" "ac_sequence (run_closed a t) = ac_sequence a"
  "ac_observed (run_closing_cancelled a) = ac_observed a" "ac_sequence (run_closing_cancelled a) = ac_sequence a"
  "ac_observed (snd (stop_begin a gr timeout now)) = ac_observed a"
  "ac_sequence (snd (stop_begin a gr timeout now)) = ac_sequence a"
  "ac_observed (snd (finalize_begin a)) = ac_observed a" "ac_sequence (snd (finalize_begin a)) = ac_sequence a"
  "ac_observed (finalize_end a) = ac_observed a" "ac_sequence (finalize_end a) = ac_sequence a"
  "ac_observed (snd (stop_task_ended a gr)) = ac_observed a"
  "ac_sequence (snd (stop_task_ended a gr)) = ac_sequence a"
  "ac_observed (stop_timeout a) = ac_observed a" "ac_sequence (stop_timeout a) = ac_sequence a"
  "ac_observed (snd (receive_output a)) = ac_observed a" "ac_sequence (snd (receive_output a)) = ac_sequence a"
  "ac_observed (snd (transition_interaction a q rs)) = ac_observed a"
  "ac_sequence (snd (transition_interaction a q rs)) = ac_sequence a"
  "ac_observed (snd (transition_interaction_if_current a q g rs)) = ac_observed a"
  "ac_sequence (snd (transition_interaction_if_current a q g rs)) = ac_sequence a"
  by (simp_all add: actor_start_def actor_spawn_def child_done_def cancel_actor_task_def run_schedule_def run_get_def
      run_handler_returned_def run_handler_raised_def run_cancelled_def run_finally_def close_with_def run_closed_def
      run_closing_cancelled_def stop_begin_def finalize_begin_def finalize_end_def stop_task_ended_def stop_timeout_def
      receive_output_def transition_interaction_def transition_interaction_if_current_def Let_def case_prod_beta
      split: child_outcome.split sum.split option.split)

lemma apply_session_id: "ac_session_id (se_actor (sess_apply s p)) = ac_session_id (se_actor s)"
  using sess_apply_evolves [of s p] by (simp add: evolves_def)

lemma grows_quietly:
  assumes "se_submits t = se_submits s" "se_pubs t = se_pubs s"
    "ac_session_id (se_actor t) = ac_session_id (se_actor s)"
    "ac_observed (se_actor t) = ac_observed (se_actor s)" "ac_sequence (se_actor t) = ac_sequence (se_actor s)"
  shows "grows s t"
  using assms by (simp add: grows_def live_events_def)

text \<open>A waiting event that leaves its list may at most move to the observer's.\<close>

lemma grows_moves:
  assumes "mset (map sm_event (se_submits t)) + mset (map fst (se_pubs t)) + {#e#} =
      mset (map sm_event (se_submits s)) + mset (map fst (se_pubs s))"
    "ac_session_id (se_actor t) = ac_session_id (se_actor s)" "ac_sequence (se_actor t) = ac_sequence (se_actor s)"
    "mset (ac_observed (se_actor t)) \<subseteq># add_mset e (mset (ac_observed (se_actor s)))"
  shows "grows s t"
proof -
  have "mset (live_events t) \<subseteq># mset (map sm_event (se_submits t)) + mset (map fst (se_pubs t)) +
      add_mset e (mset (ac_observed (se_actor s)))"
    using assms(4) by (simp add: live_events_def ac_simps)
  also have "\<dots> = (mset (map sm_event (se_submits t)) + mset (map fst (se_pubs t)) + {#e#}) +
      mset (ac_observed (se_actor s))" by simp
  also have "\<dots> = mset (live_events s)" unfolding assms(1) by (simp add: live_events_def)
  finally show ?thesis using assms(2,3) by (simp add: grows_def)
qed

lemma map_pop_add:
  "i < length xs \<Longrightarrow> mset (map f (pop_at i xs)) + {#f (xs ! i)#} = mset (map f xs)"
  using mset_pop_at [of i xs] by simp

lemma submit_attempt_moves:
  "ac_sequence (snd (submit_stamped_attempt a m)) = ac_sequence a"
  "mset (ac_observed (snd (submit_stamped_attempt a m))) \<subseteq># add_mset (sm_event m) (mset (ac_observed a))"
  "fst (submit_stamped_attempt a m) = Inr None \<Longrightarrow> ac_observed (snd (submit_stamped_attempt a m)) = ac_observed a"
  by (auto simp: submit_stamped_attempt_def Let_def case_prod_beta split: sum.split option.split)

lemma publish_attempt_moves:
  "ac_sequence (snd (publish_attempt a e g)) = ac_sequence a"
  "mset (ac_observed (snd (publish_attempt a e g))) \<subseteq># add_mset e (mset (ac_observed a))"
  "fst (publish_attempt a e g) = Inr None \<Longrightarrow> ac_observed (snd (publish_attempt a e g)) = ac_observed a"
  by (auto simp: publish_attempt_def Let_def case_prod_beta split: sum.split option.split mailbox_error.split)

lemma grows_refl [simp]: "grows s s"
  by (simp add: grows_quietly)

lemma sess_apply_grows:
  assumes "0 \<le> ac_sequence (se_actor s)"
  shows "grows s (sess_apply s p)"
proof (cases p)
  case (Do_submit e)
  have "grows s (with_actor s (snd (submit (se_actor s) e)))" if "envelope_ok e"
    using submit_with_token_grows [OF that assms, of s]
    by (simp add: submit_def grows_actor split: sum.split)
  then show ?thesis using Do_submit by simp
next
  case (Do_foreground e r now)
  have "grows s (with_actor s (snd (submit_foreground_turn (se_actor s) e r now)))" if "envelope_ok e"
    using submit_with_token_grows [OF that, of "(se_actor s)\<lparr>ac_cancellation := c\<rparr>" s for c] assms
    by (simp add: submit_foreground_turn_def grows_actor case_prod_beta split: sum.split)
  then show ?thesis using Do_foreground by simp
next
  case (Do_submit_wait e)
  have "grows s (admit_submit s (submit_wait_begin (se_actor s) e))" if "envelope_ok e"
    using admit_submit_grows [OF that assms, of s]
    by (simp add: submit_wait_begin_def admit_submit_error grows_actor split: sum.split)
  then show ?thesis using Do_submit_wait by simp
next
  case (Do_foreground_wait e r now)
  have "grows s (admit_submit s (submit_foreground_wait_begin (se_actor s) e r now))" if "envelope_ok e"
    using admit_submit_grows [OF that, of "(se_actor s)\<lparr>ac_cancellation := c\<rparr>" s for c] assms
    by (simp add: submit_foreground_wait_begin_def admit_submit_error grows_actor split: sum.split prod.split)
  then show ?thesis using Do_foreground_wait by simp
next
  case (Do_submit_attempt i)
  let ?m = "se_submits s ! i"
  show ?thesis
  proof (cases "i < length (se_submits s) \<and> fst (submit_stamped_attempt (se_actor s) ?m) \<noteq> Inr None")
    case True
    then have "sess_apply s p = (with_actor s (snd (submit_stamped_attempt (se_actor s) ?m)))
        \<lparr>se_submits := pop_at i (se_submits s)\<rparr>"
      using Do_submit_attempt by (auto simp: case_prod_beta split: sum.split option.split)
    then show ?thesis
      using True submit_attempt_moves map_pop_add [of i "se_submits s" sm_event] apply_session_id [of s p]
      by (intro grows_moves [where e = "sm_event ?m"]) (simp_all add: with_actor_def)
  next
    case False
    then show ?thesis
      using Do_submit_attempt submit_attempt_moves [of "se_actor s" ?m] apply_session_id [of s p]
      by (cases "i < length (se_submits s)")
        (auto simp: case_prod_beta with_actor_def intro!: grows_quietly)
  qed
next
  case (Do_publish_attempt i)
  let ?e = "fst (se_pubs s ! i)" and ?g = "fst (snd (se_pubs s ! i))"
  show ?thesis
  proof (cases "i < length (se_pubs s) \<and> fst (publish_attempt (se_actor s) ?e ?g) \<noteq> Inr None")
    case True
    then have "sess_apply s p = (with_actor s (snd (publish_attempt (se_actor s) ?e ?g)))
        \<lparr>se_pubs := pop_at i (se_pubs s)\<rparr>"
      using Do_publish_attempt by (auto simp: case_prod_beta split: sum.split option.split)
    then show ?thesis
      using True publish_attempt_moves map_pop_add [of i "se_pubs s" fst] apply_session_id [of s p]
      by (intro grows_moves [where e = ?e]) (simp_all add: with_actor_def)
  next
    case False
    then show ?thesis
      using Do_publish_attempt publish_attempt_moves [of "se_actor s" ?e ?g] apply_session_id [of s p]
      by (cases "i < length (se_pubs s)")
        (auto simp: case_prod_beta with_actor_def intro!: grows_quietly)
  qed
next
  case (Do_submit_cancelled i)
  then show ?thesis
    using map_pop_add [of i "se_submits s" sm_event]
    by (auto simp: with_actor_def submit_stamped_cancelled_def intro!: grows_moves [where e = "sm_event (se_submits s ! i)"])
next
  case (Do_publish_cancelled i)
  then show ?thesis
    using map_pop_add [of i "se_pubs s" fst]
    by (auto simp: with_actor_def publish_cancelled_def intro!: grows_moves [where e = "fst (se_pubs s ! i)"])
next
  case (Do_publish e g)
  have "grows s (sess_apply s p)" if ok: "envelope_ok e"
    using ok assms
  proof (cases rule: stamp_cases)
    case (1 err)
    then show ?thesis
      using Do_publish ok by (auto simp: publish_begin_def grows_actor split: sum.split)
  next
    case (2 e')
    then show ?thesis
      using Do_publish ok by (auto simp: publish_begin_def grows_actor split: sum.split)
        (auto simp: grows_def live_events_def with_actor_def)
  qed
  then show ?thesis using Do_publish by auto
qed (use apply_session_id [of s p] in \<open>auto simp: with_actor_def stop_continues_def case_prod_beta lifecycle_silent
      intro!: grows_quietly split: sum.split option.split actor_task.split stop_phase.split bool.split\<close>)

lemma stamped_inv_apply: "stamped_inv s \<Longrightarrow> stamped_inv (sess_apply s p)"
  using stamped_inv_grows sess_apply_grows by (auto simp: stamped_inv_def)

interpretation stamped: op_system sess_apply stamped_inv
  by unfold_locales (rule stamped_inv_apply)

section \<open>Stale results\<close>

definition sess_run :: "('k, 'x) sess \<Rightarrow> 'x sess_op list \<Rightarrow> ('k, 'x) sess" where
  "sess_run s ps = foldl sess_apply s ps"

lemma sess_run_eq: "sess_run = sgate.run" "sess_run = stamped.run"
  by (simp_all add: fun_eq_iff sess_run_def sgate.run_def stamped.run_def)

lemma actor_init_facts:
  assumes "actor_init sid ic oc ov ck co ob = Inr a"
  shows "mailbox_inv (ac_inbox a)" "mailbox_inv (ac_outbox a)" "source_inv (ac_cancellation a)"
    "ac_sequence a = 0" "ac_observed a = []" "ac_lifecycle a = Life_NEW" "ac_task a = Task_none"
    "\<not> ac_stopped a" "ac_session_id a = sid" "ac_children a = []" "\<not> src_closed (ac_cancellation a)"
    "\<not> ac_cancel_requested a"
  using assms mailbox_init_inv source_init_inv
  by (auto simp: actor_init_def source_init_def make_generation_def source_inv_def current_state_def
      split: if_splits sum.splits)

lemma sess_init_inv:
  assumes "actor_init sid ic oc ov ck co ob = Inr a"
  shows "parts_inv (sess_init a)" "stamped_inv (sess_init a)"
  using actor_init_facts [OF assms]
  by (auto simp: parts_inv_def sess_init_def stamped_inv_def live_events_def unique_sequences_def)

lemma try_put_refused:
  "acc = Some False \<Longrightarrow> mb_items (snd (try_put_locked m x p rej acc allow)) = mb_items m"
  "acc = Some False \<Longrightarrow> fst (try_put_locked m x p rej acc allow) =
     (if mb_closed m then Inl MailboxClosed
      else Inr (Some \<lparr>pr_outcome = CANCELLED, pr_item = x, pr_displaced = None\<rparr>))"
  by (auto simp: try_put_locked_def)

lemma put_wait_refused:
  "mb_items (snd (mb_put_wait m x (Some False) allow [])) = mb_items m"
  "fst (mb_put_wait m x (Some False) allow []) =
     (case mb_priority_of m x of
        None \<Rightarrow> Some (Inl MailboxTypeError)
      | Some p \<Rightarrow> Some (if mb_closed m then Inl MailboxClosed
          else Inr \<lparr>pr_outcome = CANCELLED, pr_item = x, pr_displaced = None\<rparr>))"
  by (auto simp: mb_put_wait_def put_wait_loop.simps try_put_locked_def split: option.split)

lemma cancelled_not_accepted [simp]:
  "\<not> pr_accepted \<lparr>pr_outcome = CANCELLED, pr_item = x, pr_displaced = d\<rparr>"
  by (simp add: pr_accepted_def outcome_accepted_def)

lemma publish_attempt_stale:
  assumes "\<not> accepts (ac_cancellation a) g"
  shows "fst (publish_attempt a e g) \<noteq> Inr (Some True)" "fst (publish_attempt a e g) \<noteq> Inr None"
    "mb_items (ac_outbox (snd (publish_attempt a e g))) = mb_items (ac_outbox a)"
    "ac_observed (snd (publish_attempt a e g)) = ac_observed a"
  using assms put_wait_refused [of "ac_outbox a" e True]
  by (auto simp: publish_attempt_def Let_def case_prod_beta
      split: sum.splits option.splits mailbox_error.splits if_splits)

lemma submit_attempt_stale:
  assumes "\<not> accepts (ac_cancellation a) (tk_generation (sm_token m))"
  shows "mb_items (ac_inbox (snd (submit_stamped_attempt a m))) = mb_items (ac_inbox a)"
    "ac_observed (snd (submit_stamped_attempt a m)) = ac_observed a"
  using assms put_wait_refused [of "ac_inbox a" m False]
  by (auto simp: submit_stamped_attempt_def Let_def case_prod_beta
      split: sum.splits option.splits if_splits)

lemma publish_begin_stale:
  assumes "\<not> accepts (ac_cancellation a) g"
  shows "publish_begin a e g = (Inr None, a\<lparr>ac_stale_results := Suc (ac_stale_results a)\<rparr>)"
  using assms by (auto simp: publish_begin_def ensure_current_def accepts_def Let_def)

section \<open>Properties\<close>

text \<open>
  C3: late results are never published. Once a generation of a session is revoked, whatever
  the session, its users and its children do afterwards, in any order, a result of that
  generation that arrives is counted as stale, and one that was already waiting for room in
  the outbox is turned away at its next attempt: the outbox and what the observer saw stay as
  they are. A submission waiting under that generation is not admitted either.
\<close>

theorem late_results_never_published:
  assumes "actor_init sid ic oc ov ck co ob = Inr a" and "s = sess_run (sess_init a) ps"
    and "g \<le> src_generation (ac_cancellation (se_actor s))"
    and "\<not> accepts (ac_cancellation (se_actor s)) g"
    and "b = se_actor (sess_run s qs)"
  shows "publish_begin b e g = (Inr None, b\<lparr>ac_stale_results := Suc (ac_stale_results b)\<rparr>) \<and>
    fst (publish_attempt b e g) \<notin> {Inr (Some True), Inr None} \<and>
    mb_items (ac_outbox (snd (publish_attempt b e g))) = mb_items (ac_outbox b) \<and>
    ac_observed (snd (publish_attempt b e g)) = ac_observed b \<and>
    (tk_generation (sm_token m) = g \<longrightarrow>
       mb_items (ac_inbox (snd (submit_stamped_attempt b m))) = mb_items (ac_inbox b) \<and>
       ac_observed (snd (submit_stamped_attempt b m)) = ac_observed b)"
proof -
  have "parts_inv s"
    unfolding assms(2) sess_run_eq(1) by (intro sgate.run_inv sess_init_inv(1) [OF assms(1)])
  from sgate.revoked_forever [OF this assms(3,4), of qs]
  have "\<not> accepts (ac_cancellation b) g" by (simp add: assms(5) sess_run_eq(1))
  then show ?thesis
    using publish_begin_stale publish_attempt_stale [of b g e] submit_attempt_stale [of b m] by auto
qed

text \<open>
  C5: a foreground turn supersedes. On a running session whose cancellation source is
  open, submitting a foreground turn with a non-blank reason makes the next generation the
  only accepted one, even when the inbox rejects the command or the event belongs to another
  session, and no operation ever makes an earlier generation acceptable again.
\<close>

theorem foreground_turn_supersedes:
  assumes "actor_init sid ic oc ov ck co ob = Inr a" and "s = sess_run (sess_init a) ps"
    and "ac_lifecycle (se_actor s) = Life_RUNNING" and "\<not> src_closed (ac_cancellation (se_actor s))"
    and "\<not> blank r" and "envelope_ok e"
    and "t = sess_apply s (Do_foreground e r now)"
  shows "src_generation (ac_cancellation (se_actor t)) = src_generation (ac_cancellation (se_actor s)) + 1 \<and>
    accepts (ac_cancellation (se_actor t)) (src_generation (ac_cancellation (se_actor t))) \<and>
    (\<forall>g \<le> src_generation (ac_cancellation (se_actor s)).
       \<not> accepts (ac_cancellation (se_actor (sess_run t qs))) g)"
proof -
  let ?c = "ac_cancellation (se_actor s)"
  have inv: "parts_inv s"
    unfolding assms(2) sess_run_eq(1) by (intro sgate.run_inv sess_init_inv(1) [OF assms(1)])
  then have src: "source_inv ?c" by (simp add: parts_inv_def)
  have keep: "ac_cancellation (snd (submit_with_token b e tok)) = ac_cancellation b" for b :: "('a, 'b) actor" and tok
    by (auto simp: submit_with_token_def stamp_def observe_event_def Let_def case_prod_beta
        split: sum.split option.split)
  have adv: "ac_cancellation (se_actor t) = snd (advance ?c r now)"
    using assms(3,6,7) by (auto simp: submit_foreground_turn_def ensure_running_def with_actor_def keep
        case_prod_beta split: sum.split)
  have gen: "src_generation (snd (advance ?c r now)) = src_generation ?c + 1"
    "accepts (snd (advance ?c r now)) (src_generation ?c + 1)"
    using advance_eq [OF src, of r now] assms(4,5) src
    by (auto simp: Let_def accepts_def current_state_def source_inv_def nth_append new_state_def)
  have tinv: "parts_inv t" unfolding assms(7) by (rule parts_inv_apply [OF inv])
  have "\<not> accepts (ac_cancellation (se_actor (sess_run t qs))) g" if "g \<le> src_generation ?c" for g
    unfolding sess_run_eq(1) by (rule sgate.superseded_forever [OF tinv]) (simp add: adv gen that)
  then show ?thesis using adv gen by simp
qed

text \<open>
  C16: every event a session shows to its observer, and every event still waiting for
  admission, is a valid envelope bound to this session with a sequence number below the
  session's counter, and no two of them carry the same number.
\<close>

theorem session_sequences_unique:
  assumes "actor_init sid ic oc ov ck co ob = Inr a" and "s = sess_run (sess_init a) ps"
  shows "(\<forall>e \<in> set (live_events s). stamped_below sid (ac_sequence (se_actor s)) e) \<and>
    distinct (map ev_sequence (live_events s))"
proof -
  have inv: "stamped_inv s"
    unfolding assms(2) sess_run_eq(2) by (intro stamped.run_inv sess_init_inv(2) [OF assms(1)])
  have sid: "ac_session_id (se_actor s) = sid"
    unfolding assms(2) sess_run_eq(2)
    by (rule stamped.run_stable [where P = "\<lambda>s. ac_session_id (se_actor s) = sid"])
      (use sess_init_inv(2) [OF assms(1)] actor_init_facts(9) [OF assms(1)] in
        \<open>simp_all add: apply_session_id sess_init_def\<close>)
  have "distinct (map ev_sequence es)"
    if "\<forall>e \<in> set es. stamped_below sid' n e" "unique_sequences (mset es)" for es sid' n
    using that
  proof (induction es)
    case (Cons e es)
    from Cons.prems(1) obtain k where k: "ev_sequence e = Some k" by (auto simp: stamped_below_def)
    have "size (filter_mset (\<lambda>x. ev_sequence x = Some k) (mset (e # es))) \<le> 1"
      using Cons.prems(2) by (simp only: unique_sequences_def)
    then have "\<forall>x. x \<in># mset es \<longrightarrow> ev_sequence x \<noteq> Some k" using k by simp
    moreover have "unique_sequences (mset es)"
      by (rule unique_sequences_mono [OF Cons.prems(2)]) simp
    ultimately show ?case using Cons k by auto
  qed simp
  then show ?thesis using inv sid by (auto simp: stamped_inv_def)
qed

text \<open>Witnesses: a session with one-place mailboxes and one event.\<close>

definition demo_session :: "(unit, nat) actor" where
  "demo_session = (case actor_init 5 1 1 REJECT None None (Some (\<lambda>_. False)) of Inr a \<Rightarrow> a | Inl _ \<Rightarrow> undefined)"

lemma demo_session_init: "actor_init 5 1 1 REJECT None None (Some (\<lambda>_. False)) = Inr demo_session"
  by (simp add: demo_session_def actor_init_def mailbox_init_def source_init_def make_generation_def)

definition demo_event :: EventEnvelope where
  "demo_event = \<lparr>ev_type = lit ''turn.start'', ev_payload = [], ev_event_id = 1, ev_schema_version = 1,
     ev_occurred_at = \<lparr>dt_micros = 0, dt_utcoffset = Some 0\<rparr>, ev_monotonic_at_ms = 0, ev_session_id = None,
     ev_actor_id = None, ev_correlation_id = 1, ev_causation_id = None, ev_sequence = None, ev_priority = 50,
     ev_trust = Trust_OWNER, ev_visibility = Vis_SESSION, ev_retention = Ret_TRANSCRIPT\<rparr>"

lemma demo_event_ok: "envelope_ok demo_event"
  by (simp add: envelope_ok_def check_envelope_def demo_event_def event_type_ok_def is_lower_def
      is_lower_digit_def is_separator_def)

lemma demo_started:
  "ac_lifecycle (se_actor (sess_run (sess_init demo_session) [Do_start])) = Life_RUNNING"
  "ac_cancellation (se_actor (sess_run (sess_init demo_session) [Do_start])) =
     \<lparr>src_generation = 0, src_state = 0, src_closed = False, src_store = [new_state]\<rparr>"
  by (simp_all add: sess_run_def sess_init_def with_actor_def actor_start_def demo_session_def actor_init_def
      mailbox_init_def source_init_def make_generation_def)

lemma reason_not_blank: "\<not> blank (lit ''new'')"
  by (simp add: blank_iff isspace_def)

theorem foreground_turn_supersedes_witness:
  "let s = sess_run (sess_init demo_session) [Do_start];
       t = sess_apply s (Do_foreground demo_event (lit ''new'') 9)
   in src_generation (ac_cancellation (se_actor t)) = 1 \<and>
      \<not> accepts (ac_cancellation (se_actor (sess_run t [Do_stop True 1 0]))) 0"
  using foreground_turn_supersedes [OF demo_session_init refl demo_started(1) _ reason_not_blank demo_event_ok refl,
      of 9 "[Do_stop True 1 0]"] demo_started(2)
  by (simp add: Let_def del: lit_simps)

text \<open>After a foreground turn the first generation is revoked.\<close>

lemma demo_superseded:
  "0 \<le> src_generation (ac_cancellation (se_actor (sess_run (sess_init demo_session)
      [Do_start, Do_foreground demo_event (lit ''new'') 9])))"
  "\<not> accepts (ac_cancellation (se_actor (sess_run (sess_init demo_session)
      [Do_start, Do_foreground demo_event (lit ''new'') 9]))) 0"
proof -
  let ?s = "sess_run (sess_init demo_session) [Do_start]"
  let ?c = "ac_cancellation (se_actor ?s)"
  let ?t = "sess_run (sess_init demo_session) [Do_start, Do_foreground demo_event (lit ''new'') 9]"
  have keep: "ac_cancellation (snd (submit_with_token b e tok)) = ac_cancellation b" for b :: "('a, 'b) actor" and e tok
    by (auto simp: submit_with_token_def stamp_def observe_event_def Let_def case_prod_beta
        split: sum.split option.split)
  have t: "?t = sess_apply ?s (Do_foreground demo_event (lit ''new'') 9)" by (simp add: sess_run_def)
  have adv: "ac_cancellation (se_actor ?t) = snd (advance ?c (lit ''new'') 9)"
    unfolding t using demo_started(1) demo_event_ok
    by (auto simp: with_actor_def submit_foreground_turn_def ensure_running_def case_prod_beta keep simp del: lit_simps
        split: sum.split)
  have "source_inv ?c" "\<not> src_closed ?c" "src_generation ?c = 0"
    by (simp_all add: demo_started(2) source_inv_def new_state_def)
  then obtain tk s' where "advance ?c (lit ''new'') 9 = (Inr tk, s')" "\<forall>g. accepts s' g \<longleftrightarrow> g = 1"
    using advance_revokes_then_grants [OF _ _ reason_not_blank, of ?c 9] by auto
  then have "\<forall>g. accepts (ac_cancellation (se_actor ?t)) g \<longleftrightarrow> g = 1" unfolding adv by (simp del: lit_simps)
  then show "0 \<le> src_generation (ac_cancellation (se_actor ?t))" "\<not> accepts (ac_cancellation (se_actor ?t)) 0"
    by (auto simp: accepts_def)
qed

theorem late_results_never_published_witness:
  "\<exists>b. b = se_actor (sess_run (sess_run (sess_init demo_session)
       [Do_start, Do_foreground demo_event (lit ''new'') 9]) [Do_receive]) \<and>
     fst (publish_attempt b demo_event 0) \<noteq> Inr (Some True) \<and>
     mb_items (ac_outbox (snd (publish_attempt b demo_event 0))) = mb_items (ac_outbox b)"
  using late_results_never_published [where g = 0 and ps = "[Do_start, Do_foreground demo_event (lit ''new'') 9]"
      and e = demo_event and qs = "[Do_receive]", OF demo_session_init refl demo_superseded refl]
  by simp

theorem session_sequences_unique_witness:
  "distinct (map ev_sequence (live_events (sess_run (sess_init demo_session)
     [Do_start, Do_submit demo_event, Do_publish demo_event 0, Do_publish_attempt 0])))"
  using session_sequences_unique [OF demo_session_init refl,
      of "[Do_start, Do_submit demo_event, Do_publish demo_event 0, Do_publish_attempt 0]"] by blast

end
