(* ===== verification/SessionLife.thy ===== *)
theory SessionLife
  imports SessionInv
begin

text \<open>
  The life of a session actor: what has been closed in which state, that the terminal states
  are final and shut every entrance, and what a failing child can do to the shutdown.
\<close>

section \<open>Closed stays closed\<close>

lemma mb_apply_closed: "mb_closed m \<Longrightarrow> mb_closed (mb_apply m p)"
  by (cases p) (auto simp: mb_put_def mb_put_wait_def put_wait_loop.simps try_put_locked_def mb_get_def mb_close_def
      Let_def split: option.split)

lemma mb_apply_empty: "mb_closed m \<Longrightarrow> mb_items m = [] \<Longrightarrow> mb_items (mb_apply m p) = []"
  by (cases p) (auto simp: mb_put_def mb_put_wait_def put_wait_loop.simps try_put_locked_def mb_get_def mb_close_def
      Let_def split: option.split)

lemma cancel_apply_closed: "src_closed c \<Longrightarrow> src_closed (cancel_apply c p)"
  by (cases p) (auto simp: advance_def cancel_current_def source_close_def case_prod_beta)

lemma mb_run_closed: "mb_closed m \<Longrightarrow> mb_closed (mb.run m ps)"
  by (induction ps arbitrary: m) (simp_all add: mb_apply_closed)

lemma mb_run_empty: "mb_closed m \<Longrightarrow> mb_items m = [] \<Longrightarrow> mb_items (mb.run m ps) = []"
  by (induction ps arbitrary: m) (simp_all add: mb_apply_closed mb_apply_empty)

lemma gate_run_closed: "src_closed c \<Longrightarrow> src_closed (gate.run c ps)"
  by (induction ps arbitrary: c) (simp_all add: cancel_apply_closed)

definition drained :: "('a, 'k) mailbox \<Rightarrow> bool" where
  "drained m \<longleftrightarrow> mb_closed m \<and> mb_items m = []"

lemma evolves_closed:
  assumes "evolves a b"
  shows "mb_closed (ac_outbox a) \<Longrightarrow> mb_closed (ac_outbox b)" "drained (ac_inbox a) \<Longrightarrow> drained (ac_inbox b)"
    "src_closed (ac_cancellation a) \<Longrightarrow> src_closed (ac_cancellation b)"
  using assms by (auto simp: evolves_def drained_def mb_run_closed mb_run_empty gate_run_closed)

lemma mb_close_drains [simp]: "drained (snd (mb_close m True))" "mb_closed (snd (mb_close m d))"
  by (auto simp: drained_def mb_close_def Let_def)

lemma drained_close [simp]: "drained m \<Longrightarrow> drained (snd (mb_close m d))"
  by (auto simp: drained_def mb_close_def Let_def)

section \<open>Invariant\<close>

definition ended_life :: "SessionLifecycle \<Rightarrow> bool" where
  "ended_life l \<longleftrightarrow> l = Life_STOPPED \<or> l = Life_FAILED"

text \<open>
  The rules that tie the lifecycle to the task, to the pending calls of \<open>stop\<close> and to what is
  closed: the outbox, the inbox (closed and empty), the cancellation source.
\<close>

fun life_ok :: "SessionLifecycle \<Rightarrow> bool \<Rightarrow> actor_task \<Rightarrow> stop_phase list \<Rightarrow> bool \<Rightarrow> bool \<Rightarrow> bool \<Rightarrow> bool" where
  "life_ok Life_NEW stopped t st outbox inbox source \<longleftrightarrow> \<not> stopped \<and> t = Task_none \<and> st = []"
| "life_ok Life_STARTING stopped t st outbox inbox source \<longleftrightarrow> False"
| "life_ok Life_RUNNING stopped t st outbox inbox source \<longleftrightarrow>
     \<not> stopped \<and> st = [] \<and> t \<noteq> Task_none \<and> t \<noteq> Task_returned \<and>
     (case t of Task_closing l _ \<Rightarrow> ended_life l \<and> inbox \<and> source | _ \<Rightarrow> True)"
| "life_ok Life_STOPPING stopped t st outbox inbox source \<longleftrightarrow>
     \<not> stopped \<and> source \<and> t \<noteq> Task_none \<and> t \<noteq> Task_returned \<and>
     (case t of Task_closing l _ \<Rightarrow> ended_life l \<and> inbox | _ \<Rightarrow> True) \<and>
     (\<forall>aw. Stop_finalizing aw \<in> set st \<longrightarrow> inbox \<and> t = Task_cancelled)"
| "life_ok Life_STOPPED stopped t st outbox inbox source \<longleftrightarrow>
     stopped \<and> outbox \<and> inbox \<and> source \<and> (t = Task_none \<or> t = Task_returned \<or> t = Task_cancelled) \<and>
     (\<forall>aw. Stop_finalizing aw \<in> set st \<longrightarrow> t = Task_cancelled)"
| "life_ok Life_FAILED stopped t st outbox inbox source \<longleftrightarrow>
     stopped \<and> outbox \<and> inbox \<and> source \<and> t = Task_returned \<and>
     (\<forall>aw. Stop_finalizing aw \<notin> set st)"

definition life_inv :: "('k, 'x) actor \<Rightarrow> stop_phase list \<Rightarrow> bool" where
  "life_inv a st \<longleftrightarrow> life_ok (ac_lifecycle a) (ac_stopped a) (ac_task a) st
     (mb_closed (ac_outbox a)) (drained (ac_inbox a)) (src_closed (ac_cancellation a))"

lemma life_ok_mono:
  "life_ok l sp t st ob ib sc \<Longrightarrow> (ob \<Longrightarrow> ob') \<Longrightarrow> (ib \<Longrightarrow> ib') \<Longrightarrow> (sc \<Longrightarrow> sc') \<Longrightarrow>
   life_ok l sp t st ob' ib' sc'"
  by (cases l; cases t) auto

lemma life_inv_quiet:
  assumes "life_inv a st" "quiet a b"
  shows "life_inv b st"
proof -
  have ev: "evolves a b" using assms(2) by (simp add: quiet_def)
  have eq: "ac_lifecycle b = ac_lifecycle a" "ac_stopped b = ac_stopped a" "ac_task b = ac_task a"
    using assms(2) by (simp_all add: quiet_def)
  show ?thesis
    using assms(1) unfolding life_inv_def eq by (rule life_ok_mono) (rule evolves_closed [OF ev], assumption)+
qed

lemma life_ok_stops:
  "life_ok l sp t st ob ib sc \<Longrightarrow> set st' \<subseteq> set st \<Longrightarrow> life_ok l sp t st' ob ib sc"
  by (cases l; cases t) auto

lemma life_inv_stops: "life_inv a st \<Longrightarrow> set st' \<subseteq> set st \<Longrightarrow> life_inv a st'"
  unfolding life_inv_def by (rule life_ok_stops)

lemmas life_defs = life_inv_def ended_life_def task_ended_def

lemma reasons_not_blank:
  "\<not> blank (lit ''session stopping'')" "\<not> blank (lit ''session closed'')" "\<not> blank (lit ''session actor stopped'')"
  by (simp_all add: blank_iff isspace_def)

lemma close_with_closed:
  "\<not> blank r \<Longrightarrow> src_closed (ac_cancellation (close_with r now a))"
  by (simp add: close_with_def source_close_def case_prod_beta)

lemma close_with_simps [simp]:
  "ac_inbox (close_with r now a) = ac_inbox a" "ac_outbox (close_with r now a) = ac_outbox a"
  "ac_lifecycle (close_with r now a) = ac_lifecycle a" "ac_task (close_with r now a) = ac_task a"
  "ac_stopped (close_with r now a) = ac_stopped a" "ac_children (close_with r now a) = ac_children a"
  "ac_cancel_requested (close_with r now a) = ac_cancel_requested a"
  by (simp_all add: close_with_def)

lemma run_finally_simps [simp]:
  "drained (ac_inbox (run_finally a t now))" "src_closed (ac_cancellation (run_finally a t now))"
  "ac_lifecycle (run_finally a t now) = ac_lifecycle a" "ac_outbox (run_finally a t now) = ac_outbox a"
  "ac_stopped (run_finally a t now) = ac_stopped a"
  "ac_task (run_finally a t now) = Task_closing t (ac_children a)"
  using close_with_closed [OF reasons_not_blank(3), of now a]
  by (simp_all add: run_finally_def Let_def del: lit_simps)

lemma cancel_task_simps [simp]:
  "ac_inbox (cancel_actor_task a) = ac_inbox a" "ac_outbox (cancel_actor_task a) = ac_outbox a"
  "ac_lifecycle (cancel_actor_task a) = ac_lifecycle a" "ac_task (cancel_actor_task a) = ac_task a"
  "ac_stopped (cancel_actor_task a) = ac_stopped a" "ac_cancellation (cancel_actor_task a) = ac_cancellation a"
  "ac_children (cancel_actor_task a) = ac_children a"
  by (simp_all add: cancel_actor_task_def)

section \<open>Preservation\<close>

lemma life_running:
  assumes "life_inv a st" "ac_task a = Task_getting \<or> (\<exists>m. ac_task a = Task_handling m)"
  shows "\<not> ac_stopped a" "ac_lifecycle a = Life_RUNNING \<and> st = [] \<or>
    ac_lifecycle a = Life_STOPPING \<and> src_closed (ac_cancellation a) \<and> (\<forall>aw. Stop_finalizing aw \<notin> set st)"
  using assms by (cases "ac_lifecycle a"; auto simp: life_inv_def)+

lemma life_inv_finally:
  assumes inv: "life_inv a st" and t: "ac_task a = Task_getting \<or> (\<exists>m. ac_task a = Task_handling m)"
    and "ended_life l" "ac_lifecycle b = ac_lifecycle a" "ac_stopped b = ac_stopped a"
  shows "life_inv (run_finally b l now) st"
  using life_running [OF inv t] assms(3-) by (auto simp: life_inv_def)

lemma life_start: "life_inv a st \<Longrightarrow> life_inv (snd (actor_start a)) st"
  by (cases "ac_lifecycle a") (auto simp: life_inv_def actor_start_def)

lemma life_spawn: "life_inv a st \<Longrightarrow> life_inv (snd (actor_spawn a c)) st"
  by (cases "ac_lifecycle a") (auto simp: life_inv_def actor_spawn_def)

lemma life_child: "life_inv a st \<Longrightarrow> life_inv (child_done a c r) st"
  by (cases r; cases "ac_lifecycle a") (auto simp: life_inv_def child_done_def Let_def)

lemma life_schedule: "life_inv a st \<Longrightarrow> ac_task a = Task_created \<Longrightarrow> life_inv (run_schedule a) st"
  by (cases "ac_lifecycle a") (auto simp: life_inv_def run_schedule_def)

lemma life_returned: "life_inv a st \<Longrightarrow> ac_task a = Task_handling m \<Longrightarrow> life_inv (run_handler_returned a) st"
  by (cases "ac_lifecycle a") (auto simp: life_inv_def run_handler_returned_def)

lemma life_closing_cancelled:
  "life_inv a st \<Longrightarrow> ac_task a = Task_closing t aw \<Longrightarrow> life_inv (run_closing_cancelled a) st"
  by (cases "ac_lifecycle a") (auto simp: life_inv_def run_closing_cancelled_def)

lemma life_timeout: "life_inv a st \<Longrightarrow> life_inv (stop_timeout a) st"
  by (simp add: life_inv_def stop_timeout_def)

lemma life_get:
  assumes inv: "life_inv a st" and t: "ac_task a = Task_getting"
  shows "life_inv (run_get a now) st"
proof -
  have fin: "life_inv (run_finally (a\<lparr>ac_inbox := m\<rparr>) Life_STOPPED now) st" for m
    using t by (intro life_inv_finally [OF inv]) (auto simp: ended_life_def)
  have "life_inv (a\<lparr>ac_inbox := m\<rparr>) st \<and> life_inv (a\<lparr>ac_inbox := m, ac_task := Task_handling msg\<rparr>) st" for m msg
    using life_running(2) [OF inv] life_running(1) [OF inv] t by (auto simp: life_inv_def)
  then show ?thesis
    using fin by (simp add: run_get_def case_prod_beta split: sum.split option.split)
qed

lemma life_fail:
  assumes "life_inv a st" "ac_task a = Task_getting \<or> (\<exists>m. ac_task a = Task_handling m)"
  shows "life_inv (run_handler_raised a x now) st" "life_inv (run_cancelled a now) st"
  using assms by (auto simp: run_handler_raised_def run_cancelled_def ended_life_def intro!: life_inv_finally [OF assms])

lemma life_closed:
  assumes "life_inv a st" "ac_task a = Task_closing t aw"
  shows "life_inv (run_closed a t) st"
proof -
  have "ended_life t" "drained (ac_inbox a)" "src_closed (ac_cancellation a)" "\<forall>w. Stop_finalizing w \<notin> set st"
    using assms by (cases "ac_lifecycle a"; auto simp: life_inv_def)+
  then show ?thesis by (auto simp: life_inv_def run_closed_def ended_life_def)
qed

lemma life_stop:
  assumes "life_inv a st"
  shows "life_inv (snd (stop_begin a gr timeout now))
    (if fst (stop_begin a gr timeout now) = Inr True then st @ [Stop_waiting gr] else st)"
proof -
  have c: "src_closed (ac_cancellation (close_with (lit ''session closed'') now b))"
    "src_closed (ac_cancellation (close_with (lit ''session stopping'') now b))" for b :: "('a, 'b) actor"
    by (rule close_with_closed, rule reasons_not_blank)+
  show ?thesis
    using assms c
    by (cases "ac_lifecycle a"; cases "ac_task a")
      (auto simp: stop_begin_def life_inv_def Let_def simp del: lit_simps)
qed

lemma life_finalize_begin:
  assumes "life_inv a st" "task_ended a" "i < length st"
  shows "life_inv (snd (finalize_begin a))
    (case fst (finalize_begin a) of Stop_continues ph \<Rightarrow> st[i := ph] | _ \<Rightarrow> pop_at i st)"
proof (cases "ac_stopped a")
  case True
  then show ?thesis
    using life_inv_stops [OF assms(1) set_pop_at_subset] by (simp add: finalize_begin_def)
next
  case False
  moreover have "st \<noteq> []" using assms(3) by auto
  ultimately have "ac_lifecycle a = Life_STOPPING \<and> ac_task a = Task_cancelled \<and> src_closed (ac_cancellation a)"
    using assms(1,2) by (cases "ac_lifecycle a") (auto simp: life_inv_def task_ended_def)
  then show ?thesis using False by (simp add: finalize_begin_def life_inv_def)
qed

lemma life_finalize_end:
  assumes "life_inv a st" "Stop_finalizing aw \<in> set st"
  shows "life_inv (finalize_end a) st"
  using assms by (cases "ac_lifecycle a") (auto simp: life_inv_def finalize_end_def)

definition sess_life_inv :: "('k, 'x) sess \<Rightarrow> bool" where
  "sess_life_inv s \<longleftrightarrow> life_inv (se_actor s) (se_stops s)"

lemma sess_life_quiet:
  "sess_life_inv s \<Longrightarrow> quiet (se_actor s) b \<Longrightarrow> sess_life_inv (with_actor s b)"
  by (simp add: sess_life_inv_def with_actor_def life_inv_quiet)

lemma sess_life_with:
  "life_inv b (se_stops s) \<Longrightarrow> sess_life_inv (with_actor s b)"
  by (simp add: sess_life_inv_def with_actor_def)

lemma sess_life_lists [simp]:
  "sess_life_inv (s\<lparr>se_submits := xs\<rparr>) = sess_life_inv s" "sess_life_inv (s\<lparr>se_pubs := ys\<rparr>) = sess_life_inv s"
  by (simp_all add: sess_life_inv_def)

lemma sess_life_admit:
  "sess_life_inv s \<Longrightarrow> quiet (se_actor s) (snd r) \<Longrightarrow> sess_life_inv (admit_submit s r)"
  by (auto simp: admit_submit_def sess_life_quiet case_prod_beta split: sum.split)

lemma sess_life_stop_continues:
  assumes "sess_life_inv s" "i < length (se_stops s)" "task_ended (se_actor s)"
  shows "sess_life_inv (stop_continues s i (finalize_begin (se_actor s)))"
    "sess_life_inv (stop_continues s i (stop_task_ended (se_actor s) g))"
proof -
  have l: "life_inv (se_actor s) (se_stops s)" using assms(1) by (simp add: sess_life_inv_def)
  from life_finalize_begin [OF l assms(3,2)] show fin: "sess_life_inv (stop_continues s i (finalize_begin (se_actor s)))"
    by (simp add: sess_life_inv_def stop_continues_def with_actor_def)
  have "life_inv (se_actor s) (pop_at i (se_stops s))" by (rule life_inv_stops [OF l set_pop_at_subset])
  then show "sess_life_inv (stop_continues s i (stop_task_ended (se_actor s) g))"
    using fin by (simp add: sess_life_inv_def stop_continues_def with_actor_def stop_task_ended_def)
qed

lemma life_timed_out:
  "life_inv a st \<Longrightarrow> i < length st \<Longrightarrow> life_inv a (st[i := Stop_timed_out])"
  using set_update_subset_insert [of st i Stop_timed_out]
  by (cases "ac_lifecycle a") (auto simp: life_inv_def)

lemma sess_life_apply:
  assumes "sess_life_inv s"
  shows "sess_life_inv (sess_apply s p)"
proof -
  have l: "life_inv (se_actor s) (se_stops s)" using assms by (simp add: sess_life_inv_def)
  note steps = sess_life_with life_start life_spawn life_child life_schedule life_returned life_closing_cancelled
    life_timeout life_get life_fail life_closed
  show ?thesis
  proof (cases p)
    case (Do_stop gr timeout now)
    show ?thesis
      using life_stop [OF l, of gr timeout now]
      by (auto simp: Do_stop sess_life_inv_def with_actor_def case_prod_beta split: sum.split bool.split)
  next
    case (Do_stop_task_ended i)
    then show ?thesis
      using sess_life_stop_continues [OF assms] assms by (auto split: stop_phase.split)
  next
    case (Do_stop_timeout i)
    then show ?thesis
      using life_timed_out [OF life_timeout [OF l], of i] assms
      by (auto simp: sess_life_inv_def with_actor_def split: stop_phase.split)
  next
    case (Do_stop_finalized i)
    have "life_inv (finalize_end (se_actor s)) (pop_at i (se_stops s))"
      if "i < length (se_stops s)" "se_stops s ! i = Stop_finalizing aw" for aw
      using life_inv_stops [OF life_finalize_end [OF l] set_pop_at_subset] that by (metis nth_mem)
    then show ?thesis
      using Do_stop_finalized assms by (auto simp: sess_life_inv_def with_actor_def split: stop_phase.split)
  next
    case (Do_submit_cancelled i)
    then show ?thesis
      using assms sess_life_quiet [OF assms quiet_inbox(3)] by (simp add: submit_stamped_cancelled_def)
  qed (use assms l in \<open>auto simp: case_prod_beta intro!: sess_life_admit steps
      intro: life_inv_quiet [OF l] quiet_ops
      split: sum.split option.split actor_task.split\<close>)
qed

interpretation slife: op_system sess_apply sess_life_inv
  by unfold_locales (rule sess_life_apply)

lemma slife_run: "sess_run = slife.run"
  by (simp add: fun_eq_iff sess_run_def slife.run_def)

section \<open>Properties\<close>

lemma reachable_life:
  assumes "actor_init sid ic oc ov ck co ob = Inr a"
  shows "sess_life_inv (sess_run (sess_init a) ps)"
  unfolding slife_run
  by (rule slife.run_inv) (use actor_init_facts [OF assms] in \<open>simp add: sess_life_inv_def sess_init_def life_inv_def\<close>)

lemma ended_step:
  assumes "sess_life_inv s" "ac_stopped (se_actor s)"
  shows "ac_stopped (se_actor (sess_apply s p)) \<and>
    ac_lifecycle (se_actor (sess_apply s p)) = ac_lifecycle (se_actor s)"
proof -
  let ?a = "se_actor s"
  have q: "ac_stopped b \<and> ac_lifecycle b = ac_lifecycle ?a" if "quiet ?a b" for b
    using that assms(2) by (simp add: quiet_def)
  have life: "ac_lifecycle ?a = Life_STOPPED \<or> ac_lifecycle ?a = Life_FAILED"
    "ac_task ?a = Task_none \<or> ac_task ?a = Task_returned \<or> ac_task ?a = Task_cancelled"
    "Stop_finalizing aw \<in> set (se_stops s) \<Longrightarrow> ac_lifecycle ?a = Life_STOPPED" for aw
    using assms by (cases "ac_lifecycle ?a"; auto simp: sess_life_inv_def life_inv_def)+
  show ?thesis
  proof (cases p)
    case (Do_stop_finalized i)
    then show ?thesis
      using assms(2) life(3) by (auto simp: with_actor_def finalize_end_def split: stop_phase.split dest: nth_mem)
  next
    case (Do_submit_cancelled i)
    then show ?thesis
      using assms(2) by (simp add: with_actor_def submit_stamped_cancelled_def)
  next
    case (Do_stop gr timeout now)
    then show ?thesis
      using assms(2) life(1) by (auto simp: with_actor_def stop_begin_def)
  next
    case (Do_stop_task_ended i)
    then show ?thesis
      using assms(2) by (auto simp: stop_continues_def with_actor_def finalize_begin_def stop_task_ended_def
          split: stop_phase.split)
  next
    case (Do_stop_timeout i)
    then show ?thesis using assms(2) by (auto simp: with_actor_def stop_timeout_def split: stop_phase.split)
  next
    case (Do_child_done c r)
    then show ?thesis
      using assms(2) by (cases r) (auto simp: with_actor_def child_done_def Let_def)
  qed (use assms(2) life(1,2) in \<open>auto simp: with_actor_def admit_submit_def case_prod_beta actor_start_def
      actor_spawn_def q [OF quiet_ops(1)] q [OF quiet_ops(2)] q [OF quiet_ops(3)] q [OF quiet_ops(4)]
      q [OF quiet_ops(5)] q [OF quiet_ops(6)] q [OF quiet_ops(7)] q [OF quiet_ops(8)] q [OF quiet_ops(9)]
      q [OF quiet_ops(10)] q [OF quiet_ops(11)] split: sum.split option.split\<close>)
qed

lemma ended_refuses:
  assumes "sess_life_inv s" "ac_stopped (se_actor s)" and b: "b = se_actor s"
  shows "submit b e = (Inl SessionLifecycleError, b)" "submit_foreground_turn b e r now = (Inl SessionLifecycleError, b)"
    "actor_spawn b c = (Inl SessionLifecycleError, b)" "\<not> accepts (ac_cancellation b) g" "drained (ac_inbox b)"
    "mb_closed (ac_outbox b)"
proof -
  have "ac_lifecycle b \<noteq> Life_RUNNING \<and> src_closed (ac_cancellation b) \<and> drained (ac_inbox b) \<and>
      mb_closed (ac_outbox b)"
    using assms by (cases "ac_lifecycle b") (auto simp: sess_life_inv_def life_inv_def)
  then show "submit b e = (Inl SessionLifecycleError, b)"
    "submit_foreground_turn b e r now = (Inl SessionLifecycleError, b)"
    "actor_spawn b c = (Inl SessionLifecycleError, b)" "\<not> accepts (ac_cancellation b) g" "drained (ac_inbox b)"
    "mb_closed (ac_outbox b)"
    by (simp_all add: submit_def submit_foreground_turn_def ensure_running_def actor_spawn_def accepts_def)
qed

text \<open>
  the end of a session is final and complete. Once the actor has signalled that it
  stopped, no sequence of operations changes its terminal lifecycle; from then on the inbox is
  closed and empty, the outbox is closed, no generation is accepted, and submissions,
  foreground turns and spawns are refused.
\<close>

theorem session_end_is_final:
  assumes "actor_init sid ic oc ov ck co ob = Inr a" and "s = sess_run (sess_init a) ps"
    and "ac_stopped (se_actor s)" and "b = se_actor (sess_run s qs)"
  shows "ac_stopped b \<and> ac_lifecycle b = ac_lifecycle (se_actor s) \<and>
    (ac_lifecycle b = Life_STOPPED \<or> ac_lifecycle b = Life_FAILED) \<and>
    drained (ac_inbox b) \<and> mb_closed (ac_outbox b) \<and> \<not> accepts (ac_cancellation b) g \<and>
    submit b e = (Inl SessionLifecycleError, b) \<and>
    submit_foreground_turn b e r now = (Inl SessionLifecycleError, b) \<and>
    actor_spawn b c = (Inl SessionLifecycleError, b)"
proof -
  have inv: "sess_life_inv s" unfolding assms(2) by (rule reachable_life [OF assms(1)])
  then have inv': "sess_life_inv (sess_run s qs)" unfolding slife_run by (rule slife.run_inv)
  have keep: "ac_stopped b \<and> ac_lifecycle b = ac_lifecycle (se_actor s)"
    unfolding assms(4) slife_run
    by (rule slife.run_stable [where P = "\<lambda>t. ac_stopped (se_actor t) \<and> ac_lifecycle (se_actor t) = ac_lifecycle (se_actor s)"])
      (use ended_step inv assms(3) in auto)
  moreover have "ac_lifecycle b = Life_STOPPED \<or> ac_lifecycle b = Life_FAILED"
    using inv' keep assms(4) by (cases "ac_lifecycle b") (auto simp: sess_life_inv_def life_inv_def)
  ultimately show ?thesis
    using ended_refuses [OF inv' _ assms(4)] assms(4) by auto
qed

text \<open>
  A session with one-place mailboxes, and its stop before it started.
\<close>

definition demo_actor :: "(unit, nat) actor" where
  "demo_actor = (case actor_init 5 1 1 REJECT None None None of Inr a \<Rightarrow> a | Inl _ \<Rightarrow> undefined)"

lemma demo_actor_init: "actor_init 5 1 1 REJECT None None None = Inr demo_actor"
  by (simp add: demo_actor_def actor_init_def mailbox_init_def source_init_def make_generation_def)

theorem session_end_is_final_witness:
  "let s = sess_run (sess_init demo_actor) [Do_stop True 1 0]; b = se_actor (sess_run s [Do_start, Do_receive])
   in ac_stopped (se_actor s) \<and> ac_lifecycle b = Life_STOPPED \<and> mb_closed (ac_outbox b)"
proof -
  have "ac_lifecycle demo_actor = Life_NEW" using actor_init_facts(6) [OF demo_actor_init] .
  then have "ac_stopped (se_actor (sess_run (sess_init demo_actor) [Do_stop True 1 0]))"
    "ac_lifecycle (se_actor (sess_run (sess_init demo_actor) [Do_stop True 1 0])) = Life_STOPPED"
    by (simp_all add: sess_run_def sess_init_def stop_begin_def Let_def with_actor_def)
  then show ?thesis
    using session_end_is_final [OF demo_actor_init refl _ refl, of "[Do_stop True 1 0]" "[Do_start, Do_receive]"]
    by (simp add: Let_def)
qed

section \<open>A child that fails while the actor shuts down\<close>

text \<open>
  The \<open>finally\<close> block of \<open>_run\<close> cancels the children while the lifecycle still reads
  \<open>RUNNING\<close>. A child that then ends with an exception makes \<open>_child_done\<close> cancel the actor
  task once more, which aborts the block: the outbox stays open, \<open>_stopped\<close> is never set.
\<close>

definition stuck :: "('k, 'x) sess \<Rightarrow> bool" where
  "stuck s \<longleftrightarrow> ac_task (se_actor s) = Task_cancelled \<and> \<not> ac_stopped (se_actor s) \<and>
     (ac_lifecycle (se_actor s) = Life_RUNNING \<or> ac_lifecycle (se_actor s) = Life_STOPPING) \<and>
     (\<forall>ph \<in> set (se_stops s). ph = Stop_waiting True)"

lemma stuck_quiet: "stuck s \<Longrightarrow> quiet (se_actor s) b \<Longrightarrow> stuck (s\<lparr>se_actor := b\<rparr>)"
  by (simp add: stuck_def quiet_def)

lemma stuck_lists [simp]:
  "stuck (s\<lparr>se_submits := xs\<rparr>) = stuck s" "stuck (s\<lparr>se_pubs := ys\<rparr>) = stuck s"
  "stuck (s\<lparr>se_actor := b, se_submits := xs\<rparr>) = stuck (s\<lparr>se_actor := b\<rparr>)"
  "stuck (s\<lparr>se_actor := b, se_pubs := ys\<rparr>) = stuck (s\<lparr>se_actor := b\<rparr>)"
  by (simp_all add: stuck_def)

lemma stuck_step:
  assumes st: "stuck s" and ng: "\<And>t n. p \<noteq> Do_stop False t n"
  shows "stuck (sess_apply s p)"
proof (cases p)
  case (Do_stop gr timeout now)
  then show ?thesis
    using st ng by (cases gr) (auto simp: stuck_def stop_begin_def with_actor_def Let_def simp del: lit_simps)
next
  case (Do_stop_task_ended i)
  show ?thesis
  proof (cases "i < length (se_stops s)")
    case True
    then have "se_stops s ! i = Stop_waiting True" using st nth_mem [OF True] by (simp add: stuck_def)
    moreover have "ac_task (se_actor s) = Task_cancelled" using st by (simp add: stuck_def)
    ultimately have "sess_apply s p = s\<lparr>se_stops := pop_at i (se_stops s)\<rparr>"
      using True Do_stop_task_ended
      by (simp add: stop_continues_def stop_task_ended_def with_actor_def task_ended_def)
    then show ?thesis using st set_pop_at_subset [of i "se_stops s"] by (simp add: stuck_def subset_iff)
  qed (use st Do_stop_task_ended in simp)
next
  case (Do_stop_finalized i)
  have "se_stops s ! i = Stop_waiting True" if "i < length (se_stops s)"
    using st nth_mem [OF that] by (simp add: stuck_def)
  then show ?thesis using st Do_stop_finalized by simp
next
  case (Do_submit_cancelled i)
  then show ?thesis
    using st stuck_quiet [OF st quiet_inbox(3)] by (simp add: with_actor_def submit_stamped_cancelled_def)
next
  case (Do_child_done c r)
  then show ?thesis
    using st by (cases r) (auto simp: stuck_def with_actor_def child_done_def Let_def)
next
  case (Do_stop_timeout i)
  then show ?thesis using st by (auto simp: stuck_def task_ended_def)
next
  case Do_start
  then show ?thesis using st by (auto simp: stuck_def with_actor_def actor_start_def)
next
  case (Do_spawn c)
  then show ?thesis using st by (auto simp: stuck_def with_actor_def actor_spawn_def)
next
  case Do_schedule
  then show ?thesis using st by (simp add: stuck_def)
next
  case (Do_get now)
  then show ?thesis using st by (simp add: stuck_def)
next
  case Do_handler_returned
  then show ?thesis using st by (simp add: stuck_def)
next
  case (Do_handler_raised x now)
  then show ?thesis using st by (simp add: stuck_def)
next
  case (Do_cancelled now)
  then show ?thesis using st by (simp add: stuck_def)
next
  case Do_closed
  then show ?thesis using st by (simp add: stuck_def)
next
  case Do_closing_cancelled
  then show ?thesis using st by (simp add: stuck_def)
qed (use st in \<open>auto simp: with_actor_def admit_submit_def case_prod_beta
      intro: stuck_quiet [OF st] quiet_ops split: sum.split option.split\<close>)

text \<open>Between the failure and the delivery of the cancellation: the block has not gone on.\<close>

definition doomed :: "SessionLifecycle \<Rightarrow> nat list \<Rightarrow> ('k, 'x) sess \<Rightarrow> bool" where
  "doomed terminal awaited s \<longleftrightarrow>
     ac_task (se_actor s) = Task_closing terminal awaited \<and> ac_cancel_requested (se_actor s) \<and>
     \<not> ac_stopped (se_actor s) \<and>
     (ac_lifecycle (se_actor s) = Life_RUNNING \<or> ac_lifecycle (se_actor s) = Life_STOPPING) \<and>
     (\<forall>ph \<in> set (se_stops s). ph = Stop_waiting True)"

lemma doomed_quiet: "doomed l aw s \<Longrightarrow> quiet (se_actor s) b \<Longrightarrow> doomed l aw (s\<lparr>se_actor := b\<rparr>)"
  by (simp add: doomed_def quiet_def)

lemma doomed_lists [simp]:
  "doomed l aw (s\<lparr>se_submits := xs\<rparr>) = doomed l aw s" "doomed l aw (s\<lparr>se_pubs := ys\<rparr>) = doomed l aw s"
  "doomed l aw (s\<lparr>se_actor := b, se_submits := xs\<rparr>) = doomed l aw (s\<lparr>se_actor := b\<rparr>)"
  "doomed l aw (s\<lparr>se_actor := b, se_pubs := ys\<rparr>) = doomed l aw (s\<lparr>se_actor := b\<rparr>)"
  by (simp_all add: doomed_def)

lemma doomed_step:
  assumes st: "doomed l aw s" and ng: "\<And>t n. p \<noteq> Do_stop False t n" "\<And>i. p \<noteq> Do_stop_timeout i"
  shows "doomed l aw (sess_apply s p) \<or> stuck (sess_apply s p)"
proof (cases p)
  case (Do_stop gr timeout now)
  then show ?thesis
    using st ng by (cases gr) (auto simp: doomed_def stop_begin_def with_actor_def Let_def simp del: lit_simps)
next
  case (Do_stop_finalized i)
  have "se_stops s ! i = Stop_waiting True" if "i < length (se_stops s)"
    using st nth_mem [OF that] by (simp add: doomed_def)
  then show ?thesis using st Do_stop_finalized by simp
next
  case (Do_stop_timeout i)
  then show ?thesis using ng by simp
next
  case (Do_submit_cancelled i)
  then show ?thesis
    using st doomed_quiet [OF st quiet_inbox(3)] by (simp add: with_actor_def submit_stamped_cancelled_def)
next
  case (Do_child_done c r)
  then show ?thesis
    using st by (cases r) (auto simp: doomed_def with_actor_def child_done_def cancel_actor_task_def Let_def)
next
  case Do_closing_cancelled
  then show ?thesis
    using st by (auto simp: doomed_def stuck_def with_actor_def run_closing_cancelled_def)
next
  case Do_schedule
  then show ?thesis using st by (simp add: doomed_def)
next
  case (Do_get now)
  then show ?thesis using st by (simp add: doomed_def)
next
  case Do_handler_returned
  then show ?thesis using st by (simp add: doomed_def)
next
  case (Do_handler_raised x now)
  then show ?thesis using st by (simp add: doomed_def)
next
  case (Do_cancelled now)
  then show ?thesis using st by (simp add: doomed_def)
next
  case Do_closed
  then show ?thesis using st by (simp add: doomed_def)
next
  case (Do_stop_task_ended i)
  then show ?thesis using st by (simp add: doomed_def task_ended_def)
next
  case Do_start
  then show ?thesis using st by (auto simp: doomed_def with_actor_def actor_start_def)
next
  case (Do_spawn c)
  then show ?thesis using st by (auto simp: doomed_def with_actor_def actor_spawn_def)
qed (use st in \<open>auto simp: with_actor_def admit_submit_def case_prod_beta
      intro: doomed_quiet [OF st] quiet_ops split: sum.split option.split\<close>)

lemma dead_run:
  "stuck s \<Longrightarrow> \<forall>p \<in> set qs. \<forall>t n. p \<noteq> Do_stop False t n \<Longrightarrow> stuck (sess_run s qs)"
  by (induction qs arbitrary: s) (simp_all add: sess_run_def stuck_step)

lemma doomed_run:
  "doomed l aw s \<or> stuck s \<Longrightarrow>
   \<forall>p \<in> set qs. (\<forall>t n. p \<noteq> Do_stop False t n) \<and> (\<forall>i. p \<noteq> Do_stop_timeout i) \<Longrightarrow>
   doomed l aw (sess_run s qs) \<or> stuck (sess_run s qs)"
proof (induction qs arbitrary: s)
  case Nil
  then show ?case by (simp add: sess_run_def)
next
  case (Cons p qs)
  then have "doomed l aw (sess_apply s p) \<or> stuck (sess_apply s p)"
    using doomed_step [of l aw s p] stuck_step [of s p] by auto
  from Cons.IH [OF this] Cons.prems(2) show ?case by (simp add: sess_run_def)
qed

lemma failing_child_dooms:
  assumes "sess_life_inv s" "ac_task (se_actor s) = Task_closing l aw"
    "ac_lifecycle (se_actor s) = Life_RUNNING" "c \<in> set (ac_children (se_actor s))"
  shows "doomed l aw (sess_apply s (Do_child_done c (Child_raised x)))"
  using assms
  by (auto simp: sess_life_inv_def life_inv_def doomed_def with_actor_def child_done_def
      cancel_actor_task_def task_ended_def Let_def)

lemma doomed_delivered: "doomed l aw s \<or> stuck s \<Longrightarrow> stuck (sess_apply s Do_closing_cancelled)"
  by (auto simp: doomed_def stuck_def with_actor_def run_closing_cancelled_def)

text \<open>
  C24: take any state a session can reach in which the actor task waits in its \<open>finally\<close> block
  for the children and no \<open>stop\<close> began the shutdown (the lifecycle still reads \<open>RUNNING\<close>),
  and let any child end with an exception there. Then, as long as no stop is non-graceful and
  none expires, the block never goes past that wait, whatever else happens: the session is not
  reported as stopped and its lifecycle never becomes \<open>STOPPED\<close> or \<open>FAILED\<close>. Once the
  cancellation is delivered, the task is dead for good: short of a non-graceful \<open>stop\<close>
  the session never reports that it stopped, and a graceful \<open>stop\<close> ends in an exception.
\<close>

theorem failing_child_blocks_shutdown:
  assumes "actor_init sid ic oc ov ck co ob = Inr a" and "s = sess_run (sess_init a) ps"
    and "ac_task (se_actor s) = Task_closing terminal awaited"
    and "ac_lifecycle (se_actor s) = Life_RUNNING" and "c \<in> set (ac_children (se_actor s))"
    and "t = sess_run (sess_apply s (Do_child_done c (Child_raised x))) qs"
    and "\<forall>p \<in> set qs. (\<forall>to n. p \<noteq> Do_stop False to n) \<and> (\<forall>i. p \<noteq> Do_stop_timeout i)"
    and "u = sess_run (sess_apply t Do_closing_cancelled) rs"
    and "\<forall>p \<in> set rs. \<forall>to n. p \<noteq> Do_stop False to n"
  shows "\<not> ac_stopped (se_actor t) \<and>
    (ac_task (se_actor t) = Task_closing terminal awaited \<and> ac_cancel_requested (se_actor t) \<or>
     ac_task (se_actor t) = Task_cancelled) \<and>
    (ac_lifecycle (se_actor t) = Life_RUNNING \<or> ac_lifecycle (se_actor t) = Life_STOPPING) \<and>
    ac_task (se_actor u) = Task_cancelled \<and> \<not> ac_stopped (se_actor u) \<and>
    (ac_lifecycle (se_actor u) = Life_RUNNING \<or> ac_lifecycle (se_actor u) = Life_STOPPING) \<and>
    fst (stop_task_ended (se_actor u) True) = Stop_raised_cancelled"
proof -
  have "sess_life_inv s" unfolding assms(2) by (rule reachable_life [OF assms(1)])
  from failing_child_dooms [OF this assms(3-5), of x]
  have t: "doomed terminal awaited t \<or> stuck t"
    unfolding assms(6) by (intro doomed_run assms(7) disjI1)
  then have "stuck u"
    unfolding assms(8) by (intro dead_run assms(9)) (rule doomed_delivered)
  then show ?thesis using t by (auto simp: stuck_def doomed_def stop_task_ended_def)
qed

text \<open>The case is reached by two failing children: the first failure starts the shutdown.\<close>

definition shutting_down :: "'x \<Rightarrow> 'x sess_op list" where
  "shutting_down x = [Do_start, Do_spawn 1, Do_spawn 2, Do_schedule, Do_child_done 1 (Child_raised x), Do_cancelled 0]"

lemma shutting_down_closing:
  assumes "actor_init sid ic oc ov ck co ob = Inr a" and "s = sess_run (sess_init a) (shutting_down x)"
  shows "ac_task (se_actor s) = Task_closing Life_FAILED [2]" "ac_lifecycle (se_actor s) = Life_RUNNING"
    "ac_children (se_actor s) = [2]"
  using actor_init_facts [OF assms(1)] assms(2)
  by (simp_all add: shutting_down_def sess_run_def sess_init_def with_actor_def actor_start_def actor_spawn_def
      run_schedule_def child_done_def cancel_actor_task_def task_ended_def run_cancelled_def run_finally_def Let_def
      del: lit_simps)

theorem failing_child_blocks_shutdown_witness:
  "\<not> ac_stopped (se_actor (sess_run (sess_init demo_actor)
     (shutting_down (7 :: nat) @ [Do_child_done 2 (Child_raised 8), Do_closing_cancelled,
      Do_stop True 1 0, Do_stop_task_ended 0, Do_stop True 1 0])))"
  using failing_child_blocks_shutdown [OF demo_actor_init refl
      shutting_down_closing(1,2) [OF demo_actor_init refl, of "7 :: nat"] _ refl _ refl, where c = 2 and x = 8 and qs = "[]"
      and rs = "[Do_stop True 1 0, Do_stop_task_ended 0, Do_stop True 1 0]"]
    shutting_down_closing(3) [OF demo_actor_init refl, of "7 :: nat"]
  by (simp add: sess_run_def del: sess_apply.simps)

end
