(* ===== verification/Vad.thy ===== *)
theory Vad
  imports PcmTypes
begin

text \<open>
  The energy voice-activity detector of \<^verbatim>\<open>media/vad.py\<close>: one record with the fields of
  \<open>EnergyVoiceActivityDetector\<close>, one definition per method. \<open>uuid5\<close>, the name-based
  identifier of the standard library (a SHA-1 digest), is the parameter \<open>name_uuid\<close>: the detector only
  passes its result on.
\<close>

section \<open>Configuration and events\<close>

record EnergyVadConfig =
  vc_speech_start_threshold :: int
  vc_speech_end_threshold :: int
  vc_speech_start_frames :: int
  vc_speech_end_frames :: int
  vc_pre_roll_frames :: int
  vc_max_utterance_duration_ms :: int
  vc_max_utterance_bytes :: int

definition default_vad_config :: EnergyVadConfig where
  "default_vad_config = \<lparr>vc_speech_start_threshold = 1200, vc_speech_end_threshold = 700,
     vc_speech_start_frames = 2, vc_speech_end_frames = 5, vc_pre_roll_frames = 5,
     vc_max_utterance_duration_ms = 30000, vc_max_utterance_bytes = 1048576\<rparr>"

text \<open>\<open>__post_init__\<close>: the index of the first field out of its range, or the crossed thresholds.\<close>

datatype vad_config_error = FieldOutOfRange nat | ThresholdsCrossed

definition config_fields :: "EnergyVadConfig \<Rightarrow> (int \<times> int \<times> int option) list" where
  "config_fields c =
     [(vc_speech_start_threshold c, 1, Some 32767),
      (vc_speech_end_threshold c, 1, Some 32767),
      (vc_speech_start_frames c, 1, None),
      (vc_speech_end_frames c, 1, None),
      (vc_pre_roll_frames c, 0, None),
      (vc_max_utterance_duration_ms c, 1, None),
      (vc_max_utterance_bytes c, 2, None)]"

fun check_fields :: "nat \<Rightarrow> (int \<times> int \<times> int option) list \<Rightarrow> vad_config_error option" where
  "check_fields i [] = None"
| "check_fields i ((v, lo, hi) # fs) =
     (if v < lo \<or> (case hi of None \<Rightarrow> False | Some h \<Rightarrow> h < v) then Some (FieldOutOfRange i)
      else check_fields (Suc i) fs)"

definition check_vad_config :: "EnergyVadConfig \<Rightarrow> vad_config_error option" where
  "check_vad_config c =
     (case check_fields 0 (config_fields c) of
        Some e \<Rightarrow> Some e
      | None \<Rightarrow>
          if vc_speech_start_threshold c < vc_speech_end_threshold c then Some ThresholdsCrossed
          else None)"

definition max_utterance_duration_ns :: "EnergyVadConfig \<Rightarrow> int" where
  "max_utterance_duration_ns c = vc_max_utterance_duration_ms c * 1000000"

record VadSpeechStarted =
  ss_stream_id :: uuid
  ss_utterance_id :: uuid
  ss_at_ns :: int
  ss_trigger_sequence :: int
  ss_pre_roll_frame_count :: int

record VadSpeechEnded =
  se_stream_id :: uuid
  se_utterance_id :: uuid
  se_at_ns :: int
  se_reason :: UtteranceEndReason
  se_utterance :: PcmUtterance

datatype VadEvent = Speech_started VadSpeechStarted | Speech_ended VadSpeechEnded

text \<open>
  The exceptions: the \<open>ValueError\<close>s of \<open>_validate_stream_frame\<close>, those of the
  \<open>PcmUtterance\<close> constructor, the \<open>RuntimeError\<close>s of the \<open>_require_...\<close>
  methods, and the \<open>IndexError\<close> of \<open>popleft\<close> on an empty history.
\<close>

datatype vad_error =
  Frame_exceeds_bytes | Frame_exceeds_duration | Stream_mixed | Format_changed
| Sequence_not_increasing | Timestamps_overlap
| Bad_utterance media_error
| Required_missing
| History_underflow

section \<open>State\<close>

record vad =
  va_config :: EnergyVadConfig
  va_stream_id :: "uuid option"
  va_format :: "PcmFormat option"
  va_last_sequence :: "int option"
  va_last_end_ns :: "int option"
  va_history :: "PcmFrame list"
  va_history_bytes :: int
  va_history_duration_ns :: int
  va_candidate_count :: int
  va_candidate_bytes :: int
  va_candidate_duration_ns :: int
  va_candidate_start_ns :: "int option"
  va_candidate_start_sequence :: "int option"
  va_active_frames :: "PcmFrame list option"
  va_active_bytes :: int
  va_active_duration_ns :: int
  va_utterance_id :: "uuid option"
  va_speech_started_at_ns :: "int option"
  va_silence_count :: int
  va_silence_started_at_ns :: "int option"

definition vad_init :: "EnergyVadConfig option \<Rightarrow> vad" where
  "vad_init c = \<lparr>va_config = (case c of None \<Rightarrow> default_vad_config | Some x \<Rightarrow> x),
     va_stream_id = None, va_format = None, va_last_sequence = None, va_last_end_ns = None,
     va_history = [], va_history_bytes = 0, va_history_duration_ns = 0,
     va_candidate_count = 0, va_candidate_bytes = 0, va_candidate_duration_ns = 0,
     va_candidate_start_ns = None, va_candidate_start_sequence = None,
     va_active_frames = None, va_active_bytes = 0, va_active_duration_ns = 0,
     va_utterance_id = None, va_speech_started_at_ns = None,
     va_silence_count = 0, va_silence_started_at_ns = None\<rparr>"

definition speech_active :: "vad \<Rightarrow> bool" where
  "speech_active v \<longleftrightarrow> va_active_frames v \<noteq> None"

definition buffered_bytes :: "vad \<Rightarrow> int" where
  "buffered_bytes v = (if speech_active v then va_active_bytes v else va_history_bytes v)"

section \<open>Methods\<close>

definition reset_candidate :: "vad \<Rightarrow> vad" where
  "reset_candidate v = v\<lparr>va_candidate_count := 0, va_candidate_bytes := 0,
     va_candidate_duration_ns := 0, va_candidate_start_ns := None,
     va_candidate_start_sequence := None\<rparr>"

definition clear_utterance :: "vad \<Rightarrow> vad" where
  "clear_utterance v = reset_candidate (v\<lparr>va_active_frames := None, va_active_bytes := 0,
     va_active_duration_ns := 0, va_utterance_id := None, va_speech_started_at_ns := None,
     va_silence_count := 0, va_silence_started_at_ns := None\<rparr>)"

definition clear_stream :: "vad \<Rightarrow> vad" where
  "clear_stream v = (clear_utterance v)\<lparr>va_history := [], va_history_bytes := 0,
     va_history_duration_ns := 0, va_stream_id := None, va_format := None,
     va_last_sequence := None, va_last_end_ns := None\<rparr>"

text \<open>\<open>_is_above\<close>: mean square against the squared threshold, on little-endian 16-bit samples.\<close>

definition sample_le :: "byte \<Rightarrow> byte \<Rightarrow> int" where
  "sample_le lo hi = sint (word_of_int (uint lo + 256 * uint hi) :: 16 word)"

fun square_sum :: "bytes \<Rightarrow> int" where
  "square_sum (lo # hi # bs) = sample_le lo hi * sample_le lo hi + square_sum bs"
| "square_sum bs = 0"

definition is_above :: "PcmFrame \<Rightarrow> int \<Rightarrow> bool" where
  "is_above f threshold \<longleftrightarrow>
     threshold * threshold * (fr_len f div 2) \<le> square_sum (fr_pcm f)"

definition reached_limit_reason :: "vad \<Rightarrow> UtteranceEndReason option" where
  "reached_limit_reason v =
     (if max_utterance_duration_ns (va_config v) \<le> va_active_duration_ns v then Some MAX_DURATION
      else if vc_max_utterance_bytes (va_config v) \<le> va_active_bytes v then Some MAX_BYTES
      else None)"

definition validate_stream_frame :: "vad \<Rightarrow> PcmFrame \<Rightarrow> (vad_error + unit) \<times> vad" where
  "validate_stream_frame v f =
     (if vc_max_utterance_bytes (va_config v) < fr_len f then (Inl Frame_exceeds_bytes, v)
      else if max_utterance_duration_ns (va_config v) < duration_ns f
        then (Inl Frame_exceeds_duration, v)
      else
        (let (r, v') =
           (case va_stream_id v of
              None \<Rightarrow> (Inr (), v\<lparr>va_stream_id := Some (fr_stream_id f),
                                 va_format := Some (fr_format f)\<rparr>)
            | Some sid \<Rightarrow>
                if fr_stream_id f \<noteq> sid then (Inl Stream_mixed, v)
                else if Some (fr_format f) \<noteq> va_format v then (Inl Format_changed, v)
                else (Inr (), v))
         in (case r of
               Inl e \<Rightarrow> (Inl e, v')
             | Inr _ \<Rightarrow>
                 if (case va_last_sequence v' of None \<Rightarrow> False | Some n \<Rightarrow> fr_sequence f \<le> n)
                   then (Inl Sequence_not_increasing, v')
                 else if (case va_last_end_ns v' of None \<Rightarrow> False
                          | Some t \<Rightarrow> fr_captured_at_ns f < t)
                   then (Inl Timestamps_overlap, v')
                 else (Inr (), v'))))"

text \<open>The loop of \<open>_remember_idle_frame\<close>: frames leave on the left until the bounds hold.\<close>

fun trim_history ::
  "int \<Rightarrow> int \<Rightarrow> int \<Rightarrow> PcmFrame list \<Rightarrow> int \<Rightarrow> int \<Rightarrow> vad_error + PcmFrame list \<times> int \<times> int" where
  "trim_history max_frames max_bytes max_duration fs b d =
     (if max_frames < int (length fs) \<or> max_bytes < b \<or> max_duration < d then
        (case fs of
           [] \<Rightarrow> Inl History_underflow
         | f # fs' \<Rightarrow>
             trim_history max_frames max_bytes max_duration fs' (b - fr_len f) (d - duration_ns f))
      else Inr (fs, b, d))"

declare trim_history.simps [simp del]

definition remember_idle_frame :: "vad \<Rightarrow> PcmFrame \<Rightarrow> vad_error + vad" where
  "remember_idle_frame v f =
     (case trim_history (vc_pre_roll_frames (va_config v) + vc_speech_start_frames (va_config v))
             (vc_max_utterance_bytes (va_config v)) (max_utterance_duration_ns (va_config v))
             (va_history v @ [f]) (va_history_bytes v + fr_len f)
             (va_history_duration_ns v + duration_ns f) of
        Inl e \<Rightarrow> Inl e
      | Inr (h, b, d) \<Rightarrow>
          Inr (v\<lparr>va_history := h, va_history_bytes := b, va_history_duration_ns := d\<rparr>))"

definition start_utterance ::
  "(uuid \<Rightarrow> pystr \<Rightarrow> uuid) \<Rightarrow> vad \<Rightarrow> PcmFrame \<Rightarrow> (vad_error + VadSpeechStarted) \<times> vad" where
  "start_utterance name_uuid v trigger =
     (case (va_stream_id v, va_candidate_start_ns v, va_candidate_start_sequence v) of
        (Some sid, Some start_ns, Some start_seq) \<Rightarrow>
          (let uid = name_uuid sid (lit ''speech:'' @ str_int start_seq);
               pre_roll = int (length (filter (\<lambda>f. fr_sequence f < start_seq) (va_history v)));
               v1 = v\<lparr>va_active_frames := Some (va_history v),
                      va_active_bytes := va_history_bytes v,
                      va_active_duration_ns := va_history_duration_ns v,
                      va_utterance_id := Some uid,
                      va_speech_started_at_ns := Some start_ns,
                      va_history := [], va_history_bytes := 0, va_history_duration_ns := 0\<rparr>
           in (Inr \<lparr>ss_stream_id = sid, ss_utterance_id = uid, ss_at_ns = start_ns,
                    ss_trigger_sequence = fr_sequence trigger, ss_pre_roll_frame_count = pre_roll\<rparr>,
               (reset_candidate v1)\<lparr>va_silence_count := 0, va_silence_started_at_ns := None\<rparr>))
      | _ \<Rightarrow> (Inl Required_missing, v))"

definition finish_utterance ::
  "vad \<Rightarrow> UtteranceEndReason \<Rightarrow> (vad_error + VadSpeechEnded) \<times> vad" where
  "finish_utterance v reason =
     (case (va_active_frames v, va_stream_id v, va_format v, va_utterance_id v,
            va_speech_started_at_ns v) of
        (Some frames, Some sid, Some fmt, Some uid, Some speech_start) \<Rightarrow>
          (let speech_end =
                 (case (reason, va_silence_started_at_ns v) of
                    (SILENCE, Some t) \<Rightarrow> t
                  | _ \<Rightarrow> end_ns (last frames));
               u = \<lparr>ut_utterance_id = uid, ut_stream_id = sid, ut_format = fmt,
                    ut_frames = frames, ut_speech_started_at_ns = speech_start,
                    ut_speech_ended_at_ns = speech_end, ut_end_reason = reason\<rparr>
           in (case check_pcm_utterance u of
                 Some e \<Rightarrow> (Inl (Bad_utterance e), v)
               | None \<Rightarrow>
                   (Inr \<lparr>se_stream_id = sid, se_utterance_id = uid, se_at_ns = speech_end,
                         se_reason = reason, se_utterance = u\<rparr>,
                    clear_utterance v)))
      | _ \<Rightarrow> (Inl Required_missing, v))"

definition count_candidate :: "vad \<Rightarrow> PcmFrame \<Rightarrow> vad" where
  "count_candidate v f =
     (if is_above f (vc_speech_start_threshold (va_config v)) then
        (let v1 = (if vc_max_utterance_bytes (va_config v) < va_candidate_bytes v + fr_len f \<or>
                      max_utterance_duration_ns (va_config v) < va_candidate_duration_ns v + duration_ns f
                   then reset_candidate v else v);
             v2 = (if va_candidate_count v1 = 0
                   then v1\<lparr>va_candidate_start_ns := Some (fr_captured_at_ns f),
                           va_candidate_start_sequence := Some (fr_sequence f)\<rparr>
                   else v1)
         in v2\<lparr>va_candidate_count := va_candidate_count v2 + 1,
               va_candidate_bytes := va_candidate_bytes v2 + fr_len f,
               va_candidate_duration_ns := va_candidate_duration_ns v2 + duration_ns f\<rparr>)
      else reset_candidate v)"

definition process_idle ::
  "(uuid \<Rightarrow> pystr \<Rightarrow> uuid) \<Rightarrow> vad \<Rightarrow> PcmFrame \<Rightarrow> (vad_error + VadEvent list) \<times> vad" where
  "process_idle name_uuid v f =
     (case remember_idle_frame v f of
        Inl e \<Rightarrow> (Inl e, v)
      | Inr v1 \<Rightarrow>
          (let v2 = count_candidate v1 f
           in if va_candidate_count v2 < vc_speech_start_frames (va_config v2) then (Inr [], v2)
              else
                (case start_utterance name_uuid v2 f of
                   (Inl e, v3) \<Rightarrow> (Inl e, v3)
                 | (Inr started, v3) \<Rightarrow>
                     (case reached_limit_reason v3 of
                        None \<Rightarrow> (Inr [Speech_started started], v3)
                      | Some r \<Rightarrow>
                          (case finish_utterance v3 r of
                             (Inl e, v4) \<Rightarrow> (Inl e, v4)
                           | (Inr ended, v4) \<Rightarrow>
                               (Inr [Speech_started started, Speech_ended ended], v4))))))"

definition finish_then_idle ::
  "(uuid \<Rightarrow> pystr \<Rightarrow> uuid) \<Rightarrow> vad \<Rightarrow> UtteranceEndReason \<Rightarrow> PcmFrame \<Rightarrow>
   (vad_error + VadEvent list) \<times> vad" where
  "finish_then_idle name_uuid v r f =
     (case finish_utterance v r of
        (Inl e, v1) \<Rightarrow> (Inl e, v1)
      | (Inr ended, v1) \<Rightarrow>
          (case process_idle name_uuid v1 f of
             (Inl e, v2) \<Rightarrow> (Inl e, v2)
           | (Inr evs, v2) \<Rightarrow> (Inr (Speech_ended ended # evs), v2)))"

definition finish_only :: "vad \<Rightarrow> UtteranceEndReason \<Rightarrow> (vad_error + VadEvent list) \<times> vad" where
  "finish_only v r =
     (case finish_utterance v r of
        (Inl e, v1) \<Rightarrow> (Inl e, v1)
      | (Inr ended, v1) \<Rightarrow> (Inr [Speech_ended ended], v1))"

definition append_active :: "vad \<Rightarrow> PcmFrame list \<Rightarrow> PcmFrame \<Rightarrow> vad" where
  "append_active v frames f =
     (let v1 = v\<lparr>va_active_frames := Some (frames @ [f]),
                 va_active_bytes := va_active_bytes v + fr_len f,
                 va_active_duration_ns := va_active_duration_ns v + duration_ns f\<rparr>
      in if is_above f (vc_speech_end_threshold (va_config v))
         then v1\<lparr>va_silence_count := 0, va_silence_started_at_ns := None\<rparr>
         else v1\<lparr>va_silence_started_at_ns :=
                   (if va_silence_count v1 = 0 then Some (fr_captured_at_ns f)
                    else va_silence_started_at_ns v1),
                 va_silence_count := va_silence_count v1 + 1\<rparr>)"

definition process_active ::
  "(uuid \<Rightarrow> pystr \<Rightarrow> uuid) \<Rightarrow> vad \<Rightarrow> PcmFrame \<Rightarrow> (vad_error + VadEvent list) \<times> vad" where
  "process_active name_uuid v f =
     (if vc_max_utterance_bytes (va_config v) < va_active_bytes v + fr_len f
        then finish_then_idle name_uuid v MAX_BYTES f
      else if max_utterance_duration_ns (va_config v) < va_active_duration_ns v + duration_ns f
        then finish_then_idle name_uuid v MAX_DURATION f
      else
        (case va_active_frames v of
           None \<Rightarrow> (Inl Required_missing, v)
         | Some frames \<Rightarrow>
             (let v1 = append_active v frames f
              in (case reached_limit_reason v1 of
                    Some r \<Rightarrow> finish_only v1 r
                  | None \<Rightarrow>
                      if vc_speech_end_frames (va_config v1) \<le> va_silence_count v1
                      then finish_only v1 SILENCE
                      else (Inr [], v1)))))"

definition vad_process ::
  "(uuid \<Rightarrow> pystr \<Rightarrow> uuid) \<Rightarrow> vad \<Rightarrow> PcmFrame \<Rightarrow> (vad_error + VadEvent list) \<times> vad" where
  "vad_process name_uuid v f =
     (case validate_stream_frame v f of
        (Inl e, v1) \<Rightarrow> (Inl e, v1)
      | (Inr _, v1) \<Rightarrow>
          (let v2 = v1\<lparr>va_last_sequence := Some (fr_sequence f),
                       va_last_end_ns := Some (end_ns f)\<rparr>
           in if speech_active v2 then process_active name_uuid v2 f
              else process_idle name_uuid v2 f))"

definition vad_finish_stream :: "vad \<Rightarrow> (vad_error + VadSpeechEnded option) \<times> vad" where
  "vad_finish_stream v =
     (if speech_active v then
        (case finish_utterance v STREAM_ENDED of
           (Inl e, v1) \<Rightarrow> (Inl e, v1)
         | (Inr ended, v1) \<Rightarrow> (Inr (Some ended), clear_stream v1))
      else (Inr None, clear_stream v))"

end
