(* ===== verification/VadInv.thy ===== *)
theory VadInv
  imports Vad "HOL-Library.Sublist"
begin

text \<open>
  Correctness of the detector. The invariant describes the two modes of the record (idle
  with pre-roll and a run of candidate frames, active with an open utterance); from it
  follow that no internal check ever fires, the shape of the event stream, the memory
  bounds and the hysteresis of start and end.
\<close>

section \<open>Invariant\<close>

definition frames_inv :: "uuid \<Rightarrow> PcmFormat \<Rightarrow> PcmFrame list \<Rightarrow> bool" where
  "frames_inv sid fmt fs \<longleftrightarrow> sorted_wrt before fs \<and>
     (\<forall>f \<in> set fs. frame_ok f \<and> fr_stream_id f = sid \<and> fr_format f = fmt)"

definition buffer :: "vad \<Rightarrow> PcmFrame list" where
  "buffer v = (case va_active_frames v of Some fs \<Rightarrow> fs | None \<Rightarrow> va_history v)"

definition config_ok :: "EnergyVadConfig \<Rightarrow> bool" where
  "config_ok c \<longleftrightarrow> check_vad_config c = None"

text \<open>What is known of the stream between two frames.\<close>

definition stream_inv :: "vad \<Rightarrow> bool" where
  "stream_inv v \<longleftrightarrow>
     (case va_stream_id v of
        None \<Rightarrow> va_format v = None \<and> va_last_sequence v = None \<and> va_last_end_ns v = None \<and>
                buffer v = []
      | Some sid \<Rightarrow>
          \<exists>fmt n t. va_format v = Some fmt \<and> va_last_sequence v = Some n \<and>
            va_last_end_ns v = Some t \<and> frames_inv sid fmt (buffer v) \<and>
            (\<forall>f \<in> set (buffer v). fr_sequence f \<le> n \<and> end_ns f \<le> t))"

text \<open>The candidate counters describe a run \<open>cs\<close> of loud frames.\<close>

definition cand_ok :: "vad \<Rightarrow> PcmFrame list \<Rightarrow> bool" where
  "cand_ok v cs \<longleftrightarrow>
     va_candidate_count v = int (length cs) \<and>
     va_candidate_bytes v = sum_bytes cs \<and>
     va_candidate_duration_ns v = sum_duration cs \<and>
     va_candidate_start_ns v = (case cs of [] \<Rightarrow> None | f # _ \<Rightarrow> Some (fr_captured_at_ns f)) \<and>
     va_candidate_start_sequence v = (case cs of [] \<Rightarrow> None | f # _ \<Rightarrow> Some (fr_sequence f)) \<and>
     (\<forall>f \<in> set cs. is_above f (vc_speech_start_threshold (va_config v)))"

definition within_limits :: "EnergyVadConfig \<Rightarrow> PcmFrame list \<Rightarrow> bool" where
  "within_limits c fs \<longleftrightarrow>
     sum_bytes fs \<le> vc_max_utterance_bytes c \<and> sum_duration fs \<le> max_utterance_duration_ns c"

definition history_ok :: "vad \<Rightarrow> bool" where
  "history_ok v \<longleftrightarrow>
     va_history_bytes v = sum_bytes (va_history v) \<and>
     va_history_duration_ns v = sum_duration (va_history v) \<and>
     within_limits (va_config v) (va_history v) \<and>
     int (length (va_history v)) \<le> vc_pre_roll_frames (va_config v) + vc_speech_start_frames (va_config v)"

definition idle_core :: "vad \<Rightarrow> PcmFrame list \<Rightarrow> bool" where
  "idle_core v cs \<longleftrightarrow>
     va_active_frames v = None \<and> va_utterance_id v = None \<and> history_ok v \<and> cand_ok v cs \<and>
     suffix cs (va_history v)"

definition idle_inv :: "vad \<Rightarrow> bool" where
  "idle_inv v \<longleftrightarrow> (\<exists>cs. idle_core v cs \<and> va_candidate_count v < vc_speech_start_frames (va_config v))"

text \<open>
  An open utterance: it contains the frame at which speech started, and ends in the run
  \<open>ss\<close> of quiet frames that the silence counter counts.
\<close>

definition active_core :: "vad \<Rightarrow> PcmFrame list \<Rightarrow> PcmFrame list \<Rightarrow> bool" where
  "active_core v fs ss \<longleftrightarrow>
     va_active_frames v = Some fs \<and>
     va_history v = [] \<and> va_history_bytes v = 0 \<and> va_history_duration_ns v = 0 \<and> cand_ok v [] \<and>
     va_active_bytes v = sum_bytes fs \<and> va_active_duration_ns v = sum_duration fs \<and>
     within_limits (va_config v) fs \<and>
     va_utterance_id v \<noteq> None \<and>
     (\<exists>pre f0 mid. fs = pre @ f0 # mid @ ss \<and>
        va_speech_started_at_ns v = Some (fr_captured_at_ns f0)) \<and>
     va_silence_count v = int (length ss) \<and>
     va_silence_started_at_ns v = (case ss of [] \<Rightarrow> None | f # _ \<Rightarrow> Some (fr_captured_at_ns f)) \<and>
     (\<forall>f \<in> set ss. \<not> is_above f (vc_speech_end_threshold (va_config v)))"

definition active_inv :: "vad \<Rightarrow> bool" where
  "active_inv v \<longleftrightarrow> (\<exists>fs ss. active_core v fs ss \<and> reached_limit_reason v = None \<and>
     va_silence_count v < vc_speech_end_frames (va_config v))"

definition vad_inv :: "vad \<Rightarrow> bool" where
  "vad_inv v \<longleftrightarrow> config_ok (va_config v) \<and> stream_inv v \<and> (if speech_active v then active_inv v else idle_inv v)"

lemma config_okD:
  assumes "config_ok c"
  shows "1 \<le> vc_speech_start_frames c" "1 \<le> vc_speech_end_frames c" "0 \<le> vc_pre_roll_frames c"
    "2 \<le> vc_max_utterance_bytes c" "0 < max_utterance_duration_ns c"
    "vc_speech_end_threshold c \<le> vc_speech_start_threshold c" "1 \<le> vc_speech_end_threshold c"
  using assms by (auto simp: config_ok_def check_vad_config_def config_fields_def
      max_utterance_duration_ns_def split: if_splits option.splits)

lemma vad_init_inv:
  assumes "config_ok (va_config (vad_init c))"
  shows "vad_inv (vad_init c)"
  using assms config_okD [OF assms]
  by (auto simp: vad_inv_def stream_inv_def buffer_def speech_active_def idle_inv_def idle_core_def
      history_ok_def cand_ok_def within_limits_def vad_init_def)

section \<open>Trimming the pre-roll\<close>

lemma trim_history_keeps:
  assumes "int (length cs) \<le> mf" "sum_bytes cs \<le> mb" "sum_duration cs \<le> md"
  shows "\<exists>pre'. trim_history mf mb md (pre @ cs) (sum_bytes (pre @ cs)) (sum_duration (pre @ cs)) =
      Inr (pre' @ cs, sum_bytes (pre' @ cs), sum_duration (pre' @ cs)) \<and> suffix pre' pre \<and>
      int (length (pre' @ cs)) \<le> mf \<and> sum_bytes (pre' @ cs) \<le> mb \<and> sum_duration (pre' @ cs) \<le> md"
proof (induction pre)
  case Nil
  then show ?case using assms
    by (intro exI [of _ "[]"]) (simp add: trim_history.simps [of mf mb md cs])
next
  case (Cons f pre)
  let ?fs = "(f # pre) @ cs"
  show ?case
  proof (cases "mf < int (length ?fs) \<or> mb < sum_bytes ?fs \<or> md < sum_duration ?fs")
    case True
    then have "trim_history mf mb md ?fs (sum_bytes ?fs) (sum_duration ?fs) =
        trim_history mf mb md (pre @ cs) (sum_bytes (pre @ cs)) (sum_duration (pre @ cs))"
      by (subst trim_history.simps) simp
    then show ?thesis using Cons.IH by (auto intro: suffix_ConsI)
  next
    case False
    then have "trim_history mf mb md ?fs (sum_bytes ?fs) (sum_duration ?fs) =
        Inr (?fs, sum_bytes ?fs, sum_duration ?fs)"
      by (subst trim_history.simps) simp
    then show ?thesis using False by (intro exI [of _ "f # pre"]) auto
  qed
qed

lemma frames_inv_suffix: "frames_inv sid fmt fs \<Longrightarrow> suffix gs fs \<Longrightarrow> frames_inv sid fmt gs"
  by (auto simp: frames_inv_def suffix_def sorted_wrt_append)

lemma frames_inv_snoc:
  "frames_inv sid fmt (fs @ [f]) \<longleftrightarrow>
   frames_inv sid fmt fs \<and> frame_ok f \<and> fr_stream_id f = sid \<and> fr_format f = fmt \<and> (\<forall>g \<in> set fs. before g f)"
  by (auto simp: frames_inv_def sorted_wrt_append)

lemma frames_inv_okD: "frames_inv sid fmt fs \<Longrightarrow> list_all frame_ok fs"
  by (auto simp: frames_inv_def list_all_iff)

section \<open>Finishing an utterance\<close>

lemma frames_order:
  assumes "frames_inv sid fmt (pre @ f0 # post)"
  shows "fr_captured_at_ns (hd (pre @ f0 # post)) \<le> fr_captured_at_ns f0"
    "g \<in> set (f0 # post) \<Longrightarrow> fr_captured_at_ns f0 \<le> fr_captured_at_ns g"
    "g \<in> set (pre @ f0 # post) \<Longrightarrow> fr_captured_at_ns g \<le> end_ns (last (pre @ f0 # post))"
proof -
  let ?fs = "pre @ f0 # post"
  have ok: "frame_ok f" if "f \<in> set ?fs" for f using assms that by (auto simp: frames_inv_def)
  have ord: "sorted_wrt before ?fs" using assms by (simp add: frames_inv_def)
  have step: "fr_captured_at_ns a \<le> fr_captured_at_ns b" if "before a b" "a \<in> set ?fs" for a b
    using that captured_le_end [OF ok] by (fastforce simp: before_def)
  show "fr_captured_at_ns (hd ?fs) \<le> fr_captured_at_ns f0"
    using ord step by (cases pre) (auto simp: sorted_wrt_append)
  show "g \<in> set (f0 # post) \<Longrightarrow> fr_captured_at_ns f0 \<le> fr_captured_at_ns g"
    using ord step by (auto simp: sorted_wrt_append)
  show "fr_captured_at_ns g \<le> end_ns (last ?fs)" if g: "g \<in> set ?fs"
  proof (cases "g = last ?fs")
    case True
    with g show ?thesis by (metis captured_le_end ok)
  next
    case False
    have split: "butlast ?fs @ [last ?fs] = ?fs" by (rule append_butlast_last_id) simp
    have "sorted_wrt before (butlast ?fs @ [last ?fs])" using ord by (simp only: split)
    moreover have "g \<in> set (butlast ?fs @ [last ?fs])" using g by (simp only: split)
    ultimately have "before g (last ?fs)" using False by (auto simp: sorted_wrt_append)
    then show ?thesis
      using step [OF _ g] captured_le_end [OF ok, of "last ?fs"] by (fastforce intro: order.trans)
  qed
qed

lemma finish_utterance_ok:
  assumes core: "active_core v fs ss" and sid: "va_stream_id v = Some sid" and fmt: "va_format v = Some fmt"
    and fr: "frames_inv sid fmt fs"
  shows "\<exists>e. finish_utterance v r = (Inr e, clear_utterance v) \<and>
    check_pcm_utterance (se_utterance e) = None \<and> ut_frames (se_utterance e) = fs \<and>
    se_reason e = r \<and> ut_end_reason (se_utterance e) = r \<and>
    se_utterance_id e = ut_utterance_id (se_utterance e) \<and>
    Some (se_utterance_id e) = va_utterance_id v \<and>
    se_stream_id e = sid \<and> se_at_ns e = ut_speech_ended_at_ns (se_utterance e)"
proof -
  from core obtain pre f0 mid uid where fs: "fs = pre @ f0 # mid @ ss"
    and st: "va_speech_started_at_ns v = Some (fr_captured_at_ns f0)"
    and act: "va_active_frames v = Some fs" and uid: "va_utterance_id v = Some uid"
    and sil: "va_silence_started_at_ns v = (case ss of [] \<Rightarrow> None | f # _ \<Rightarrow> Some (fr_captured_at_ns f))"
    by (auto simp: active_core_def)
  let ?fin = "case (r, va_silence_started_at_ns v) of (SILENCE, Some t) \<Rightarrow> t | _ \<Rightarrow> end_ns (last fs)"
  let ?u = "\<lparr>ut_utterance_id = uid, ut_stream_id = sid, ut_format = fmt, ut_frames = fs,
    ut_speech_started_at_ns = fr_captured_at_ns f0, ut_speech_ended_at_ns = ?fin, ut_end_reason = r\<rparr>"
  note ord = frames_order [OF fr [unfolded fs]]
  have fle: "fr_captured_at_ns f0 \<le> end_ns (last fs)" using ord(3) [of f0] by (simp add: fs)
  have "fr_captured_at_ns f0 \<le> ?fin \<and> ?fin \<le> end_ns (last fs)"
  proof (cases ss)
    case Nil
    then show ?thesis using sil fle by (simp split: UtteranceEndReason.splits)
  next
    case (Cons s ss')
    then have "fr_captured_at_ns f0 \<le> fr_captured_at_ns s" "fr_captured_at_ns s \<le> end_ns (last fs)"
      using ord(2) [of s] ord(3) [of s] fs by auto
    then show ?thesis using sil fle Cons by (simp split: UtteranceEndReason.splits)
  qed
  moreover have "check_utterance_frames sid fmt None fs = None"
    using fr by (intro check_utterance_frames_ok) (auto simp: frames_inv_def)
  moreover have "fr_captured_at_ns (hd fs) \<le> fr_captured_at_ns f0" using ord(1) by (simp add: fs)
  moreover have "fs \<noteq> []" by (simp add: fs)
  then obtain h t where "fs = h # t" by (cases fs) auto
  ultimately have "check_pcm_utterance ?u = None"
    using fle by (auto simp: check_pcm_utterance_def Let_def)
  then show ?thesis
    using act sid fmt uid st by (simp add: finish_utterance_def Let_def)
qed

section \<open>The event stream\<close>

text \<open>
  Starts and ends alternate, and an end names the utterance that the last start opened:
  a two-state automaton whose state is the identity of the open utterance.
\<close>

fun follows :: "uuid option \<Rightarrow> VadEvent list \<Rightarrow> uuid option \<Rightarrow> bool" where
  "follows a [] b \<longleftrightarrow> a = b"
| "follows None (Speech_started s # es) b \<longleftrightarrow> follows (Some (ss_utterance_id s)) es b"
| "follows (Some u) (Speech_ended e # es) b \<longleftrightarrow> se_utterance_id e = u \<and> follows None es b"
| "follows _ _ b \<longleftrightarrow> False"

lemma follows_append: "follows a es b \<Longrightarrow> follows b es' c \<Longrightarrow> follows a (es @ es') c"
  by (induction a es b rule: follows.induct) auto

text \<open>
  What an end event carries: a well-formed utterance within the configured bounds, the
  same identity and reason inside and outside, and for a silence end a tail of as many
  quiet frames as configured.
\<close>

definition good_end :: "EnergyVadConfig \<Rightarrow> VadSpeechEnded \<Rightarrow> bool" where
  "good_end c e \<longleftrightarrow>
     check_pcm_utterance (se_utterance e) = None \<and>
     ut_byte_count (se_utterance e) \<le> vc_max_utterance_bytes c \<and>
     ut_audio_duration_ns (se_utterance e) \<le> max_utterance_duration_ns c \<and>
     se_utterance_id e = ut_utterance_id (se_utterance e) \<and>
     se_reason e = ut_end_reason (se_utterance e) \<and>
     (se_reason e = SILENCE \<longrightarrow>
        (\<exists>ss. suffix ss (ut_frames (se_utterance e)) \<and>
           vc_speech_end_frames c \<le> int (length ss) \<and>
           (\<forall>f \<in> set ss. \<not> is_above f (vc_speech_end_threshold c))))"

definition good_events :: "EnergyVadConfig \<Rightarrow> VadEvent list \<Rightarrow> bool" where
  "good_events c evs \<longleftrightarrow> (\<forall>e. Speech_ended e \<in> set evs \<longrightarrow> good_end c e)"

section \<open>One frame\<close>

text \<open>The record after a frame passed validation and its place in the stream is noted.\<close>

definition ready :: "vad \<Rightarrow> PcmFrame \<Rightarrow> bool" where
  "ready v f \<longleftrightarrow>
     config_ok (va_config v) \<and>
     va_stream_id v = Some (fr_stream_id f) \<and> va_format v = Some (fr_format f) \<and>
     va_last_sequence v = Some (fr_sequence f) \<and> va_last_end_ns v = Some (end_ns f) \<and>
     frames_inv (fr_stream_id f) (fr_format f) (buffer v @ [f]) \<and>
     within_limits (va_config v) [f]"

lemma before_ready:
  "frame_ok f \<Longrightarrow> before g f \<or> g = f \<Longrightarrow> fr_sequence g \<le> fr_sequence f \<and> end_ns g \<le> end_ns f"
  using captured_le_end [of f] by (auto simp: before_def)

lemma stream_inv_ready:
  assumes "ready v f"
    and "va_stream_id v' = va_stream_id v" "va_format v' = va_format v"
    and "va_last_sequence v' = va_last_sequence v" "va_last_end_ns v' = va_last_end_ns v"
    and "suffix (buffer v') (buffer v @ [f])"
  shows "stream_inv v'"
proof -
  have fi: "frames_inv (fr_stream_id f) (fr_format f) (buffer v @ [f])" using assms(1) by (simp add: ready_def)
  have "before g f \<or> g = f" if "g \<in> set (buffer v')" for g
    using that assms(6) fi set_mono_suffix by (fastforce simp: frames_inv_snoc)
  moreover have "frame_ok f" using fi by (simp add: frames_inv_snoc)
  ultimately show ?thesis
    using assms frames_inv_suffix [OF fi assms(6)] before_ready
    by (auto simp: stream_inv_def ready_def)
qed

lemma clear_utterance_simps [simp]:
  "va_config (clear_utterance v) = va_config v" "va_stream_id (clear_utterance v) = va_stream_id v"
  "va_format (clear_utterance v) = va_format v" "va_history (clear_utterance v) = va_history v"
  "va_last_sequence (clear_utterance v) = va_last_sequence v"
  "va_last_end_ns (clear_utterance v) = va_last_end_ns v"
  "va_active_frames (clear_utterance v) = None" "va_utterance_id (clear_utterance v) = None"
  "va_history_bytes (clear_utterance v) = va_history_bytes v"
  "va_history_duration_ns (clear_utterance v) = va_history_duration_ns v"
  "va_candidate_count (clear_utterance v) = 0"
  by (simp_all add: clear_utterance_def reset_candidate_def)

lemma cand_ok_cleared [simp]: "cand_ok (clear_utterance v) []"
  by (simp add: cand_ok_def clear_utterance_def reset_candidate_def)

lemma idle_after_finish:
  assumes "active_core v fs ss" "config_ok (va_config v)"
  shows "idle_inv (clear_utterance v)" "buffer (clear_utterance v) = []"
proof -
  have "va_history v = []" "va_history_bytes v = 0" "va_history_duration_ns v = 0"
    using assms(1) by (auto simp: active_core_def)
  then show "idle_inv (clear_utterance v)" "buffer (clear_utterance v) = []"
    using config_okD [OF assms(2)] cand_ok_cleared [of v]
    by (auto simp: idle_inv_def idle_core_def history_ok_def within_limits_def buffer_def
        intro!: exI [of _ "[]"])
qed

lemma finish_only_ok:
  assumes "active_core v fs ss" "va_stream_id v = Some sid" "va_format v = Some fmt"
    "frames_inv sid fmt fs" "config_ok (va_config v)"
    "r = SILENCE \<Longrightarrow> vc_speech_end_frames (va_config v) \<le> va_silence_count v"
  shows "\<exists>e. finish_utterance v r = (Inr e, clear_utterance v) \<and> good_end (va_config v) e \<and>
    Some (se_utterance_id e) = va_utterance_id v \<and> idle_inv (clear_utterance v)"
proof -
  from finish_utterance_ok [OF assms(1-4)] obtain e where
    e: "finish_utterance v r = (Inr e, clear_utterance v)" "check_pcm_utterance (se_utterance e) = None"
      "ut_frames (se_utterance e) = fs" "se_reason e = r" "ut_end_reason (se_utterance e) = r"
      "se_utterance_id e = ut_utterance_id (se_utterance e)" "Some (se_utterance_id e) = va_utterance_id v"
    by blast
  have "suffix ss fs" "\<forall>f \<in> set ss. \<not> is_above f (vc_speech_end_threshold (va_config v))"
    "va_silence_count v = int (length ss)" "within_limits (va_config v) fs"
    using assms(1) by (auto simp: active_core_def suffix_def)
  then have "good_end (va_config v) e"
    using e assms(6) by (auto simp: good_end_def ut_byte_count_def ut_audio_duration_ns_def within_limits_def)
  then show ?thesis using e idle_after_finish [OF assms(1,5)] by blast
qed

text \<open>The candidate run after one more idle frame.\<close>

definition next_cs :: "vad \<Rightarrow> PcmFrame list \<Rightarrow> PcmFrame \<Rightarrow> PcmFrame list" where
  "next_cs v cs f =
     (if is_above f (vc_speech_start_threshold (va_config v)) then
        (if within_limits (va_config v) (cs @ [f]) then cs @ [f] else [f])
      else [])"

lemma suffix_next_cs: "suffix (next_cs v cs f) (cs @ [f])"
  by (auto simp: next_cs_def suffix_def)

lemma next_cs_limits:
  assumes "within_limits (va_config v) [f]" "config_ok (va_config v)"
    "int (length cs) < vc_speech_start_frames (va_config v)"
  shows "int (length (next_cs v cs f)) \<le> vc_pre_roll_frames (va_config v) + vc_speech_start_frames (va_config v)"
    "within_limits (va_config v) (next_cs v cs f)"
  using assms config_okD [OF assms(2)] by (auto simp: next_cs_def within_limits_def)

lemma count_candidate_ok:
  assumes "cand_ok v cs"
  shows "cand_ok (count_candidate v f) (next_cs v cs f)"
  using assms
  by (auto simp: count_candidate_def next_cs_def cand_ok_def within_limits_def reset_candidate_def Let_def
      not_le split: list.splits)

lemma count_candidate_frame [simp]:
  "va_config (count_candidate v f) = va_config v" "va_stream_id (count_candidate v f) = va_stream_id v"
  "va_format (count_candidate v f) = va_format v" "va_history (count_candidate v f) = va_history v"
  "va_last_sequence (count_candidate v f) = va_last_sequence v"
  "va_last_end_ns (count_candidate v f) = va_last_end_ns v"
  "va_active_frames (count_candidate v f) = va_active_frames v"
  "va_utterance_id (count_candidate v f) = va_utterance_id v"
  "va_history_bytes (count_candidate v f) = va_history_bytes v"
  "va_history_duration_ns (count_candidate v f) = va_history_duration_ns v"
  by (simp_all add: count_candidate_def reset_candidate_def Let_def)

lemma remember_idle_frame_ok:
  assumes idle: "idle_core v cs" and rdy: "ready v f"
    and cnt: "va_candidate_count v < vc_speech_start_frames (va_config v)"
  obtains h where "remember_idle_frame v f =
      Inr (v\<lparr>va_history := h, va_history_bytes := sum_bytes h, va_history_duration_ns := sum_duration h\<rparr>)"
    "suffix h (va_history v @ [f])" "suffix (next_cs v cs f) h" "within_limits (va_config v) h"
    "int (length h) \<le> vc_pre_roll_frames (va_config v) + vc_speech_start_frames (va_config v)"
proof -
  let ?c = "va_config v" and ?n = "next_cs v cs f"
  have lim: "within_limits ?c [f]" and cok: "config_ok ?c" using rdy by (auto simp: ready_def)
  have len: "int (length cs) < vc_speech_start_frames ?c"
    using idle cnt by (simp add: idle_core_def cand_ok_def)
  note nl = next_cs_limits [OF lim cok len]
  have "suffix ?n (va_history v @ [f])"
    using suffix_next_cs [of v cs f] idle
    by (metis idle_core_def same_suffix_suffix suffix_order.trans suffix_appendI append.assoc suffix_def)
  then obtain pre where pre: "va_history v @ [f] = pre @ ?n" by (auto simp: suffix_def)
  have sums: "va_history_bytes v + fr_len f = sum_bytes (pre @ ?n)"
    "va_history_duration_ns v + duration_ns f = sum_duration (pre @ ?n)"
    using idle by (simp_all add: idle_core_def history_ok_def flip: pre)
  from trim_history_keeps [OF nl(1) nl(2) [unfolded within_limits_def, THEN conjunct1]
      nl(2) [unfolded within_limits_def, THEN conjunct2], of pre]
  obtain pre' where p: "trim_history (vc_pre_roll_frames ?c + vc_speech_start_frames ?c)
      (vc_max_utterance_bytes ?c) (max_utterance_duration_ns ?c)
      (pre @ ?n) (sum_bytes (pre @ ?n)) (sum_duration (pre @ ?n)) =
      Inr (pre' @ ?n, sum_bytes (pre' @ ?n), sum_duration (pre' @ ?n))" "suffix pre' pre"
    "int (length (pre' @ ?n)) \<le> vc_pre_roll_frames ?c + vc_speech_start_frames ?c"
    "within_limits ?c (pre' @ ?n)"
    by (auto simp: within_limits_def)
  show thesis
  proof (rule that [of "pre' @ ?n"])
    show "remember_idle_frame v f = Inr (v\<lparr>va_history := pre' @ ?n,
        va_history_bytes := sum_bytes (pre' @ ?n), va_history_duration_ns := sum_duration (pre' @ ?n)\<rparr>)"
      using p(1) by (simp only: remember_idle_frame_def pre sums sum.case prod.case)
    show "suffix (pre' @ ?n) (va_history v @ [f])" using p(2) by (auto simp: pre suffix_def)
    show "suffix ?n (pre' @ ?n)" by (simp add: suffix_def)
  qed (use p in auto)
qed

lemma start_utterance_ok:
  assumes cand: "cand_ok v (f0 # mid)" and suf: "suffix (f0 # mid) (va_history v)" and "history_ok v"
    "va_stream_id v = Some sid"
  shows "case start_utterance name_uuid v f of
      (Inl _, _) \<Rightarrow> False
    | (Inr s, v') \<Rightarrow> active_core v' (va_history v) [] \<and>
        va_utterance_id v' = Some (ss_utterance_id s) \<and> va_config v' = va_config v \<and>
        va_stream_id v' = va_stream_id v \<and> va_format v' = va_format v \<and>
        va_last_sequence v' = va_last_sequence v \<and> va_last_end_ns v' = va_last_end_ns v \<and>
        ss_stream_id s = sid \<and> ss_at_ns s = fr_captured_at_ns f0 \<and>
        ss_trigger_sequence s = fr_sequence f \<and> va_silence_count v' = 0"
proof -
  have "\<exists>pre g mid'. va_history v = pre @ g # mid' @ [] \<and> fr_captured_at_ns f0 = fr_captured_at_ns g"
    using suf by (auto simp: suffix_def)
  moreover have "va_candidate_start_ns v = Some (fr_captured_at_ns f0)"
    "va_candidate_start_sequence v = Some (fr_sequence f0)"
    using cand by (simp_all add: cand_ok_def)
  ultimately show ?thesis
    using assms(3,4)
    by (simp add: start_utterance_def history_ok_def active_core_def cand_ok_def reset_candidate_def Let_def)
qed

lemma process_idle_ok:
  assumes idle: "idle_inv v" and rdy: "ready v f"
  shows "\<exists>evs v'. process_idle name_uuid v f = (Inr evs, v') \<and> vad_inv v' \<and> va_config v' = va_config v \<and>
    follows None evs (va_utterance_id v') \<and> good_events (va_config v) evs"
proof -
  let ?c = "va_config v"
  from idle obtain cs where core: "idle_core v cs" and cnt: "va_candidate_count v < vc_speech_start_frames ?c"
    by (auto simp: idle_inv_def)
  from remember_idle_frame_ok [OF core rdy cnt] obtain h where
    rem: "remember_idle_frame v f =
      Inr (v\<lparr>va_history := h, va_history_bytes := sum_bytes h, va_history_duration_ns := sum_duration h\<rparr>)"
    and suf: "suffix h (va_history v @ [f])" "suffix (next_cs v cs f) h" "within_limits ?c h"
    and len: "int (length h) \<le> vc_pre_roll_frames ?c + vc_speech_start_frames ?c" .
  define v1 where "v1 = v\<lparr>va_history := h, va_history_bytes := sum_bytes h, va_history_duration_ns := sum_duration h\<rparr>"
  define v2 where "v2 = count_candidate v1 f"
  have v1: "va_active_frames v1 = None" "va_utterance_id v1 = None" "va_config v1 = ?c" "cand_ok v1 cs" "va_history v1 = h"
    "va_history_bytes v1 = sum_bytes h" "va_history_duration_ns v1 = sum_duration h"
    using core by (auto simp: v1_def idle_core_def cand_ok_def)
  have ncs: "next_cs v1 cs f = next_cs v cs f" by (simp add: next_cs_def v1)
  have c2: "cand_ok v2 (next_cs v cs f)"
    unfolding v2_def using count_candidate_ok [OF v1(4), of f] by (simp only: ncs)
  have idle2: "idle_core v2 (next_cs v cs f)"
    using c2 suf len v1 by (auto simp: idle_core_def history_ok_def v2_def)
  have hist2: "history_ok v2" "va_history v2 = h" "va_config v2 = ?c"
    using idle2 v1 by (auto simp: idle_core_def v2_def)
  have keep: "va_stream_id v2 = va_stream_id v" "va_format v2 = va_format v"
    "va_last_sequence v2 = va_last_sequence v" "va_last_end_ns v2 = va_last_end_ns v"
    by (simp_all add: v2_def v1_def)
  have cok: "config_ok ?c" using rdy by (simp add: ready_def)
  have buf: "buffer v = va_history v" using core by (simp add: buffer_def idle_core_def)
  have eq: "process_idle name_uuid v f = (if va_candidate_count v2 < vc_speech_start_frames ?c then (Inr [], v2)
      else (case start_utterance name_uuid v2 f of
         (Inl e, v3) \<Rightarrow> (Inl e, v3)
       | (Inr started, v3) \<Rightarrow>
           (case reached_limit_reason v3 of
              None \<Rightarrow> (Inr [Speech_started started], v3)
            | Some r \<Rightarrow>
                (case finish_utterance v3 r of
                   (Inl e, v4) \<Rightarrow> (Inl e, v4)
                 | (Inr ended, v4) \<Rightarrow> (Inr [Speech_started started, Speech_ended ended], v4)))))"
    by (simp add: process_idle_def rem Let_def flip: v1_def v2_def) (simp add: hist2)
  show ?thesis
  proof (cases "va_candidate_count v2 < vc_speech_start_frames ?c")
    case True
    have "stream_inv v2"
      using rdy keep suf(1) buf idle2 hist2(2)
      by (intro stream_inv_ready [of v f]) (simp_all add: buffer_def [of v2] idle_core_def)
    then have "vad_inv v2"
      using cok idle2 True hist2(3) by (auto simp: vad_inv_def speech_active_def idle_inv_def idle_core_def)
    then show ?thesis
      using True eq idle2 hist2(3) by (simp add: good_events_def idle_core_def)
  next
    case False
    then have "next_cs v cs f \<noteq> []"
      using c2 config_okD(1) [OF cok] by (auto simp: cand_ok_def)
    then obtain f0 mid where n: "next_cs v cs f = f0 # mid" by (cases "next_cs v cs f") auto
    have "va_stream_id v2 = Some (fr_stream_id f)" using keep(1) rdy by (simp add: ready_def)
    from start_utterance_ok [OF c2 [unfolded n] _ hist2(1) this, where name_uuid = name_uuid and f = f] suf(2) n hist2(2)
    obtain s v3 where st: "start_utterance name_uuid v2 f = (Inr s, v3)" "active_core v3 h []"
      "va_utterance_id v3 = Some (ss_utterance_id s)" "va_config v3 = ?c"
      "va_stream_id v3 = va_stream_id v" "va_format v3 = va_format v"
      "va_last_sequence v3 = va_last_sequence v" "va_last_end_ns v3 = va_last_end_ns v" "va_silence_count v3 = 0"
      by (auto simp: hist2 keep split: prod.splits sum.splits)
    have act: "va_active_frames v3 = Some h" using st(2) by (simp add: active_core_def)
    have sid: "va_stream_id v3 = Some (fr_stream_id f)" "va_format v3 = Some (fr_format f)"
      using rdy st by (auto simp: ready_def)
    have fi: "frames_inv (fr_stream_id f) (fr_format f) h"
      using rdy suf(1) buf by (auto simp: ready_def intro: frames_inv_suffix)
    show ?thesis
    proof (cases "reached_limit_reason v3")
      case None
      have "stream_inv v3"
        using rdy st suf(1) buf act by (intro stream_inv_ready [of v f]) (simp_all add: buffer_def [of v3])
      then have "vad_inv v3"
        using cok st None act config_okD(2) [OF cok]
        by (auto simp: vad_inv_def speech_active_def active_inv_def)
      then show ?thesis using False eq st None by (simp add: good_events_def)
    next
      case (Some r)
      have "r \<noteq> SILENCE" using Some by (auto simp: reached_limit_reason_def split: if_splits)
      then obtain e where e: "finish_utterance v3 r = (Inr e, clear_utterance v3)" "good_end ?c e"
        "Some (se_utterance_id e) = va_utterance_id v3" "idle_inv (clear_utterance v3)"
        using finish_only_ok [OF st(2) sid fi, of r] cok st(4) by auto
      have "stream_inv (clear_utterance v3)"
        using rdy st idle_after_finish(2) [OF st(2)] cok by (intro stream_inv_ready [of v f]) simp_all
      then have "vad_inv (clear_utterance v3)"
        using cok st(4) e(4) by (simp add: vad_inv_def speech_active_def)
      then show ?thesis using False eq st Some e by (simp add: good_events_def)
    qed
  qed
qed

lemma append_active_frame [simp]:
  "va_config (append_active v fs f) = va_config v" "va_stream_id (append_active v fs f) = va_stream_id v"
  "va_format (append_active v fs f) = va_format v"
  "va_last_sequence (append_active v fs f) = va_last_sequence v"
  "va_last_end_ns (append_active v fs f) = va_last_end_ns v"
  "va_utterance_id (append_active v fs f) = va_utterance_id v"
  "va_active_frames (append_active v fs f) = Some (fs @ [f])"
  by (simp_all add: append_active_def Let_def)

lemma append_active_ok:
  assumes "active_core v fs ss" "within_limits (va_config v) (fs @ [f])"
  shows "active_core (append_active v fs f) (fs @ [f])
    (if is_above f (vc_speech_end_threshold (va_config v)) then [] else ss @ [f])"
proof -
  from assms(1) obtain pre f0 mid where fs: "fs = pre @ f0 # mid @ ss"
    and st: "va_speech_started_at_ns v = Some (fr_captured_at_ns f0)" by (auto simp: active_core_def)
  have "\<exists>pre g mid'. fs @ [f] = pre @ g # mid' @ tl \<and> Some (fr_captured_at_ns f0) = Some (fr_captured_at_ns g)"
    if "tl = [] \<or> tl = ss @ [f]" for tl
    using that
  proof
    assume "tl = []"
    then show ?thesis
      by (intro exI [of _ pre] exI [of _ f0] exI [of _ "mid @ ss @ [f]"]) (simp add: fs)
  next
    assume "tl = ss @ [f]"
    then show ?thesis by (intro exI [of _ pre] exI [of _ f0] exI [of _ mid]) (simp add: fs)
  qed
  from this [of "[]"] this [of "ss @ [f]"] show ?thesis
    using assms st
    by (auto simp: active_core_def append_active_def cand_ok_def Let_def split: list.splits)
qed

lemma process_active_ok:
  assumes act: "active_inv v" and rdy: "ready v f"
  shows "\<exists>evs v'. process_active name_uuid v f = (Inr evs, v') \<and> vad_inv v' \<and> va_config v' = va_config v \<and>
    follows (va_utterance_id v) evs (va_utterance_id v') \<and> good_events (va_config v) evs"
proof -
  let ?c = "va_config v"
  from act obtain fs ss where core: "active_core v fs ss" by (auto simp: active_inv_def)
  then have fs: "va_active_frames v = Some fs" "va_active_bytes v = sum_bytes fs"
    "va_active_duration_ns v = sum_duration fs" by (auto simp: active_core_def)
  then have buf: "buffer v = fs" by (simp add: buffer_def)
  have cok: "config_ok ?c" and sid: "va_stream_id v = Some (fr_stream_id f)" "va_format v = Some (fr_format f)"
    and fi: "frames_inv (fr_stream_id f) (fr_format f) (fs @ [f])"
    using rdy by (auto simp: ready_def buf)
  have fi': "frames_inv (fr_stream_id f) (fr_format f) fs" using fi by (simp add: frames_inv_snoc)
  have idle: ?thesis if pa: "process_active name_uuid v f = finish_then_idle name_uuid v r f" and r: "r \<noteq> SILENCE" for r
  proof -
    obtain e where e: "finish_utterance v r = (Inr e, clear_utterance v)" "good_end ?c e"
      "Some (se_utterance_id e) = va_utterance_id v" "idle_inv (clear_utterance v)"
      using finish_only_ok [OF core sid fi' cok] r by blast
    have "ready (clear_utterance v) f"
      using rdy idle_after_finish(2) [OF core cok] fi
      by (auto simp: ready_def buf frames_inv_def sorted_wrt_append)
    from process_idle_ok [OF e(4) this] obtain evs v' where
      "process_idle name_uuid (clear_utterance v) f = (Inr evs, v')" "vad_inv v'" "va_config v' = ?c"
      "follows None evs (va_utterance_id v')" "good_events ?c evs" by fastforce
    then show ?thesis
      using e by (simp add: pa finish_then_idle_def good_events_def flip: e(3))
  qed
  show ?thesis
  proof (cases "within_limits ?c (fs @ [f])")
    case False
    then show ?thesis
      using idle [of MAX_BYTES] idle [of MAX_DURATION] fs
      by (auto simp: process_active_def within_limits_def not_le)
  next
    case True
    let ?v = "append_active v fs f"
    note core' = append_active_ok [OF core True]
    let ?ss = "if is_above f (vc_speech_end_threshold ?c) then [] else ss @ [f]"
    have pa: "process_active name_uuid v f =
        (case reached_limit_reason ?v of
           Some r \<Rightarrow> finish_only ?v r
         | None \<Rightarrow> if vc_speech_end_frames ?c \<le> va_silence_count ?v then finish_only ?v SILENCE else (Inr [], ?v))"
      using True fs by (simp add: process_active_def within_limits_def Let_def)
    have "buffer ?v = buffer v @ [f]" by (simp add: buffer_def fs)
    then have stream1: "stream_inv ?v"
      by (intro stream_inv_ready [OF rdy]) simp_all
    have "buffer (clear_utterance ?v) = []" using idle_after_finish(2) [OF core'] cok by simp
    then have stream2: "stream_inv (clear_utterance ?v)"
      by (intro stream_inv_ready [OF rdy]) simp_all
    note stream = stream1 stream2
    have fin: "\<exists>evs v'. finish_only ?v r = (Inr evs, v') \<and> vad_inv v' \<and> va_config v' = ?c \<and>
        follows (va_utterance_id v) evs (va_utterance_id v') \<and> good_events ?c evs"
      if sil: "r = SILENCE \<Longrightarrow> vc_speech_end_frames ?c \<le> va_silence_count ?v" for r
    proof -
      obtain e where e: "finish_utterance ?v r = (Inr e, clear_utterance ?v)" "good_end ?c e"
        "Some (se_utterance_id e) = va_utterance_id v" "idle_inv (clear_utterance ?v)"
        using finish_only_ok [OF core' _ _ fi, of r, simplified, OF sid cok] sil by blast
      then have "vad_inv (clear_utterance ?v)"
        using cok stream by (simp add: vad_inv_def speech_active_def)
      then show ?thesis using e by (simp add: finish_only_def good_events_def flip: e(3))
    qed
    show ?thesis
    proof (cases "reached_limit_reason ?v")
      case None
      have "vad_inv ?v" if "\<not> vc_speech_end_frames ?c \<le> va_silence_count ?v"
        using that None cok stream core' by (auto simp: vad_inv_def speech_active_def active_inv_def)
      then show ?thesis using pa None fin [of SILENCE] by (auto simp: good_events_def)
    next
      case (Some r)
      then have "r \<noteq> SILENCE" by (auto simp: reached_limit_reason_def split: if_splits)
      then show ?thesis using pa Some fin [of r] by auto
    qed
  qed
qed

text \<open>When validation refuses a frame, and what it leaves behind.\<close>

definition frame_refused :: "vad \<Rightarrow> PcmFrame \<Rightarrow> bool" where
  "frame_refused v f \<longleftrightarrow>
     \<not> within_limits (va_config v) [f] \<or>
     (\<exists>sid. va_stream_id v = Some sid \<and>
        (fr_stream_id f \<noteq> sid \<or> va_format v \<noteq> Some (fr_format f) \<or>
         (\<exists>n. va_last_sequence v = Some n \<and> fr_sequence f \<le> n) \<or>
         (\<exists>t. va_last_end_ns v = Some t \<and> fr_captured_at_ns f < t)))"

lemma validate_refuses:
  assumes "stream_inv v" "frame_refused v f"
  shows "\<exists>e. validate_stream_frame v f = (Inl e, v)"
  using assms
  by (auto simp: frame_refused_def within_limits_def validate_stream_frame_def stream_inv_def not_le
      split: option.splits)

lemma buffer_note [simp]:
  "buffer (v\<lparr>va_stream_id := a, va_format := b, va_last_sequence := n, va_last_end_ns := t\<rparr>) = buffer v"
  by (simp add: buffer_def split: option.splits)

lemma validate_accepts:
  assumes inv: "vad_inv v" and nr: "\<not> frame_refused v f" and ok: "frame_ok f"
  shows "\<exists>v1. validate_stream_frame v f = (Inr (), v1) \<and>
    v1 = v\<lparr>va_stream_id := Some (fr_stream_id f), va_format := Some (fr_format f)\<rparr> \<and>
    ready (v1\<lparr>va_last_sequence := Some (fr_sequence f), va_last_end_ns := Some (end_ns f)\<rparr>) f"
proof (cases "va_stream_id v")
  case None
  with inv have "va_last_sequence v = None" "va_last_end_ns v = None" "buffer v = []"
    by (auto simp: vad_inv_def stream_inv_def)
  then show ?thesis
    using None inv nr ok
    by (simp add: validate_stream_frame_def frame_refused_def within_limits_def ready_def vad_inv_def
        frames_inv_def)
next
  case (Some sid)
  with inv obtain fmt n t where st: "va_format v = Some fmt" "va_last_sequence v = Some n"
    "va_last_end_ns v = Some t" "frames_inv sid fmt (buffer v)"
    "\<forall>g \<in> set (buffer v). fr_sequence g \<le> n \<and> end_ns g \<le> t"
    by (auto simp: vad_inv_def stream_inv_def)
  have nr': "fr_stream_id f = sid" "fmt = fr_format f" "n < fr_sequence f" "t \<le> fr_captured_at_ns f"
    "within_limits (va_config v) [f]"
    using nr Some st by (auto simp: frame_refused_def not_le)
  have "frames_inv sid fmt (buffer v @ [f])"
    using st(4,5) nr' ok by (auto simp: frames_inv_snoc before_def)
  then have "ready (v\<lparr>va_stream_id := Some (fr_stream_id f), va_format := Some (fr_format f),
      va_last_sequence := Some (fr_sequence f), va_last_end_ns := Some (end_ns f)\<rparr>) f"
    using inv nr' by (simp add: ready_def vad_inv_def)
  moreover have "v = v\<lparr>va_stream_id := Some (fr_stream_id f), va_format := Some (fr_format f)\<rparr>"
    using Some st(1) nr' by (simp add: vad.equality)
  moreover have "validate_stream_frame v f = (Inr (), v)"
    using Some st nr' by (simp add: validate_stream_frame_def within_limits_def)
  ultimately show ?thesis by auto
qed

section \<open>Streams of frames\<close>

lemma vad_process_ok:
  assumes inv: "vad_inv v" and ok: "frame_ok f" and nr: "\<not> frame_refused v f"
  shows "\<exists>evs v'. vad_process name_uuid v f = (Inr evs, v') \<and> vad_inv v' \<and> va_config v' = va_config v \<and>
    follows (va_utterance_id v) evs (va_utterance_id v') \<and> good_events (va_config v) evs"
proof -
  let ?v1 = "v\<lparr>va_stream_id := Some (fr_stream_id f), va_format := Some (fr_format f)\<rparr>"
  let ?v2 = "?v1\<lparr>va_last_sequence := Some (fr_sequence f), va_last_end_ns := Some (end_ns f)\<rparr>"
  have val: "validate_stream_frame v f = (Inr (), ?v1)" and rdy: "ready ?v2 f"
    using validate_accepts [OF inv nr ok] by auto
  have sa: "speech_active ?v2 = speech_active v" by (simp add: speech_active_def)
  have eq: "vad_process name_uuid v f =
      (if speech_active v then process_active name_uuid ?v2 f else process_idle name_uuid ?v2 f)"
    by (simp add: vad_process_def val sa Let_def)
  show ?thesis
  proof (cases "speech_active v")
    case True
    moreover have "active_core ?v2 = active_core v" "reached_limit_reason ?v2 = reached_limit_reason v"
      by (simp_all add: fun_eq_iff active_core_def cand_ok_def reached_limit_reason_def)
    ultimately have "active_inv ?v2" using inv by (simp add: vad_inv_def active_inv_def)
    from process_active_ok [OF this rdy, of name_uuid] show ?thesis using True by (simp add: eq)
  next
    case False
    then have idle: "idle_inv v" using inv by (simp add: vad_inv_def)
    then have "va_utterance_id v = None" by (auto simp: idle_inv_def idle_core_def)
    moreover have "idle_inv ?v2"
      using idle by (auto simp: idle_inv_def idle_core_def history_ok_def cand_ok_def)
    from process_idle_ok [OF this rdy, of name_uuid] have
      "\<exists>evs v'. process_idle name_uuid ?v2 f = (Inr evs, v') \<and> vad_inv v' \<and> va_config v' = va_config v \<and>
        follows None evs (va_utterance_id v') \<and> good_events (va_config v) evs" by simp
    ultimately show ?thesis using False by (simp add: eq)
  qed
qed

lemma vad_process_refuses:
  assumes "vad_inv v" "frame_refused v f"
  shows "\<exists>e. vad_process name_uuid v f = (Inl e, v)"
  using validate_refuses [OF _ assms(2)] assms(1) by (auto simp: vad_process_def vad_inv_def)

lemma vad_finish_ok:
  assumes inv: "vad_inv v"
  shows "\<exists>r v'. vad_finish_stream v = (Inr r, v') \<and> vad_inv v' \<and> va_config v' = va_config v \<and>
    va_utterance_id v' = None \<and> buffered_bytes v' = 0 \<and> va_stream_id v' = None \<and>
    (case r of None \<Rightarrow> va_utterance_id v = None
     | Some e \<Rightarrow> va_utterance_id v = Some (se_utterance_id e) \<and> good_end (va_config v) e)"
proof -
  have cok: "config_ok (va_config v)" using inv by (simp add: vad_inv_def)
  have cleared: "vad_inv (clear_stream w) \<and> va_config (clear_stream w) = va_config w \<and>
      va_utterance_id (clear_stream w) = None \<and> buffered_bytes (clear_stream w) = 0 \<and>
      va_stream_id (clear_stream w) = None" if "config_ok (va_config w)" for w
    using that config_okD [OF that]
    by (auto simp: vad_inv_def stream_inv_def buffer_def speech_active_def idle_inv_def idle_core_def
        history_ok_def cand_ok_def within_limits_def clear_stream_def clear_utterance_def
        reset_candidate_def buffered_bytes_def)
  show ?thesis
  proof (cases "speech_active v")
    case True
    then obtain fs ss where core: "active_core v fs ss"
      using inv by (auto simp: vad_inv_def active_inv_def)
    then have buf: "buffer v = fs" by (simp add: buffer_def active_core_def)
    obtain sid fmt where st: "va_stream_id v = Some sid" "va_format v = Some fmt" "frames_inv sid fmt fs"
    proof (cases "va_stream_id v")
      case None
      then have "fs = []" using inv buf by (simp add: vad_inv_def stream_inv_def)
      then show ?thesis using core by (simp add: active_core_def)
    next
      case (Some sid)
      then show ?thesis using that inv buf by (auto simp: vad_inv_def stream_inv_def)
    qed
    from finish_only_ok [OF core st cok, of STREAM_ENDED] obtain e where
      "finish_utterance v STREAM_ENDED = (Inr e, clear_utterance v)" "good_end (va_config v) e"
      "Some (se_utterance_id e) = va_utterance_id v" by auto
    then show ?thesis
      using True cleared [of "clear_utterance v"] cok by (simp add: vad_finish_stream_def)
  next
    case False
    then have "va_utterance_id v = None" using inv by (auto simp: vad_inv_def idle_inv_def idle_core_def)
    then show ?thesis using False cleared [OF cok] by (simp add: vad_finish_stream_def)
  qed
qed

lemma buffered_bytes_bounds:
  assumes "vad_inv v"
  shows "0 \<le> buffered_bytes v \<and> buffered_bytes v \<le> vc_max_utterance_bytes (va_config v)"
  using assms
  by (auto simp: vad_inv_def buffered_bytes_def active_inv_def active_core_def idle_inv_def idle_core_def
      history_ok_def within_limits_def split: if_splits)

text \<open>
  The detector as its owner drives it: frames (values that passed their constructor's check)
  and ends of stream, with the events that come out.
\<close>

datatype vad_op = Process PcmFrame | Finish_stream

definition vad_step :: "(uuid \<Rightarrow> pystr \<Rightarrow> uuid) \<Rightarrow> vad \<Rightarrow> vad_op \<Rightarrow> VadEvent list \<times> vad" where
  "vad_step name_uuid v p =
     (case p of
        Process f \<Rightarrow>
          if frame_ok f then
            (case vad_process name_uuid v f of (Inl _, v') \<Rightarrow> ([], v') | (Inr evs, v') \<Rightarrow> (evs, v'))
          else ([], v)
      | Finish_stream \<Rightarrow>
          (case vad_finish_stream v of
             (Inr (Some e), v') \<Rightarrow> ([Speech_ended e], v')
           | (_, v') \<Rightarrow> ([], v')))"

fun vad_events :: "(uuid \<Rightarrow> pystr \<Rightarrow> uuid) \<Rightarrow> vad \<Rightarrow> vad_op list \<Rightarrow> VadEvent list" where
  "vad_events name_uuid v [] = []"
| "vad_events name_uuid v (p # ps) =
     (let (evs, v') = vad_step name_uuid v p in evs @ vad_events name_uuid v' ps)"

definition vad_run :: "(uuid \<Rightarrow> pystr \<Rightarrow> uuid) \<Rightarrow> vad \<Rightarrow> vad_op list \<Rightarrow> vad" where
  "vad_run name_uuid v ps = foldl (\<lambda>v p. snd (vad_step name_uuid v p)) v ps"

lemma vad_step_ok:
  assumes "vad_inv v"
  shows "vad_inv (snd (vad_step name_uuid v p)) \<and> va_config (snd (vad_step name_uuid v p)) = va_config v \<and>
    follows (va_utterance_id v) (fst (vad_step name_uuid v p)) (va_utterance_id (snd (vad_step name_uuid v p))) \<and>
    good_events (va_config v) (fst (vad_step name_uuid v p))"
proof (cases p)
  case (Process f)
  then show ?thesis
    using assms vad_process_ok [OF assms, of f name_uuid] vad_process_refuses [OF assms, of f name_uuid]
    by (cases "frame_refused v f") (auto simp: vad_step_def good_events_def)
next
  case Finish_stream
  then show ?thesis
    using vad_finish_ok [OF assms] by (auto simp: vad_step_def good_events_def split: option.splits)
qed

interpretation vad: op_system "\<lambda>v p. snd (vad_step name_uuid v p)" vad_inv for name_uuid
  by unfold_locales (simp add: vad_step_ok)

lemma vad_run_eq: "vad_run name_uuid = vad.run name_uuid"
  by (intro ext) (simp add: vad_run_def vad.run_def)

lemma vad_run_config:
  assumes "vad_inv v"
  shows "va_config (vad_run name_uuid v ps) = va_config v"
  unfolding vad_run_eq
  by (rule vad.run_stable [where P = "\<lambda>w. va_config w = va_config v"]) (use assms in \<open>auto simp: vad_step_ok\<close>)

lemma vad_run_follows:
  assumes "vad_inv v"
  shows "follows (va_utterance_id v) (vad_events name_uuid v ps) (va_utterance_id (vad_run name_uuid v ps)) \<and>
    good_events (va_config v) (vad_events name_uuid v ps)"
  using assms
proof (induction ps arbitrary: v)
  case Nil
  then show ?case by (simp add: vad_run_def good_events_def)
next
  case (Cons p ps)
  note step = vad_step_ok [OF Cons.prems, of name_uuid p]
  then show ?case
    using Cons.IH [of "snd (vad_step name_uuid v p)"]
    by (auto simp: vad_run_def case_prod_beta Let_def good_events_def intro: follows_append)
qed

section \<open>Properties\<close>

text \<open>
  C17: on a detector reached from its constructor by any sequence of frames and ends of
  stream, processing a valid frame has exactly two outcomes. A frame that exceeds the
  configured bounds, changes stream or format, goes back in sequence or overlaps is refused
  and leaves the detector exactly as it was; every other frame returns events, so that none
  of the internal \<open>RuntimeError\<close>s, the pops from an empty history and the
  \<open>PcmUtterance\<close> checks ever fires.
\<close>

theorem vad_process_total:
  assumes "check_vad_config c = None" and "frame_ok f"
    and "v = vad_run name_uuid (vad_init (Some c)) ps"
  shows "if frame_refused v f then \<exists>e. vad_process name_uuid v f = (Inl e, v)
    else \<exists>evs v'. vad_process name_uuid v f = (Inr evs, v')"
proof -
  have "vad_inv v"
    unfolding assms(3) vad_run_eq
    by (intro vad.run_inv vad_init_inv) (simp add: config_ok_def vad_init_def assms(1))
  then show ?thesis
    using vad_process_ok [of v f name_uuid] vad_process_refuses [of v f name_uuid] assms(2) by auto
qed

definition loud_frame :: "int \<Rightarrow> PcmFrame" where
  "loud_frame n = \<lparr>fr_stream_id = 7, fr_sequence = n, fr_captured_at_ns = n * 1000000,
     fr_format = \<lparr>pf_sample_rate_hz = 8000, pf_channels = 1, pf_encoding = S16_LE\<rparr>,
     fr_pcm = [0, 64]\<rparr>"

definition small_config :: EnergyVadConfig where
  "small_config = \<lparr>vc_speech_start_threshold = 1200, vc_speech_end_threshold = 700,
     vc_speech_start_frames = 1, vc_speech_end_frames = 1, vc_pre_roll_frames = 1,
     vc_max_utterance_duration_ms = 1000, vc_max_utterance_bytes = 4\<rparr>"

lemma small_config_ok: "check_vad_config small_config = None"
  by (simp add: check_vad_config_def config_fields_def small_config_def)

lemma loud_frame_ok: "0 \<le> n \<Longrightarrow> frame_ok (loud_frame n)"
  by (simp add: frame_ok_def check_pcm_format_def check_pcm_frame_def loud_frame_def fr_len_def
      bytes_per_sample_frame_def)

theorem vad_process_total_witness:
  "(\<exists>evs v'. vad_process (\<lambda>s n. s + 1) (vad_init (Some small_config)) (loud_frame 3) = (Inr evs, v')) \<and>
   (let v = vad_run (\<lambda>s n. s + 1) (vad_init (Some small_config)) [Process (loud_frame 3)]
    in \<exists>e. vad_process (\<lambda>s n. s + 1) v (loud_frame 3) = (Inl e, v))"
proof -
  have "\<not> frame_refused (vad_init (Some small_config)) (loud_frame 3)"
    by (simp add: frame_refused_def vad_init_def within_limits_def small_config_def loud_frame_def fr_len_def
        duration_ns_def sample_frame_count_def bytes_per_sample_frame_def max_utterance_duration_ns_def)
  moreover have "frame_refused (vad_run (\<lambda>s n. s + 1) (vad_init (Some small_config)) [Process (loud_frame 3)]) (loud_frame 3)"
    using loud_frame_ok [of 3]
    by (simp add: vad_run_def vad_step_def vad_process_def validate_stream_frame_def vad_init_def
        small_config_def speech_active_def process_idle_def remember_idle_frame_def trim_history.simps
        count_candidate_def is_above_def sample_le_def start_utterance_def reached_limit_reason_def
        frame_refused_def within_limits_def loud_frame_def fr_len_def Let_def reset_candidate_def
        duration_ns_def sample_frame_count_def bytes_per_sample_frame_def max_utterance_duration_ns_def)
  ultimately show ?thesis
    using vad_process_total [OF small_config_ok loud_frame_ok refl, of 3 "\<lambda>s n. s + 1" "[]"]
      vad_process_total [OF small_config_ok loud_frame_ok refl, of 3 "\<lambda>s n. s + 1" "[Process (loud_frame 3)]"]
    by (simp add: vad_run_def Let_def)
qed

text \<open>
  C18: over any sequence of frames and ends of stream, the events alternate between the
  start of an utterance and its end, an end names the utterance last started, and what is
  open after the last event is the utterance the detector holds. Every end carries a
  well-formed utterance within the configured byte and duration bounds, and one that ended
  in silence has a tail of the configured number of quiet frames.
\<close>

theorem vad_events_alternate:
  assumes "check_vad_config c = None"
  shows "follows None (vad_events name_uuid (vad_init (Some c)) ps)
      (va_utterance_id (vad_run name_uuid (vad_init (Some c)) ps)) \<and>
    (\<forall>e. Speech_ended e \<in> set (vad_events name_uuid (vad_init (Some c)) ps) \<longrightarrow> good_end c e)"
  using vad_run_follows [OF vad_init_inv, of "Some c" name_uuid ps] assms
  by (simp add: vad_init_def config_ok_def good_events_def)

theorem vad_events_alternate_witness:
  "follows None (vad_events (\<lambda>s n. s + 1) (vad_init (Some small_config)) [Process (loud_frame 3), Finish_stream])
     (va_utterance_id (vad_run (\<lambda>s n. s + 1) (vad_init (Some small_config)) [Process (loud_frame 3), Finish_stream]))"
  using vad_events_alternate [OF small_config_ok] by blast

text \<open>
  whatever the input, the detector never holds more audio than the configured
  \<open>max_utterance_bytes\<close>, and its byte counter is the exact size of the frames it holds.
\<close>

theorem vad_memory_bounded:
  assumes "check_vad_config c = None" and "v = vad_run name_uuid (vad_init (Some c)) ps"
  shows "buffered_bytes v = sum_bytes (buffer v) \<and> 0 \<le> buffered_bytes v \<and>
    buffered_bytes v \<le> vc_max_utterance_bytes c"
proof -
  have init: "vad_inv (vad_init (Some c))"
    by (rule vad_init_inv) (simp add: config_ok_def vad_init_def assms(1))
  then have inv: "vad_inv v" unfolding assms(2) vad_run_eq by (rule vad.run_inv)
  moreover have "va_config v = c"
    using vad_run_config [OF init] by (simp add: assms(2) vad_init_def)
  moreover have "buffered_bytes v = sum_bytes (buffer v)"
    using inv by (auto simp: vad_inv_def buffered_bytes_def buffer_def active_inv_def active_core_def
        idle_inv_def idle_core_def history_ok_def split: if_splits)
  ultimately show ?thesis using buffered_bytes_bounds [of v] by auto
qed

theorem vad_memory_bounded_witness:
  "buffered_bytes (vad_run (\<lambda>s n. s + 1) (vad_init (Some small_config))
     [Process (loud_frame 1), Process (loud_frame 2), Process (loud_frame 5)]) \<le> 4"
  using vad_memory_bounded [OF small_config_ok refl,
      of "\<lambda>s n. s + 1" "[Process (loud_frame 1), Process (loud_frame 2), Process (loud_frame 5)]"]
  by (simp add: small_config_def)

end
