(* ===== verification/PyStruct.thy ===== *)
theory PyStruct
  imports PcmTypes
begin

text \<open>
  The part of Python's \<open>struct\<close> and \<open>int.to_bytes\<close> that the binary frame formats
  use: network byte order, unsigned integers of a fixed number of bytes and byte strings of a
  fixed length. The interface \<open>byte_codec\<close> states what an encoder and a decoder promise
  each other; both frame formats are instances of it.
\<close>

section \<open>Big-endian integers\<close>

fun be :: "nat \<Rightarrow> nat \<Rightarrow> bytes" where
  "be 0 v = []"
| "be (Suc n) v = be n (v div 256) @ [of_nat (v mod 256)]"

definition unbe :: "bytes \<Rightarrow> nat" where
  "unbe bs = foldl (\<lambda>a b. a * 256 + unat b) 0 bs"

lemma length_be [simp]: "length (be n v) = n"
  by (induction n arbitrary: v) simp_all

lemma unbe_snoc [simp]: "unbe (bs @ [b]) = unbe bs * 256 + unat b"
  by (simp add: unbe_def)

lemma unbe_Nil [simp]: "unbe [] = 0"
  by (simp add: unbe_def)

lemma unbe_be: "unbe (be n v) = v mod 256 ^ n"
proof (induction n arbitrary: v)
  case (Suc n)
  have "unat (of_nat (v mod 256) :: byte) = v mod 256" by (simp add: unat_of_nat)
  then show ?case
    using Suc.IH [of "v div 256"] by (simp add: mod_mult2_eq mult.commute)
qed simp

lemma unbe_be_small [simp]: "v < 256 ^ n \<Longrightarrow> unbe (be n v) = v"
  by (simp add: unbe_be)

lemma unbe_less: "unbe bs < 256 ^ length bs"
proof (induction bs rule: rev_induct)
  case (snoc b bs)
  have "unat b < 256" using unsigned_less [of b, where ?'a = nat] by simp
  then show ?case using snoc.IH by simp
qed simp

lemma be_unbe [simp]: "be (length bs) (unbe bs) = bs"
proof (induction bs rule: rev_induct)
  case (snoc b bs)
  have "unat b < 256" using unsigned_less [of b, where ?'a = nat] by simp
  then show ?case using snoc.IH by simp
qed simp

text \<open>\<open>UUID.bytes\<close> and \<open>UUID(bytes=...)\<close>.\<close>

definition uuid_bytes :: "uuid \<Rightarrow> bytes" where
  "uuid_bytes u = be 16 (unat u)"

definition uuid_of_bytes :: "bytes \<Rightarrow> uuid" where
  "uuid_of_bytes bs = of_nat (unbe bs)"

lemma length_uuid_bytes [simp]: "length (uuid_bytes u) = 16"
  by (simp add: uuid_bytes_def)

lemma uuid_of_uuid_bytes [simp]: "uuid_of_bytes (uuid_bytes u) = u"
  using unsigned_less [of u, where ?'a = nat] by (simp add: uuid_bytes_def uuid_of_bytes_def)

lemma uuid_bytes_of_bytes [simp]: "length bs = 16 \<Longrightarrow> uuid_bytes (uuid_of_bytes bs) = bs"
proof -
  assume len: "length bs = 16"
  have "unat (of_nat (unbe bs) :: uuid) = unbe bs"
    using unbe_less [of bs] len by (simp add: unat_of_nat)
  then show ?thesis using be_unbe [of bs] len by (simp add: uuid_bytes_def uuid_of_bytes_def)
qed

section \<open>Packing\<close>

text \<open>Format items: \<open>S n\<close> is \<^verbatim>\<open>ns\<close>, \<open>U n\<close> an unsigned integer of \<open>n\<close> bytes (B, H, I, Q).\<close>

datatype fmt = S nat | U nat

datatype fval = VB bytes | VU int

fun fmt_size :: "fmt list \<Rightarrow> nat" where
  "fmt_size [] = 0"
| "fmt_size (S n # fs) = n + fmt_size fs"
| "fmt_size (U n # fs) = n + fmt_size fs"

text \<open>
  \<open>Struct.pack\<close>: \<open>None\<close> is \<open>struct.error\<close> (an integer out of range, a value of the
  wrong kind or number). A byte string is cut or padded with zeros to its length.
\<close>

fun pack :: "fmt list \<Rightarrow> fval list \<Rightarrow> bytes option" where
  "pack [] [] = Some []"
| "pack (S n # fs) (VB b # vs) = map_option ((@) (take n (b @ replicate n 0))) (pack fs vs)"
| "pack (U n # fs) (VU v # vs) =
     (if 0 \<le> v \<and> v < 256 ^ n then map_option ((@) (be n (nat v))) (pack fs vs) else None)"
| "pack _ _ = None"

fun unpack :: "fmt list \<Rightarrow> bytes \<Rightarrow> fval list" where
  "unpack [] bs = []"
| "unpack (S n # fs) bs = VB (take n bs) # unpack fs (drop n bs)"
| "unpack (U n # fs) bs = VU (int (unbe (take n bs))) # unpack fs (drop n bs)"

fun typed :: "fmt \<Rightarrow> fval \<Rightarrow> bool" where
  "typed (S n) (VB b) \<longleftrightarrow> length b = n"
| "typed (U n) (VU v) \<longleftrightarrow> 0 \<le> v \<and> v < 256 ^ n"
| "typed _ _ \<longleftrightarrow> False"

lemma nat_less_pow: "0 \<le> v \<Longrightarrow> v < 256 ^ n \<Longrightarrow> nat v < 256 ^ n"
  by (simp add: nat_less_iff)

lemma pack_unpack:
  assumes "list_all2 typed fs vs"
  shows "\<exists>h. pack fs vs = Some h \<and> length h = fmt_size fs \<and> unpack fs (h @ rest) = vs"
  using assms
proof (induction fs vs rule: list_all2_induct)
  case (Cons f fs v vs)
  then show ?case
    by (cases "(f, v)" rule: typed.cases) (auto simp: nat_less_pow)
qed simp

lemma unpack_pack:
  assumes "fmt_size fs \<le> length bs"
  shows "pack fs (unpack fs bs) = Some (take (fmt_size fs) bs) \<and> list_all2 typed fs (unpack fs bs)"
  using assms
proof (induction fs bs rule: unpack.induct)
  case (2 n fs bs)
  then show ?case by (simp add: take_add)
next
  case (3 n fs bs)
  have "unbe (take n bs) < 256 ^ n" using unbe_less [of "take n bs"] 3(2) by (simp add: min_absorb2)
  moreover from this have "int (unbe (take n bs)) < 256 ^ n"
    by (metis of_nat_less_iff of_nat_numeral of_nat_power)
  moreover have "be n (unbe (take n bs)) = take n bs"
    using be_unbe [of "take n bs"] 3(2) by (simp add: min_absorb2)
  ultimately show ?case using 3 by (simp add: take_add)
qed simp

lemma pack_typed:
  assumes "pack fs vs = Some h" "list_all (\<lambda>(f, v). case (f, v) of (S n, VB b) \<Rightarrow> length b = n | _ \<Rightarrow> True) (zip fs vs)"
  shows "list_all2 typed fs vs"
  using assms
  by (induction fs vs arbitrary: h rule: pack.induct) (auto split: if_splits)

section \<open>Codecs\<close>

text \<open>
  What an encoder and a decoder promise each other: the decoder accepts exactly the packets
  that the encoder makes of valid values, and gives the value back.
\<close>

locale byte_codec =
  fixes encode :: "'v \<Rightarrow> bytes option"
    and decode :: "bytes \<Rightarrow> 'e + 'v"
    and valid :: "'v \<Rightarrow> bool"
  assumes decode_encode: "valid v \<Longrightarrow> encode v = Some b \<Longrightarrow> decode b = Inr v"
    and encode_decode: "decode b = Inr v \<Longrightarrow> valid v \<and> encode v = Some b"
begin

lemma accepts_iff: "decode b = Inr v \<longleftrightarrow> valid v \<and> encode v = Some b"
  using decode_encode encode_decode by blast

lemma encode_inj: "valid v \<Longrightarrow> valid w \<Longrightarrow> encode v = Some b \<Longrightarrow> encode w = Some b \<Longrightarrow> v = w"
  using decode_encode [of v b] decode_encode [of w b] by simp

lemma decode_inj: "decode b = Inr v \<Longrightarrow> decode c = Inr v \<Longrightarrow> b = c"
  using encode_decode [of b v] encode_decode [of c v] by simp

lemma refuses_iff: "(\<exists>e. decode b = Inl e) \<longleftrightarrow> (\<nexists>v. valid v \<and> encode v = Some b)"
  by (cases "decode b") (auto simp: accepts_iff [symmetric])

end

end
