(* ===== verification/AudioFrames.thy ===== *)
theory AudioFrames
  imports PyStruct
begin

text \<open>
  The version-one binary frame for synthesized audio, \<^verbatim>\<open>api/audio_frames.py\<close>: the frame
  value with its constructor check, encoder and decoder.
\<close>

unbundle bit_operations_syntax

definition AUDIO_FRAME_MAGIC :: bytes where
  "AUDIO_FRAME_MAGIC = [0x45, 0x56, 0x41, 0x46]"

definition AUDIO_FRAME_VERSION :: int where
  "AUDIO_FRAME_VERSION = 1"

definition MAX_AUDIO_PAYLOAD_BYTES :: int where
  "MAX_AUDIO_PAYLOAD_BYTES = 16 * 1024 * 1024"

abbreviation MAX_U16 :: int where "MAX_U16 \<equiv> 0xFFFF"
abbreviation MAX_U32 :: int where "MAX_U32 \<equiv> 0xFFFFFFFF"
abbreviation MAX_U64 :: int where "MAX_U64 \<equiv> 0xFFFFFFFFFFFFFFFF"

definition UNKNOWN_DURATION :: int where
  "UNKNOWN_DURATION = 0xFFFFFFFF"

text \<open>\<^verbatim>\<open>Struct("!4sBBH16s16s16s16s16sIQIIIHHII")\<close>\<close>

definition audio_header :: "fmt list" where
  "audio_header = [S 4, U 1, U 1, U 2, S 16, S 16, S 16, S 16, S 16, U 4, U 8, U 4, U 4, U 4,
     U 2, U 2, U 4, U 4]"

abbreviation audio_header_size :: int where
  "audio_header_size \<equiv> int (fmt_size audio_header)"

lemma audio_header_size: "fmt_size audio_header = 124"
  by (simp add: audio_header_def)

text \<open>\<open>AudioFrameFlags\<close>: an \<open>IntFlag\<close>, held by its integer value.\<close>

definition FINAL_CHUNK :: int where "FINAL_CHUNK = push_bit 0 1"
definition END_UTTERANCE :: int where "END_UTTERANCE = push_bit 1 1"
definition DISCONTINUITY :: int where "DISCONTINUITY = push_bit 2 1"

definition KNOWN_FLAGS :: int where
  "KNOWN_FLAGS = FINAL_CHUNK OR END_UTTERANCE OR DISCONTINUITY"

lemma KNOWN_FLAGS_eq: "KNOWN_FLAGS = 7"
  by (simp add: KNOWN_FLAGS_def FINAL_CHUNK_def END_UTTERANCE_def DISCONTINUITY_def)

record AudioFrame =
  af_session_id :: uuid
  af_event_id :: uuid
  af_correlation_id :: uuid
  af_turn_id :: uuid
  af_segment_id :: uuid
  af_generation :: int
  af_event_sequence :: int
  af_segment_sequence :: int
  af_chunk_index :: int
  af_sample_rate_hz :: int
  af_channels :: int
  af_media_type :: pystr
  af_audio :: bytes
  af_duration_ms :: "int option"
  af_flags :: int

datatype audio_value_error =
  Generation_range | Event_sequence_range | Segment_sequence_range | Chunk_index_range
| Sample_rate_range | Channels_range | Duration_range | Flags_unsupported
| Media_type_not_ascii | Media_type_not_audio | Audio_too_long

definition validate_uint :: "'e \<Rightarrow> int \<Rightarrow> int \<Rightarrow> int \<Rightarrow> 'e option" where
  "validate_uint e v mx mn = (if mn \<le> v \<and> v \<le> mx then None else Some e)"

definition ascii :: "pystr \<Rightarrow> bool" where
  "ascii s \<longleftrightarrow> list_all (\<lambda>c. c < 128) s"

definition encode_ascii :: "pystr \<Rightarrow> bytes" where
  "encode_ascii s = map of_nat s"

definition decode_ascii :: "bytes \<Rightarrow> pystr option" where
  "decode_ascii bs = (if list_all (\<lambda>b. unat b < 128) bs then Some (map unat bs) else None)"

definition check_audio_frame :: "AudioFrame \<Rightarrow> audio_value_error option" where
  "check_audio_frame f = first_error
     [validate_uint Generation_range (af_generation f) MAX_U32 0,
      validate_uint Event_sequence_range (af_event_sequence f) MAX_U64 0,
      validate_uint Segment_sequence_range (af_segment_sequence f) MAX_U32 0,
      validate_uint Chunk_index_range (af_chunk_index f) MAX_U32 0,
      validate_uint Sample_rate_range (af_sample_rate_hz f) MAX_U32 1,
      validate_uint Channels_range (af_channels f) MAX_U16 1,
      (case af_duration_ms f of
         None \<Rightarrow> None | Some d \<Rightarrow> validate_uint Duration_range d (MAX_U32 - 1) 0),
      (if af_flags f AND NOT KNOWN_FLAGS \<noteq> 0 then Some Flags_unsupported else None),
      (if ascii (af_media_type f) then None else Some Media_type_not_ascii),
      (if af_media_type f = [] \<or> MAX_U16 < int (length (af_media_type f)) \<or>
          take 6 (af_media_type f) \<noteq> lit ''audio/'' \<or>
          list_ex isspace (af_media_type f) then Some Media_type_not_audio else None),
      (if MAX_AUDIO_PAYLOAD_BYTES < int (length (af_audio f)) then Some Audio_too_long else None)]"

definition audio_header_values :: "AudioFrame \<Rightarrow> fval list" where
  "audio_header_values f =
     [VB AUDIO_FRAME_MAGIC, VU AUDIO_FRAME_VERSION, VU (af_flags f),
      VU (audio_header_size + int (length (encode_ascii (af_media_type f)))),
      VB (uuid_bytes (af_session_id f)), VB (uuid_bytes (af_event_id f)),
      VB (uuid_bytes (af_correlation_id f)), VB (uuid_bytes (af_turn_id f)),
      VB (uuid_bytes (af_segment_id f)),
      VU (af_generation f), VU (af_event_sequence f), VU (af_segment_sequence f),
      VU (af_chunk_index f), VU (af_sample_rate_hz f), VU (af_channels f),
      VU (int (length (encode_ascii (af_media_type f)))),
      VU (case af_duration_ms f of Some d \<Rightarrow> d | None \<Rightarrow> UNKNOWN_DURATION),
      VU (int (length (af_audio f)))]"

text \<open>\<open>None\<close> is the \<open>struct.error\<close> of the packed header.\<close>

definition encode_audio_frame :: "AudioFrame \<Rightarrow> bytes option" where
  "encode_audio_frame f =
     (case pack audio_header (audio_header_values f) of
        None \<Rightarrow> None
      | Some header \<Rightarrow> Some (header @ encode_ascii (af_media_type f) @ af_audio f))"

datatype audio_frame_error =
  Max_payload_negative | Shorter_than_header | Invalid_magic | Unsupported_version
| Unknown_flag_bits | Header_length_inconsistent | Payload_exceeds_limit | Length_mismatch
| Media_type_bytes_not_ascii | Invalid_metadata audio_value_error

definition decode_audio_frame :: "int \<Rightarrow> bytes \<Rightarrow> audio_frame_error + AudioFrame" where
  "decode_audio_frame max_payload_bytes packet =
     (if max_payload_bytes < 0 then Inl Max_payload_negative
      else if length packet < fmt_size audio_header then Inl Shorter_than_header
      else
        (case unpack audio_header packet of
           [VB magic, VU version, VU raw_flags, VU header_bytes, VB session_id, VB event_id,
            VB correlation_id, VB turn_id, VB segment_id, VU generation, VU event_sequence,
            VU segment_sequence, VU chunk_index, VU sample_rate_hz, VU channels,
            VU media_type_bytes, VU raw_duration, VU payload_bytes] \<Rightarrow>
             (if magic \<noteq> AUDIO_FRAME_MAGIC then Inl Invalid_magic
              else if version \<noteq> AUDIO_FRAME_VERSION then Inl Unsupported_version
              else if raw_flags AND NOT KNOWN_FLAGS \<noteq> 0 then Inl Unknown_flag_bits
              else if header_bytes \<noteq> audio_header_size + media_type_bytes
                then Inl Header_length_inconsistent
              else if max_payload_bytes < payload_bytes then Inl Payload_exceeds_limit
              else if int (length packet) \<noteq> header_bytes + payload_bytes then Inl Length_mismatch
              else
                (case decode_ascii (drop (fmt_size audio_header) (take (nat header_bytes) packet)) of
                   None \<Rightarrow> Inl Media_type_bytes_not_ascii
                 | Some media_type \<Rightarrow>
                     (let f = \<lparr>af_session_id = uuid_of_bytes session_id,
                            af_event_id = uuid_of_bytes event_id,
                            af_correlation_id = uuid_of_bytes correlation_id,
                            af_turn_id = uuid_of_bytes turn_id,
                            af_segment_id = uuid_of_bytes segment_id,
                            af_generation = generation, af_event_sequence = event_sequence,
                            af_segment_sequence = segment_sequence, af_chunk_index = chunk_index,
                            af_sample_rate_hz = sample_rate_hz, af_channels = channels,
                            af_media_type = media_type, af_audio = drop (nat header_bytes) packet,
                            af_duration_ms =
                              (if raw_duration = UNKNOWN_DURATION then None else Some raw_duration),
                            af_flags = raw_flags\<rparr>
                      in (case check_audio_frame f of
                            None \<Rightarrow> Inr f
                          | Some e \<Rightarrow> Inl (Invalid_metadata e)))))
         | _ \<Rightarrow> Inl Shorter_than_header))"

section \<open>Flags and media types\<close>

lemma flags_known_iff: "f AND NOT KNOWN_FLAGS = 0 \<longleftrightarrow> 0 \<le> f \<and> f < 8" for f :: int
proof -
  have "f AND NOT (mask 3) = 0 \<longleftrightarrow> f AND mask 3 = f"
    by (simp add: bit_eq_iff bit_simps) blast
  then have "f AND NOT (mask 3) = 0 \<longleftrightarrow> 0 \<le> f \<and> f < 8"
    by (simp add: take_bit_int_eq_self_iff flip: take_bit_eq_mask)
  moreover have "(mask 3 :: int) = 7" by (simp add: mask_eq_exp_minus_1)
  ultimately show ?thesis by (simp add: KNOWN_FLAGS_eq)
qed

lemma length_encode_ascii [simp]: "length (encode_ascii s) = length s"
  by (simp add: encode_ascii_def)

lemma decode_encode_ascii: "ascii s \<Longrightarrow> decode_ascii (encode_ascii s) = Some s"
  by (auto simp: ascii_def decode_ascii_def encode_ascii_def list_all_iff unat_of_nat intro!: map_idI)

lemma encode_decode_ascii: "decode_ascii bs = Some s \<Longrightarrow> ascii s \<and> encode_ascii s = bs"
  by (auto simp: ascii_def decode_ascii_def encode_ascii_def list_all_iff map_idI split: if_splits)

lemma validate_uint_None [simp]: "validate_uint e v mx mn = None \<longleftrightarrow> mn \<le> v \<and> v \<le> mx"
  by (simp add: validate_uint_def)

text \<open>What the constructor of \<open>AudioFrame\<close> guarantees, one fact per field.\<close>

lemma check_audio_frame_None:
  "check_audio_frame f = None \<longleftrightarrow>
     0 \<le> af_generation f \<and> af_generation f \<le> MAX_U32 \<and>
     0 \<le> af_event_sequence f \<and> af_event_sequence f \<le> MAX_U64 \<and>
     0 \<le> af_segment_sequence f \<and> af_segment_sequence f \<le> MAX_U32 \<and>
     0 \<le> af_chunk_index f \<and> af_chunk_index f \<le> MAX_U32 \<and>
     1 \<le> af_sample_rate_hz f \<and> af_sample_rate_hz f \<le> MAX_U32 \<and>
     1 \<le> af_channels f \<and> af_channels f \<le> MAX_U16 \<and>
     (\<forall>d. af_duration_ms f = Some d \<longrightarrow> 0 \<le> d \<and> d < MAX_U32) \<and>
     0 \<le> af_flags f \<and> af_flags f < 8 \<and>
     ascii (af_media_type f) \<and> int (length (af_media_type f)) \<le> MAX_U16 \<and>
     take 6 (af_media_type f) = lit ''audio/'' \<and> \<not> list_ex isspace (af_media_type f) \<and>
     int (length (af_audio f)) \<le> MAX_AUDIO_PAYLOAD_BYTES"
  by (cases "af_duration_ms f") (auto simp: check_audio_frame_def flags_known_iff)

text \<open>The header length field holds 16 bits, less than the longest accepted media type needs.\<close>

definition media_fits :: "AudioFrame \<Rightarrow> bool" where
  "media_fits f \<longleftrightarrow> length (af_media_type f) \<le> 65411"

lemma header_values_typed:
  assumes "check_audio_frame f = None" "media_fits f"
  shows "list_all2 typed audio_header (audio_header_values f)"
  using assms
  by (auto simp: check_audio_frame_None audio_header_def audio_header_values_def media_fits_def
      AUDIO_FRAME_MAGIC_def AUDIO_FRAME_VERSION_def UNKNOWN_DURATION_def MAX_AUDIO_PAYLOAD_BYTES_def
      split: option.splits)

lemma header_too_long: "\<not> media_fits f \<Longrightarrow> encode_audio_frame f = None"
  by (simp add: encode_audio_frame_def audio_header_def audio_header_values_def media_fits_def
      AUDIO_FRAME_VERSION_def)

section \<open>Round trips\<close>

lemma encode_audio_frame_ok:
  assumes "check_audio_frame f = None" "media_fits f"
  obtains h where "pack audio_header (audio_header_values f) = Some h" "length h = 124"
    "encode_audio_frame f = Some (h @ encode_ascii (af_media_type f) @ af_audio f)"
    "\<And>rest. unpack audio_header (h @ rest) = audio_header_values f"
proof -
  from pack_unpack [OF header_values_typed [OF assms]] obtain h where
    h: "pack audio_header (audio_header_values f) = Some h" "length h = fmt_size audio_header" by blast
  have "unpack audio_header (h @ rest) = audio_header_values f" for rest
    using pack_unpack [OF header_values_typed [OF assms], of rest] h by auto
  then show thesis using h by (intro that [of h]) (auto simp: encode_audio_frame_def audio_header_size)
qed

lemma audio_frame_eta:
  "\<lparr>af_session_id = af_session_id f, af_event_id = af_event_id f,
     af_correlation_id = af_correlation_id f, af_turn_id = af_turn_id f, af_segment_id = af_segment_id f,
     af_generation = af_generation f, af_event_sequence = af_event_sequence f,
     af_segment_sequence = af_segment_sequence f, af_chunk_index = af_chunk_index f,
     af_sample_rate_hz = af_sample_rate_hz f, af_channels = af_channels f,
     af_media_type = af_media_type f, af_audio = af_audio f,
     af_duration_ms = af_duration_ms f, af_flags = af_flags f\<rparr> = f"
  by simp

lemma audio_decode_encode:
  assumes ok: "check_audio_frame f = None" and enc: "encode_audio_frame f = Some b"
    and mx: "int (length (af_audio f)) \<le> mx"
  shows "decode_audio_frame mx b = Inr f"
proof -
  have fits: "media_fits f" using header_too_long enc by fastforce
  from encode_audio_frame_ok [OF ok fits] obtain h where
    h: "length h = 124" "encode_audio_frame f = Some (h @ encode_ascii (af_media_type f) @ af_audio f)"
      "\<And>rest. unpack audio_header (h @ rest) = audio_header_values f" by blast
  have b: "b = h @ encode_ascii (af_media_type f) @ af_audio f" using h(2) enc by simp
  have dur: "(if raw = UNKNOWN_DURATION then None else Some raw) = af_duration_ms f"
    if "raw = (case af_duration_ms f of None \<Rightarrow> UNKNOWN_DURATION | Some d \<Rightarrow> d)" for raw
    using ok that by (auto simp: check_audio_frame_None UNKNOWN_DURATION_def split: option.splits)
  have "nat (124 + int n) = 124 + n" for n by simp
  moreover have "af_flags f AND NOT KNOWN_FLAGS = 0" "decode_ascii (encode_ascii (af_media_type f)) = Some (af_media_type f)"
    using ok by (auto simp: check_audio_frame_None flags_known_iff decode_encode_ascii)
  ultimately show ?thesis
    using ok mx by (simp add: decode_audio_frame_def b h audio_header_values_def audio_header_size dur Let_def
        audio_frame_eta)
qed

lemma unpack_audio_header:
  assumes "124 \<le> length b"
  obtains magic version flags header sid eid cid tid gid gen eseq sseq chunk rate ch mt dur pay where
    "unpack audio_header b = [VB magic, VU version, VU flags, VU header, VB sid, VB eid, VB cid, VB tid, VB gid,
       VU gen, VU eseq, VU sseq, VU chunk, VU rate, VU ch, VU mt, VU dur, VU pay]"
    "list_all (\<lambda>s. length s = 16) [sid, eid, cid, tid, gid]"
    "0 \<le> mt" "0 \<le> pay" "0 \<le> dur" "dur \<le> MAX_U32"
proof -
  let ?b = "\<lambda>n. take n b" and ?d = "\<lambda>i n. take n (drop i b)"
  have "list_all2 typed audio_header (unpack audio_header b)"
    using unpack_pack [of audio_header b] assms by (simp add: audio_header_size)
  then show thesis
    using assms by (intro that) (auto simp: audio_header_def)
qed

lemma audio_encode_decode:
  assumes "decode_audio_frame mx b = Inr f"
  shows "check_audio_frame f = None \<and> int (length (af_audio f)) \<le> mx \<and> encode_audio_frame f = Some b"
proof -
  have len: "124 \<le> length b" and mx: "0 \<le> mx"
    using assms by (auto simp: decode_audio_frame_def audio_header_size split: if_splits)
  from unpack_audio_header [OF len] obtain magic version flags header sid eid cid tid gid gen eseq sseq chunk rate ch mt dur pay where
    u: "unpack audio_header b = [VB magic, VU version, VU flags, VU header, VB sid, VB eid, VB cid, VB tid, VB gid,
       VU gen, VU eseq, VU sseq, VU chunk, VU rate, VU ch, VU mt, VU dur, VU pay]"
    and l: "list_all (\<lambda>s. length s = 16) [sid, eid, cid, tid, gid]"
    and nn: "0 \<le> mt" "0 \<le> pay" "0 \<le> dur" "dur \<le> MAX_U32" .
  from assms u mx have hd: "magic = AUDIO_FRAME_MAGIC" "version = AUDIO_FRAME_VERSION" "header = 124 + mt"
    "pay \<le> mx" "int (length b) = header + pay"
    by (auto simp: decode_audio_frame_def audio_header_size split: if_splits)
  from assms u mx hd obtain media where
    media: "decode_ascii (drop 124 (take (nat header) b)) = Some media" and
    f: "f = \<lparr>af_session_id = uuid_of_bytes sid, af_event_id = uuid_of_bytes eid,
      af_correlation_id = uuid_of_bytes cid, af_turn_id = uuid_of_bytes tid, af_segment_id = uuid_of_bytes gid,
      af_generation = gen, af_event_sequence = eseq, af_segment_sequence = sseq, af_chunk_index = chunk,
      af_sample_rate_hz = rate, af_channels = ch, af_media_type = media, af_audio = drop (nat header) b,
      af_duration_ms = (if dur = UNKNOWN_DURATION then None else Some dur), af_flags = flags\<rparr>"
    and ok: "check_audio_frame f = None"
    by (auto simp: decode_audio_frame_def audio_header_size Let_def split: if_splits option.splits)
  have enc: "encode_ascii media = drop 124 (take (nat header) b)"
    using encode_decode_ascii [OF media] by simp
  have "length (encode_ascii media) = nat mt"
    unfolding enc using hd nn by simp
  then have mlen: "int (length media) = mt" using nn by simp
  have alen: "int (length (drop (nat header) b)) = pay" using hd nn by simp
  have "audio_header_values f = unpack audio_header b"
    using l hd mlen alen by (simp add: u f audio_header_values_def audio_header_size)
  then have "pack audio_header (audio_header_values f) = Some (take 124 b)"
    using unpack_pack [of audio_header b] len by (simp add: audio_header_size)
  moreover have "take 124 b @ drop 124 (take (nat header) b) @ drop (nat header) b = b"
  proof -
    have "124 \<le> nat header" using hd nn by simp
    then have "take 124 (take (nat header) b) = take 124 b" by (simp add: min_absorb1)
    then show ?thesis by (metis append.assoc append_take_drop_id)
  qed
  ultimately have "encode_audio_frame f = Some b"
    using enc by (simp add: encode_audio_frame_def f)
  then show ?thesis using ok alen hd by (simp add: f)
qed

interpretation evaf: byte_codec encode_audio_frame "decode_audio_frame mx"
  "\<lambda>f. check_audio_frame f = None \<and> int (length (af_audio f)) \<le> mx" for mx
  by unfold_locales (auto simp: audio_decode_encode dest: audio_encode_decode)

section \<open>Properties\<close>

text \<open>
  C25: the decoder of synthesized-audio packets accepts exactly the packets that the encoder
  makes of valid frames within the payload limit, and returns the frame that was encoded.
  Each frame has one encoding; a packet with a changed magic, version, flag, length, identity
  or payload is either refused or decodes to a different frame.
\<close>

theorem audio_frame_codec:
  "decode_audio_frame mx b = Inr f \<longleftrightarrow>
     (check_audio_frame f = None \<and> int (length (af_audio f)) \<le> mx) \<and> encode_audio_frame f = Some b"
  by (rule evaf.accepts_iff)

text \<open>
  Encoding a valid frame fails exactly when its media type is longer than 65411
  characters: the constructor admits up to 65535, but the header length, which includes the
  124 fixed bytes, is a 16-bit field.
\<close>

theorem audio_frame_encodes_iff:
  assumes "check_audio_frame f = None"
  shows "encode_audio_frame f = None \<longleftrightarrow> 65411 < length (af_media_type f)"
proof (cases "media_fits f")
  case True
  then show ?thesis using encode_audio_frame_ok [OF assms True] by (auto simp: media_fits_def)
next
  case False
  then show ?thesis using header_too_long [OF False] by (simp add: media_fits_def)
qed

definition long_media_frame :: AudioFrame where
  "long_media_frame = \<lparr>af_session_id = 1, af_event_id = 2, af_correlation_id = 3, af_turn_id = 4,
     af_segment_id = 5, af_generation = 1, af_event_sequence = 1, af_segment_sequence = 0,
     af_chunk_index = 0, af_sample_rate_hz = 24000, af_channels = 1,
     af_media_type = lit ''audio/'' @ replicate 65500 97, af_audio = [1, 2],
     af_duration_ms = None, af_flags = 1\<rparr>"

theorem audio_frame_encodes_iff_witness:
  "check_audio_frame long_media_frame = None \<and> encode_audio_frame long_media_frame = None"
proof -
  have "\<not> isspace 97" by (simp add: isspace_def)
  then have ok: "check_audio_frame long_media_frame = None"
    by (simp add: check_audio_frame_None long_media_frame_def ascii_def list_all_iff list_ex_iff isspace_def
        MAX_AUDIO_PAYLOAD_BYTES_def)
  then show ?thesis using audio_frame_encodes_iff [OF ok] by (simp add: long_media_frame_def)
qed

end
