(* ===== verification/InputFrames.thy ===== *)
theory InputFrames
  imports AudioFrames
begin

text \<open>
  The version-one binary frame for microphone audio, \<^verbatim>\<open>api/input_audio_frames.py\<close>, and
  its conversion into the frame value of \<^verbatim>\<open>media/types.py\<close> that the detector consumes.
\<close>

definition VOICE_INPUT_FRAME_MAGIC :: bytes where
  "VOICE_INPUT_FRAME_MAGIC = [0x45, 0x56, 0x49, 0x46]"

definition VOICE_INPUT_FRAME_VERSION :: int where
  "VOICE_INPUT_FRAME_VERSION = 1"

definition VOICE_INPUT_FRAME_FIXED_HEADER_BYTES :: int where
  "VOICE_INPUT_FRAME_FIXED_HEADER_BYTES = 52"

definition VOICE_INPUT_ENCODING_PCM_S16LE :: int where
  "VOICE_INPUT_ENCODING_PCM_S16LE = 1"

text \<open>\<^verbatim>\<open>Struct("!4sBBH16sQQIHBBI")\<close>\<close>

definition voice_header :: "fmt list" where
  "voice_header = [S 4, U 1, U 1, U 2, S 16, U 8, U 8, U 4, U 2, U 1, U 1, U 4]"

text \<open>The module's \<open>assert\<close> on the size of the header.\<close>

lemma voice_header_size: "int (fmt_size voice_header) = VOICE_INPUT_FRAME_FIXED_HEADER_BYTES"
  by (simp add: voice_header_def VOICE_INPUT_FRAME_FIXED_HEADER_BYTES_def)

record VoiceInputFrame =
  vi_stream_id :: uuid
  vi_sequence :: int
  vi_captured_at_ns :: int
  vi_format :: PcmFormat
  vi_pcm :: bytes

datatype voice_value_error =
  Voice_sequence_range | Voice_captured_range | Voice_encoding_unsupported | Voice_pcm_empty
| Voice_pcm_too_long | Voice_pcm_incomplete

definition check_voice_input_frame :: "VoiceInputFrame \<Rightarrow> voice_value_error option" where
  "check_voice_input_frame f = first_error
     [validate_uint Voice_sequence_range (vi_sequence f) MAX_U64 0,
      validate_uint Voice_captured_range (vi_captured_at_ns f) MAX_U64 0,
      (if pf_encoding (vi_format f) \<noteq> S16_LE then Some Voice_encoding_unsupported else None),
      (if vi_pcm f = [] then Some Voice_pcm_empty else None),
      (if MAX_U32 < int (length (vi_pcm f)) then Some Voice_pcm_too_long else None),
      (if int (length (vi_pcm f)) mod bytes_per_sample_frame (vi_format f) \<noteq> 0
         then Some Voice_pcm_incomplete else None)]"

text \<open>A value that exists in the program: it and its format passed their checks.\<close>

definition voice_ok :: "VoiceInputFrame \<Rightarrow> bool" where
  "voice_ok f \<longleftrightarrow> check_pcm_format (vi_format f) = None \<and> check_voice_input_frame f = None"

definition to_pcm_frame :: "VoiceInputFrame \<Rightarrow> media_error + PcmFrame" where
  "to_pcm_frame f =
     (let p = \<lparr>fr_stream_id = vi_stream_id f, fr_sequence = vi_sequence f,
            fr_captured_at_ns = vi_captured_at_ns f, fr_format = vi_format f, fr_pcm = vi_pcm f\<rparr>
      in case check_pcm_frame p of None \<Rightarrow> Inr p | Some e \<Rightarrow> Inl e)"

definition voice_header_values :: "VoiceInputFrame \<Rightarrow> fval list" where
  "voice_header_values f =
     [VB VOICE_INPUT_FRAME_MAGIC, VU VOICE_INPUT_FRAME_VERSION, VU 0,
      VU VOICE_INPUT_FRAME_FIXED_HEADER_BYTES, VB (uuid_bytes (vi_stream_id f)),
      VU (vi_sequence f), VU (vi_captured_at_ns f), VU (pf_sample_rate_hz (vi_format f)),
      VU (pf_channels (vi_format f)), VU VOICE_INPUT_ENCODING_PCM_S16LE, VU 0,
      VU (int (length (vi_pcm f)))]"

definition encode_voice_input_frame :: "VoiceInputFrame \<Rightarrow> bytes option" where
  "encode_voice_input_frame f =
     (case pack voice_header (voice_header_values f) of
        None \<Rightarrow> None
      | Some header \<Rightarrow> Some (header @ vi_pcm f))"

datatype voice_frame_error =
  Voice_limit_range | Voice_short | Voice_magic | Voice_version | Voice_flags | Voice_header_length
| Voice_encoding | Voice_reserved | Voice_empty | Voice_exceeds_limit | Voice_truncated
| Voice_trailing | Voice_bad_format media_error | Voice_bad_value voice_value_error

definition decode_voice_input_frame :: "int \<Rightarrow> bytes \<Rightarrow> voice_frame_error + VoiceInputFrame" where
  "decode_voice_input_frame max_payload_bytes raw =
     (if \<not> (0 \<le> max_payload_bytes \<and> max_payload_bytes \<le> MAX_U32) then Inl Voice_limit_range
      else if int (length raw) < VOICE_INPUT_FRAME_FIXED_HEADER_BYTES then Inl Voice_short
      else
        (case unpack voice_header raw of
           [VB magic, VU version, VU flags, VU header_bytes, VB stream_id, VU sequence,
            VU captured, VU sample_rate_hz, VU channels, VU encoding, VU reserved,
            VU payload_bytes] \<Rightarrow>
             (if magic \<noteq> VOICE_INPUT_FRAME_MAGIC then Inl Voice_magic
              else if version \<noteq> VOICE_INPUT_FRAME_VERSION then Inl Voice_version
              else if flags \<noteq> 0 then Inl Voice_flags
              else if header_bytes \<noteq> VOICE_INPUT_FRAME_FIXED_HEADER_BYTES
                then Inl Voice_header_length
              else if encoding \<noteq> VOICE_INPUT_ENCODING_PCM_S16LE then Inl Voice_encoding
              else if reserved \<noteq> 0 then Inl Voice_reserved
              else if payload_bytes = 0 then Inl Voice_empty
              else if max_payload_bytes < payload_bytes then Inl Voice_exceeds_limit
              else if int (length raw) < VOICE_INPUT_FRAME_FIXED_HEADER_BYTES + payload_bytes
                then Inl Voice_truncated
              else if VOICE_INPUT_FRAME_FIXED_HEADER_BYTES + payload_bytes < int (length raw)
                then Inl Voice_trailing
              else
                (case make_pcm_format sample_rate_hz channels S16_LE of
                   Inl e \<Rightarrow> Inl (Voice_bad_format e)
                 | Inr pcm_format \<Rightarrow>
                     (let f = \<lparr>vi_stream_id = uuid_of_bytes stream_id, vi_sequence = sequence,
                            vi_captured_at_ns = captured, vi_format = pcm_format,
                            vi_pcm = drop (nat VOICE_INPUT_FRAME_FIXED_HEADER_BYTES) raw\<rparr>
                      in (case check_voice_input_frame f of
                            None \<Rightarrow> Inr f
                          | Some e \<Rightarrow> Inl (Voice_bad_value e)))))
         | _ \<Rightarrow> Inl Voice_short))"

section \<open>Round trips\<close>

lemmas voice_consts = VOICE_INPUT_FRAME_MAGIC_def VOICE_INPUT_FRAME_VERSION_def
  VOICE_INPUT_FRAME_FIXED_HEADER_BYTES_def VOICE_INPUT_ENCODING_PCM_S16LE_def

lemma voice_size: "fmt_size voice_header = 52"
  by (simp add: voice_header_def)

lemma check_voice_None:
  "check_voice_input_frame f = None \<longleftrightarrow>
     0 \<le> vi_sequence f \<and> vi_sequence f \<le> MAX_U64 \<and>
     0 \<le> vi_captured_at_ns f \<and> vi_captured_at_ns f \<le> MAX_U64 \<and>
     vi_pcm f \<noteq> [] \<and> int (length (vi_pcm f)) \<le> MAX_U32 \<and>
     int (length (vi_pcm f)) mod bytes_per_sample_frame (vi_format f) = 0"
  by (cases "pf_encoding (vi_format f)") (auto simp: check_voice_input_frame_def)

lemma voice_values_typed:
  assumes "voice_ok f"
  shows "list_all2 typed voice_header (voice_header_values f)"
  using assms
  by (auto simp: voice_ok_def check_voice_None voice_header_def voice_header_values_def voice_consts
      check_pcm_format_def split: if_splits)

lemma voice_encodes:
  assumes "voice_ok f"
  obtains h where "encode_voice_input_frame f = Some (h @ vi_pcm f)" "length h = 52"
    "unpack voice_header (h @ vi_pcm f) = voice_header_values f"
  using pack_unpack [OF voice_values_typed [OF assms], of "vi_pcm f"]
  by (auto simp: encode_voice_input_frame_def voice_size)

lemma voice_decode_encode:
  assumes ok: "voice_ok f" and enc: "encode_voice_input_frame f = Some b"
    and mx: "int (length (vi_pcm f)) \<le> mx" "mx \<le> MAX_U32"
  shows "decode_voice_input_frame mx b = Inr f"
proof -
  from voice_encodes [OF ok] obtain h where b: "b = h @ vi_pcm f" "length h = 52"
    and u: "unpack voice_header (h @ vi_pcm f) = voice_header_values f" using enc by auto
  have fmt: "make_pcm_format (pf_sample_rate_hz (vi_format f)) (pf_channels (vi_format f)) S16_LE = Inr (vi_format f)"
    using ok by (cases "vi_format f"; cases "pf_encoding (vi_format f)")
      (simp add: make_pcm_format_def voice_ok_def Let_def)
  have eta: "\<lparr>vi_stream_id = vi_stream_id f, vi_sequence = vi_sequence f, vi_captured_at_ns = vi_captured_at_ns f,
      vi_format = vi_format f, vi_pcm = vi_pcm f\<rparr> = f" by simp
  have "vi_pcm f \<noteq> []" "check_voice_input_frame f = None"
    using ok by (auto simp: voice_ok_def check_voice_None)
  then show ?thesis
    using mx by (simp add: decode_voice_input_frame_def b u voice_header_values_def voice_consts fmt Let_def eta)
qed

lemma unpack_voice_header:
  assumes "52 \<le> length b"
  obtains magic version flags header sid sq cap rate ch enc res pay where
    "unpack voice_header b = [VB magic, VU version, VU flags, VU header, VB sid, VU sq, VU cap, VU rate, VU ch,
       VU enc, VU res, VU pay]" "length sid = 16" "0 \<le> pay"
  using assms by (intro that) (auto simp: voice_header_def)

lemma voice_encode_decode:
  assumes "decode_voice_input_frame mx b = Inr f"
  shows "voice_ok f \<and> int (length (vi_pcm f)) \<le> mx \<and> mx \<le> MAX_U32 \<and> encode_voice_input_frame f = Some b"
proof -
  have len: "52 \<le> length b" and mx: "0 \<le> mx" "mx \<le> MAX_U32"
    using assms by (auto simp: decode_voice_input_frame_def voice_consts split: if_splits)
  from unpack_voice_header [OF len] obtain magic version flags header sid sq cap rate ch enc res pay where
    u: "unpack voice_header b = [VB magic, VU version, VU flags, VU header, VB sid, VU sq, VU cap, VU rate, VU ch,
       VU enc, VU res, VU pay]" and l: "length sid = 16" "0 \<le> pay" .
  from assms u mx have hd: "magic = VOICE_INPUT_FRAME_MAGIC" "version = VOICE_INPUT_FRAME_VERSION" "flags = 0"
    "header = VOICE_INPUT_FRAME_FIXED_HEADER_BYTES" "enc = VOICE_INPUT_ENCODING_PCM_S16LE" "res = 0"
    "pay \<le> mx" "int (length b) = 52 + pay"
    by (auto simp: decode_voice_input_frame_def voice_consts split: if_splits)
  from assms u mx hd obtain fmt where fmt: "make_pcm_format rate ch S16_LE = Inr fmt"
    and f: "f = \<lparr>vi_stream_id = uuid_of_bytes sid, vi_sequence = sq, vi_captured_at_ns = cap, vi_format = fmt,
      vi_pcm = drop 52 b\<rparr>" and ok: "check_voice_input_frame f = None"
    by (auto simp: decode_voice_input_frame_def voice_consts Let_def split: if_splits option.splits sum.splits)
  have fmt': "check_pcm_format fmt = None" "pf_sample_rate_hz fmt = rate" "pf_channels fmt = ch"
    using fmt by (auto simp: make_pcm_format_def Let_def split: option.splits)
  have plen: "int (length (drop 52 b)) = pay" using hd l by simp
  have "voice_header_values f = unpack voice_header b"
    using hd l plen fmt' by (simp add: u f voice_header_values_def)
  then have "encode_voice_input_frame f = Some b"
    using unpack_pack [of voice_header b] len by (simp add: encode_voice_input_frame_def voice_size f)
  then show ?thesis using ok fmt' plen hd mx by (simp add: voice_ok_def f)
qed

interpretation evif: byte_codec encode_voice_input_frame "decode_voice_input_frame mx"
  "\<lambda>f. voice_ok f \<and> int (length (vi_pcm f)) \<le> mx \<and> mx \<le> MAX_U32" for mx
  by unfold_locales (auto simp: voice_decode_encode dest: voice_encode_decode)

section \<open>Properties\<close>

text \<open>
  C26: the decoder of microphone packets accepts exactly the packets that the encoder makes
  of valid frames within the payload limit, and returns the frame that was encoded; every
  valid frame has an encoding, and what was decoded always converts into a valid frame of
  the media layer with the same identity, position, format and samples.
\<close>

theorem voice_frame_codec:
  "(decode_voice_input_frame mx b = Inr f \<longleftrightarrow>
      (voice_ok f \<and> int (length (vi_pcm f)) \<le> mx \<and> mx \<le> MAX_U32) \<and> encode_voice_input_frame f = Some b) \<and>
   (voice_ok f \<longrightarrow> encode_voice_input_frame f \<noteq> None \<and>
      (\<exists>p. to_pcm_frame f = Inr p \<and> frame_ok p \<and> fr_stream_id p = vi_stream_id f \<and>
         fr_sequence p = vi_sequence f \<and> fr_captured_at_ns p = vi_captured_at_ns f \<and>
         fr_format p = vi_format f \<and> fr_pcm p = vi_pcm f))"
proof (intro conjI impI)
  show "encode_voice_input_frame f \<noteq> None" if "voice_ok f" using voice_encodes [OF that] by auto
  show "\<exists>p. to_pcm_frame f = Inr p \<and> frame_ok p \<and> fr_stream_id p = vi_stream_id f \<and>
      fr_sequence p = vi_sequence f \<and> fr_captured_at_ns p = vi_captured_at_ns f \<and>
      fr_format p = vi_format f \<and> fr_pcm p = vi_pcm f" if "voice_ok f"
    using that by (auto simp: voice_ok_def check_voice_None to_pcm_frame_def check_pcm_frame_def frame_ok_def
        fr_len_def Let_def)
qed (rule evif.accepts_iff)

definition demo_voice_frame :: VoiceInputFrame where
  "demo_voice_frame = \<lparr>vi_stream_id = 9, vi_sequence = 4, vi_captured_at_ns = 1000,
     vi_format = \<lparr>pf_sample_rate_hz = 16000, pf_channels = 1, pf_encoding = S16_LE\<rparr>, vi_pcm = [1, 2]\<rparr>"

theorem voice_frame_codec_witness:
  "voice_ok demo_voice_frame \<and> encode_voice_input_frame demo_voice_frame \<noteq> None \<and>
   (\<exists>p. to_pcm_frame demo_voice_frame = Inr p \<and> frame_ok p)"
proof -
  have "voice_ok demo_voice_frame"
    by (simp add: voice_ok_def check_voice_None check_pcm_format_def demo_voice_frame_def bytes_per_sample_frame_def)
  then show ?thesis using voice_frame_codec [of 0 "[]" demo_voice_frame] by blast
qed

end
