(* ===== verification/PyJson.thy ===== *)
theory PyJson
  imports Prelude
begin

text \<open>
  \<open>json.dumps\<close> with \<open>ensure_ascii=False\<close> and compact separators, on the values the program
  renders: strings, null, booleans, integers, arrays and objects.
\<close>

definition hex_digit :: "nat \<Rightarrow> nat" where
  "hex_digit d = (if d < 10 then 48 + d else 87 + d)"

definition json_char :: "nat \<Rightarrow> pystr" where
  "json_char c =
     (if c = 34 then [92, 34]
      else if c = 92 then [92, 92]
      else if c = 10 then [92, 110]
      else if c = 13 then [92, 114]
      else if c = 9 then [92, 116]
      else if c = 8 then [92, 98]
      else if c = 12 then [92, 102]
      else if c < 32 then [92, 117, 48, 48, hex_digit (c div 16), hex_digit (c mod 16)]
      else [c])"

definition json_string :: "pystr \<Rightarrow> pystr" where
  "json_string s = [34] @ concat (map json_char s) @ [34]"

datatype json =
  JNull | JBool bool | JInt int | JStr pystr | JArr "json list" | JObj "(pystr \<times> json) list"

fun join_with :: "pystr \<Rightarrow> pystr list \<Rightarrow> pystr" where
  "join_with sep [] = []"
| "join_with sep [x] = x"
| "join_with sep (x # y # xs) = x @ sep @ join_with sep (y # xs)"

fun json_dumps :: "json \<Rightarrow> pystr" where
  "json_dumps JNull = lit ''null''"
| "json_dumps (JBool b) = (if b then lit ''true'' else lit ''false'')"
| "json_dumps (JInt i) = str_int i"
| "json_dumps (JStr s) = json_string s"
| "json_dumps (JArr xs) = [91] @ join_with [44] (map json_dumps xs) @ [93]"
| "json_dumps (JObj kvs) =
     [123] @ join_with [44] (map (\<lambda>(k, v). json_string k @ [58] @ json_dumps v) kvs) @ [125]"

section \<open>Strings can be read back\<close>

text \<open>A reader of the escapes above: the text of a string literal whose quote has been read.\<close>

definition hex_value :: "nat \<Rightarrow> nat" where
  "hex_value c = (if c < 58 then c - 48 else c - 87)"

definition read_escape :: "nat \<Rightarrow> nat" where
  "read_escape e = (if e = 110 then 10 else if e = 114 then 13 else if e = 116 then 9
     else if e = 98 then 8 else if e = 102 then 12 else e)"

definition read_more :: "nat \<Rightarrow> (pystr \<times> pystr) option \<Rightarrow> (pystr \<times> pystr) option" where
  "read_more c = map_option (\<lambda>(s, t). (c # s, t))"

fun read_string :: "pystr \<Rightarrow> (pystr \<times> pystr) option" where
  "read_string [] = None"
| "read_string (c # r) =
     (if c = 34 then Some ([], r)
      else if c = 92 then
        (case r of
           [] \<Rightarrow> None
         | e # r' \<Rightarrow>
             if e = 117 then
               (case r' of
                  _ # _ # a # b # r'' \<Rightarrow> read_more (hex_value a * 16 + hex_value b) (read_string r'')
                | _ \<Rightarrow> None)
             else read_more (read_escape e) (read_string r'))
      else read_more c (read_string r))"

lemma hex_value_digit: "d < 16 \<Longrightarrow> hex_value (hex_digit d) = d"
  by (auto simp: hex_value_def hex_digit_def)

lemma read_json_char: "read_string (json_char c @ r) = read_more c (read_string r)"
proof -
  have "hex_value (hex_digit (c div 16)) * 16 + hex_value (hex_digit (c mod 16)) = c" if "c < 32"
    using that hex_value_digit [of "c div 16"] hex_value_digit [of "c mod 16"]
    by (simp add: div_less_iff_less_mult)
  then show ?thesis by (simp add: json_char_def read_escape_def)
qed

lemma read_json_string: "read_string (concat (map json_char s) @ [34] @ r) = Some (s, r)"
  by (induction s) (simp_all add: read_json_char read_more_def)

text \<open>A rendered string contains no control character, so it stays on its line.\<close>

lemma json_char_printable: "\<forall>d \<in> set (json_char c). 32 \<le> d"
  by (simp add: json_char_def hex_digit_def)

lemma json_string_printable: "\<forall>c \<in> set (json_string s). 32 \<le> c"
  using json_char_printable by (auto simp: json_string_def simp del: One_nat_def)

lemma length_json_char: "1 \<le> length (json_char c) \<and> length (json_char c) \<le> 6"
  by (simp add: json_char_def)

end
