(* ===== verification/AvatarTypes.thy ===== *)
theory AvatarTypes
  imports PyFloat "HOL-Library.FSet"
begin

text \<open>
  The values the avatar components exchange: the semantic intents of
  \<^verbatim>\<open>avatar/intents.py\<close> and the cue, lease, event and result types of
  \<^verbatim>\<open>avatar/presentation.py\<close>, with their constructor checks. A \<open>frozenset\<close> of names is a
  finite set; an enumeration member's \<open>value\<close> is a function of the member.
\<close>

datatype avatar_error =
  Bad_identifier string | Not_finite string | Negative string | Not_positive string
| Outside_unit string | Outside_signed_unit string | Negative_generation
| Marker_required | Namespace_mismatch | Precedes_request | Expires_before_start
| Bad_semantic_key | Bad_action | Bad_resource | Bad_key

section \<open>Checks shared by the constructors\<close>

definition is_identifier :: "pystr \<Rightarrow> bool" where
  "is_identifier s \<longleftrightarrow> s \<noteq> [] \<and> strip s = s"

definition require_identifier :: "pystr \<Rightarrow> string \<Rightarrow> avatar_error option" where
  "require_identifier s field = (if is_identifier s then None else Some (Bad_identifier field))"

definition require_finite :: "pyfloat \<Rightarrow> string \<Rightarrow> avatar_error option" where
  "require_finite x field = (if isfinite x then None else Some (Not_finite field))"

definition require_non_negative :: "pyfloat \<Rightarrow> string \<Rightarrow> avatar_error option" where
  "require_non_negative x field =
     (if \<not> isfinite x then Some (Not_finite field)
      else if flt x (Fin 0) then Some (Negative field) else None)"

definition require_positive :: "pyfloat \<Rightarrow> string \<Rightarrow> avatar_error option" where
  "require_positive x field =
     (if \<not> isfinite x then Some (Not_finite field)
      else if fle x (Fin 0) then Some (Not_positive field) else None)"

definition require_unit_interval :: "pyfloat \<Rightarrow> string \<Rightarrow> avatar_error option" where
  "require_unit_interval x field =
     (if \<not> isfinite x \<or> \<not> (fle (Fin 0) x \<and> fle x (Fin 1)) then Some (Outside_unit field) else None)"

definition require_signed_unit :: "pyfloat \<Rightarrow> string \<Rightarrow> avatar_error option" where
  "require_signed_unit x field =
     (if \<not> isfinite x \<or> \<not> (fle (Fin (- 1)) x \<and> fle x (Fin 1)) then Some (Outside_signed_unit field)
      else None)"

definition require_generation :: "int \<Rightarrow> avatar_error option" where
  "require_generation g = (if g < 0 then Some Negative_generation else None)"

definition optionally :: "('a \<Rightarrow> avatar_error option) \<Rightarrow> 'a option \<Rightarrow> avatar_error option" where
  "optionally check x = (case x of None \<Rightarrow> None | Some v \<Rightarrow> check v)"

lemma require_None [simp]:
  "require_identifier s f = None \<longleftrightarrow> is_identifier s"
  "require_finite x f = None \<longleftrightarrow> isfinite x"
  "require_non_negative x f = None \<longleftrightarrow> (\<exists>q. x = Fin q \<and> 0 \<le> q)"
  "require_positive x f = None \<longleftrightarrow> (\<exists>q. x = Fin q \<and> 0 < q)"
  "require_unit_interval x f = None \<longleftrightarrow> (\<exists>q. x = Fin q \<and> 0 \<le> q \<and> q \<le> 1)"
  "require_signed_unit x f = None \<longleftrightarrow> (\<exists>q. x = Fin q \<and> - 1 \<le> q \<and> q \<le> 1)"
  "require_generation g = None \<longleftrightarrow> 0 \<le> g"
  "optionally check y = None \<longleftrightarrow> (\<forall>v. y = Some v \<longrightarrow> check v = None)"
  by (cases x; auto simp: require_identifier_def require_finite_def require_non_negative_def
      require_positive_def require_unit_interval_def require_signed_unit_def require_generation_def
      optionally_def split: option.splits)+

section \<open>Semantic intents\<close>

datatype PresentationLayer = Layer_AFFECT | Layer_GESTURE | Layer_GAZE | Layer_POSTURE

fun layer_value :: "PresentationLayer \<Rightarrow> pystr" where
  "layer_value Layer_AFFECT = lit ''affect''"
| "layer_value Layer_GESTURE = lit ''gesture''"
| "layer_value Layer_GAZE = lit ''gaze''"
| "layer_value Layer_POSTURE = lit ''posture''"

definition all_layers :: "PresentationLayer list" where
  "all_layers = [Layer_AFFECT, Layer_GESTURE, Layer_GAZE, Layer_POSTURE]"

datatype AffectLabel =
  Affect_NEUTRAL | Affect_JOY | Affect_SADNESS | Affect_ANGER | Affect_FEAR | Affect_SURPRISE
| Affect_DISGUST | Affect_CALM | Affect_CONCERN | Affect_CONFUSION | Affect_EXCITEMENT

fun affect_value :: "AffectLabel \<Rightarrow> pystr" where
  "affect_value Affect_NEUTRAL = lit ''neutral''"
| "affect_value Affect_JOY = lit ''joy''"
| "affect_value Affect_SADNESS = lit ''sadness''"
| "affect_value Affect_ANGER = lit ''anger''"
| "affect_value Affect_FEAR = lit ''fear''"
| "affect_value Affect_SURPRISE = lit ''surprise''"
| "affect_value Affect_DISGUST = lit ''disgust''"
| "affect_value Affect_CALM = lit ''calm''"
| "affect_value Affect_CONCERN = lit ''concern''"
| "affect_value Affect_CONFUSION = lit ''confusion''"
| "affect_value Affect_EXCITEMENT = lit ''excitement''"

datatype GestureKind =
  Gesture_NEUTRAL | Gesture_NOD | Gesture_SHAKE_HEAD | Gesture_WAVE | Gesture_SHRUG
| Gesture_POINT_LEFT | Gesture_POINT_RIGHT | Gesture_CELEBRATE | Gesture_THINK | Gesture_ACKNOWLEDGE

fun gesture_value :: "GestureKind \<Rightarrow> pystr" where
  "gesture_value Gesture_NEUTRAL = lit ''neutral''"
| "gesture_value Gesture_NOD = lit ''nod''"
| "gesture_value Gesture_SHAKE_HEAD = lit ''shake_head''"
| "gesture_value Gesture_WAVE = lit ''wave''"
| "gesture_value Gesture_SHRUG = lit ''shrug''"
| "gesture_value Gesture_POINT_LEFT = lit ''point_left''"
| "gesture_value Gesture_POINT_RIGHT = lit ''point_right''"
| "gesture_value Gesture_CELEBRATE = lit ''celebrate''"
| "gesture_value Gesture_THINK = lit ''think''"
| "gesture_value Gesture_ACKNOWLEDGE = lit ''acknowledge''"

datatype GazeTarget =
  Gaze_NEUTRAL | Gaze_USER | Gaze_CAMERA | Gaze_SCREEN | Gaze_LEFT | Gaze_RIGHT | Gaze_UP
| Gaze_DOWN | Gaze_AWAY

fun gaze_value :: "GazeTarget \<Rightarrow> pystr" where
  "gaze_value Gaze_NEUTRAL = lit ''neutral''"
| "gaze_value Gaze_USER = lit ''user''"
| "gaze_value Gaze_CAMERA = lit ''camera''"
| "gaze_value Gaze_SCREEN = lit ''screen''"
| "gaze_value Gaze_LEFT = lit ''left''"
| "gaze_value Gaze_RIGHT = lit ''right''"
| "gaze_value Gaze_UP = lit ''up''"
| "gaze_value Gaze_DOWN = lit ''down''"
| "gaze_value Gaze_AWAY = lit ''away''"

datatype PostureKind =
  Posture_NEUTRAL | Posture_RELAXED | Posture_ATTENTIVE | Posture_OPEN | Posture_CLOSED
| Posture_LEAN_FORWARD | Posture_LEAN_BACK | Posture_THINKING

fun posture_value :: "PostureKind \<Rightarrow> pystr" where
  "posture_value Posture_NEUTRAL = lit ''neutral''"
| "posture_value Posture_RELAXED = lit ''relaxed''"
| "posture_value Posture_ATTENTIVE = lit ''attentive''"
| "posture_value Posture_OPEN = lit ''open''"
| "posture_value Posture_CLOSED = lit ''closed''"
| "posture_value Posture_LEAN_FORWARD = lit ''lean_forward''"
| "posture_value Posture_LEAN_BACK = lit ''lean_back''"
| "posture_value Posture_THINKING = lit ''thinking''"

text \<open>
  \<open>SemanticIntent\<close> is what the other components read of an intent; \<open>CueIntent\<close> is the union of
  the four classes that implement it.
\<close>

record SemanticIntent =
  si_layer :: PresentationLayer
  si_semantic_key :: pystr
  si_intensity :: pyfloat

datatype CueIntent =
  AffectIntent pyfloat pyfloat "AffectLabel option" pyfloat
| GestureIntent GestureKind pyfloat
| GazeIntent GazeTarget pyfloat
| PostureIntent PostureKind pyfloat

fun check_intent :: "CueIntent \<Rightarrow> avatar_error option" where
  "check_intent (AffectIntent valence arousal label intensity) = first_error
     [require_signed_unit valence ''valence'', require_unit_interval arousal ''arousal'',
      require_unit_interval intensity ''intensity'']"
| "check_intent (GestureIntent g intensity) = require_unit_interval intensity ''intensity''"
| "check_intent (GazeIntent g intensity) = require_unit_interval intensity ''intensity''"
| "check_intent (PostureIntent p intensity) = require_unit_interval intensity ''intensity''"

definition effective_label :: "pyfloat \<Rightarrow> pyfloat \<Rightarrow> AffectLabel option \<Rightarrow> AffectLabel" where
  "effective_label valence arousal label =
     (case label of
        Some l \<Rightarrow> l
      | None \<Rightarrow>
          if fle f_0_2 valence then (if fle f_0_75 arousal then Affect_EXCITEMENT else Affect_JOY)
          else if fle valence (fneg f_0_2)
            then (if fle f_0_65 arousal then Affect_ANGER else Affect_SADNESS)
          else if fle f_0_8 arousal then Affect_SURPRISE
          else Affect_NEUTRAL)"

definition semantic_key :: "PresentationLayer \<Rightarrow> pystr \<Rightarrow> pystr" where
  "semantic_key l v = layer_value l @ lit ''.'' @ v"

fun semantic_of :: "CueIntent \<Rightarrow> SemanticIntent" where
  "semantic_of (AffectIntent valence arousal label intensity) =
     \<lparr>si_layer = Layer_AFFECT,
      si_semantic_key = semantic_key Layer_AFFECT (affect_value (effective_label valence arousal label)),
      si_intensity = intensity\<rparr>"
| "semantic_of (GestureIntent g intensity) =
     \<lparr>si_layer = Layer_GESTURE, si_semantic_key = semantic_key Layer_GESTURE (gesture_value g),
      si_intensity = intensity\<rparr>"
| "semantic_of (GazeIntent t intensity) =
     \<lparr>si_layer = Layer_GAZE, si_semantic_key = semantic_key Layer_GAZE (gaze_value t),
      si_intensity = intensity\<rparr>"
| "semantic_of (PostureIntent p intensity) =
     \<lparr>si_layer = Layer_POSTURE, si_semantic_key = semantic_key Layer_POSTURE (posture_value p),
      si_intensity = intensity\<rparr>"

section \<open>Cues\<close>

datatype CueSource =
  Source_OPERATOR | Source_SPEECH_SYNC | Source_SCRIPTED_SHOW | Source_INTERACTION_STATE
| Source_MODEL | Source_GAME_EVENT | Source_REACTIVE_IDLE

datatype CuePriority =
  Cue_REACTIVE_IDLE | Cue_GAME_EVENT | Cue_MODEL | Cue_INTERACTION_STATE | Cue_SCRIPTED_SHOW
| Cue_SPEECH_SYNC | Cue_OPERATOR_OVERRIDE

fun cue_priority :: "CuePriority \<Rightarrow> int" where
  "cue_priority Cue_REACTIVE_IDLE = 10"
| "cue_priority Cue_GAME_EVENT = 20"
| "cue_priority Cue_MODEL = 30"
| "cue_priority Cue_INTERACTION_STATE = 40"
| "cue_priority Cue_SCRIPTED_SHOW = 50"
| "cue_priority Cue_SPEECH_SYNC = 60"
| "cue_priority Cue_OPERATOR_OVERRIDE = 70"

fun priority_for_source :: "CueSource \<Rightarrow> CuePriority" where
  "priority_for_source Source_REACTIVE_IDLE = Cue_REACTIVE_IDLE"
| "priority_for_source Source_GAME_EVENT = Cue_GAME_EVENT"
| "priority_for_source Source_MODEL = Cue_MODEL"
| "priority_for_source Source_INTERACTION_STATE = Cue_INTERACTION_STATE"
| "priority_for_source Source_SCRIPTED_SHOW = Cue_SCRIPTED_SHOW"
| "priority_for_source Source_SPEECH_SYNC = Cue_SPEECH_SYNC"
| "priority_for_source Source_OPERATOR = Cue_OPERATOR_OVERRIDE"

datatype BlendMode = Blend_REPLACE | Blend_ADDITIVE | Blend_CROSS_FADE

datatype BlendCurve = Curve_LINEAR | Curve_EASE_IN | Curve_EASE_OUT | Curve_EASE_IN_OUT

record BlendSpec =
  bl_mode :: BlendMode
  bl_curve :: BlendCurve
  bl_fade_in_s :: pyfloat
  bl_fade_out_s :: pyfloat
  bl_weight :: pyfloat

definition default_blend :: BlendSpec where
  "default_blend = \<lparr>bl_mode = Blend_CROSS_FADE, bl_curve = Curve_EASE_IN_OUT,
     bl_fade_in_s = f_0_12, bl_fade_out_s = f_0_16, bl_weight = Fin 1\<rparr>"

definition check_blend :: "BlendSpec \<Rightarrow> avatar_error option" where
  "check_blend b = first_error
     [require_non_negative (bl_fade_in_s b) ''fade_in_s'',
      require_non_negative (bl_fade_out_s b) ''fade_out_s'',
      require_unit_interval (bl_weight b) ''weight'']"

datatype AudioAnchor =
  Anchor_UTTERANCE_START | Anchor_SEGMENT_START | Anchor_WORD | Anchor_VISEME | Anchor_UTTERANCE_END

definition marker_anchors :: "AudioAnchor set" where
  "marker_anchors = {Anchor_SEGMENT_START, Anchor_WORD, Anchor_VISEME}"

record AudioTimelineBinding =
  ab_utterance_id :: pystr
  ab_anchor :: AudioAnchor
  ab_marker_id :: "pystr option"
  ab_offset_s :: pyfloat

definition require_marker :: "AudioAnchor \<Rightarrow> pystr option \<Rightarrow> avatar_error option" where
  "require_marker anchor marker =
     (if anchor \<in> marker_anchors \<and> marker = None then Some Marker_required
      else optionally (\<lambda>m. require_identifier m ''marker_id'') marker)"

definition check_binding :: "AudioTimelineBinding \<Rightarrow> avatar_error option" where
  "check_binding b = first_error
     [require_identifier (ab_utterance_id b) ''utterance_id'', require_finite (ab_offset_s b) ''offset_s'',
      require_marker (ab_anchor b) (ab_marker_id b)]"

record AudioTimelineMarker =
  am_utterance_id :: pystr
  am_generation :: int
  am_anchor :: AudioAnchor
  am_occurred_at :: pyfloat
  am_marker_id :: "pystr option"

definition check_marker :: "AudioTimelineMarker \<Rightarrow> avatar_error option" where
  "check_marker m = first_error
     [require_identifier (am_utterance_id m) ''utterance_id'', require_generation (am_generation m),
      require_finite (am_occurred_at m) ''occurred_at'',
      require_marker (am_anchor m) (am_marker_id m)]"

type_synonym timeline_key = "pystr \<times> AudioAnchor \<times> pystr option"

definition marker_key :: "AudioTimelineMarker \<Rightarrow> timeline_key" where
  "marker_key m = (am_utterance_id m, am_anchor m, am_marker_id m)"

record CueRequest =
  rq_cue_id :: pystr
  rq_generation :: int
  rq_intent :: SemanticIntent
  rq_requested_at :: pyfloat
  rq_source :: CueSource
  rq_priority :: "CuePriority option"
  rq_ttl_s :: pyfloat
  rq_lease_s :: "pyfloat option"
  rq_audio_binding :: "AudioTimelineBinding option"
  rq_limits_exempt :: bool

definition check_cue_request :: "CueRequest \<Rightarrow> avatar_error option" where
  "check_cue_request r = first_error
     [require_identifier (rq_cue_id r) ''cue_id'', require_generation (rq_generation r),
      require_finite (rq_requested_at r) ''requested_at'', require_positive (rq_ttl_s r) ''ttl_s'',
      optionally (\<lambda>l. require_positive l ''lease_s'') (rq_lease_s r)]"

definition effective_priority :: "CueRequest \<Rightarrow> CuePriority" where
  "effective_priority r =
     (case rq_priority r of Some p \<Rightarrow> p | None \<Rightarrow> priority_for_source (rq_source r))"

definition request_not_after :: "CueRequest \<Rightarrow> pyfloat" where
  "request_not_after r = fadd (rq_requested_at r) (rq_ttl_s r)"

record PresentationCue =
  pc_cue_id :: pystr
  pc_generation :: int
  pc_layer :: PresentationLayer
  pc_semantic_key :: pystr
  pc_adapter_action :: "pystr option"
  pc_intensity :: pyfloat
  pc_priority :: CuePriority
  pc_requested_at :: pyfloat
  pc_not_after :: "pyfloat option"
  pc_lease_s :: "pyfloat option"
  pc_resources :: "pystr fset"
  pc_blend :: BlendSpec
  pc_cooldown_key :: "pystr option"
  pc_cooldown_s :: pyfloat
  pc_audio_binding :: "AudioTimelineBinding option"
  pc_source :: CueSource
  pc_neutral :: bool
  pc_limits_exempt :: bool
  pc_fallback_from :: "pystr option"

definition in_namespace :: "PresentationLayer \<Rightarrow> pystr \<Rightarrow> bool" where
  "in_namespace l key \<longleftrightarrow> take (length (layer_value l) + 1) key = layer_value l @ lit ''.''"

definition require_not_after :: "pyfloat \<Rightarrow> pyfloat \<Rightarrow> avatar_error option" where
  "require_not_after requested_at t =
     (if \<not> isfinite t then Some (Not_finite ''not_after'')
      else if flt t requested_at then Some Precedes_request else None)"

definition require_resources :: "pystr fset \<Rightarrow> avatar_error option" where
  "require_resources rs = (if fBall rs is_identifier then None else Some (Bad_identifier ''resource''))"

definition check_cue :: "PresentationCue \<Rightarrow> avatar_error option" where
  "check_cue c = first_error
     [require_identifier (pc_cue_id c) ''cue_id'',
      require_generation (pc_generation c),
      require_identifier (pc_semantic_key c) ''semantic_key'',
      (if in_namespace (pc_layer c) (pc_semantic_key c) then None else Some Namespace_mismatch),
      optionally (\<lambda>a. require_identifier a ''adapter_action'') (pc_adapter_action c),
      require_unit_interval (pc_intensity c) ''intensity'',
      require_finite (pc_requested_at c) ''requested_at'',
      optionally (require_not_after (pc_requested_at c)) (pc_not_after c),
      optionally (\<lambda>l. require_positive l ''lease_s'') (pc_lease_s c),
      require_non_negative (pc_cooldown_s c) ''cooldown_s'',
      optionally (\<lambda>k. require_identifier k ''cooldown_key'') (pc_cooldown_key c),
      require_resources (pc_resources c),
      optionally (\<lambda>k. require_identifier k ''fallback_from'') (pc_fallback_from c)]"

section \<open>Leases, events and results\<close>

record ActiveLease =
  al_cue :: PresentationCue
  al_started_at :: pyfloat
  al_expires_at :: "pyfloat option"

definition require_expiry :: "pyfloat \<Rightarrow> pyfloat \<Rightarrow> avatar_error option" where
  "require_expiry started t =
     (if \<not> isfinite t then Some (Not_finite ''expires_at'')
      else if flt t started then Some Expires_before_start else None)"

definition check_lease :: "ActiveLease \<Rightarrow> avatar_error option" where
  "check_lease l = first_error
     [require_finite (al_started_at l) ''started_at'',
      optionally (require_expiry (al_started_at l)) (al_expires_at l)]"

datatype PresentationEventKind = Event_STARTED | Event_STOPPED

datatype StopReason =
  Stop_PREEMPTED | Stop_LEASE_EXPIRED | Stop_CANCELLED | Stop_GENERATION_ADVANCED
| Stop_DISCONNECTED | Stop_ADAPTER_FAILURE

record PresentationEvent =
  pe_sequence :: int
  pe_kind :: PresentationEventKind
  pe_cue :: PresentationCue
  pe_occurred_at :: pyfloat
  pe_reason :: "StopReason option"
  pe_replaced_by :: "pystr option"

datatype ScheduleStatus =
  Sched_STARTED | Sched_PENDING_AUDIO | REJECTED_STALE_GENERATION | REJECTED_FUTURE_GENERATION
| REJECTED_EXPIRED | REJECTED_DUPLICATE | REJECTED_PRIORITY | REJECTED_COOLDOWN
| REJECTED_RATE_LIMIT | REJECTED_QUEUE_FULL | REJECTED_DISCONNECTED

text \<open>
  \<open>detail\<close> is diagnostic text; the pieces the code formats into it are kept as data.
\<close>

datatype detail =
  Detail_text pystr | Detail_blocked_by pystr | Detail_bound_for pyfloat | Detail_cooldown pystr

record ScheduleResult =
  sr_status :: ScheduleStatus
  sr_cue :: PresentationCue
  sr_events :: "PresentationEvent list"
  sr_detail :: "detail option"

end
