(* ===== verification/DialogueTypes.thy ===== *)
theory DialogueTypes
  imports PcmTypes PyJson AvatarTypes
begin

text \<open>
  The values of \<^verbatim>\<open>dialogue/types.py\<close> that the model adapter, the assembler and the dialogue
  pipeline exchange, with their constructor checks. Token counts are \<open>int\<close>s here (the code
  also refuses a \<open>bool\<close>); the metadata mapping is an association list.
\<close>

datatype ModelStopReason = Stop_COMPLETE | Stop_LENGTH | Stop_CANCELLED | Stop_ERROR

record DialogueRequest =
  dq_session_id :: uuid
  dq_turn_id :: uuid
  dq_generation :: int
  dq_user_text :: pystr
  dq_system_context :: pystr
  dq_metadata :: "(pystr \<times> pystr) list"

datatype request_error = Generation_negative | User_text_blank

definition check_dialogue_request :: "DialogueRequest \<Rightarrow> request_error option" where
  "check_dialogue_request q =
     (if dq_generation q < 0 then Some Generation_negative
      else if blank (dq_user_text q) then Some User_text_blank
      else None)"

datatype ModelStreamEvent =
  ModelTextDelta pystr
  | ModelCompleted ModelStopReason "int option" "int option"

datatype token_field = Input_tokens_invalid | Output_tokens_invalid

definition check_token_counts :: "int option \<Rightarrow> int option \<Rightarrow> token_field option" where
  "check_token_counts tokens_in tokens_out = first_error
     [(case tokens_in of Some n \<Rightarrow> if n < 0 then Some Input_tokens_invalid else None | None \<Rightarrow> None),
      (case tokens_out of Some n \<Rightarrow> if n < 0 then Some Output_tokens_invalid else None | None \<Rightarrow> None)]"

record segment =
  sg_sequence :: nat
  sg_speakable_text :: pystr
  sg_display_text :: pystr
  sg_segment_id :: uuid
  sg_affect :: "pystr option"
  sg_delivery :: "pystr option"
  sg_cues :: "CueIntent list"

datatype segment_error = SegmentTextBlank

text \<open>\<open>UtteranceSegment.__post_init__\<close> (the sequence is a natural number here).\<close>

definition check_segment :: "segment \<Rightarrow> segment_error option" where
  "check_segment s =
     (if blank (sg_speakable_text s) \<or> blank (sg_display_text s) then Some SegmentTextBlank else None)"

record UtterancePlan =
  up_turn_id :: uuid
  up_generation :: int
  up_segments :: "segment list"
  up_stop_reason :: ModelStopReason
  up_input_tokens :: "int option"
  up_output_tokens :: "int option"

definition check_utterance_plan :: "UtterancePlan \<Rightarrow> token_field option" where
  "check_utterance_plan p = check_token_counts (up_input_tokens p) (up_output_tokens p)"

definition plan_speakable_text :: "UtterancePlan \<Rightarrow> pystr" where
  "plan_speakable_text p = join_with [32] (map sg_speakable_text (up_segments p))"

definition plan_display_text :: "UtterancePlan \<Rightarrow> pystr" where
  "plan_display_text p = join_with [32] (map sg_display_text (up_segments p))"

record AudioChunk =
  ac_segment_id :: uuid
  ac_sequence :: int
  ac_chunk_index :: int
  ac_audio :: bytes
  ac_media_type :: pystr
  ac_sample_rate_hz :: int
  ac_is_final :: bool
  ac_duration_ms :: "int option"

datatype chunk_error = Audio_number_negative | Sample_rate_not_positive

definition check_audio_chunk :: "AudioChunk \<Rightarrow> chunk_error option" where
  "check_audio_chunk c =
     (if ac_sequence c < 0 \<or> ac_chunk_index c < 0 then Some Audio_number_negative
      else if ac_sample_rate_hz c \<le> 0 then Some Sample_rate_not_positive
      else None)"

text \<open>The three events of a reply: \<open>SegmentReady\<close>, \<open>SegmentAudioReady\<close>, \<open>UtteranceCompleted\<close>.\<close>

datatype DialogueStreamEvent =
  SegmentReady uuid int segment
  | SegmentAudioReady uuid int segment AudioChunk
  | UtteranceCompleted uuid int UtterancePlan

end
