(* ===== verification/Assembler.thy ===== *)
theory Assembler
  imports DialogueTypes "HOL-Library.Sublist"
begin

text \<open>
  The incremental assembler of \<^verbatim>\<open>dialogue/assembler.py\<close>, which turns text deltas into speech
  segments. \<open>uuid4\<close> gives the identity of the n-th segment: the parameter \<open>fresh\<close>. The loop
  of \<open>push\<close> has no structural bound (with a tiny \<open>max_segment_chars\<close>, which the constructor
  refuses, it would not end), so it is a partial function; that it returns is proved.
\<close>

section \<open>Model\<close>

datatype assembler_error = MaxSegmentCharsTooSmall | Segment_refused segment_error

record assembler =
  as_max_segment_chars :: nat
  as_buffer :: pystr
  as_segments :: "segment list"

definition assembler_init :: "int \<Rightarrow> assembler_error + assembler" where
  "assembler_init m =
     (if m < 20 then Inl MaxSegmentCharsTooSmall
      else Inr \<lparr>as_max_segment_chars = nat m, as_buffer = [], as_segments = []\<rparr>)"

text \<open>
  The pattern \<^verbatim>\<open>[.!?](?:\s+|$)|[\u3002\uff01\uff1f]|\n+\<close> at the head of a string: the length
  of the match. (\<^verbatim>\<open>$\<close> also matches before a final newline, but then \<^verbatim>\<open>\s+\<close> matches it.)
\<close>

definition match_here :: "pystr \<Rightarrow> nat option" where
  "match_here s =
     (case s of
        [] \<Rightarrow> None
      | c # r \<Rightarrow>
          if c = 46 \<or> c = 33 \<or> c = 63 then
            (let w = takeWhile isspace r
             in if w \<noteq> [] then Some (1 + length w) else if r = [] then Some 1 else None)
          else if c = 0x3002 \<or> c = 0xFF01 \<or> c = 0xFF1F then Some 1
          else if c = 10 then Some (1 + length (takeWhile (\<lambda>d. d = 10) r))
          else None)"

text \<open>\<open>_BOUNDARY.search\<close>: the start and end of the leftmost match.\<close>

fun search_boundary :: "pystr \<Rightarrow> (nat \<times> nat) option" where
  "search_boundary [] = None"
| "search_boundary (c # s) =
     (case match_here (c # s) of
        Some n \<Rightarrow> Some (0, n)
      | None \<Rightarrow> map_option (\<lambda>(i, j). (Suc i, Suc j)) (search_boundary s))"

text \<open>\<open>text.rfind(" ", 0, n)\<close>, \<open>None\<close> for -1.\<close>

fun rfind_space :: "pystr \<Rightarrow> nat \<Rightarrow> nat option" where
  "rfind_space s 0 = None"
| "rfind_space s (Suc n) = (if n < length s \<and> s ! n = 32 then Some n else rfind_space s n)"

definition safe_cut :: "pystr \<Rightarrow> nat \<Rightarrow> nat" where
  "safe_cut text preferred =
     (case rfind_space text (preferred + 1) of
        Some w \<Rightarrow> if preferred div 2 \<le> w then w else preferred
      | None \<Rightarrow> preferred)"

definition make_segment :: "(nat \<Rightarrow> uuid) \<Rightarrow> segment list \<Rightarrow> pystr \<Rightarrow> segment" where
  "make_segment fresh segs text =
     \<lparr>sg_sequence = length segs, sg_speakable_text = text, sg_display_text = text,
      sg_segment_id = fresh (length segs), sg_affect = None, sg_delivery = None, sg_cues = []\<rparr>"

text \<open>
  The loop of \<open>push\<close> on the buffer and the segments so far. \<open>Some (Inl e)\<close> is an exception of
  the segment constructor, \<open>None\<close> a loop that does not end.
\<close>

definition add_segment :: "(nat \<Rightarrow> uuid) \<Rightarrow> segment list \<Rightarrow> pystr \<Rightarrow> assembler_error + segment list" where
  "add_segment fresh segs candidate =
     (if candidate = [] then Inr segs
      else (let s = make_segment fresh segs candidate
            in case check_segment s of Some e \<Rightarrow> Inl (Segment_refused e) | None \<Rightarrow> Inr (segs @ [s])))"

partial_function (option) push_loop ::
  "(nat \<Rightarrow> uuid) \<Rightarrow> nat \<Rightarrow> pystr \<Rightarrow> segment list \<Rightarrow> (assembler_error + pystr \<times> segment list) option" where
  "push_loop fresh mc buf segs =
     (case search_boundary buf of
        Some (start, stop) \<Rightarrow>
          (let cut = (if buf ! start = 10 then start else start + 1)
           in (case add_segment fresh segs (strip (take cut buf)) of
                 Inl e \<Rightarrow> Some (Inl e)
               | Inr segs' \<Rightarrow> push_loop fresh mc (drop stop buf) segs'))
      | None \<Rightarrow>
          if mc \<le> length buf then
            (let cut = safe_cut buf mc
             in (case add_segment fresh segs (strip (take cut buf)) of
                   Inl e \<Rightarrow> Some (Inl e)
                 | Inr segs' \<Rightarrow> push_loop fresh mc (lstrip (drop cut buf)) segs'))
          else Some (Inr (buf, segs)))"

declare push_loop.simps [code]

text \<open>\<open>push\<close> returns the segments emitted by this call.\<close>

definition push ::
  "(nat \<Rightarrow> uuid) \<Rightarrow> assembler \<Rightarrow> pystr \<Rightarrow> (assembler_error + segment list \<times> assembler) option" where
  "push fresh a delta =
     (if delta = [] then Some (Inr ([], a))
      else
        (case push_loop fresh (as_max_segment_chars a) (as_buffer a @ delta) (as_segments a) of
           None \<Rightarrow> None
         | Some (Inl e) \<Rightarrow> Some (Inl e)
         | Some (Inr (buf, segs)) \<Rightarrow>
             Some (Inr (drop (length (as_segments a)) segs,
                        a\<lparr>as_buffer := buf, as_segments := segs\<rparr>))))"

definition finish :: "(nat \<Rightarrow> uuid) \<Rightarrow> assembler \<Rightarrow> assembler_error + segment list \<times> assembler" where
  "finish fresh a =
     (case add_segment fresh (as_segments a) (strip (as_buffer a)) of
        Inl e \<Rightarrow> Inl e
      | Inr segs \<Rightarrow>
          Inr (drop (length (as_segments a)) segs, a\<lparr>as_buffer := [], as_segments := segs\<rparr>))"

section \<open>Facts\<close>

lemma isspace_newline [simp]: "isspace 10"
  by (simp add: isspace_def)

lemma visible_dropWhile_newlines: "visible (dropWhile (\<lambda>d. d = 10) r) = visible r"
  by (induction r) (auto simp: visible_def)

lemma visible_Cons: "visible (c # s) = (if isspace c then visible s else c # visible s)"
  by (simp add: visible_def)

text \<open>A match consumes at least one character, and what is dropped beyond the cut is white space.\<close>

lemma match_here_visible:
  assumes "match_here s = Some n"
  shows "1 \<le> n" "n \<le> length s" "visible (take (if s ! 0 = 10 then 0 else 1) s) @ visible (drop n s) = visible s"
proof -
  obtain c r where s: "s = c # r" using assms by (cases s) (auto simp: match_here_def)
  have ws: "drop (length (takeWhile isspace r)) r = dropWhile isspace r"
    "drop (length (takeWhile (\<lambda>d. d = 10) r)) r = dropWhile (\<lambda>d. d = 10) r"
    by (simp_all add: dropWhile_eq_drop)
  have len: "length (takeWhile isspace r) \<le> length r" "length (takeWhile (\<lambda>d. d = 10) r) \<le> length r"
    by (rule length_takeWhile_le)+
  from assms consider
    (stop) "c \<noteq> 10" "n = 1 + length (takeWhile isspace r)"
  | (wide) "c \<noteq> 10" "n = 1"
  | (newline) "c = 10" "n = 1 + length (takeWhile (\<lambda>d. d = 10) r)"
    unfolding match_here_def s by (auto simp: Let_def split: if_splits)
  then show "1 \<le> n" "n \<le> length s" "visible (take (if s ! 0 = 10 then 0 else 1) s) @ visible (drop n s) = visible s"
    by (cases; simp add: s ws len visible_dropWhile visible_dropWhile_newlines visible_Cons)+
qed

lemma search_boundary_split:
  assumes "search_boundary s = Some (i, j)"
  shows "i < j \<and> j \<le> length s \<and>
    visible (take (if s ! i = 10 then i else i + 1) s) @ visible (drop j s) = visible s"
  using assms
proof (induction s arbitrary: i j)
  case (Cons c s)
  show ?case
  proof (cases "match_here (c # s)")
    case (Some n)
    then show ?thesis using Cons.prems match_here_visible [OF Some] by (auto split: if_splits)
  next
    case None
    then obtain i' j' where "search_boundary s = Some (i', j')" "i = Suc i'" "j = Suc j'"
      using Cons.prems by auto
    then show ?thesis using Cons.IH [of i' j'] by (auto simp: visible_Cons split: if_splits)
  qed
qed simp

lemma rfind_space_less: "rfind_space s n = Some w \<Longrightarrow> w < n"
  by (induction n) (auto split: if_splits)

lemma safe_cut_bounds:
  assumes "20 \<le> mc"
  shows "10 \<le> safe_cut s mc" "safe_cut s mc \<le> mc"
  using assms rfind_space_less [of s "mc + 1"] by (auto simp: safe_cut_def split: option.splits)

text \<open>The segments list only grows, by non-blank segments numbered from its length.\<close>

definition segments_ok :: "(nat \<Rightarrow> uuid) \<Rightarrow> segment list \<Rightarrow> bool" where
  "segments_ok fresh segs \<longleftrightarrow>
     (\<forall>i < length segs. sg_sequence (segs ! i) = i \<and> sg_segment_id (segs ! i) = fresh i \<and>
        sg_display_text (segs ! i) = sg_speakable_text (segs ! i) \<and>
        \<not> blank (sg_speakable_text (segs ! i)) \<and> strip (sg_speakable_text (segs ! i)) = sg_speakable_text (segs ! i))"

definition spoken :: "segment list \<Rightarrow> pystr" where
  "spoken segs = concat (map sg_speakable_text segs)"

lemma rstrip_idem [simp]: "rstrip (rstrip s) = rstrip s"
  by (simp add: rstrip_def)

lemma lstrip_rstrip_fixed: "lstrip s = s \<Longrightarrow> lstrip (rstrip s) = rstrip s"
proof (cases s)
  case (Cons c t)
  assume "lstrip s = s"
  then have "\<not> isspace c"
    using Cons length_dropWhile_le [of isspace t] by (auto simp: lstrip_def split: if_splits)
  moreover have "prefix (rstrip s) s"
    unfolding rstrip_def
    by (metis prefixI rev_append rev_rev_ident takeWhile_dropWhile_id)
  ultimately show ?thesis using Cons by (cases "rstrip s") (auto simp: lstrip_def)
qed (simp add: lstrip_def rstrip_def)

lemma strip_idem [simp]: "strip (strip s) = strip s"
proof -
  have "lstrip (lstrip s) = lstrip s" by (simp add: lstrip_def)
  then have "lstrip (strip s) = strip s" unfolding strip_def by (rule lstrip_rstrip_fixed)
  then show ?thesis by (simp add: strip_def)
qed

lemma add_segment_ok:
  assumes "segments_ok fresh segs"
  obtains segs' where "add_segment fresh segs (strip t) = Inr segs'" "segments_ok fresh segs'"
    "take (length segs) segs' = segs" "visible (spoken segs') = visible (spoken segs) @ visible t"
proof (cases "strip t = []")
  case True
  then have "visible t = []" by (simp add: visible_Nil_iff blank_def)
  then show thesis using that [of segs] assms True by (simp add: add_segment_def)
next
  case False
  then have "\<not> blank (strip t)" by (simp add: blank_def)
  then show thesis
    using that [of "segs @ [make_segment fresh segs (strip t)]"] assms False
    by (auto simp: add_segment_def check_segment_def make_segment_def segments_ok_def spoken_def nth_append
        Let_def less_Suc_eq)
qed

lemma take_take_prefix:
  "take (length xs) ys = xs \<Longrightarrow> take (length ys) zs = ys \<Longrightarrow> take (length xs) zs = xs"
  by (metis length_take min.absorb_iff2 min_def take_take)

lemma push_loop_ok:
  assumes "20 \<le> mc" "segments_ok fresh segs"
  shows "\<exists>buf' segs'. push_loop fresh mc buf segs = Some (Inr (buf', segs')) \<and> segments_ok fresh segs' \<and>
    take (length segs) segs' = segs \<and> visible (spoken segs') @ visible buf' = visible (spoken segs) @ visible buf \<and>
    length buf' < mc \<and> search_boundary buf' = None"
  using assms(2)
proof (induction "length buf" arbitrary: buf segs rule: less_induct)
  case less
  have step: ?case
    if "push_loop fresh mc buf segs = (case add_segment fresh segs (strip t) of
          Inl e \<Rightarrow> Some (Inl e) | Inr segs' \<Rightarrow> push_loop fresh mc rest segs')"
      "length rest < length buf" "visible t @ visible rest = visible buf" for t rest
  proof -
    from add_segment_ok [OF less.prems, of t] obtain segs1 where
      s1: "add_segment fresh segs (strip t) = Inr segs1" "segments_ok fresh segs1"
        "take (length segs) segs1 = segs" "visible (spoken segs1) = visible (spoken segs) @ visible t" .
    from less.hyps [OF that(2) s1(2)] obtain buf' segs' where
      r: "push_loop fresh mc rest segs1 = Some (Inr (buf', segs'))" "segments_ok fresh segs'"
      "take (length segs1) segs' = segs1"
      "visible (spoken segs') @ visible buf' = visible (spoken segs1) @ visible rest"
      "length buf' < mc" "search_boundary buf' = None" by blast
    have "push_loop fresh mc buf segs = Some (Inr (buf', segs'))" by (simp add: that(1) s1(1) r(1))
    moreover have "visible (spoken segs') @ visible buf' = visible (spoken segs) @ visible buf"
      using r(4) s1(4) that(3) by simp
    ultimately show ?thesis using r(2,5,6) take_take_prefix [OF s1(3) r(3)] by blast
  qed
  show ?case
  proof (cases "search_boundary buf")
    case (Some p)
    obtain i j where p: "p = (i, j)" by (cases p)
    note sb = search_boundary_split [OF Some [unfolded p]]
    have shorter: "length buf - j < length buf" using sb by linarith
    show ?thesis
      by (rule step [where t = "take (if buf ! i = 10 then i else i + 1) buf" and rest = "drop j buf"])
        (use sb shorter in \<open>simp_all add: push_loop.simps [of fresh mc buf] Some p Let_def\<close>)
  next
    case None
    show ?thesis
    proof (cases "mc \<le> length buf")
      case True
      let ?cut = "safe_cut buf mc"
      have "1 \<le> ?cut" "?cut \<le> length buf" using safe_cut_bounds [OF assms(1), of buf] True by auto
      then have "length (lstrip (drop ?cut buf)) < length buf"
        using length_lstrip_le [of "drop ?cut buf"] by simp
      moreover have "visible (take ?cut buf) @ visible (lstrip (drop ?cut buf)) = visible buf"
        by (metis append_take_drop_id visible_append visible_lstrip)
      ultimately show ?thesis
        by (intro step [where t = "take ?cut buf" and rest = "lstrip (drop ?cut buf)"])
          (simp_all add: push_loop.simps [of fresh mc buf] None True Let_def)
    next
      case False
      then show ?thesis using None less.prems by (simp add: push_loop.simps [of fresh mc buf])
    qed
  qed
qed

definition assembler_inv :: "(nat \<Rightarrow> uuid) \<Rightarrow> assembler \<Rightarrow> bool" where
  "assembler_inv fresh a \<longleftrightarrow> 20 \<le> as_max_segment_chars a \<and> segments_ok fresh (as_segments a) \<and>
     length (as_buffer a) < as_max_segment_chars a \<and> search_boundary (as_buffer a) = None"

lemma push_ok:
  assumes "assembler_inv fresh a"
  shows "\<exists>emitted a'. push fresh a delta = Some (Inr (emitted, a')) \<and> assembler_inv fresh a' \<and>
    as_segments a' = as_segments a @ emitted \<and> as_max_segment_chars a' = as_max_segment_chars a \<and>
    visible (spoken (as_segments a')) @ visible (as_buffer a') =
      visible (spoken (as_segments a)) @ visible (as_buffer a) @ visible delta"
proof (cases "delta = []")
  case True
  then show ?thesis using assms by (simp add: push_def)
next
  case False
  from push_loop_ok [of "as_max_segment_chars a" fresh "as_segments a" "as_buffer a @ delta"] assms
  obtain buf segs where l: "push_loop fresh (as_max_segment_chars a) (as_buffer a @ delta) (as_segments a) = Some (Inr (buf, segs))"
    "segments_ok fresh segs" "take (length (as_segments a)) segs = as_segments a"
    "visible (spoken segs) @ visible buf = visible (spoken (as_segments a)) @ visible (as_buffer a @ delta)"
    "length buf < as_max_segment_chars a" "search_boundary buf = None"
    by (auto simp: assembler_inv_def)
  have "as_segments a @ drop (length (as_segments a)) segs = segs"
    using l(3) by (metis append_take_drop_id)
  then show ?thesis using False l assms by (simp add: push_def assembler_inv_def)
qed

text \<open>A whole reply: its deltas are pushed one after the other, then the assembler is finished.\<close>

fun push_all :: "(nat \<Rightarrow> uuid) \<Rightarrow> assembler \<Rightarrow> pystr list \<Rightarrow> (assembler_error + assembler) option" where
  "push_all fresh a [] = Some (Inr a)"
| "push_all fresh a (d # ds) =
     (case push fresh a d of
        None \<Rightarrow> None
      | Some (Inl e) \<Rightarrow> Some (Inl e)
      | Some (Inr (_, a')) \<Rightarrow> push_all fresh a' ds)"

definition assemble :: "(nat \<Rightarrow> uuid) \<Rightarrow> assembler \<Rightarrow> pystr list \<Rightarrow> (assembler_error + segment list) option" where
  "assemble fresh a ds =
     (case push_all fresh a ds of
        None \<Rightarrow> None
      | Some (Inl e) \<Rightarrow> Some (Inl e)
      | Some (Inr a') \<Rightarrow>
          (case finish fresh a' of Inl e \<Rightarrow> Some (Inl e) | Inr (_, a'') \<Rightarrow> Some (Inr (as_segments a''))))"

lemma push_all_ok:
  assumes "assembler_inv fresh a"
  shows "\<exists>a'. push_all fresh a ds = Some (Inr a') \<and> assembler_inv fresh a' \<and>
    visible (spoken (as_segments a')) @ visible (as_buffer a') =
      visible (spoken (as_segments a)) @ visible (as_buffer a) @ visible (concat ds)"
  using assms
proof (induction ds arbitrary: a)
  case (Cons d ds)
  from push_ok [OF Cons.prems, of d] obtain em a1 where a1: "push fresh a d = Some (Inr (em, a1))"
    "assembler_inv fresh a1" "visible (spoken (as_segments a1)) @ visible (as_buffer a1) =
      visible (spoken (as_segments a)) @ visible (as_buffer a) @ visible d" by blast
  then show ?case using Cons.IH [OF a1(2)] by (auto simp flip: append_assoc)
qed simp

lemma finish_ok:
  assumes "assembler_inv fresh a"
  shows "\<exists>em a'. finish fresh a = Inr (em, a') \<and> as_buffer a' = [] \<and> segments_ok fresh (as_segments a') \<and>
    visible (spoken (as_segments a')) = visible (spoken (as_segments a)) @ visible (as_buffer a)"
proof -
  have "segments_ok fresh (as_segments a)" using assms by (simp add: assembler_inv_def)
  from add_segment_ok [OF this, of "as_buffer a"] obtain segs' where
    "add_segment fresh (as_segments a) (strip (as_buffer a)) = Inr segs'" "segments_ok fresh segs'"
    "visible (spoken segs') = visible (spoken (as_segments a)) @ visible (as_buffer a)" by blast
  then show ?thesis by (simp add: finish_def)
qed

section \<open>Properties\<close>

text \<open>
  C27: assembling a reply always returns, whatever the deltas and however they split the text.
  No visible character is lost, duplicated or reordered: the concatenated segments carry
  exactly the non-space characters of the concatenated deltas. The segments are numbered
  0, 1, 2, ... without gaps, and none is blank or has space at its ends.
\<close>

theorem assemble_preserves_text:
  assumes "assembler_init m = Inr a"
  shows "\<exists>segs. assemble fresh a ds = Some (Inr segs) \<and> visible (spoken segs) = visible (concat ds) \<and>
    map sg_sequence segs = [0..<length segs] \<and>
    (\<forall>s \<in> set segs. \<not> blank (sg_speakable_text s) \<and> strip (sg_speakable_text s) = sg_speakable_text s)"
proof -
  have "assembler_inv fresh a" and a: "as_segments a = []" "as_buffer a = []"
    using assms by (auto simp: assembler_init_def assembler_inv_def segments_ok_def split: if_splits)
  from push_all_ok [OF this(1), of ds] obtain a1 where a1: "push_all fresh a ds = Some (Inr a1)" "assembler_inv fresh a1"
    "visible (spoken (as_segments a1)) @ visible (as_buffer a1) = visible (concat ds)"
    by (auto simp: a spoken_def)
  from finish_ok [OF a1(2)] obtain em a2 where a2: "finish fresh a1 = Inr (em, a2)" "segments_ok fresh (as_segments a2)"
    "visible (spoken (as_segments a2)) = visible (concat ds)" using a1(3) by auto
  have "map sg_sequence (as_segments a2) = [0..<length (as_segments a2)]"
    using a2(2) by (intro nth_equalityI) (auto simp: segments_ok_def)
  then show ?thesis
    using a1(1) a2 by (auto simp: assemble_def segments_ok_def in_set_conv_nth)
qed

theorem assemble_preserves_text_witness:
  "\<exists>a segs. assembler_init 20 = Inr a \<and> assemble (\<lambda>n. of_nat n) a [lit ''Hello wor'', lit ''ld. How a'', lit ''re you?''] = Some (Inr segs) \<and>
     map sg_sequence segs = [0..<length segs] \<and>
     visible (spoken segs) = visible (concat [lit ''Hello wor'', lit ''ld. How a'', lit ''re you?''])"
proof -
  obtain a where a: "assembler_init 20 = Inr a" by (simp add: assembler_init_def)
  from assemble_preserves_text [OF a, of "\<lambda>n. of_nat n" "[lit ''Hello wor'', lit ''ld. How a'', lit ''re you?'']"]
  show ?thesis using a by blast
qed

text \<open>
  After every delta the assembler waits with less than \<open>max_segment_chars\<close> characters and
  without a sentence boundary in its buffer, and what the calls returned so far is exactly the
  list of segments it recorded: complete sentences are emitted at once, and text without
  punctuation is cut when the cap is reached.
\<close>

theorem push_bounds_latency:
  assumes "assembler_init m = Inr a" and "push_all fresh a ds = Some (Inr b)"
  shows "\<exists>emitted c. push fresh b d = Some (Inr (emitted, c)) \<and> as_segments c = as_segments b @ emitted \<and>
    int (length (as_buffer c)) < m \<and> search_boundary (as_buffer c) = None"
proof -
  have inv: "assembler_inv fresh a" and m: "int (as_max_segment_chars a) = m"
    using assms(1) by (auto simp: assembler_init_def assembler_inv_def segments_ok_def split: if_splits)
  have same: "as_max_segment_chars b = as_max_segment_chars a \<and> assembler_inv fresh b"
    using assms(2) inv
  proof (induction ds arbitrary: a)
    case (Cons d ds)
    from push_ok [OF Cons.prems(2), of d] obtain em a1 where "push fresh a d = Some (Inr (em, a1))"
      "assembler_inv fresh a1" "as_max_segment_chars a1 = as_max_segment_chars a" by blast
    then show ?case using Cons by auto
  qed simp
  then show ?thesis
    using push_ok [of fresh b d] m by (auto simp: assembler_inv_def)
qed

theorem push_bounds_latency_witness:
  "\<exists>a em c. assembler_init 20 = Inr a \<and> push (\<lambda>n. of_nat n) a (lit ''no punctuation here at all'') = Some (Inr (em, c)) \<and>
     length (as_buffer c) < 20"
proof -
  obtain a where a: "assembler_init 20 = Inr a" by (simp add: assembler_init_def)
  from push_bounds_latency [OF a, of "\<lambda>n. of_nat n" "[]" a "lit ''no punctuation here at all''"]
  show ?thesis using a by auto
qed

end
