(* ===== verification/Promotion.thy ===== *)
theory Promotion
  imports PyFloat PcmTypes Events
begin

text \<open>
  The memory domain values of \<^verbatim>\<open>memory/models.py\<close> and the admission policy of
  \<^verbatim>\<open>memory/promotion.py\<close>. The length and range constraints that the models declare on their
  fields are enforced by the validation library when a value is built; they are the checks
  \<open>check_...\<close> here.
\<close>

section \<open>Memory values\<close>

datatype MemoryKind =
  Kind_CANON | Kind_PERSONA | Kind_USER_PROFILE | Kind_VIEWER_PROFILE | Kind_RELATIONSHIP
| Kind_SEMANTIC_FACT | Kind_EPISODE | Kind_ACTIVE_TASK | Kind_PROCEDURAL_SKILL | Kind_POLICY
| Kind_SECURITY

datatype ScopeKind =
  Scope_CHARACTER | Scope_OWNER | Scope_USER | Scope_VIEWER | Scope_RELATIONSHIP | Scope_CHANNEL
| Scope_SESSION | Scope_GLOBAL

datatype SourceKind =
  Source_OWNER_STATEMENT | Source_OWNER_EDIT | Source_TRUSTED_OPERATOR | Source_PRIVATE_CONVERSATION
| Source_PUBLIC_CHAT | Source_TOOL_OBSERVATION | Source_IMPORT | Source_MODEL_INFERENCE

datatype SourceTrust =
  ST_OWNER_AUTHORED | ST_OWNER_STATED | ST_TRUSTED_OPERATOR | ST_AUTHENTICATED_USER
| ST_TOOL_OBSERVATION | ST_MODEL_INFERENCE | ST_PUBLIC_VIEWER | ST_UNVERIFIED_IMPORT

datatype Sensitivity = Sens_PUBLIC | Sens_INTERNAL | Sens_PRIVATE | Sens_RESTRICTED

datatype MemoryVisibility = MV_STREAM_SAFE | MV_TRUSTED_CONTEXT | MV_PRIVATE_SESSION | MV_OWNER_ONLY

datatype CandidateStatus =
  Cand_PENDING | Cand_REVIEW_REQUIRED | Cand_QUARANTINED | Cand_REJECTED | Cand_COMMITTED

datatype RevisionStatus = Rev_COMMITTED | Rev_TOMBSTONED

datatype PromotionAction = AUTO_COMMIT | REQUIRE_REVIEW | QUARANTINE | REJECT_CANDIDATE

record MemoryScope =
  sc_kind :: ScopeKind
  sc_subject_id :: pystr

record MemoryProvenance =
  mp_source_kind :: SourceKind
  mp_source_id :: pystr
  mp_source_trust :: SourceTrust
  mp_observed_at :: datetime
  mp_actor_id :: "pystr option"
  mp_evidence_event_ids :: "pystr list"
  mp_consented :: bool

record MemoryCandidate =
  mc_candidate_id :: pystr
  mc_namespace :: pystr
  mc_kind :: MemoryKind
  mc_scope :: MemoryScope
  mc_subject :: pystr
  mc_content :: pystr
  mc_provenance :: MemoryProvenance
  mc_confidence :: pyfloat
  mc_sensitivity :: Sensitivity
  mc_visibility :: MemoryVisibility
  mc_created_at :: datetime
  mc_valid_from :: "datetime option"
  mc_valid_until :: "datetime option"
  mc_ttl_seconds :: "int option"
  mc_base_memory_id :: "pystr option"
  mc_base_revision_id :: "pystr option"
  mc_contradiction_revision_ids :: "pystr list"
  mc_status :: CandidateStatus

record MemoryRevision =
  mr_revision_id :: pystr
  mr_memory_id :: pystr
  mr_namespace :: pystr
  mr_generation :: int
  mr_parent_revision_id :: "pystr option"
  mr_promoted_from_candidate_id :: "pystr option"
  mr_kind :: MemoryKind
  mr_scope :: MemoryScope
  mr_subject :: pystr
  mr_content :: pystr
  mr_provenance :: MemoryProvenance
  mr_confidence :: pyfloat
  mr_sensitivity :: Sensitivity
  mr_visibility :: MemoryVisibility
  mr_created_at :: datetime
  mr_valid_from :: "datetime option"
  mr_valid_until :: "datetime option"
  mr_ttl_seconds :: "int option"
  mr_status :: RevisionStatus

record MemoryRecord =
  mrec_memory_id :: pystr
  mrec_namespace :: pystr
  mrec_kind :: MemoryKind
  mrec_scope :: MemoryScope
  mrec_subject :: pystr
  mrec_created_at :: datetime
  mrec_current_revision :: MemoryRevision
  mrec_deleted_at :: "datetime option"

record PromotionDecision =
  pd_candidate_id :: pystr
  pd_action :: PromotionAction
  pd_reason_codes :: "pystr list"
  pd_policy_version :: pystr
  pd_decided_at :: datetime
  pd_decided_by :: pystr

record MemorySearchHit =
  sh_memory_id :: pystr
  sh_revision_id :: pystr
  sh_namespace :: pystr
  sh_subject :: pystr
  sh_content :: pystr
  sh_score :: pyfloat
  sh_visibility :: MemoryVisibility
  sh_sensitivity :: Sensitivity

datatype memory_value_error =
  FieldConstraint string | IntervalEmpty | BaseRevisionWithoutMemory

definition len_between :: "nat \<Rightarrow> nat \<Rightarrow> pystr \<Rightarrow> bool" where
  "len_between lo hi s \<longleftrightarrow> lo \<le> length s \<and> length s \<le> hi"

definition opt_len :: "nat \<Rightarrow> pystr option \<Rightarrow> bool" where
  "opt_len hi s = (case s of None \<Rightarrow> True | Some x \<Rightarrow> length x \<le> hi)"

text \<open>
  Comparison of two datetimes: the program compares aware ones, by their instants; Python
  raises for a mix of aware and naive ones, which the callers never build.
\<close>

definition check_candidate :: "MemoryCandidate \<Rightarrow> memory_value_error option" where
  "check_candidate c =
     (if \<not> len_between 1 128 (mc_candidate_id c) then Some (FieldConstraint ''candidate_id'')
      else if \<not> len_between 1 256 (mc_namespace c) then Some (FieldConstraint ''namespace'')
      else if \<not> len_between 1 256 (sc_subject_id (mc_scope c)) then Some (FieldConstraint ''scope'')
      else if \<not> len_between 1 512 (mc_subject c) then Some (FieldConstraint ''subject'')
      else if mc_content c = [] then Some (FieldConstraint ''content'')
      else if \<not> len_between 1 512 (mp_source_id (mc_provenance c)) \<or>
              \<not> opt_len 256 (mp_actor_id (mc_provenance c)) then Some (FieldConstraint ''provenance'')
      else if \<not> (fle (Fin 0) (mc_confidence c) \<and> fle (mc_confidence c) (Fin 1))
        then Some (FieldConstraint ''confidence'')
      else if (case mc_ttl_seconds c of None \<Rightarrow> False | Some t \<Rightarrow> t < 1)
        then Some (FieldConstraint ''ttl_seconds'')
      else if \<not> opt_len 128 (mc_base_memory_id c) \<or> \<not> opt_len 128 (mc_base_revision_id c)
        then Some (FieldConstraint ''base'')
      else if (case (mc_valid_from c, mc_valid_until c) of
                 (Some f, Some u) \<Rightarrow> dt_micros u \<le> dt_micros f | _ \<Rightarrow> False) then Some IntervalEmpty
      else if mc_base_revision_id c \<notin> {None, Some []} \<and> mc_base_memory_id c \<in> {None, Some []}
        then Some BaseRevisionWithoutMemory
      else None)"

definition check_decision :: "PromotionDecision \<Rightarrow> memory_value_error option" where
  "check_decision d =
     (if \<not> len_between 1 128 (pd_candidate_id d) then Some (FieldConstraint ''candidate_id'')
      else if pd_reason_codes d = [] then Some (FieldConstraint ''reason_codes'')
      else if \<not> len_between 1 64 (pd_policy_version d) then Some (FieldConstraint ''policy_version'')
      else if \<not> len_between 1 256 (pd_decided_by d) then Some (FieldConstraint ''decided_by'')
      else None)"

section \<open>Policy\<close>

record PromotionPolicy =
  pp_version :: pystr
  pp_auto_commit_confidence :: pyfloat

definition default_promotion_policy :: PromotionPolicy where
  "default_promotion_policy = \<lparr>pp_version = lit ''p0-v1'', pp_auto_commit_confidence = f_0_9\<rparr>"

definition auto_kinds :: "MemoryKind list" where
  "auto_kinds = [Kind_USER_PROFILE, Kind_RELATIONSHIP, Kind_SEMANTIC_FACT, Kind_EPISODE, Kind_ACTIVE_TASK]"

definition auto_trust :: "SourceTrust list" where
  "auto_trust = [ST_OWNER_AUTHORED, ST_OWNER_STATED, ST_TRUSTED_OPERATOR]"

definition review_reasons :: "PromotionPolicy \<Rightarrow> MemoryCandidate \<Rightarrow> pystr list" where
  "review_reasons p c =
     (if mc_kind c \<in> {Kind_CANON, Kind_PERSONA} then [lit ''owner_controlled_identity''] else []) @
     (if mc_sensitivity c \<in> {Sens_PRIVATE, Sens_RESTRICTED} then [lit ''sensitive_content''] else []) @
     (if mc_contradiction_revision_ids c \<noteq> [] then [lit ''contradicts_committed_memory''] else []) @
     (if mp_source_trust (mc_provenance c) = ST_MODEL_INFERENCE then [lit ''model_inference''] else []) @
     (if \<not> mp_consented (mc_provenance c) then [lit ''consent_not_recorded''] else []) @
     (if flt (mc_confidence c) (pp_auto_commit_confidence p)
      then [lit ''below_auto_commit_confidence''] else [])"

definition classify :: "PromotionPolicy \<Rightarrow> MemoryCandidate \<Rightarrow> PromotionAction \<times> pystr list" where
  "classify p c =
     (if mc_kind c \<in> {Kind_POLICY, Kind_SECURITY}
        then (REJECT_CANDIDATE, [lit ''policy_and_security_are_not_memory''])
      else if mc_kind c = Kind_PROCEDURAL_SKILL
        then (REJECT_CANDIDATE, [lit ''skills_require_separate_work_mode_lifecycle''])
      else if mp_source_trust (mc_provenance c) \<in> {ST_PUBLIC_VIEWER, ST_UNVERIFIED_IMPORT}
        then (QUARANTINE, [lit ''untrusted_or_public_source''])
      else if review_reasons p c \<noteq> [] \<or> mc_kind c \<notin> set auto_kinds
        then (REQUIRE_REVIEW,
              if review_reasons p c \<noteq> [] then review_reasons p c else [lit ''class_requires_review''])
      else if mp_source_trust (mc_provenance c) \<notin> set auto_trust
        then (REQUIRE_REVIEW, [lit ''source_requires_review''])
      else (AUTO_COMMIT, [lit ''high_confidence_low_risk_owner_source'']))"

definition decide :: "PromotionPolicy \<Rightarrow> datetime \<Rightarrow> MemoryCandidate \<Rightarrow> memory_value_error + PromotionDecision" where
  "decide p now c =
     (let (action, reasons) = classify p c;
          d = \<lparr>pd_candidate_id = mc_candidate_id c, pd_action = action, pd_reason_codes = reasons,
               pd_policy_version = pp_version p, pd_decided_at = now,
               pd_decided_by = lit ''memory-policy''\<rparr>
      in case check_decision d of None \<Rightarrow> Inr d | Some e \<Rightarrow> Inl e)"

lemma classify_auto_iff:
  "fst (classify p c) = AUTO_COMMIT \<longleftrightarrow>
     mc_kind c \<in> set auto_kinds \<and> mp_source_trust (mc_provenance c) \<in> set auto_trust \<and>
     mc_sensitivity c \<in> {Sens_PUBLIC, Sens_INTERNAL} \<and> mc_contradiction_revision_ids c = [] \<and>
     mp_consented (mc_provenance c) \<and> \<not> flt (mc_confidence c) (pp_auto_commit_confidence p)"
  by (cases "mc_sensitivity c")
    (auto simp: classify_def review_reasons_def auto_kinds_def auto_trust_def simp del: lit_simps)

lemma classify_reasons: "snd (classify p c) \<noteq> []"
  by (simp add: classify_def del: lit_simps)

lemma classify_untrusted:
  "mp_source_trust (mc_provenance c) \<in> {ST_PUBLIC_VIEWER, ST_UNVERIFIED_IMPORT} \<Longrightarrow>
   fst (classify p c) \<in> {QUARANTINE, REJECT_CANDIDATE}"
  by (auto simp: classify_def simp del: lit_simps)

lemma classify_reject_iff:
  "fst (classify p c) = REJECT_CANDIDATE \<longleftrightarrow> mc_kind c \<in> {Kind_POLICY, Kind_SECURITY, Kind_PROCEDURAL_SKILL}"
  by (auto simp: classify_def simp del: lit_simps)

section \<open>Properties\<close>

text \<open>
  C28: the admission policy decides every valid candidate, with at least one reason. It
  commits without review exactly the candidates of an admissible kind, from the owner or a
  trusted operator, with recorded consent, not sensitive, contradicting nothing and with a
  confidence not below the threshold. Content from public viewers or unverified imports is
  never committed nor sent to review as if it were trusted: it is quarantined or rejected;
  rejected are exactly policy, security and skill candidates.
\<close>

theorem promotion_policy_sound:
  assumes "check_candidate c = None" and "len_between 1 64 (pp_version p)"
  shows "\<exists>d. decide p now c = Inr d \<and> pd_candidate_id d = mc_candidate_id c \<and> pd_reason_codes d \<noteq> [] \<and>
    (pd_action d = AUTO_COMMIT \<longleftrightarrow>
       mc_kind c \<in> set auto_kinds \<and> mp_source_trust (mc_provenance c) \<in> set auto_trust \<and>
       mc_sensitivity c \<in> {Sens_PUBLIC, Sens_INTERNAL} \<and> mc_contradiction_revision_ids c = [] \<and>
       mp_consented (mc_provenance c) \<and> \<not> flt (mc_confidence c) (pp_auto_commit_confidence p)) \<and>
    (mp_source_trust (mc_provenance c) \<in> {ST_PUBLIC_VIEWER, ST_UNVERIFIED_IMPORT} \<longrightarrow>
       pd_action d \<in> {QUARANTINE, REJECT_CANDIDATE}) \<and>
    (pd_action d = REJECT_CANDIDATE \<longleftrightarrow> mc_kind c \<in> {Kind_POLICY, Kind_SECURITY, Kind_PROCEDURAL_SKILL})"
proof -
  obtain action reasons where cl: "classify p c = (action, reasons)" by (cases "classify p c")
  have "len_between 1 128 (mc_candidate_id c)"
    using assms(1) by (auto simp: check_candidate_def split: if_splits)
  then have "decide p now c = Inr \<lparr>pd_candidate_id = mc_candidate_id c, pd_action = action, pd_reason_codes = reasons,
      pd_policy_version = pp_version p, pd_decided_at = now, pd_decided_by = lit ''memory-policy''\<rparr>"
    using assms(2) classify_reasons [of p c] cl
    by (simp add: decide_def check_decision_def Let_def len_between_def del: lit_simps)
  then show ?thesis
    using classify_auto_iff [of p c] classify_reasons [of p c] classify_untrusted [of c p]
      classify_reject_iff [of p c] cl by auto
qed

definition demo_candidate :: MemoryCandidate where
  "demo_candidate = \<lparr>mc_candidate_id = lit ''c1'', mc_namespace = lit ''main'', mc_kind = Kind_USER_PROFILE,
     mc_scope = \<lparr>sc_kind = Scope_OWNER, sc_subject_id = lit ''o''\<rparr>, mc_subject = lit ''tea'',
     mc_content = lit ''likes tea'',
     mc_provenance = \<lparr>mp_source_kind = Source_OWNER_STATEMENT, mp_source_id = lit ''s'',
       mp_source_trust = ST_OWNER_STATED, mp_observed_at = \<lparr>dt_micros = 0, dt_utcoffset = Some 0\<rparr>,
       mp_actor_id = None, mp_evidence_event_ids = [], mp_consented = True\<rparr>,
     mc_confidence = Fin 1, mc_sensitivity = Sens_INTERNAL, mc_visibility = MV_TRUSTED_CONTEXT,
     mc_created_at = \<lparr>dt_micros = 0, dt_utcoffset = Some 0\<rparr>, mc_valid_from = None, mc_valid_until = None,
     mc_ttl_seconds = None, mc_base_memory_id = None, mc_base_revision_id = None,
     mc_contradiction_revision_ids = [], mc_status = Cand_PENDING\<rparr>"

lemma demo_candidate_ok: "check_candidate demo_candidate = None"
  by (simp add: check_candidate_def demo_candidate_def len_between_def opt_len_def)

theorem promotion_policy_sound_witness:
  "\<exists>d. decide default_promotion_policy \<lparr>dt_micros = 5, dt_utcoffset = Some 0\<rparr> demo_candidate = Inr d \<and>
     pd_action d = AUTO_COMMIT"
proof -
  have "len_between 1 64 (pp_version default_promotion_policy)"
    by (simp add: default_promotion_policy_def len_between_def)
  from promotion_policy_sound [OF demo_candidate_ok this, of "\<lparr>dt_micros = 5, dt_utcoffset = Some 0\<rparr>"]
  show ?thesis
    by (auto simp: demo_candidate_def auto_kinds_def auto_trust_def default_promotion_policy_def f_0_9_def
        simp del: lit_simps)
qed

end
