(* ===== verification/Utf8.thy ===== *)
theory Utf8
  imports Prelude "HOL-Library.Sublist"
begin

text \<open>
  Python's UTF-8 codec on lists of octets (numbers below 256), and the token estimator of
  \<^verbatim>\<open>memory/context.py\<close>, which measures and cuts texts by their encoded length. Texts are
  sequences of Unicode scalar values, as the validation of the program's string fields
  guarantees (\<open>scalar_text\<close>).
\<close>

section \<open>Codec\<close>

definition scalar :: "nat \<Rightarrow> bool" where
  "scalar c \<longleftrightarrow> c < 0xD800 \<or> (0xE000 \<le> c \<and> c < 0x110000)"

definition scalar_text :: "pystr \<Rightarrow> bool" where
  "scalar_text s \<longleftrightarrow> list_all scalar s"

definition utf8_char :: "nat \<Rightarrow> nat list" where
  "utf8_char c =
     (if c < 0x80 then [c]
      else if c < 0x800 then [0xC0 + c div 64, 0x80 + c mod 64]
      else if c < 0x10000 then [0xE0 + c div 4096, 0x80 + c div 64 mod 64, 0x80 + c mod 64]
      else [0xF0 + c div 262144, 0x80 + c div 4096 mod 64, 0x80 + c div 64 mod 64, 0x80 + c mod 64])"

definition utf8_encode :: "pystr \<Rightarrow> nat list" where
  "utf8_encode s = concat (map utf8_char s)"

definition continuation :: "nat \<Rightarrow> bool" where
  "continuation b \<longleftrightarrow> 0x80 \<le> b \<and> b < 0xC0"

text \<open>The code point at the head of a list of octets, and the rest; strict.\<close>

fun decode_head :: "nat list \<Rightarrow> (nat \<times> nat list) option" where
  "decode_head [] = None"
| "decode_head (a # bs) =
     (if a < 0x80 then Some (a, bs)
      else if 0xC2 \<le> a \<and> a < 0xE0 then
        (case bs of
           b # r \<Rightarrow> if continuation b then Some ((a - 0xC0) * 64 + (b - 0x80), r) else None
         | _ \<Rightarrow> None)
      else if 0xE0 \<le> a \<and> a < 0xF0 then
        (case bs of
           b # c # r \<Rightarrow>
             (let n = (a - 0xE0) * 4096 + (b - 0x80) * 64 + (c - 0x80)
              in if continuation b \<and> continuation c \<and> 0x800 \<le> n \<and> scalar n then Some (n, r) else None)
         | _ \<Rightarrow> None)
      else if 0xF0 \<le> a \<and> a < 0xF5 then
        (case bs of
           b # c # d # r \<Rightarrow>
             (let n = (a - 0xF0) * 262144 + (b - 0x80) * 4096 + (c - 0x80) * 64 + (d - 0x80)
              in if continuation b \<and> continuation c \<and> continuation d \<and> 0x10000 \<le> n \<and> scalar n
                 then Some (n, r) else None)
         | _ \<Rightarrow> None)
      else None)"

lemma decode_head_shorter: "decode_head bs = Some (c, r) \<Longrightarrow> length r < length bs"
  by (cases bs) (auto simp: Let_def split: if_splits list.splits)

function utf8_decode :: "nat list \<Rightarrow> pystr option" where
  "utf8_decode bs =
     (if bs = [] then Some []
      else (case decode_head bs of
              None \<Rightarrow> None
            | Some (c, r) \<Rightarrow> map_option ((#) c) (utf8_decode r)))"
  by pat_completeness auto
termination by (relation "measure length") (auto dest: decode_head_shorter)

declare utf8_decode.simps [simp del]

lemma utf8_char_ne [simp]: "utf8_char c \<noteq> []"
  by (simp add: utf8_char_def)

lemma utf8_encode_simps [simp]:
  "utf8_encode [] = []" "utf8_encode (c # s) = utf8_char c @ utf8_encode s"
  "utf8_encode (s @ t) = utf8_encode s @ utf8_encode t"
  by (simp_all add: utf8_encode_def)

lemma length_utf8_char: "1 \<le> length (utf8_char c) \<and> length (utf8_char c) \<le> 4"
  by (simp add: utf8_char_def)

lemma utf8_char_cases:
  obtains "c < 0x80" "utf8_char c = [c]"
  | x z where "c = x * 64 + z" "2 \<le> x" "x < 32" "z < 64" "utf8_char c = [0xC0 + x, 0x80 + z]"
  | x y z where "c = x * 4096 + y * 64 + z" "x < 16" "y < 64" "z < 64" "0x800 \<le> c"
      "utf8_char c = [0xE0 + x, 0x80 + y, 0x80 + z]"
  | w x y z where "c = w * 262144 + x * 4096 + y * 64 + z" "x < 64" "y < 64" "z < 64" "0x10000 \<le> c"
      "utf8_char c = [0xF0 + w, 0x80 + x, 0x80 + y, 0x80 + z]"
proof -
  define q where "q = c div 64"
  define r where "r = q div 64"
  have c: "c = q * 64 + c mod 64" and q: "q = r * 64 + q mod 64" and r: "r = r div 64 * 64 + r mod 64"
    by (simp_all add: q_def r_def)
  have divs: "c div 4096 = r" "c div 262144 = r div 64"
    by (simp_all add: q_def r_def flip: div_mult2_eq)
  have m: "c mod 64 < 64" "q mod 64 < 64" "r mod 64 < 64" by simp_all
  consider "c < 0x80" | "0x80 \<le> c" "c < 0x800" | "0x800 \<le> c" "c < 0x10000" | "0x10000 \<le> c" by linarith
  then show thesis
  proof cases
    case 1
    then show ?thesis by (intro that(1)) (simp_all add: utf8_char_def)
  next
    case 2
    have "2 \<le> q" "q < 32" using 2 c m by linarith+
    then show ?thesis
      using 2 c m by (intro that(2) [of q "c mod 64"]) (simp_all add: utf8_char_def flip: q_def)
  next
    case 3
    have "r < 16" using 3 c q m by linarith
    moreover have "c = r * 4096 + q mod 64 * 64 + c mod 64" using c q by linarith
    ultimately show ?thesis
      using 3 m by (intro that(3) [of r "q mod 64" "c mod 64"]) (simp_all add: utf8_char_def divs flip: q_def)
  next
    case 4
    have "c = r div 64 * 262144 + r mod 64 * 4096 + q mod 64 * 64 + c mod 64" using c q r by linarith
    then show ?thesis
      using 4 m by (intro that(4) [of "r div 64" "r mod 64" "q mod 64" "c mod 64"])
        (simp_all add: utf8_char_def divs flip: q_def)
  qed
qed

lemma decode_head_encode:
  assumes "scalar c"
  shows "decode_head (utf8_char c @ r) = Some (c, r)"
proof (cases c rule: utf8_char_cases)
  case (4 w x y z)
  then have "w < 5" using assms by (auto simp: scalar_def)
  then show ?thesis using 4 assms by (simp add: continuation_def Let_def)
qed (use assms in \<open>simp_all add: continuation_def Let_def\<close>)

lemma utf8_roundtrip: "scalar_text s \<Longrightarrow> utf8_decode (utf8_encode s) = Some s"
  by (induction s) (simp_all add: scalar_text_def utf8_decode.simps [of "_ @ _"] utf8_decode.simps [of "[]"] decode_head_encode)

lemma continuation_obtain:
  assumes "continuation b"
  obtains y where "b = 0x80 + y" "y < 64"
proof (rule that)
  show "b = 0x80 + (b - 0x80)" "b - 0x80 < 64" using assms by (auto simp: continuation_def)
qed

lemma digits64:
  "z < 64 \<Longrightarrow> (y * 64 + z) div 64 = (y::nat)" "z < 64 \<Longrightarrow> (y * 64 + z) mod 64 = (z::nat)"
  by simp_all

lemma decode_head_inverse:
  assumes "decode_head bs = Some (c, r)"
  shows "bs = utf8_char c @ r"
proof (cases bs)
  case Nil
  then show ?thesis using assms by simp
next
  case (Cons a bs')
  consider "a < 0x80" | x where "a = 0xC0 + x" "2 \<le> x" "x < 32" | x where "a = 0xE0 + x" "x < 16"
    | x where "a = 0xF0 + x" "x < 5"
  proof -
    have "a < 0x80 \<or> (0xC2 \<le> a \<and> a < 0xE0) \<or> (0xE0 \<le> a \<and> a < 0xF0) \<or> (0xF0 \<le> a \<and> a < 0xF5)"
      using assms Cons by (auto split: if_splits)
    then show thesis
      using that(1) that(2) [of "a - 0xC0"] that(3) [of "a - 0xE0"] that(4) [of "a - 0xF0"] by auto
  qed
  then show ?thesis
  proof cases
    case (2 x)
    then obtain b where b: "bs' = b # r" "continuation b" and c: "c = x * 64 + (b - 0x80)"
      using assms Cons by (auto split: list.splits if_splits)
    obtain y where y: "b = 0x80 + y" "y < 64" using b(2) by (rule continuation_obtain)
    have c': "c = x * 64 + y" using c y by simp
    show ?thesis using 2 y by (simp add: Cons b(1) utf8_char_def c' digits64)
  next
    case (3 x)
    then obtain b d where b: "bs' = b # d # r" "continuation b" "continuation d" and l: "0x800 \<le> c"
      and c: "c = x * 4096 + (b - 0x80) * 64 + (d - 0x80)"
      using assms Cons by (auto simp: Let_def split: list.splits if_splits)
    obtain y where y: "b = 0x80 + y" "y < 64" using b(2) by (rule continuation_obtain)
    obtain z where z: "d = 0x80 + z" "z < 64" using b(3) by (rule continuation_obtain)
    have c': "c = (x * 64 + y) * 64 + z" using c y z by simp
    have "c div 64 = x * 64 + y" "c mod 64 = z" using z(2) by (simp_all only: c' digits64)
    moreover have "c div 4096 = x" "c < 0x10000" using 3 c' y z by simp_all
    ultimately show ?thesis using l y by (simp add: Cons b(1) utf8_char_def digits64 3(1) y(1) z(1))
  next
    case (4 x)
    then obtain b d e where b: "bs' = b # d # e # r" "continuation b" "continuation d" "continuation e"
      and l: "0x10000 \<le> c" and c: "c = x * 262144 + (b - 0x80) * 4096 + (d - 0x80) * 64 + (e - 0x80)"
      using assms Cons by (auto simp: Let_def split: list.splits if_splits)
    obtain y where y: "b = 0x80 + y" "y < 64" using b(2) by (rule continuation_obtain)
    obtain z where z: "d = 0x80 + z" "z < 64" using b(3) by (rule continuation_obtain)
    obtain w where w: "e = 0x80 + w" "w < 64" using b(4) by (rule continuation_obtain)
    have c': "c = ((x * 64 + y) * 64 + z) * 64 + w" using c y z w by simp
    have "c div 64 = (x * 64 + y) * 64 + z" "c mod 64 = w" using w(2) by (simp_all only: c' digits64)
    moreover have "c div 4096 = x * 64 + y" "c div 262144 = x" using c' y z w by simp_all
    ultimately show ?thesis
      using l y z by (simp add: Cons b(1) utf8_char_def digits64 4(1) y(1) z(1) w(1) del: distrib_right_numeral)
  qed (use assms Cons in \<open>auto simp: utf8_char_def\<close>)
qed

lemma utf8_decode_inverse: "utf8_decode bs = Some s \<Longrightarrow> utf8_encode s = bs"
proof (induction bs arbitrary: s rule: utf8_decode.induct)
  case (1 bs)
  show ?case
  proof (cases "bs = []")
    case True
    then show ?thesis using "1.prems" by (simp add: utf8_decode.simps)
  next
    case False
    with "1.prems" obtain c r t where h: "decode_head bs = Some (c, r)" and t: "utf8_decode r = Some t" "s = c # t"
      by (subst (asm) utf8_decode.simps) (auto split: option.splits)
    have "utf8_encode t = r" using "1.IH" [OF False h refl t(1)] .
    then show ?thesis using decode_head_inverse [OF h] t(2) by simp
  qed
qed

text \<open>A cut inside a character is not decodable; what is decoded of a cut text is a prefix of it.\<close>

lemma decode_head_partial:
  assumes "utf8_char c = bs @ r" "bs \<noteq> []" "r \<noteq> []"
  shows "decode_head bs = None"
  using assms(1)
proof (cases c rule: utf8_char_cases)
  case 1
  then show ?thesis using assms by (auto simp: Cons_eq_append_conv append_eq_Cons_conv)
next
  case (2 x z)
  then show ?thesis using assms by (auto simp: Cons_eq_append_conv append_eq_Cons_conv)
next
  case (3 x y z)
  then show ?thesis using assms by (auto simp: Cons_eq_append_conv append_eq_Cons_conv)
next
  case (4 w x y z)
  then show ?thesis using assms by (auto simp: Cons_eq_append_conv append_eq_Cons_conv)
qed

lemma decode_prefix:
  assumes "scalar_text t" "prefix bs (utf8_encode t)" "utf8_decode bs = Some s"
  shows "prefix s t"
  using assms
proof (induction t arbitrary: bs s)
  case Nil
  then show ?case by (simp add: utf8_decode.simps)
next
  case (Cons c t)
  show ?case
  proof (cases "bs = []")
    case True
    then show ?thesis using Cons.prems by (simp add: utf8_decode.simps)
  next
    case False
    from Cons.prems(2) have "prefix bs (utf8_char c @ utf8_encode t)" by simp
    then consider r where "utf8_char c = bs @ r" "r \<noteq> []" | bs' where "bs = utf8_char c @ bs'" "prefix bs' (utf8_encode t)"
      unfolding prefix_append by (cases "bs = utf8_char c") (auto elim!: prefixE)
    then show ?thesis
    proof cases
      case 1
      then show ?thesis
        using decode_head_partial [OF 1(1) False 1(2)] Cons.prems(3) False by (simp add: utf8_decode.simps [of bs])
    next
      case 2
      have "decode_head bs = Some (c, bs')"
        using Cons.prems(1) 2(1) by (simp add: decode_head_encode scalar_text_def)
      then obtain s' where s': "utf8_decode bs' = Some s'" "s = c # s'"
        using Cons.prems(3) False by (auto simp: utf8_decode.simps [of bs])
      have "prefix s' t"
        by (rule Cons.IH [OF _ 2(2) s'(1)]) (use Cons.prems(1) in \<open>simp add: scalar_text_def\<close>)
      then show ?thesis by (simp add: s'(2))
    qed
  qed
qed

section \<open>The token estimator\<close>

definition bytes_per_token :: nat where
  "bytes_per_token = 4"

definition estimate :: "pystr \<Rightarrow> nat" where
  "estimate text =
     (if text = [] then 0
      else (length (utf8_encode text) + bytes_per_token - 1) div bytes_per_token)"

text \<open>The loop that drops octets until the rest decodes (\<open>None\<close>: its \<open>else\<close> branch).\<close>

function decode_shrinking :: "nat list \<Rightarrow> pystr option" where
  "decode_shrinking bs =
     (if bs = [] then None
      else (case utf8_decode bs of Some s \<Rightarrow> Some s | None \<Rightarrow> decode_shrinking (butlast bs)))"
  by pat_completeness auto
termination by (relation "measure length") auto

declare decode_shrinking.simps [simp del]

function shrink_to :: "nat \<Rightarrow> pystr \<Rightarrow> pystr" where
  "shrink_to n s = (if s \<noteq> [] \<and> n < estimate s then shrink_to n (butlast s) else s)"
  by pat_completeness auto
termination by (relation "measure (length \<circ> snd)") auto

declare shrink_to.simps [simp del]

definition truncate_tokens :: "pystr \<Rightarrow> int \<Rightarrow> pystr" where
  "truncate_tokens text max_tokens =
     (if max_tokens \<le> 0 then []
      else if int (estimate text) \<le> max_tokens then text
      else
        (case decode_shrinking (take (nat max_tokens * bytes_per_token) (utf8_encode text)) of
           None \<Rightarrow> []
         | Some result \<Rightarrow> rstrip (shrink_to (nat max_tokens) result)))"

lemma estimate_Nil [simp]: "estimate [] = 0"
  by (simp add: estimate_def)

lemma estimate_0_iff [simp]: "estimate t = 0 \<longleftrightarrow> t = []"
  using length_utf8_char [of "hd t"] by (cases t) (auto simp: estimate_def bytes_per_token_def div_eq_0_iff)

lemma estimate_mono: "prefix s t \<Longrightarrow> estimate s \<le> estimate t"
  by (auto simp: estimate_def prefix_def bytes_per_token_def intro!: div_le_mono)

lemma prefix_rstrip: "prefix (rstrip s) s"
  unfolding rstrip_def by (metis prefixI rev_append rev_rev_ident takeWhile_dropWhile_id)

lemma prefix_butlast: "prefix (butlast s) s"
  by (cases s rule: rev_cases) auto

lemma shrink_to_ok: "prefix (shrink_to n s) s \<and> estimate (shrink_to n s) \<le> n"
proof (induction n s rule: shrink_to.induct)
  case (1 n s)
  show ?case
  proof (cases "s \<noteq> [] \<and> n < estimate s")
    case True
    then show ?thesis
      using 1 prefix_butlast [of s] prefix_order.trans by (auto simp: shrink_to.simps [of n s])
  next
    case False
    then show ?thesis by (auto simp: shrink_to.simps [of n s] estimate_def)
  qed
qed

lemma decode_shrinking_prefix:
  assumes "scalar_text t" "prefix bs (utf8_encode t)" "decode_shrinking bs = Some s"
  shows "prefix s t"
  using assms(2,3)
proof (induction bs rule: decode_shrinking.induct)
  case (1 bs)
  show ?case
  proof (cases "utf8_decode bs")
    case None
    then show ?thesis
      using 1 prefix_order.trans [OF prefix_butlast]
      by (auto simp: decode_shrinking.simps [of bs] split: if_splits)
  next
    case (Some s')
    then show ?thesis
      using 1 decode_prefix [OF assms(1)] by (auto simp: decode_shrinking.simps [of bs] split: if_splits)
  qed
qed

lemma truncate_estimate: "0 \<le> n \<Longrightarrow> int (estimate (truncate_tokens t n)) \<le> n"
proof -
  assume n: "0 \<le> n"
  have "estimate (rstrip (shrink_to (nat n) r)) \<le> nat n" for r
    using estimate_mono [OF prefix_rstrip] shrink_to_ok [of "nat n" r] order.trans by blast
  then have "int (estimate (rstrip (shrink_to (nat n) r))) \<le> n" for r using n by (simp add: nat_le_iff [symmetric] le_nat_iff)
  then show ?thesis using n by (auto simp: truncate_tokens_def split: option.split)
qed

lemma truncate_prefix: "scalar_text t \<Longrightarrow> prefix (truncate_tokens t n) t"
proof -
  assume t: "scalar_text t"
  have "prefix (rstrip (shrink_to m r)) t"
    if "decode_shrinking (take k (utf8_encode t)) = Some r" for m k r
    using decode_shrinking_prefix [OF t take_is_prefix that] prefix_rstrip shrink_to_ok prefix_order.trans by metis
  then show ?thesis by (auto simp: truncate_tokens_def split: option.split)
qed

text \<open>
  The contract of \<open>TokenEstimator\<close> on which the context compiler relies: cutting a text to a
  number of tokens gives a text of at most that many.
\<close>

locale token_estimator =
  fixes est :: "pystr \<Rightarrow> nat" and trunc :: "pystr \<Rightarrow> int \<Rightarrow> pystr"
  assumes trunc_fits: "0 \<le> n \<Longrightarrow> int (est (trunc t n)) \<le> n"

interpretation utf8_estimator: token_estimator estimate truncate_tokens
  by unfold_locales (rule truncate_estimate)

section \<open>Properties\<close>

text \<open>
  The UTF-8 heuristic estimator keeps its budget. Cutting a text to a positive number of
  tokens returns a prefix of the text whose estimate is at most that number, and returns the
  text itself when it already fits; a cut never leaves part of a character, and encoding and
  decoding a text gives it back.
\<close>

theorem utf8_truncation_sound:
  assumes "scalar_text t" and "0 \<le> n"
  shows "prefix (truncate_tokens t n) t \<and> int (estimate (truncate_tokens t n)) \<le> n \<and>
    (int (estimate t) \<le> n \<longrightarrow> truncate_tokens t n = t) \<and> utf8_decode (utf8_encode t) = Some t"
proof (intro conjI impI)
  show "truncate_tokens t n = t" if "int (estimate t) \<le> n"
  proof (cases "n = 0")
    case True
    then have "t = []" using that by simp
    then show ?thesis using True by (simp add: truncate_tokens_def)
  qed (use that assms(2) in \<open>simp add: truncate_tokens_def\<close>)
qed (use assms in \<open>simp_all add: truncate_prefix truncate_estimate utf8_roundtrip\<close>)

theorem utf8_truncation_sound_witness:
  "prefix (truncate_tokens [0x65e5, 0x672c, 0x8a9e] 1) [0x65e5, 0x672c, 0x8a9e] \<and>
   estimate (truncate_tokens [0x65e5, 0x672c, 0x8a9e] 1) \<le> 1"
  using utf8_truncation_sound [of "[0x65e5, 0x672c, 0x8a9e]" 1] by (simp add: scalar_text_def scalar_def)

end
