(* ===== verification/ContextCompiler.thy ===== *)
theory ContextCompiler
  imports Utf8 PyJson Events "HOL-Library.AList"
begin

text \<open>
  The context compiler and the snapshot cache of \<^verbatim>\<open>memory/context.py\<close>. The token estimator is
  a pair of arguments, as it is an argument of the compiler's constructor; what the compiler
  relies on is the locale \<open>token_estimator\<close>. The factory of snapshot identities and the clock
  give the arguments \<open>snapshot_id\<close> and \<open>now\<close>.
\<close>

section \<open>Values\<close>

datatype ContextTier = T0_CANON | T1_HOT | T2_MAP

datatype ContextClass =
  Class_CANON | Class_PERSONA | Class_OWNER_PROFILE | Class_RELATIONSHIP | Class_SESSION_STATE
| Class_MEMORY_DIRECTORY

fun class_value :: "ContextClass \<Rightarrow> pystr" where
  "class_value Class_CANON = lit ''canon''"
| "class_value Class_PERSONA = lit ''persona''"
| "class_value Class_OWNER_PROFILE = lit ''owner_profile''"
| "class_value Class_RELATIONSHIP = lit ''relationship''"
| "class_value Class_SESSION_STATE = lit ''session_state''"
| "class_value Class_MEMORY_DIRECTORY = lit ''memory_directory''"

record ContextBudget =
  cb_t0_tokens :: int
  cb_t1_tokens :: int
  cb_t2_tokens :: int
  cb_total_tokens :: int

definition check_budget :: "ContextBudget \<Rightarrow> bool" where
  "check_budget b \<longleftrightarrow> 1 \<le> cb_t0_tokens b \<and> 0 \<le> cb_t1_tokens b \<and> 0 \<le> cb_t2_tokens b \<and> 1 \<le> cb_total_tokens b"

record ContextRevisionPin =
  rp_namespace :: pystr
  rp_memory_generation :: int
  rp_canon_revision :: pystr
  rp_persona_revision :: "pystr option"
  rp_profile_revision :: "pystr option"
  rp_relationship_revision :: "pystr option"
  rp_session_revision :: "pystr option"
  rp_recipe_revision :: pystr

record ContextEntry =
  ce_entry_id :: pystr
  ce_tier :: ContextTier
  ce_context_class :: ContextClass
  ce_text :: pystr
  ce_priority :: int
  ce_mandatory :: bool
  ce_demotable :: bool
  ce_source_revision_id :: "pystr option"
  ce_source_memory_id :: "pystr option"

record CompiledContextEntry =
  cc_entry_id :: pystr
  cc_original_tier :: ContextTier
  cc_tier :: ContextTier
  cc_context_class :: ContextClass
  cc_text :: pystr
  cc_estimated_tokens :: nat
  cc_priority :: int
  cc_mandatory :: bool
  cc_source_revision_id :: "pystr option"
  cc_source_memory_id :: "pystr option"

record ContextDemotion =
  cd_entry_id :: pystr
  cd_from_tier :: ContextTier
  cd_to_tier :: ContextTier
  cd_reason :: pystr

record ContextTrim =
  ct_entry_id :: pystr
  ct_tier :: ContextTier
  ct_original_tokens :: nat
  ct_retained_tokens :: nat
  ct_reason :: pystr

record ContextDrop =
  dr_entry_id :: pystr
  dr_tier :: ContextTier
  dr_reason :: pystr

record ContextTokenUsage =
  us_t0_tokens :: nat
  us_t1_tokens :: nat
  us_t2_tokens :: nat
  us_total_tokens :: nat

record ContextCompileRequest =
  cr_session_id :: pystr
  cr_turn_id :: pystr
  cr_revision :: ContextRevisionPin
  cr_budget :: ContextBudget
  cr_entries :: "ContextEntry list"
  cr_activity_mode :: pystr
  cr_privacy_recipe :: pystr
  cr_minimal_canon :: pystr

text \<open>The request's validator: entry identities are unique.\<close>

definition check_request :: "ContextCompileRequest \<Rightarrow> bool" where
  "check_request r \<longleftrightarrow> check_budget (cr_budget r) \<and> distinct (map ce_entry_id (cr_entries r))"

record ContextSnapshot =
  cs_snapshot_id :: pystr
  cs_session_id :: pystr
  cs_turn_id :: pystr
  cs_revision :: ContextRevisionPin
  cs_activity_mode :: pystr
  cs_privacy_recipe :: pystr
  cs_budget :: ContextBudget
  cs_entries :: "CompiledContextEntry list"
  cs_usage :: ContextTokenUsage
  cs_demotions :: "ContextDemotion list"
  cs_trims :: "ContextTrim list"
  cs_drops :: "ContextDrop list"
  cs_used_minimal_fallback :: bool
  cs_rendered_context :: pystr
  cs_created_at :: datetime

fun tier_index :: "ContextTier \<Rightarrow> nat" where
  "tier_index T0_CANON = 0" | "tier_index T1_HOT = 1" | "tier_index T2_MAP = 2"

fun next_tier :: "ContextTier \<Rightarrow> ContextTier option" where
  "next_tier T0_CANON = Some T1_HOT" | "next_tier T1_HOT = Some T2_MAP" | "next_tier T2_MAP = None"

section \<open>Compilation\<close>

definition entry_sort_key :: "ContextEntry \<Rightarrow> int \<times> int \<times> pystr" where
  "entry_sort_key e = (- (if ce_mandatory e then 1 else 0), - ce_priority e, ce_entry_id e)"

definition compiled ::
  "ContextEntry \<Rightarrow> ContextTier \<Rightarrow> ContextTier \<Rightarrow> nat \<Rightarrow> pystr option \<Rightarrow> CompiledContextEntry" where
  "compiled e original tier tokens text =
     \<lparr>cc_entry_id = ce_entry_id e, cc_original_tier = original, cc_tier = tier,
      cc_context_class = ce_context_class e,
      cc_text = (case text of Some t \<Rightarrow> t | None \<Rightarrow> ce_text e),
      cc_estimated_tokens = tokens, cc_priority = ce_priority e, cc_mandatory = ce_mandatory e,
      cc_source_revision_id = ce_source_revision_id e, cc_source_memory_id = ce_source_memory_id e\<rparr>"

text \<open>The local variables of the loop over one tier; \<open>cp_next\<close> is what it adds to the next queue.\<close>

record compile_state =
  cp_selected :: "CompiledContextEntry list"
  cp_demotions :: "ContextDemotion list"
  cp_trims :: "ContextTrim list"
  cp_drops :: "ContextDrop list"
  cp_used :: nat
  cp_total :: nat
  cp_next :: "(ContextEntry \<times> ContextTier) list"

definition give_way :: "ContextTier \<Rightarrow> compile_state \<Rightarrow> ContextEntry \<Rightarrow> ContextTier \<Rightarrow> compile_state" where
  "give_way tier st e original =
     (case next_tier tier of
        Some t \<Rightarrow>
          if ce_demotable e \<and> \<not> ce_mandatory e then
            st\<lparr>cp_next := cp_next st @ [(e, original)],
               cp_demotions := cp_demotions st @
                 [\<lparr>cd_entry_id = ce_entry_id e, cd_from_tier = tier, cd_to_tier = t,
                   cd_reason = lit ''tier_budget_exceeded''\<rparr>]\<rparr>
          else
            st\<lparr>cp_drops := cp_drops st @
                 [\<lparr>dr_entry_id = ce_entry_id e, dr_tier = tier,
                   dr_reason = lit ''total_or_tier_budget_exceeded''\<rparr>]\<rparr>
      | None \<Rightarrow>
          st\<lparr>cp_drops := cp_drops st @
               [\<lparr>dr_entry_id = ce_entry_id e, dr_tier = tier,
                 dr_reason = lit ''total_or_tier_budget_exceeded''\<rparr>]\<rparr>)"

definition compile_entry ::
  "(pystr \<Rightarrow> nat) \<Rightarrow> (pystr \<Rightarrow> int \<Rightarrow> pystr) \<Rightarrow> ContextTier \<Rightarrow> int \<Rightarrow> compile_state \<Rightarrow>
   ContextEntry \<times> ContextTier \<Rightarrow> compile_state" where
  "compile_entry est trunc tier allowance st item =
     (let e = fst item; original = snd item;
          tokens = est (ce_text e);
          remaining = max 0 (allowance - int (cp_used st))
      in if int tokens \<le> remaining then
           st\<lparr>cp_selected := cp_selected st @ [compiled e original tier tokens None],
              cp_used := cp_used st + tokens, cp_total := cp_total st + tokens\<rparr>
         else if ce_mandatory e \<and> 0 < remaining \<and> trunc (ce_text e) remaining \<noteq> [] then
           (let retained = trunc (ce_text e) remaining; retained_tokens = est retained
            in st\<lparr>cp_selected := cp_selected st @ [compiled e original tier retained_tokens (Some retained)],
                  cp_used := cp_used st + retained_tokens, cp_total := cp_total st + retained_tokens,
                  cp_trims := cp_trims st @
                    [\<lparr>ct_entry_id = ce_entry_id e, ct_tier = tier, ct_original_tokens = tokens,
                      ct_retained_tokens = retained_tokens,
                      ct_reason = lit ''mandatory_entry_truncated_to_budget''\<rparr>]\<rparr>)
         else give_way tier st e original)"

definition compile_tier ::
  "(pystr \<Rightarrow> nat) \<Rightarrow> (pystr \<Rightarrow> int \<Rightarrow> pystr) \<Rightarrow> ContextTier \<Rightarrow> int \<Rightarrow> int \<Rightarrow>
   (ContextEntry \<times> ContextTier) list \<Rightarrow> compile_state \<Rightarrow> compile_state" where
  "compile_tier est trunc tier configured total_tokens queue st =
     foldl (compile_entry est trunc tier (min configured (total_tokens - int (cp_total st))))
       (st\<lparr>cp_used := 0, cp_next := []\<rparr>)
       (sort_key (\<lambda>item. entry_sort_key (fst item)) queue)"

definition fallback_entry :: "ContextCompileRequest \<Rightarrow> ContextEntry" where
  "fallback_entry r =
     \<lparr>ce_entry_id = lit ''__minimal_canon__'', ce_tier = T0_CANON, ce_context_class = Class_CANON,
      ce_text = cr_minimal_canon r, ce_priority = 10000, ce_mandatory = True, ce_demotable = False,
      ce_source_revision_id = Some (rp_canon_revision (cr_revision r)), ce_source_memory_id = None\<rparr>"

definition used_fallback :: "ContextCompileRequest \<Rightarrow> bool" where
  "used_fallback r \<longleftrightarrow> \<not> list_ex (\<lambda>e. ce_tier e = T0_CANON \<and> ce_mandatory e) (cr_entries r)"

definition all_entries :: "ContextCompileRequest \<Rightarrow> ContextEntry list" where
  "all_entries r = cr_entries r @ (if used_fallback r then [fallback_entry r] else [])"

definition tier_queue :: "ContextTier \<Rightarrow> ContextEntry list \<Rightarrow> (ContextEntry \<times> ContextTier) list" where
  "tier_queue t es = map (\<lambda>e. (e, ce_tier e)) (filter (\<lambda>e. ce_tier e = t) es)"

text \<open>\<open>_render_context\<close>.\<close>

definition opt_json :: "pystr option \<Rightarrow> json" where
  "opt_json x = (case x of None \<Rightarrow> JNull | Some s \<Rightarrow> JStr s)"

definition entry_json :: "CompiledContextEntry \<Rightarrow> json" where
  "entry_json c =
     JObj [(lit ''id'', JStr (cc_entry_id c)), (lit ''class'', JStr (class_value (cc_context_class c))),
           (lit ''text'', JStr (cc_text c)), (lit ''revision_id'', opt_json (cc_source_revision_id c)),
           (lit ''memory_id'', opt_json (cc_source_memory_id c))]"

definition group_json :: "ContextTier \<Rightarrow> CompiledContextEntry list \<Rightarrow> pystr" where
  "group_json t cs = json_dumps (JArr (map entry_json (filter (\<lambda>c. cc_tier c = t) cs)))"

definition render_context :: "ContextRevisionPin \<Rightarrow> CompiledContextEntry list \<Rightarrow> pystr" where
  "render_context pin cs = join_with [10]
     [lit ''<context_snapshot namespace='' @ [34] @ rp_namespace pin @ [34] @ lit '' generation='' @ [34] @
        str_int (rp_memory_generation pin) @ [34] @ lit ''>'',
      lit ''<owner_canon instruction_authority='' @ [34] @ lit ''true'' @ [34] @ lit ''>'',
      group_json T0_CANON cs,
      lit ''</owner_canon>'',
      lit ''<personal_context instruction_authority='' @ [34] @ lit ''false'' @ [34] @
        lit '' data_only='' @ [34] @ lit ''true'' @ [34] @ lit ''>'',
      group_json T1_HOT cs,
      lit ''</personal_context>'',
      lit ''<memory_directory instruction_authority='' @ [34] @ lit ''false'' @ [34] @
        lit '' untrusted_data='' @ [34] @ lit ''true'' @ [34] @ lit ''>'',
      group_json T2_MAP cs,
      lit ''</memory_directory>'',
      lit ''</context_snapshot>'']"

definition selected_sort_key :: "CompiledContextEntry \<Rightarrow> nat \<times> int \<times> pystr" where
  "selected_sort_key c = (tier_index (cc_tier c), - cc_priority c, cc_entry_id c)"

text \<open>The states after the three tiers.\<close>

definition after_t0 where
  "after_t0 est trunc r = compile_tier est trunc T0_CANON (cb_t0_tokens (cr_budget r)) (cb_total_tokens (cr_budget r))
     (tier_queue T0_CANON (all_entries r))
     \<lparr>cp_selected = [], cp_demotions = [], cp_trims = [], cp_drops = [], cp_used = 0, cp_total = 0, cp_next = []\<rparr>"

definition after_t1 where
  "after_t1 est trunc r = compile_tier est trunc T1_HOT (cb_t1_tokens (cr_budget r)) (cb_total_tokens (cr_budget r))
     (tier_queue T1_HOT (all_entries r) @ cp_next (after_t0 est trunc r)) (after_t0 est trunc r)"

definition after_t2 where
  "after_t2 est trunc r = compile_tier est trunc T2_MAP (cb_t2_tokens (cr_budget r)) (cb_total_tokens (cr_budget r))
     (tier_queue T2_MAP (all_entries r) @ cp_next (after_t1 est trunc r)) (after_t1 est trunc r)"

definition compile_context ::
  "(pystr \<Rightarrow> nat) \<Rightarrow> (pystr \<Rightarrow> int \<Rightarrow> pystr) \<Rightarrow> pystr \<Rightarrow> datetime \<Rightarrow> ContextCompileRequest \<Rightarrow> ContextSnapshot" where
  "compile_context est trunc snapshot_id now r =
     (let st = after_t2 est trunc r;
          selected = sort_key selected_sort_key (cp_selected st)
      in \<lparr>cs_snapshot_id = snapshot_id, cs_session_id = cr_session_id r, cs_turn_id = cr_turn_id r,
          cs_revision = cr_revision r, cs_activity_mode = cr_activity_mode r,
          cs_privacy_recipe = cr_privacy_recipe r, cs_budget = cr_budget r, cs_entries = selected,
          cs_usage = \<lparr>us_t0_tokens = cp_used (after_t0 est trunc r), us_t1_tokens = cp_used (after_t1 est trunc r),
                      us_t2_tokens = cp_used st, us_total_tokens = cp_total st\<rparr>,
          cs_demotions = cp_demotions st, cs_trims = cp_trims st, cs_drops = cp_drops st,
          cs_used_minimal_fallback = used_fallback r,
          cs_rendered_context = render_context (cr_revision r) selected, cs_created_at = now\<rparr>)"

section \<open>The snapshot cache\<close>

record snapshot_cache =
  sc_latest :: "(pystr \<times> ContextSnapshot) list"
  sc_by_id :: "(pystr \<times> ContextSnapshot) list"

definition cache_init :: snapshot_cache where
  "cache_init = \<lparr>sc_latest = [], sc_by_id = []\<rparr>"

datatype cache_error = StaleSnapshotError

definition cache_publish :: "snapshot_cache \<Rightarrow> ContextSnapshot \<Rightarrow> (cache_error + unit) \<times> snapshot_cache" where
  "cache_publish c s =
     (let ns = rp_namespace (cs_revision s);
          c' = c\<lparr>sc_latest := AList.update ns s (sc_latest c),
                 sc_by_id := AList.update (cs_snapshot_id s) s (sc_by_id c)\<rparr>
      in (case map_of (sc_latest c) ns of
            Some cur \<Rightarrow>
              if rp_memory_generation (cs_revision s) < rp_memory_generation (cs_revision cur)
              then (Inl StaleSnapshotError, c) else (Inr (), c')
          | None \<Rightarrow> (Inr (), c')))"

definition cache_latest :: "snapshot_cache \<Rightarrow> pystr \<Rightarrow> ContextSnapshot option" where
  "cache_latest c ns = map_of (sc_latest c) ns"

definition cache_get :: "snapshot_cache \<Rightarrow> pystr \<Rightarrow> ContextSnapshot option" where
  "cache_get c sid = map_of (sc_by_id c) sid"

end
