(* ===== verification/ContextInv.thy ===== *)
theory ContextInv
  imports ContextCompiler
begin

text \<open>
  Correctness of context compilation: budgets, accounting of every entry, independence of the
  order of the entries; and of the cache: what is published only moves forward.
\<close>

section \<open>One entry\<close>

definition tier_sum :: "ContextTier \<Rightarrow> CompiledContextEntry list \<Rightarrow> nat" where
  "tier_sum t cs = sum_list (map cc_estimated_tokens (filter (\<lambda>c. cc_tier c = t) cs))"

lemma tier_sum_mset:
  "tier_sum t cs = sum_mset (image_mset cc_estimated_tokens (filter_mset (\<lambda>c. cc_tier c = t) (mset cs)))"
  by (induction cs) (simp_all add: tier_sum_def)

lemma tier_sum_append [simp]:
  "tier_sum t [] = 0" "tier_sum t (xs @ ys) = tier_sum t xs + tier_sum t ys"
  "tier_sum t [c] = (if cc_tier c = t then cc_estimated_tokens c else 0)"
  by (simp_all add: tier_sum_def)

text \<open>Where the entries are: selected, dropped, or passed to the next tier.\<close>

definition placed_ids :: "compile_state \<Rightarrow> pystr multiset" where
  "placed_ids st = mset (map cc_entry_id (cp_selected st)) + mset (map dr_entry_id (cp_drops st)) +
     mset (map (ce_entry_id \<circ> fst) (cp_next st))"

lemma compiled_simps [simp]:
  "cc_tier (compiled e o' t n x) = t" "cc_estimated_tokens (compiled e o' t n x) = n"
  "cc_entry_id (compiled e o' t n x) = ce_entry_id e" "cc_mandatory (compiled e o' t n x) = ce_mandatory e"
  "cc_text (compiled e o' t n None) = ce_text e" "cc_text (compiled e o' t n (Some y)) = y"
  by (simp_all add: compiled_def)

lemma give_way_simps [simp]:
  "cp_selected (give_way t st e o') = cp_selected st" "cp_used (give_way t st e o') = cp_used st"
  "cp_total (give_way t st e o') = cp_total st"
  "placed_ids (give_way t st e o') = add_mset (ce_entry_id e) (placed_ids st)"
  by (simp_all add: give_way_def placed_ids_def split: option.split)

context token_estimator
begin

lemma entry_step:
  fixes st :: compile_state and tier item al
  assumes "int (cp_used st) \<le> max 0 al"
  defines "st' \<equiv> compile_entry est trunc tier al st item"
  shows "int (cp_used st') \<le> max 0 al" "cp_used st \<le> cp_used st'"
    "cp_total st' + cp_used st = cp_total st + cp_used st'"
    "tier_sum tier (cp_selected st') + cp_used st = tier_sum tier (cp_selected st) + cp_used st'"
    "t \<noteq> tier \<Longrightarrow> tier_sum t (cp_selected st') = tier_sum t (cp_selected st)"
    "placed_ids st' = add_mset (ce_entry_id (fst item)) (placed_ids st)"
proof -
  let ?rem = "max 0 (al - int (cp_used st))"
  have fits: "int (est (trunc (ce_text (fst item)) ?rem)) \<le> ?rem" by (rule trunc_fits) simp
  show "int (cp_used st') \<le> max 0 al"
    using assms(1) fits by (auto simp: st'_def compile_entry_def Let_def)
  show "cp_used st \<le> cp_used st'" "cp_total st' + cp_used st = cp_total st + cp_used st'"
    "tier_sum tier (cp_selected st') + cp_used st = tier_sum tier (cp_selected st) + cp_used st'"
    "t \<noteq> tier \<Longrightarrow> tier_sum t (cp_selected st') = tier_sum t (cp_selected st)"
    by (auto simp: st'_def compile_entry_def Let_def)
  show "placed_ids st' = add_mset (ce_entry_id (fst item)) (placed_ids st)"
    by (auto simp: st'_def compile_entry_def Let_def) (auto simp: placed_ids_def)
qed

lemma tier_loop:
  fixes st :: compile_state and tier al queue
  assumes "int (cp_used st) \<le> max 0 al"
  defines "st' \<equiv> foldl (compile_entry est trunc tier al) st queue"
  shows "int (cp_used st') \<le> max 0 al \<and> cp_total st' + cp_used st = cp_total st + cp_used st' \<and>
    tier_sum tier (cp_selected st') + cp_used st = tier_sum tier (cp_selected st) + cp_used st' \<and>
    (\<forall>t. t \<noteq> tier \<longrightarrow> tier_sum t (cp_selected st') = tier_sum t (cp_selected st)) \<and>
    placed_ids st' = mset (map (ce_entry_id \<circ> fst) queue) + placed_ids st"
  unfolding st'_def using assms(1)
proof (induction queue arbitrary: st)
  case (Cons item queue)
  note step = entry_step [OF Cons.prems, where tier = tier and item = item]
  show ?case using Cons.IH [OF step(1)] step by simp
qed simp

lemma compile_tier_ok:
  assumes "st' = compile_tier est trunc tier conf tot queue st"
  shows "int (cp_used st') \<le> max 0 (min conf (tot - int (cp_total st)))"
    "cp_total st' = cp_total st + cp_used st'"
    "tier_sum tier (cp_selected st') = tier_sum tier (cp_selected st) + cp_used st'"
    "t \<noteq> tier \<Longrightarrow> tier_sum t (cp_selected st') = tier_sum t (cp_selected st)"
    "placed_ids st' + mset (map (ce_entry_id \<circ> fst) (cp_next st)) =
       mset (map (ce_entry_id \<circ> fst) queue) + placed_ids st"
  using tier_loop [where st = "st\<lparr>cp_used := 0, cp_next := []\<rparr>" and al = "min conf (tot - int (cp_total st))"
      and tier = tier and queue = "sort_key (\<lambda>item. entry_sort_key (fst item)) queue"]
  by (auto simp: assms compile_tier_def placed_ids_def)

lemma compile_budget:
  assumes "check_budget (cr_budget r)"
  defines "u0 \<equiv> cp_used (after_t0 est trunc r)" and "u1 \<equiv> cp_used (after_t1 est trunc r)"
    and "u2 \<equiv> cp_used (after_t2 est trunc r)"
  shows "int u0 \<le> cb_t0_tokens (cr_budget r)" "int u1 \<le> cb_t1_tokens (cr_budget r)"
    "int u2 \<le> cb_t2_tokens (cr_budget r)" "cp_total (after_t2 est trunc r) = u0 + u1 + u2"
    "int (cp_total (after_t2 est trunc r)) \<le> cb_total_tokens (cr_budget r)"
    "tier_sum T0_CANON (cp_selected (after_t2 est trunc r)) = u0"
    "tier_sum T1_HOT (cp_selected (after_t2 est trunc r)) = u1"
    "tier_sum T2_MAP (cp_selected (after_t2 est trunc r)) = u2"
proof -
  let ?b = "cr_budget r"
  have b: "1 \<le> cb_t0_tokens ?b" "0 \<le> cb_t1_tokens ?b" "0 \<le> cb_t2_tokens ?b" "1 \<le> cb_total_tokens ?b"
    using assms(1) by (simp_all add: check_budget_def)
  note t0 = compile_tier_ok [OF after_t0_def [of est trunc r]]
  note t1 = compile_tier_ok [OF after_t1_def [of est trunc r]]
  note t2 = compile_tier_ok [OF after_t2_def [of est trunc r]]
  show "int u0 \<le> cb_t0_tokens ?b" "int u1 \<le> cb_t1_tokens ?b" "int u2 \<le> cb_t2_tokens ?b"
    using t0(1) t1(1) t2(1) b by (simp_all add: u0_def u1_def u2_def)
  show tot: "cp_total (after_t2 est trunc r) = u0 + u1 + u2"
    using t0(2) t1(2) t2(2) by (simp add: u0_def u1_def u2_def)
  have "int (cp_total (after_t0 est trunc r)) \<le> cb_total_tokens ?b" using t0(1,2) b by simp
  then have "int (cp_total (after_t1 est trunc r)) \<le> cb_total_tokens ?b" using t1(1,2) b by linarith
  then show "int (cp_total (after_t2 est trunc r)) \<le> cb_total_tokens ?b" using t2(1,2) b by linarith
  show "tier_sum T0_CANON (cp_selected (after_t2 est trunc r)) = u0"
    "tier_sum T1_HOT (cp_selected (after_t2 est trunc r)) = u1"
    "tier_sum T2_MAP (cp_selected (after_t2 est trunc r)) = u2"
    using t0(3) t0(4) [of T1_HOT] t0(4) [of T2_MAP] t1(3) t1(4) [of T0_CANON] t1(4) [of T2_MAP]
      t2(3) t2(4) [of T0_CANON] t2(4) [of T1_HOT]
    by (simp_all add: u0_def u1_def u2_def)
qed

lemma after_ids:
  "placed_ids (after_t0 est trunc r) = mset (map (ce_entry_id \<circ> fst) (tier_queue T0_CANON (all_entries r)))"
  "placed_ids (after_t1 est trunc r) = placed_ids (after_t0 est trunc r) +
     mset (map (ce_entry_id \<circ> fst) (tier_queue T1_HOT (all_entries r)))"
  "placed_ids (after_t2 est trunc r) = placed_ids (after_t1 est trunc r) +
     mset (map (ce_entry_id \<circ> fst) (tier_queue T2_MAP (all_entries r)))"
proof -
  have cancel: "A = B + Q" if "A + N = mset (map f (q @ n)) + B" "N = mset (map f n)" "Q = mset (map f q)"
    for A B Q N :: "pystr multiset" and f :: "ContextEntry \<times> ContextTier \<Rightarrow> pystr" and q n
    using that by (simp add: ac_simps)
  have "placed_ids \<lparr>cp_selected = [], cp_demotions = [], cp_trims = [], cp_drops = [], cp_used = 0, cp_total = 0, cp_next = []\<rparr> = {#}"
    by (simp add: placed_ids_def)
  then show "placed_ids (after_t0 est trunc r) = mset (map (ce_entry_id \<circ> fst) (tier_queue T0_CANON (all_entries r)))"
    using compile_tier_ok(5) [OF after_t0_def [of est trunc r]] by simp
  show "placed_ids (after_t1 est trunc r) = placed_ids (after_t0 est trunc r) +
     mset (map (ce_entry_id \<circ> fst) (tier_queue T1_HOT (all_entries r)))"
    by (rule cancel [OF compile_tier_ok(5) [OF after_t1_def [of est trunc r]] refl refl])
  show "placed_ids (after_t2 est trunc r) = placed_ids (after_t1 est trunc r) +
     mset (map (ce_entry_id \<circ> fst) (tier_queue T2_MAP (all_entries r)))"
    by (rule cancel [OF compile_tier_ok(5) [OF after_t2_def [of est trunc r]] refl refl])
qed

end

lemma compile_entry_next:
  "cp_next (compile_entry est trunc T2_MAP al st item) = cp_next st"
  by (simp add: compile_entry_def give_way_def Let_def)

lemma after_t2_next: "cp_next (after_t2 est trunc r) = []"
proof -
  have "cp_next (foldl (compile_entry est trunc T2_MAP al) st q) = cp_next st" for al st q
    by (induction q arbitrary: st) (simp_all add: compile_entry_next)
  then show ?thesis by (simp add: after_t2_def compile_tier_def)
qed

lemma tier_queues_all:
  "mset (map (ce_entry_id \<circ> fst) (tier_queue T0_CANON es)) + mset (map (ce_entry_id \<circ> fst) (tier_queue T1_HOT es)) +
   mset (map (ce_entry_id \<circ> fst) (tier_queue T2_MAP es)) = mset (map ce_entry_id es)"
proof (induction es)
  case (Cons e es)
  then show ?case by (cases "ce_tier e") (simp_all add: tier_queue_def flip: Cons)
qed (simp add: tier_queue_def)

text \<open>Every selected entry carries the estimate of the text it carries.\<close>

lemma selected_estimates:
  "\<forall>c \<in> set (cp_selected st). cc_estimated_tokens c = est (cc_text c) \<Longrightarrow>
   \<forall>c \<in> set (cp_selected (compile_entry est trunc tier al st item)). cc_estimated_tokens c = est (cc_text c)"
  by (auto simp: compile_entry_def Let_def)

lemma compile_tier_estimates:
  assumes "\<forall>c \<in> set (cp_selected st). cc_estimated_tokens c = est (cc_text c)"
  shows "\<forall>c \<in> set (cp_selected (compile_tier est trunc tier conf tot queue st)). cc_estimated_tokens c = est (cc_text c)"
proof -
  have "\<forall>c \<in> set (cp_selected (foldl (compile_entry est trunc tier al) s q)). cc_estimated_tokens c = est (cc_text c)"
    if "\<forall>c \<in> set (cp_selected s). cc_estimated_tokens c = est (cc_text c)" for al s q
    using that
  proof (induction q arbitrary: s)
    case (Cons item q)
    show ?case using Cons.IH [OF selected_estimates [OF Cons.prems]] by simp
  qed simp
  note loop = this
  show ?thesis unfolding compile_tier_def by (rule loop) (use assms in simp)
qed

lemma after_t2_estimates: "\<forall>c \<in> set (cp_selected (after_t2 est trunc r)). cc_estimated_tokens c = est (cc_text c)"
  unfolding after_t2_def after_t1_def after_t0_def by (intro compile_tier_estimates) simp

section \<open>The order of the entries does not matter\<close>

lemma sort_key_perm:
  assumes "mset xs = mset ys" "distinct xs" "inj_on f (set xs)"
  shows "sort_key f xs = sort_key f ys"
proof (rule properties_for_sort_key)
  show "mset (sort_key f ys) = mset xs" using assms(1) by simp
  show "sorted (map f (sort_key f ys))" by simp
  fix k assume "k \<in> set (sort_key f ys)"
  then have k: "k \<in> set xs" using assms(1) by (metis set_mset_mset set_sort)
  have dy: "distinct ys" using assms(1,2) mset_eq_imp_distinct_iff by blast
  have "filter (\<lambda>x. f k = f x) zs = [k]" if "distinct zs" "set zs = set xs" for zs
  proof -
    have "filter (\<lambda>x. f k = f x) zs = filter (\<lambda>x. x = k) zs"
      using that(2) k assms(3) by (intro filter_cong) (auto dest: inj_onD)
    moreover have "filter (\<lambda>x. x = k) zs = (if k \<in> set zs then [k] else [])"
      using that(1) by (induction zs) auto
    ultimately show ?thesis using that(2) k by simp
  qed
  then show "filter (\<lambda>x. f k = f x) (sort_key f ys) = filter (\<lambda>x. f k = f x) xs"
    using assms(1,2) dy by (metis distinct_sort set_mset_mset set_sort)
qed

lemma distinct_submset:
  assumes "mset xs \<subseteq># mset ys" "distinct ys"
  shows "distinct xs"
proof -
  have "count (mset xs) a = (if a \<in> set xs then 1 else 0)" for a
  proof -
    have "count (mset xs) a \<le> count (mset ys) a" using assms(1) by (rule mset_subset_eq_count)
    also have "\<dots> \<le> 1" using assms(2) by (simp add: distinct_count_atmost_1)
    finally have "count (mset xs) a \<le> 1" .
    moreover have "count (mset xs) a \<noteq> 0 \<longleftrightarrow> a \<in> set xs" by (simp add: count_mset_0_iff)
    ultimately show ?thesis by (cases "count (mset xs) a") auto
  qed
  then show ?thesis by (simp add: distinct_count_atmost_1)
qed

lemma keys_inj:
  assumes "distinct (map (ce_entry_id \<circ> fst) q)"
  shows "distinct q" "inj_on (\<lambda>item. entry_sort_key (fst item)) (set q)"
  using assms by (auto simp: distinct_map entry_sort_key_def inj_on_def)

lemma compile_tier_perm:
  assumes "mset q = mset q'" "distinct (map (ce_entry_id \<circ> fst) q)"
  shows "compile_tier est trunc tier conf tot q st = compile_tier est trunc tier conf tot q' st"
  using sort_key_perm [OF assms(1) keys_inj [OF assms(2)]] by (simp add: compile_tier_def)

lemma all_entries_perm:
  assumes "mset es = mset (cr_entries r)"
  shows "mset (all_entries (r\<lparr>cr_entries := es\<rparr>)) = mset (all_entries r)"
    "used_fallback (r\<lparr>cr_entries := es\<rparr>) = used_fallback r"
proof -
  have "set es = set (cr_entries r)" using assms by (metis set_mset_mset)
  then show f: "used_fallback (r\<lparr>cr_entries := es\<rparr>) = used_fallback r"
    by (simp add: used_fallback_def list_ex_iff)
  show "mset (all_entries (r\<lparr>cr_entries := es\<rparr>)) = mset (all_entries r)"
    using assms by (simp add: all_entries_def f fallback_entry_def)
qed

lemma tier_queue_perm: "mset es = mset es' \<Longrightarrow> mset (tier_queue t es) = mset (tier_queue t es')"
  by (simp add: tier_queue_def)

context token_estimator
begin

lemma queue_ids_distinct:
  assumes "distinct (map ce_entry_id (all_entries r))"
  shows "distinct (map (ce_entry_id \<circ> fst) (tier_queue T0_CANON (all_entries r)))"
    "distinct (map (ce_entry_id \<circ> fst) (tier_queue T1_HOT (all_entries r) @ cp_next (after_t0 est trunc r)))"
    "distinct (map (ce_entry_id \<circ> fst) (tier_queue T2_MAP (all_entries r) @ cp_next (after_t1 est trunc r)))"
proof -
  let ?ids = "\<lambda>q. mset (map (ce_entry_id \<circ> fst) q)"
  let ?q = "\<lambda>t. tier_queue t (all_entries r)"
  have all: "?ids (?q T0_CANON) + ?ids (?q T1_HOT) + ?ids (?q T2_MAP) = mset (map ce_entry_id (all_entries r))"
    by (rule tier_queues_all)
  have nx: "?ids (cp_next st) \<subseteq># placed_ids st" for st :: compile_state by (simp add: placed_ids_def)
  note fin = distinct_submset [OF _ assms]
  show "distinct (map (ce_entry_id \<circ> fst) (?q T0_CANON))"
    by (rule fin, subst all [symmetric]) simp
  have "?ids (cp_next (after_t0 est trunc r)) \<subseteq># ?ids (?q T0_CANON)" using nx after_ids(1) by metis
  then have "?ids (?q T1_HOT @ cp_next (after_t0 est trunc r)) \<subseteq># ?ids (?q T1_HOT) + ?ids (?q T0_CANON)" by simp
  also have "\<dots> \<subseteq># mset (map ce_entry_id (all_entries r))" unfolding all [symmetric] by simp
  finally show "distinct (map (ce_entry_id \<circ> fst) (?q T1_HOT @ cp_next (after_t0 est trunc r)))" by (rule fin)
  have "?ids (cp_next (after_t1 est trunc r)) \<subseteq># ?ids (?q T0_CANON) + ?ids (?q T1_HOT)"
    using nx after_ids(1,2) by metis
  then have "?ids (?q T2_MAP @ cp_next (after_t1 est trunc r)) \<subseteq># ?ids (?q T0_CANON) + ?ids (?q T1_HOT) + ?ids (?q T2_MAP)"
    by (simp add: subset_mset.add_left_mono add.commute)
  also have "\<dots> \<subseteq># mset (map ce_entry_id (all_entries r))" unfolding all [symmetric] by simp
  finally show "distinct (map (ce_entry_id \<circ> fst) (?q T2_MAP @ cp_next (after_t1 est trunc r)))" by (rule fin)
qed

lemma compile_perm:
  assumes "distinct (map ce_entry_id (all_entries r))" "mset es = mset (cr_entries r)"
  shows "after_t2 est trunc (r\<lparr>cr_entries := es\<rparr>) = after_t2 est trunc r \<and>
    after_t1 est trunc (r\<lparr>cr_entries := es\<rparr>) = after_t1 est trunc r \<and>
    after_t0 est trunc (r\<lparr>cr_entries := es\<rparr>) = after_t0 est trunc r"
proof -
  let ?r = "r\<lparr>cr_entries := es\<rparr>"
  note q = tier_queue_perm [OF all_entries_perm(1) [OF assms(2)]]
  note d = queue_ids_distinct [OF assms(1)]
  have t0: "after_t0 est trunc ?r = after_t0 est trunc r"
    unfolding after_t0_def using compile_tier_perm [OF q [symmetric] d(1)] by simp
  have t1: "after_t1 est trunc ?r = after_t1 est trunc r"
    unfolding after_t1_def [of _ _ ?r] t0 after_t1_def [of _ _ r]
    using compile_tier_perm [OF _ d(2), of "tier_queue T1_HOT (all_entries ?r) @ cp_next (after_t0 est trunc r)"] q by simp
  have "after_t2 est trunc ?r = after_t2 est trunc r"
    unfolding after_t2_def [of _ _ ?r] t1 after_t2_def [of _ _ r]
    using compile_tier_perm [OF _ d(3), of "tier_queue T2_MAP (all_entries ?r) @ cp_next (after_t1 est trunc r)"] q by simp
  with t0 t1 show ?thesis by simp
qed

end

section \<open>The cache\<close>

text \<open>A namespace's latest snapshot is filed under its own namespace, and is among the snapshots kept by identity.\<close>

definition cache_inv :: "snapshot_cache \<Rightarrow> bool" where
  "cache_inv c \<longleftrightarrow> (\<forall>ns s. cache_latest c ns = Some s \<longrightarrow> rp_namespace (cs_revision s) = ns)"

definition cache_apply :: "snapshot_cache \<Rightarrow> ContextSnapshot \<Rightarrow> snapshot_cache" where
  "cache_apply c s = snd (cache_publish c s)"

definition latest_generation :: "pystr \<Rightarrow> snapshot_cache \<Rightarrow> int" where
  "latest_generation ns c =
     (case cache_latest c ns of None \<Rightarrow> - 1 | Some s \<Rightarrow> rp_memory_generation (cs_revision s))"

lemma cache_apply_latest:
  "cache_latest (cache_apply c s) ns =
     (if rp_namespace (cs_revision s) = ns \<and>
         (case cache_latest c ns of None \<Rightarrow> True
          | Some cur \<Rightarrow> rp_memory_generation (cs_revision cur) \<le> rp_memory_generation (cs_revision s))
      then Some s else cache_latest c ns)"
  by (auto simp: cache_apply_def cache_publish_def cache_latest_def Let_def update_conv' split: option.splits)

interpretation cache: op_system cache_apply cache_inv
  by unfold_locales (auto simp: cache_inv_def cache_apply_latest split: if_splits)

lemma latest_generation_mono:
  assumes "0 \<le> rp_memory_generation (cs_revision s)"
  shows "latest_generation ns c \<le> latest_generation ns (cache_apply c s)"
  using assms by (auto simp: latest_generation_def cache_apply_latest split: option.splits)

section \<open>Properties\<close>

text \<open>
  C19: a compiled context never exceeds its budget. For every valid request, and any
  estimator whose cuts fit, the tokens used in each tier stay within that tier's budget and
  their sum within the total; the reported usage is exactly the sum of the entries' estimates,
  and each estimate is that of the text actually included.
\<close>

theorem context_budget_respected:
  assumes "check_request r" and "\<forall>t n. 0 \<le> n \<longrightarrow> int (est (trunc t n)) \<le> n"
    and "s = compile_context est trunc sid now r"
  shows "int (us_t0_tokens (cs_usage s)) \<le> cb_t0_tokens (cr_budget r) \<and>
    int (us_t1_tokens (cs_usage s)) \<le> cb_t1_tokens (cr_budget r) \<and>
    int (us_t2_tokens (cs_usage s)) \<le> cb_t2_tokens (cr_budget r) \<and>
    int (us_total_tokens (cs_usage s)) \<le> cb_total_tokens (cr_budget r) \<and>
    us_total_tokens (cs_usage s) = us_t0_tokens (cs_usage s) + us_t1_tokens (cs_usage s) + us_t2_tokens (cs_usage s) \<and>
    tier_sum T0_CANON (cs_entries s) = us_t0_tokens (cs_usage s) \<and>
    tier_sum T1_HOT (cs_entries s) = us_t1_tokens (cs_usage s) \<and>
    tier_sum T2_MAP (cs_entries s) = us_t2_tokens (cs_usage s) \<and>
    (\<forall>c \<in> set (cs_entries s). cc_estimated_tokens c = est (cc_text c))"
proof -
  have te: "token_estimator est trunc" using assms(2) by unfold_locales auto
  have b: "check_budget (cr_budget r)" using assms(1) by (simp add: check_request_def)
  note cb = token_estimator.compile_budget [OF te b]
  have "tier_sum t (sort_key f cs) = tier_sum t cs" for t cs and f :: "CompiledContextEntry \<Rightarrow> nat \<times> int \<times> pystr"
    by (simp add: tier_sum_mset)
  then show ?thesis
    using cb after_t2_estimates [of est trunc r] by (simp add: assms(3) compile_context_def Let_def)
qed

text \<open>
  C20: no entry disappears silently. The identities of the snapshot's entries and of its
  recorded drops are together exactly those of the request's entries (and of the minimal
  canon when the request has no mandatory canon entry), each once.
\<close>

theorem context_entries_accounted:
  assumes "check_request r" and "\<forall>t n. 0 \<le> n \<longrightarrow> int (est (trunc t n)) \<le> n"
    and "s = compile_context est trunc sid now r"
  shows "mset (map cc_entry_id (cs_entries s)) + mset (map dr_entry_id (cs_drops s)) =
    mset (map ce_entry_id (cr_entries r)) +
    (if cs_used_minimal_fallback s then {#lit ''__minimal_canon__''#} else {#})"
proof -
  have te: "token_estimator est trunc" using assms(2) by unfold_locales auto
  note ids = token_estimator.after_ids [OF te, of r]
  have "placed_ids (after_t2 est trunc r) = mset (map ce_entry_id (all_entries r))"
    using ids tier_queues_all [of "all_entries r"] by simp
  then show ?thesis
    by (simp add: assms(3) compile_context_def Let_def placed_ids_def after_t2_next all_entries_def
        fallback_entry_def del: lit_simps)
qed

text \<open>
  C29: compilation is deterministic in the set of entries. Presenting the same entries in any
  other order gives the same snapshot, rendered text included, provided no entry takes the
  identity reserved for the minimal canon.
\<close>

theorem context_order_irrelevant:
  assumes "check_request r" and "\<forall>t n. 0 \<le> n \<longrightarrow> int (est (trunc t n)) \<le> n"
    and "lit ''__minimal_canon__'' \<notin> set (map ce_entry_id (cr_entries r))"
    and "mset es = mset (cr_entries r)"
  shows "compile_context est trunc sid now (r\<lparr>cr_entries := es\<rparr>) = compile_context est trunc sid now r"
proof -
  have te: "token_estimator est trunc" using assms(2) by unfold_locales auto
  have "distinct (map ce_entry_id (all_entries r))"
    using assms(1,3) by (auto simp: check_request_def all_entries_def fallback_entry_def simp del: lit_simps)
  from token_estimator.compile_perm [OF te this assms(4)] all_entries_perm(2) [OF assms(4)]
  show ?thesis by (simp add: compile_context_def Let_def)
qed

text \<open>
  a published context only moves forward. Over any sequence of publications, the memory
  generation of a namespace's latest snapshot never decreases; a publication is refused, and
  changes nothing, exactly when its generation is older than the one published.
\<close>

theorem cache_generation_monotone:
  assumes "\<forall>s \<in> set ss. 0 \<le> rp_memory_generation (cs_revision s)"
  shows "latest_generation ns c \<le> latest_generation ns (foldl cache_apply c ss) \<and>
    (fst (cache_publish c s) = Inl StaleSnapshotError \<longleftrightarrow>
       (\<exists>cur. cache_latest c (rp_namespace (cs_revision s)) = Some cur \<and>
          rp_memory_generation (cs_revision s) < rp_memory_generation (cs_revision cur))) \<and>
    (fst (cache_publish c s) = Inl StaleSnapshotError \<longrightarrow> snd (cache_publish c s) = c)"
proof -
  have "latest_generation ns c \<le> latest_generation ns (foldl cache_apply c ss)"
    using assms
  proof (induction ss arbitrary: c)
    case (Cons t ss)
    have "latest_generation ns c \<le> latest_generation ns (cache_apply c t)"
      by (rule latest_generation_mono) (use Cons.prems in simp)
    also have "\<dots> \<le> latest_generation ns (foldl cache_apply (cache_apply c t) ss)"
      by (rule Cons.IH) (use Cons.prems in simp)
    finally show ?case by simp
  qed simp
  then show ?thesis
    by (auto simp: cache_publish_def cache_latest_def Let_def split: option.splits if_splits)
qed

definition demo_pin :: ContextRevisionPin where
  "demo_pin = \<lparr>rp_namespace = lit ''main'', rp_memory_generation = 3, rp_canon_revision = lit ''c1'',
     rp_persona_revision = None, rp_profile_revision = None, rp_relationship_revision = None,
     rp_session_revision = None, rp_recipe_revision = lit ''default-v1''\<rparr>"

definition demo_entry :: "string \<Rightarrow> ContextTier \<Rightarrow> string \<Rightarrow> ContextEntry" where
  "demo_entry i t x = \<lparr>ce_entry_id = lit i, ce_tier = t, ce_context_class = Class_PERSONA, ce_text = lit x,
     ce_priority = 0, ce_mandatory = False, ce_demotable = True, ce_source_revision_id = None,
     ce_source_memory_id = None\<rparr>"

definition demo_request :: ContextCompileRequest where
  "demo_request = \<lparr>cr_session_id = lit ''s'', cr_turn_id = lit ''t'', cr_revision = demo_pin,
     cr_budget = \<lparr>cb_t0_tokens = 4, cb_t1_tokens = 2, cb_t2_tokens = 1, cb_total_tokens = 6\<rparr>,
     cr_entries = [demo_entry ''a'' T1_HOT ''likes tea'', demo_entry ''b'' T2_MAP ''x''],
     cr_activity_mode = lit ''conversation'', cr_privacy_recipe = lit ''private'',
     cr_minimal_canon = lit ''Remain in character''\<rparr>"

lemma demo_request_ok:
  "check_request demo_request" "lit ''__minimal_canon__'' \<notin> set (map ce_entry_id (cr_entries demo_request))"
  "mset (rev (cr_entries demo_request)) = mset (cr_entries demo_request)"
  by (simp_all add: demo_request_def check_request_def check_budget_def demo_entry_def)

lemma utf8_law: "\<forall>t n. 0 \<le> n \<longrightarrow> int (estimate (truncate_tokens t n)) \<le> n"
  using truncate_estimate by blast

definition demo_time :: datetime where
  "demo_time = \<lparr>dt_micros = 0, dt_utcoffset = Some 0\<rparr>"

theorem context_budget_respected_witness:
  "us_total_tokens (cs_usage (compile_context estimate truncate_tokens (lit ''ctx'') demo_time demo_request)) \<le> 6"
  using context_budget_respected [OF demo_request_ok(1) utf8_law refl, of "lit ''ctx''" demo_time]
  by (simp add: demo_request_def del: lit_simps)

theorem context_entries_accounted_witness:
  "\<exists>s. s = compile_context estimate truncate_tokens (lit ''ctx'') demo_time demo_request \<and>
     lit ''a'' \<in># mset (map cc_entry_id (cs_entries s)) + mset (map dr_entry_id (cs_drops s))"
proof -
  have "ce_entry_id (demo_entry ''a'' T1_HOT ''likes tea'') = lit ''a''"
    by (simp add: demo_entry_def del: lit_simps)
  then have "lit ''a'' \<in># mset (map ce_entry_id (cr_entries demo_request)) + M" for M
    by (simp add: demo_request_def del: lit_simps)
  then show ?thesis
    unfolding simp_thms(39)
    by (subst context_entries_accounted [OF demo_request_ok(1) utf8_law refl])
qed

theorem context_order_irrelevant_witness:
  "compile_context estimate truncate_tokens (lit ''ctx'') demo_time (demo_request\<lparr>cr_entries := rev (cr_entries demo_request)\<rparr>) =
   compile_context estimate truncate_tokens (lit ''ctx'') demo_time demo_request"
  by (rule context_order_irrelevant [OF demo_request_ok(1) utf8_law demo_request_ok(2,3)])

theorem cache_generation_monotone_witness:
  "latest_generation (lit ''main'') cache_init \<le> latest_generation (lit ''main'')
     (foldl cache_apply cache_init [compile_context estimate truncate_tokens (lit ''ctx'') demo_time demo_request])"
  using cache_generation_monotone [of "[compile_context estimate truncate_tokens (lit ''ctx'') demo_time demo_request]"
      "lit ''main''" cache_init]
  by (simp add: compile_context_def demo_request_def demo_pin_def Let_def del: lit_simps)

end
