(* ===== verification/Scheduler.thy ===== *)
theory Scheduler
  imports AvatarTypes "HOL-Library.AList"
begin

text \<open>
  \<^verbatim>\<open>avatar/scheduler.py\<close>: arbitration of presentation cues. One record field per attribute of
  \<open>PresentationScheduler\<close>; dictionaries are association lists in insertion order. The value
  the injected clock returns is the argument \<open>now\<close> of the operations that read it, and the
  neutral factory is a field that may fail like the code it stands for. A raising operation
  returns the scheduler as the exception leaves it.
\<close>

section \<open>State\<close>

record RateLimitPolicy =
  rl_max_starts :: int
  rl_window_s :: pyfloat

definition check_rate_limit :: "RateLimitPolicy \<Rightarrow> bool" where
  "check_rate_limit r \<longleftrightarrow> 1 \<le> rl_max_starts r \<and> isfinite (rl_window_s r) \<and> \<not> fle (rl_window_s r) (Fin 0)"

record SchedulerPolicy =
  sp_global_rate_limit :: "RateLimitPolicy option"
  sp_layer_rate_limits :: "(PresentationLayer \<times> RateLimitPolicy) list"
  sp_max_pending :: int
  sp_max_audio_markers :: int

definition check_policy :: "SchedulerPolicy \<Rightarrow> bool" where
  "check_policy p \<longleftrightarrow> 1 \<le> sp_max_pending p \<and> 1 \<le> sp_max_audio_markers p"

record PendingCue =
  pn_cue :: PresentationCue
  pn_sequence :: int
  pn_due_at :: "pyfloat option"

record SchedulerBatch =
  sb_results :: "ScheduleResult list"
  sb_events :: "PresentationEvent list"

datatype scheduler_error =
  Scheduler_generation | Clock_not_finite | Generation_backwards | Bad_disconnect_reason
| Invalid_neutral | Factory_failed avatar_error | Lease_failed avatar_error | No_audio_binding

type_synonym neutral_factory = "PresentationLayer \<Rightarrow> int \<Rightarrow> pyfloat \<Rightarrow> avatar_error + PresentationCue"

record scheduler =
  sc_generation :: int
  sc_policy :: SchedulerPolicy
  sc_neutral_factory :: "neutral_factory option"
  sc_connected :: bool
  sc_active :: "(pystr \<times> ActiveLease) list"
  sc_active_by_layer :: "(PresentationLayer \<times> pystr) list"
  sc_pending :: "(pystr \<times> PendingCue) list"
  sc_audio_markers :: "(timeline_key \<times> AudioTimelineMarker) list"
  sc_cooldown_until :: "(pystr \<times> pyfloat) list"
  sc_global_starts :: "pyfloat list"
  sc_layer_starts :: "PresentationLayer \<Rightarrow> pyfloat list"
  sc_needs_neutral :: "PresentationLayer set"
  sc_sequence :: int

definition default_scheduler_policy :: SchedulerPolicy where
  "default_scheduler_policy = \<lparr>sp_global_rate_limit = None, sp_layer_rate_limits = [], sp_max_pending = 256,
     sp_max_audio_markers = 1024\<rparr>"

definition scheduler_init ::
  "int \<Rightarrow> SchedulerPolicy option \<Rightarrow> neutral_factory option \<Rightarrow> scheduler_error + scheduler" where
  "scheduler_init generation policy factory =
     (if generation < 0 then Inl Scheduler_generation
      else Inr \<lparr>sc_generation = generation,
                sc_policy = (case policy of Some p \<Rightarrow> p | None \<Rightarrow> default_scheduler_policy),
                sc_neutral_factory = factory, sc_connected = True, sc_active = [], sc_active_by_layer = [],
                sc_pending = [], sc_audio_markers = [], sc_cooldown_until = [], sc_global_starts = [],
                sc_layer_starts = (\<lambda>_. []), sc_needs_neutral = {}, sc_sequence = 0\<rparr>)"

section \<open>Queries\<close>

definition sorted_active :: "scheduler \<Rightarrow> ActiveLease list" where
  "sorted_active s =
     sort_key (\<lambda>l. (layer_value (pc_layer (al_cue l)), pc_cue_id (al_cue l))) (map snd (sc_active s))"

definition pending_cue_ids :: "scheduler \<Rightarrow> pystr list" where
  "pending_cue_ids s = map (\<lambda>p. pc_cue_id (pn_cue p)) (sort_key pn_sequence (map snd (sc_pending s)))"

text \<open>\<open>current_cue\<close>; \<open>Inl\<close> is the \<open>KeyError\<close> of the second lookup.\<close>

definition current_cue :: "scheduler \<Rightarrow> PresentationLayer \<Rightarrow> unit + PresentationCue option" where
  "current_cue s l =
     (case map_of (sc_active_by_layer s) l of
        None \<Rightarrow> Inr None
      | Some cue_id \<Rightarrow>
          (case map_of (sc_active s) cue_id of None \<Rightarrow> Inl () | Some lease \<Rightarrow> Inr (Some (al_cue lease))))"

definition accepts_adapter_result :: "scheduler \<Rightarrow> pystr \<Rightarrow> int \<Rightarrow> bool" where
  "accepts_adapter_result s cue_id generation \<longleftrightarrow>
     sc_connected s \<and> generation = sc_generation s \<and>
     (case map_of (sc_active s) cue_id of None \<Rightarrow> False | Some l \<Rightarrow> pc_generation (al_cue l) = generation)"

section \<open>Helpers\<close>

definition next_sequence :: "scheduler \<Rightarrow> int \<times> scheduler" where
  "next_sequence s = (let n = sc_sequence s + 1 in (n, s\<lparr>sc_sequence := n\<rparr>))"

definition start_event :: "scheduler \<Rightarrow> PresentationCue \<Rightarrow> pyfloat \<Rightarrow> PresentationEvent \<times> scheduler" where
  "start_event s cue now =
     (let (n, s') = next_sequence s
      in (\<lparr>pe_sequence = n, pe_kind = Event_STARTED, pe_cue = cue, pe_occurred_at = now, pe_reason = None,
           pe_replaced_by = None\<rparr>, s'))"

definition stop_event ::
  "scheduler \<Rightarrow> PresentationCue \<Rightarrow> pyfloat \<Rightarrow> StopReason \<Rightarrow> pystr option \<Rightarrow> PresentationEvent \<times> scheduler" where
  "stop_event s cue now reason replaced_by =
     (let (n, s') = next_sequence s
      in (\<lparr>pe_sequence = n, pe_kind = Event_STOPPED, pe_cue = cue, pe_occurred_at = now,
           pe_reason = Some reason, pe_replaced_by = replaced_by\<rparr>, s'))"

definition remove_active :: "scheduler \<Rightarrow> pystr \<Rightarrow> ActiveLease option \<times> scheduler" where
  "remove_active s cue_id =
     (case map_of (sc_active s) cue_id of
        None \<Rightarrow> (None, s)
      | Some lease \<Rightarrow>
          (Some lease,
           s\<lparr>sc_active := AList.delete cue_id (sc_active s),
             sc_active_by_layer :=
               (if map_of (sc_active_by_layer s) (pc_layer (al_cue lease)) = Some cue_id
                then AList.delete (pc_layer (al_cue lease)) (sc_active_by_layer s)
                else sc_active_by_layer s)\<rparr>))"

text \<open>
  The loop that ends a list of leases, which five methods share: each lease is removed, its
  layer marked for neutral where \<open>mark\<close> says so, and a stop event emitted.
\<close>

fun stop_leases ::
  "scheduler \<Rightarrow> pyfloat \<Rightarrow> StopReason \<Rightarrow> pystr option \<Rightarrow> (PresentationLayer \<Rightarrow> bool) \<Rightarrow> ActiveLease list \<Rightarrow>
   PresentationEvent list \<times> scheduler" where
  "stop_leases s now reason replaced_by mark [] = ([], s)"
| "stop_leases s now reason replaced_by mark (l # ls) =
     (let s1 = snd (remove_active s (pc_cue_id (al_cue l)));
          s2 = (if mark (pc_layer (al_cue l))
                then s1\<lparr>sc_needs_neutral := insert (pc_layer (al_cue l)) (sc_needs_neutral s1)\<rparr> else s1);
          (ev, s3) = stop_event s2 (al_cue l) now reason replaced_by;
          (evs, s4) = stop_leases s3 now reason replaced_by mark ls
      in (ev # evs, s4))"

definition audio_key :: "PresentationCue \<Rightarrow> timeline_key option" where
  "audio_key cue =
     (case pc_audio_binding cue of
        None \<Rightarrow> None
      | Some b \<Rightarrow> Some (ab_utterance_id b, ab_anchor b, ab_marker_id b))"

definition prune_window :: "pyfloat list \<Rightarrow> pyfloat \<Rightarrow> pyfloat \<Rightarrow> pyfloat list" where
  "prune_window starts now window_s = dropWhile (\<lambda>t. fle t (fsub now window_s)) starts"

definition within_layer_limit :: "scheduler \<Rightarrow> PresentationLayer \<Rightarrow> pyfloat \<Rightarrow> bool \<times> scheduler" where
  "within_layer_limit s l now =
     (case map_of (sp_layer_rate_limits (sc_policy s)) l of
        None \<Rightarrow> (True, s)
      | Some limit \<Rightarrow>
          (let starts = prune_window (sc_layer_starts s l) now (rl_window_s limit)
           in (int (length starts) < rl_max_starts limit,
               s\<lparr>sc_layer_starts := (sc_layer_starts s)(l := starts)\<rparr>)))"

definition within_rate_limits :: "scheduler \<Rightarrow> PresentationLayer \<Rightarrow> pyfloat \<Rightarrow> bool \<times> scheduler" where
  "within_rate_limits s l now =
     (case sp_global_rate_limit (sc_policy s) of
        None \<Rightarrow> within_layer_limit s l now
      | Some limit \<Rightarrow>
          (let starts = prune_window (sc_global_starts s) now (rl_window_s limit);
               s1 = s\<lparr>sc_global_starts := starts\<rparr>
           in if int (length starts) < rl_max_starts limit then within_layer_limit s1 l now else (False, s1)))"

definition record_start :: "scheduler \<Rightarrow> PresentationLayer \<Rightarrow> pyfloat \<Rightarrow> scheduler" where
  "record_start s l now =
     (let s1 = (if sp_global_rate_limit (sc_policy s) \<noteq> None
                then s\<lparr>sc_global_starts := sc_global_starts s @ [now]\<rparr> else s)
      in if map_of (sp_layer_rate_limits (sc_policy s1)) l \<noteq> None
         then s1\<lparr>sc_layer_starts := (sc_layer_starts s1)(l := sc_layer_starts s1 l @ [now])\<rparr> else s1)"

definition conflicts_with :: "PresentationCue \<Rightarrow> ActiveLease \<Rightarrow> bool" where
  "conflicts_with cue l \<longleftrightarrow>
     pc_layer (al_cue l) = pc_layer cue \<or> pc_resources (al_cue l) |\<inter>| pc_resources cue \<noteq> {||}"

definition conflicting_leases :: "scheduler \<Rightarrow> PresentationCue \<Rightarrow> ActiveLease list" where
  "conflicting_leases s cue =
     sort_key (\<lambda>l. (- cue_priority (pc_priority (al_cue l)), al_started_at l, pc_cue_id (al_cue l)))
       (filter (conflicts_with cue) (map snd (sc_active s)))"

definition sorted_layers :: "PresentationLayer set \<Rightarrow> PresentationLayer list" where
  "sorted_layers ls = filter (\<lambda>l. l \<in> ls) [Layer_AFFECT, Layer_GAZE, Layer_GESTURE, Layer_POSTURE]"

text \<open>Install a lease; the constructor of \<open>ActiveLease\<close> may raise first.\<close>

definition install_lease ::
  "scheduler \<Rightarrow> PresentationCue \<Rightarrow> pyfloat \<Rightarrow> pyfloat option \<Rightarrow> (scheduler_error + PresentationEvent) \<times> scheduler" where
  "install_lease s cue now expires_at =
     (let lease = \<lparr>al_cue = cue, al_started_at = now, al_expires_at = expires_at\<rparr>
      in (case check_lease lease of
            Some e \<Rightarrow> (Inl (Lease_failed e), s)
          | None \<Rightarrow>
              (let s1 = s\<lparr>sc_active := AList.update (pc_cue_id cue) lease (sc_active s),
                          sc_active_by_layer :=
                            AList.update (pc_layer cue) (pc_cue_id cue) (sc_active_by_layer s),
                          sc_needs_neutral := sc_needs_neutral s - {pc_layer cue}\<rparr>;
                   (ev, s2) = start_event s1 cue now
               in (Inr ev, s2))))"

fun restore_layers ::
  "scheduler \<Rightarrow> neutral_factory \<Rightarrow> pyfloat \<Rightarrow> PresentationLayer list \<Rightarrow>
   (scheduler_error + PresentationEvent list) \<times> scheduler" where
  "restore_layers s factory now [] = (Inr [], s)"
| "restore_layers s factory now (l # ls) =
     (if map_of (sc_active_by_layer s) l \<noteq> None
      then restore_layers (s\<lparr>sc_needs_neutral := sc_needs_neutral s - {l}\<rparr>) factory now ls
      else
        (case factory l (sc_generation s) now of
           Inl e \<Rightarrow> (Inl (Factory_failed e), s)
         | Inr cue \<Rightarrow>
             if pc_layer cue \<noteq> l \<or> pc_generation cue \<noteq> sc_generation s \<or> \<not> pc_neutral cue
             then (Inl Invalid_neutral, s)
             else if conflicting_leases s cue \<noteq> [] then restore_layers s factory now ls
             else
               (case install_lease s cue now None of
                  (Inl e, s1) \<Rightarrow> (Inl e, s1)
                | (Inr ev, s1) \<Rightarrow>
                    (case restore_layers s1 factory now ls of
                       (Inl e, s2) \<Rightarrow> (Inl e, s2)
                     | (Inr evs, s2) \<Rightarrow> (Inr (ev # evs), s2)))))"

definition restore_neutrals ::
  "scheduler \<Rightarrow> pyfloat \<Rightarrow> (scheduler_error + PresentationEvent list) \<times> scheduler" where
  "restore_neutrals s now =
     (case sc_neutral_factory s of
        None \<Rightarrow> (Inr [], s)
      | Some factory \<Rightarrow>
          if \<not> sc_connected s then (Inr [], s)
          else restore_layers s factory now (sorted_layers (sc_needs_neutral s)))"

definition lease_expired :: "pyfloat \<Rightarrow> ActiveLease \<Rightarrow> bool" where
  "lease_expired now l \<longleftrightarrow> (case al_expires_at l of None \<Rightarrow> False | Some t \<Rightarrow> fle t now)"

definition cue_expired :: "pyfloat \<Rightarrow> PresentationCue \<Rightarrow> bool" where
  "cue_expired now c \<longleftrightarrow> (case pc_not_after c of None \<Rightarrow> False | Some t \<Rightarrow> flt t now)"

definition expire :: "scheduler \<Rightarrow> pyfloat \<Rightarrow> PresentationEvent list \<times> scheduler" where
  "expire s now =
     (let (evs, s1) = stop_leases s now Stop_LEASE_EXPIRED None (\<lambda>_. True)
                        (filter (lease_expired now) (sorted_active s))
      in (evs,
          s1\<lparr>sc_pending := filter (\<lambda>p. \<not> cue_expired now (pn_cue (snd p))) (sc_pending s1),
             sc_cooldown_until := filter (\<lambda>c. \<not> fle (snd c) now) (sc_cooldown_until s1)\<rparr>))"

section \<open>Starting a cue\<close>

definition validate_submission :: "scheduler \<Rightarrow> PresentationCue \<Rightarrow> pyfloat \<Rightarrow> ScheduleStatus option" where
  "validate_submission s cue now =
     (if \<not> sc_connected s then Some REJECTED_DISCONNECTED
      else if pc_generation cue < sc_generation s then Some REJECTED_STALE_GENERATION
      else if sc_generation s < pc_generation cue then Some REJECTED_FUTURE_GENERATION
      else if cue_expired now cue then Some REJECTED_EXPIRED
      else if map_of (sc_active s) (pc_cue_id cue) \<noteq> None \<or> map_of (sc_pending s) (pc_cue_id cue) \<noteq> None
        then Some REJECTED_DUPLICATE
      else None)"

text \<open>The texts of the statuses \<open>_validate_submission\<close> returns; it returns no other.\<close>

fun status_detail :: "ScheduleStatus \<Rightarrow> pystr" where
  "status_detail REJECTED_DISCONNECTED = lit ''avatar adapter is disconnected''"
| "status_detail REJECTED_STALE_GENERATION = lit ''cue belongs to an older generation''"
| "status_detail REJECTED_FUTURE_GENERATION = lit ''advance scheduler generation first''"
| "status_detail REJECTED_EXPIRED = lit ''cue TTL elapsed before admission''"
| "status_detail REJECTED_DUPLICATE = lit ''cue_id is already active or pending''"
| "status_detail Sched_STARTED = lit ''started''"
| "status_detail Sched_PENDING_AUDIO = lit ''pending_audio''"
| "status_detail REJECTED_PRIORITY = lit ''rejected_priority''"
| "status_detail REJECTED_COOLDOWN = lit ''rejected_cooldown''"
| "status_detail REJECTED_RATE_LIMIT = lit ''rejected_rate_limit''"
| "status_detail REJECTED_QUEUE_FULL = lit ''rejected_queue_full''"

definition result :: "ScheduleStatus \<Rightarrow> PresentationCue \<Rightarrow> PresentationEvent list \<Rightarrow> detail option \<Rightarrow> ScheduleResult" where
  "result st cue evs d = \<lparr>sr_status = st, sr_cue = cue, sr_events = evs, sr_detail = d\<rparr>"

definition cooling_down :: "scheduler \<Rightarrow> PresentationCue \<Rightarrow> pyfloat \<Rightarrow> pystr option" where
  "cooling_down s cue now =
     (case pc_cooldown_key cue of
        None \<Rightarrow> None
      | Some k \<Rightarrow>
          if flt now (case map_of (sc_cooldown_until s) k of None \<Rightarrow> NegInf | Some t \<Rightarrow> t) then Some k else None)"

definition limited :: "PresentationCue \<Rightarrow> bool" where
  "limited cue \<longleftrightarrow> \<not> pc_limits_exempt cue \<and> \<not> pc_neutral cue"

text \<open>The limits of a cue that is not exempt: a rejection, or the scheduler after pruning.\<close>

definition check_limits ::
  "scheduler \<Rightarrow> PresentationCue \<Rightarrow> pyfloat \<Rightarrow> (ScheduleStatus \<times> detail) option \<times> scheduler" where
  "check_limits s cue now =
     (if \<not> limited cue then (None, s)
      else
        (case cooling_down s cue now of
           Some k \<Rightarrow> (Some (REJECTED_COOLDOWN, Detail_cooldown k), s)
         | None \<Rightarrow>
             (let (ok, s1) = within_rate_limits s (pc_layer cue) now
              in (if ok then None
                  else Some (REJECTED_RATE_LIMIT, Detail_text (lit ''presentation start rate exceeded'')), s1))))"

definition record_limits :: "scheduler \<Rightarrow> PresentationCue \<Rightarrow> pyfloat \<Rightarrow> scheduler" where
  "record_limits s cue now =
     (if \<not> limited cue then s
      else
        record_start
          (case pc_cooldown_key cue of
             None \<Rightarrow> s
           | Some k \<Rightarrow>
               if flt (Fin 0) (pc_cooldown_s cue)
               then s\<lparr>sc_cooldown_until := AList.update k (fadd now (pc_cooldown_s cue)) (sc_cooldown_until s)\<rparr>
               else s)
          (pc_layer cue) now)"

definition blockers :: "scheduler \<Rightarrow> PresentationCue \<Rightarrow> ActiveLease list" where
  "blockers s cue =
     filter (\<lambda>l. cue_priority (pc_priority cue) < cue_priority (pc_priority (al_cue l))) (conflicting_leases s cue)"

definition blocker_id :: "ActiveLease list \<Rightarrow> pystr" where
  "blocker_id ls =
     pc_cue_id (al_cue (argmax (\<lambda>l. (cue_priority (pc_priority (al_cue l)), pc_cue_id (al_cue l))) (hd ls) (tl ls)))"

text \<open>The part of \<open>_attempt_start\<close> after the refusals: preempt, install, record.\<close>

definition take_over ::
  "scheduler \<Rightarrow> PresentationCue \<Rightarrow> pyfloat \<Rightarrow> (scheduler_error + ScheduleResult) \<times> scheduler" where
  "take_over s cue now =
     (let (evs, s1) = stop_leases s now Stop_PREEMPTED (Some (pc_cue_id cue)) (\<lambda>l. l \<noteq> pc_layer cue)
                        (conflicting_leases s cue);
          expires_at = (case pc_lease_s cue of None \<Rightarrow> None | Some d \<Rightarrow> Some (fadd now d))
      in (case install_lease s1 cue now expires_at of
            (Inl e, s2) \<Rightarrow> (Inl e, s2)
          | (Inr ev, s2) \<Rightarrow>
              (Inr (result Sched_STARTED cue (evs @ [ev]) None), record_limits s2 cue now)))"

definition attempt_start ::
  "scheduler \<Rightarrow> PresentationCue \<Rightarrow> pyfloat \<Rightarrow> (scheduler_error + ScheduleResult) \<times> scheduler" where
  "attempt_start s cue now =
     (if cue_expired now cue then
        (Inr (result REJECTED_EXPIRED cue []
           (Some (Detail_text (lit ''cue TTL elapsed before its audio-bound start'')))), s)
      else if pc_generation cue \<noteq> sc_generation s then
        (let st = (if pc_generation cue < sc_generation s then REJECTED_STALE_GENERATION
                   else REJECTED_FUTURE_GENERATION)
         in (Inr (result st cue [] (Some (Detail_text (status_detail st)))), s))
      else if \<not> sc_connected s then
        (Inr (result REJECTED_DISCONNECTED cue []
           (Some (Detail_text (lit ''avatar adapter is disconnected'')))), s)
      else if blockers s cue \<noteq> [] then
        (Inr (result REJECTED_PRIORITY cue [] (Some (Detail_blocked_by (blocker_id (blockers s cue))))), s)
      else
        (case check_limits s cue now of
           (Some (st, d), s1) \<Rightarrow> (Inr (result st cue [] (Some d)), s1)
         | (None, s1) \<Rightarrow> take_over s1 cue now))"

section \<open>Operations\<close>

text \<open>\<open>events.extend(self._restore_neutrals(now))\<close> before a return.\<close>

definition finish_with ::
  "scheduler \<Rightarrow> pyfloat \<Rightarrow> PresentationEvent list \<Rightarrow> (PresentationEvent list \<Rightarrow> 'a) \<Rightarrow>
   (scheduler_error + 'a) \<times> scheduler" where
  "finish_with s now evs f =
     (case restore_neutrals s now of
        (Inl e, s1) \<Rightarrow> (Inl e, s1)
      | (Inr neutral, s1) \<Rightarrow> (Inr (f (evs @ neutral)), s1))"

definition start_and_finish ::
  "scheduler \<Rightarrow> PresentationCue \<Rightarrow> pyfloat \<Rightarrow> PresentationEvent list \<Rightarrow>
   (scheduler_error + ScheduleResult) \<times> scheduler" where
  "start_and_finish s cue now evs =
     (case attempt_start s cue now of
        (Inl e, s1) \<Rightarrow> (Inl e, s1)
      | (Inr r, s1) \<Rightarrow>
          finish_with s1 now (evs @ sr_events r) (\<lambda>es. result (sr_status r) cue es (sr_detail r)))"

definition submit_cue ::
  "scheduler \<Rightarrow> PresentationCue \<Rightarrow> pyfloat \<Rightarrow> (scheduler_error + ScheduleResult) \<times> scheduler" where
  "submit_cue s0 cue now =
     (if \<not> isfinite now then (Inl Clock_not_finite, s0)
      else
        (let (evs, s) = expire s0 now
         in (case validate_submission s cue now of
               Some st \<Rightarrow> finish_with s now evs (\<lambda>es. result st cue es (Some (Detail_text (status_detail st))))
             | None \<Rightarrow>
                 (case (pc_audio_binding cue, audio_key cue) of
                    (Some b, Some key) \<Rightarrow>
                      (let due_at = (case map_of (sc_audio_markers s) key of
                                       None \<Rightarrow> None
                                     | Some m \<Rightarrow> Some (fadd (am_occurred_at m) (ab_offset_s b)))
                       in if sp_max_pending (sc_policy s) \<le> int (length (sc_pending s)) then
                            finish_with s now evs (\<lambda>es. result REJECTED_QUEUE_FULL cue es
                              (Some (Detail_text (lit ''audio-bound cue queue is full''))))
                          else
                            (let (n, s1) = next_sequence s;
                                 s2 = s1\<lparr>sc_pending := AList.update (pc_cue_id cue)
                                        \<lparr>pn_cue = cue, pn_sequence = n, pn_due_at = due_at\<rparr> (sc_pending s1)\<rparr>
                             in (case due_at of
                                   None \<Rightarrow> finish_with s2 now evs (\<lambda>es. result Sched_PENDING_AUDIO cue es
                                     (Some (Detail_text (lit ''waiting for audio marker''))))
                                 | Some t \<Rightarrow>
                                     if flt now t then
                                       finish_with s2 now evs (\<lambda>es. result Sched_PENDING_AUDIO cue es
                                         (Some (Detail_bound_for t)))
                                     else
                                       start_and_finish
                                         (s2\<lparr>sc_pending := AList.delete (pc_cue_id cue) (sc_pending s2)\<rparr>)
                                         cue now evs)))
                  | _ \<Rightarrow> start_and_finish s cue now evs))))"

fun start_all ::
  "scheduler \<Rightarrow> pyfloat \<Rightarrow> PendingCue list \<Rightarrow> (scheduler_error + ScheduleResult list) \<times> scheduler" where
  "start_all s now [] = (Inr [], s)"
| "start_all s now (p # ps) =
     (if map_of (sc_pending s) (pc_cue_id (pn_cue p)) = None then start_all s now ps
      else
        (case attempt_start (s\<lparr>sc_pending := AList.delete (pc_cue_id (pn_cue p)) (sc_pending s)\<rparr>) (pn_cue p) now of
           (Inl e, s1) \<Rightarrow> (Inl e, s1)
         | (Inr r, s1) \<Rightarrow>
             (case start_all s1 now ps of
                (Inl e, s2) \<Rightarrow> (Inl e, s2)
              | (Inr rs, s2) \<Rightarrow> (Inr (r # rs), s2))))"

definition is_due :: "pyfloat \<Rightarrow> PendingCue \<Rightarrow> bool" where
  "is_due now p \<longleftrightarrow> (case pn_due_at p of None \<Rightarrow> False | Some t \<Rightarrow> fle t now)"

definition start_due ::
  "scheduler \<Rightarrow> pyfloat \<Rightarrow> (scheduler_error + ScheduleResult list) \<times> scheduler" where
  "start_due s now =
     start_all s now
       (sort_key (\<lambda>p. (case pn_due_at p of None \<Rightarrow> PosInf | Some t \<Rightarrow> t,
                       - cue_priority (pc_priority (pn_cue p)), pn_sequence p))
          (filter (is_due now) (map snd (sc_pending s))))"

definition start_due_and_finish ::
  "scheduler \<Rightarrow> pyfloat \<Rightarrow> PresentationEvent list \<Rightarrow> (scheduler_error + SchedulerBatch) \<times> scheduler" where
  "start_due_and_finish s now evs =
     (case start_due s now of
        (Inl e, s1) \<Rightarrow> (Inl e, s1)
      | (Inr rs, s1) \<Rightarrow>
          finish_with s1 now (evs @ concat (map sr_events rs)) (\<lambda>es. \<lparr>sb_results = rs, sb_events = es\<rparr>))"

definition keep_newest :: "int \<Rightarrow> 'a list \<Rightarrow> 'a list" where
  "keep_newest n xs = drop (nat (int (length xs) - max 0 n)) xs"

definition bind_pending :: "AudioTimelineMarker \<Rightarrow> PendingCue \<Rightarrow> PendingCue" where
  "bind_pending m p =
     (case pc_audio_binding (pn_cue p) of
        None \<Rightarrow> p
      | Some b \<Rightarrow>
          if audio_key (pn_cue p) = Some (marker_key m)
          then p\<lparr>pn_due_at := Some (fadd (am_occurred_at m) (ab_offset_s b))\<rparr> else p)"

definition notify_audio ::
  "scheduler \<Rightarrow> AudioTimelineMarker \<Rightarrow> pyfloat \<Rightarrow> (scheduler_error + SchedulerBatch) \<times> scheduler" where
  "notify_audio s0 marker now =
     (if \<not> sc_connected s0 \<or> am_generation marker \<noteq> sc_generation s0
      then (Inr \<lparr>sb_results = [], sb_events = []\<rparr>, s0)
      else if \<not> isfinite now then (Inl Clock_not_finite, s0)
      else
        (let (evs, s) = expire s0 now;
             s1 = s\<lparr>sc_audio_markers := keep_newest (sp_max_audio_markers (sc_policy s))
                     (AList.delete (marker_key marker) (sc_audio_markers s) @ [(marker_key marker, marker)])\<rparr>;
             s2 = s1\<lparr>sc_pending := map (\<lambda>p. (fst p, bind_pending marker (snd p))) (sc_pending s1)\<rparr>
         in start_due_and_finish s2 now evs))"

definition tick :: "scheduler \<Rightarrow> pyfloat \<Rightarrow> (scheduler_error + SchedulerBatch) \<times> scheduler" where
  "tick s now =
     (if \<not> isfinite now then (Inl Clock_not_finite, s)
      else (let (evs, s1) = expire s now in start_due_and_finish s1 now evs))"

definition advance_generation ::
  "scheduler \<Rightarrow> int \<Rightarrow> pyfloat \<Rightarrow> (scheduler_error + PresentationEvent list) \<times> scheduler" where
  "advance_generation s generation now =
     (if generation < sc_generation s then (Inl Generation_backwards, s)
      else if generation = sc_generation s then (Inr [], s)
      else if \<not> isfinite now then (Inl Clock_not_finite, s)
      else
        (let s1 = s\<lparr>sc_generation := generation, sc_pending := [], sc_audio_markers := []\<rparr>;
             (evs, s2) = stop_leases s1 now Stop_GENERATION_ADVANCED None (\<lambda>_. True) (sorted_active s1)
         in finish_with s2 now evs id))"

definition cancel_cue ::
  "scheduler \<Rightarrow> pystr \<Rightarrow> StopReason \<Rightarrow> pyfloat \<Rightarrow> (scheduler_error + PresentationEvent list) \<times> scheduler" where
  "cancel_cue s0 cue_id reason now =
     (if \<not> isfinite now then (Inl Clock_not_finite, s0)
      else
        (let (evs, s) = expire s0 now
         in if map_of (sc_pending s) cue_id \<noteq> None
            then finish_with (s\<lparr>sc_pending := AList.delete cue_id (sc_pending s)\<rparr>) now evs id
            else
              (case map_of (sc_active s) cue_id of
                 None \<Rightarrow> finish_with s now evs id
               | Some lease \<Rightarrow>
                   (let s1 = snd (remove_active s cue_id);
                        s2 = s1\<lparr>sc_needs_neutral := insert (pc_layer (al_cue lease)) (sc_needs_neutral s1)\<rparr>;
                        (ev, s3) = stop_event s2 (al_cue lease) now reason None
                    in finish_with s3 now (evs @ [ev]) id))))"

definition reset_to_neutral ::
  "scheduler \<Rightarrow> pyfloat \<Rightarrow> (scheduler_error + PresentationEvent list) \<times> scheduler" where
  "reset_to_neutral s now =
     (if \<not> isfinite now then (Inl Clock_not_finite, s)
      else
        (let s1 = s\<lparr>sc_pending := []\<rparr>;
             (evs, s2) = stop_leases s1 now Stop_CANCELLED None (\<lambda>_. False) (sorted_active s1)
         in finish_with (s2\<lparr>sc_needs_neutral := UNIV\<rparr>) now evs id))"

definition disconnect ::
  "scheduler \<Rightarrow> StopReason \<Rightarrow> pyfloat \<Rightarrow> (scheduler_error + PresentationEvent list) \<times> scheduler" where
  "disconnect s reason now =
     (if reason \<notin> {Stop_DISCONNECTED, Stop_ADAPTER_FAILURE} then (Inl Bad_disconnect_reason, s)
      else if \<not> sc_connected s then (Inr [], s)
      else if \<not> isfinite now then (Inl Clock_not_finite, s)
      else
        (let s1 = s\<lparr>sc_connected := False, sc_pending := [], sc_audio_markers := [], sc_needs_neutral := {}\<rparr>;
             (evs, s2) = stop_leases s1 now reason None (\<lambda>_. False) (sorted_active s1)
         in (Inr evs, s2)))"

definition adapter_failed ::
  "scheduler \<Rightarrow> pyfloat \<Rightarrow> (scheduler_error + PresentationEvent list) \<times> scheduler" where
  "adapter_failed s now = disconnect s Stop_ADAPTER_FAILURE now"

definition reconnect ::
  "scheduler \<Rightarrow> pyfloat \<Rightarrow> (scheduler_error + PresentationEvent list) \<times> scheduler" where
  "reconnect s now =
     (if sc_connected s then (Inr [], s)
      else if \<not> isfinite now then (Inl Clock_not_finite, s)
      else restore_neutrals (s\<lparr>sc_connected := True, sc_needs_neutral := UNIV\<rparr>) now)"

end
