(* ===== verification/Capabilities.thy ===== *)
theory Capabilities
  imports AvatarTypes
begin

text \<open>
  \<^verbatim>\<open>avatar/capabilities.py\<close>: what an avatar can render. A profile maps semantic keys to
  bindings, with configured fallbacks between keys of a layer and a neutral binding per
  layer. The mappings are association lists with distinct keys.
\<close>

section \<open>Bindings\<close>

definition ends_with_dot :: "pystr \<Rightarrow> bool" where
  "ends_with_dot s \<longleftrightarrow> s \<noteq> [] \<and> last s = 46"

definition validate_semantic_key :: "pystr \<Rightarrow> PresentationLayer \<Rightarrow> avatar_error option" where
  "validate_semantic_key key l =
     (if \<not> is_identifier key then Some Bad_semantic_key
      else if \<not> in_namespace l key \<or> ends_with_dot key then Some Bad_semantic_key
      else None)"

record CapabilityBinding =
  cb_semantic_key :: pystr
  cb_layer :: PresentationLayer
  cb_adapter_action :: "pystr option"
  cb_resources :: "pystr fset"
  cb_default_lease_s :: "pyfloat option"
  cb_cooldown_s :: pyfloat
  cb_cooldown_key :: "pystr option"
  cb_max_intensity :: pyfloat
  cb_blend :: BlendSpec

definition check_capability :: "CapabilityBinding \<Rightarrow> avatar_error option" where
  "check_capability b = first_error
     [validate_semantic_key (cb_semantic_key b) (cb_layer b),
      optionally (\<lambda>a. if is_identifier a then None else Some Bad_action) (cb_adapter_action b),
      (if fBall (cb_resources b) is_identifier then None else Some Bad_resource),
      optionally (\<lambda>l. require_positive l ''default_lease_s'') (cb_default_lease_s b),
      require_non_negative (cb_cooldown_s b) ''cooldown_s'',
      optionally (\<lambda>k. if is_identifier k then None else Some Bad_key) (cb_cooldown_key b),
      require_unit_interval (cb_max_intensity b) ''max_intensity'']"

definition neutral_noop :: "PresentationLayer \<Rightarrow> CapabilityBinding" where
  "neutral_noop l =
     \<lparr>cb_semantic_key = layer_value l @ lit ''.neutral'', cb_layer = l, cb_adapter_action = None,
      cb_resources = {||}, cb_default_lease_s = None, cb_cooldown_s = Fin 0, cb_cooldown_key = None,
      cb_max_intensity = Fin 0, cb_blend = default_blend\<rparr>"

section \<open>Profiles\<close>

datatype profile_error =
  Profile_identifier string | Bad_api_version | Key_mismatch pystr | Neutral_layer PresentationLayer
| Invalid_key pystr | Unknown_namespace pystr | Cross_layer_fallback | Fallback_cycle pystr

record AvatarCapabilityProfile =
  ap_avatar_id :: pystr
  ap_renderer :: pystr
  ap_capabilities :: "(pystr \<times> CapabilityBinding) list"
  ap_neutral :: "(PresentationLayer \<times> CapabilityBinding) list"
  ap_fallbacks :: "(pystr \<times> pystr) list"
  ap_api_version :: int

text \<open>\<open>PresentationLayer(namespace)\<close>: the member with this value.\<close>

definition layer_of_value :: "pystr \<Rightarrow> PresentationLayer option" where
  "layer_of_value v = find (\<lambda>l. layer_value l = v) all_layers"

definition layer_from_key :: "pystr \<Rightarrow> profile_error + PresentationLayer" where
  "layer_from_key key =
     (if \<not> is_identifier key \<or> 46 \<notin> set key then Inl (Invalid_key key)
      else
        (let namespace = takeWhile (\<lambda>c. c \<noteq> 46) key
         in (case layer_of_value namespace of
               Some l \<Rightarrow> Inr l
             | None \<Rightarrow> Inl (Unknown_namespace namespace))))"

text \<open>The walk of \<open>_validate_no_fallback_cycles\<close> from one origin: the key that closes a cycle.\<close>

function find_cycle :: "(pystr \<times> pystr) list \<Rightarrow> pystr list \<Rightarrow> pystr \<Rightarrow> pystr option" where
  "find_cycle fb seen current =
     (case map_of fb current of
        None \<Rightarrow> None
      | Some next \<Rightarrow>
          if current \<in> set seen then Some current else find_cycle fb (current # seen) next)"
  by pat_completeness auto

definition unvisited :: "(pystr \<times> pystr) list \<Rightarrow> pystr list \<Rightarrow> nat" where
  "unvisited fb seen = length (filter (\<lambda>f. fst f \<notin> set seen) fb)"

lemma unvisited_decreases:
  assumes "map_of fb k = Some t" "k \<notin> set seen"
  shows "unvisited fb (k # seen) < unvisited fb seen"
proof -
  have "filter (\<lambda>f. fst f \<notin> set (k # seen)) fb = filter (\<lambda>f. fst f \<noteq> k) (filter (\<lambda>f. fst f \<notin> set seen) fb)"
    unfolding filter_filter by (rule filter_cong) auto
  moreover have "(k, t) \<in> set (filter (\<lambda>f. fst f \<notin> set seen) fb)" using assms by (auto dest: map_of_SomeD)
  ultimately show ?thesis
    unfolding unvisited_def by (metis (mono_tags) fst_conv length_filter_less)
qed

termination find_cycle
  by (relation "measure (\<lambda>(fb, seen, _). unvisited fb seen)") (auto intro: unvisited_decreases)

declare find_cycle.simps [simp del]

definition check_fallback :: "pystr \<times> pystr \<Rightarrow> profile_error option" where
  "check_fallback f =
     (case layer_from_key (fst f) of
        Inl e \<Rightarrow> Some e
      | Inr s \<Rightarrow>
          (case layer_from_key (snd f) of
             Inl e \<Rightarrow> Some e
           | Inr t \<Rightarrow> if s \<noteq> t then Some Cross_layer_fallback else None))"

definition validate_no_fallback_cycles :: "(pystr \<times> pystr) list \<Rightarrow> profile_error option" where
  "validate_no_fallback_cycles fb = first_error (map (\<lambda>f. map_option Fallback_cycle (find_cycle fb [] (fst f))) fb)"

text \<open>
  \<open>__post_init__\<close>: the checks in order, on the sorted copies that are then stored.
\<close>

definition sorted_profile :: "AvatarCapabilityProfile \<Rightarrow> AvatarCapabilityProfile" where
  "sorted_profile p = p\<lparr>ap_capabilities := sort_key fst (ap_capabilities p),
     ap_neutral := sort_key (\<lambda>i. layer_value (fst i)) (ap_neutral p),
     ap_fallbacks := sort_key fst (ap_fallbacks p)\<rparr>"

definition check_profile :: "AvatarCapabilityProfile \<Rightarrow> profile_error option" where
  "check_profile p =
     (if \<not> is_identifier (ap_avatar_id p) then Some (Profile_identifier ''avatar_id'')
      else if \<not> is_identifier (ap_renderer p) then Some (Profile_identifier ''renderer'')
      else if ap_api_version p < 1 then Some Bad_api_version
      else first_error
        [first_error (map (\<lambda>(k, b). if k \<noteq> cb_semantic_key b then Some (Key_mismatch k) else None)
           (ap_capabilities p)),
         first_error (map (\<lambda>(l, b). if cb_layer b \<noteq> l then Some (Neutral_layer l) else None) (ap_neutral p)),
         first_error (map check_fallback (ap_fallbacks p)),
         validate_no_fallback_cycles (ap_fallbacks p)])"

definition make_profile :: "AvatarCapabilityProfile \<Rightarrow> profile_error + AvatarCapabilityProfile" where
  "make_profile p =
     (case check_profile (sorted_profile p) of Some e \<Rightarrow> Inl e | None \<Rightarrow> Inr (sorted_profile p))"

definition semantic_keys :: "AvatarCapabilityProfile \<Rightarrow> pystr list" where
  "semantic_keys p = map fst (ap_capabilities p)"

definition neutral_binding :: "AvatarCapabilityProfile \<Rightarrow> PresentationLayer \<Rightarrow> CapabilityBinding" where
  "neutral_binding p l = (case map_of (ap_neutral p) l of Some b \<Rightarrow> b | None \<Rightarrow> neutral_noop l)"

section \<open>Resolution\<close>

record CapabilityResolution =
  rs_requested_key :: pystr
  rs_resolved_key :: pystr
  rs_binding :: CapabilityBinding
  rs_used_fallback :: bool
  rs_reason :: pystr

text \<open>The loop of \<open>resolve\<close>: the first key of the chain that has a capability.\<close>

function follow_fallbacks ::
  "AvatarCapabilityProfile \<Rightarrow> pystr list \<Rightarrow> pystr \<Rightarrow> (pystr \<times> CapabilityBinding) option" where
  "follow_fallbacks p visited current =
     (if current \<in> set visited then None
      else
        (case map_of (ap_capabilities p) current of
           Some b \<Rightarrow> Some (current, b)
         | None \<Rightarrow>
             (case map_of (ap_fallbacks p) current of
                None \<Rightarrow> None
              | Some target \<Rightarrow> follow_fallbacks p (current # visited) target)))"
  by pat_completeness auto

termination follow_fallbacks
  by (relation "measure (\<lambda>(p, visited, _). unvisited (ap_fallbacks p) visited)")
    (auto intro: unvisited_decreases)

declare follow_fallbacks.simps [simp del]

definition resolve ::
  "AvatarCapabilityProfile \<Rightarrow> SemanticIntent \<Rightarrow> avatar_error + CapabilityResolution" where
  "resolve p i =
     (let requested = si_semantic_key i
      in (case validate_semantic_key requested (si_layer i) of
            Some e \<Rightarrow> Inl e
          | None \<Rightarrow>
              (case follow_fallbacks p [] requested of
                 Some (key, b) \<Rightarrow>
                   Inr \<lparr>rs_requested_key = requested, rs_resolved_key = key, rs_binding = b,
                        rs_used_fallback = (key \<noteq> requested),
                        rs_reason = (if key = requested then lit ''exact'' else lit ''configured_fallback'')\<rparr>
               | None \<Rightarrow>
                   (let b = neutral_binding p (si_layer i)
                    in Inr \<lparr>rs_requested_key = requested, rs_resolved_key = cb_semantic_key b,
                            rs_binding = b, rs_used_fallback = (cb_semantic_key b \<noteq> requested),
                            rs_reason = (if cb_adapter_action b \<noteq> None then lit ''neutral_fallback''
                                         else lit ''neutral_noop'')\<rparr>))))"

section \<open>The fallback graph\<close>

definition fallback_rel :: "(pystr \<times> pystr) list \<Rightarrow> (pystr \<times> pystr) set" where
  "fallback_rel fb = {(a, b). map_of fb a = Some b}"

lemma fallback_rel_iff [simp]: "(a, b) \<in> fallback_rel fb \<longleftrightarrow> map_of fb a = Some b"
  by (simp add: fallback_rel_def)

text \<open>The key reached after \<open>n\<close> fallbacks.\<close>

fun chain :: "(pystr \<times> pystr) list \<Rightarrow> nat \<Rightarrow> pystr \<Rightarrow> pystr option" where
  "chain fb 0 k = Some k"
| "chain fb (Suc n) k = (case map_of fb k of None \<Rightarrow> None | Some t \<Rightarrow> chain fb n t)"

lemma find_cycle_sound:
  assumes "\<forall>v \<in> set seen. (v, cur) \<in> (fallback_rel fb)\<^sup>+" "find_cycle fb seen cur = Some k"
  shows "(k, k) \<in> (fallback_rel fb)\<^sup>+"
  using assms
proof (induction fb seen cur rule: find_cycle.induct)
  case (1 fb seen cur)
  from 1(3) obtain t where t: "map_of fb cur = Some t" by (subst (asm) find_cycle.simps) (auto split: option.splits)
  show ?case
  proof (cases "cur \<in> set seen")
    case True
    then show ?thesis using 1(2,3) t by (simp add: find_cycle.simps [of fb seen cur])
  next
    case False
    have "\<forall>v \<in> set (cur # seen). (v, t) \<in> (fallback_rel fb)\<^sup>+" using 1(2) t by (auto intro: trancl_into_trancl)
    from 1(1) [OF t False this] show ?thesis using 1(3) t False by (simp add: find_cycle.simps [of fb seen cur])
  qed
qed

text \<open>A walk that finds nothing has left the domain, which a key on a cycle never does.\<close>

lemma find_cycle_complete:
  assumes "(k, k) \<in> (fallback_rel fb)\<^sup>+" "(k, cur) \<in> (fallback_rel fb)\<^sup>*"
  shows "find_cycle fb seen cur \<noteq> None"
  using assms
proof (induction fb seen cur rule: find_cycle.induct)
  case (1 fb seen cur)
  have "\<exists>t. map_of fb cur = Some t"
  proof -
    from 1(3) have "(cur, k) \<in> (fallback_rel fb)\<^sup>*" if "cur \<noteq> k"
    proof -
      have inv: "(x, k) \<in> (fallback_rel fb)\<^sup>*" if "(k, x) \<in> (fallback_rel fb)\<^sup>*" for x
        using that
      proof (induction rule: rtrancl_induct)
        case (step y z)
        have "(y, k) \<in> (fallback_rel fb)\<^sup>+"
        proof (cases "y = k")
          case True then show ?thesis using 1(2) by simp
        next
          case False then show ?thesis using step.IH by (auto simp: rtrancl_eq_or_trancl)
        qed
        then obtain w where "map_of fb y = Some w" "(w, k) \<in> (fallback_rel fb)\<^sup>*" by (auto dest: tranclD)
        then show ?case using step.hyps(2) by simp
      qed simp
      show ?thesis by (rule inv) (rule 1(3))
    qed
    then show ?thesis using 1(2) by (cases "cur = k") (auto dest!: tranclD elim: converse_rtranclE)
  qed
  then obtain t where t: "map_of fb cur = Some t" ..
  have "(k, t) \<in> (fallback_rel fb)\<^sup>*" using 1(3) t by (auto intro: rtrancl_into_rtrancl)
  then show ?case using 1(1) [OF t _ 1(2)] t by (subst find_cycle.simps) simp
qed

lemma no_cycles_iff: "validate_no_fallback_cycles fb = None \<longleftrightarrow> acyclic (fallback_rel fb)"
proof
  assume ok: "validate_no_fallback_cycles fb = None"
  show "acyclic (fallback_rel fb)"
    unfolding acyclic_def
  proof
    fix k
    show "(k, k) \<notin> (fallback_rel fb)\<^sup>+"
    proof
      assume c: "(k, k) \<in> (fallback_rel fb)\<^sup>+"
      then obtain t where "map_of fb k = Some t" by (auto dest: tranclD)
      then have "(k, t) \<in> set fb" by (rule map_of_SomeD)
      then have "find_cycle fb [] k = None"
        using ok by (force simp: validate_no_fallback_cycles_def list_all_iff)
      then show False using find_cycle_complete [OF c] by blast
    qed
  qed
next
  assume "acyclic (fallback_rel fb)"
  then show "validate_no_fallback_cycles fb = None"
    using find_cycle_sound [of "[]" _ fb]
    by (fastforce simp: validate_no_fallback_cycles_def list_all_iff acyclic_def)
qed

section \<open>What resolution returns\<close>

lemma follow_fallbacks_step:
  assumes "acyclic (fallback_rel (ap_fallbacks p))" "\<forall>v \<in> set visited. (v, cur) \<in> (fallback_rel (ap_fallbacks p))\<^sup>+"
  shows "follow_fallbacks p visited cur =
    (case map_of (ap_capabilities p) cur of
       Some b \<Rightarrow> Some (cur, b)
     | None \<Rightarrow>
         (case map_of (ap_fallbacks p) cur of
            None \<Rightarrow> None
          | Some t \<Rightarrow> follow_fallbacks p (cur # visited) t))"
  using assms by (subst follow_fallbacks.simps) (auto simp: acyclic_def)

text \<open>The first key of the chain that the profile can render.\<close>

definition first_capability :: "AvatarCapabilityProfile \<Rightarrow> pystr \<Rightarrow> nat \<Rightarrow> pystr \<Rightarrow> bool" where
  "first_capability p key n k \<longleftrightarrow> chain (ap_fallbacks p) n key = Some k \<and> k \<in> dom (map_of (ap_capabilities p)) \<and>
     (\<forall>m < n. \<forall>k'. chain (ap_fallbacks p) m key = Some k' \<longrightarrow> k' \<notin> dom (map_of (ap_capabilities p)))"

lemma follow_fallbacks_found:
  assumes "acyclic (fallback_rel (ap_fallbacks p))" "\<forall>v \<in> set visited. (v, cur) \<in> (fallback_rel (ap_fallbacks p))\<^sup>+"
    "first_capability p cur n k"
  shows "\<exists>b. follow_fallbacks p visited cur = Some (k, b) \<and> map_of (ap_capabilities p) k = Some b"
  using assms(2,3)
proof (induction n arbitrary: cur visited)
  case 0
  then show ?case by (auto simp: follow_fallbacks_step [OF assms(1)] first_capability_def)
next
  case (Suc n)
  have "map_of (ap_capabilities p) cur = None"
    using Suc.prems(2) by (auto simp: first_capability_def dom_def dest: spec [of _ "0::nat"])
  moreover from Suc.prems(2) obtain t where t: "map_of (ap_fallbacks p) cur = Some t"
    by (auto simp: first_capability_def split: option.splits)
  moreover have "first_capability p t n k"
    unfolding first_capability_def
  proof (intro conjI allI impI)
    fix m k' assume "m < n" "chain (ap_fallbacks p) m t = Some k'"
    then show "k' \<notin> dom (map_of (ap_capabilities p))"
      using Suc.prems(2) t unfolding first_capability_def by (metis Suc_less_eq chain.simps(2) option.simps(5))
  qed (use Suc.prems(2) t in \<open>auto simp: first_capability_def\<close>)
  moreover have "\<forall>v \<in> set (cur # visited). (v, t) \<in> (fallback_rel (ap_fallbacks p))\<^sup>+"
    using Suc.prems(1) t by (auto intro: trancl_into_trancl)
  ultimately show ?case using Suc.IH by (simp add: follow_fallbacks_step [OF assms(1) Suc.prems(1)])
qed

lemma follow_fallbacks_result:
  assumes "follow_fallbacks p visited cur = Some (k, b)"
  shows "(\<exists>n. chain (ap_fallbacks p) n cur = Some k) \<and> map_of (ap_capabilities p) k = Some b"
  using assms
proof (induction p visited cur rule: follow_fallbacks.induct)
  case (1 p visited cur)
  from 1(2) have nv: "cur \<notin> set visited" by (subst (asm) follow_fallbacks.simps) (simp split: if_splits)
  show ?case
  proof (cases "map_of (ap_capabilities p) cur")
    case (Some b')
    then show ?thesis using 1(2) nv by (subst (asm) follow_fallbacks.simps) (auto intro: exI [of _ 0])
  next
    case None
    then obtain t where t: "map_of (ap_fallbacks p) cur = Some t" "follow_fallbacks p (cur # visited) t = Some (k, b)"
      using 1(2) nv by (subst (asm) follow_fallbacks.simps) (auto split: option.splits)
    from 1(1) [OF nv None t] obtain n where "chain (ap_fallbacks p) n t = Some k" "map_of (ap_capabilities p) k = Some b"
      by blast
    then show ?thesis using t(1) by (auto intro: exI [of _ "Suc n"])
  qed
qed

lemma layer_of_value_value [simp]: "layer_of_value (layer_value l) = Some l"
  by (cases l) (simp_all add: layer_of_value_def all_layers_def)

lemma in_namespace_iff: "in_namespace l key \<longleftrightarrow> (\<exists>r. key = layer_value l @ 46 # r)"
proof
  assume "in_namespace l key"
  then have "take (length (layer_value l) + 1) key = layer_value l @ [46]" by (simp add: in_namespace_def)
  then have "key = (layer_value l @ [46]) @ drop (length (layer_value l) + 1) key"
    by (metis append_take_drop_id)
  then show "\<exists>r. key = layer_value l @ 46 # r" by auto
qed (auto simp: in_namespace_def)

lemma layer_from_key_namespace:
  assumes "is_identifier key" "in_namespace l key"
  shows "layer_from_key key = Inr l"
proof -
  obtain r where r: "key = layer_value l @ 46 # r" using assms(2) by (auto simp: in_namespace_iff)
  have "46 \<notin> set (layer_value l)" by (cases l) simp_all
  then have "takeWhile (\<lambda>c. c \<noteq> 46) key = layer_value l" unfolding r by (subst takeWhile_append2) auto
  then show ?thesis using assms(1) r by (simp add: layer_from_key_def)
qed

lemma validate_layer: "validate_semantic_key key l = None \<Longrightarrow> layer_from_key key = Inr l"
  by (rule layer_from_key_namespace) (auto simp: validate_semantic_key_def split: if_splits)

lemma chain_layer:
  assumes "\<forall>f \<in> set fb. check_fallback f = None" "chain fb n key = Some k" "layer_from_key key = Inr l"
  shows "layer_from_key k = Inr l"
  using assms(2,3)
proof (induction n arbitrary: key)
  case (Suc n)
  then obtain t where t: "map_of fb key = Some t" "chain fb n t = Some k" by (auto split: option.splits)
  have "check_fallback (key, t) = None" using assms(1) map_of_SomeD [OF t(1)] by blast
  then have "layer_from_key t = Inr l"
    using Suc.prems(2) by (auto simp: check_fallback_def split: sum.splits if_splits)
  from Suc.IH [OF t(2) this] show ?case .
qed simp

definition profile_ok :: "AvatarCapabilityProfile \<Rightarrow> bool" where
  "profile_ok p \<longleftrightarrow> check_profile p = None \<and>
     (\<forall>(k, b) \<in> set (ap_capabilities p). check_capability b = None) \<and>
     (\<forall>(l, b) \<in> set (ap_neutral p). check_capability b = None)"

lemma make_profile_ok:
  assumes "make_profile raw = Inr p" "\<forall>(k, b) \<in> set (ap_capabilities raw). check_capability b = None"
    "\<forall>(l, b) \<in> set (ap_neutral raw). check_capability b = None"
  shows "profile_ok p"
  using assms by (auto simp: make_profile_def profile_ok_def sorted_profile_def split: option.splits)

lemma profile_okD:
  assumes "profile_ok p"
  shows "\<And>k b. map_of (ap_capabilities p) k = Some b \<Longrightarrow> check_capability b = None \<and> cb_semantic_key b = k"
    and "\<And>l b. map_of (ap_neutral p) l = Some b \<Longrightarrow> check_capability b = None \<and> cb_layer b = l"
    and "\<forall>f \<in> set (ap_fallbacks p). check_fallback f = None"
    and "acyclic (fallback_rel (ap_fallbacks p))"
  using assms
  by (auto simp: profile_ok_def check_profile_def list_all_iff no_cycles_iff [symmetric]
      dest!: map_of_SomeD split: if_splits)

lemma neutral_noop_ok: "check_capability (neutral_noop l) = None"
  by (cases l) (simp_all add: check_capability_def neutral_noop_def validate_semantic_key_def is_identifier_def
      strip_def lstrip_def rstrip_def isspace_def in_namespace_def ends_with_dot_def)

lemma neutral_binding_ok:
  assumes "profile_ok p"
  shows "check_capability (neutral_binding p l) = None" "cb_layer (neutral_binding p l) = l"
  using profile_okD(2) [OF assms, of l] neutral_noop_ok [of l]
  by (auto simp: neutral_binding_def neutral_noop_def split: option.splits)

text \<open>The bindings a profile can resolve to.\<close>

definition bindings :: "AvatarCapabilityProfile \<Rightarrow> CapabilityBinding set" where
  "bindings p = snd ` set (ap_capabilities p) \<union> range (neutral_binding p)"

lemma resolve_ok:
  assumes "profile_ok p" "validate_semantic_key (si_semantic_key i) (si_layer i) = None"
  shows "\<exists>r. resolve p i = Inr r \<and> cb_layer (rs_binding r) = si_layer i \<and> check_capability (rs_binding r) = None \<and>
    rs_resolved_key r = cb_semantic_key (rs_binding r) \<and> rs_requested_key r = si_semantic_key i \<and>
    rs_binding r \<in> bindings p"
proof (cases "follow_fallbacks p [] (si_semantic_key i)")
  case None
  then show ?thesis using neutral_binding_ok [OF assms(1)] assms(2) by (simp add: resolve_def Let_def bindings_def)
next
  case (Some kb)
  obtain k b where kb: "kb = (k, b)" by (cases kb)
  from follow_fallbacks_result [OF Some [unfolded kb]] obtain n where
    n: "chain (ap_fallbacks p) n (si_semantic_key i) = Some k" "map_of (ap_capabilities p) k = Some b" by blast
  have b: "check_capability b = None" "cb_semantic_key b = k" using profile_okD(1) [OF assms(1) n(2)] by auto
  have "layer_from_key k = Inr (si_layer i)"
    by (rule chain_layer [OF profile_okD(3) [OF assms(1)] n(1) validate_layer [OF assms(2)]])
  moreover have "layer_from_key k = Inr (cb_layer b)"
    by (rule validate_layer) (use b in \<open>auto simp: check_capability_def\<close>)
  moreover have "b \<in> bindings p" using map_of_SomeD [OF n(2)] by (force simp: bindings_def)
  ultimately show ?thesis using Some kb b assms(2) by (simp add: resolve_def Let_def del: lit_simps)
qed

text \<open>Every intent of the four classes has a key of its layer.\<close>

lemmas identifier_eval = is_identifier_def strip_def lstrip_def rstrip_def isspace_def

lemma semantic_of_key: "validate_semantic_key (si_semantic_key (semantic_of ci)) (si_layer (semantic_of ci)) = None"
proof -
  have "validate_semantic_key (semantic_key Layer_AFFECT (affect_value a)) Layer_AFFECT = None" for a
    by (cases a) (simp_all add: semantic_key_def validate_semantic_key_def identifier_eval in_namespace_def ends_with_dot_def)
  moreover have "validate_semantic_key (semantic_key Layer_GESTURE (gesture_value g)) Layer_GESTURE = None" for g
    by (cases g) (simp_all add: semantic_key_def validate_semantic_key_def identifier_eval in_namespace_def ends_with_dot_def)
  moreover have "validate_semantic_key (semantic_key Layer_GAZE (gaze_value t)) Layer_GAZE = None" for t
    by (cases t) (simp_all add: semantic_key_def validate_semantic_key_def identifier_eval in_namespace_def ends_with_dot_def)
  moreover have "validate_semantic_key (semantic_key Layer_POSTURE (posture_value q)) Layer_POSTURE = None" for q
    by (cases q) (simp_all add: semantic_key_def validate_semantic_key_def identifier_eval in_namespace_def ends_with_dot_def)
  ultimately show ?thesis by (cases ci) simp_all
qed

text \<open>
  C30: a profile is accepted only if its fallbacks form no cycle, and then resolution of a
  well-formed intent always returns: the binding of the first key along the fallback chain
  that the avatar can render, or the layer's neutral binding if there is none. The binding
  belongs to the layer of the intent in every case.
\<close>

theorem capability_resolution:
  assumes "make_profile raw = Inr p"
    and "\<forall>(k, b) \<in> set (ap_capabilities raw). check_capability b = None"
    and "\<forall>(l, b) \<in> set (ap_neutral raw). check_capability b = None"
    and "validate_semantic_key (si_semantic_key i) (si_layer i) = None"
  shows "acyclic (fallback_rel (ap_fallbacks p)) \<and>
    (\<exists>r. resolve p i = Inr r \<and> cb_layer (rs_binding r) = si_layer i \<and>
       (\<forall>n k. first_capability p (si_semantic_key i) n k \<longrightarrow>
          rs_resolved_key r = k \<and> map_of (ap_capabilities p) k = Some (rs_binding r)) \<and>
       ((\<nexists>n k. first_capability p (si_semantic_key i) n k) \<longrightarrow> rs_binding r = neutral_binding p (si_layer i)))"
proof -
  have ok: "profile_ok p" by (rule make_profile_ok) (use assms in auto)
  note ac = profile_okD(4) [OF ok]
  from resolve_ok [OF ok assms(4)] obtain r where r: "resolve p i = Inr r" "cb_layer (rs_binding r) = si_layer i" by blast
  have found: "rs_resolved_key r = k \<and> map_of (ap_capabilities p) k = Some (rs_binding r)"
    if "first_capability p (si_semantic_key i) n k" for n k
    using follow_fallbacks_found [OF ac _ that, of "[]"] r(1) assms(4)
    by (auto simp: resolve_def Let_def simp del: lit_simps)
  have "rs_binding r = neutral_binding p (si_layer i)" if none: "\<nexists>n k. first_capability p (si_semantic_key i) n k"
  proof (cases "follow_fallbacks p [] (si_semantic_key i)")
    case None
    then show ?thesis using r(1) assms(4) by (auto simp: resolve_def Let_def simp del: lit_simps)
  next
    case (Some kb)
    then have "\<exists>n k. chain (ap_fallbacks p) n (si_semantic_key i) = Some k \<and> k \<in> dom (map_of (ap_capabilities p))"
      using follow_fallbacks_result [of p "[]" _ "fst kb" "snd kb"] by fastforce
    then obtain n where n: "\<exists>k. chain (ap_fallbacks p) n (si_semantic_key i) = Some k \<and> k \<in> dom (map_of (ap_capabilities p))"
      "\<And>m. m < n \<Longrightarrow> \<not> (\<exists>k. chain (ap_fallbacks p) m (si_semantic_key i) = Some k \<and> k \<in> dom (map_of (ap_capabilities p)))"
      using exists_least_iff [of "\<lambda>n. \<exists>k. chain (ap_fallbacks p) n (si_semantic_key i) = Some k \<and> k \<in> dom (map_of (ap_capabilities p))"]
      by blast
    then have "\<exists>k. first_capability p (si_semantic_key i) n k" unfolding first_capability_def by blast
    then show ?thesis using none by blast
  qed
  then show ?thesis using ac r found by blast
qed

definition demo_binding :: "string \<Rightarrow> CapabilityBinding" where
  "demo_binding k = (neutral_noop Layer_AFFECT)\<lparr>cb_semantic_key := lit k, cb_adapter_action := Some (lit ''anim''),
     cb_default_lease_s := Some (Fin 2), cb_max_intensity := Fin 1\<rparr>"

definition demo_profile :: AvatarCapabilityProfile where
  "demo_profile = \<lparr>ap_avatar_id = lit ''a'', ap_renderer = lit ''r'',
     ap_capabilities = [(lit ''affect.joy'', demo_binding ''affect.joy'')], ap_neutral = [],
     ap_fallbacks = [(lit ''affect.calm'', lit ''affect.joy'')], ap_api_version = 1\<rparr>"

definition demo_intent :: SemanticIntent where
  "demo_intent = semantic_of (AffectIntent (Fin 0) (Fin 0) (Some Affect_CALM) (Fin 1))"

lemma demo_profile_ok:
  "make_profile demo_profile = Inr demo_profile"
  "\<forall>(k, b) \<in> set (ap_capabilities demo_profile). check_capability b = None"
  "\<forall>(l, b) \<in> set (ap_neutral demo_profile). check_capability b = None"
  "validate_semantic_key (si_semantic_key demo_intent) (si_layer demo_intent) = None"
  by (simp_all add: make_profile_def check_profile_def sorted_profile_def demo_profile_def demo_binding_def
      neutral_noop_def check_capability_def validate_semantic_key_def in_namespace_def ends_with_dot_def
      check_fallback_def layer_from_key_def layer_of_value_def all_layers_def validate_no_fallback_cycles_def
      find_cycle.simps identifier_eval demo_intent_def semantic_key_def effective_label_def)

theorem capability_resolution_witness:
  "\<exists>r. resolve demo_profile demo_intent = Inr r \<and> rs_resolved_key r = lit ''affect.joy''"
proof -
  have "first_capability demo_profile (si_semantic_key demo_intent) 1 (lit ''affect.joy'')"
    by (simp add: first_capability_def demo_profile_def demo_intent_def semantic_key_def effective_label_def)
  then show ?thesis using capability_resolution [OF demo_profile_ok] by blast
qed

end
