(* ===== verification/Director.thy ===== *)
theory Director
  imports Capabilities
begin

text \<open>
  \<^verbatim>\<open>avatar/director.py\<close>: the performance director turns a host-enveloped request into a
  cue of the avatar, under the style of the persona, and builds the neutral cues with which
  the scheduler recovers.
\<close>

section \<open>Style\<close>

record PerformanceStyle =
  ps_intensity_scale :: "(PresentationLayer \<times> pyfloat) list"
  ps_lease_scale :: "(PresentationLayer \<times> pyfloat) list"
  ps_suppressed :: "pystr fset"

definition sorted_style :: "PerformanceStyle \<Rightarrow> PerformanceStyle" where
  "sorted_style s = s\<lparr>ps_intensity_scale := sort_key (\<lambda>i. layer_value (fst i)) (ps_intensity_scale s),
     ps_lease_scale := sort_key (\<lambda>i. layer_value (fst i)) (ps_lease_scale s)\<rparr>"

definition check_style :: "PerformanceStyle \<Rightarrow> avatar_error option" where
  "check_style s = first_error
     [first_error (map (\<lambda>i. require_non_negative (snd i) ''intensity_scale'') (ps_intensity_scale s)),
      first_error (map (\<lambda>i. require_positive (snd i) ''lease_scale'') (ps_lease_scale s)),
      (if fBall (ps_suppressed s) is_identifier then None else Some Bad_semantic_key)]"

definition make_style :: "PerformanceStyle \<Rightarrow> avatar_error + PerformanceStyle" where
  "make_style s = (case check_style (sorted_style s) of Some e \<Rightarrow> Inl e | None \<Rightarrow> Inr (sorted_style s))"

section \<open>Cues\<close>

record PerformanceDirector =
  dr_profile :: AvatarCapabilityProfile
  dr_style :: PerformanceStyle

definition scale_for :: "(PresentationLayer \<times> pyfloat) list \<Rightarrow> PresentationLayer \<Rightarrow> pyfloat" where
  "scale_for m l = (case map_of m l of Some x \<Rightarrow> x | None \<Rightarrow> Fin 1)"

definition cue_lease ::
  "PerformanceDirector \<Rightarrow> CueRequest \<Rightarrow> CapabilityBinding \<Rightarrow> pyfloat option" where
  "cue_lease d r b =
     (case rq_lease_s r of
        Some l \<Rightarrow> Some l
      | None \<Rightarrow>
          (case cb_default_lease_s b of
             None \<Rightarrow> None
           | Some l \<Rightarrow> Some (fmul l (scale_for (ps_lease_scale (dr_style d)) (si_layer (rq_intent r))))))"

definition binding_cooldown_key :: "CapabilityBinding \<Rightarrow> pystr" where
  "binding_cooldown_key b =
     (case cb_cooldown_key b of
        Some k \<Rightarrow> if k = [] then cb_semantic_key b else k
      | None \<Rightarrow> cb_semantic_key b)"

definition construct_cue :: "PresentationCue \<Rightarrow> avatar_error + PresentationCue" where
  "construct_cue c = (case check_cue c of Some e \<Rightarrow> Inl e | None \<Rightarrow> Inr c)"

definition make_cue ::
  "PerformanceDirector \<Rightarrow> CueRequest \<Rightarrow> CapabilityResolution \<Rightarrow> avatar_error + PresentationCue" where
  "make_cue d r res =
     (let b = rs_binding res; l = si_layer (rq_intent r);
          intensity = fmin (fmul (si_intensity (rq_intent r)) (scale_for (ps_intensity_scale (dr_style d)) l))
                        (cb_max_intensity b);
          is_neutral = (b = neutral_binding (dr_profile d) l);
          limits_exempt = (rq_limits_exempt r \<or> rq_source r \<in> {Source_OPERATOR, Source_SPEECH_SYNC})
      in construct_cue
           \<lparr>pc_cue_id = rq_cue_id r, pc_generation = rq_generation r, pc_layer = l,
            pc_semantic_key = rs_resolved_key res, pc_adapter_action = cb_adapter_action b,
            pc_intensity = intensity, pc_priority = effective_priority r,
            pc_requested_at = rq_requested_at r, pc_not_after = Some (request_not_after r),
            pc_lease_s = cue_lease d r b, pc_resources = cb_resources b, pc_blend = cb_blend b,
            pc_cooldown_key = Some (binding_cooldown_key b),
            pc_cooldown_s = (if is_neutral then Fin 0 else cb_cooldown_s b),
            pc_audio_binding = rq_audio_binding r, pc_source = rq_source r, pc_neutral = is_neutral,
            pc_limits_exempt = (limits_exempt \<or> is_neutral),
            pc_fallback_from = (if rs_used_fallback res then Some (rs_requested_key res) else None)\<rparr>)"

definition suppress :: "PerformanceDirector \<Rightarrow> SemanticIntent \<Rightarrow> CapabilityResolution \<Rightarrow> CapabilityResolution" where
  "suppress d i res =
     (if si_semantic_key i |\<in>| ps_suppressed (dr_style d)
      then (let n = neutral_binding (dr_profile d) (si_layer i)
            in \<lparr>rs_requested_key = si_semantic_key i, rs_resolved_key = cb_semantic_key n, rs_binding = n,
                rs_used_fallback = True, rs_reason = lit ''style_suppressed''\<rparr>)
      else res)"

definition director_resolve :: "PerformanceDirector \<Rightarrow> CueRequest \<Rightarrow> avatar_error + PresentationCue" where
  "director_resolve d r =
     (case resolve (dr_profile d) (rq_intent r) of
        Inl e \<Rightarrow> Inl e
      | Inr res \<Rightarrow> make_cue d r (suppress d (rq_intent r) res))"

fun resolve_many :: "PerformanceDirector \<Rightarrow> CueRequest list \<Rightarrow> avatar_error + PresentationCue list" where
  "resolve_many d [] = Inr []"
| "resolve_many d (r # rs) =
     (case director_resolve d r of
        Inl e \<Rightarrow> Inl e
      | Inr c \<Rightarrow> (case resolve_many d rs of Inl e \<Rightarrow> Inl e | Inr cs \<Rightarrow> Inr (c # cs)))"

definition neutral_cue_id :: "PresentationLayer \<Rightarrow> int \<Rightarrow> pystr" where
  "neutral_cue_id l g = lit ''neutral:'' @ layer_value l @ lit '':'' @ str_int g"

definition neutral_cue ::
  "PerformanceDirector \<Rightarrow> PresentationLayer \<Rightarrow> int \<Rightarrow> pyfloat \<Rightarrow> avatar_error + PresentationCue" where
  "neutral_cue d l g requested_at =
     (let b = neutral_binding (dr_profile d) l
      in construct_cue
           \<lparr>pc_cue_id = neutral_cue_id l g, pc_generation = g, pc_layer = l,
            pc_semantic_key = cb_semantic_key b, pc_adapter_action = cb_adapter_action b,
            pc_intensity = cb_max_intensity b, pc_priority = Cue_REACTIVE_IDLE,
            pc_requested_at = requested_at, pc_not_after = None, pc_lease_s = None,
            pc_resources = cb_resources b, pc_blend = cb_blend b, pc_cooldown_key = None,
            pc_cooldown_s = Fin 0, pc_audio_binding = None, pc_source = Source_REACTIVE_IDLE,
            pc_neutral = True, pc_limits_exempt = True, pc_fallback_from = None\<rparr>)"

section \<open>Cues are well formed\<close>

lemma construct_cue_if: "construct_cue c = (if check_cue c = None then Inr c else Inl (the (check_cue c)))"
  by (auto simp: construct_cue_def)

definition director_ok :: "PerformanceDirector \<Rightarrow> bool" where
  "director_ok d \<longleftrightarrow> profile_ok (dr_profile d) \<and> check_style (dr_style d) = None"

lemma capability_okD:
  assumes "check_capability b = None"
  shows "is_identifier (cb_semantic_key b)" "in_namespace (cb_layer b) (cb_semantic_key b)"
    "\<And>a. cb_adapter_action b = Some a \<Longrightarrow> is_identifier a" "fBall (cb_resources b) is_identifier"
    "\<And>l. cb_default_lease_s b = Some l \<Longrightarrow> \<exists>q. l = Fin q \<and> 0 < q"
    "\<exists>q. cb_cooldown_s b = Fin q \<and> 0 \<le> q" "is_identifier (binding_cooldown_key b)"
    "\<exists>q. cb_max_intensity b = Fin q \<and> 0 \<le> q \<and> q \<le> 1"
  using assms
  by (auto simp: check_capability_def validate_semantic_key_def binding_cooldown_key_def
      split: if_splits option.splits)

lemma scale_for_intensity:
  assumes "check_style s = None"
  shows "\<exists>q. scale_for (ps_intensity_scale s) l = Fin q \<and> 0 \<le> q"
  using assms by (force simp: check_style_def scale_for_def list_all_iff dest: map_of_SomeD split: option.splits)

lemma intensity_in_unit:
  assumes "0 \<le> i" "0 \<le> s" "0 \<le> m" "m \<le> 1"
  shows "\<exists>q. fmin (fmul (Fin i) (Fin s)) (Fin m) = Fin q \<and> 0 \<le> q \<and> q \<le> m"
proof -
  have "fle (round_double 0) (round_double (i * s))" by (rule round_double_mono) (use assms in simp)
  then have "fle (Fin 0) (round_double (i * s))" by (simp add: round_double_def)
  then show ?thesis using assms by (cases "round_double (i * s)") (auto simp: fmul_def fmin_def flt_def)
qed

lemma nat_digits_ascii: "nat_digits n \<noteq> [] \<and> (\<forall>c \<in> set (nat_digits n). 48 \<le> c \<and> c \<le> 57)"
proof (induction n rule: nat_digits.induct)
  case (1 n)
  then show ?case by (subst nat_digits.simps, subst (2) nat_digits.simps) auto
qed

lemma str_int_last: "\<not> isspace (last (str_int g)) \<and> str_int g \<noteq> []"
proof -
  have "last (nat_digits n) \<in> {48..57}" for n using nat_digits_ascii [of n] by simp
  then have "str_int g \<noteq> []" "last (str_int g) \<in> {48..57}"
    using nat_digits_ascii by (simp_all add: str_int_def)
  then show ?thesis by (auto simp: isspace_def)
qed

lemma strip_id:
  assumes "s \<noteq> []" "\<not> isspace (hd s)" "\<not> isspace (last s)"
  shows "strip s = s"
proof -
  have "lstrip s = s" using assms by (cases s) (simp_all add: lstrip_def)
  moreover have "rstrip s = s" using assms by (cases s rule: rev_cases) (simp_all add: rstrip_def)
  ultimately show ?thesis by (simp add: strip_def)
qed

lemma neutral_cue_id_ok: "is_identifier (neutral_cue_id l g)"
  unfolding is_identifier_def
proof
  have "hd (neutral_cue_id l g) = 110" by (simp add: neutral_cue_id_def)
  then show "strip (neutral_cue_id l g) = neutral_cue_id l g"
    by (intro strip_id) (use str_int_last [of g] in \<open>auto simp: neutral_cue_id_def isspace_def\<close>)
qed (simp add: neutral_cue_id_def)

lemma neutral_cue_ok:
  assumes "profile_ok (dr_profile d)" "0 \<le> g" "isfinite t"
  shows "\<exists>c. neutral_cue d l g t = Inr c \<and> pc_cue_id c = neutral_cue_id l g \<and> pc_layer c = l \<and>
    pc_generation c = g \<and> pc_neutral c \<and> pc_lease_s c = None"
proof -
  note b = neutral_binding_ok [OF assms(1), of l]
  note cap = capability_okD [OF b(1)]
  show ?thesis
    using assms cap(1,2,3,4,8) b(2)
    by (auto simp: neutral_cue_def Let_def construct_cue_if check_cue_def neutral_cue_id_ok
        require_resources_def isfinite_iff)
qed

text \<open>
  C31: the director never builds an ill-formed cue and grants no authority. For a valid
  request it fails only if a float leaves its range: the deadline overflows, or the scaled
  default lease is no longer positive and finite. Otherwise the cue is valid, keeps the
  identity, generation, layer and priority of the request, stays within the binding's
  intensity, is exempt from limits only by request, by an operator or speech source, or as
  the layer's neutral.
\<close>

theorem director_cue_valid:
  assumes "director_ok d" and "check_cue_request r = None"
    and "rq_intent r = semantic_of ci" and "check_intent ci = None"
    and "double (rq_requested_at r)" and "isfinite (request_not_after r)"
    and "\<forall>b \<in> bindings (dr_profile d). \<forall>l. cue_lease d r b = Some l \<longrightarrow> (\<exists>q. l = Fin q \<and> 0 < q)"
  shows "\<exists>c. director_resolve d r = Inr c \<and> check_cue c = None \<and> pc_cue_id c = rq_cue_id r \<and>
    pc_generation c = rq_generation r \<and> pc_layer c = si_layer (rq_intent r) \<and> pc_priority c = effective_priority r \<and>
    (\<exists>b \<in> bindings (dr_profile d). pc_semantic_key c = cb_semantic_key b \<and> fle (pc_intensity c) (cb_max_intensity b)) \<and>
    (pc_limits_exempt c \<longrightarrow> rq_limits_exempt r \<or> rq_source r \<in> {Source_OPERATOR, Source_SPEECH_SYNC} \<or> pc_neutral c)"
proof -
  note style = assms(1) [unfolded director_ok_def]
  obtain res where res: "resolve (dr_profile d) (rq_intent r) = Inr res"
    "cb_layer (rs_binding res) = si_layer (rq_intent r)" "check_capability (rs_binding res) = None"
    "rs_resolved_key res = cb_semantic_key (rs_binding res)" "rs_requested_key res = si_semantic_key (rq_intent r)"
    "rs_binding res \<in> bindings (dr_profile d)"
    using resolve_ok [of "dr_profile d" "rq_intent r"] style semantic_of_key [of ci] assms(3) by auto
  define res' where "res' = suppress d (rq_intent r) res"
  have res': "cb_layer (rs_binding res') = si_layer (rq_intent r)" "check_capability (rs_binding res') = None"
    "rs_resolved_key res' = cb_semantic_key (rs_binding res')" "rs_requested_key res' = si_semantic_key (rq_intent r)"
    "rs_binding res' \<in> bindings (dr_profile d)"
    using res neutral_binding_ok [of "dr_profile d"] style by (auto simp: res'_def suppress_def Let_def bindings_def)
  note cap = capability_okD [OF res'(2)]
  obtain i where i: "si_intensity (rq_intent r) = Fin i" "0 \<le> i" using assms(3,4) by (cases ci) auto
  obtain s where s: "scale_for (ps_intensity_scale (dr_style d)) (si_layer (rq_intent r)) = Fin s" "0 \<le> s"
    using scale_for_intensity style by blast
  obtain m where m: "cb_max_intensity (rs_binding res') = Fin m" "0 \<le> m" "m \<le> 1" using cap(8) by blast
  obtain q where q: "fmin (fmul (Fin i) (Fin s)) (Fin m) = Fin q" "0 \<le> q" "q \<le> m"
    using intensity_in_unit [OF i(2) s(2) m(2,3)] by blast
  have key: "is_identifier (si_semantic_key (rq_intent r))"
    using semantic_of_key [of ci] assms(3) by (auto simp: validate_semantic_key_def split: if_splits)
  have lease: "\<forall>l. cue_lease d r (rs_binding res') = Some l \<longrightarrow> (\<exists>q. l = Fin q \<and> 0 < q)" using assms(7) res'(5) by blast
  have ns: "in_namespace (si_layer (rq_intent r)) (cb_semantic_key (rs_binding res'))" using cap(2) res'(1) by simp
  have rq: "is_identifier (rq_cue_id r)" "0 \<le> rq_generation r" "isfinite (rq_requested_at r)"
    using assms(2) by (auto simp: check_cue_request_def)
  have na: "require_not_after (rq_requested_at r) (request_not_after r) = None"
  proof -
    obtain x y where "rq_requested_at r = Fin x" "rq_ttl_s r = Fin y" "0 \<le> y"
      using assms(2) by (auto simp: check_cue_request_def isfinite_iff)
    then have "fle (rq_requested_at r) (request_not_after r)"
      using fadd_ge [of x y] assms(5) by (simp add: request_not_after_def)
    then show ?thesis using assms(6) by (auto simp: require_not_after_def flt_def)
  qed
  have rr: "require_resources (cb_resources (rs_binding res')) = None" using cap(4) by (simp add: require_resources_def)
  have "fle (Fin q) (cb_max_intensity (rs_binding res'))" using q m by simp
  then show ?thesis
    unfolding director_resolve_def res(1) sum.case res'_def [symmetric] make_cue_def Let_def i(1) s(1) m(1) q(1) res'(3,4) construct_cue_if
    using rq na rr lease ns key cap(1,3,6,7) q m res'(5) by (auto simp: check_cue_def)
qed

definition demo_director :: PerformanceDirector where
  "demo_director = \<lparr>dr_profile = demo_profile,
     dr_style = \<lparr>ps_intensity_scale = [], ps_lease_scale = [], ps_suppressed = {||}\<rparr>\<rparr>"

definition demo_cue_request :: CueRequest where
  "demo_cue_request = \<lparr>rq_cue_id = lit ''c'', rq_generation = 0, rq_intent = demo_intent, rq_requested_at = Fin 0,
     rq_source = Source_MODEL, rq_priority = None, rq_ttl_s = Fin 2, rq_lease_s = Some (Fin 1),
     rq_audio_binding = None, rq_limits_exempt = False\<rparr>"

lemma demo_director_ok: "director_ok demo_director"
  using make_profile_ok [OF demo_profile_ok(1-3)]
  by (simp add: director_ok_def demo_director_def check_style_def)

lemma demo_not_after: "request_not_after demo_cue_request = Fin 2"
  using is_double_int [of 2] by (simp add: request_not_after_def demo_cue_request_def is_double_def)

theorem director_cue_valid_witness:
  "\<exists>c. director_resolve demo_director demo_cue_request = Inr c \<and> check_cue c = None \<and> pc_cue_id c = lit ''c''"
proof -
  have "check_cue_request demo_cue_request = None" "double (rq_requested_at demo_cue_request)"
    "rq_cue_id demo_cue_request = lit ''c''" "rq_lease_s demo_cue_request = Some (Fin 1)"
    by (simp_all add: demo_cue_request_def check_cue_request_def identifier_eval is_double_def round_double_def)
  moreover have "rq_intent demo_cue_request = semantic_of (AffectIntent (Fin 0) (Fin 0) (Some Affect_CALM) (Fin 1))"
    by (simp add: demo_cue_request_def demo_intent_def)
  ultimately show ?thesis
    using director_cue_valid [OF demo_director_ok, of demo_cue_request "AffectIntent (Fin 0) (Fin 0) (Some Affect_CALM) (Fin 1)"]
    by (auto simp: demo_not_after cue_lease_def simp del: lit_simps)
qed

end
