(* ===== verification/SchedulerInv.thy ===== *)
theory SchedulerInv
  imports Scheduler Director
begin

text \<open>
  The invariant of the presentation scheduler. What a scheduler needs of the factory that
  builds its neutral cues is the interface \<open>neutral_provider\<close>; the performance director
  provides it.
\<close>

section \<open>Frame conditions\<close>

text \<open>The parts of a scheduler that ending and starting leases leaves alone.\<close>

definition fixed_part :: "scheduler \<Rightarrow> int \<times> SchedulerPolicy \<times> neutral_factory option \<times> bool \<times>
    (pystr \<times> PendingCue) list \<times> (timeline_key \<times> AudioTimelineMarker) list" where
  "fixed_part s = (sc_generation s, sc_policy s, sc_neutral_factory s, sc_connected s, sc_pending s, sc_audio_markers s)"

lemma fixed_partD:
  assumes "fixed_part s = fixed_part t"
  shows "sc_generation s = sc_generation t" "sc_policy s = sc_policy t" "sc_neutral_factory s = sc_neutral_factory t"
    "sc_connected s = sc_connected t" "sc_pending s = sc_pending t" "sc_audio_markers s = sc_audio_markers t"
  using assms by (simp_all add: fixed_part_def)

lemma start_event_frame [simp]:
  "fixed_part (snd (start_event s c now)) = fixed_part s"
  "sc_active (snd (start_event s c now)) = sc_active s"
  "sc_active_by_layer (snd (start_event s c now)) = sc_active_by_layer s"
  "sc_needs_neutral (snd (start_event s c now)) = sc_needs_neutral s"
  by (simp_all add: start_event_def next_sequence_def Let_def fixed_part_def)

lemma stop_event_frame [simp]:
  "fixed_part (snd (stop_event s c now r b)) = fixed_part s"
  "sc_active (snd (stop_event s c now r b)) = sc_active s"
  "sc_active_by_layer (snd (stop_event s c now r b)) = sc_active_by_layer s"
  "sc_needs_neutral (snd (stop_event s c now r b)) = sc_needs_neutral s"
  by (simp_all add: stop_event_def next_sequence_def Let_def fixed_part_def)

lemma remove_active_frame [simp]:
  "fixed_part (snd (remove_active s i)) = fixed_part s"
  "map_of (sc_active (snd (remove_active s i))) = (map_of (sc_active s))(i := None)"
  by (auto simp: remove_active_def fixed_part_def AList.delete_conv' split: option.splits)

lemma fixed_part_needs [simp]: "fixed_part (s\<lparr>sc_needs_neutral := x\<rparr>) = fixed_part s"
  by (simp add: fixed_part_def)

lemma stop_leases_frame [simp]:
  "fixed_part (snd (stop_leases s now r b mark ls)) = fixed_part s"
  by (induction ls arbitrary: s) (simp_all add: Let_def case_prod_beta)

lemma map_of_stop_leases:
  "map_of (sc_active (snd (stop_leases s now r b mark ls))) i =
     (if i \<in> (\<lambda>l. pc_cue_id (al_cue l)) ` set ls then None else map_of (sc_active s) i)"
  by (induction ls arbitrary: s) (simp_all add: Let_def case_prod_beta)

section \<open>Leases\<close>

definition leases_ok :: "(PresentationLayer \<Rightarrow> pystr) \<Rightarrow> scheduler \<Rightarrow> bool" where
  "leases_ok nid s \<longleftrightarrow>
     distinct (map fst (sc_active s)) \<and>
     (\<forall>i l. map_of (sc_active s) i = Some l \<longrightarrow>
        pc_cue_id (al_cue l) = i \<and> pc_generation (al_cue l) = sc_generation s \<and>
        (\<forall>L. i = nid L \<longrightarrow> pc_layer (al_cue l) = L)) \<and>
     (\<forall>L i. map_of (sc_active_by_layer s) L = Some i \<longleftrightarrow>
        (\<exists>l. map_of (sc_active s) i = Some l \<and> pc_layer (al_cue l) = L)) \<and>
     (\<forall>i j l m. map_of (sc_active s) i = Some l \<longrightarrow> map_of (sc_active s) j = Some m \<longrightarrow> i \<noteq> j \<longrightarrow>
        \<not> conflicts_with (al_cue l) m)"

lemma leases_okD:
  assumes "leases_ok nid s"
  shows "distinct (map fst (sc_active s))"
    "\<And>i l. map_of (sc_active s) i = Some l \<Longrightarrow> pc_cue_id (al_cue l) = i \<and> pc_generation (al_cue l) = sc_generation s"
    "\<And>L l. map_of (sc_active s) (nid L) = Some l \<Longrightarrow> pc_layer (al_cue l) = L"
    "\<And>L i. map_of (sc_active_by_layer s) L = Some i \<longleftrightarrow> (\<exists>l. map_of (sc_active s) i = Some l \<and> pc_layer (al_cue l) = L)"
    "\<And>i j l m. map_of (sc_active s) i = Some l \<Longrightarrow> map_of (sc_active s) j = Some m \<Longrightarrow> i \<noteq> j \<Longrightarrow>
       \<not> conflicts_with (al_cue l) m"
  using assms unfolding leases_ok_def by blast+

lemma leases_ok_cong:
  assumes "leases_ok nid s" "sc_active t = sc_active s" "sc_active_by_layer t = sc_active_by_layer s"
    "sc_generation t = sc_generation s"
  shows "leases_ok nid t"
  using assms by (simp add: leases_ok_def)

lemma remove_active_leases:
  assumes "leases_ok nid s"
  shows "leases_ok nid (snd (remove_active s i))"
proof (cases "map_of (sc_active s) i")
  case None
  then show ?thesis using assms by (simp add: remove_active_def)
next
  case (Some l)
  let ?t = "snd (remove_active s i)"
  note ok = leases_okD [OF assms]
  have byl: "map_of (sc_active_by_layer s) (pc_layer (al_cue l)) = Some i" using ok(4) Some by blast
  have t: "?t = s\<lparr>sc_active := AList.delete i (sc_active s),
      sc_active_by_layer := AList.delete (pc_layer (al_cue l)) (sc_active_by_layer s)\<rparr>"
    using Some byl by (simp add: remove_active_def)
  have one: "j = i" if "map_of (sc_active s) j = Some m" "pc_layer (al_cue m) = pc_layer (al_cue l)" for j m
    using ok(5) [OF that(1) Some] that(2) by (auto simp: conflicts_with_def)
  show ?thesis
    unfolding leases_ok_def
  proof (intro conjI)
    show "\<forall>L j. map_of (sc_active_by_layer ?t) L = Some j \<longleftrightarrow>
        (\<exists>m. map_of (sc_active ?t) j = Some m \<and> pc_layer (al_cue m) = L)"
    proof (intro allI)
      fix L j
      show "map_of (sc_active_by_layer ?t) L = Some j \<longleftrightarrow>
          (\<exists>m. map_of (sc_active ?t) j = Some m \<and> pc_layer (al_cue m) = L)"
      proof (cases "L = pc_layer (al_cue l)")
        case True
        then have "j = i" if "map_of (sc_active s) j = Some m" "pc_layer (al_cue m) = L" for m
          using one that by blast
        then show ?thesis using True by (auto simp: t AList.delete_conv')
      next
        case False
        have "map_of (sc_active_by_layer ?t) L = Some j \<longleftrightarrow>
            (\<exists>m. map_of (sc_active s) j = Some m \<and> pc_layer (al_cue m) = L)"
          using ok(4) [of L j] False by (simp add: t AList.delete_conv')
        moreover have "j \<noteq> i" if "map_of (sc_active s) j = Some m" "pc_layer (al_cue m) = L" for m
          using that Some False by auto
        ultimately show ?thesis by (auto simp: t AList.delete_conv')
      qed
    qed
    show "distinct (map fst (sc_active ?t))" using ok(1) by (simp add: t AList.distinct_delete)
    show "\<forall>j m. map_of (sc_active ?t) j = Some m \<longrightarrow> pc_cue_id (al_cue m) = j \<and>
        pc_generation (al_cue m) = sc_generation ?t \<and> (\<forall>L. j = nid L \<longrightarrow> pc_layer (al_cue m) = L)"
      using ok(2,3) by (auto simp: t AList.delete_conv')
    show "\<forall>j k m n. map_of (sc_active ?t) j = Some m \<longrightarrow> map_of (sc_active ?t) k = Some n \<longrightarrow> j \<noteq> k \<longrightarrow>
        \<not> conflicts_with (al_cue m) n"
      using ok(5) by (simp add: t AList.delete_conv')
  qed
qed

lemma stop_leases_ok: "leases_ok nid s \<Longrightarrow> leases_ok nid (snd (stop_leases s now r b mark ls))"
proof (induction ls arbitrary: s)
  case (Cons l ls)
  have "leases_ok nid (snd (stop_event (if mark (pc_layer (al_cue l))
      then (snd (remove_active s (pc_cue_id (al_cue l))))\<lparr>sc_needs_neutral := x\<rparr>
      else snd (remove_active s (pc_cue_id (al_cue l)))) c now r b))" for x c
    by (rule leases_ok_cong [OF remove_active_leases [OF Cons.prems, of "pc_cue_id (al_cue l)"]])
      (auto simp: fixed_partD(1) [OF stop_event_frame(1)])
  then show ?case by (simp add: Let_def case_prod_beta Cons.IH)
qed simp

lemma install_lease_frame [simp]: "fixed_part (snd (install_lease s c now e)) = fixed_part s"
  by (auto simp: install_lease_def Let_def case_prod_beta fixed_part_def start_event_def next_sequence_def
      split: option.splits)

lemma install_lease_active:
  assumes "fst (install_lease s c now e) = Inr ev"
  shows "sc_active (snd (install_lease s c now e)) =
      AList.update (pc_cue_id c) \<lparr>al_cue = c, al_started_at = now, al_expires_at = e\<rparr> (sc_active s)"
    and "sc_active_by_layer (snd (install_lease s c now e)) = AList.update (pc_layer c) (pc_cue_id c) (sc_active_by_layer s)"
    and "pe_cue ev = c" "pe_kind ev = Event_STARTED"
  using assms by (auto simp: install_lease_def Let_def case_prod_beta start_event_def next_sequence_def split: option.splits)

lemma install_lease_fails:
  assumes "fst (install_lease s c now e) = Inl err"
  shows "snd (install_lease s c now e) = s"
  using assms by (auto simp: install_lease_def Let_def case_prod_beta split: option.splits)

lemma install_lease_ok:
  assumes ok: "leases_ok nid s" and fresh: "map_of (sc_active s) (pc_cue_id c) = None"
    and gen: "pc_generation c = sc_generation s" and nid: "\<forall>L. pc_cue_id c = nid L \<longrightarrow> pc_layer c = L"
    and free: "\<forall>i l. map_of (sc_active s) i = Some l \<longrightarrow> \<not> conflicts_with c l"
  shows "leases_ok nid (snd (install_lease s c now e))"
proof (cases "fst (install_lease s c now e)")
  case (Inl err)
  then show ?thesis using ok install_lease_fails by metis
next
  case (Inr ev)
  let ?t = "snd (install_lease s c now e)"
  let ?lease = "\<lparr>al_cue = c, al_started_at = now, al_expires_at = e\<rparr>"
  note t = install_lease_active [OF Inr] fixed_partD(1) [OF install_lease_frame, of s c now e]
  note D = leases_okD [OF ok]
  have free': "\<not> conflicts_with (al_cue l) ?lease" if "map_of (sc_active s) i = Some l" for i l
    using free [rule_format, OF that] by (auto simp: conflicts_with_def)
  have lay: "pc_layer (al_cue l) \<noteq> pc_layer c" if "map_of (sc_active s) i = Some l" for i l
    using free [rule_format, OF that] by (auto simp: conflicts_with_def)
  show ?thesis
    unfolding leases_ok_def
  proof (intro conjI)
    show "\<forall>L j. map_of (sc_active_by_layer ?t) L = Some j \<longleftrightarrow>
        (\<exists>m. map_of (sc_active ?t) j = Some m \<and> pc_layer (al_cue m) = L)"
      using D(4) fresh lay by (auto simp: t AList.update_conv')
    show "distinct (map fst (sc_active ?t))" using D(1) by (simp add: t AList.distinct_update)
    show "\<forall>i l. map_of (sc_active ?t) i = Some l \<longrightarrow> pc_cue_id (al_cue l) = i \<and>
        pc_generation (al_cue l) = sc_generation ?t \<and> (\<forall>L. i = nid L \<longrightarrow> pc_layer (al_cue l) = L)"
      using D(2,3) gen nid by (auto simp: t AList.update_conv')
    show "\<forall>i j l m. map_of (sc_active ?t) i = Some l \<longrightarrow> map_of (sc_active ?t) j = Some m \<longrightarrow> i \<noteq> j \<longrightarrow>
        \<not> conflicts_with (al_cue l) m"
      using D(5) free free' by (auto simp: t AList.update_conv')
  qed
qed

section \<open>The whole scheduler\<close>

text \<open>
  \<open>nid l g\<close> is the identity reserved for the neutral cue of layer \<open>l\<close> in generation \<open>g\<close>.
\<close>

definition pending_ok :: "(PresentationLayer \<Rightarrow> int \<Rightarrow> pystr) \<Rightarrow> scheduler \<Rightarrow> bool" where
  "pending_ok nid s \<longleftrightarrow> distinct (map fst (sc_pending s)) \<and> int (length (sc_pending s)) \<le> sp_max_pending (sc_policy s) \<and>
     (\<forall>i p. map_of (sc_pending s) i = Some p \<longrightarrow> pc_cue_id (pn_cue p) = i \<and>
        pc_generation (pn_cue p) = sc_generation s \<and> map_of (sc_active s) i = None \<and> (\<forall>l g. i \<noteq> nid l g) \<and>
        check_cue (pn_cue p) = None)"

definition sched_inv :: "(PresentationLayer \<Rightarrow> int \<Rightarrow> pystr) \<Rightarrow> scheduler \<Rightarrow> bool" where
  "sched_inv nid s \<longleftrightarrow> 0 \<le> sc_generation s \<and> leases_ok (\<lambda>l. nid l (sc_generation s)) s \<and> pending_ok nid s \<and>
     (\<not> sc_connected s \<longrightarrow> sc_active s = [] \<and> sc_pending s = []) \<and> check_policy (sc_policy s) \<and>
     int (length (sc_audio_markers s)) \<le> sp_max_audio_markers (sc_policy s)"

lemma map_of_filter_Some: "distinct (map fst xs) \<Longrightarrow> map_of (filter P xs) i = Some p \<longleftrightarrow> map_of xs i = Some p \<and> P (i, p)"
  by (simp add: distinct_map_filter)

lemma pending_ok_filter:
  assumes "pending_ok nid s"
  shows "pending_ok nid (s\<lparr>sc_pending := filter P (sc_pending s)\<rparr>)"
proof -
  have "distinct (map fst (sc_pending s))" using assms by (simp add: pending_ok_def)
  moreover have "int (length (filter P (sc_pending s))) \<le> sp_max_pending (sc_policy s)"
    by (rule order_trans [of _ "int (length (sc_pending s))"]) (use assms in \<open>simp_all add: pending_ok_def\<close>)
  ultimately show ?thesis
    using assms unfolding pending_ok_def
    by (auto simp: map_of_filter_Some distinct_map_filter simp del: map_of_eq_Some_iff)
qed

lemma delete_filter: "AList.delete k xs = filter (\<lambda>p. fst p \<noteq> k) xs"
  by (induction xs) simp_all

lemma pending_ok_cong:
  assumes "pending_ok nid s" "fixed_part t = fixed_part s"
    "\<And>i. map_of (sc_active s) i = None \<Longrightarrow> map_of (sc_active t) i = None"
  shows "pending_ok nid t"
  using assms by (auto simp: pending_ok_def fixed_part_def)

lemma sched_invI:
  assumes "sched_inv nid s" "fixed_part t = fixed_part s" "leases_ok (\<lambda>l. nid l (sc_generation t)) t" "pending_ok nid t"
    "\<not> sc_connected s \<Longrightarrow> sc_active t = []"
  shows "sched_inv nid t"
  using assms by (simp add: sched_inv_def fixed_part_def)

lemma map_of_Nil_iff: "(\<forall>i. map_of xs i = None) \<longleftrightarrow> xs = []"
  by (cases xs) auto

lemma stop_leases_inv:
  assumes "sched_inv nid s"
  shows "sched_inv nid (snd (stop_leases s now r b mark ls))"
proof (rule sched_invI [OF assms])
  let ?t = "snd (stop_leases s now r b mark ls)"
  note fp = fixed_partD [OF stop_leases_frame, of s now r b mark ls]
  show "leases_ok (\<lambda>l. nid l (sc_generation ?t)) ?t" using assms by (auto simp: sched_inv_def fp intro: stop_leases_ok)
  show "pending_ok nid ?t"
    by (rule pending_ok_cong [of nid s]) (use assms in \<open>auto simp: sched_inv_def map_of_stop_leases\<close>)
  show "sc_active ?t = []" if "\<not> sc_connected s"
  proof -
    have "sc_active s = []" using assms that by (simp add: sched_inv_def)
    then have "\<forall>i. map_of (sc_active ?t) i = None" by (simp add: map_of_stop_leases)
    then show ?thesis by (simp add: map_of_Nil_iff)
  qed
qed simp

lemma expire_inv: "sched_inv nid s \<Longrightarrow> sched_inv nid (snd (expire s now))"
proof -
  assume "sched_inv nid s"
  define t where "t = snd (stop_leases s now Stop_LEASE_EXPIRED None (\<lambda>_. True) (filter (lease_expired now) (sorted_active s)))"
  have t: "sched_inv nid t" unfolding t_def by (rule stop_leases_inv) fact
  have e: "snd (expire s now) = t\<lparr>sc_pending := filter (\<lambda>p. \<not> cue_expired now (pn_cue (snd p))) (sc_pending t),
      sc_cooldown_until := filter (\<lambda>c. \<not> fle (snd c) now) (sc_cooldown_until t)\<rparr>"
    by (simp add: expire_def Let_def case_prod_beta t_def)
  have "pending_ok nid (t\<lparr>sc_pending := filter (\<lambda>p. \<not> cue_expired now (pn_cue (snd p))) (sc_pending t)\<rparr>)"
    using t by (intro pending_ok_filter) (simp add: sched_inv_def)
  then show ?thesis using t unfolding e by (auto simp: sched_inv_def leases_ok_def pending_ok_def)
qed

lemma install_lease_inv:
  assumes "sched_inv nid s" "map_of (sc_active s) (pc_cue_id c) = None" "map_of (sc_pending s) (pc_cue_id c) = None"
    "pc_generation c = sc_generation s" "\<forall>L. pc_cue_id c = nid L (sc_generation s) \<longrightarrow> pc_layer c = L"
    "\<forall>i l. map_of (sc_active s) i = Some l \<longrightarrow> \<not> conflicts_with c l" "sc_connected s"
  shows "sched_inv nid (snd (install_lease s c now e))"
proof (rule sched_invI [OF assms(1)])
  let ?t = "snd (install_lease s c now e)"
  note fp = fixed_partD [OF install_lease_frame, of s c now e]
  show "leases_ok (\<lambda>l. nid l (sc_generation ?t)) ?t"
    using assms by (auto simp: sched_inv_def fp intro: install_lease_ok)
  show "pending_ok nid ?t"
  proof (cases "fst (install_lease s c now e)")
    case (Inl err)
    then show ?thesis using assms(1) install_lease_fails [OF Inl] by (simp add: sched_inv_def)
  next
    case (Inr ev)
    have p: "pending_ok nid s" using assms(1) by (simp add: sched_inv_def)
    have "i \<noteq> pc_cue_id c" if "map_of (sc_pending s) i = Some p" for i p using that assms(3) by auto
    then show ?thesis using p by (simp add: pending_ok_def fp install_lease_active [OF Inr] AList.update_conv')
  qed
qed (use assms(7) in simp_all)

lemma set_conflicting_leases [simp]: "set (conflicting_leases s c) = {l \<in> snd ` set (sc_active s). conflicts_with c l}"
  by (auto simp: conflicting_leases_def)

lemma check_limits_frame [simp]:
  "fixed_part (snd (check_limits s c now)) = fixed_part s"
  "sc_active (snd (check_limits s c now)) = sc_active s"
  "sc_active_by_layer (snd (check_limits s c now)) = sc_active_by_layer s"
  "sc_needs_neutral (snd (check_limits s c now)) = sc_needs_neutral s"
  "sc_sequence (snd (check_limits s c now)) = sc_sequence s"
  by (simp_all add: check_limits_def within_rate_limits_def within_layer_limit_def Let_def case_prod_beta fixed_part_def
      split: option.splits)

lemma record_limits_frame [simp]:
  "fixed_part (record_limits s c now) = fixed_part s"
  "sc_active (record_limits s c now) = sc_active s"
  "sc_active_by_layer (record_limits s c now) = sc_active_by_layer s"
  "sc_needs_neutral (record_limits s c now) = sc_needs_neutral s"
  "sc_sequence (record_limits s c now) = sc_sequence s"
  by (simp_all add: record_limits_def record_start_def Let_def fixed_part_def split: option.splits)

lemma sched_inv_cong:
  assumes "sched_inv nid s" "fixed_part t = fixed_part s" "sc_active t = sc_active s"
    "sc_active_by_layer t = sc_active_by_layer s"
  shows "sched_inv nid t"
  using assms by (simp add: sched_inv_def leases_ok_def pending_ok_def fixed_part_def)

lemma record_limits_inv: "sched_inv nid s \<Longrightarrow> sched_inv nid (record_limits s c now)"
  by (erule sched_inv_cong) simp_all

lemma case_sum_pair:
  "(case r of (Inl e, s) \<Rightarrow> f e s | (Inr x, s) \<Rightarrow> g x s) =
     (case fst r of Inl e \<Rightarrow> f e (snd r) | Inr x \<Rightarrow> g x (snd r))"
  by (cases r) (simp split: sum.splits)

definition expiry_of :: "PresentationCue \<Rightarrow> pyfloat \<Rightarrow> pyfloat option" where
  "expiry_of c now = (case pc_lease_s c of None \<Rightarrow> None | Some d \<Rightarrow> Some (fadd now d))"

definition preempted :: "scheduler \<Rightarrow> PresentationCue \<Rightarrow> pyfloat \<Rightarrow> PresentationEvent list \<times> scheduler" where
  "preempted s c now = stop_leases s now Stop_PREEMPTED (Some (pc_cue_id c)) (\<lambda>l. l \<noteq> pc_layer c) (conflicting_leases s c)"

lemma take_over_alt:
  "take_over s c now =
     (let r = install_lease (snd (preempted s c now)) c now (expiry_of c now)
      in (case fst r of
            Inl e \<Rightarrow> (Inl e, snd r)
          | Inr ev \<Rightarrow> (Inr (result Sched_STARTED c (fst (preempted s c now) @ [ev]) None), record_limits (snd r) c now)))"
  by (simp add: take_over_def preempted_def expiry_of_def Let_def case_prod_beta case_sum_pair split: sum.splits)

lemma preempted_free:
  assumes "leases_ok nid s" "map_of (sc_active (snd (preempted s c now))) i = Some l"
  shows "\<not> conflicts_with c l" "map_of (sc_active s) i = Some l"
proof -
  show a: "map_of (sc_active s) i = Some l"
    using assms(2) by (auto simp: preempted_def map_of_stop_leases split: if_splits)
  then have "pc_cue_id (al_cue l) = i" "l \<in> snd ` set (sc_active s)"
    using leases_okD(2) [OF assms(1) a] by (auto dest!: map_of_SomeD intro: rev_image_eqI)
  then show "\<not> conflicts_with c l"
    using assms(2) by (auto simp: preempted_def map_of_stop_leases split: if_splits)
qed

definition startable :: "(PresentationLayer \<Rightarrow> int \<Rightarrow> pystr) \<Rightarrow> scheduler \<Rightarrow> PresentationCue \<Rightarrow> bool" where
  "startable nid s c \<longleftrightarrow> map_of (sc_active s) (pc_cue_id c) = None \<and> map_of (sc_pending s) (pc_cue_id c) = None \<and>
     (\<forall>l g. pc_cue_id c \<noteq> nid l g) \<and> check_cue c = None"

lemma take_over_inv:
  assumes "sched_inv nid s" "startable nid s c" "pc_generation c = sc_generation s" "sc_connected s"
  shows "sched_inv nid (snd (take_over s c now))"
proof -
  let ?t = "snd (preempted s c now)"
  have t: "sched_inv nid ?t" unfolding preempted_def by (rule stop_leases_inv) fact
  note fp = fixed_partD [OF stop_leases_frame, of s now Stop_PREEMPTED "Some (pc_cue_id c)" "\<lambda>l. l \<noteq> pc_layer c"
      "conflicting_leases s c", folded preempted_def]
  have ok: "leases_ok (\<lambda>l. nid l (sc_generation s)) s" using assms(1) by (simp add: sched_inv_def)
  have "map_of (sc_active ?t) (pc_cue_id c) = None"
    using assms(2) by (simp add: preempted_def map_of_stop_leases startable_def)
  then have "sched_inv nid (snd (install_lease ?t c now e))" for e
    by (rule install_lease_inv [OF t]) (use assms preempted_free [OF ok] in \<open>auto simp: fp startable_def\<close>)
  then show ?thesis
    by (simp add: take_over_alt Let_def record_limits_inv split: sum.splits)
qed

lemma attempt_start_cases:
  obtains (refused) st d where "attempt_start s c now = (Inr (result st c [] d), s)" "st \<noteq> Sched_STARTED"
  | (limited) st d where "attempt_start s c now = (Inr (result st c [] (Some d)), snd (check_limits s c now))"
      "fst (check_limits s c now) = Some (st, d)" "st \<noteq> Sched_STARTED"
  | (started) "attempt_start s c now = take_over (snd (check_limits s c now)) c now" "\<not> cue_expired now c"
      "pc_generation c = sc_generation s" "sc_connected s" "blockers s c = []" "fst (check_limits s c now) = None"
proof (cases "cue_expired now c \<or> pc_generation c \<noteq> sc_generation s \<or> \<not> sc_connected s \<or> blockers s c \<noteq> []")
  case True
  have "\<exists>st d. attempt_start s c now = (Inr (result st c [] d), s) \<and> st \<noteq> Sched_STARTED"
    using True by (simp add: attempt_start_def Let_def del: lit_simps) blast
  then show ?thesis using refused by blast
next
  case False
  then have a: "attempt_start s c now = (case check_limits s c now of
      (Some (st, d), s1) \<Rightarrow> (Inr (result st c [] (Some d)), s1) | (None, s1) \<Rightarrow> take_over s1 c now)"
    by (simp add: attempt_start_def)
  show ?thesis
  proof (cases "fst (check_limits s c now)")
    case None
    then have "attempt_start s c now = take_over (snd (check_limits s c now)) c now"
      unfolding a by (cases "check_limits s c now") simp
    then show ?thesis using started False None by blast
  next
    case (Some std)
    obtain st d where std: "std = (st, d)" by (cases std)
    have "attempt_start s c now = (Inr (result st c [] (Some d)), snd (check_limits s c now))"
      unfolding a using Some std by (cases "check_limits s c now") simp
    moreover have "st \<noteq> Sched_STARTED"
      using Some std by (auto simp: check_limits_def Let_def case_prod_beta split: if_splits option.splits)
    ultimately show ?thesis using limited Some std by blast
  qed
qed

lemma check_limits_inv: "sched_inv nid s \<Longrightarrow> sched_inv nid (snd (check_limits s c now))"
  by (erule sched_inv_cong) simp_all

lemma attempt_start_inv:
  assumes "sched_inv nid s" "startable nid s c"
  shows "sched_inv nid (snd (attempt_start s c now))"
proof (cases rule: attempt_start_cases [where s = s and c = c and now = now])
  case started
  note fp = fixed_partD [OF check_limits_frame(1), of s c now]
  have "sched_inv nid (snd (take_over (snd (check_limits s c now)) c now))"
    by (rule take_over_inv [OF check_limits_inv [OF assms(1)]])
      (use assms(2) started in \<open>simp_all add: fp startable_def\<close>)
  then show ?thesis by (simp add: started(1))
qed (use assms(1) in \<open>simp_all add: check_limits_inv\<close>)

lemma take_over_frame [simp]: "fixed_part (snd (take_over s c now)) = fixed_part s"
  by (simp add: take_over_alt preempted_def Let_def split: sum.splits)

lemma attempt_start_frame [simp]: "fixed_part (snd (attempt_start s c now)) = fixed_part s"
  by (cases rule: attempt_start_cases [where s = s and c = c and now = now]) simp_all

end
