(* ===== verification/SchedulerRun.thy ===== *)
theory SchedulerRun
  imports SchedulerInv
begin

text \<open>
  Runs of the presentation scheduler: the events its operations return, the errors they can
  raise, and the invariant over any sequence of operations.
\<close>

section \<open>Traces\<close>

text \<open>
  The events emitted between two states: numbered in order, and every started cue belongs
  to the generation.
\<close>

definition trace_ok :: "scheduler \<Rightarrow> PresentationEvent list \<Rightarrow> scheduler \<Rightarrow> bool" where
  "trace_ok s evs t \<longleftrightarrow> sc_generation t = sc_generation s \<and> sc_sequence s \<le> sc_sequence t \<and>
     sorted_wrt (<) (map pe_sequence evs) \<and>
     (\<forall>e \<in> set evs. sc_sequence s < pe_sequence e \<and> pe_sequence e \<le> sc_sequence t \<and>
        (pe_kind e = Event_STARTED \<longrightarrow> pc_generation (pe_cue e) = sc_generation t))"

lemma trace_refl: "sc_generation t = sc_generation s \<Longrightarrow> sc_sequence s \<le> sc_sequence t \<Longrightarrow> trace_ok s [] t"
  by (simp add: trace_ok_def)

lemma trace_append:
  assumes "trace_ok s es t" "trace_ok t fs u"
  shows "trace_ok s (es @ fs) u"
  using assms unfolding trace_ok_def by (fastforce simp: sorted_wrt_append)

lemma trace_cong:
  "trace_ok s es t \<Longrightarrow> sc_generation u = sc_generation t \<Longrightarrow> sc_sequence u = sc_sequence t \<Longrightarrow> trace_ok s es u"
  "trace_ok s es t \<Longrightarrow> sc_generation v = sc_generation s \<Longrightarrow> sc_sequence v = sc_sequence s \<Longrightarrow> trace_ok v es t"
  by (simp_all add: trace_ok_def)

lemma remove_active_seq [simp]: "sc_sequence (snd (remove_active s i)) = sc_sequence s"
  by (simp add: remove_active_def split: option.splits)

lemma stop_leases_trace: "trace_ok s (fst (stop_leases s now r b mark ls)) (snd (stop_leases s now r b mark ls))"
proof (induction ls arbitrary: s)
  case (Cons l ls)
  let ?s1 = "snd (remove_active s (pc_cue_id (al_cue l)))"
  define s2 where "s2 = (if mark (pc_layer (al_cue l))
    then ?s1\<lparr>sc_needs_neutral := insert (pc_layer (al_cue l)) (sc_needs_neutral ?s1)\<rparr> else ?s1)"
  have "sc_sequence s2 = sc_sequence s" "sc_generation s2 = sc_generation s"
    by (simp_all add: s2_def fixed_partD(1) [OF remove_active_frame(1)])
  then have "trace_ok s [fst (stop_event s2 c now r b)] (snd (stop_event s2 c now r b))" for c
    by (simp add: trace_ok_def stop_event_def next_sequence_def Let_def)
  from trace_append [OF this Cons.IH] show ?case by (simp add: Let_def case_prod_beta s2_def [symmetric])
qed (simp add: trace_refl)

lemma expire_trace: "trace_ok s (fst (expire s now)) (snd (expire s now))"
  by (auto simp: expire_def Let_def case_prod_beta intro: trace_cong(1) [OF stop_leases_trace])

text \<open>What a step from \<open>s\<close> that returned or raised keeps.\<close>

definition good ::
  "(PresentationLayer \<Rightarrow> int \<Rightarrow> pystr) \<Rightarrow> scheduler \<Rightarrow> ('a \<Rightarrow> PresentationEvent list) \<Rightarrow>
   (scheduler_error + 'a) \<times> scheduler \<Rightarrow> bool" where
  "good nid s f r \<longleftrightarrow> sched_inv nid (snd r) \<and>
     trace_ok s (case fst r of Inl e \<Rightarrow> [] | Inr x \<Rightarrow> f x) (snd r) \<and>
     (\<forall>e. fst r = Inl e \<longrightarrow> e = Lease_failed (Not_finite ''expires_at'')) \<and>
     sc_neutral_factory (snd r) = sc_neutral_factory s \<and> sc_policy (snd r) = sc_policy s \<and>
     (sc_connected s \<longrightarrow> sc_connected (snd r))"

lemma install_lease_seq:
  "fst (install_lease s c now e) = Inr ev \<Longrightarrow> pe_sequence ev = sc_sequence s + 1 \<and>
     sc_sequence (snd (install_lease s c now e)) = sc_sequence s + 1"
  by (auto simp: install_lease_def Let_def case_prod_beta start_event_def next_sequence_def split: option.splits)

lemma install_lease_trace:
  assumes "pc_generation c = sc_generation s" "fst (install_lease s c now e) = Inr ev"
  shows "trace_ok s [ev] (snd (install_lease s c now e))"
  using assms(1) install_lease_seq [OF assms(2)] install_lease_active(3,4) [OF assms(2)]
  by (simp add: trace_ok_def fixed_partD(1) [OF install_lease_frame])

lemma install_lease_error:
  assumes "fst (install_lease s c (Fin now) (expiry_of c (Fin now))) = Inl err" "is_double now" "check_cue c = None"
  shows "err = Lease_failed (Not_finite ''expires_at'')"
proof -
  have d: "\<exists>q. d = Fin q \<and> 0 < q" if "pc_lease_s c = Some d" for d using assms(3) that by (auto simp: check_cue_def)
  have "fle (Fin now) (fadd (Fin now) d)" if "pc_lease_s c = Some d" for d
    using d [OF that] fadd_ge [OF assms(2)] by fastforce
  then have "\<not> flt (fadd (Fin now) d) (Fin now)" if "pc_lease_s c = Some d" for d using that by (simp add: flt_def)
  then show ?thesis
    using assms(1) by (auto simp: install_lease_def Let_def case_prod_beta check_lease_def expiry_of_def
        require_expiry_def require_finite_def optionally_def split: option.splits if_splits)
qed

lemma preempted_trace: "trace_ok s (fst (preempted s c now)) (snd (preempted s c now))"
  unfolding preempted_def by (rule stop_leases_trace)

lemma preempted_frame [simp]: "fixed_part (snd (preempted s c now)) = fixed_part s"
  by (simp add: preempted_def)

lemma take_over_good:
  assumes "sched_inv nid s" "startable nid s c" "pc_generation c = sc_generation s" "sc_connected s" "is_double now"
  shows "good nid s sr_events (take_over s c (Fin now))"
proof -
  let ?t = "snd (preempted s c (Fin now))" and ?r = "take_over s c (Fin now)"
  let ?i = "install_lease ?t c (Fin now) (expiry_of c (Fin now))"
  note fp = fixed_partD [OF preempted_frame, of s c "Fin now"]
  have "trace_ok s (case fst ?r of Inl e \<Rightarrow> [] | Inr x \<Rightarrow> sr_events x) (snd ?r) \<and>
    (\<forall>e. fst ?r = Inl e \<longrightarrow> e = Lease_failed (Not_finite ''expires_at''))"
  proof (cases "fst ?i")
    case (Inl e)
    then have "snd ?i = ?t" by (rule install_lease_fails)
    then have "trace_ok s [] (snd ?i)" using preempted_trace [of s c "Fin now"] by (simp add: trace_ok_def)
    then show ?thesis
      using Inl install_lease_error [OF Inl assms(5)] assms(2) by (simp add: take_over_alt Let_def startable_def)
  next
    case (Inr ev)
    have "trace_ok ?t [ev] (snd ?i)" by (rule install_lease_trace [OF _ Inr]) (simp add: fp assms(3))
    from trace_append [OF preempted_trace this] have "trace_ok s (fst (preempted s c (Fin now)) @ [ev]) (snd ?i)" .
    then have "trace_ok s (fst (preempted s c (Fin now)) @ [ev]) (record_limits (snd ?i) c (Fin now))"
      by (rule trace_cong(1)) (simp_all add: fixed_partD(1) [OF record_limits_frame(1)])
    then show ?thesis using Inr by (simp add: take_over_alt Let_def result_def)
  qed
  then show ?thesis
    using take_over_inv [OF assms(1-4)] fixed_partD [OF take_over_frame, of s c "Fin now"] assms(4) by (simp add: good_def)
qed

lemma attempt_start_good:
  assumes "sched_inv nid s" "startable nid s c" "is_double now"
  shows "good nid s sr_events (attempt_start s c (Fin now))"
proof -
  let ?l = "snd (check_limits s c (Fin now))"
  note fp = fixed_partD [OF check_limits_frame(1), of s c "Fin now"]
  show ?thesis
  proof (cases rule: attempt_start_cases [where s = s and c = c and now = "Fin now"])
    case refused
    then show ?thesis using assms(1) by (simp add: good_def trace_refl result_def)
  next
    case limited
    then show ?thesis using check_limits_inv [OF assms(1)] by (simp add: good_def trace_refl result_def fp)
  next
    case started
    have "good nid ?l sr_events (take_over ?l c (Fin now))"
      by (rule take_over_good [OF check_limits_inv [OF assms(1)] _ _ _ assms(3)])
        (use assms(2) started in \<open>simp_all add: fp startable_def\<close>)
    then show ?thesis
      unfolding good_def started(1) by (simp add: fp trace_ok_def)
  qed
qed

lemma goodD:
  assumes "good nid s f r"
  shows "sched_inv nid (snd r)" "trace_ok s (case fst r of Inl e \<Rightarrow> [] | Inr x \<Rightarrow> f x) (snd r)"
    "\<And>e. fst r = Inl e \<Longrightarrow> e = Lease_failed (Not_finite ''expires_at'')"
    "sc_neutral_factory (snd r) = sc_neutral_factory s" "sc_policy (snd r) = sc_policy s"
    "sc_connected s \<Longrightarrow> sc_connected (snd r)"
  using assms by (simp_all add: good_def)

text \<open>A step that goes on after another one returned, and stops when that one raised.\<close>

definition chain_step ::
  "(scheduler_error + 'a) \<times> scheduler \<Rightarrow> ('a \<Rightarrow> scheduler \<Rightarrow> (scheduler_error + 'b) \<times> scheduler) \<Rightarrow>
   (scheduler_error + 'b) \<times> scheduler" where
  "chain_step r k = (case fst r of Inl e \<Rightarrow> (Inl e, snd r) | Inr x \<Rightarrow> k x (snd r))"

lemma good_chain:
  assumes r: "good nid s f r"
    and k: "\<And>x. fst r = Inr x \<Longrightarrow> good nid (snd r) (\<lambda>y. g y) (k x (snd r))"
    and h: "\<And>x y. fst r = Inr x \<Longrightarrow> fst (k x (snd r)) = Inr y \<Longrightarrow> h y = f x @ g y"
  shows "good nid s h (chain_step r k)"
proof (cases "fst r")
  case (Inl e)
  then show ?thesis using r by (simp add: chain_step_def good_def)
next
  case (Inr x)
  note R = goodD [OF r] and K = goodD [OF k [OF Inr]]
  have t: "trace_ok s (f x) (snd r)" using R(2) Inr by simp
  have "trace_ok s (case fst (k x (snd r)) of Inl e \<Rightarrow> [] | Inr y \<Rightarrow> h y) (snd (k x (snd r)))"
  proof (cases "fst (k x (snd r))")
    case (Inl e)
    then show ?thesis using t K(2) by (simp add: trace_ok_def)
  next
    case (Inr y)
    then show ?thesis using trace_append [OF t] K(2) h [OF \<open>fst r = Inr x\<close> Inr] by simp
  qed
  then show ?thesis using R K Inr by (simp add: chain_step_def good_def)
qed

text \<open>Events that were emitted before the step.\<close>

lemma good_after:
  assumes "good nid t f r" "trace_ok s evs t" "sc_neutral_factory t = sc_neutral_factory s" "sc_policy t = sc_policy s"
    "sc_connected s \<Longrightarrow> sc_connected t"
    and "\<And>x. fst r = Inr x \<Longrightarrow> h x = evs @ f x"
  shows "good nid s h r"
proof -
  note R = goodD [OF assms(1)]
  have "trace_ok s (case fst r of Inl e \<Rightarrow> [] | Inr x \<Rightarrow> h x) (snd r)"
  proof (cases "fst r")
    case (Inl e)
    then show ?thesis using assms(2) R(2) by (simp add: trace_ok_def)
  next
    case (Inr x)
    then show ?thesis using trace_append [OF assms(2)] R(2) assms(6) by simp
  qed
  then show ?thesis using R assms(3-5) by (simp add: good_def)
qed

section \<open>Neutral cues\<close>

text \<open>
  What the scheduler relies on in its neutral factory: for a valid provider it never fails,
  and it returns a neutral cue of the layer and generation under an identity of their own.
\<close>

locale neutral_provider =
  fixes valid :: "'d \<Rightarrow> bool"
    and factory :: "'d \<Rightarrow> neutral_factory"
    and nid :: "PresentationLayer \<Rightarrow> int \<Rightarrow> pystr"
  assumes factory_ok: "valid d \<Longrightarrow> 0 \<le> g \<Longrightarrow> isfinite t \<Longrightarrow>
      \<exists>c. factory d l g t = Inr c \<and> pc_cue_id c = nid l g \<and> pc_layer c = l \<and> pc_generation c = g \<and> pc_neutral c"
    and nid_inj: "nid l g = nid l' g \<Longrightarrow> l = l'"
begin

definition served :: "scheduler \<Rightarrow> bool" where
  "served s \<longleftrightarrow> (\<forall>f. sc_neutral_factory s = Some f \<longrightarrow> (\<exists>d. valid d \<and> f = factory d))"

lemma install_neutral_succeeds: "isfinite now \<Longrightarrow> \<exists>ev. fst (install_lease s c now None) = Inr ev"
  by (simp add: install_lease_def Let_def case_prod_beta check_lease_def optionally_def require_finite_def)

lemma restore_layers_good:
  assumes "valid d" "isfinite now"
  shows "sched_inv nid s \<Longrightarrow> sc_connected s \<Longrightarrow>
    (\<exists>evs. fst (restore_layers s (factory d) now ls) = Inr evs) \<and> good nid s id (restore_layers s (factory d) now ls)"
proof (induction ls arbitrary: s)
  case Nil
  then show ?case by (simp add: good_def trace_refl)
next
  case (Cons l ls)
  let ?n = "s\<lparr>sc_needs_neutral := sc_needs_neutral s - {l}\<rparr>"
  have inv_n: "sched_inv nid ?n" by (rule sched_inv_cong [OF Cons.prems(1)]) simp_all
  have g0: "0 \<le> sc_generation s" and ok: "leases_ok (\<lambda>l. nid l (sc_generation s)) s" and pok: "pending_ok nid s"
    using Cons.prems(1) by (simp_all add: sched_inv_def)
  obtain c where c: "factory d l (sc_generation s) now = Inr c" "pc_cue_id c = nid l (sc_generation s)" "pc_layer c = l"
    "pc_generation c = sc_generation s" "pc_neutral c"
    using factory_ok [OF assms(1) g0 assms(2), of l] by blast
  consider (taken) "map_of (sc_active_by_layer s) l \<noteq> None"
    | (blocked) "map_of (sc_active_by_layer s) l = None" "conflicting_leases s c \<noteq> []"
    | (free) "map_of (sc_active_by_layer s) l = None" "conflicting_leases s c = []" by blast
  then show ?case
  proof cases
    case taken
    then show ?thesis using Cons.IH [OF inv_n] Cons.prems(2) by (simp add: good_def trace_ok_def)
  next
    case blocked
    then show ?thesis using Cons.IH [OF Cons.prems] c by simp
  next
    case free
    let ?r = "install_lease s c now None"
    obtain ev where ev: "fst ?r = Inr ev" using install_neutral_succeeds [OF assms(2)] by blast
    have fresh: "map_of (sc_active s) (pc_cue_id c) = None"
      using leases_okD(3,4) [OF ok] free(1) c(2) by (metis not_None_eq)
    have unpending: "map_of (sc_pending s) (pc_cue_id c) = None"
      using pok c(2) by (metis not_None_eq pending_ok_def)
    have noconf: "\<forall>i m. map_of (sc_active s) i = Some m \<longrightarrow> \<not> conflicts_with c m"
    proof (intro allI impI)
      fix i m assume "map_of (sc_active s) i = Some m"
      then have "m \<in> snd ` set (sc_active s)" by (force dest: map_of_SomeD)
      moreover have "set (conflicting_leases s c) = {}" using free(2) by simp
      ultimately show "\<not> conflicts_with c m" unfolding set_conflicting_leases by blast
    qed
    have inj: "\<forall>L. pc_cue_id c = nid L (sc_generation s) \<longrightarrow> pc_layer c = L" using nid_inj c(2,3) by metis
    have inv: "sched_inv nid (snd ?r)"
      by (rule install_lease_inv [OF Cons.prems(1) fresh unpending c(4) inj noconf Cons.prems(2)])
    note fp = fixed_partD [OF install_lease_frame, of s c now None]
    have tr: "trace_ok s [ev] (snd ?r)" by (rule install_lease_trace [OF c(4) ev])
    from Cons.IH [OF inv] obtain evs where evs: "fst (restore_layers (snd ?r) (factory d) now ls) = Inr evs"
      and good: "good nid (snd ?r) id (restore_layers (snd ?r) (factory d) now ls)" using fp Cons.prems(2) by auto
    have "restore_layers s (factory d) now (l # ls) = (Inr (ev # evs), snd (restore_layers (snd ?r) (factory d) now ls))"
      using free c ev evs by (simp add: case_sum_pair)
    then show ?thesis
      using good_after [OF good tr, of "\<lambda>x. ev # x"] fp evs by (simp add: good_def)
  qed
qed

lemma restore_neutrals_good:
  assumes "sched_inv nid s" "served s" "isfinite now"
  shows "(\<exists>evs. fst (restore_neutrals s now) = Inr evs) \<and> good nid s id (restore_neutrals s now)"
proof (cases "sc_neutral_factory s = None \<or> \<not> sc_connected s")
  case True
  then have "restore_neutrals s now = (Inr [], s)" by (auto simp: restore_neutrals_def split: option.splits)
  then show ?thesis using assms(1) by (simp add: good_def trace_refl)
next
  case False
  then obtain f d where "sc_neutral_factory s = Some f" "sc_connected s" "valid d" "f = factory d"
    using assms(2) by (auto simp: served_def)
  then show ?thesis using restore_layers_good [OF _ assms(3,1)] by (simp add: restore_neutrals_def)
qed

lemma finish_with_good:
  assumes "sched_inv nid t" "served t" "isfinite now" "trace_ok s evs t" "sc_neutral_factory t = sc_neutral_factory s"
    "sc_policy t = sc_policy s" "sc_connected s \<Longrightarrow> sc_connected t" "\<And>es. h (f es) = es"
  shows "good nid s h (finish_with t now evs f)"
proof -
  from restore_neutrals_good [OF assms(1-3)] obtain more_evs where
    m: "fst (restore_neutrals t now) = Inr more_evs" "good nid t id (restore_neutrals t now)" by blast
  have f: "finish_with t now evs f = (Inr (f (evs @ more_evs)), snd (restore_neutrals t now))"
    by (simp add: finish_with_def case_sum_pair m(1))
  have "good nid t (\<lambda>_. more_evs) (finish_with t now evs f)" using m by (simp add: good_def f)
  then show ?thesis by (rule good_after) (use assms in \<open>auto simp: f\<close>)
qed

end

section \<open>Operations\<close>

lemma pending_okD:
  assumes "pending_ok nid s" "map_of (sc_pending s) i = Some p"
  shows "pc_cue_id (pn_cue p) = i" "pc_generation (pn_cue p) = sc_generation s" "map_of (sc_active s) i = None"
    "\<forall>l g. i \<noteq> nid l g" "check_cue (pn_cue p) = None"
  using assms unfolding pending_ok_def by blast+

lemma update_append: "map_of xs k = None \<Longrightarrow> AList.update k v xs = xs @ [(k, v)]"
  by (induction xs) auto

lemma pending_startable:
  assumes "sched_inv nid s" "map_of (sc_pending s) (pc_cue_id (pn_cue p)) = Some p"
  shows "startable nid (s\<lparr>sc_pending := AList.delete (pc_cue_id (pn_cue p)) (sc_pending s)\<rparr>) (pn_cue p)"
proof -
  have "pending_ok nid s" using assms(1) by (simp add: sched_inv_def)
  from pending_okD [OF this assms(2)] show ?thesis by (simp add: startable_def AList.delete_conv' del: map_of_eq_None_iff)
qed

lemma pending_filter_inv:
  assumes "sched_inv nid s"
  shows "sched_inv nid (s\<lparr>sc_pending := filter P (sc_pending s)\<rparr>)"
  using assms pending_ok_filter [of nid s P] by (auto simp: sched_inv_def leases_ok_def)

lemma pending_delete_inv:
  "sched_inv nid s \<Longrightarrow> sched_inv nid (s\<lparr>sc_pending := AList.delete i (sc_pending s)\<rparr>)"
  by (simp add: delete_filter pending_filter_inv)

lemma start_all_alt:
  "start_all s now (p # ps) =
     (if map_of (sc_pending s) (pc_cue_id (pn_cue p)) = None then start_all s now ps
      else chain_step (attempt_start (s\<lparr>sc_pending := AList.delete (pc_cue_id (pn_cue p)) (sc_pending s)\<rparr>) (pn_cue p) now)
             (\<lambda>r t. (case fst (start_all t now ps) of
                        Inl e \<Rightarrow> (Inl e, snd (start_all t now ps))
                      | Inr rs \<Rightarrow> (Inr (r # rs), snd (start_all t now ps)))))"
  by (simp add: chain_step_def case_sum_pair split: sum.splits)

lemma start_all_good:
  assumes "is_double now"
  shows "sched_inv nid s \<Longrightarrow> \<forall>p \<in> set ps. map_of (sc_pending s) (pc_cue_id (pn_cue p)) \<in> {None, Some p} \<Longrightarrow>
    good nid s (\<lambda>rs. concat (map sr_events rs)) (start_all s (Fin now) ps)"
proof (induction ps arbitrary: s)
  case Nil
  then show ?case by (simp add: good_def trace_refl)
next
  case (Cons p ps)
  let ?i = "pc_cue_id (pn_cue p)"
  show ?case
  proof (cases "map_of (sc_pending s) ?i = None")
    case True
    then show ?thesis using Cons by simp
  next
    case False
    then have p: "map_of (sc_pending s) ?i = Some p" using Cons.prems(2) by auto
    let ?s = "s\<lparr>sc_pending := AList.delete ?i (sc_pending s)\<rparr>"
    let ?r = "attempt_start ?s (pn_cue p) (Fin now)"
    have inv: "sched_inv nid ?s" by (rule pending_delete_inv [OF Cons.prems(1)])
    have good: "good nid ?s sr_events ?r"
      by (rule attempt_start_good [OF inv pending_startable [OF Cons.prems(1) p] assms])
    have "\<forall>q \<in> set ps. map_of (sc_pending (snd ?r)) (pc_cue_id (pn_cue q)) \<in> {None, Some q}"
      using Cons.prems(2) fixed_partD(5) [OF attempt_start_frame, of ?s "pn_cue p" "Fin now"]
      by (auto simp: AList.delete_conv')
    then have rest: "good nid (snd ?r) (\<lambda>rs. concat (map sr_events rs)) (start_all (snd ?r) (Fin now) ps)"
      by (rule Cons.IH [OF goodD(1) [OF good]])
    have "good nid ?s (\<lambda>rs. concat (map sr_events rs)) (start_all s (Fin now) (p # ps))"
      unfolding start_all_alt if_not_P [OF False]
      by (rule good_chain [OF good, where g = "\<lambda>rs. concat (map sr_events (tl rs))"])
        (use rest in \<open>auto simp: good_def split: sum.splits\<close>)
    then show ?thesis by (rule good_after [where evs = "[]"]) (auto intro: trace_refl)
  qed
qed

lemma start_due_good:
  assumes "is_double now" "sched_inv nid s"
  shows "good nid s (\<lambda>rs. concat (map sr_events rs)) (start_due s (Fin now))"
proof -
  have "map_of (sc_pending s) (pc_cue_id (pn_cue p)) = Some p" if "p \<in> snd ` set (sc_pending s)" for p
  proof -
    from that obtain q where q: "p = snd q" "q \<in> set (sc_pending s)" by (rule imageE)
    have ok: "pending_ok nid s" using assms(2) by (simp add: sched_inv_def)
    have "distinct (map fst (sc_pending s))" using ok by (simp add: pending_ok_def)
    then have "map_of (sc_pending s) (fst q) = Some p" using q by simp
    then show ?thesis using pending_okD(1) [OF ok] by metis
  qed
  then show ?thesis unfolding start_due_def by (intro start_all_good [OF assms]) auto
qed

lemma expire_frame:
  "sc_generation (snd (expire s now)) = sc_generation s" "sc_policy (snd (expire s now)) = sc_policy s"
  "sc_neutral_factory (snd (expire s now)) = sc_neutral_factory s" "sc_connected (snd (expire s now)) = sc_connected s"
  "sc_audio_markers (snd (expire s now)) = sc_audio_markers s"
  by (simp_all add: expire_def Let_def case_prod_beta fixed_partD [OF stop_leases_frame])

definition pend :: "scheduler \<Rightarrow> PresentationCue \<Rightarrow> pyfloat option \<Rightarrow> scheduler" where
  "pend s cue due = s\<lparr>sc_sequence := sc_sequence s + 1,
     sc_pending := AList.update (pc_cue_id cue) \<lparr>pn_cue = cue, pn_sequence = sc_sequence s + 1, pn_due_at = due\<rparr> (sc_pending s)\<rparr>"

lemma submit_cue_alt:
  assumes "isfinite now"
  shows "submit_cue s0 cue now =
    (let evs = fst (expire s0 now); s = snd (expire s0 now)
     in (case validate_submission s cue now of
           Some st \<Rightarrow> finish_with s now evs (\<lambda>es. result st cue es (Some (Detail_text (status_detail st))))
         | None \<Rightarrow>
             (case pc_audio_binding cue of
                None \<Rightarrow> start_and_finish s cue now evs
              | Some b \<Rightarrow>
                  (let due = map_option (\<lambda>m. fadd (am_occurred_at m) (ab_offset_s b))
                               (map_of (sc_audio_markers s) (the (audio_key cue)))
                   in if sp_max_pending (sc_policy s) \<le> int (length (sc_pending s)) then
                        finish_with s now evs (\<lambda>es. result REJECTED_QUEUE_FULL cue es
                          (Some (Detail_text (lit ''audio-bound cue queue is full''))))
                      else
                        (case due of
                           None \<Rightarrow> finish_with (pend s cue due) now evs (\<lambda>es. result Sched_PENDING_AUDIO cue es
                             (Some (Detail_text (lit ''waiting for audio marker''))))
                         | Some t \<Rightarrow>
                             if flt now t then
                               finish_with (pend s cue due) now evs (\<lambda>es. result Sched_PENDING_AUDIO cue es
                                 (Some (Detail_bound_for t)))
                             else
                               start_and_finish
                                 ((pend s cue due)\<lparr>sc_pending := AList.delete (pc_cue_id cue) (sc_pending (pend s cue due))\<rparr>)
                                 cue now evs)))))"
  using assms
  by (simp add: submit_cue_def Let_def case_prod_beta audio_key_def next_sequence_def pend_def map_option_case
      del: lit_simps split: option.splits)

lemma validate_submission_None:
  assumes "validate_submission s c now = None"
  shows "sc_connected s" "pc_generation c = sc_generation s" "map_of (sc_active s) (pc_cue_id c) = None"
    "map_of (sc_pending s) (pc_cue_id c) = None"
  using assms by (auto simp: validate_submission_def split: if_splits)

lemma pend_inv:
  assumes "sched_inv nid s" "startable nid s c" "pc_generation c = sc_generation s" "sc_connected s"
    "int (length (sc_pending s)) < sp_max_pending (sc_policy s)"
  shows "sched_inv nid (pend s c due)"
proof -
  have "AList.update (pc_cue_id c) p (sc_pending s) = sc_pending s @ [(pc_cue_id c, p)]" for p
    by (rule update_append) (use assms(2) in \<open>simp add: startable_def\<close>)
  then have l: "length (AList.update (pc_cue_id c) p (sc_pending s)) = Suc (length (sc_pending s))" for p by simp
  have "pending_ok nid s" using assms(1) by (simp add: sched_inv_def)
  then have "pending_ok nid (pend s c due)"
    using assms(2,3,5) by (simp add: pending_ok_def pend_def startable_def AList.update_conv' AList.distinct_update l
        del: map_of_eq_None_iff)
  then show ?thesis
    using assms(1,4) by (simp add: sched_inv_def leases_ok_def pend_def)
qed

text \<open>
  One step of a scheduler: an operation with the clock value it reads. The result is the list
  of events the operation returns, whatever type wraps it.
\<close>

datatype sched_op =
  Op_submit PresentationCue | Op_audio AudioTimelineMarker | Op_tick | Op_advance int
| Op_cancel pystr StopReason | Op_reset | Op_disconnect StopReason | Op_reconnect

definition events_of :: "('a \<Rightarrow> PresentationEvent list) \<Rightarrow> (scheduler_error + 'a) \<times> scheduler \<Rightarrow>
    (scheduler_error + PresentationEvent list) \<times> scheduler" where
  "events_of f r = (map_sum id f (fst r), snd r)"

fun sched_step :: "scheduler \<Rightarrow> sched_op \<times> pyfloat \<Rightarrow> (scheduler_error + PresentationEvent list) \<times> scheduler" where
  "sched_step s (Op_submit c, now) = events_of sr_events (submit_cue s c now)"
| "sched_step s (Op_audio m, now) = events_of sb_events (notify_audio s m now)"
| "sched_step s (Op_tick, now) = events_of sb_events (tick s now)"
| "sched_step s (Op_advance g, now) = advance_generation s g now"
| "sched_step s (Op_cancel i r, now) = cancel_cue s i r now"
| "sched_step s (Op_reset, now) = reset_to_neutral s now"
| "sched_step s (Op_disconnect r, now) = disconnect s r now"
| "sched_step s (Op_reconnect, now) = reconnect s now"

text \<open>
  What a caller must respect: cues are valid values and keep off the identities reserved for
  neutral cues; the clock returns a binary64 number.
\<close>

fun op_ok :: "(PresentationLayer \<Rightarrow> int \<Rightarrow> pystr) \<Rightarrow> sched_op \<times> pyfloat \<Rightarrow> bool" where
  "op_ok nid (Op_submit c, now) \<longleftrightarrow> double now \<and> check_cue c = None \<and> (\<forall>l g. pc_cue_id c \<noteq> nid l g)"
| "op_ok nid (_, now) \<longleftrightarrow> double now"

lemma good_events_of: "good nid s f r \<Longrightarrow> good nid s id (events_of f r)"
  by (auto simp: good_def events_of_def split: sum.splits)

lemma drop_length_bound: "int (length (keep_newest n xs)) \<le> max 0 n"
  by (simp add: keep_newest_def)

lemma bind_pending_cue [simp]: "pn_cue (bind_pending m p) = pn_cue p"
  by (simp add: bind_pending_def split: option.splits)

lemma map_of_map_snd: "map_of (map (\<lambda>p. (fst p, f (snd p))) xs) i = map_option f (map_of xs i)"
  by (induction xs) auto

lemma bind_inv:
  assumes "sched_inv nid s"
  shows "sched_inv nid (s\<lparr>sc_audio_markers := keep_newest (sp_max_audio_markers (sc_policy s)) ms,
     sc_pending := map (\<lambda>p. (fst p, bind_pending m (snd p))) (sc_pending s)\<rparr>)"
proof -
  have "pending_ok nid (s\<lparr>sc_audio_markers := ms', sc_pending := map (\<lambda>p. (fst p, bind_pending m (snd p))) (sc_pending s)\<rparr>)" for ms'
  proof -
    have "pending_ok nid s" using assms by (simp add: sched_inv_def)
    then show ?thesis
      unfolding pending_ok_def by (auto simp: map_of_map_snd comp_def simp del: map_of_eq_None_iff map_of_eq_Some_iff)
  qed
  moreover have "int (length (keep_newest (sp_max_audio_markers (sc_policy s)) ms)) \<le> sp_max_audio_markers (sc_policy s)"
    using drop_length_bound [of "sp_max_audio_markers (sc_policy s)" ms] assms by (simp add: sched_inv_def check_policy_def)
  ultimately show ?thesis using assms by (simp add: sched_inv_def leases_ok_def)
qed

context neutral_provider
begin

lemma served_cong: "served s \<Longrightarrow> sc_neutral_factory t = sc_neutral_factory s \<Longrightarrow> served t"
  by (simp add: served_def)

lemma start_and_finish_good:
  assumes "sched_inv nid t" "served t" "is_double now" "startable nid t c" "trace_ok s evs t"
    "sc_neutral_factory t = sc_neutral_factory s" "sc_policy t = sc_policy s" "sc_connected s \<Longrightarrow> sc_connected t"
  shows "good nid s sr_events (start_and_finish t c (Fin now) evs)"
proof -
  let ?r = "attempt_start t c (Fin now)"
  have good: "good nid t sr_events ?r" by (rule attempt_start_good [OF assms(1,4,3)])
  have r: "good nid s (\<lambda>x. evs @ sr_events x) ?r" by (rule good_after [OF good assms(5-7)]) (auto intro: assms(8))
  note R = goodD [OF good] and S = goodD [OF r]
  show ?thesis
  proof (cases "fst ?r")
    case (Inl e)
    then show ?thesis using r by (simp add: start_and_finish_def case_sum_pair good_def)
  next
    case (Inr x)
    have "good nid s sr_events (finish_with (snd ?r) (Fin now) (evs @ sr_events x)
        (\<lambda>es. result (sr_status x) c es (sr_detail x)))"
      by (rule finish_with_good) (use R S Inr assms(2) in \<open>auto simp: result_def intro: served_cong\<close>)
    then show ?thesis using Inr by (simp add: start_and_finish_def case_sum_pair)
  qed
qed

lemma submit_good:
  assumes "sched_inv nid s0" "served s0" "is_double now" "op_ok nid (Op_submit c, Fin now)"
  shows "good nid s0 sr_events (submit_cue s0 c (Fin now))"
proof -
  let ?s = "snd (expire s0 (Fin now))" and ?evs = "fst (expire s0 (Fin now))"
  note fr = expire_frame [of s0 "Fin now"]
  have inv: "sched_inv nid ?s" by (rule expire_inv) fact
  have sv: "served ?s" by (rule served_cong [OF assms(2)]) (rule fr)
  have fin: "good nid s0 sr_events (finish_with t (Fin now) ?evs (\<lambda>es. result st c es d))"
    if "sched_inv nid t" "sc_neutral_factory t = sc_neutral_factory ?s" "sc_policy t = sc_policy ?s"
      "sc_connected t = sc_connected ?s" "sc_generation t = sc_generation ?s" "sc_sequence ?s \<le> sc_sequence t" for t st d
    by (rule finish_with_good [OF that(1)])
      (use that sv fr trace_append [OF expire_trace trace_refl, of t s0 "Fin now"]
        in \<open>auto simp: result_def intro: served_cong\<close>)
  have start: "good nid s0 sr_events (start_and_finish t c (Fin now) ?evs)"
    if "sched_inv nid t" "startable nid t c" "sc_neutral_factory t = sc_neutral_factory ?s" "sc_policy t = sc_policy ?s"
      "sc_connected t = sc_connected ?s" "sc_generation t = sc_generation ?s" "sc_sequence ?s \<le> sc_sequence t" for t
    by (rule start_and_finish_good [OF that(1) _ assms(3) that(2)])
      (use that sv fr trace_append [OF expire_trace trace_refl, of t s0 "Fin now"] in \<open>auto intro: served_cong\<close>)
  have f: "isfinite (Fin now)" by simp
  show ?thesis
  proof (cases "validate_submission ?s c (Fin now)")
    case (Some st)
    then show ?thesis using fin [OF inv] by (simp add: submit_cue_alt Let_def)
  next
    case None
    note V = validate_submission_None [OF None]
    have st: "startable nid ?s c" using V assms(4) by (simp add: startable_def)
    show ?thesis
    proof (cases "pc_audio_binding c")
      case None
      then show ?thesis using start [OF inv st] \<open>validate_submission _ _ _ = None\<close> by (simp add: submit_cue_alt Let_def)
    next
      case (Some b)
      show ?thesis
      proof (cases "sp_max_pending (sc_policy ?s) \<le> int (length (sc_pending ?s))")
        case True
        then show ?thesis using fin [OF inv] None Some by (simp add: submit_cue_alt Let_def)
      next
        case False
        have p: "sched_inv nid (pend ?s c due)" for due by (rule pend_inv [OF inv st V(2,1)]) (use False in simp)
        let ?u = "\<lambda>due. (pend ?s c due)\<lparr>sc_pending := AList.delete (pc_cue_id c) (sc_pending (pend ?s c due))\<rparr>"
        have "startable nid (?u due) c" for due using st by (simp add: startable_def pend_def AList.delete_conv')
        then have "good nid s0 sr_events (start_and_finish (?u due) c (Fin now) ?evs)" for due
          by (rule start [OF pending_delete_inv [OF p]]) (simp_all add: pend_def)
        moreover have "good nid s0 sr_events (finish_with (pend ?s c due) (Fin now) ?evs (\<lambda>es. result st' c es d))" for st' d due
          by (rule fin [OF p]) (simp_all add: pend_def)
        ultimately show ?thesis
          using None Some False unfolding submit_cue_alt [OF f] Let_def
          by (simp del: lit_simps split: option.splits)
      qed
    qed
  qed
qed

lemma start_due_and_finish_good:
  assumes "sched_inv nid t" "served t" "is_double now" "trace_ok s evs t"
    "sc_neutral_factory t = sc_neutral_factory s" "sc_policy t = sc_policy s" "sc_connected s \<Longrightarrow> sc_connected t"
  shows "good nid s sb_events (start_due_and_finish t (Fin now) evs)"
proof -
  let ?r = "start_due t (Fin now)"
  have good: "good nid t (\<lambda>rs. concat (map sr_events rs)) ?r" by (rule start_due_good [OF assms(3,1)])
  have r: "good nid s (\<lambda>rs. evs @ concat (map sr_events rs)) ?r" by (rule good_after [OF good assms(4-6)]) (auto intro: assms(7))
  note R = goodD [OF good] and S = goodD [OF r]
  show ?thesis
  proof (cases "fst ?r")
    case (Inl e)
    then show ?thesis using r by (simp add: start_due_and_finish_def case_sum_pair good_def)
  next
    case (Inr x)
    have "good nid s sb_events (finish_with (snd ?r) (Fin now) (evs @ concat (map sr_events x))
        (\<lambda>es. \<lparr>sb_results = x, sb_events = es\<rparr>))"
      by (rule finish_with_good) (use R S Inr assms(2) in \<open>auto intro: served_cong\<close>)
    then show ?thesis using Inr by (simp add: start_due_and_finish_def case_sum_pair)
  qed
qed

lemma tick_good:
  assumes "sched_inv nid s" "served s" "is_double now"
  shows "good nid s sb_events (tick s (Fin now))"
proof -
  have "good nid s sb_events (start_due_and_finish (snd (expire s (Fin now))) (Fin now) (fst (expire s (Fin now))))"
    by (rule start_due_and_finish_good [OF expire_inv [OF assms(1)] _ assms(3) expire_trace])
      (use assms(2) in \<open>auto simp: expire_frame intro: served_cong\<close>)
  then show ?thesis by (simp add: tick_def case_prod_beta)
qed

lemma audio_good:
  assumes "sched_inv nid s" "served s" "is_double now"
  shows "good nid s sb_events (notify_audio s m (Fin now))"
proof (cases "\<not> sc_connected s \<or> am_generation m \<noteq> sc_generation s")
  case True
  then show ?thesis using assms(1) by (auto simp: notify_audio_def good_def trace_refl)
next
  case False
  let ?s = "snd (expire s (Fin now))" and ?evs = "fst (expire s (Fin now))"
  let ?ms = "AList.delete (marker_key m) (sc_audio_markers ?s) @ [(marker_key m, m)]"
  let ?t = "?s\<lparr>sc_audio_markers := keep_newest (sp_max_audio_markers (sc_policy ?s)) ?ms,
     sc_pending := map (\<lambda>p. (fst p, bind_pending m (snd p))) (sc_pending ?s)\<rparr>"
  have inv: "sched_inv nid ?t" by (rule bind_inv [OF expire_inv [OF assms(1)]])
  have "good nid s sb_events (start_due_and_finish ?t (Fin now) ?evs)"
    by (rule start_due_and_finish_good [OF inv _ assms(3)])
      (use assms(2) trace_cong(1) [OF expire_trace] in \<open>auto simp: expire_frame intro: served_cong\<close>)
  then show ?thesis using False by (simp add: notify_audio_def Let_def case_prod_beta)
qed

end

section \<open>Clearing all leases\<close>

lemma stop_leases_cong:
  assumes "sc_active s = sc_active t" "sc_active_by_layer s = sc_active_by_layer t"
  shows "sc_active (snd (stop_leases s now r b mark ls)) = sc_active (snd (stop_leases t now r b mark ls)) \<and>
    sc_active_by_layer (snd (stop_leases s now r b mark ls)) = sc_active_by_layer (snd (stop_leases t now r b mark ls))"
  using assms
proof (induction ls arbitrary: s t)
  case (Cons l ls)
  have "sc_active (snd (remove_active s i)) = sc_active (snd (remove_active t i)) \<and>
      sc_active_by_layer (snd (remove_active s i)) = sc_active_by_layer (snd (remove_active t i))" for i
    using Cons.prems by (simp add: remove_active_def split: option.splits)
  then show ?case
    unfolding stop_leases.simps Let_def case_prod_beta snd_conv by (intro Cons.IH) simp_all
qed simp

lemma set_sorted_active [simp]: "set (sorted_active s) = snd ` set (sc_active s)"
  by (simp add: sorted_active_def)

lemma stop_all:
  assumes "leases_ok nid s" "sc_active t = sc_active s" "sc_active_by_layer t = sc_active_by_layer s"
  shows "sc_active (snd (stop_leases t now r b mark (sorted_active t))) = [] \<and>
    sc_active_by_layer (snd (stop_leases t now r b mark (sorted_active t))) = []"
proof -
  let ?u = "snd (stop_leases s now r b mark (sorted_active s))"
  have "map_of (sc_active ?u) i = None" for i
  proof (cases "map_of (sc_active s) i")
    case (Some l)
    have "l \<in> set (sorted_active s)" using map_of_SomeD [OF Some] by force
    moreover have "i = pc_cue_id (al_cue l)" using leases_okD(2) [OF assms(1) Some] by simp
    ultimately have "i \<in> (\<lambda>l. pc_cue_id (al_cue l)) ` set (sorted_active s)" by (rule rev_image_eqI)
    then show ?thesis by (simp only: map_of_stop_leases if_True)
  qed (simp add: map_of_stop_leases)
  then have a: "sc_active ?u = []" using map_of_Nil_iff by blast
  have "leases_ok nid ?u" by (rule stop_leases_ok [OF assms(1)])
  then have "map_of (sc_active_by_layer ?u) L \<noteq> Some i" for L i using leases_okD(4) a by fastforce
  then have "\<forall>L. map_of (sc_active_by_layer ?u) L = None" by (metis not_None_eq)
  then have "sc_active_by_layer ?u = []" using map_of_Nil_iff by blast
  moreover have "sorted_active t = sorted_active s" by (simp add: sorted_active_def assms(2))
  ultimately show ?thesis using a stop_leases_cong [OF assms(2,3), of now r b mark] by metis
qed

lemma cleared_inv:
  assumes "sc_active t = []" "sc_active_by_layer t = []" "sc_pending t = []" "0 \<le> sc_generation t"
    "check_policy (sc_policy t)" "int (length (sc_audio_markers t)) \<le> sp_max_audio_markers (sc_policy t)"
  shows "sched_inv nid t"
  using assms by (simp add: sched_inv_def leases_ok_def pending_ok_def check_policy_def)

definition allowed_errors :: "scheduler_error set" where
  "allowed_errors = {Clock_not_finite, Generation_backwards, Bad_disconnect_reason, Lease_failed (Not_finite ''expires_at'')}"

text \<open>What every operation keeps, those that change the generation or the connection included.\<close>

definition step_good ::
  "(PresentationLayer \<Rightarrow> int \<Rightarrow> pystr) \<Rightarrow> scheduler \<Rightarrow> (scheduler_error + PresentationEvent list) \<times> scheduler \<Rightarrow> bool" where
  "step_good nid s r \<longleftrightarrow> sched_inv nid (snd r) \<and> sc_generation s \<le> sc_generation (snd r) \<and>
     trace_ok (s\<lparr>sc_generation := sc_generation (snd r)\<rparr>) (case fst r of Inl e \<Rightarrow> [] | Inr evs \<Rightarrow> evs) (snd r) \<and>
     (\<forall>e. fst r = Inl e \<longrightarrow> e \<in> allowed_errors) \<and>
     sc_neutral_factory (snd r) = sc_neutral_factory s \<and> sc_policy (snd r) = sc_policy s"

lemma step_good_refused:
  "sched_inv nid s \<Longrightarrow> e \<in> allowed_errors \<Longrightarrow> step_good nid s (Inl e, s)"
  "sched_inv nid s \<Longrightarrow> step_good nid s (Inr [], s)"
  by (simp_all add: step_good_def trace_refl)

lemma good_step_good:
  assumes "good nid t id r" "sc_generation s \<le> sc_generation t" "sc_sequence t = sc_sequence s"
    "sc_neutral_factory t = sc_neutral_factory s" "sc_policy t = sc_policy s"
  shows "step_good nid s r"
proof -
  note R = goodD [OF assms(1)]
  have g: "sc_generation (snd r) = sc_generation t" using R(2) by (simp add: trace_ok_def)
  have "trace_ok (s\<lparr>sc_generation := sc_generation (snd r)\<rparr>) (case fst r of Inl e \<Rightarrow> [] | Inr x \<Rightarrow> x) (snd r)"
    using R(2) [unfolded id_apply] by (rule trace_cong(2)) (simp_all add: g assms(3))
  then show ?thesis using R assms g by (auto simp: step_good_def allowed_errors_def)
qed

context neutral_provider
begin

lemma advance_good:
  assumes "sched_inv nid s" "served s" "double now"
  shows "step_good nid s (advance_generation s g now)"
proof (cases "sc_generation s < g \<and> isfinite now")
  case False
  then show ?thesis using step_good_refused [OF assms(1)] by (auto simp: advance_generation_def allowed_errors_def)
next
  case True
  let ?s1 = "s\<lparr>sc_generation := g, sc_pending := [], sc_audio_markers := []\<rparr>"
  let ?r = "stop_leases ?s1 now Stop_GENERATION_ADVANCED None (\<lambda>_. True) (sorted_active ?s1)"
  note fp = fixed_partD [OF stop_leases_frame, of ?s1 now Stop_GENERATION_ADVANCED None "\<lambda>_. True" "sorted_active ?s1"]
  have ok: "leases_ok (\<lambda>l. nid l (sc_generation s)) s" and I: "0 \<le> sc_generation s" "check_policy (sc_policy s)"
    using assms(1) by (simp_all add: sched_inv_def)
  have inv: "sched_inv nid (snd ?r)"
    by (rule cleared_inv) (use stop_all [OF ok, of ?s1] fp I True in \<open>auto simp: check_policy_def\<close>)
  have "good nid ?s1 id (finish_with (snd ?r) now (fst ?r) id)"
    by (rule finish_with_good [OF inv _ _ stop_leases_trace]) (use assms(2) fp True in \<open>auto intro: served_cong\<close>)
  then have "step_good nid s (finish_with (snd ?r) now (fst ?r) id)"
    by (rule good_step_good) (use True in simp_all)
  then show ?thesis using True by (simp add: advance_generation_def Let_def case_prod_beta)
qed

lemma reset_good:
  assumes "sched_inv nid s" "served s"
  shows "step_good nid s (reset_to_neutral s now)"
proof (cases "isfinite now")
  case False
  then show ?thesis using step_good_refused [OF assms(1)] by (simp add: reset_to_neutral_def allowed_errors_def)
next
  case True
  let ?s1 = "s\<lparr>sc_pending := []\<rparr>"
  let ?r = "stop_leases ?s1 now Stop_CANCELLED None (\<lambda>_. False) (sorted_active ?s1)"
  let ?t = "(snd ?r)\<lparr>sc_needs_neutral := UNIV\<rparr>"
  note fp = fixed_partD [OF stop_leases_frame, of ?s1 now Stop_CANCELLED None "\<lambda>_. False" "sorted_active ?s1"]
  have ok: "leases_ok (\<lambda>l. nid l (sc_generation s)) s" and I: "0 \<le> sc_generation s" "check_policy (sc_policy s)"
    "int (length (sc_audio_markers s)) \<le> sp_max_audio_markers (sc_policy s)"
    using assms(1) by (simp_all add: sched_inv_def)
  have inv: "sched_inv nid ?t" by (rule cleared_inv) (use stop_all [OF ok, of ?s1] fp I in auto)
  have "good nid ?s1 id (finish_with ?t now (fst ?r) id)"
    by (rule finish_with_good [OF inv]) (use assms(2) fp True trace_cong(1) [OF stop_leases_trace] in \<open>auto intro: served_cong\<close>)
  then have "step_good nid s (finish_with ?t now (fst ?r) id)" by (rule good_step_good) simp_all
  then show ?thesis using True by (simp add: reset_to_neutral_def Let_def case_prod_beta)
qed

lemma disconnect_good:
  assumes "sched_inv nid s"
  shows "step_good nid s (disconnect s reason now)"
proof (cases "reason \<in> {Stop_DISCONNECTED, Stop_ADAPTER_FAILURE} \<and> sc_connected s \<and> isfinite now")
  case False
  then show ?thesis using step_good_refused [OF assms(1)] by (auto simp: disconnect_def allowed_errors_def)
next
  case True
  let ?s1 = "s\<lparr>sc_connected := False, sc_pending := [], sc_audio_markers := [], sc_needs_neutral := {}\<rparr>"
  let ?r = "stop_leases ?s1 now reason None (\<lambda>_. False) (sorted_active ?s1)"
  note fp = fixed_partD [OF stop_leases_frame, of ?s1 now reason None "\<lambda>_. False" "sorted_active ?s1"]
  have ok: "leases_ok (\<lambda>l. nid l (sc_generation s)) s" and I: "0 \<le> sc_generation s" "check_policy (sc_policy s)"
    using assms(1) by (simp_all add: sched_inv_def)
  have inv: "sched_inv nid (snd ?r)"
    by (rule cleared_inv) (use stop_all [OF ok, of ?s1] fp I in \<open>auto simp: check_policy_def\<close>)
  have "trace_ok (s\<lparr>sc_generation := sc_generation (snd ?r)\<rparr>) (fst ?r) (snd ?r)"
    by (rule trace_cong(2) [OF stop_leases_trace]) (simp_all add: fp)
  then show ?thesis using True inv fp by (auto simp: disconnect_def Let_def case_prod_beta step_good_def)
qed

lemma reconnect_good:
  assumes "sched_inv nid s" "served s"
  shows "step_good nid s (reconnect s now)"
proof (cases "\<not> sc_connected s \<and> isfinite now")
  case False
  then show ?thesis using step_good_refused [OF assms(1)] by (auto simp: reconnect_def allowed_errors_def)
next
  case True
  let ?t = "s\<lparr>sc_connected := True, sc_needs_neutral := UNIV\<rparr>"
  have inv: "sched_inv nid ?t" using assms(1) True by (auto simp: sched_inv_def leases_ok_def pending_ok_def)
  have "served ?t" by (rule served_cong [OF assms(2)]) simp
  then have "good nid ?t id (restore_neutrals ?t now)" using restore_neutrals_good [OF inv] True by blast
  then have "step_good nid s (restore_neutrals ?t now)" by (rule good_step_good) simp_all
  then show ?thesis using True by (simp add: reconnect_def)
qed

lemma cancel_good:
  assumes "sched_inv nid s0" "served s0"
  shows "step_good nid s0 (cancel_cue s0 i reason now)"
proof (cases "isfinite now")
  case False
  then show ?thesis using step_good_refused [OF assms(1)] by (simp add: cancel_cue_def allowed_errors_def)
next
  case True
  let ?s = "snd (expire s0 now)" and ?evs = "fst (expire s0 now)"
  note fr = expire_frame [of s0 now]
  have inv: "sched_inv nid ?s" by (rule expire_inv) fact
  have fin: "good nid s0 id (finish_with t now (?evs @ es) id)"
    if "sched_inv nid t" "sc_neutral_factory t = sc_neutral_factory ?s" "sc_policy t = sc_policy ?s"
      "sc_connected t = sc_connected ?s" "trace_ok ?s es t" for t es
    by (rule finish_with_good [OF that(1)])
      (use that assms(2) fr True trace_append [OF expire_trace that(5)] in \<open>auto intro: served_cong\<close>)
  have "good nid s0 id (cancel_cue s0 i reason now)"
  proof (cases "map_of (sc_pending ?s) i")
    case (Some p)
    then show ?thesis
      using fin [of "?s\<lparr>sc_pending := AList.delete i (sc_pending ?s)\<rparr>" "[]"] pending_delete_inv [OF inv, of i] True
      by (simp add: cancel_cue_def Let_def case_prod_beta trace_refl)
  next
    case None
    show ?thesis
    proof (cases "map_of (sc_active ?s) i")
      case None
      then show ?thesis using fin [OF inv, of "[]"] True \<open>map_of (sc_pending ?s) i = None\<close>
        by (simp add: cancel_cue_def Let_def case_prod_beta trace_refl)
    next
      case (Some l)
      let ?r = "stop_leases ?s now reason None (\<lambda>_. True) [l]"
      have "pc_cue_id (al_cue l) = i" using inv Some leases_okD(2) [of _ ?s i l] by (auto simp: sched_inv_def)
      then have "cancel_cue s0 i reason now = finish_with (snd ?r) now (?evs @ fst ?r) id"
        using True Some \<open>map_of (sc_pending ?s) i = None\<close> by (simp add: cancel_cue_def Let_def case_prod_beta)
      then show ?thesis
        using fin [OF stop_leases_inv [OF inv] _ _ _ stop_leases_trace, of now reason None "\<lambda>_. True" "[l]"]
          fixed_partD [OF stop_leases_frame, of ?s now reason None "\<lambda>_. True" "[l]"]
        by (simp del: stop_leases.simps)
    qed
  qed
  then show ?thesis by (rule good_step_good) simp_all
qed

end

section \<open>Runs\<close>

definition emitted :: "(scheduler_error + PresentationEvent list) \<times> scheduler \<Rightarrow> PresentationEvent list" where
  "emitted r = (case fst r of Inl e \<Rightarrow> [] | Inr evs \<Rightarrow> evs)"

fun sched_run :: "scheduler \<Rightarrow> (sched_op \<times> pyfloat) list \<Rightarrow> PresentationEvent list \<times> scheduler" where
  "sched_run s [] = ([], s)"
| "sched_run s (p # ps) =
     (let r = sched_step s p; q = sched_run (snd r) ps in (emitted r @ fst q, snd q))"

text \<open>Events of a run: numbered upwards, and no started cue is older than the generation at the start.\<close>

definition run_ok :: "scheduler \<Rightarrow> PresentationEvent list \<Rightarrow> scheduler \<Rightarrow> bool" where
  "run_ok s evs t \<longleftrightarrow> sc_generation s \<le> sc_generation t \<and> sc_sequence s \<le> sc_sequence t \<and>
     sorted_wrt (<) (map pe_sequence evs) \<and>
     (\<forall>e \<in> set evs. sc_sequence s < pe_sequence e \<and> pe_sequence e \<le> sc_sequence t \<and>
        (pe_kind e = Event_STARTED \<longrightarrow> sc_generation s \<le> pc_generation (pe_cue e)))"

lemma step_run_ok: "step_good nid s r \<Longrightarrow> run_ok s (emitted r) (snd r)"
  by (auto simp: step_good_def run_ok_def trace_ok_def emitted_def)

lemma run_ok_append:
  assumes "run_ok s es t" "run_ok t fs u"
  shows "run_ok s (es @ fs) u"
  using assms unfolding run_ok_def by (fastforce simp: sorted_wrt_append)

context neutral_provider
begin

lemma step_ok:
  assumes "sched_inv nid s" "served s" "op_ok nid p"
  shows "step_good nid s (sched_step s p)"
proof -
  obtain q now where p: "p = (q, now)" by (cases p)
  have fin: "\<exists>x. now = Fin x \<and> is_double x" if "isfinite now"
    using that assms(3) by (cases q; cases now) (auto simp: p)
  have gs: "step_good nid s r" if "good nid s id r" for r by (rule good_step_good [OF that]) simp_all
  show ?thesis
  proof (cases q)
    case (Op_submit c)
    show ?thesis
    proof (cases "isfinite now")
      case True
      then show ?thesis using fin submit_good [OF assms(1,2), of _ c] assms(3) Op_submit p
        by (auto intro: gs good_events_of)
    qed (use step_good_refused [OF assms(1)] Op_submit p in \<open>simp add: submit_cue_def events_of_def allowed_errors_def\<close>)
  next
    case (Op_audio m)
    show ?thesis
    proof (cases "isfinite now")
      case True
      then show ?thesis using fin audio_good [OF assms(1,2), of _ m] Op_audio p by (auto intro: gs good_events_of)
    qed (use step_good_refused [OF assms(1)] Op_audio p in \<open>simp add: notify_audio_def events_of_def allowed_errors_def\<close>)
  next
    case Op_tick
    show ?thesis
    proof (cases "isfinite now")
      case True
      then show ?thesis using fin tick_good [OF assms(1,2)] Op_tick p by (auto intro: gs good_events_of)
    qed (use step_good_refused [OF assms(1)] Op_tick p in \<open>simp add: tick_def events_of_def allowed_errors_def\<close>)
  qed (use assms p advance_good cancel_good reset_good disconnect_good reconnect_good in simp_all)
qed

lemma step_served: "step_good nid s r \<Longrightarrow> served s \<Longrightarrow> served (snd r)"
  by (rule served_cong) (simp_all add: step_good_def)

lemma run_good:
  assumes "sched_inv nid s" "served s" "\<forall>p \<in> set ps. op_ok nid p"
  shows "sched_inv nid (snd (sched_run s ps)) \<and> served (snd (sched_run s ps)) \<and>
    sc_policy (snd (sched_run s ps)) = sc_policy s \<and> run_ok s (fst (sched_run s ps)) (snd (sched_run s ps))"
  using assms
proof (induction ps arbitrary: s)
  case (Cons p ps)
  have g: "step_good nid s (sched_step s p)" by (rule step_ok) (use Cons.prems in auto)
  have "sched_inv nid (snd (sched_step s p))" "sc_policy (snd (sched_step s p)) = sc_policy s"
    using g by (simp_all add: step_good_def)
  moreover have "served (snd (sched_step s p))" by (rule step_served [OF g Cons.prems(2)])
  ultimately show ?case
    using Cons.IH [of "snd (sched_step s p)"] Cons.prems(3) run_ok_append [OF step_run_ok [OF g]] by (simp add: Let_def)
qed (simp add: run_ok_def)

end

lemma neutral_cue_id_inj: "neutral_cue_id l g = neutral_cue_id l' g \<Longrightarrow> l = l'"
  by (cases l; cases l') (simp_all add: neutral_cue_id_def)

interpretation dn: neutral_provider "\<lambda>d. profile_ok (dr_profile d)" neutral_cue neutral_cue_id
proof
  fix d :: PerformanceDirector and g :: int and t l
  assume "profile_ok (dr_profile d)" "0 \<le> g" "isfinite t"
  then show "\<exists>c. neutral_cue d l g t = Inr c \<and> pc_cue_id c = neutral_cue_id l g \<and> pc_layer c = l \<and>
      pc_generation c = g \<and> pc_neutral c"
    using neutral_cue_ok by blast
qed (rule neutral_cue_id_inj)

text \<open>The scheduler the application builds: the director supplies the neutral cues.\<close>

definition started_scheduler :: "int \<Rightarrow> SchedulerPolicy \<Rightarrow> PerformanceDirector \<Rightarrow> scheduler \<Rightarrow> bool" where
  "started_scheduler g pol d s \<longleftrightarrow> scheduler_init g (Some pol) (Some (neutral_cue d)) = Inr s \<and> check_policy pol \<and>
     profile_ok (dr_profile d)"

lemma started_inv:
  assumes "started_scheduler g pol d s"
  shows "sched_inv neutral_cue_id s" "dn.served s" "sc_policy s = pol"
  using assms
  by (auto simp: started_scheduler_def scheduler_init_def sched_inv_def leases_ok_def pending_ok_def dn.served_def
      check_policy_def split: if_splits)

text \<open>
  C21: leases are exclusive, as long as nobody submits a cue under an identity reserved for a
  neutral cue (\<open>neutral:<layer>:<generation>\<close>). Whatever sequence of operations a scheduler then goes through, two
  active cues never share a layer or a resource, every active cue belongs to the current
  generation, the cue shown for a layer is exactly the active cue of that layer (the lookup
  never fails), the two queues respect their bounds, and a disconnected scheduler holds no
  cue at all.
\<close>

theorem scheduler_leases_exclusive:
  assumes "started_scheduler g pol d s" and "\<forall>p \<in> set ps. op_ok neutral_cue_id p" and "t = snd (sched_run s ps)"
  shows "(\<forall>i j l m. map_of (sc_active t) i = Some l \<and> map_of (sc_active t) j = Some m \<and> i \<noteq> j \<longrightarrow>
        pc_layer (al_cue l) \<noteq> pc_layer (al_cue m) \<and> pc_resources (al_cue l) |\<inter>| pc_resources (al_cue m) = {||}) \<and>
    (\<forall>i l. map_of (sc_active t) i = Some l \<longrightarrow> pc_cue_id (al_cue l) = i \<and> pc_generation (al_cue l) = sc_generation t) \<and>
    (\<forall>L. \<exists>r. current_cue t L = Inr r \<and>
        (\<forall>c. r = Some c \<longleftrightarrow> (\<exists>i l. map_of (sc_active t) i = Some l \<and> al_cue l = c \<and> pc_layer c = L))) \<and>
    int (length (sc_pending t)) \<le> sp_max_pending pol \<and> int (length (sc_audio_markers t)) \<le> sp_max_audio_markers pol \<and>
    (\<not> sc_connected t \<longrightarrow> sc_active t = [] \<and> sc_pending t = [])"
proof -
  have run: "sched_inv neutral_cue_id t" "sc_policy t = pol"
    using dn.run_good [OF started_inv(1,2) [OF assms(1)] assms(2)] started_inv(3) [OF assms(1)] assms(3) by auto
  have ok: "leases_ok (\<lambda>l. neutral_cue_id l (sc_generation t)) t" using run(1) by (simp add: sched_inv_def)
  note D = leases_okD [OF ok]
  have one: "i = j" if "map_of (sc_active t) i = Some l" "map_of (sc_active t) j = Some m" "pc_layer (al_cue l) = pc_layer (al_cue m)" for i j l m
    using D(5) [OF that(1,2)] that(3) by (auto simp: conflicts_with_def)
  have cur: "\<exists>r. current_cue t L = Inr r \<and>
      (\<forall>c. r = Some c \<longleftrightarrow> (\<exists>i l. map_of (sc_active t) i = Some l \<and> al_cue l = c \<and> pc_layer c = L))" for L
  proof (cases "map_of (sc_active_by_layer t) L")
    case None
    then have "\<not> (map_of (sc_active t) i = Some l \<and> pc_layer (al_cue l) = L)" for i l using D(4) [of L i] by auto
    moreover have "current_cue t L = Inr None" using None by (simp add: current_cue_def)
    ultimately show ?thesis by auto
  next
    case (Some i)
    then obtain l where l: "map_of (sc_active t) i = Some l" "pc_layer (al_cue l) = L" using D(4) by blast
    have u: "al_cue m = al_cue l" if "map_of (sc_active t) j = Some m" "pc_layer (al_cue m) = L" for j m
      using one [OF that(1) l(1)] that l by simp
    have "current_cue t L = Inr (Some (al_cue l))" using Some l by (simp add: current_cue_def)
    moreover have "Some (al_cue l) = Some c \<longleftrightarrow> (\<exists>i l. map_of (sc_active t) i = Some l \<and> al_cue l = c \<and> pc_layer c = L)" for c
      using l u by (metis option.inject)
    ultimately show ?thesis by blast
  qed
  have ex: "pc_layer (al_cue l) \<noteq> pc_layer (al_cue m) \<and> pc_resources (al_cue l) |\<inter>| pc_resources (al_cue m) = {||}"
    if "map_of (sc_active t) i = Some l" "map_of (sc_active t) j = Some m" "i \<noteq> j" for i j l m
    using D(5) [OF that] by (auto simp: conflicts_with_def inf_commute)
  have rest: "int (length (sc_pending t)) \<le> sp_max_pending pol" "int (length (sc_audio_markers t)) \<le> sp_max_audio_markers pol"
    "\<not> sc_connected t \<longrightarrow> sc_active t = [] \<and> sc_pending t = []"
    using run by (simp_all add: sched_inv_def pending_ok_def)
  show ?thesis using ex D(2) cur rest by blast
qed

text \<open>
  C22: the events of a run are replayable and never stale, as long as nobody submits a cue under
  an identity reserved for a neutral cue. They carry strictly increasing
  sequence numbers over the whole run, and after the scheduler has reached a generation no
  later operation starts a cue of an older one, nor accepts an adapter's result for one.
\<close>

theorem scheduler_events_ordered:
  assumes "started_scheduler g pol d s" and "\<forall>p \<in> set (ps @ qs). op_ok neutral_cue_id p"
    and "t = snd (sched_run s ps)" and "u = snd (sched_run t qs)"
  shows "sorted_wrt (<) (map pe_sequence (fst (sched_run s ps) @ fst (sched_run t qs))) \<and>
    (\<forall>e \<in> set (fst (sched_run t qs)). pe_kind e = Event_STARTED \<longrightarrow> sc_generation t \<le> pc_generation (pe_cue e)) \<and>
    (\<forall>i h. h < sc_generation t \<longrightarrow> \<not> accepts_adapter_result u i h)"
proof -
  have 1: "sched_inv neutral_cue_id t" "dn.served t" "run_ok s (fst (sched_run s ps)) t"
    using dn.run_good [OF started_inv(1,2) [OF assms(1)], of ps] assms(2,3) by auto
  have 2: "run_ok t (fst (sched_run t qs)) u"
    using dn.run_good [OF 1(1,2), of qs] assms(2,4) by auto
  have "sc_generation t \<le> sc_generation u" using 2 by (simp add: run_ok_def)
  then show ?thesis
    using run_ok_append [OF 1(3) 2] 2 by (auto simp: run_ok_def accepts_adapter_result_def)
qed

text \<open>
  the scheduler fails only as documented. On every reachable scheduler an operation
  raises only for a clock that is not finite, a generation that moves backwards, a
  disconnect reason that does not describe the adapter, or a lease whose end overflows the
  float range; a factory error or an invalid neutral cue never surfaces, and the scheduler
  an exception leaves behind still satisfies the invariant.
\<close>

theorem scheduler_errors:
  assumes "started_scheduler g pol d s" and "\<forall>p \<in> set ps. op_ok neutral_cue_id p" and "op_ok neutral_cue_id p"
    and "fst (sched_step (snd (sched_run s ps)) p) = Inl e"
  shows "e \<in> {Clock_not_finite, Generation_backwards, Bad_disconnect_reason, Lease_failed (Not_finite ''expires_at'')} \<and>
    sched_inv neutral_cue_id (snd (sched_step (snd (sched_run s ps)) p))"
proof -
  have "sched_inv neutral_cue_id (snd (sched_run s ps))" "dn.served (snd (sched_run s ps))"
    using dn.run_good [OF started_inv(1,2) [OF assms(1)] assms(2)] by auto
  from dn.step_ok [OF this assms(3)] show ?thesis
    using assms(4) by (auto simp: step_good_def allowed_errors_def)
qed

definition demo_cue :: "pystr \<Rightarrow> PresentationLayer \<Rightarrow> PresentationCue" where
  "demo_cue i l = \<lparr>pc_cue_id = i, pc_generation = 0, pc_layer = l, pc_semantic_key = layer_value l @ lit ''.x'',
     pc_adapter_action = None, pc_intensity = Fin 1, pc_priority = Cue_MODEL, pc_requested_at = Fin 0,
     pc_not_after = None, pc_lease_s = None, pc_resources = {||}, pc_blend = default_blend, pc_cooldown_key = None,
     pc_cooldown_s = Fin 0, pc_audio_binding = None, pc_source = Source_MODEL, pc_neutral = False,
     pc_limits_exempt = False, pc_fallback_from = None\<rparr>"

definition demo_scheduler :: scheduler where
  "demo_scheduler = \<lparr>sc_generation = 0, sc_policy = default_scheduler_policy,
     sc_neutral_factory = Some (neutral_cue demo_director), sc_connected = True, sc_active = [], sc_active_by_layer = [],
     sc_pending = [], sc_audio_markers = [], sc_cooldown_until = [], sc_global_starts = [],
     sc_layer_starts = (\<lambda>_. []), sc_needs_neutral = {}, sc_sequence = 0\<rparr>"

lemma demo_scheduler_started: "started_scheduler 0 default_scheduler_policy demo_director demo_scheduler"
  using demo_director_ok
  by (simp add: started_scheduler_def scheduler_init_def demo_scheduler_def check_policy_def
      default_scheduler_policy_def director_ok_def)

lemma is_double_0: "is_double 0"
  by (simp add: is_double_def round_double_def)

lemma demo_op_ok: "op_ok neutral_cue_id (Op_submit (demo_cue (lit ''c'') Layer_GAZE), Fin 0)"
proof -
  have "lit ''c'' \<noteq> neutral_cue_id l g" for l g by (simp add: neutral_cue_id_def)
  then show ?thesis
    by (simp add: demo_cue_def check_cue_def identifier_eval in_namespace_def require_resources_def is_double_0)
qed

theorem scheduler_leases_exclusive_witness:
  "\<exists>t. t = snd (sched_run demo_scheduler [(Op_submit (demo_cue (lit ''c'') Layer_GAZE), Fin 0), (Op_reset, Fin 0)]) \<and>
     int (length (sc_pending t)) \<le> 256"
  using scheduler_leases_exclusive [OF demo_scheduler_started, of "[(Op_submit (demo_cue (lit ''c'') Layer_GAZE), Fin 0), (Op_reset, Fin 0)]"]
    demo_op_ok is_double_0 by (simp add: default_scheduler_policy_def del: lit_simps)

theorem scheduler_events_ordered_witness:
  "\<exists>u. u = snd (sched_run demo_scheduler [(Op_advance 1, Fin 0), (Op_submit (demo_cue (lit ''c'') Layer_GAZE), Fin 0)]) \<and>
     sorted_wrt (<) (map pe_sequence (fst (sched_run demo_scheduler
       ([(Op_advance 1, Fin 0)] @ [(Op_submit (demo_cue (lit ''c'') Layer_GAZE), Fin 0)]))))"
  using scheduler_events_ordered [OF demo_scheduler_started, of "[(Op_advance 1, Fin 0)]" "[(Op_submit (demo_cue (lit ''c'') Layer_GAZE), Fin 0)]"]
    demo_op_ok is_double_0 by (simp add: Let_def del: lit_simps)

theorem scheduler_errors_witness:
  "\<exists>e. fst (sched_step (snd (sched_run demo_scheduler [])) (Op_advance (- 1), Fin 0)) = Inl e \<and>
     sched_inv neutral_cue_id (snd (sched_step (snd (sched_run demo_scheduler [])) (Op_advance (- 1), Fin 0)))"
proof -
  have "fst (sched_step (snd (sched_run demo_scheduler [])) (Op_advance (- 1), Fin 0)) = Inl Generation_backwards"
    by (simp add: advance_generation_def demo_scheduler_def)
  then show ?thesis
    using scheduler_errors [OF demo_scheduler_started, of "[]" "(Op_advance (- 1), Fin 0)"] is_double_0 by simp
qed

end
