(* ===== verification/SchedulerLimits.thy ===== *)
theory SchedulerLimits
  imports SchedulerRun "HOL-Library.Sublist"
begin

text \<open>
  Rate limits of the presentation scheduler. A meter is the global window or the window of a
  layer; both follow the same discipline, and the history of the starts a meter has recorded
  never exceeds its limit in any window.
\<close>

section \<open>Meters\<close>

type_synonym meter = "PresentationLayer option"

definition limit_of :: "meter \<Rightarrow> SchedulerPolicy \<Rightarrow> RateLimitPolicy option" where
  "limit_of m pol = (case m of None \<Rightarrow> sp_global_rate_limit pol | Some l \<Rightarrow> map_of (sp_layer_rate_limits pol) l)"

definition starts_of :: "meter \<Rightarrow> scheduler \<Rightarrow> pyfloat list" where
  "starts_of m s = (case m of None \<Rightarrow> sc_global_starts s | Some l \<Rightarrow> sc_layer_starts s l)"

definition metered :: "meter \<Rightarrow> PresentationCue \<Rightarrow> bool" where
  "metered m c \<longleftrightarrow> limited c \<and> (m = None \<or> m = Some (pc_layer c))"

text \<open>The times of the starts among some events that a meter counts.\<close>

definition starts_in :: "meter \<Rightarrow> PresentationEvent list \<Rightarrow> pyfloat list" where
  "starts_in m evs = map pe_occurred_at (filter (\<lambda>e. pe_kind e = Event_STARTED \<and> metered m (pe_cue e)) evs)"

lemma starts_in_append [simp]: "starts_in m (es @ fs) = starts_in m es @ starts_in m fs" "starts_in m [] = []"
  by (simp_all add: starts_in_def)

text \<open>
  No window is overfull: of the starts up to one of them, at most \<open>mx\<close> are later than that one's
  cutoff.
\<close>

definition rate_ok :: "int \<Rightarrow> pyfloat \<Rightarrow> pyfloat list \<Rightarrow> bool" where
  "rate_ok mx w ts \<longleftrightarrow> (\<forall>as t bs. ts = as @ t # bs \<longrightarrow>
     int (length (filter (\<lambda>x. \<not> fle x (fsub t w)) (as @ [t]))) \<le> mx)"

lemma rate_ok_snoc:
  assumes "rate_ok mx w ts" "int (length (filter (\<lambda>x. \<not> fle x (fsub t w)) (ts @ [t]))) \<le> mx"
  shows "rate_ok mx w (ts @ [t])"
  unfolding rate_ok_def
proof (intro allI impI)
  fix as u bs assume eq: "ts @ [t] = as @ u # bs"
  show "int (length (filter (\<lambda>x. \<not> fle x (fsub u w)) (as @ [u]))) \<le> mx"
  proof (cases bs rule: rev_cases)
    case Nil
    then show ?thesis using eq assms(2) by simp
  next
    case (snoc bs' b)
    then have "ts = as @ u # bs'" using eq by simp
    then show ?thesis using assms(1) unfolding rate_ok_def by blast
  qed
qed

lemma rate_ok_subseq:
  assumes "rate_ok mx w ks" "subseq ts ks"
  shows "rate_ok mx w ts"
  unfolding rate_ok_def
proof (intro allI impI)
  fix as t bs assume "ts = as @ t # bs"
  then obtain us vs where 1: "ks = us @ vs" "subseq as us" "subseq (t # bs) vs"
    using list_emb_appendD [of "(=)" as "t # bs" ks] assms(2) by blast
  then obtain vs1 vs2 where 2: "vs = vs1 @ t # vs2" by (auto dest!: list_emb_ConsD)
  let ?P = "\<lambda>x. \<not> fle x (fsub t w)"
  have "subseq (as @ [t]) ((us @ vs1) @ [t])"
    using 1(2) by (intro list_emb_append_mono subseq_rev_drop_many) (auto intro: list_emb_append2 subseq_order.trans)
  then have "subseq (filter ?P (as @ [t])) (filter ?P ((us @ vs1) @ [t]))" by (rule subseq_filter)
  then have "length (filter ?P (as @ [t])) \<le> length (filter ?P ((us @ vs1) @ [t]))" by (rule list_emb_length)
  also have "int \<dots> \<le> mx"
    using assms(1) 1(1) 2 unfolding rate_ok_def by (metis append.assoc)
  finally show "int (length (filter ?P (as @ [t]))) \<le> mx" by simp
qed

section \<open>The discipline of a meter\<close>

text \<open>
  Between two states at time \<open>now\<close> a meter records the starts \<open>xs\<close>: whatever part of the history
  its window has already dropped is out of the window of \<open>now\<close>, and no window gets overfull.
\<close>

definition records :: "meter \<Rightarrow> int \<Rightarrow> pyfloat \<Rightarrow> pyfloat \<Rightarrow> scheduler \<Rightarrow> pyfloat list \<Rightarrow> scheduler \<Rightarrow> bool" where
  "records m mx w now s xs t \<longleftrightarrow> (\<forall>ds. rate_ok mx w (ds @ starts_of m s) \<and> (\<forall>d \<in> set ds. fle d (fsub now w)) \<longrightarrow>
     (\<exists>ds'. ds @ starts_of m s @ xs = ds' @ starts_of m t \<and> rate_ok mx w (ds' @ starts_of m t) \<and>
        (\<forall>d \<in> set ds'. fle d (fsub now w))))"

lemma records_none: "starts_of m t = starts_of m s \<Longrightarrow> records m mx w now s [] t"
  by (auto simp: records_def)

lemma records_append:
  assumes "records m mx w now s xs t" "records m mx w now t ys u"
  shows "records m mx w now s (xs @ ys) u"
  unfolding records_def
proof (intro allI impI)
  fix ds assume "rate_ok mx w (ds @ starts_of m s) \<and> (\<forall>d \<in> set ds. fle d (fsub now w))"
  with assms(1) obtain es where e: "ds @ starts_of m s @ xs = es @ starts_of m t" "rate_ok mx w (es @ starts_of m t)"
    "\<forall>d \<in> set es. fle d (fsub now w)" unfolding records_def by blast
  with assms(2) obtain fs where f: "es @ starts_of m t @ ys = fs @ starts_of m u" "rate_ok mx w (fs @ starts_of m u)"
    "\<forall>d \<in> set fs. fle d (fsub now w)" unfolding records_def by blast
  have "ds @ starts_of m s @ xs @ ys = fs @ starts_of m u" using e(1) f(1) by (metis append.assoc)
  then show "\<exists>ds'. ds @ starts_of m s @ xs @ ys = ds' @ starts_of m u \<and> rate_ok mx w (ds' @ starts_of m u) \<and>
      (\<forall>d \<in> set ds'. fle d (fsub now w))" using f by blast
qed

lemma records_prune: "starts_of m t = prune_window (starts_of m s) now w \<Longrightarrow> records m mx w now s [] t"
  unfolding records_def prune_window_def
proof (intro allI impI)
  fix ds assume t: "starts_of m t = dropWhile (\<lambda>t. fle t (fsub now w)) (starts_of m s)"
    and d: "rate_ok mx w (ds @ starts_of m s) \<and> (\<forall>d \<in> set ds. fle d (fsub now w))"
  let ?tw = "takeWhile (\<lambda>t. fle t (fsub now w)) (starts_of m s)"
  have "ds @ starts_of m s @ [] = (ds @ ?tw) @ starts_of m t" by (simp add: t)
  moreover have "\<forall>x \<in> set (ds @ ?tw). fle x (fsub now w)" using d by (auto dest: set_takeWhileD)
  moreover have "rate_ok mx w ((ds @ ?tw) @ starts_of m t)" using d by (simp add: t)
  ultimately show "\<exists>ds'. ds @ starts_of m s @ [] = ds' @ starts_of m t \<and> rate_ok mx w (ds' @ starts_of m t) \<and>
      (\<forall>d \<in> set ds'. fle d (fsub now w))" by blast
qed

lemma records_start:
  assumes "starts_of m t = starts_of m s @ [now]" "int (length (starts_of m s)) < mx"
  shows "records m mx w now s [now] t"
  unfolding records_def
proof (intro allI impI)
  fix ds assume d: "rate_ok mx w (ds @ starts_of m s) \<and> (\<forall>d \<in> set ds. fle d (fsub now w))"
  let ?P = "\<lambda>x. \<not> fle x (fsub now w)"
  have "filter ?P ds = []" using d by simp
  then have "length (filter ?P ((ds @ starts_of m s) @ [now])) \<le> Suc (length (starts_of m s))"
    by (simp add: le_SucI)
  then have "rate_ok mx w ((ds @ starts_of m s) @ [now])"
    by (intro rate_ok_snoc) (use d assms(2) in \<open>auto\<close>)
  then show "\<exists>ds'. ds @ starts_of m s @ [now] = ds' @ starts_of m t \<and> rate_ok mx w (ds' @ starts_of m t) \<and>
      (\<forall>d \<in> set ds'. fle d (fsub now w))" using d by (intro exI [of _ ds]) (simp add: assms(1))
qed

section \<open>Operations and meters\<close>

text \<open>Only the limit check and the recording of a start touch a window.\<close>

lemma starts_of_frame [simp]:
  "starts_of m (s\<lparr>sc_pending := x1\<rparr>) = starts_of m s" "starts_of m (s\<lparr>sc_needs_neutral := x2\<rparr>) = starts_of m s"
  "starts_of m (s\<lparr>sc_sequence := x3\<rparr>) = starts_of m s" "starts_of m (s\<lparr>sc_cooldown_until := x4\<rparr>) = starts_of m s"
  "starts_of m (s\<lparr>sc_audio_markers := x5\<rparr>) = starts_of m s" "starts_of m (s\<lparr>sc_active := x6\<rparr>) = starts_of m s"
  "starts_of m (s\<lparr>sc_active_by_layer := x7\<rparr>) = starts_of m s" "starts_of m (s\<lparr>sc_generation := x8\<rparr>) = starts_of m s"
  "starts_of m (s\<lparr>sc_connected := x9\<rparr>) = starts_of m s"
  by (simp_all add: starts_of_def split: option.splits)

lemma starts_of_steps [simp]:
  "starts_of m (snd (start_event s c now)) = starts_of m s"
  "starts_of m (snd (stop_event s c now r b)) = starts_of m s"
  "starts_of m (snd (remove_active s i)) = starts_of m s"
  "starts_of m (snd (install_lease s c now e)) = starts_of m s"
  by (simp_all add: start_event_def stop_event_def next_sequence_def Let_def remove_active_def install_lease_def
      case_prod_beta split: option.splits)

lemma stop_leases_starts [simp]:
  "starts_of m (snd (stop_leases s now r b mark ls)) = starts_of m s"
  "starts_in m (fst (stop_leases s now r b mark ls)) = []"
  by (induction ls arbitrary: s)
    (simp_all add: Let_def case_prod_beta starts_in_def stop_event_def next_sequence_def)

lemma expire_starts [simp]:
  "starts_of m (snd (expire s now)) = starts_of m s" "starts_in m (fst (expire s now)) = []"
  by (simp_all add: expire_def Let_def case_prod_beta)

lemma restore_layers_starts:
  "starts_of m (snd (restore_layers s f now ls)) = starts_of m s \<and>
   (\<forall>evs. fst (restore_layers s f now ls) = Inr evs \<longrightarrow> starts_in m evs = [])"
proof (induction ls arbitrary: s)
  case (Cons l ls)
  have "\<not> metered m (pe_cue ev)" if "fst (install_lease s c now None) = Inr ev" "pc_neutral c" for c ev
    using install_lease_active(3) [OF that(1)] that(2) by (simp add: metered_def limited_def)
  then show ?case
    using Cons.IH by (auto simp: case_sum_pair starts_in_def split: sum.splits)
qed (simp add: starts_in_def)

lemma finish_with_starts:
  "starts_of m (snd (finish_with s now evs f)) = starts_of m s \<and>
   (\<forall>x. fst (finish_with s now evs f) = Inr x \<longrightarrow> (\<exists>es. x = f (evs @ es) \<and> starts_in m es = []))"
proof -
  have "starts_of m (snd (restore_neutrals s now)) = starts_of m s \<and>
      (\<forall>es. fst (restore_neutrals s now) = Inr es \<longrightarrow> starts_in m es = [])"
    using restore_layers_starts by (auto simp: restore_neutrals_def starts_in_def split: option.splits)
  then show ?thesis by (auto simp: finish_with_def case_sum_pair split: sum.splits)
qed

lemma check_limits_starts:
  assumes "limit_of m (sc_policy s) = Some \<lparr>rl_max_starts = mx, rl_window_s = w\<rparr>"
  shows "starts_of m (snd (check_limits s c now)) \<in> {starts_of m s, prune_window (starts_of m s) now w}"
    "fst (check_limits s c now) = None \<Longrightarrow> metered m c \<Longrightarrow>
       int (length (starts_of m (snd (check_limits s c now)))) < mx"
  using assms
  by (auto simp: check_limits_def within_rate_limits_def within_layer_limit_def Let_def case_prod_beta starts_of_def
      limit_of_def metered_def split: option.splits if_splits)

lemma record_limits_starts:
  assumes "limit_of m (sc_policy s) \<noteq> None"
  shows "starts_of m (record_limits s c now) = (if metered m c then starts_of m s @ [now] else starts_of m s)"
  using assms
  by (auto simp: record_limits_def record_start_def Let_def starts_of_def limit_of_def metered_def split: option.splits)

lemma attempt_start_records:
  assumes "limit_of m (sc_policy s) = Some \<lparr>rl_max_starts = mx, rl_window_s = w\<rparr>"
  shows "records m mx w now s (case fst (attempt_start s c now) of Inl e \<Rightarrow> [] | Inr r \<Rightarrow> starts_in m (sr_events r))
    (snd (attempt_start s c now))"
proof -
  let ?l = "snd (check_limits s c now)"
  have l: "records m mx w now s [] ?l"
    using check_limits_starts(1) [OF assms, of c now] by (auto intro: records_none records_prune)
  show ?thesis
  proof (cases rule: attempt_start_cases [where s = s and c = c and now = now])
    case refused
    then show ?thesis by (simp add: records_none result_def)
  next
    case limited
    then show ?thesis using l by (simp add: result_def)
  next
    case started
    let ?i = "install_lease (snd (preempted ?l c now)) c now (expiry_of c now)"
    have p: "starts_of m (snd (preempted ?l c now)) = starts_of m ?l" "starts_in m (fst (preempted ?l c now)) = []"
      by (simp_all add: preempted_def)
    show ?thesis
    proof (cases "fst ?i")
      case (Inl e)
      have "records m mx w now ?l [] (snd ?i)" by (rule records_none) (simp add: p)
      from records_append [OF l this] show ?thesis using started(1) Inl by (simp add: take_over_alt Let_def)
    next
      case (Inr ev)
      have pol: "limit_of m (sc_policy (snd ?i)) \<noteq> None"
        using assms fixed_partD(2) [OF install_lease_frame] fixed_partD(2) [OF preempted_frame]
          fixed_partD(2) [OF check_limits_frame(1)] by (metis option.distinct(1))
      have ev: "starts_in m [ev] = (if metered m c then [now] else [])"
        using Inr by (auto simp: starts_in_def install_lease_def Let_def case_prod_beta start_event_def next_sequence_def
            split: option.splits)
      have "records m mx w now ?l (starts_in m [ev]) (record_limits (snd ?i) c now)"
        unfolding ev using record_limits_starts [OF pol, of c now] check_limits_starts(2) [OF assms started(6)]
        by (auto simp: p intro: records_start records_none)
      from records_append [OF l this] show ?thesis
        using started(1) Inr by (simp add: take_over_alt Let_def result_def p)
    qed
  qed
qed

lemma start_all_records:
  assumes "limit_of m (sc_policy s) = Some \<lparr>rl_max_starts = mx, rl_window_s = w\<rparr>"
  shows "\<exists>xs. records m mx w now s xs (snd (start_all s now ps)) \<and>
    subseq (case fst (start_all s now ps) of Inl e \<Rightarrow> [] | Inr rs \<Rightarrow> starts_in m (concat (map sr_events rs))) xs"
  using assms
proof (induction ps arbitrary: s)
  case Nil
  then show ?case using records_none [of m s s] by (auto intro: exI [of _ "[]"])
next
  case (Cons p ps)
  show ?case
  proof (cases "map_of (sc_pending s) (pc_cue_id (pn_cue p)) = None")
    case True
    then show ?thesis using Cons by simp
  next
    case False
    let ?s = "s\<lparr>sc_pending := AList.delete (pc_cue_id (pn_cue p)) (sc_pending s)\<rparr>"
    let ?r = "attempt_start ?s (pn_cue p) now"
    let ?x = "case fst ?r of Inl e \<Rightarrow> [] | Inr r \<Rightarrow> starts_in m (sr_events r)"
    have "records m mx w now s [] ?s" by (rule records_none) simp
    moreover have "records m mx w now ?s ?x (snd ?r)" by (rule attempt_start_records) (simp add: Cons.prems)
    ultimately have first: "records m mx w now s ?x (snd ?r)" by (metis append_Nil records_append)
    show ?thesis
    proof (cases "fst ?r")
      case (Inl e)
      then show ?thesis using first False by (auto simp: start_all_alt chain_step_def simp del: start_all.simps)
    next
      case (Inr r)
      have "limit_of m (sc_policy (snd ?r)) = Some \<lparr>rl_max_starts = mx, rl_window_s = w\<rparr>"
        using Cons.prems fixed_partD(2) [OF attempt_start_frame, of ?s "pn_cue p" now] by simp
      from Cons.IH [OF this] obtain xs where xs: "records m mx w now (snd ?r) xs (snd (start_all (snd ?r) now ps))"
        "subseq (case fst (start_all (snd ?r) now ps) of Inl e \<Rightarrow> [] | Inr rs \<Rightarrow> starts_in m (concat (map sr_events rs))) xs"
        by blast
      have e: "start_all s now (p # ps) = (case fst (start_all (snd ?r) now ps) of
          Inl e \<Rightarrow> (Inl e, snd (start_all (snd ?r) now ps)) | Inr rs \<Rightarrow> (Inr (r # rs), snd (start_all (snd ?r) now ps)))"
        unfolding start_all_alt if_not_P [OF False] chain_step_def Inr sum.case ..
      have "records m mx w now s (?x @ xs) (snd (start_all s now (p # ps)))"
        using records_append [OF first xs(1)] unfolding e by (simp split: sum.splits)
      moreover have "subseq (case fst (start_all s now (p # ps)) of Inl e \<Rightarrow> [] | Inr rs \<Rightarrow> starts_in m (concat (map sr_events rs))) (?x @ xs)"
        using xs(2) Inr unfolding e by (auto intro: list_emb_append_mono split: sum.splits)
      ultimately show ?thesis by blast
    qed
  qed
qed

text \<open>One operation: the starts it reports are among those the meter records.\<close>

definition meter_step :: "meter \<Rightarrow> int \<Rightarrow> pyfloat \<Rightarrow> pyfloat \<Rightarrow> scheduler \<Rightarrow>
    (scheduler_error + PresentationEvent list) \<times> scheduler \<Rightarrow> bool" where
  "meter_step m mx w now s r \<longleftrightarrow>
     (\<exists>xs. records m mx w now s xs (snd r) \<and> subseq (starts_in m (emitted r)) xs)"

lemma map_sum_Inr: "map_sum f h r = Inr y \<longleftrightarrow> (\<exists>x. r = Inr x \<and> y = h x)"
  by (cases r) auto

lemma meter_step_none:
  "starts_of m (snd r) = starts_of m s \<Longrightarrow> starts_in m (emitted r) = [] \<Longrightarrow> meter_step m mx w now s r"
  unfolding meter_step_def using records_none by fastforce

lemma meter_step_finish:
  assumes "starts_of m t = starts_of m s" "starts_in m evs = []" "\<And>es. h (f es) = es"
  shows "meter_step m mx w now s (events_of h (finish_with t now evs f))"
proof (rule meter_step_none)
  note F = finish_with_starts [of m t now evs f]
  show "starts_of m (snd (events_of h (finish_with t now evs f))) = starts_of m s"
    using F assms(1) by (simp add: events_of_def)
  show "starts_in m (emitted (events_of h (finish_with t now evs f))) = []"
    using F assms(2,3) by (auto simp: emitted_def events_of_def map_sum_Inr split: sum.splits)
qed

lemma start_and_finish_meter:
  assumes "limit_of m (sc_policy t) = Some \<lparr>rl_max_starts = mx, rl_window_s = w\<rparr>"
    "starts_of m t = starts_of m s" "starts_in m evs = []"
  shows "meter_step m mx w now s (events_of sr_events (start_and_finish t c now evs))"
proof -
  let ?r = "attempt_start t c now"
  let ?x = "case fst ?r of Inl e \<Rightarrow> [] | Inr r \<Rightarrow> starts_in m (sr_events r)"
  have r: "records m mx w now s ?x (snd ?r)"
    using records_append [OF records_none [OF assms(2)] attempt_start_records [OF assms(1)]] by simp
  show ?thesis
  proof (cases "fst ?r")
    case (Inl e)
    then show ?thesis using r by (auto simp: meter_step_def start_and_finish_def case_sum_pair events_of_def emitted_def)
  next
    case (Inr x)
    let ?f = "finish_with (snd ?r) now (evs @ sr_events x) (\<lambda>es. result (sr_status x) c es (sr_detail x))"
    note F = finish_with_starts [of m "snd ?r" now "evs @ sr_events x" "\<lambda>es. result (sr_status x) c es (sr_detail x)"]
    have "records m mx w now s ?x (snd ?f)" using records_append [OF r records_none] F by fastforce
    moreover have "subseq (starts_in m (emitted (events_of sr_events ?f))) ?x"
      using F assms(3) Inr by (auto simp: emitted_def events_of_def result_def map_sum_Inr split: sum.splits)
    ultimately show ?thesis
      using Inr by (auto simp: meter_step_def start_and_finish_def case_sum_pair events_of_def)
  qed
qed

lemma start_due_meter:
  assumes "limit_of m (sc_policy t) = Some \<lparr>rl_max_starts = mx, rl_window_s = w\<rparr>"
    "starts_of m t = starts_of m s" "starts_in m evs = []"
  shows "meter_step m mx w now s (events_of sb_events (start_due_and_finish t now evs))"
proof -
  let ?r = "start_due t now"
  obtain xs where xs: "records m mx w now t xs (snd ?r)"
    "subseq (case fst ?r of Inl e \<Rightarrow> [] | Inr rs \<Rightarrow> starts_in m (concat (map sr_events rs))) xs"
    unfolding start_due_def using start_all_records [OF assms(1)] by blast
  have r: "records m mx w now s xs (snd ?r)"
    using records_append [OF records_none [OF assms(2)] xs(1)] by simp
  show ?thesis
  proof (cases "fst ?r")
    case (Inl e)
    then show ?thesis
      using r by (auto simp: meter_step_def start_due_and_finish_def case_sum_pair events_of_def emitted_def)
  next
    case (Inr x)
    let ?f = "finish_with (snd ?r) now (evs @ concat (map sr_events x)) (\<lambda>es. \<lparr>sb_results = x, sb_events = es\<rparr>)"
    note F = finish_with_starts [of m "snd ?r" now "evs @ concat (map sr_events x)" "\<lambda>es. \<lparr>sb_results = x, sb_events = es\<rparr>"]
    have "records m mx w now s xs (snd ?f)" using records_append [OF r records_none] F by fastforce
    moreover have "subseq (starts_in m (emitted (events_of sb_events ?f))) xs"
      using F assms(3) xs(2) Inr by (auto simp: emitted_def events_of_def map_sum_Inr split: sum.splits)
    ultimately show ?thesis
      using Inr by (auto simp: meter_step_def start_due_and_finish_def case_sum_pair events_of_def)
  qed
qed

lemma pend_frame [simp]: "starts_of m (pend s c due) = starts_of m s" "sc_policy (pend s c due) = sc_policy s"
  by (simp_all add: pend_def)

lemma submit_meter:
  assumes "limit_of m (sc_policy s) = Some \<lparr>rl_max_starts = mx, rl_window_s = w\<rparr>" "isfinite now"
  shows "meter_step m mx w now s (events_of sr_events (submit_cue s c now))"
  unfolding submit_cue_alt [OF assms(2)] Let_def
  by (auto simp: expire_frame assms(1) result_def simp del: lit_simps
      intro!: meter_step_finish start_and_finish_meter split: option.splits)

lemma step_meter:
  assumes "limit_of m (sc_policy s) = Some \<lparr>rl_max_starts = mx, rl_window_s = w\<rparr>" "isfinite now"
  shows "meter_step m mx w now s (sched_step s (q, now))"
proof -
  have id: "events_of id r = r" for r :: "(scheduler_error + PresentationEvent list) \<times> scheduler"
    by (cases r) (auto simp: events_of_def sum.map_id)
  note fin = meter_step_finish [where h = id and f = id, unfolded id]
  show ?thesis
  proof (cases q)
    case (Op_submit c)
    then show ?thesis using submit_meter [OF assms] by simp
  next
    case (Op_audio a)
    then show ?thesis
      using start_due_meter assms
      by (auto simp: notify_audio_def Let_def case_prod_beta expire_frame intro: meter_step_none
          simp: events_of_def [of _ "(Inr _, s)"] emitted_def)
  next
    case Op_tick
    then show ?thesis using start_due_meter assms by (auto simp: tick_def Let_def case_prod_beta expire_frame)
  next
    case (Op_advance g)
    show ?thesis
    proof (cases "sc_generation s < g")
      case True
      then show ?thesis using assms(2) Op_advance
        by (auto simp: advance_generation_def Let_def case_prod_beta intro!: fin)
    qed (use Op_advance in \<open>auto simp: advance_generation_def emitted_def intro!: meter_step_none\<close>)
  next
    case (Op_cancel i r)
    have "starts_in m [fst (stop_event t c now r None)] = []" for t c
      by (simp add: starts_in_def stop_event_def next_sequence_def Let_def)
    then show ?thesis
      using assms(2) Op_cancel
      by (auto simp: cancel_cue_def Let_def case_prod_beta intro!: fin split: option.splits)
  next
    case Op_reset
    then show ?thesis using assms(2) by (auto simp: reset_to_neutral_def Let_def case_prod_beta intro!: fin)
  next
    case (Op_disconnect r)
    then show ?thesis
      using assms(2) by (auto simp: disconnect_def Let_def case_prod_beta emitted_def intro!: meter_step_none)
  next
    case Op_reconnect
    have "starts_of m (snd (restore_neutrals t now)) = starts_of m t \<and>
        (\<forall>es. fst (restore_neutrals t now) = Inr es \<longrightarrow> starts_in m es = [])" for t
      using restore_layers_starts by (auto simp: restore_neutrals_def starts_in_def split: option.splits)
    then show ?thesis
      using Op_reconnect assms(2) by (auto simp: reconnect_def emitted_def intro!: meter_step_none split: sum.splits)
  qed
qed

section \<open>The limit over a run\<close>

lemma fle_trans: "fle x y \<Longrightarrow> fle y z \<Longrightarrow> fle x z"
  by (cases x; cases y; cases z) auto

lemma fsub_le: "isfinite w \<Longrightarrow> isfinite x \<Longrightarrow> isfinite y \<Longrightarrow> fle x y \<Longrightarrow> fle (fsub x w) (fsub y w)"
  by (cases x; cases y; cases w) (auto intro: fsub_mono)

lemma run_meter:
  assumes "limit_of m (sc_policy s) = Some \<lparr>rl_max_starts = mx, rl_window_s = w\<rparr>" "isfinite w"
    "sched_inv neutral_cue_id s" "dn.served s" "\<forall>p \<in> set ps. op_ok neutral_cue_id p \<and> isfinite (snd p)"
    "sorted_wrt fle (map snd ps)" "\<forall>p \<in> set ps. fle now (snd p)" "isfinite now"
    "subseq h (ds @ starts_of m s)" "rate_ok mx w (ds @ starts_of m s)" "\<forall>d \<in> set ds. fle d (fsub now w)"
  shows "\<exists>ks. subseq (h @ starts_in m (fst (sched_run s ps))) ks \<and> rate_ok mx w ks"
  using assms(1,3-11)
proof (induction ps arbitrary: s h ds now)
  case Nil
  then show ?case by auto
next
  case (Cons p ps)
  obtain q t where p: "p = (q, t)" by (cases p)
  let ?r = "sched_step s p"
  have t: "isfinite t" "fle now t" using Cons.prems(4,6) p by auto
  have g: "step_good neutral_cue_id s ?r" by (rule dn.step_ok) (use Cons.prems in auto)
  obtain xs where xs: "records m mx w t s xs (snd ?r)" "subseq (starts_in m (emitted ?r)) xs"
    using step_meter [OF Cons.prems(1) t(1), of q] by (auto simp: meter_step_def p)
  have "\<forall>d \<in> set ds. fle d (fsub t w)"
    using Cons.prems(10) fsub_le [OF assms(2) Cons.prems(7) t] fle_trans by blast
  then obtain es where es: "ds @ starts_of m s @ xs = es @ starts_of m (snd ?r)" "rate_ok mx w (es @ starts_of m (snd ?r))"
    "\<forall>d \<in> set es. fle d (fsub t w)" using xs(1) Cons.prems(9) unfolding records_def by blast
  have sub: "subseq (h @ starts_in m (emitted ?r)) (es @ starts_of m (snd ?r))"
    using list_emb_append_mono [OF Cons.prems(8) xs(2)] es(1) by simp
  have "\<exists>ks. subseq ((h @ starts_in m (emitted ?r)) @ starts_in m (fst (sched_run (snd ?r) ps))) ks \<and> rate_ok mx w ks"
  proof (rule Cons.IH [OF _ _ _ _ _ _ t(1) sub es(2,3)])
    show "limit_of m (sc_policy (snd ?r)) = Some \<lparr>rl_max_starts = mx, rl_window_s = w\<rparr>"
      using g Cons.prems(1) by (simp add: step_good_def)
    show "sched_inv neutral_cue_id (snd ?r)" using g by (simp add: step_good_def)
    show "dn.served (snd ?r)" by (rule dn.step_served [OF g Cons.prems(3)])
  qed (use Cons.prems p in auto)
  then show ?case by (simp add: Let_def)
qed

text \<open>
  C32: the rate limits hold over every run in which no cue is submitted under an identity reserved
  for a neutral cue. For the global limit, and for the limit of a
  layer, with a clock that never goes back: whenever a cue that is not exempt starts, at most
  \<open>max_starts\<close> such starts, itself included, lie within the window that ends with it, however
  operations interleave, fail or preempt one another.
\<close>

theorem scheduler_rate_limited:
  assumes "started_scheduler g pol d s" and "\<forall>p \<in> set ps. op_ok neutral_cue_id p \<and> isfinite (snd p)"
    and "sorted_wrt fle (map snd ps)"
    and "limit_of m pol = Some \<lparr>rl_max_starts = mx, rl_window_s = w\<rparr>" and "isfinite w"
  shows "rate_ok mx w (starts_in m (fst (sched_run s ps)))"
proof (cases ps)
  case Nil
  then show ?thesis by (simp add: rate_ok_def)
next
  case (Cons p qs)
  have refl: "fle t t" if "isfinite t" for t using that by (cases t) auto
  have init: "starts_of m s = []"
    using assms(1) by (auto simp: started_scheduler_def scheduler_init_def starts_of_def split: if_splits option.splits)
  have "\<exists>ks. subseq ([] @ starts_in m (fst (sched_run s ps))) ks \<and> rate_ok mx w ks"
    by (rule run_meter [where now = "snd p" and ds = "[]"])
      (use assms started_inv [OF assms(1)] Cons refl in \<open>auto simp: init rate_ok_def\<close>)
  then show ?thesis using rate_ok_subseq by auto
qed

definition demo_limits :: SchedulerPolicy where
  "demo_limits = default_scheduler_policy\<lparr>sp_global_rate_limit := Some \<lparr>rl_max_starts = 1, rl_window_s = Fin 10\<rparr>\<rparr>"

theorem scheduler_rate_limited_witness:
  "rate_ok 1 (Fin 10) (starts_in None (fst (sched_run (demo_scheduler\<lparr>sc_policy := demo_limits\<rparr>)
     [(Op_submit (demo_cue (lit ''c'') Layer_GAZE), Fin 0)])))"
proof (rule scheduler_rate_limited)
  show "started_scheduler 0 demo_limits demo_director (demo_scheduler\<lparr>sc_policy := demo_limits\<rparr>)"
    using demo_director_ok
    by (simp add: started_scheduler_def scheduler_init_def demo_scheduler_def check_policy_def demo_limits_def
        default_scheduler_policy_def director_ok_def)
qed (use demo_op_ok in \<open>simp_all add: limit_of_def demo_limits_def del: lit_simps\<close>)

section \<open>A cue under a reserved identity\<close>

lemmas sched_eval = submit_cue_def expire_def stop_leases.simps sorted_active_def validate_submission_def cue_expired_def
  start_and_finish_def attempt_start_def blockers_def conflicting_leases_def conflicts_with_def check_limits_def limited_def
  cooling_down_def within_rate_limits_def within_layer_limit_def take_over_def install_lease_def check_lease_def
  optionally_def require_finite_def start_event_def next_sequence_def record_limits_def record_start_def finish_with_def
  restore_neutrals_def sorted_layers_def result_def default_scheduler_policy_def Let_def lease_expired_def audio_key_def

text \<open>
  The identities of neutral cues are not protected. A valid gesture cue may be submitted
  under the identity of the neutral affect cue; when the affect layer is next restored the
  neutral cue replaces the gesture's lease without a stop event, and the gesture layer then
  shows a cue of the affect layer.
\<close>

theorem neutral_identity_collision:
  shows "check_cue (demo_cue (neutral_cue_id Layer_AFFECT 0) Layer_GESTURE) = None \<and>
    (\<exists>evs t c. sched_run demo_scheduler
         [(Op_submit (demo_cue (neutral_cue_id Layer_AFFECT 0) Layer_GESTURE), Fin 0),
          (Op_submit (demo_cue (lit ''a'') Layer_AFFECT), Fin 0),
          (Op_cancel (lit ''a'') Stop_CANCELLED, Fin 0)] = (evs, t) \<and>
       current_cue t Layer_GESTURE = Inr (Some c) \<and> pc_layer c = Layer_AFFECT \<and>
       filter (\<lambda>e. pe_kind e = Event_STOPPED \<and> pc_layer (pe_cue e) = Layer_GESTURE) evs = [])"
proof -
  let ?n = "neutral_cue_id Layer_AFFECT 0"
  have n: "lit ''a'' \<noteq> ?n" "?n \<noteq> lit ''a''" by (simp_all add: neutral_cue_id_def)
  have chk: "check_cue (demo_cue ?n Layer_GESTURE) = None"
    using neutral_cue_id_ok [of Layer_AFFECT 0]
    by (simp add: demo_cue_def check_cue_def identifier_eval in_namespace_def require_resources_def)
  obtain nc where nc: "neutral_cue demo_director Layer_AFFECT 0 (Fin 0) = Inr nc" "pc_cue_id nc = ?n"
    "pc_layer nc = Layer_AFFECT" "pc_generation nc = 0" "pc_neutral nc"
    using neutral_cue_ok [of demo_director 0 "Fin 0" Layer_AFFECT] demo_director_ok by (auto simp: director_ok_def)
  let ?g = "demo_cue ?n Layer_GESTURE" and ?a = "demo_cue (lit ''a'') Layer_AFFECT"
  let ?G = "\<lparr>al_cue = ?g, al_started_at = Fin 0, al_expires_at = None\<rparr>"
    and ?A = "\<lparr>al_cue = ?a, al_started_at = Fin 0, al_expires_at = None\<rparr>"
    and ?N = "\<lparr>al_cue = nc, al_started_at = Fin 0, al_expires_at = None\<rparr>"
  let ?s1 = "demo_scheduler\<lparr>sc_active := [(?n, ?G)], sc_active_by_layer := [(Layer_GESTURE, ?n)], sc_sequence := 1\<rparr>"
  let ?s2 = "demo_scheduler\<lparr>sc_active := [(?n, ?G), (lit ''a'', ?A)],
      sc_active_by_layer := [(Layer_GESTURE, ?n), (Layer_AFFECT, lit ''a'')], sc_sequence := 2\<rparr>"
  let ?s3 = "demo_scheduler\<lparr>sc_active := [(?n, ?N)], sc_active_by_layer := [(Layer_GESTURE, ?n), (Layer_AFFECT, ?n)],
      sc_sequence := 4\<rparr>"
  have sel: "pc_cue_id (demo_cue i l) = i" "pc_layer (demo_cue i l) = l" "pc_generation (demo_cue i l) = 0"
    "pc_not_after (demo_cue i l) = None" "pc_audio_binding (demo_cue i l) = None" "pc_lease_s (demo_cue i l) = None"
    "pc_resources (demo_cue i l) = {||}" "pc_cooldown_key (demo_cue i l) = None" "pc_priority (demo_cue i l) = Cue_MODEL" for i l
    by (simp_all add: demo_cue_def)
  have 1: "submit_cue demo_scheduler ?g (Fin 0) =
      (Inr (result Sched_STARTED ?g [\<lparr>pe_sequence = 1, pe_kind = Event_STARTED, pe_cue = ?g, pe_occurred_at = Fin 0,
         pe_reason = None, pe_replaced_by = None\<rparr>] None), ?s1)"
    by (simp add: demo_scheduler_def sched_eval sel)
  have 2: "submit_cue ?s1 ?a (Fin 0) =
      (Inr (result Sched_STARTED ?a [\<lparr>pe_sequence = 2, pe_kind = Event_STARTED, pe_cue = ?a, pe_occurred_at = Fin 0,
         pe_reason = None, pe_replaced_by = None\<rparr>] None), ?s2)"
    using n by (simp add: demo_scheduler_def sched_eval sel del: lit_simps)
  have 3: "cancel_cue ?s2 (lit ''a'') Stop_CANCELLED (Fin 0) =
      (Inr [\<lparr>pe_sequence = 3, pe_kind = Event_STOPPED, pe_cue = ?a, pe_occurred_at = Fin 0,
         pe_reason = Some Stop_CANCELLED, pe_replaced_by = None\<rparr>,
        \<lparr>pe_sequence = 4, pe_kind = Event_STARTED, pe_cue = nc, pe_occurred_at = Fin 0,
         pe_reason = None, pe_replaced_by = None\<rparr>], ?s3)"
    using n nc by (simp add: demo_scheduler_def cancel_cue_def remove_active_def stop_event_def sched_eval sel del: lit_simps)
  have c: "current_cue ?s3 Layer_GESTURE = Inr (Some nc)" by (simp add: current_cue_def)
  have "sched_run demo_scheduler [(Op_submit ?g, Fin 0), (Op_submit ?a, Fin 0), (Op_cancel (lit ''a'') Stop_CANCELLED, Fin 0)] =
      ([\<lparr>pe_sequence = 1, pe_kind = Event_STARTED, pe_cue = ?g, pe_occurred_at = Fin 0, pe_reason = None, pe_replaced_by = None\<rparr>,
        \<lparr>pe_sequence = 2, pe_kind = Event_STARTED, pe_cue = ?a, pe_occurred_at = Fin 0, pe_reason = None, pe_replaced_by = None\<rparr>,
        \<lparr>pe_sequence = 3, pe_kind = Event_STOPPED, pe_cue = ?a, pe_occurred_at = Fin 0,
         pe_reason = Some Stop_CANCELLED, pe_replaced_by = None\<rparr>,
        \<lparr>pe_sequence = 4, pe_kind = Event_STARTED, pe_cue = nc, pe_occurred_at = Fin 0,
         pe_reason = None, pe_replaced_by = None\<rparr>], ?s3)"
    by (simp add: 1 2 3 events_of_def emitted_def result_def Let_def del: lit_simps)
  then show ?thesis using chk c nc(3) by (auto simp: sel simp del: lit_simps)
qed

end
