(* ===== verification/SseDecoder.thy ===== *)
theory SseDecoder
  imports Utf8 PyJson
begin

text \<open>
  \<^verbatim>\<open>adapters/openai_compatible/model.py\<close>: the incremental decoder \<open>_SSEDecoder\<close> that turns
  the chunks of a \<^verbatim>\<open>text/event-stream\<close> response into the texts of its events. Bytes are numbers
  below 256, as in \<^theory_text>\<open>Utf8\<close>. The decoder is local to one response and is discarded when
  one of its methods raises, so a raising call returns the error alone.

  \<open>complete_lines\<close> is the reference view of a stream of bytes: its finished lines and
  what follows the last line feed. The decoder is shown to process exactly those lines, however
  the transport cuts the stream.
\<close>

section \<open>Decoder\<close>

datatype sse_error = Sse_line_too_long | Sse_event_too_long | Sse_not_utf8

record sse_decoder =
  sd_max_event_bytes :: int
  sd_line_buffer :: "nat list"
  sd_data_lines :: "nat list list"
  sd_event_bytes :: int
  sd_first_line :: bool

definition sse_init :: "int \<Rightarrow> sse_decoder" where
  "sse_init mx = \<lparr>sd_max_event_bytes = mx, sd_line_buffer = [], sd_data_lines = [],
     sd_event_bytes = 0, sd_first_line = True\<rparr>"

text \<open>\<open>bytes.find\<close> of one byte.\<close>

fun find_byte :: "nat \<Rightarrow> nat list \<Rightarrow> nat option" where
  "find_byte b [] = None"
| "find_byte b (c # bs) = (if c = b then Some 0 else map_option Suc (find_byte b bs))"

definition removeprefix :: "nat list \<Rightarrow> nat list \<Rightarrow> nat list" where
  "removeprefix p bs = (if take (length p) bs = p then drop (length p) bs else bs)"

text \<open>\<open>bytes.partition\<close> at one byte: the part before it, whether it occurs, the part after it.\<close>

definition partition_at :: "nat \<Rightarrow> nat list \<Rightarrow> nat list \<times> bool \<times> nat list" where
  "partition_at b bs =
     (case find_byte b bs of
        None \<Rightarrow> (bs, False, [])
      | Some i \<Rightarrow> (take i bs, True, drop (Suc i) bs))"

definition strip_cr :: "nat list \<Rightarrow> nat list" where
  "strip_cr line = (if line \<noteq> [] \<and> last line = 13 then butlast line else line)"

definition sse_dispatch :: "sse_decoder \<Rightarrow> sse_error + (pystr list \<times> sse_decoder)" where
  "sse_dispatch d =
     (if sd_data_lines d = [] then Inr ([], d)
      else
        (let payload = join_with [10] (sd_data_lines d)
         in case utf8_decode payload of
              None \<Rightarrow> Inl Sse_not_utf8
            | Some text \<Rightarrow> Inr ([text], d\<lparr>sd_data_lines := [], sd_event_bytes := 0\<rparr>)))"

definition sse_field_value :: "bool \<Rightarrow> nat list \<Rightarrow> nat list" where
  "sse_field_value separator value =
     (if \<not> separator then []
      else if value \<noteq> [] \<and> hd value = 32 then tl value else value)"

definition sse_add_data :: "sse_decoder \<Rightarrow> nat list \<Rightarrow> sse_error + (pystr list \<times> sse_decoder)" where
  "sse_add_data d value =
     (let added_size = int (length value) + (if sd_data_lines d \<noteq> [] then 1 else 0)
      in if sd_max_event_bytes d < sd_event_bytes d + added_size then Inl Sse_event_too_long
         else Inr ([], d\<lparr>sd_data_lines := sd_data_lines d @ [value],
                         sd_event_bytes := sd_event_bytes d + added_size\<rparr>))"

definition sse_consume_line :: "sse_decoder \<Rightarrow> nat list \<Rightarrow> sse_error + (pystr list \<times> sse_decoder)" where
  "sse_consume_line d raw_line =
     (let raw = (if sd_first_line d then removeprefix [0xEF, 0xBB, 0xBF] raw_line else raw_line);
          d1 = d\<lparr>sd_first_line := False\<rparr>
      in if sd_max_event_bytes d1 < int (length raw) then Inl Sse_line_too_long
         else if raw = [] then sse_dispatch d1
         else if hd raw = 58 then Inr ([], d1)
         else
           (case partition_at 58 raw of
              (field_name, separator, value) \<Rightarrow>
                if field_name \<noteq> lit ''data'' then Inr ([], d1)
                else sse_add_data d1 (sse_field_value separator value)))"

lemma sse_consume_line_frame:
  assumes "sse_consume_line d raw = Inr (es, d')"
  shows "sd_line_buffer d' = sd_line_buffer d" "sd_max_event_bytes d' = sd_max_event_bytes d"
    "\<not> sd_first_line d'"
  using assms
  by (auto simp: sse_consume_line_def sse_dispatch_def sse_add_data_def Let_def
      split: if_splits option.splits prod.splits)

lemma find_byte_less: "find_byte b bs = Some i \<Longrightarrow> i < length bs"
  by (induction bs arbitrary: i) (auto split: if_splits)

function feed_loop :: "sse_decoder \<Rightarrow> pystr list \<Rightarrow> sse_error + (pystr list \<times> sse_decoder)" where
  "feed_loop d events =
     (case find_byte 10 (sd_line_buffer d) of
        None \<Rightarrow>
          if sd_max_event_bytes d < int (length (sd_line_buffer d)) then Inl Sse_line_too_long
          else Inr (events, d)
      | Some newline \<Rightarrow>
          (case sse_consume_line (d\<lparr>sd_line_buffer := drop (Suc newline) (sd_line_buffer d)\<rparr>)
                  (strip_cr (take newline (sd_line_buffer d))) of
             Inl e \<Rightarrow> Inl e
           | Inr (es, d') \<Rightarrow> feed_loop d' (events @ es)))"
  by pat_completeness auto
termination
  by (relation "measure (\<lambda>(d, _). length (sd_line_buffer d))")
    (auto dest!: sse_consume_line_frame(1) find_byte_less)

declare feed_loop.simps [simp del]

definition sse_feed :: "sse_decoder \<Rightarrow> nat list \<Rightarrow> sse_error + (pystr list \<times> sse_decoder)" where
  "sse_feed d chunk = feed_loop (d\<lparr>sd_line_buffer := sd_line_buffer d @ chunk\<rparr>) []"

definition sse_finish :: "sse_decoder \<Rightarrow> sse_error + (pystr list \<times> sse_decoder)" where
  "sse_finish d =
     (case (if sd_line_buffer d \<noteq> []
            then sse_consume_line (d\<lparr>sd_line_buffer := []\<rparr>) (strip_cr (sd_line_buffer d))
            else Inr ([], d)) of
        Inl e \<Rightarrow> Inl e
      | Inr (es, d1) \<Rightarrow>
          (case sse_dispatch d1 of
             Inl e \<Rightarrow> Inl e
           | Inr (fs, d2) \<Rightarrow> Inr (es @ fs, d2)))"

text \<open>The chunks of a response, one after the other.\<close>

fun sse_feed_all :: "sse_decoder \<Rightarrow> nat list list \<Rightarrow> sse_error + (pystr list \<times> sse_decoder)" where
  "sse_feed_all d [] = Inr ([], d)"
| "sse_feed_all d (c # cs) =
     (case sse_feed d c of
        Inl e \<Rightarrow> Inl e
      | Inr (es, d1) \<Rightarrow>
          (case sse_feed_all d1 cs of
             Inl e \<Rightarrow> Inl e
           | Inr (fs, d2) \<Rightarrow> Inr (es @ fs, d2)))"

section \<open>Lines of a stream\<close>

fun complete_lines :: "nat list \<Rightarrow> nat list list \<times> nat list" where
  "complete_lines [] = ([], [])"
| "complete_lines (b # bs) =
     (case complete_lines bs of
        (ls, r) \<Rightarrow>
          if b = 10 then ([] # ls, r)
          else (case ls of [] \<Rightarrow> ([], b # r) | l # ls' \<Rightarrow> ((b # l) # ls', r)))"

lemma complete_lines_rest: "fst (complete_lines bs) = [] \<Longrightarrow> snd (complete_lines bs) = bs"
  by (induction bs) (auto split: prod.splits if_splits list.splits)

lemma complete_lines_no_newline: "find_byte 10 bs = None \<Longrightarrow> complete_lines bs = ([], bs)"
  by (induction bs) (auto split: if_splits)

lemma complete_lines_line:
  "10 \<notin> set l \<Longrightarrow>
   complete_lines (l @ 10 # bs) = (l # fst (complete_lines bs), snd (complete_lines bs))"
  by (induction l) (auto split: prod.splits)

lemma find_byte_split:
  "find_byte b bs = Some i \<Longrightarrow> bs = take i bs @ b # drop (Suc i) bs \<and> b \<notin> set (take i bs)"
  by (induction bs arbitrary: i) (auto split: if_splits)

lemma find_byte_None: "find_byte b bs = None \<longleftrightarrow> b \<notin> set bs"
  by (induction bs) auto

lemma complete_lines_found:
  assumes "find_byte 10 bs = Some i"
  shows "complete_lines bs =
    (take i bs # fst (complete_lines (drop (Suc i) bs)), snd (complete_lines (drop (Suc i) bs)))"
  using find_byte_split [OF assms] complete_lines_line [of "take i bs" "drop (Suc i) bs"] by metis

text \<open>More input extends the list of lines; the unfinished line is continued.\<close>

lemma complete_lines_append:
  "complete_lines (a @ b) =
     (fst (complete_lines a) @ fst (complete_lines (snd (complete_lines a) @ b)),
      snd (complete_lines (snd (complete_lines a) @ b)))"
proof (induction "length a" arbitrary: a rule: less_induct)
  case less
  show ?case
  proof (cases "find_byte 10 a")
    case None
    then show ?thesis by (simp add: complete_lines_no_newline)
  next
    case (Some i)
    define l r where "l = take i a" and "r = drop (Suc i) a"
    have a: "a = l @ 10 # r" and l: "10 \<notin> set l"
      using find_byte_split [OF Some] by (simp_all add: l_def r_def)
    have "length r < length a" by (simp add: a)
    then have "complete_lines (r @ b) =
        (fst (complete_lines r) @ fst (complete_lines (snd (complete_lines r) @ b)),
         snd (complete_lines (snd (complete_lines r) @ b)))"
      by (rule less)
    then show ?thesis by (simp add: a complete_lines_line [OF l])
  qed
qed

section \<open>The decoder processes the lines\<close>

fun consume_lines :: "sse_decoder \<Rightarrow> nat list list \<Rightarrow> sse_error + (pystr list \<times> sse_decoder)" where
  "consume_lines d [] = Inr ([], d)"
| "consume_lines d (l # ls) =
     (case sse_consume_line d (strip_cr l) of
        Inl e \<Rightarrow> Inl e
      | Inr (es, d1) \<Rightarrow>
          (case consume_lines d1 ls of
             Inl e \<Rightarrow> Inl e
           | Inr (fs, d2) \<Rightarrow> Inr (es @ fs, d2)))"

lemma consume_lines_append:
  "consume_lines d (ls @ ms) =
     (case consume_lines d ls of
        Inl e \<Rightarrow> Inl e
      | Inr (es, d1) \<Rightarrow>
          (case consume_lines d1 ms of
             Inl e \<Rightarrow> Inl e
           | Inr (fs, d2) \<Rightarrow> Inr (es @ fs, d2)))"
  by (induction ls arbitrary: d) (auto split: sum.splits)

lemma sse_consume_line_buffer:
  "sse_consume_line (d\<lparr>sd_line_buffer := b\<rparr>) l =
     map_sum id (\<lambda>(es, d'). (es, d'\<lparr>sd_line_buffer := b\<rparr>)) (sse_consume_line d l)"
  by (simp add: sse_consume_line_def sse_dispatch_def sse_add_data_def Let_def split: prod.splits option.splits)

lemma consume_lines_buffer:
  "consume_lines (d\<lparr>sd_line_buffer := b\<rparr>) ls =
     map_sum id (\<lambda>(es, d'). (es, d'\<lparr>sd_line_buffer := b\<rparr>)) (consume_lines d ls)"
  by (induction ls arbitrary: d)
    (auto simp: sse_consume_line_buffer split: sum.splits)

lemma consume_lines_frame:
  assumes "consume_lines d ls = Inr (es, d')"
  shows "sd_line_buffer d' = sd_line_buffer d" "sd_max_event_bytes d' = sd_max_event_bytes d"
  using assms
  by (induction ls arbitrary: d es)
    (auto split: sum.splits prod.splits dest: sse_consume_line_frame(1,2))

lemma feed_loop_lines:
  "feed_loop d events =
     (case consume_lines d (fst (complete_lines (sd_line_buffer d))) of
        Inl e \<Rightarrow> Inl e
      | Inr (es, d1) \<Rightarrow>
          (if sd_max_event_bytes d < int (length (snd (complete_lines (sd_line_buffer d))))
           then Inl Sse_line_too_long
           else Inr (events @ es, d1\<lparr>sd_line_buffer := snd (complete_lines (sd_line_buffer d))\<rparr>)))"
proof (induction d events rule: feed_loop.induct)
  case (1 d events)
  show ?case
  proof (cases "find_byte 10 (sd_line_buffer d)")
    case None
    then show ?thesis by (simp add: feed_loop.simps [of d] complete_lines_no_newline)
  next
    case (Some i)
    let ?d = "d\<lparr>sd_line_buffer := drop (Suc i) (sd_line_buffer d)\<rparr>"
    let ?l = "strip_cr (take i (sd_line_buffer d))"
    show ?thesis
    proof (cases "sse_consume_line d ?l")
      case (Inl e)
      then show ?thesis
        by (simp add: feed_loop.simps [of d] Some complete_lines_found sse_consume_line_buffer)
    next
      case (Inr r)
      obtain es d1 where r: "r = (es, d1)" by force
      let ?d1 = "d1\<lparr>sd_line_buffer := drop (Suc i) (sd_line_buffer d)\<rparr>"
      have step: "sse_consume_line ?d ?l = Inr (es, ?d1)"
        by (simp add: sse_consume_line_buffer Inr r)
      have mx: "sd_max_event_bytes d1 = sd_max_event_bytes d"
        using sse_consume_line_frame(2) [of d] Inr r by blast
      note IH = "1.IH" [OF Some step refl]
      show ?thesis
        by (simp add: feed_loop.simps [of d] Some step IH complete_lines_found Inr r mx
            consume_lines_buffer split: sum.splits)
    qed
  qed
qed

text \<open>One call of \<open>feed\<close>, in terms of the lines its chunk completes.\<close>

lemma sse_feed_lines:
  "sse_feed d chunk =
     (let bs = sd_line_buffer d @ chunk
      in case consume_lines d (fst (complete_lines bs)) of
           Inl e \<Rightarrow> Inl e
         | Inr (es, d1) \<Rightarrow>
             (if sd_max_event_bytes d < int (length (snd (complete_lines bs)))
              then Inl Sse_line_too_long
              else Inr (es, d1\<lparr>sd_line_buffer := snd (complete_lines bs)\<rparr>)))"
  by (simp add: sse_feed_def feed_loop_lines consume_lines_buffer Let_def split: sum.splits)

section \<open>Chunking\<close>

definition between_lines :: "sse_decoder \<Rightarrow> bool" where
  "between_lines d \<longleftrightarrow>
     10 \<notin> set (sd_line_buffer d) \<and> int (length (sd_line_buffer d)) \<le> sd_max_event_bytes d"

lemma complete_lines_rest_no_newline: "10 \<notin> set (snd (complete_lines bs))"
  by (induction bs) (auto split: prod.splits list.splits)

lemma complete_lines_none [simp]: "10 \<notin> set bs \<Longrightarrow> complete_lines bs = ([], bs)"
  by (simp add: complete_lines_no_newline find_byte_None)

lemma sse_feed_between:
  assumes "sse_feed d c = Inr (es, d')"
  shows "between_lines d'" "sd_max_event_bytes d' = sd_max_event_bytes d"
    "sd_line_buffer d' = snd (complete_lines (sd_line_buffer d @ c))"
  using assms complete_lines_rest_no_newline
  by (auto simp: sse_feed_lines Let_def between_lines_def split: sum.splits if_splits
      simp: consume_lines_frame(2))

lemma sse_feed_empty: "between_lines d \<Longrightarrow> sse_feed d [] = Inr ([], d)"
  by (simp add: sse_feed_lines between_lines_def)

text \<open>A chunk that was accepted can be glued to the next one.\<close>

lemma sse_feed_append:
  assumes "sse_feed d a = Inr (es, d1)"
  shows "sse_feed d (a @ b) =
    (case sse_feed d1 b of Inl e \<Rightarrow> Inl e | Inr (fs, d2) \<Rightarrow> Inr (es @ fs, d2))"
proof -
  let ?cl = "complete_lines (sd_line_buffer d @ a)"
  from assms obtain d0 where d0: "consume_lines d (fst ?cl) = Inr (es, d0)"
    and d1: "d1 = d0\<lparr>sd_line_buffer := snd ?cl\<rparr>"
    by (auto simp: sse_feed_lines Let_def split: sum.splits if_splits)
  have mx: "sd_max_event_bytes d0 = sd_max_event_bytes d" using consume_lines_frame(2) [OF d0] .
  have "complete_lines (sd_line_buffer d @ a @ b) =
      (fst ?cl @ fst (complete_lines (snd ?cl @ b)), snd (complete_lines (snd ?cl @ b)))"
    using complete_lines_append [of "sd_line_buffer d @ a" b] by simp
  then show ?thesis
    by (simp add: sse_feed_lines d1 mx consume_lines_append d0 consume_lines_buffer
        split: sum.splits)
qed

lemma sse_feed_all_concat:
  "between_lines d \<Longrightarrow> sse_feed_all d cs = Inr (es, d') \<Longrightarrow> sse_feed d (concat cs) = Inr (es, d')"
proof (induction cs arbitrary: d es)
  case Nil
  then show ?case by (simp add: sse_feed_empty)
next
  case (Cons c cs)
  from Cons.prems(2) obtain es1 d1 es2
    where step: "sse_feed d c = Inr (es1, d1)" "sse_feed_all d1 cs = Inr (es2, d')" "es = es1 @ es2"
    by (auto split: sum.splits)
  have "sse_feed d1 (concat cs) = Inr (es2, d')"
    using step(2) sse_feed_between(1) [OF step(1)] by (intro Cons.IH)
  then show ?case by (simp add: sse_feed_append [OF step(1)] step(3))
qed

text \<open>A stream none of whose lines, terminators included, exceeds the limit.\<close>

definition lines_short :: "int \<Rightarrow> nat list \<Rightarrow> bool" where
  "lines_short mx bs \<longleftrightarrow>
     list_all (\<lambda>l. int (length l) \<le> mx) (fst (complete_lines bs) @ [snd (complete_lines bs)])"

lemma lines_short_prefix:
  assumes "lines_short mx (r @ b)" "10 \<notin> set r"
  shows "int (length r) \<le> mx"
proof (cases "find_byte 10 b")
  case None
  then show ?thesis using assms by (simp add: lines_short_def find_byte_None)
next
  case (Some i)
  have "complete_lines (r @ b) = complete_lines ((r @ take i b) @ 10 # drop (Suc i) b)"
    using find_byte_split [OF Some] by (metis append.assoc)
  also have "\<dots> = ((r @ take i b) # fst (complete_lines (drop (Suc i) b)), snd (complete_lines (drop (Suc i) b)))"
    using assms(2) find_byte_split [OF Some] by (intro complete_lines_line) simp
  finally show ?thesis using assms(1) by (simp add: lines_short_def)
qed

lemma lines_short_rest:
  assumes "lines_short mx (a @ b)"
  shows "lines_short mx (snd (complete_lines a) @ b)"
  using assms by (simp add: lines_short_def complete_lines_append [of a])

lemma sse_feed_all_eq:
  "between_lines d \<Longrightarrow> lines_short (sd_max_event_bytes d) (sd_line_buffer d @ concat cs) \<Longrightarrow>
   sse_feed_all d cs = sse_feed d (concat cs)"
proof (induction cs arbitrary: d)
  case Nil
  then show ?case by (simp add: sse_feed_empty)
next
  case (Cons c cs)
  let ?cl = "complete_lines (sd_line_buffer d @ c)"
  have rest: "lines_short (sd_max_event_bytes d) (snd ?cl @ concat cs)"
    using Cons.prems(2) lines_short_rest [of _ "sd_line_buffer d @ c" "concat cs"] by simp
  show ?case
  proof (cases "sse_feed d c")
    case (Inl e)
    have "int (length (snd ?cl)) \<le> sd_max_event_bytes d"
      using rest complete_lines_rest_no_newline by (rule lines_short_prefix)
    then have "consume_lines d (fst ?cl) = Inl e"
      using Inl by (auto simp: sse_feed_lines Let_def split: sum.splits if_splits)
    then show ?thesis
      using complete_lines_append [of "sd_line_buffer d @ c" "concat cs"]
      by (simp add: Inl sse_feed_lines [of d "c @ _"] consume_lines_append)
  next
    case (Inr r)
    obtain es d1 where r: "sse_feed d c = Inr (es, d1)" using Inr by (cases r) auto
    have "sse_feed_all d1 cs = sse_feed d1 (concat cs)"
      using sse_feed_between [OF r] rest by (intro Cons.IH) simp_all
    then show ?thesis by (simp add: r sse_feed_append [OF r])
  qed
qed

section \<open>Bounds\<close>

definition sse_inv :: "sse_decoder \<Rightarrow> bool" where
  "sse_inv d \<longleftrightarrow>
     sd_event_bytes d = int (length (join_with [10] (sd_data_lines d))) \<and>
     sd_event_bytes d \<le> sd_max_event_bytes d"

lemma join_with_snoc:
  "join_with sep (xs @ [x]) = (if xs = [] then x else join_with sep xs @ sep @ x)"
  by (induction sep xs rule: join_with.induct) simp_all

lemma sse_dispatch_inv:
  assumes "sse_inv d" "sse_dispatch d = Inr (es, d')"
  shows "sse_inv d'" "e \<in> set es \<Longrightarrow> int (length (utf8_encode e)) \<le> sd_max_event_bytes d"
  using assms
  by (auto simp: sse_dispatch_def sse_inv_def split: if_splits option.splits dest: utf8_decode_inverse)

lemma sse_consume_line_inv:
  assumes "sse_inv d" "sse_consume_line d l = Inr (es, d')"
  shows "sse_inv d'" "e \<in> set es \<Longrightarrow> int (length (utf8_encode e)) \<le> sd_max_event_bytes d"
proof -
  have d1: "sse_inv (d\<lparr>sd_first_line := False\<rparr>)" using assms(1) by (simp add: sse_inv_def)
  show "sse_inv d'"
    using assms(2) d1 sse_dispatch_inv(1) [OF d1]
    by (auto simp: sse_consume_line_def sse_add_data_def sse_inv_def join_with_snoc Let_def
        split: if_splits prod.splits)
  show "e \<in> set es \<Longrightarrow> int (length (utf8_encode e)) \<le> sd_max_event_bytes d"
    using assms(2) sse_dispatch_inv(2) [OF d1]
    by (auto simp: sse_consume_line_def sse_add_data_def Let_def split: if_splits prod.splits)
qed

lemma consume_lines_inv:
  assumes "sse_inv d" "consume_lines d ls = Inr (es, d')"
  shows "sse_inv d' \<and> (\<forall>e \<in> set es. int (length (utf8_encode e)) \<le> sd_max_event_bytes d)"
  using assms
proof (induction ls arbitrary: d es)
  case (Cons l ls)
  from Cons.prems(2) obtain es1 d1 es2
    where step: "sse_consume_line d (strip_cr l) = Inr (es1, d1)"
      "consume_lines d1 ls = Inr (es2, d')" "es = es1 @ es2"
    by (auto split: sum.splits)
  from Cons.IH [OF _ step(2)] show ?case
    using sse_consume_line_inv [OF Cons.prems(1) step(1)] sse_consume_line_frame(2) [OF step(1)] step(3)
    by auto
qed simp

lemma sse_feed_inv:
  assumes "sse_inv d" "sse_feed d c = Inr (es, d')"
  shows "sse_inv d' \<and> (\<forall>e \<in> set es. int (length (utf8_encode e)) \<le> sd_max_event_bytes d)"
proof -
  from assms(2) obtain d0 r where d0: "consume_lines d (fst (complete_lines (sd_line_buffer d @ c))) = Inr (es, d0)"
    and d': "d' = d0\<lparr>sd_line_buffer := r\<rparr>"
    by (auto simp: sse_feed_lines Let_def split: sum.splits if_splits)
  from consume_lines_inv [OF assms(1) d0] show ?thesis by (simp add: d' sse_inv_def)
qed

lemma sse_init_ok: "0 \<le> mx \<Longrightarrow> sse_inv (sse_init mx) \<and> between_lines (sse_init mx)"
  by (simp add: sse_inv_def between_lines_def sse_init_def)

lemma sse_chunking_irrelevant_eq:
  assumes "0 \<le> mx" "lines_short mx (concat cs)"
  shows "sse_feed_all (sse_init mx) cs = sse_feed (sse_init mx) (concat cs)"
  using sse_init_ok [OF assms(1)] assms(2) by (intro sse_feed_all_eq) (simp_all add: sse_init_def)

text \<open>
  C33: The transport may cut a response anywhere. If feeding the chunks one by one succeeds, the
  events and the final decoder are those of feeding the whole stream at once; the buffered line
  and every event stay within the configured limit. When no line of the stream exceeds the
  limit, the two agree in failure as well.
\<close>

theorem sse_chunking_irrelevant:
  assumes "0 \<le> mx"
  shows "(\<forall>es d. sse_feed_all (sse_init mx) cs = Inr (es, d) \<longrightarrow>
        sse_feed (sse_init mx) (concat cs) = Inr (es, d) \<and>
        int (length (sd_line_buffer d)) \<le> mx \<and> sd_event_bytes d \<le> mx \<and>
        (\<forall>e \<in> set es. int (length (utf8_encode e)) \<le> mx)) \<and>
    (lines_short mx (concat cs) \<longrightarrow>
        sse_feed_all (sse_init mx) cs = sse_feed (sse_init mx) (concat cs))"
proof (intro conjI allI impI)
  have mx: "sd_max_event_bytes (sse_init mx) = mx" by (simp add: sse_init_def)
  note ok = sse_init_ok [OF assms]
  show "sse_feed_all (sse_init mx) cs = sse_feed (sse_init mx) (concat cs)"
    if "lines_short mx (concat cs)"
    using assms that by (rule sse_chunking_irrelevant_eq)
  fix es d
  assume "sse_feed_all (sse_init mx) cs = Inr (es, d)"
  then have whole: "sse_feed (sse_init mx) (concat cs) = Inr (es, d)"
    using ok by (intro sse_feed_all_concat) simp_all
  then show "sse_feed (sse_init mx) (concat cs) = Inr (es, d)" .
  show "int (length (sd_line_buffer d)) \<le> mx" "sd_event_bytes d \<le> mx"
    using sse_feed_between [OF whole] sse_feed_inv [OF _ whole] ok
    by (auto simp: between_lines_def sse_inv_def mx)
  show "\<forall>e \<in> set es. int (length (utf8_encode e)) \<le> mx"
    using sse_feed_inv [OF _ whole] ok by (simp add: mx)
qed

definition demo_chunks :: "nat list list" where
  "demo_chunks = [lit ''data: a'' @ [13], [10, 100, 97], lit ''ta:b'' @ [10, 10], lit ''da'']"

theorem sse_chunking_irrelevant_witness:
  "sse_feed_all (sse_init 1024) demo_chunks = sse_feed (sse_init 1024) (concat demo_chunks)"
proof -
  have "lines_short 1024 (concat demo_chunks)" by (simp add: lines_short_def demo_chunks_def)
  moreover have "(0::int) \<le> 1024" by simp
  ultimately show ?thesis using sse_chunking_irrelevant by blast
qed

text \<open>
  The exception the theorem allows for: a line of exactly the permitted length that ends in
  carriage return and line feed is refused when the transport cuts between the two, because
  the carriage return is still counted, and is accepted otherwise.
\<close>

lemma sse_crlf_at_limit:
  assumes "length l = 1024" "10 \<notin> set l" "hd l = 58"
  shows "sse_feed_all (sse_init 1024) [l @ [13], [10]] = Inl Sse_line_too_long"
    and "sse_feed (sse_init 1024) (l @ [13, 10]) = Inr ([], sse_init 1024\<lparr>sd_first_line := False\<rparr>)"
proof -
  obtain m where l: "l = 58 # m" using assms(1,3) by (cases l) auto
  show "sse_feed_all (sse_init 1024) [l @ [13], [10]] = Inl Sse_line_too_long"
    using assms by (simp add: sse_feed_lines sse_init_def)
  have "complete_lines (l @ [13, 10]) = ([l @ [13]], [])"
    using complete_lines_line [of "l @ [13]" "[]"] assms(2) by simp
  moreover have "sse_consume_line (sse_init 1024) l = Inr ([], sse_init 1024\<lparr>sd_first_line := False\<rparr>)"
    using assms(1) by (simp add: sse_consume_line_def removeprefix_def sse_init_def l)
  ultimately show "sse_feed (sse_init 1024) (l @ [13, 10]) = Inr ([], sse_init 1024\<lparr>sd_first_line := False\<rparr>)"
    by (simp add: sse_feed_lines strip_cr_def Let_def sse_init_def)
qed

section \<open>Round trip\<close>

text \<open>How a server sends a text: one \<open>data\<close> line per line of it, then an empty line.\<close>

definition byte_lines :: "nat list \<Rightarrow> nat list list" where
  "byte_lines bs = fst (complete_lines bs) @ [snd (complete_lines bs)]"

definition sse_format :: "pystr \<Rightarrow> nat list" where
  "sse_format t = concat (map (\<lambda>l. lit ''data: '' @ l @ [10]) (byte_lines (utf8_encode t))) @ [10]"

lemma byte_lines_ne [simp]: "byte_lines bs \<noteq> []"
  by (simp add: byte_lines_def)

lemma byte_lines_Cons:
  "byte_lines (b # bs) = (if b = 10 then [] # byte_lines bs else (b # hd (byte_lines bs)) # tl (byte_lines bs))"
  by (auto simp: byte_lines_def split: prod.splits list.splits)

lemma join_with_Cons: "ls \<noteq> [] \<Longrightarrow> join_with sep (l # ls) = l @ sep @ join_with sep ls"
  by (cases ls) simp_all

lemma join_with_hd: "ls \<noteq> [] \<Longrightarrow> join_with sep ((b # hd ls) # tl ls) = b # join_with sep ls"
  by (cases ls; cases "tl ls") auto

lemma join_byte_lines: "join_with [10] (byte_lines bs) = bs"
proof (induction bs)
  case (Cons b bs)
  then show ?case by (auto simp: byte_lines_Cons join_with_Cons join_with_hd)
qed (simp add: byte_lines_def)

lemma byte_lines_no_newline: "l \<in> set (byte_lines bs) \<Longrightarrow> 10 \<notin> set l"
proof (induction bs arbitrary: l)
  case (Cons b bs)
  then show ?case
    using hd_in_set [OF byte_lines_ne [of bs]] by (auto simp: byte_lines_Cons split: if_splits dest: list.set_sel(2) [OF byte_lines_ne])
qed (simp add: byte_lines_def)

lemma in_join_with: "l \<in> set ls \<Longrightarrow> set l \<subseteq> set (join_with sep ls) \<and> length l \<le> length (join_with sep ls)"
  by (induction sep ls rule: join_with.induct) auto

lemma join_with_prefix_le: "length (join_with sep ls) \<le> length (join_with sep (ls @ ms))"
  by (induction sep ls rule: join_with.induct) (cases ms; auto)+

lemma utf8_char_ascii: "b \<in> set (utf8_char c) \<Longrightarrow> b < 0x80 \<Longrightarrow> b = c"
  by (auto simp: utf8_char_def split: if_splits)

lemma utf8_encode_ascii: "b \<in> set (utf8_encode t) \<Longrightarrow> b < 0x80 \<Longrightarrow> b \<in> set t"
  by (induction t) (auto dest: utf8_char_ascii)

lemma consume_data_line:
  assumes "sse_inv d" "13 \<notin> set l" "int (length l) + 6 \<le> sd_max_event_bytes d"
    and "int (length (join_with [10] (sd_data_lines d @ [l]))) \<le> sd_max_event_bytes d"
  shows "sse_consume_line d (strip_cr (lit ''data: '' @ l)) =
    Inr ([], d\<lparr>sd_data_lines := sd_data_lines d @ [l],
      sd_event_bytes := int (length (join_with [10] (sd_data_lines d @ [l]))), sd_first_line := False\<rparr>)"
proof -
  have "l \<noteq> [] \<Longrightarrow> last l \<noteq> 13" using assms(2) last_in_set [of l] by metis
  then have "last (lit ''data: '' @ l) \<noteq> 13" by simp
  then have "strip_cr (lit ''data: '' @ l) = lit ''data: '' @ l" by (simp add: strip_cr_def)
  then show ?thesis
    using assms(1,3,4)
    by (auto simp: sse_consume_line_def removeprefix_def partition_at_def sse_field_value_def
        sse_add_data_def sse_inv_def join_with_snoc Let_def)
qed

lemma consume_data_lines:
  assumes "sse_inv d" "\<forall>l \<in> set ls. 13 \<notin> set l"
    and "int (length (join_with [10] (sd_data_lines d @ ls))) + 6 \<le> sd_max_event_bytes d"
  shows "consume_lines d (map (\<lambda>l. lit ''data: '' @ l) ls) =
    Inr ([], d\<lparr>sd_data_lines := sd_data_lines d @ ls,
      sd_event_bytes := int (length (join_with [10] (sd_data_lines d @ ls))),
      sd_first_line := (sd_first_line d \<and> ls = [])\<rparr>)"
  using assms
proof (induction ls arbitrary: d)
  case Nil
  then show ?case by (simp add: sse_inv_def)
next
  case (Cons l ls)
  let ?j = "int (length (join_with [10] (sd_data_lines d @ [l])))"
  let ?d1 = "d\<lparr>sd_data_lines := sd_data_lines d @ [l], sd_event_bytes := ?j, sd_first_line := False\<rparr>"
  have j: "?j \<le> int (length (join_with [10] (sd_data_lines d @ l # ls)))"
    using join_with_prefix_le [of "[10]" "sd_data_lines d @ [l]" ls] by simp
  have "length l \<le> length (join_with [10] (sd_data_lines d @ l # ls))"
    using in_join_with [of l "sd_data_lines d @ l # ls" "[10]"] by simp
  then have step: "sse_consume_line d (strip_cr (lit ''data: '' @ l)) = Inr ([], ?d1)"
    using Cons.prems j by (intro consume_data_line) auto
  have "sse_inv ?d1" using Cons.prems(3) j by (simp add: sse_inv_def)
  from Cons.IH [OF this] Cons.prems(2,3) step show ?case by (simp del: lit_simps)
qed

lemma complete_lines_format:
  "\<forall>l \<in> set ls. 10 \<notin> set l \<Longrightarrow>
   complete_lines (concat (map (\<lambda>l. lit ''data: '' @ l @ [10]) ls) @ 10 # bs) =
     (map (\<lambda>l. lit ''data: '' @ l) ls @ [] # fst (complete_lines bs), snd (complete_lines bs))"
proof (induction ls)
  case (Cons l ls)
  have "10 \<notin> set (lit ''data: '' @ l)" using Cons.prems by simp
  from complete_lines_line [OF this] Cons show ?case by (simp del: lit_simps)
qed (simp split: prod.splits)

text \<open>One formatted event is read back as its text, and leaves the decoder between events.\<close>

lemma consume_formatted:
  assumes "scalar_text t" "13 \<notin> set t" "int (length (utf8_encode t)) + 6 \<le> sd_max_event_bytes d"
    and "sd_data_lines d = []" "sd_event_bytes d = 0"
  shows "consume_lines d (map (\<lambda>l. lit ''data: '' @ l) (byte_lines (utf8_encode t)) @ [[]]) =
    Inr ([t], d\<lparr>sd_first_line := False\<rparr>)"
proof -
  let ?bs = "utf8_encode t"
  have "13 \<notin> set ?bs" using assms(2) utf8_encode_ascii by fastforce
  then have cr: "\<forall>l \<in> set (byte_lines ?bs). 13 \<notin> set l"
    using in_join_with [of _ "byte_lines ?bs" "[10]"] by (auto simp: join_byte_lines)
  have "consume_lines d (map (\<lambda>l. lit ''data: '' @ l) (byte_lines ?bs)) =
      Inr ([], d\<lparr>sd_data_lines := byte_lines ?bs, sd_event_bytes := int (length ?bs), sd_first_line := False\<rparr>)"
    using consume_data_lines [of d "byte_lines ?bs"] assms cr
    by (simp add: sse_inv_def join_byte_lines del: lit_simps)
  moreover have "sse_consume_line (d\<lparr>sd_data_lines := byte_lines ?bs, sd_event_bytes := int (length ?bs),
      sd_first_line := False\<rparr>) [] = Inr ([t], d\<lparr>sd_first_line := False\<rparr>)"
    using assms by (simp add: sse_consume_line_def sse_dispatch_def join_byte_lines utf8_roundtrip)
  ultimately show ?thesis by (simp add: consume_lines_append strip_cr_def del: lit_simps)
qed

lemma sse_feed_formatted:
  assumes "\<forall>t \<in> set ts. scalar_text t \<and> 13 \<notin> set t \<and> int (length (utf8_encode t)) + 6 \<le> sd_max_event_bytes d"
    and "sd_data_lines d = []" "sd_event_bytes d = 0"
  shows "consume_lines d (fst (complete_lines (concat (map sse_format ts)))) =
      Inr (ts, d\<lparr>sd_first_line := (sd_first_line d \<and> ts = [])\<rparr>) \<and>
    snd (complete_lines (concat (map sse_format ts))) = [] \<and>
    list_all (\<lambda>l. int (length l) \<le> sd_max_event_bytes d) (fst (complete_lines (concat (map sse_format ts))))"
  using assms
proof (induction ts arbitrary: d)
  case (Cons t ts)
  let ?ls = "byte_lines (utf8_encode t)"
  let ?rest = "concat (map sse_format ts)"
  have cl: "complete_lines (concat (map sse_format (t # ts))) =
      ((map (\<lambda>l. lit ''data: '' @ l) ?ls @ [[]]) @ fst (complete_lines ?rest), snd (complete_lines ?rest))"
    using complete_lines_format [of ?ls ?rest] byte_lines_no_newline
    by (simp add: sse_format_def del: lit_simps)
  have ev: "consume_lines d (map (\<lambda>l. lit ''data: '' @ l) ?ls @ [[]]) = Inr ([t], d\<lparr>sd_first_line := False\<rparr>)"
    using Cons.prems by (intro consume_formatted) auto
  have "consume_lines (d\<lparr>sd_first_line := False\<rparr>) (fst (complete_lines ?rest)) =
      Inr (ts, d\<lparr>sd_first_line := False\<rparr>) \<and> snd (complete_lines ?rest) = [] \<and>
      list_all (\<lambda>l. int (length l) \<le> sd_max_event_bytes d) (fst (complete_lines ?rest))"
    using Cons.IH [of "d\<lparr>sd_first_line := False\<rparr>"] Cons.prems by simp
  moreover have "int (length l) + 6 \<le> sd_max_event_bytes d" if "l \<in> set ?ls" for l
    using in_join_with [OF that, of "[10]"] Cons.prems(1) by (auto simp: join_byte_lines)
  moreover have "0 \<le> sd_max_event_bytes d" using Cons.prems(1) by simp
  ultimately show ?case
    unfolding cl fst_conv snd_conv consume_lines_append [of d "_ @ [[]]"] ev
    by (auto simp: list_all_iff algebra_simps simp del: lit_simps)
qed simp

text \<open>
  Texts sent as server-sent events are received unchanged and in order, with nothing left
  over, wherever the byte stream is cut, as long as no text has a carriage return and each fits
  the limit with its field name.
\<close>

theorem sse_roundtrip:
  assumes "\<forall>t \<in> set ts. scalar_text t \<and> 13 \<notin> set t \<and> int (length (utf8_encode t)) + 6 \<le> mx"
    and "0 \<le> mx" and "concat cs = concat (map sse_format ts)"
  shows "\<exists>d. sse_feed_all (sse_init mx) cs = Inr (ts, d) \<and> sse_finish d = Inr ([], d)"
proof -
  let ?d = "sse_init mx" and ?bs = "concat (map sse_format ts)"
  have init: "sd_max_event_bytes ?d = mx" "sd_data_lines ?d = []" "sd_event_bytes ?d = 0"
    "sd_line_buffer ?d = []" by (simp_all add: sse_init_def)
  let ?d' = "?d\<lparr>sd_first_line := (sd_first_line ?d \<and> ts = [])\<rparr>"
  have f: "consume_lines ?d (fst (complete_lines ?bs)) = Inr (ts, ?d')" "snd (complete_lines ?bs) = []"
    "list_all (\<lambda>l. int (length l) \<le> mx) (fst (complete_lines ?bs))"
    using sse_feed_formatted [of ts ?d] assms(1) by (simp_all add: init)
  have "sse_feed_all ?d cs = sse_feed ?d ?bs"
    using sse_chunking_irrelevant_eq [OF assms(2), of cs] f assms(2)
    by (simp add: lines_short_def assms(3))
  also have "\<dots> = Inr (ts, ?d')"
    using assms(2) by (simp add: sse_feed_lines init f)
  finally show ?thesis by (auto simp: sse_finish_def sse_dispatch_def init)
qed

end
