(* ===== verification/JsonParse.thy ===== *)
theory JsonParse
  imports PyFloat PyJson "HOL-Library.AList"
begin

text \<open>
  \<open>json.loads\<close> of the Python standard library on a \<open>str\<close>: white space, the three
  constants, \<open>NaN\<close> and the infinities, integers, floats, strings with their escapes, arrays
  and objects. A repeated key keeps the place of its first occurrence and takes the last value.
  An integer literal of more than 4300 digits raises a plain \<open>ValueError\<close>, which is not a
  \<open>JSONDecodeError\<close>. The interpreter's limit on nesting is not modelled.

  The parser descends with fuel. Twice the length of the text is enough
  (\<open>json_loads_no_fuel\<close>), and what \<open>json_dumps\<close> renders is read back
  (\<open>json_loads_dumps\<close>).
\<close>

section \<open>Parser\<close>

datatype jvalue =
  VNull | VBool bool | VInt int | VFloat pyfloat | VStr pystr | VArr "jvalue list"
  | VObj "(pystr \<times> jvalue) list"

datatype json_failure = Json_syntax | Json_digits | Json_fuel

definition json_ws :: "nat \<Rightarrow> bool" where
  "json_ws c \<longleftrightarrow> c = 32 \<or> c = 9 \<or> c = 10 \<or> c = 13"

definition skip_ws :: "pystr \<Rightarrow> pystr" where
  "skip_ws s = dropWhile json_ws s"

definition is_digit :: "nat \<Rightarrow> bool" where
  "is_digit c \<longleftrightarrow> 48 \<le> c \<and> c \<le> 57"

definition digits_value :: "pystr \<Rightarrow> nat" where
  "digits_value ds = foldl (\<lambda>n d. n * 10 + (d - 48)) 0 ds"

definition hex_digit_value :: "nat \<Rightarrow> nat option" where
  "hex_digit_value c =
     (if is_digit c then Some (c - 48)
      else if 97 \<le> c \<and> c \<le> 102 then Some (c - 87)
      else if 65 \<le> c \<and> c \<le> 70 then Some (c - 55)
      else None)"

fun read_hex4 :: "pystr \<Rightarrow> (nat \<times> pystr) option" where
  "read_hex4 (a # b # c # d # r) =
     (case (hex_digit_value a, hex_digit_value b, hex_digit_value c, hex_digit_value d) of
        (Some w, Some x, Some y, Some z) \<Rightarrow> Some (((w * 16 + x) * 16 + y) * 16 + z, r)
      | _ \<Rightarrow> None)"
| "read_hex4 _ = None"

definition high_surrogate :: "nat \<Rightarrow> bool" where
  "high_surrogate c \<longleftrightarrow> 0xD800 \<le> c \<and> c < 0xDC00"

definition low_surrogate :: "nat \<Rightarrow> bool" where
  "low_surrogate c \<longleftrightarrow> 0xDC00 \<le> c \<and> c < 0xE000"

text \<open>After \<open>\u\<close>: one code unit, or a surrogate pair as one character.\<close>

definition read_unicode :: "pystr \<Rightarrow> (nat \<times> pystr) option" where
  "read_unicode s =
     (case read_hex4 s of
        None \<Rightarrow> None
      | Some (h, r) \<Rightarrow>
          (if high_surrogate h \<and> take 2 r = [92, 117] then
             (case read_hex4 (drop 2 r) of
                None \<Rightarrow> Some (h, r)
              | Some (l, r') \<Rightarrow>
                  (if low_surrogate l then Some (0x10000 + (h - 0xD800) * 1024 + (l - 0xDC00), r')
                   else Some (h, r)))
           else Some (h, r)))"

definition simple_escape :: "nat \<Rightarrow> nat option" where
  "simple_escape e =
     (if e = 34 \<or> e = 92 \<or> e = 47 then Some e
      else if e = 98 then Some 8
      else if e = 102 then Some 12
      else if e = 110 then Some 10
      else if e = 114 then Some 13
      else if e = 116 then Some 9
      else None)"

lemma read_hex4_shorter: "read_hex4 s = Some (c, r) \<Longrightarrow> length r < length s"
  by (induction s rule: read_hex4.induct) (auto split: option.splits)

lemma read_unicode_shorter: "read_unicode s = Some (c, r) \<Longrightarrow> length r < length s"
  by (auto simp: read_unicode_def split: option.splits if_splits dest!: read_hex4_shorter)

text \<open>After the opening quote: the text of the string and what follows the closing quote.\<close>

function scan_string :: "pystr \<Rightarrow> (pystr \<times> pystr) option" where
  "scan_string [] = None"
| "scan_string (c # r) =
     (if c = 34 then Some ([], r)
      else if c = 92 then
        (case r of
           [] \<Rightarrow> None
         | e # r' \<Rightarrow>
             if e = 117 then
               (case read_unicode r' of
                  None \<Rightarrow> None
                | Some (u, r'') \<Rightarrow> read_more u (scan_string r''))
             else
               (case simple_escape e of
                  None \<Rightarrow> None
                | Some u \<Rightarrow> read_more u (scan_string r')))
      else if c < 32 then None
      else read_more c (scan_string r))"
  by pat_completeness auto
termination
  by (relation "measure length") (auto dest: read_unicode_shorter)

declare scan_string.simps(2) [simp del]

text \<open>Numbers: an integer part, and a fraction and an exponent when they are complete.\<close>

definition scan_fraction :: "pystr \<Rightarrow> pystr \<times> pystr" where
  "scan_fraction s =
     (if s \<noteq> [] \<and> hd s = 46 \<and> tl s \<noteq> [] \<and> is_digit (hd (tl s))
      then (takeWhile is_digit (tl s), dropWhile is_digit (tl s))
      else ([], s))"

definition scan_exponent :: "pystr \<Rightarrow> (bool \<times> pystr) option \<times> pystr" where
  "scan_exponent s =
     (if s \<noteq> [] \<and> (hd s = 101 \<or> hd s = 69) then
        (let r = tl s;
             signed = (r \<noteq> [] \<and> (hd r = 43 \<or> hd r = 45));
             neg = (signed \<and> hd r = 45);
             ds = (if signed then tl r else r)
         in if ds \<noteq> [] \<and> is_digit (hd ds)
            then (Some (neg, takeWhile is_digit ds), dropWhile is_digit ds)
            else (None, s))
      else (None, s))"

definition decimal_value :: "pystr \<Rightarrow> pystr \<Rightarrow> (bool \<times> pystr) option \<Rightarrow> rat" where
  "decimal_value int_part frc ex =
     (let m = of_nat (digits_value (int_part @ frc)) / 10 ^ length frc
      in case ex of
           None \<Rightarrow> m
         | Some (neg, ds) \<Rightarrow> (if neg then m / 10 ^ digits_value ds else m * 10 ^ digits_value ds))"

definition scan_int_part :: "pystr \<Rightarrow> pystr" where
  "scan_int_part body = (if hd body = 48 then [48] else takeWhile is_digit body)"

definition scan_number :: "pystr \<Rightarrow> json_failure + (jvalue \<times> pystr)" where
  "scan_number s =
     (let neg = (s \<noteq> [] \<and> hd s = 45);
          body = (if neg then tl s else s)
      in if body = [] \<or> \<not> is_digit (hd body) then Inl Json_syntax
         else
           (let int_part = scan_int_part body;
                after_int = drop (length int_part) body;
                (frc, after_frac) = scan_fraction after_int;
                (ex, rest) = scan_exponent after_frac
            in if frc = [] \<and> ex = None then
                 (if 4300 < length int_part then Inl Json_digits
                  else Inr (VInt (if neg then - int (digits_value int_part)
                                  else int (digits_value int_part)), rest))
               else Inr (VFloat ((if neg then fneg else id) (round_double (decimal_value int_part frc ex))),
                         rest)))"

definition literal_at :: "pystr \<Rightarrow> pystr \<Rightarrow> bool" where
  "literal_at w s \<longleftrightarrow> take (length w) s = w"

definition scan_atom :: "pystr \<Rightarrow> json_failure + (jvalue \<times> pystr)" where
  "scan_atom s =
     (if s = [] then Inl Json_syntax
      else if hd s = 34 then
        (case scan_string (tl s) of None \<Rightarrow> Inl Json_syntax | Some (t, r) \<Rightarrow> Inr (VStr t, r))
      else if literal_at (lit ''null'') s then Inr (VNull, drop 4 s)
      else if literal_at (lit ''true'') s then Inr (VBool True, drop 4 s)
      else if literal_at (lit ''false'') s then Inr (VBool False, drop 5 s)
      else if literal_at (lit ''NaN'') s then Inr (VFloat NaN, drop 3 s)
      else if literal_at (lit ''Infinity'') s then Inr (VFloat PosInf, drop 8 s)
      else if literal_at (lit ''-Infinity'') s then Inr (VFloat NegInf, drop 9 s)
      else scan_number s)"

text \<open>
  \<open>scan_value\<close> stands at the first character of a value, \<open>scan_elements\<close> at the first
  character of an element of an array, \<open>scan_members\<close> at that of a member of an object;
  the latter two carry what the array or object holds so far.
\<close>

fun scan_value :: "nat \<Rightarrow> pystr \<Rightarrow> json_failure + (jvalue \<times> pystr)"
  and scan_elements :: "nat \<Rightarrow> jvalue list \<Rightarrow> pystr \<Rightarrow> json_failure + (jvalue \<times> pystr)"
  and scan_members :: "nat \<Rightarrow> (pystr \<times> jvalue) list \<Rightarrow> pystr \<Rightarrow> json_failure + (jvalue \<times> pystr)" where
  "scan_value 0 s = Inl Json_fuel"
| "scan_value (Suc n) s =
     (if s \<noteq> [] \<and> hd s = 91 then
        (let r = skip_ws (tl s)
         in if r \<noteq> [] \<and> hd r = 93 then Inr (VArr [], tl r) else scan_elements n [] r)
      else if s \<noteq> [] \<and> hd s = 123 then
        (let r = skip_ws (tl s)
         in if r \<noteq> [] \<and> hd r = 125 then Inr (VObj [], tl r) else scan_members n [] r)
      else scan_atom s)"
| "scan_elements 0 acc s = Inl Json_fuel"
| "scan_elements (Suc n) acc s =
     (case scan_value n s of
        Inl e \<Rightarrow> Inl e
      | Inr (v, r) \<Rightarrow>
          (let r = skip_ws r
           in if r = [] then Inl Json_syntax
              else if hd r = 93 then Inr (VArr (acc @ [v]), tl r)
              else if hd r = 44 then scan_elements n (acc @ [v]) (skip_ws (tl r))
              else Inl Json_syntax))"
| "scan_members 0 acc s = Inl Json_fuel"
| "scan_members (Suc n) acc s =
     (if s = [] \<or> hd s \<noteq> 34 then Inl Json_syntax
      else
        (case scan_string (tl s) of
           None \<Rightarrow> Inl Json_syntax
         | Some (k, r) \<Rightarrow>
             (let r = skip_ws r
              in if r = [] \<or> hd r \<noteq> 58 then Inl Json_syntax
                 else
                   (case scan_value n (skip_ws (tl r)) of
                      Inl e \<Rightarrow> Inl e
                    | Inr (v, r) \<Rightarrow>
                        (let r = skip_ws r; acc' = AList.update k v acc
                         in if r = [] then Inl Json_syntax
                            else if hd r = 125 then Inr (VObj acc', tl r)
                            else if hd r = 44 then scan_members n acc' (skip_ws (tl r))
                            else Inl Json_syntax)))))"

definition json_fuel :: "pystr \<Rightarrow> nat" where
  "json_fuel s = 2 * length s + 2"

definition json_loads :: "pystr \<Rightarrow> json_failure + jvalue" where
  "json_loads s =
     (if s \<noteq> [] \<and> hd s = 0xFEFF then Inl Json_syntax
      else
        (case scan_value (json_fuel s) (skip_ws s) of
           Inl e \<Rightarrow> Inl e
         | Inr (v, r) \<Rightarrow> (if skip_ws r = [] then Inr v else Inl Json_syntax)))"

section \<open>The fuel is enough\<close>

lemma skip_ws_le: "length (skip_ws s) \<le> length s"
  by (simp add: skip_ws_def length_dropWhile_le)

lemma read_more_Some: "read_more c o' = Some (t, r) \<longleftrightarrow> (\<exists>t'. o' = Some (t', r) \<and> t = c # t')"
  by (cases o') (auto simp: read_more_def)

lemma scan_string_shorter: "scan_string s = Some (t, r) \<Longrightarrow> length r < length s"
proof (induction "length s" arbitrary: s t r rule: less_induct)
  case less
  have IH: "length r' < length s'" if "scan_string s' = Some (t', r')" "length s' < length s" for s' t' r'
    using less(1) that by blast
  show ?case
    using less(2)
    by (cases s)
      (auto simp: read_more_Some scan_string.simps(2) split: if_splits list.splits option.splits
        dest!: IH read_unicode_shorter)
qed

text \<open>A scanner consumes part of its input; \<open>Json_fuel\<close> is not one of its failures.\<close>

definition scans :: "pystr \<Rightarrow> json_failure + ('a \<times> pystr) \<Rightarrow> bool" where
  "scans s r \<longleftrightarrow> (case r of Inl e \<Rightarrow> e \<noteq> Json_fuel | Inr (_, t) \<Rightarrow> length t < length s)"

lemma scans_simps [simp]:
  "scans s (Inl e) \<longleftrightarrow> e \<noteq> Json_fuel" "scans s (Inr (v, t)) \<longleftrightarrow> length t < length s"
  by (simp_all add: scans_def)

lemma length_dropWhile_tl: "s \<noteq> [] \<Longrightarrow> length (dropWhile P (tl s)) < length s"
  using length_dropWhile_le [of P "tl s"] by (cases s) auto

lemma scan_fraction_le: "scan_fraction s = (f, r) \<Longrightarrow> length r \<le> length s"
  using length_dropWhile_tl [of s is_digit] by (auto simp: scan_fraction_def split: if_splits)

lemma scan_exponent_le: "scan_exponent s = (x, r) \<Longrightarrow> length r \<le> length s"
  using length_dropWhile_le [of is_digit "tl s"] length_dropWhile_le [of is_digit "tl (tl s)"]
  by (auto simp: scan_exponent_def Let_def split: if_splits)

lemma scan_number_scans: "scans s (scan_number s)"
proof -
  have "length r < length s"
    if "body = (if s \<noteq> [] \<and> hd s = 45 then tl s else s)" "body \<noteq> []" "is_digit (hd body)"
      "int_part = scan_int_part body"
      "scan_fraction (drop (length int_part) body) = (f, a)" "scan_exponent a = (x, r)"
    for body int_part f a x r
  proof -
    have "body = hd body # tl body" using that(2) by simp
    then have "int_part \<noteq> []" using that(3,4) by (metis list.discI scan_int_part_def takeWhile.simps(2))
    then have "length (drop (length int_part) body) < length body" using that(2) by simp
    moreover have "length body \<le> length s" using that(1) by simp
    ultimately show ?thesis using scan_fraction_le [OF that(5)] scan_exponent_le [OF that(6)] by linarith
  qed
  then show ?thesis by (simp add: scan_number_def Let_def split: prod.splits)
qed

lemma literal_at_scans: "literal_at w s \<Longrightarrow> w \<noteq> [] \<Longrightarrow> length (drop (length w) s) < length s"
  by (cases s; cases w) (auto simp: literal_at_def)

lemma scan_atom_scans: "scans s (scan_atom s)"
proof (cases "s = []")
  case True
  then show ?thesis by (simp add: scan_atom_def)
next
  case False
  then have "scans s (case scan_string (tl s) of None \<Rightarrow> Inl Json_syntax | Some (t, r) \<Rightarrow> Inr (VStr t, r))"
    using scan_string_shorter [of "tl s"] by (cases s) (force split: option.splits)+
  moreover have "scans s (if literal_at w s then Inr (v, drop (length w) s) else r)"
    if "w \<noteq> []" "scans s r" for w v r
    using literal_at_scans that by simp
  note lits = this [of "lit ''null''" _ VNull] this [of "lit ''true''" _ "VBool True"]
    this [of "lit ''false''" _ "VBool False"] this [of "lit ''NaN''" _ "VFloat NaN"]
    this [of "lit ''Infinity''" _ "VFloat PosInf"] this [of "lit ''-Infinity''" _ "VFloat NegInf"]
  ultimately show ?thesis
    using False lits scan_number_scans [of s] by (simp add: scan_atom_def del: lit_simps)
qed

lemma skip_ws_tl: "s \<noteq> [] \<Longrightarrow> length (skip_ws (tl s)) < length s"
  by (simp add: skip_ws_def length_dropWhile_tl)

lemma scans_mono: "scans t r \<Longrightarrow> length t \<le> length s \<Longrightarrow> scans s r"
  by (cases r) (auto simp: scans_def)

lemma scans_case:
  assumes "scans s r" "\<And>v t. r = Inr (v, t) \<Longrightarrow> length t < length s \<Longrightarrow> scans s (f v t)"
  shows "scans s (case r of Inl e \<Rightarrow> Inl e | Inr (v, t) \<Rightarrow> f v t)"
  using assms by (cases r) (auto simp: scans_def)

declare scan_value.simps [simp del] scan_elements.simps [simp del] scan_members.simps [simp del]

lemma scan_scans:
  "(2 * length s < n \<longrightarrow> scans s (scan_value n s)) \<and>
   (2 * length s + 1 < n \<longrightarrow> scans s (scan_elements n acc s)) \<and>
   (2 * length s + 1 < n \<longrightarrow> scans s (scan_members n acc' s))"
proof (induction n arbitrary: s acc acc')
  case (Suc n)
  note IH = Suc [THEN conjunct1, THEN mp] Suc [THEN conjunct2, THEN conjunct1, THEN mp]
    Suc [THEN conjunct2, THEN conjunct2, THEN mp]
  have after: "scans s (f (skip_ws (tl r)))" if "length r < length s" "2 * length s < Suc n" "r \<noteq> []"
      "\<And>t. 2 * length t + 1 < n \<Longrightarrow> scans t (f t)" for r :: pystr and f :: "pystr \<Rightarrow> json_failure + jvalue \<times> pystr"
    using that skip_ws_tl [of r] by (intro scans_mono [OF that(4)]) auto
  have v: "scans s (scan_value (Suc n) s)" if n: "2 * length s < Suc n"
  proof (cases "s = []")
    case True
    then show ?thesis using scan_atom_scans [of "[]"] by (simp add: scan_value.simps)
  next
    case False
    let ?r = "skip_ws (tl s)"
    have r: "length ?r < length s" "2 * length ?r + 1 < n" using skip_ws_tl [OF False] n by auto
    have "scans s (scan_elements n [] ?r)" "scans s (scan_members n [] ?r)"
      using r by (auto intro!: scans_mono [of ?r _ s] IH(2,3))
    moreover have "length (tl ?r) < length s" using r by simp
    ultimately show ?thesis using False scan_atom_scans [of s] by (auto simp: scan_value.simps Let_def)
  qed
  have e: "scans s (scan_elements (Suc n) acc s)" if n: "2 * length s + 1 < Suc n"
    unfolding scan_elements.simps
  proof (rule scans_case)
    show "scans s (scan_value n s)" using IH(1) n by simp
    fix v and t :: pystr assume t: "length t < length s"
    let ?r = "skip_ws t"
    have r: "length ?r < length s" using t skip_ws_le [of t] by linarith
    have "scans s (scan_elements n (acc @ [v]) (skip_ws (tl ?r)))" if "?r \<noteq> []"
      using r n that IH(2) by (intro after) auto
    moreover have "length (tl ?r) < length s" using r by simp
    ultimately show "scans s (let r = skip_ws t in if r = [] then Inl Json_syntax
        else if hd r = 93 then Inr (VArr (acc @ [v]), tl r)
        else if hd r = 44 then scan_elements n (acc @ [v]) (skip_ws (tl r)) else Inl Json_syntax)"
      by (simp add: Let_def)
  qed
  have m: "scans s (scan_members (Suc n) acc' s)" if n: "2 * length s + 1 < Suc n"
  proof (cases "s = [] \<or> hd s \<noteq> 34 \<or> scan_string (tl s) = None")
    case True
    then show ?thesis by (auto simp: scan_members.simps)
  next
    case False
    then obtain k r where k: "scan_string (tl s) = Some (k, r)" and s: "s \<noteq> []" "hd s = 34" by auto
    have "length r < length s" using scan_string_shorter [OF k] by simp
    then have r: "length (skip_ws r) < length s" using skip_ws_le [of r] by linarith
    let ?f = "\<lambda>t. case scan_value n t of Inl e \<Rightarrow> Inl e | Inr (v, r) \<Rightarrow>
      (let r = skip_ws r; acc'' = AList.update k v acc'
       in if r = [] then Inl Json_syntax
          else if hd r = 125 then Inr (VObj acc'', tl r)
          else if hd r = 44 then scan_members n acc'' (skip_ws (tl r))
          else Inl Json_syntax)"
    have "scans s (?f (skip_ws (tl (skip_ws r))))" if ne: "skip_ws r \<noteq> []"
    proof (rule scans_case)
      have le: "length (skip_ws (tl (skip_ws r))) < length s" using skip_ws_tl [OF ne] r by linarith
      show "scans s (scan_value n (skip_ws (tl (skip_ws r))))"
        using le n by (intro scans_mono [OF IH(1)]) auto
      fix v and t :: pystr assume t: "length t < length s"
      let ?t = "skip_ws t"
      have t': "length ?t < length s" using t skip_ws_le [of t] by linarith
      have "scans s (scan_members n (AList.update k v acc') (skip_ws (tl ?t)))" if "?t \<noteq> []"
        using t' n that IH(3) by (intro after) auto
      moreover have "length (tl ?t) < length s" using t' by simp
      ultimately show "scans s (let r = ?t; acc'' = AList.update k v acc'
         in if r = [] then Inl Json_syntax
            else if hd r = 125 then Inr (VObj acc'', tl r)
            else if hd r = 44 then scan_members n acc'' (skip_ws (tl r))
            else Inl Json_syntax)" by (simp add: Let_def)
    qed
    then show ?thesis using s k by (simp add: scan_members.simps Let_def)
  qed
  show ?case using v e m by blast
qed simp

lemma json_loads_no_fuel: "json_loads s \<noteq> Inl Json_fuel"
proof -
  have "scans (skip_ws s) (scan_value (json_fuel s) (skip_ws s))"
    using scan_scans [of "skip_ws s" "json_fuel s"] skip_ws_le [of s] by (simp add: json_fuel_def)
  then show ?thesis by (auto simp: json_loads_def scans_def split: sum.splits)
qed

section \<open>Reading what was rendered\<close>

fun jvalue_of :: "json \<Rightarrow> jvalue" where
  "jvalue_of JNull = VNull"
| "jvalue_of (JBool b) = VBool b"
| "jvalue_of (JInt i) = VInt i"
| "jvalue_of (JStr s) = VStr s"
| "jvalue_of (JArr xs) = VArr (map jvalue_of xs)"
| "jvalue_of (JObj kvs) = VObj (map (\<lambda>(k, v). (k, jvalue_of v)) kvs)"

text \<open>Values Python can hold and read back: objects have distinct keys, integers at most 4300 digits.\<close>

fun json_clean :: "json \<Rightarrow> bool" where
  "json_clean (JInt i) \<longleftrightarrow> length (nat_digits (nat \<bar>i\<bar>)) \<le> 4300"
| "json_clean (JArr xs) \<longleftrightarrow> list_all json_clean xs"
| "json_clean (JObj kvs) \<longleftrightarrow> distinct (map fst kvs) \<and> list_all (\<lambda>(k, v). json_clean v) kvs"
| "json_clean _ \<longleftrightarrow> True"

lemma hex_digit_value_digit: "d < 16 \<Longrightarrow> hex_digit_value (hex_digit d) = Some d"
  by (auto simp: hex_digit_value_def hex_digit_def is_digit_def)

lemma scan_json_char: "scan_string (json_char c @ r) = read_more c (scan_string r)"
proof -
  have "read_unicode (48 # 48 # hex_digit (c div 16) # hex_digit (c mod 16) # r) = Some (c, r)" if "c < 32"
  proof -
    have "hex_digit_value 48 = Some 0" by (simp add: hex_digit_value_def is_digit_def)
    then show ?thesis
      using that hex_digit_value_digit [of "c div 16"] hex_digit_value_digit [of "c mod 16"]
      by (simp add: read_unicode_def high_surrogate_def div_less_iff_less_mult)
  qed
  then show ?thesis by (simp add: json_char_def scan_string.simps(2) simple_escape_def)
qed

lemma scan_json_string: "scan_string (concat (map json_char s) @ 34 # r) = Some (s, r)"
  by (induction s) (simp_all add: scan_json_char read_more_def scan_string.simps(2) [of 34])

lemma is_digit_add [simp]: "is_digit (48 + d) \<longleftrightarrow> d < 10"
  by (auto simp: is_digit_def)

lemma nat_digits_digit: "\<forall>d \<in> set (nat_digits n). is_digit d"
proof (induction n rule: nat_digits.induct)
  case (1 n)
  then show ?case by (simp add: nat_digits.simps [of n])
qed

lemma nat_digits_ne [simp]: "nat_digits n \<noteq> []"
  by (simp add: nat_digits.simps [of n])

lemma nat_digits_hd_digit [simp]: "is_digit (hd (nat_digits n @ s))"
  using bspec [OF nat_digits_digit [of n] hd_in_set [OF nat_digits_ne]] by (simp add: hd_append)

lemma digits_value_snoc: "digits_value (ds @ [d]) = digits_value ds * 10 + (d - 48)"
  by (simp add: digits_value_def)

lemma digits_value_nat: "digits_value (nat_digits n) = n"
proof (induction n rule: nat_digits.induct)
  case (1 n)
  then show ?case
    by (subst nat_digits.simps) (simp add: digits_value_snoc, simp add: digits_value_def)
qed

lemma nat_digits_hd: "0 < n \<Longrightarrow> hd (nat_digits n) \<noteq> 48"
proof (induction n rule: nat_digits.induct)
  case (1 n)
  then show ?case by (subst nat_digits.simps) (simp add: hd_append)
qed

text \<open>What may follow a value in a rendered text.\<close>

definition value_ends :: "pystr \<Rightarrow> bool" where
  "value_ends r \<longleftrightarrow> r = [] \<or> hd r = 44 \<or> hd r = 93 \<or> hd r = 125"

lemma value_ends_simps [simp]:
  "value_ends []" "value_ends (c # r) \<longleftrightarrow> c = 44 \<or> c = 93 \<or> c = 125"
  by (simp_all add: value_ends_def)

lemma takeWhile_digits:
  "\<forall>d \<in> set ds. is_digit d \<Longrightarrow> value_ends r \<Longrightarrow> takeWhile is_digit (ds @ r) = ds"
  by (induction ds) (cases r; auto simp: is_digit_def)+

lemma scan_after_int: "value_ends r \<Longrightarrow> scan_fraction r = ([], r) \<and> scan_exponent r = (None, r)"
  by (cases r) (auto simp: scan_fraction_def scan_exponent_def)

lemma scan_nat:
  assumes "value_ends r"
  shows "scan_int_part (nat_digits n @ r) = nat_digits n"
proof (cases "n = 0")
  case True
  then show ?thesis by (simp add: nat_digits.simps [of 0] scan_int_part_def)
next
  case False
  then show ?thesis
    using nat_digits_hd [of n] takeWhile_digits [OF nat_digits_digit assms] by (simp add: hd_append scan_int_part_def)
qed

lemma scan_number_nat:
  assumes "value_ends r" "length (nat_digits n) \<le> 4300"
  shows "scan_number (nat_digits n @ r) = Inr (VInt (int n), r)"
    and "scan_number (45 # nat_digits n @ r) = Inr (VInt (- int n), r)"
proof -
  have hd: "is_digit (hd (nat_digits n @ r))" "hd (nat_digits n @ r) \<noteq> 45"
    using nat_digits_hd_digit [of n r] by (auto simp: is_digit_def simp del: nat_digits_hd_digit)
  show "scan_number (nat_digits n @ r) = Inr (VInt (int n), r)"
    "scan_number (45 # nat_digits n @ r) = Inr (VInt (- int n), r)"
    using hd assms(2)
    by (simp_all add: scan_number_def Let_def scan_nat [OF assms(1)] scan_after_int [OF assms(1)] digits_value_nat
        del: hd_append2)
qed

lemma literal_at_simps [simp]:
  "literal_at [] s" "\<not> literal_at (a # w) []"
  "literal_at (a # w) (c # s) \<longleftrightarrow> c = a \<and> literal_at w s"
  by (auto simp: literal_at_def)

lemma scan_atom_number:
  assumes "s \<noteq> []" "is_digit (hd s) \<or> (hd s = 45 \<and> tl s \<noteq> [] \<and> is_digit (hd (tl s)))"
  shows "scan_atom s = scan_number s"
proof -
  obtain c cs where s: "s = c # cs" using assms(1) by (cases s) auto
  have c: "c = 45 \<or> 48 \<le> c \<and> c \<le> 57" "c = 45 \<longrightarrow> cs \<noteq> [] \<and> hd cs \<le> 57"
    using assms(2) by (auto simp: s is_digit_def)
  then have "c \<noteq> 34" "c \<noteq> 110" "c \<noteq> 116" "c \<noteq> 102" "c \<noteq> 78" "c \<noteq> 73" by linarith+
  moreover have "\<not> literal_at (lit ''Infinity'') cs" if "c = 45"
    using c(2) that by (cases cs) simp_all
  ultimately show ?thesis by (auto simp: scan_atom_def s)
qed

lemma scan_atom_int:
  assumes "value_ends r" "length (nat_digits (nat \<bar>i\<bar>)) \<le> 4300"
  shows "scan_atom (str_int i @ r) = Inr (VInt i, r)"
proof -
  have "scan_atom (str_int i @ r) = scan_number (str_int i @ r)"
    by (intro scan_atom_number) (auto simp: str_int_def simp del: hd_append2)
  then show ?thesis
    using scan_number_nat [OF assms] by (auto simp: str_int_def)
qed

text \<open>A rendered value starts with a character that is not white space.\<close>

lemma json_dumps_start: "\<exists>c cs. json_dumps v = c # cs \<and> \<not> json_ws c \<and> c \<noteq> 93 \<and> c \<noteq> 0xFEFF"
proof (cases v)
  case (JInt i)
  have "\<exists>c cs. nat_digits n = c # cs \<and> \<not> json_ws c \<and> c \<noteq> 93 \<and> c \<noteq> 0xFEFF" for n
    using nat_digits_hd_digit [of n "[]"]
    by (cases "nat_digits n") (auto simp: is_digit_def json_ws_def simp del: nat_digits_hd_digit)
  then show ?thesis using JInt by (auto simp: str_int_def json_ws_def)
qed (auto simp: json_ws_def json_string_def)

lemma skip_ws_dumps: "skip_ws (json_dumps v @ r) = json_dumps v @ r"
  using json_dumps_start [of v] by (auto simp: skip_ws_def)

lemma skip_ws_Cons [simp]: "\<not> json_ws c \<Longrightarrow> skip_ws (c # r) = c # r"
  by (simp add: skip_ws_def)

lemma scan_rendered_elements:
  assumes "\<And>x r m. x \<in> set xs \<Longrightarrow> value_ends r \<Longrightarrow> 2 * length (json_dumps x @ r) < m \<Longrightarrow>
      scan_value m (json_dumps x @ r) = Inr (jvalue_of x, r)"
    and "xs \<noteq> []" "2 * length (join_with [44] (map json_dumps xs) @ 93 # r) + 1 < n"
  shows "scan_elements n acc (join_with [44] (map json_dumps xs) @ 93 # r) =
    Inr (VArr (acc @ map jvalue_of xs), r)"
  using assms
proof (induction xs arbitrary: n acc)
  case (Cons x xs)
  obtain m where n: "n = Suc m" using Cons.prems(3) by (cases n) auto
  show ?case
  proof (cases xs)
    case Nil
    then have "scan_value m (json_dumps x @ 93 # r) = Inr (jvalue_of x, 93 # r)"
      using Cons.prems(1) [of x "93 # r" m] Cons.prems(3) by (simp add: n)
    then show ?thesis by (simp add: n Nil scan_elements.simps json_ws_def)
  next
    case (Cons y ys)
    let ?r = "join_with [44] (map json_dumps xs) @ 93 # r"
    have join: "join_with [44] (map json_dumps (x # xs)) @ 93 # r = json_dumps x @ 44 # ?r"
      by (simp add: Cons)
    have "scan_value m (json_dumps x @ 44 # ?r) = Inr (jvalue_of x, 44 # ?r)"
      using Cons.prems(1) [of x "44 # ?r" m] Cons.prems(3) unfolding join by (simp add: n)
    moreover have "scan_elements m (acc @ [jvalue_of x]) ?r = Inr (VArr ((acc @ [jvalue_of x]) @ map jvalue_of xs), r)"
      using Cons.prems Cons join by (intro Cons.IH) (auto simp: n)
    moreover have "skip_ws ?r = ?r"
      using skip_ws_dumps [of y] by (cases ys) (simp_all add: Cons)
    ultimately show ?thesis unfolding join by (simp add: n scan_elements.simps json_ws_def)
  qed
qed simp

definition render_member :: "pystr \<times> json \<Rightarrow> pystr" where
  "render_member = (\<lambda>(k, v). json_string k @ [58] @ json_dumps v)"

lemma update_fresh: "k \<notin> fst ` set acc \<Longrightarrow> AList.update k v acc = acc @ [(k, v)]"
  by (induction acc) auto

lemma scan_rendered_members:
  assumes "\<And>k v r m. (k, v) \<in> set kvs \<Longrightarrow> value_ends r \<Longrightarrow> 2 * length (json_dumps v @ r) < m \<Longrightarrow>
      scan_value m (json_dumps v @ r) = Inr (jvalue_of v, r)"
    and "kvs \<noteq> []" "distinct (map fst acc @ map fst kvs)"
    and "2 * length (join_with [44] (map render_member kvs) @ 125 # r) + 1 < n"
  shows "scan_members n acc (join_with [44] (map render_member kvs) @ 125 # r) =
    Inr (VObj (acc @ map (\<lambda>(k, v). (k, jvalue_of v)) kvs), r)"
  using assms
proof (induction kvs arbitrary: n acc)
  case (Cons kv kvs)
  obtain k v where kv: "kv = (k, v)" by force
  obtain m where n: "n = Suc m" using Cons.prems(4) by (cases n) auto
  have mem: "(k, v) \<in> set (kv # kvs)" by (simp add: kv)
  have fresh: "AList.update k (jvalue_of v) acc = acc @ [(k, jvalue_of v)]"
    using Cons.prems(3) by (intro update_fresh) (auto simp: kv)
  have key: "scan_string (concat (map json_char k) @ 34 # 58 # s) = Some (k, 58 # s)" for s
    by (rule scan_json_string)
  have render: "render_member kv @ s = 34 # concat (map json_char k) @ 34 # 58 # json_dumps v @ s" for s
    by (simp add: render_member_def kv json_string_def)
  have len: "length (render_member kv) = length (concat (map json_char k)) + 3 + length (json_dumps v)"
    using arg_cong [OF render [of "[]"], of length] by simp
  show ?case
  proof (cases kvs)
    case Nil
    have "scan_value m (json_dumps v @ 125 # r) = Inr (jvalue_of v, 125 # r)"
      using Cons.prems(1) [OF mem, of "125 # r" m] Cons.prems(4) by (simp add: n Nil len del: length_concat)
    then show ?thesis
      by (simp add: n Nil render scan_members.simps key skip_ws_dumps json_ws_def fresh Let_def) (simp add: kv)
  next
    case (Cons y ys)
    let ?r = "join_with [44] (map render_member kvs) @ 125 # r"
    have join: "join_with [44] (map render_member (kv # kvs)) @ 125 # r = render_member kv @ 44 # ?r"
      by (simp add: Cons)
    have "scan_value m (json_dumps v @ 44 # ?r) = Inr (jvalue_of v, 44 # ?r)"
      using Cons.prems(1) [OF mem, of "44 # ?r" m] Cons.prems(4) unfolding join by (simp add: n len del: length_concat)
    moreover have "scan_members m (acc @ [(k, jvalue_of v)]) ?r =
        Inr (VObj ((acc @ [(k, jvalue_of v)]) @ map (\<lambda>(k, v). (k, jvalue_of v)) kvs), r)"
      using Cons.prems Cons join by (intro Cons.IH) (auto simp: n kv render)
    moreover have "skip_ws ?r = ?r"
      by (cases ys; cases y) (simp_all add: Cons render_member_def json_string_def json_ws_def)
    ultimately show ?thesis unfolding join
      by (simp add: n render scan_members.simps key skip_ws_dumps json_ws_def fresh Let_def) (simp add: kv)
  qed
qed simp

lemma scan_rendered:
  "json_clean v \<Longrightarrow> value_ends r \<Longrightarrow> 2 * length (json_dumps v @ r) < n \<Longrightarrow>
   scan_value n (json_dumps v @ r) = Inr (jvalue_of v, r)"
proof (induction v arbitrary: r n)
  case (JInt i)
  obtain m where n: "n = Suc m" using JInt.prems(3) by (cases n) auto
  have "str_int i \<noteq> []" by (simp add: str_int_def)
  moreover have "hd (str_int i @ r) \<noteq> 91 \<and> hd (str_int i @ r) \<noteq> 123"
    using nat_digits_hd_digit [of "nat i" r] by (auto simp: str_int_def is_digit_def simp del: nat_digits_hd_digit)
  ultimately show ?case using JInt.prems by (simp add: n scan_value.simps scan_atom_int del: hd_append2)
next
  case JNull
  then show ?case by (cases n) (simp_all add: scan_value.simps scan_atom_def)
next
  case (JBool b)
  then show ?case by (cases n; cases b) (simp_all add: scan_value.simps scan_atom_def)
next
  case (JStr s)
  obtain m where n: "n = Suc m" using JStr.prems(3) by (cases n) auto
  show ?case by (simp add: n scan_value.simps scan_atom_def json_string_def scan_json_string)
next
  case (JArr xs)
  obtain m where n: "n = Suc m" using JArr.prems(3) by (cases n) auto
  show ?case
  proof (cases xs)
    case Nil
    then show ?thesis by (simp add: n scan_value.simps json_ws_def)
  next
    case (Cons y ys)
    let ?r = "join_with [44] (map json_dumps xs) @ 93 # r"
    have skip: "skip_ws ?r = ?r" using skip_ws_dumps [of y] by (cases ys) (simp_all add: Cons)
    have "\<exists>c cs. ?r = c # cs \<and> c \<noteq> 93"
      using json_dumps_start [of y] by (cases ys) (auto simp: Cons)
    moreover have "scan_elements m [] ?r = Inr (VArr ([] @ map jvalue_of xs), r)"
      using JArr Cons by (intro scan_rendered_elements) (auto simp: n list_all_iff)
    ultimately show ?thesis using skip by (auto simp: n scan_value.simps)
  qed
next
  case (JObj kvs)
  obtain m where n: "n = Suc m" using JObj.prems(3) by (cases n) auto
  have dumps: "json_dumps (JObj kvs) @ r = 123 # join_with [44] (map render_member kvs) @ 125 # r"
    by (simp add: render_member_def)
  show ?case
  proof (cases kvs)
    case Nil
    then show ?thesis by (simp add: n scan_value.simps json_ws_def)
  next
    case (Cons y ys)
    let ?r = "join_with [44] (map render_member kvs) @ 125 # r"
    have "\<exists>cs. ?r = 34 # cs" by (cases ys; cases y) (simp_all add: Cons render_member_def json_string_def)
    moreover have "scan_members m [] ?r = Inr (VObj ([] @ map (\<lambda>(k, v). (k, jvalue_of v)) kvs), r)"
    proof (rule scan_rendered_members)
      fix k v t l
      assume "(k, v) \<in> set kvs" "value_ends t" "2 * length (json_dumps v @ t) < l"
      then show "scan_value l (json_dumps v @ t) = Inr (jvalue_of v, t)"
        using JObj.IH [of "(k, v)" v t l] JObj.prems(1) by (force simp: list_all_iff)
    next
      show "kvs \<noteq> []" by (simp add: Cons)
      show "distinct (map fst ([] :: (pystr \<times> jvalue) list) @ map fst kvs)" using JObj.prems(1) by simp
      show "2 * length ?r + 1 < m" using JObj.prems(3) unfolding dumps by (simp add: n)
    qed
    ultimately show ?thesis unfolding dumps by (auto simp: n scan_value.simps json_ws_def)
  qed
qed

theorem json_loads_dumps:
  assumes "json_clean v"
  shows "json_loads (json_dumps v) = Inr (jvalue_of v)"
proof -
  have "scan_value (json_fuel (json_dumps v)) (json_dumps v @ []) = Inr (jvalue_of v, [])"
    using assms by (intro scan_rendered) (simp_all add: json_fuel_def)
  then show ?thesis
    using json_dumps_start [of v] skip_ws_dumps [of v "[]"] by (auto simp: json_loads_def skip_ws_def)
qed

text \<open>A rendered value stays on one line.\<close>

lemma join_with_all:
  "\<forall>x \<in> set xs. list_all P x \<Longrightarrow> list_all P sep \<Longrightarrow> list_all P (join_with sep xs)"
  by (induction sep xs rule: join_with.induct) simp_all

lemma json_dumps_printable: "list_all (\<lambda>c. 32 \<le> c) (json_dumps v)"
proof (induction v)
  case (JInt i)
  have "list_all (\<lambda>c. 32 \<le> c) (nat_digits n)" for n
    using nat_digits_digit [of n] by (auto simp: list_all_iff is_digit_def)
  then show ?case by (simp add: str_int_def)
next
  case (JStr s)
  then show ?case using json_string_printable [of s] by (simp add: list_all_iff)
next
  case (JArr xs)
  then have "list_all (\<lambda>c. 32 \<le> c) (join_with [44] (map json_dumps xs))"
    by (intro join_with_all) auto
  then show ?case by simp
next
  case (JObj kvs)
  have "list_all (\<lambda>c. 32 \<le> c) (render_member kv)" if "kv \<in> set kvs" for kv
    using JObj.IH [of kv] that json_string_printable [of "fst kv"]
    by (cases kv) (auto simp: render_member_def list_all_iff)
  then have "list_all (\<lambda>c. 32 \<le> c) (join_with [44] (map render_member kvs))"
    by (intro join_with_all) auto
  then show ?case by (simp add: render_member_def)
qed simp_all

end
