(* ===== verification/ModelStream.thy ===== *)
theory ModelStream
  imports SseDecoder JsonParse Generations DialogueTypes
begin

text \<open>
  \<^verbatim>\<open>adapters/openai_compatible/model.py\<close>: the configuration of an OpenAI-compatible model
  endpoint, the request it is sent, the normalisation of its streamed events, and the
  asynchronous generator \<open>stream\<close>. The HTTP client (\<^verbatim>\<open>httpx\<close>) is not part of the program:
  one exchange with it is an argument, the answer to the request and the sequence of what the
  successive reads of the body return or raise. The cancellation token is an argument as well: what
  it says at the successive points where the code asks it. Error messages with fixed text are
  constructors; those with a detail carry the detail.
\<close>

section \<open>Configuration\<close>

datatype ReasoningEffort = Effort_NONE | Effort_MINIMAL | Effort_LOW | Effort_MEDIUM | Effort_HIGH

fun effort_value :: "ReasoningEffort \<Rightarrow> pystr" where
  "effort_value Effort_NONE = lit ''none''"
| "effort_value Effort_MINIMAL = lit ''minimal''"
| "effort_value Effort_LOW = lit ''low''"
| "effort_value Effort_MEDIUM = lit ''medium''"
| "effort_value Effort_HIGH = lit ''high''"

record model_config =
  mg_base_url :: pystr
  mg_model :: pystr
  mg_api_key :: "pystr option"
  mg_timeout_seconds :: pyfloat
  mg_connect_timeout_seconds :: pyfloat
  mg_reasoning_effort :: "ReasoningEffort option"
  mg_temperature :: "pyfloat option"
  mg_max_tokens :: "int option"
  mg_include_usage :: bool
  mg_max_input_chars :: int
  mg_max_error_body_bytes :: int
  mg_max_sse_event_bytes :: int

text \<open>The parts of a URL that \<open>urlsplit\<close> finds; \<open>None\<close> where it raises \<open>ValueError\<close>.\<close>

record url_parts =
  up_scheme :: pystr
  up_hostname :: "pystr option"
  up_username :: "pystr option"
  up_password :: "pystr option"
  up_query :: pystr
  up_fragment :: pystr

datatype config_error =
  Base_url_not_trimmed | Base_url_unparsable | Base_url_not_http | Base_url_credentials
  | Base_url_query | Model_not_trimmed | Api_key_not_trimmed | Timeout_not_positive
  | Connect_timeout_not_positive | Temperature_out_of_range | Max_tokens_not_positive
  | Max_input_chars_not_positive | Max_error_body_too_small | Max_sse_event_too_small

definition trimmed :: "pystr \<Rightarrow> bool" where
  "trimmed s \<longleftrightarrow> s \<noteq> [] \<and> strip s = s"

definition positive_finite :: "pyfloat \<Rightarrow> bool" where
  "positive_finite x \<longleftrightarrow> isfinite x \<and> \<not> fle x (Fin 0)"

definition check_url :: "url_parts option \<Rightarrow> config_error option" where
  "check_url parsed =
     (case parsed of
        None \<Rightarrow> Some Base_url_unparsable
      | Some u \<Rightarrow>
          first_error
           [if up_scheme u \<notin> {lit ''http'', lit ''https''} \<or> up_hostname u \<in> {None, Some []}
            then Some Base_url_not_http else None,
            if up_username u \<noteq> None \<or> up_password u \<noteq> None then Some Base_url_credentials else None,
            if up_query u \<noteq> [] \<or> up_fragment u \<noteq> [] then Some Base_url_query else None])"

definition check_model_config :: "(pystr \<Rightarrow> url_parts option) \<Rightarrow> model_config \<Rightarrow> config_error option" where
  "check_model_config urlsplit c =
     first_error
      [if \<not> trimmed (mg_base_url c) then Some Base_url_not_trimmed else None,
       check_url (urlsplit (mg_base_url c)),
       if \<not> trimmed (mg_model c) then Some Model_not_trimmed else None,
       (case mg_api_key c of None \<Rightarrow> None | Some k \<Rightarrow> if trimmed k then None else Some Api_key_not_trimmed),
       if \<not> positive_finite (mg_timeout_seconds c) then Some Timeout_not_positive else None,
       if \<not> positive_finite (mg_connect_timeout_seconds c) then Some Connect_timeout_not_positive else None,
       (case mg_temperature c of
          None \<Rightarrow> None
        | Some x \<Rightarrow> if isfinite x \<and> fle (Fin 0) x \<and> fle x (Fin 2) then None
                    else Some Temperature_out_of_range),
       (case mg_max_tokens c of
          None \<Rightarrow> None | Some n \<Rightarrow> if n < 1 then Some Max_tokens_not_positive else None),
       if mg_max_input_chars c < 1 then Some Max_input_chars_not_positive else None,
       if mg_max_error_body_bytes c < 256 then Some Max_error_body_too_small else None,
       if mg_max_sse_event_bytes c < 1024 then Some Max_sse_event_too_small else None]"

definition rstrip_slash :: "pystr \<Rightarrow> pystr" where
  "rstrip_slash s = rev (dropWhile (\<lambda>c. c = 47) (rev s))"

definition make_model_config ::
  "(pystr \<Rightarrow> url_parts option) \<Rightarrow> model_config \<Rightarrow> config_error + model_config" where
  "make_model_config urlsplit c =
     (case check_model_config urlsplit c of
        Some e \<Rightarrow> Inl e
      | None \<Rightarrow> Inr (c\<lparr>mg_base_url := rstrip_slash (mg_base_url c)\<rparr>))"

definition ends_with :: "pystr \<Rightarrow> pystr \<Rightarrow> bool" where
  "ends_with suf s \<longleftrightarrow> drop (length s - length suf) s = suf"

definition endpoint_url :: "model_config \<Rightarrow> pystr" where
  "endpoint_url c =
     (if ends_with (lit ''/chat/completions'') (mg_base_url c) then mg_base_url c
      else mg_base_url c @ lit ''/chat/completions'')"

section \<open>Values and errors\<close>

datatype protocol_error =
  Sse_failure sse_error | Invalid_json pystr | Event_not_object | Stream_reported pystr
  | Usage_not_object | Choices_omitted | Choices_not_array | Choice_not_object | Delta_not_object
  | Tool_calls | Content_not_text | Part_not_object | Part_unsupported | Finish_reason_invalid
  | Finish_reason_conflict | Token_count_invalid | Ended_unfinished

datatype model_error =
  Provider_closed | Input_too_long | Model_http int pystr "pystr option"
  | Model_timeout pystr | Model_transport pystr | Model_protocol protocol_error

fun retryable :: "model_error \<Rightarrow> bool" where
  "retryable (Model_http status _ _) \<longleftrightarrow> status \<in> {408, 409, 425, 429} \<or> 500 \<le> status"
| "retryable (Model_timeout _) \<longleftrightarrow> True"
| "retryable (Model_transport _) \<longleftrightarrow> True"
| "retryable _ \<longleftrightarrow> False"

text \<open>
  Why a call of the generator does not go on: it raises (an error of the adapter, the plain
  \<open>ValueError\<close> of \<open>json.loads\<close>, the \<open>TypeError\<close> of a set lookup with an unhashable value, or
  the cancellation), or the read it waits for never returns.
\<close>

datatype halt = Model_error model_error | Value_error | Type_error | Cancelled_error | Pending

abbreviation protocol :: "protocol_error \<Rightarrow> halt" where
  "protocol e \<equiv> Model_error (Model_protocol e)"

record stream_state =
  ss_stop_reason :: "ModelStopReason option"
  ss_raw_stop_reason :: "pystr option"
  ss_input_tokens :: "int option"
  ss_output_tokens :: "int option"

definition new_stream_state :: stream_state where
  "new_stream_state = \<lparr>ss_stop_reason = None, ss_raw_stop_reason = None,
     ss_input_tokens = None, ss_output_tokens = None\<rparr>"

section \<open>Text helpers\<close>

lemma split_words_decreases:
  assumes "dropWhile isspace s = c # r"
  shows "length (dropWhile (\<lambda>d. \<not> isspace d) (c # r)) < length s"
proof -
  have "\<not> isspace c" using assms by (metis hd_dropWhile list.distinct(1) list.sel(1))
  moreover have "length (c # r) \<le> length s" using assms length_dropWhile_le [of isspace s] by simp
  ultimately show ?thesis using length_dropWhile_le [of "\<lambda>d. \<not> isspace d" r] by simp
qed

text \<open>\<open>str.split()\<close>: the words between white space.\<close>

function split_words :: "pystr \<Rightarrow> pystr list" where
  "split_words s =
     (case dropWhile isspace s of
        [] \<Rightarrow> []
      | c # r \<Rightarrow>
          takeWhile (\<lambda>d. \<not> isspace d) (c # r) # split_words (dropWhile (\<lambda>d. \<not> isspace d) (c # r)))"
  by pat_completeness auto

termination
  by (relation "measure length") (auto dest: split_words_decreases)

declare split_words.simps [simp del]

definition bound_text :: "pystr \<Rightarrow> nat \<Rightarrow> pystr" where
  "bound_text text limit =
     (let collapsed = join_with [32] (split_words text)
      in if length collapsed \<le> limit then collapsed else take limit collapsed @ [8230])"

lemma length_bound_text: "length (bound_text t n) \<le> Suc n"
  by (simp add: bound_text_def Let_def)

text \<open>
  \<open>str.lower\<close> as far as a comparison with lower-case ASCII words can tell: beside the ASCII
  capitals only the Kelvin sign has an ASCII letter as its whole lower-case form.
\<close>

definition ascii_lower :: "pystr \<Rightarrow> pystr" where
  "ascii_lower s = map (\<lambda>c. if 65 \<le> c \<and> c \<le> 90 then c + 32 else if c = 8490 then 107 else c) s"

definition map_stop_reason :: "pystr \<Rightarrow> ModelStopReason" where
  "map_stop_reason reason =
     (let normalized = ascii_lower (strip reason)
      in if normalized \<in> {lit ''stop'', lit ''complete'', lit ''completed'', lit ''eos'', lit ''end_turn''}
         then Stop_COMPLETE
         else if normalized \<in> {lit ''length'', lit ''max_tokens'', lit ''max_output_tokens''} then Stop_LENGTH
         else if normalized \<in> {lit ''cancelled'', lit ''canceled''} then Stop_CANCELLED
         else Stop_ERROR)"

section \<open>Normalisation of an event\<close>

text \<open>\<open>dict.get\<close>: a missing key and a \<open>null\<close> are the same \<open>None\<close>.\<close>

definition jget :: "pystr \<Rightarrow> (pystr \<times> jvalue) list \<Rightarrow> jvalue" where
  "jget k obj = (case map_of obj k of None \<Rightarrow> VNull | Some v \<Rightarrow> v)"

fun truthy :: "jvalue \<Rightarrow> bool" where
  "truthy VNull \<longleftrightarrow> False"
| "truthy (VBool b) \<longleftrightarrow> b"
| "truthy (VInt i) \<longleftrightarrow> i \<noteq> 0"
| "truthy (VFloat x) \<longleftrightarrow> x \<noteq> Fin 0"
| "truthy (VStr s) \<longleftrightarrow> s \<noteq> []"
| "truthy (VArr xs) \<longleftrightarrow> xs \<noteq> []"
| "truthy (VObj kvs) \<longleftrightarrow> kvs \<noteq> []"

text \<open>\<open>v == 0\<close>\<close>

definition equals_zero :: "jvalue \<Rightarrow> bool" where
  "equals_zero v \<longleftrightarrow> v = VInt 0 \<or> v = VFloat (Fin 0) \<or> v = VBool False"

definition error_message_from_payload :: "jvalue \<Rightarrow> pystr" where
  "error_message_from_payload payload =
     (case payload of
        VObj obj \<Rightarrow>
          (case jget (lit ''message'') obj of
             VStr message \<Rightarrow>
               (case jget (lit ''type'') obj of
                  VStr error_type \<Rightarrow>
                    if error_type \<noteq> [] then bound_text (error_type @ lit '': '' @ message) 1024
                    else bound_text message 1024
                | _ \<Rightarrow> bound_text message 1024)
           | _ \<Rightarrow> lit ''unspecified provider error'')
      | VStr s \<Rightarrow> bound_text s 1024
      | _ \<Rightarrow> lit ''unspecified provider error'')"

definition optional_token_count :: "jvalue \<Rightarrow> halt + int option" where
  "optional_token_count v =
     (case v of
        VNull \<Rightarrow> Inr None
      | VInt n \<Rightarrow> if n < 0 then Inl (protocol Token_count_invalid) else Inr (Some n)
      | _ \<Rightarrow> Inl (protocol Token_count_invalid))"

definition apply_usage :: "jvalue \<Rightarrow> stream_state \<Rightarrow> halt + stream_state" where
  "apply_usage usage st =
     (case usage of
        VNull \<Rightarrow> Inr st
      | VObj obj \<Rightarrow>
          (case (case map_of obj (lit ''prompt_tokens'') of
                   None \<Rightarrow> Inr st
                 | Some v \<Rightarrow> map_sum id (\<lambda>n. st\<lparr>ss_input_tokens := n\<rparr>) (optional_token_count v)) of
             Inl e \<Rightarrow> Inl e
           | Inr st1 \<Rightarrow>
               (case map_of obj (lit ''completion_tokens'') of
                  None \<Rightarrow> Inr st1
                | Some v \<Rightarrow> map_sum id (\<lambda>n. st1\<lparr>ss_output_tokens := n\<rparr>) (optional_token_count v)))
      | _ \<Rightarrow> Inl (protocol Usage_not_object))"

fun choice_objects :: "jvalue list \<Rightarrow> (pystr \<times> jvalue) list list option" where
  "choice_objects [] = Some []"
| "choice_objects (VObj o' # xs) = map_option ((#) o') (choice_objects xs)"
| "choice_objects (_ # xs) = None"

definition select_choice :: "jvalue list \<Rightarrow> halt + (pystr \<times> jvalue) list" where
  "select_choice choices =
     (case choice_objects choices of
        None \<Rightarrow> Inl (protocol Choice_not_object)
      | Some candidates \<Rightarrow>
          (case List.find (\<lambda>c. equals_zero (jget (lit ''index'') c)) candidates of
             Some c \<Rightarrow> Inr c
           | None \<Rightarrow> Inr (hd candidates)))"

definition hashable :: "jvalue \<Rightarrow> bool" where
  "hashable v \<longleftrightarrow> (case v of VArr _ \<Rightarrow> False | VObj _ \<Rightarrow> False | _ \<Rightarrow> True)"

definition part_text :: "(pystr \<times> jvalue) list \<Rightarrow> halt + pystr" where
  "part_text obj =
     (if \<not> hashable (jget (lit ''type'') obj) then Inl Type_error
      else if jget (lit ''type'') obj \<notin> {VStr (lit ''text''), VStr (lit ''output_text'')}
      then Inl (protocol Part_unsupported)
      else
        (case jget (lit ''text'') obj of
           VStr text \<Rightarrow> Inr text
         | _ \<Rightarrow> Inl (protocol Part_unsupported)))"

fun extract_parts :: "jvalue list \<Rightarrow> halt + pystr list" where
  "extract_parts [] = Inr []"
| "extract_parts (VObj obj # parts) =
     (case part_text obj of
        Inl e \<Rightarrow> Inl e
      | Inr text \<Rightarrow> map_sum id (\<lambda>ts. if text \<noteq> [] then text # ts else ts) (extract_parts parts))"
| "extract_parts (_ # parts) = Inl (protocol Part_not_object)"

definition extract_text :: "jvalue \<Rightarrow> halt + pystr list" where
  "extract_text content =
     (case content of
        VNull \<Rightarrow> Inr []
      | VStr s \<Rightarrow> Inr (if s \<noteq> [] then [s] else [])
      | VArr parts \<Rightarrow> extract_parts parts
      | _ \<Rightarrow> Inl (protocol Content_not_text))"

definition delta_texts :: "jvalue \<Rightarrow> halt + pystr list" where
  "delta_texts delta =
     (case delta of
        VNull \<Rightarrow> Inr []
      | VObj obj \<Rightarrow>
          if truthy (jget (lit ''tool_calls'') obj) \<or> truthy (jget (lit ''function_call'') obj)
          then Inl (protocol Tool_calls)
          else extract_text (jget (lit ''content'') obj)
      | _ \<Rightarrow> Inl (protocol Delta_not_object))"

definition apply_finish_reason :: "jvalue \<Rightarrow> stream_state \<Rightarrow> halt + stream_state" where
  "apply_finish_reason raw st =
     (case raw of
        VNull \<Rightarrow> Inr st
      | VStr r \<Rightarrow>
          if r = [] then Inl (protocol Finish_reason_invalid)
          else if ss_raw_stop_reason st \<noteq> None \<and> ss_raw_stop_reason st \<noteq> Some r
          then Inl (protocol Finish_reason_conflict)
          else Inr (st\<lparr>ss_raw_stop_reason := Some r, ss_stop_reason := Some (map_stop_reason r)\<rparr>)
      | _ \<Rightarrow> Inl (protocol Finish_reason_invalid))"

definition normalize_choices ::
  "jvalue list \<Rightarrow> stream_state \<Rightarrow> halt + (pystr list \<times> stream_state)" where
  "normalize_choices choices st =
     (if choices = [] then Inr ([], st)
      else
        (case select_choice choices of
           Inl e \<Rightarrow> Inl e
         | Inr choice \<Rightarrow>
             (case delta_texts (jget (lit ''delta'') choice) of
                Inl e \<Rightarrow> Inl e
              | Inr texts \<Rightarrow>
                  map_sum id (\<lambda>st'. (texts, st'))
                    (apply_finish_reason (jget (lit ''finish_reason'') choice) st))))"

definition normalize_object ::
  "(pystr \<times> jvalue) list \<Rightarrow> stream_state \<Rightarrow> halt + (pystr list \<times> stream_state)" where
  "normalize_object parsed st =
     (if jget (lit ''error'') parsed \<noteq> VNull
      then Inl (protocol (Stream_reported (error_message_from_payload (jget (lit ''error'') parsed))))
      else
        (case apply_usage (jget (lit ''usage'') parsed) st of
           Inl e \<Rightarrow> Inl e
         | Inr st1 \<Rightarrow>
             (case jget (lit ''choices'') parsed of
                VNull \<Rightarrow>
                  if jget (lit ''usage'') parsed \<noteq> VNull then Inr ([], st1) else Inl (protocol Choices_omitted)
              | VArr choices \<Rightarrow> normalize_choices choices st1
              | _ \<Rightarrow> Inl (protocol Choices_not_array))))"

definition normalize_data_event :: "pystr \<Rightarrow> stream_state \<Rightarrow> halt + (pystr list \<times> stream_state)" where
  "normalize_data_event data st =
     (case json_loads data of
        Inl Json_digits \<Rightarrow> Inl Value_error
      | Inl _ \<Rightarrow> Inl (protocol (Invalid_json (bound_text data 160)))
      | Inr (VObj parsed) \<Rightarrow> normalize_object parsed st
      | Inr _ \<Rightarrow> Inl (protocol Event_not_object))"

section \<open>The request\<close>

definition build_payload :: "model_config \<Rightarrow> DialogueRequest \<Rightarrow> halt + jvalue" where
  "build_payload c q =
     (if mg_max_input_chars c < int (length (dq_system_context q) + length (dq_user_text q))
      then Inl (Model_error Input_too_long)
      else
        (let message = (\<lambda>role content. VObj [(lit ''role'', VStr (lit role)), (lit ''content'', VStr content)]);
             messages =
               (if \<not> blank (dq_system_context q) then [message ''system'' (dq_system_context q)] else []) @
               [message ''user'' (dq_user_text q)]
         in Inr (VObj
              ([(lit ''model'', VStr (mg_model c)), (lit ''messages'', VArr messages),
                (lit ''stream'', VBool True)] @
               (if mg_include_usage c
                then [(lit ''stream_options'', VObj [(lit ''include_usage'', VBool True)])] else []) @
               (case mg_temperature c of None \<Rightarrow> [] | Some x \<Rightarrow> [(lit ''temperature'', VFloat x)]) @
               (case mg_max_tokens c of None \<Rightarrow> [] | Some n \<Rightarrow> [(lit ''max_tokens'', VInt n)]) @
               (case mg_reasoning_effort c of
                  None \<Rightarrow> [] | Some e \<Rightarrow> [(lit ''reasoning_effort'', VStr (effort_value e))])))))"

definition request_headers :: "model_config \<Rightarrow> (pystr \<times> pystr) list" where
  "request_headers c =
     [(lit ''accept'', lit ''text/event-stream''), (lit ''content-type'', lit ''application/json'')] @
     (case mg_api_key c of None \<Rightarrow> [] | Some k \<Rightarrow> [(lit ''authorization'', lit ''Bearer '' @ k)])"

section \<open>The exchange\<close>

datatype client_error = Timeout_exception pystr | Transport_exception pystr pystr | Cancelled_wait

datatype open_answer = Opened int "pystr option" | Open_raises client_error

datatype arrival = Chunk "nat list" | Exhausted | Read_raises client_error

record exchange =
  ex_opening :: "open_answer option"
  ex_arrivals :: "arrival list"

text \<open>
  How a client exception leaves the generator. \<open>Cancelled_wait\<close> is the wait lost to the
  token in \<open>_await_or_cancel\<close>.
\<close>

fun client_halt :: "client_error \<Rightarrow> halt" where
  "client_halt (Timeout_exception s) =
     Model_error (Model_timeout (bound_text (if s = [] then lit ''request timed out'' else s) 512))"
| "client_halt (Transport_exception s type_name) =
     Model_error (Model_transport (bound_text (if s = [] then type_name else s) 512))"
| "client_halt Cancelled_wait = Cancelled_error"

record stream_run =
  sr_yielded :: "ModelStreamEvent list"
  sr_tick :: nat
  sr_state :: stream_state
  sr_saw_done :: bool
  sr_decoder :: sse_decoder

type_synonym cancellation = "(int \<times> (nat \<Rightarrow> bool)) option"

text \<open>One call of \<open>raise_if_cancelled\<close>, the \<open>sr_tick\<close>-th of the run.\<close>

definition poll :: "cancellation \<Rightarrow> stream_run \<Rightarrow> stream_run \<times> halt option" where
  "poll c s =
     (s\<lparr>sr_tick := Suc (sr_tick s)\<rparr>,
      case c of None \<Rightarrow> None | Some (_, f) \<Rightarrow> if f (sr_tick s) then Some Cancelled_error else None)"

definition and_then ::
  "(stream_run \<times> halt option) \<Rightarrow> (stream_run \<Rightarrow> stream_run \<times> halt option) \<Rightarrow> stream_run \<times> halt option" where
  "and_then r f = (case r of (s, None) \<Rightarrow> f s | (s, Some h) \<Rightarrow> (s, Some h))"

definition yield_event :: "ModelStreamEvent \<Rightarrow> stream_run \<Rightarrow> stream_run \<times> halt option" where
  "yield_event e s = (s\<lparr>sr_yielded := sr_yielded s @ [e]\<rparr>, None)"

fun yield_texts :: "cancellation \<Rightarrow> pystr list \<Rightarrow> stream_run \<Rightarrow> stream_run \<times> halt option" where
  "yield_texts c [] s = (s, None)"
| "yield_texts c (t # ts) s =
     and_then (and_then (poll c s) (yield_event (ModelTextDelta t))) (yield_texts c ts)"

text \<open>
  The body of both loops over decoded events; the loop over \<open>feed\<close> stops at \<open>[DONE]\<close>, the one
  over \<open>finish\<close> goes on.
\<close>

fun handle_events ::
  "bool \<Rightarrow> cancellation \<Rightarrow> pystr list \<Rightarrow> stream_run \<Rightarrow> stream_run \<times> halt option" where
  "handle_events stops c [] s = (s, None)"
| "handle_events stops c (data # datas) s =
     (if strip data = lit ''[DONE]'' then
        (if stops then (s\<lparr>sr_saw_done := True\<rparr>, None)
         else handle_events stops c datas (s\<lparr>sr_saw_done := True\<rparr>))
      else if blank data then handle_events stops c datas s
      else
        (case normalize_data_event data (sr_state s) of
           Inl h \<Rightarrow> (s, Some h)
         | Inr (texts, st) \<Rightarrow>
             and_then (yield_texts c texts (s\<lparr>sr_state := st\<rparr>)) (handle_events stops c datas)))"

definition decode_with ::
  "(sse_decoder \<Rightarrow> sse_error + (pystr list \<times> sse_decoder)) \<Rightarrow> bool \<Rightarrow> cancellation \<Rightarrow>
   stream_run \<Rightarrow> stream_run \<times> halt option" where
  "decode_with f stops c s =
     (case f (sr_decoder s) of
        Inl e \<Rightarrow> (s, Some (protocol (Sse_failure e)))
      | Inr (datas, d) \<Rightarrow> handle_events stops c datas (s\<lparr>sr_decoder := d\<rparr>))"

fun read_loop :: "cancellation \<Rightarrow> arrival list \<Rightarrow> stream_run \<Rightarrow> stream_run \<times> halt option" where
  "read_loop c [] s = and_then (poll c s) (\<lambda>s. (s, Some Pending))"
| "read_loop c (Exhausted # _) s = poll c s"
| "read_loop c (Read_raises e # _) s = and_then (poll c s) (\<lambda>s. (s, Some (client_halt e)))"
| "read_loop c (Chunk bytes # more_arrivals) s =
     and_then (and_then (and_then (poll c s) (poll c))
       (decode_with (\<lambda>d. sse_feed d bytes) True c))
       (\<lambda>s. if sr_saw_done s then (s, None) else read_loop c more_arrivals s)"

definition finish_stream :: "cancellation \<Rightarrow> stream_run \<Rightarrow> stream_run \<times> halt option" where
  "finish_stream c s =
     and_then (if sr_saw_done s then (s, None) else decode_with sse_finish False c s)
       (\<lambda>s. if \<not> sr_saw_done s \<and> ss_stop_reason (sr_state s) = None
            then (s, Some (protocol Ended_unfinished))
            else and_then (poll c s)
              (\<lambda>s. yield_event
                 (ModelCompleted (case ss_stop_reason (sr_state s) of None \<Rightarrow> Stop_COMPLETE | Some r \<Rightarrow> r)
                   (ss_input_tokens (sr_state s)) (ss_output_tokens (sr_state s))) s))"

section \<open>Error responses\<close>

text \<open>
  \<open>bytes.decode\<close> with \<open>errors="replace"\<close>: an undecodable sequence gives one replacement
  character for its longest well-formed beginning.
\<close>

definition second_ok :: "nat \<Rightarrow> nat \<Rightarrow> bool" where
  "second_ok a b \<longleftrightarrow>
     (if a = 0xE0 then 0xA0 \<le> b \<and> b < 0xC0
      else if a = 0xED then 0x80 \<le> b \<and> b < 0xA0
      else if a = 0xF0 then 0x90 \<le> b \<and> b < 0xC0
      else if a = 0xF4 then 0x80 \<le> b \<and> b < 0x90
      else continuation b)"

definition bad_length :: "nat list \<Rightarrow> nat" where
  "bad_length bs =
     (case bs of
        a # b # r \<Rightarrow>
          if 0xE0 \<le> a \<and> a < 0xF5 \<and> second_ok a b then
            (if 0xF0 \<le> a \<and> r \<noteq> [] \<and> continuation (hd r) then 3 else 2)
          else 1
      | _ \<Rightarrow> 1)"

lemma bad_length_pos: "0 < bad_length bs"
  by (simp add: bad_length_def split: list.splits)

function decode_replace :: "nat list \<Rightarrow> pystr" where
  "decode_replace bs =
     (if bs = [] then []
      else
        (case decode_head bs of
           Some (c, r) \<Rightarrow> c # decode_replace r
         | None \<Rightarrow> 0xFFFD # decode_replace (drop (bad_length bs) bs)))"
  by pat_completeness auto
termination
  by (relation "measure length")
    (use bad_length_pos in \<open>auto dest: decode_head_shorter simp: diff_less\<close>)

declare decode_replace.simps [simp del]

fun read_error_body ::
  "cancellation \<Rightarrow> int \<Rightarrow> nat list \<Rightarrow> arrival list \<Rightarrow> stream_run \<Rightarrow>
   (halt + (nat list \<times> bool)) \<times> stream_run" where
  "read_error_body c limit body arrivals s =
     (case poll c s of
        (s, Some h) \<Rightarrow> (Inl h, s)
      | (s, None) \<Rightarrow>
          (case arrivals of
             [] \<Rightarrow> (Inl Pending, s)
           | Exhausted # _ \<Rightarrow> (Inr (body, False), s)
           | Read_raises e # _ \<Rightarrow> (Inl (client_halt e), s)
           | Chunk chunk # rest \<Rightarrow>
               (let remaining = limit - int (length body)
                in if remaining \<le> 0 then (Inr (body, True), s)
                   else if remaining < int (length chunk)
                   then (Inr (body @ take (nat remaining) chunk, True), s)
                   else read_error_body c limit (body @ chunk) rest s)))"

definition error_detail :: "int \<Rightarrow> nat list \<Rightarrow> bool \<Rightarrow> halt + pystr" where
  "error_detail limit body truncated =
     (let decoded = decode_replace body;
          render = (\<lambda>detail.
            let detail = bound_text detail (nat limit);
                detail = (if truncated then detail @ lit '' [truncated]'' else detail)
            in Inr (if detail = [] then lit ''empty error response'' else detail))
      in case json_loads decoded of
           Inl Json_digits \<Rightarrow> Inl Value_error
         | Inr (VObj obj) \<Rightarrow>
             (case map_of obj (lit ''error'') of
                Some e \<Rightarrow> render (error_message_from_payload e)
              | None \<Rightarrow> render decoded)
         | _ \<Rightarrow> render decoded)"

definition read_error_response ::
  "model_config \<Rightarrow> cancellation \<Rightarrow> int \<Rightarrow> pystr option \<Rightarrow> arrival list \<Rightarrow> stream_run \<Rightarrow>
   stream_run \<times> halt option" where
  "read_error_response cfg c status request_id arrivals s =
     (case read_error_body c (mg_max_error_body_bytes cfg) [] arrivals s of
        (Inl h, s) \<Rightarrow> (s, Some h)
      | (Inr (body, truncated), s) \<Rightarrow>
          (case error_detail (mg_max_error_body_bytes cfg) body truncated of
             Inl h \<Rightarrow> (s, Some h)
           | Inr detail \<Rightarrow> (s, Some (Model_error (Model_http status detail request_id)))))"

section \<open>The generator\<close>

definition new_run :: "model_config \<Rightarrow> stream_run" where
  "new_run cfg = \<lparr>sr_yielded = [], sr_tick = 0, sr_state = new_stream_state, sr_saw_done = False,
     sr_decoder = sse_init (mg_max_sse_event_bytes cfg)\<rparr>"

definition after_opening ::
  "model_config \<Rightarrow> cancellation \<Rightarrow> exchange \<Rightarrow> stream_run \<Rightarrow> stream_run \<times> halt option" where
  "after_opening cfg c ex s =
     (case ex_opening ex of
        None \<Rightarrow> (s, Some Pending)
      | Some (Open_raises e) \<Rightarrow> (s, Some (client_halt e))
      | Some (Opened status request_id) \<Rightarrow>
          and_then (poll c s)
            (\<lambda>s. if status < 200 \<or> 300 \<le> status
                 then read_error_response cfg c status request_id (ex_arrivals ex) s
                 else and_then (read_loop c (ex_arrivals ex) s) (finish_stream c)))"

definition model_stream ::
  "model_config \<Rightarrow> bool \<Rightarrow> DialogueRequest \<Rightarrow> cancellation \<Rightarrow> exchange \<Rightarrow> stream_run \<times> halt option" where
  "model_stream cfg provider_closed q c ex =
     (let s = new_run cfg
      in if provider_closed then (s, Some (Model_error Provider_closed))
         else if c \<noteq> None \<and> fst (the c) \<noteq> dq_generation q then (s, Some Cancelled_error)
         else
           and_then (poll c s)
             (\<lambda>s. case build_payload cfg q of
                    Inl h \<Rightarrow> (s, Some h)
                  | Inr payload \<Rightarrow> and_then (poll c s) (after_opening cfg c ex)))"

text \<open>\<open>aclose\<close>: whether the provider is closed afterwards, and whether the client is closed by it.\<close>

definition provider_aclose :: "bool \<Rightarrow> bool \<Rightarrow> bool \<times> bool" where
  "provider_aclose owns_client was_closed = (True, \<not> was_closed \<and> owns_client)"

end
