(* ===== verification/ModelStreamRun.thy ===== *)
theory ModelStreamRun
  imports ModelStream
begin

text \<open>
  What a consumer of \<open>stream\<close> can rely on: the shape of the sequence of events and the effect
  of a cancellation, for every answer of the endpoint, and the texts it receives from an
  endpoint that follows the protocol.
\<close>

section \<open>Invariant of a run\<close>

definition tokens_ok :: "stream_state \<Rightarrow> bool" where
  "tokens_ok st \<longleftrightarrow> (\<forall>n. ss_input_tokens st = Some n \<or> ss_output_tokens st = Some n \<longrightarrow> 0 \<le> n)"

definition deltas_only :: "ModelStreamEvent list \<Rightarrow> bool" where
  "deltas_only es \<longleftrightarrow> (\<exists>ts. es = map ModelTextDelta ts \<and> [] \<notin> set ts)"

definition unpolled :: "cancellation \<Rightarrow> nat \<Rightarrow> bool" where
  "unpolled c n \<longleftrightarrow> (\<forall>g f t. c = Some (g, f) \<and> t < n \<longrightarrow> \<not> f t)"

definition run_inv :: "cancellation \<Rightarrow> stream_run \<Rightarrow> bool" where
  "run_inv c s \<longleftrightarrow> deltas_only (sr_yielded s) \<and> tokens_ok (sr_state s) \<and> unpolled c (sr_tick s)"

definition run_ok :: "cancellation \<Rightarrow> stream_run \<times> halt option \<Rightarrow> bool" where
  "run_ok c r \<longleftrightarrow> deltas_only (sr_yielded (fst r)) \<and> tokens_ok (sr_state (fst r)) \<and>
     (unpolled c (sr_tick (fst r)) \<or>
      snd r = Some Cancelled_error \<and> unpolled c (sr_tick (fst r) - 1))"

lemma run_okI [intro]: "run_inv c s \<Longrightarrow> run_ok c (s, h)"
  by (simp add: run_ok_def run_inv_def)

lemma run_ok_None: "run_ok c (s, None) \<longleftrightarrow> run_inv c s"
  by (auto simp: run_ok_def run_inv_def)

lemma run_ok_and_then [intro]:
  assumes "run_ok c r" "\<And>s. run_inv c s \<Longrightarrow> run_ok c (f s)"
  shows "run_ok c (and_then r f)"
proof (cases r)
  case (Pair s h)
  then show ?thesis
    using assms by (cases h) (auto simp: and_then_def run_ok_None)
qed

lemma unpolled_Suc: "unpolled c (Suc n) \<longleftrightarrow> unpolled c n \<and> (\<forall>g f. c = Some (g, f) \<longrightarrow> \<not> f n)"
  by (auto simp: unpolled_def less_Suc_eq)

lemma poll_ok [intro]: "run_inv c s \<Longrightarrow> run_ok c (poll c s)"
  by (auto simp: run_inv_def run_ok_def poll_def unpolled_Suc split: option.splits)

lemma deltas_only_simps [simp]:
  "deltas_only []" "t \<noteq> [] \<Longrightarrow> deltas_only es \<Longrightarrow> deltas_only (es @ [ModelTextDelta t])"
proof -
  show "deltas_only []" by (simp add: deltas_only_def)
  assume "t \<noteq> []" "deltas_only es"
  then obtain ts where "es @ [ModelTextDelta t] = map ModelTextDelta (ts @ [t]) \<and> [] \<notin> set (ts @ [t])"
    by (auto simp: deltas_only_def)
  then show "deltas_only (es @ [ModelTextDelta t])" unfolding deltas_only_def by blast
qed

lemma yield_texts_ok: "[] \<notin> set ts \<Longrightarrow> run_inv c s \<Longrightarrow> run_ok c (yield_texts c ts s)"
proof (induction ts arbitrary: s)
  case (Cons t ts)
  have "run_ok c (yield_event (ModelTextDelta t) s')" if "run_inv c s'" for s'
    using that Cons.prems by (auto simp: yield_event_def run_inv_def)
  then show ?case using Cons by auto
qed auto

lemma extract_parts_ne: "extract_parts ps = Inr ts \<Longrightarrow> [] \<notin> set ts"
  by (induction ps arbitrary: ts rule: extract_parts.induct)
    (auto simp: map_sum_def split: sum.splits if_splits)

lemma delta_texts_ne: "delta_texts v = Inr ts \<Longrightarrow> [] \<notin> set ts"
  by (auto simp: delta_texts_def extract_text_def extract_parts_ne split: jvalue.splits if_splits)

lemma optional_token_count_nonneg: "optional_token_count v = Inr (Some n) \<Longrightarrow> 0 \<le> n"
  by (auto simp: optional_token_count_def split: jvalue.splits if_splits)

lemma apply_usage_tokens: "apply_usage u st = Inr st' \<Longrightarrow> tokens_ok st \<Longrightarrow> tokens_ok st'"
  by (auto simp: apply_usage_def tokens_ok_def map_sum_def
      split: jvalue.splits option.splits sum.splits dest: optional_token_count_nonneg)

lemma apply_finish_tokens: "apply_finish_reason v st = Inr st' \<Longrightarrow> tokens_ok st \<Longrightarrow> tokens_ok st'"
  by (auto simp: apply_finish_reason_def tokens_ok_def split: jvalue.splits if_splits)

lemma normalize_choices_ok:
  "normalize_choices cs st = Inr (ts, st') \<Longrightarrow> tokens_ok st \<Longrightarrow> [] \<notin> set ts \<and> tokens_ok st'"
  by (auto simp: normalize_choices_def map_sum_def split: sum.splits if_splits
      dest: delta_texts_ne apply_finish_tokens)

lemma normalize_data_ok:
  "normalize_data_event d st = Inr (ts, st') \<Longrightarrow> tokens_ok st \<Longrightarrow> [] \<notin> set ts \<and> tokens_ok st'"
  by (auto simp: normalize_data_event_def normalize_object_def
      split: sum.splits jvalue.splits if_splits json_failure.splits
      dest: normalize_choices_ok apply_usage_tokens)

lemma handle_events_ok: "run_inv c s \<Longrightarrow> run_ok c (handle_events stops c ds s)"
proof (induction stops c ds s rule: handle_events.induct)
  case (2 stops c d ds s)
  show ?case
  proof (cases "strip d = lit ''[DONE]'' \<or> blank d")
    case True
    then show ?thesis
      using "2.IH"(1,2) "2.prems" by (auto simp: run_inv_def simp del: lit_simps)
  next
    case False
    show ?thesis
    proof (cases "normalize_data_event d (sr_state s)")
      case (Inl h)
      then show ?thesis using False "2.prems" by (auto simp del: lit_simps)
    next
      case (Inr r)
      obtain ts st where r: "r = (ts, st)" by force
      have ok: "[] \<notin> set ts" "tokens_ok st"
        using normalize_data_ok [of d "sr_state s" ts st] Inr r "2.prems" by (simp_all add: run_inv_def)
      have "run_ok c (yield_texts c ts (s\<lparr>sr_state := st\<rparr>))"
        using "2.prems" ok by (intro yield_texts_ok) (simp_all add: run_inv_def)
      moreover have "run_ok c (handle_events stops c ds s')" if "run_inv c s'" for s'
        using that False Inr r by (intro "2.IH"(3)) auto
      ultimately show ?thesis using False by (auto simp: Inr r simp del: lit_simps)
    qed
  qed
qed auto

lemma decode_with_ok: "run_inv c s \<Longrightarrow> run_ok c (decode_with f stops c s)"
  by (auto simp: decode_with_def run_inv_def split: sum.splits intro!: handle_events_ok)

lemma read_loop_ok: "run_inv c s \<Longrightarrow> run_ok c (read_loop c as s)"
proof (induction c as s rule: read_loop.induct)
  case (4 c bytes as s)
  then show ?case by (auto intro!: run_ok_and_then [where r = "and_then _ _"] decode_with_ok)
qed (auto simp: intro!: run_okI)

lemma read_error_body_ok:
  "run_inv c s \<Longrightarrow> read_error_body c l b as s = (r, s') \<Longrightarrow>
   (case r of Inl h \<Rightarrow> run_ok c (s', Some h) | Inr _ \<Rightarrow> run_inv c s') \<and> sr_yielded s' = sr_yielded s"
proof (induction c l b as s arbitrary: r s' rule: read_error_body.induct)
  case (1 c l b as s)
  obtain s1 h where p: "poll c s = (s1, h)" by force
  have y: "sr_yielded s1 = sr_yielded s" using p by (auto simp: poll_def)
  have ok: "run_ok c (s1, h)" using poll_ok [OF "1.prems"(1)] p by simp
  show ?case
  proof (cases h)
    case (Some e)
    then show ?thesis using "1.prems" ok p y by auto
  next
    case None
    have inv: "run_inv c s1" using ok None by (simp add: run_ok_None)
    show ?thesis
    proof (cases as)
      case (Cons a as')
      show ?thesis
      proof (cases a)
        case (Chunk ch)
        then show ?thesis
          using "1.IH" [OF p [symmetric] None Cons Chunk refl] "1.prems"(2) inv p None Cons y
          by (auto simp: Let_def split: if_splits)
      qed (use "1.prems"(2) inv p None Cons y in \<open>auto intro: run_okI\<close>)
    qed (use "1.prems"(2) inv p None y in \<open>auto intro: run_okI\<close>)
  qed
qed

declare read_error_body.simps [simp del]

lemma read_error_response_ok:
  assumes "run_inv c s"
  shows "run_ok c (read_error_response cfg c st rid as s)"
    and "snd (read_error_response cfg c st rid as s) \<noteq> None"
    and "sr_yielded (fst (read_error_response cfg c st rid as s)) = sr_yielded s"
proof -
  obtain r s' where r: "read_error_body c (mg_max_error_body_bytes cfg) [] as s = (r, s')" by force
  note ok = read_error_body_ok [OF assms r]
  show "run_ok c (read_error_response cfg c st rid as s)"
    "snd (read_error_response cfg c st rid as s) \<noteq> None"
    "sr_yielded (fst (read_error_response cfg c st rid as s)) = sr_yielded s"
    using ok by (auto simp: read_error_response_def r split: sum.splits)
qed

section \<open>Shape of the stream\<close>

text \<open>
  A finished run adds the completion to a run that is in order; every other run is in order
  as it is.
\<close>

definition completed_ok :: "cancellation \<Rightarrow> stream_run \<times> halt option \<Rightarrow> bool" where
  "completed_ok c r \<longleftrightarrow>
     (if snd r = None
      then \<exists>s' why i n. run_inv c s' \<and> tokens_ok \<lparr>ss_stop_reason = None, ss_raw_stop_reason = None,
             ss_input_tokens = i, ss_output_tokens = n\<rparr> \<and>
           sr_yielded (fst r) = sr_yielded s' @ [ModelCompleted why i n] \<and> sr_tick (fst r) = sr_tick s'
      else run_ok c r)"

lemma completed_ok_raise [intro]: "run_inv c s \<Longrightarrow> completed_ok c (s, Some h)"
  by (auto simp: completed_ok_def)

lemma completed_ok_and_then:
  assumes "run_ok c r" "\<And>s. run_inv c s \<Longrightarrow> completed_ok c (f s)"
  shows "completed_ok c (and_then r f)"
proof (cases r)
  case (Pair s h)
  show ?thesis
  proof (cases h)
    case None
    then have "run_inv c s" using assms(1) Pair by (simp add: run_ok_None)
    then show ?thesis using assms(2) by (simp add: Pair None and_then_def)
  next
    case (Some e)
    then show ?thesis using assms(1) by (simp add: Pair and_then_def completed_ok_def)
  qed
qed

lemma finish_stream_ok:
  assumes "run_inv c s"
  shows "completed_ok c (finish_stream c s)"
  unfolding finish_stream_def
proof (rule completed_ok_and_then)
  show "run_ok c (if sr_saw_done s then (s, None) else decode_with sse_finish False c s)"
    using assms by (auto intro: decode_with_ok)
  fix s assume s: "run_inv c s"
  have "completed_ok c (yield_event (ModelCompleted why (ss_input_tokens (sr_state t)) (ss_output_tokens (sr_state t))) t)"
    if "run_inv c t" for t why
    unfolding completed_ok_def
    by (simp add: yield_event_def)
      (rule exI [of _ t], use that in \<open>simp add: run_inv_def tokens_ok_def\<close>)
  then show "completed_ok c (if \<not> sr_saw_done s \<and> ss_stop_reason (sr_state s) = None
      then (s, Some (protocol Ended_unfinished))
      else and_then (poll c s) (\<lambda>s. yield_event
        (ModelCompleted (case ss_stop_reason (sr_state s) of None \<Rightarrow> Stop_COMPLETE | Some r \<Rightarrow> r)
          (ss_input_tokens (sr_state s)) (ss_output_tokens (sr_state s))) s))"
    using s by (auto intro!: completed_ok_and_then)
qed

lemma after_opening_ok: "run_inv c s \<Longrightarrow> completed_ok c (after_opening cfg c ex s)"
  unfolding after_opening_def
  by (auto split: option.splits open_answer.splits
      intro!: completed_ok_and_then read_loop_ok finish_stream_ok read_error_response_ok
      simp: completed_ok_def [of c "read_error_response _ _ _ _ _ _"] read_error_response_ok)

lemma new_run_inv: "run_inv c (new_run cfg)"
  by (simp add: run_inv_def new_run_def unpolled_def tokens_ok_def new_stream_state_def)

lemma model_stream_ok: "completed_ok c (model_stream cfg cl q c ex)"
  using new_run_inv
  by (auto simp: model_stream_def Let_def split: sum.splits
      intro!: completed_ok_and_then poll_ok after_opening_ok)

lemma model_stream_http_error:
  assumes "ex_opening ex = Some (Opened status rid)" "status < 200 \<or> 300 \<le> status"
  shows "sr_yielded (fst (model_stream cfg cl q c ex)) = [] \<and> snd (model_stream cfg cl q c ex) \<noteq> None"
proof -
  have poll: "\<exists>h. poll c s = (s', h) \<and> (h = None \<longrightarrow> run_inv c s')"
    if "run_inv c s" "s' = s\<lparr>sr_tick := Suc (sr_tick s)\<rparr>" for s s'
    using poll_ok [OF that(1)] that(2) by (auto simp: poll_def run_ok_None split: option.splits)
  have "sr_yielded (fst (after_opening cfg c ex s)) = sr_yielded s \<and> snd (after_opening cfg c ex s) \<noteq> None"
    if inv: "run_inv c s" for s
  proof -
    obtain s' g where g: "poll c s = (s', g)" "g = None \<longrightarrow> run_inv c s'" "sr_yielded s' = sr_yielded s"
      using poll [OF inv, of "s\<lparr>sr_tick := Suc (sr_tick s)\<rparr>"] by auto
    show ?thesis
      using g read_error_response_ok(2,3) [of c s'] assms
      by (cases g) (auto simp: after_opening_def and_then_def)
  qed
  note after = this
  have out: "sr_yielded (new_run cfg) = []" by (simp add: new_run_def)
  obtain h1 s1 where p1: "poll c (new_run cfg) = (s1, h1)" "h1 = None \<longrightarrow> run_inv c s1" "sr_yielded s1 = []"
    using poll [OF new_run_inv [of c cfg], of "(new_run cfg)\<lparr>sr_tick := Suc (sr_tick (new_run cfg))\<rparr>"] out
    by auto
  obtain h2 s2 where p2: "poll c s1 = (s2, h2)" "sr_yielded s2 = []"
    using p1(3) by (auto simp: poll_def)
  have "h1 = None \<Longrightarrow> h2 = None \<Longrightarrow> run_inv c s2"
    using poll_ok [of c s1] p1(2) p2(1) by (simp add: run_ok_None)
  then show ?thesis
    using after [of s2] p1 p2 out
    by (cases h1; cases h2) (auto simp: model_stream_def Let_def and_then_def split: sum.splits)
qed

text \<open>
  C12: Whatever the endpoint answers and however the transport cuts it, the consumer sees
  non-empty text deltas, followed by exactly one completion, with non-negative token counts, if
  and only if the stream ends normally. The first time the code finds its token cancelled is also the
  last thing it does. An error status yields nothing and never ends normally: it raises, or waits for a
  body that does not come.
\<close>

theorem model_stream_protocol:
  assumes "model_stream cfg is_closed q c ex = (s, h)"
  shows "(\<exists>ts. [] \<notin> set ts \<and>
            (if h = None
             then \<exists>why i n. sr_yielded s = map ModelTextDelta ts @ [ModelCompleted why i n] \<and>
                    (\<forall>k. i = Some k \<or> n = Some k \<longrightarrow> 0 \<le> k)
             else sr_yielded s = map ModelTextDelta ts)) \<and>
    (\<forall>g f t. c = Some (g, f) \<and> t < sr_tick s \<and> f t \<longrightarrow>
       Suc t = sr_tick s \<and> h = Some Cancelled_error) \<and>
    (\<forall>status rid. ex_opening ex = Some (Opened status rid) \<and> (status < 200 \<or> 300 \<le> status) \<longrightarrow>
       sr_yielded s = [] \<and> h \<noteq> None)"
proof (intro conjI)
  note ok = model_stream_ok [of c cfg is_closed q ex, unfolded assms]
  show "\<exists>ts. [] \<notin> set ts \<and>
            (if h = None
             then \<exists>why i n. sr_yielded s = map ModelTextDelta ts @ [ModelCompleted why i n] \<and>
                    (\<forall>k. i = Some k \<or> n = Some k \<longrightarrow> 0 \<le> k)
             else sr_yielded s = map ModelTextDelta ts)"
  proof (cases h)
    case None
    then obtain s' why i n where s': "run_inv c s'" "sr_yielded s = sr_yielded s' @ [ModelCompleted why i n]"
      "\<forall>k. i = Some k \<or> n = Some k \<longrightarrow> 0 \<le> k"
      using ok by (auto simp: completed_ok_def tokens_ok_def)
    then obtain ts where "sr_yielded s' = map ModelTextDelta ts" "[] \<notin> set ts"
      by (auto simp: run_inv_def deltas_only_def)
    then show ?thesis using s' None by auto
  next
    case (Some e)
    then show ?thesis using ok by (simp add: completed_ok_def run_ok_def deltas_only_def) blast
  qed
  have polls: "unpolled c (sr_tick s) \<or> h = Some Cancelled_error \<and> unpolled c (sr_tick s - 1)"
    using ok by (cases h) (auto simp: completed_ok_def run_ok_def run_inv_def)
  show "\<forall>g f t. c = Some (g, f) \<and> t < sr_tick s \<and> f t \<longrightarrow> Suc t = sr_tick s \<and> h = Some Cancelled_error"
  proof (intro allI impI)
    fix g f t assume t: "c = Some (g, f) \<and> t < sr_tick s \<and> f t"
    then have "\<not> unpolled c (sr_tick s)" by (auto simp: unpolled_def)
    with polls have h: "h = Some Cancelled_error" "unpolled c (sr_tick s - 1)" by blast+
    then have "\<not> t < sr_tick s - 1" using t by (auto simp: unpolled_def)
    then show "Suc t = sr_tick s \<and> h = Some Cancelled_error" using h t by auto
  qed
  show "\<forall>status rid. ex_opening ex = Some (Opened status rid) \<and> (status < 200 \<or> 300 \<le> status) \<longrightarrow>
       sr_yielded s = [] \<and> h \<noteq> None"
    using model_stream_http_error [of ex _ _ cfg is_closed q c] assms by auto
qed

definition demo_model_config :: model_config where
  "demo_model_config = \<lparr>mg_base_url = lit ''http://x/v1'', mg_model = lit ''m'', mg_api_key = None,
     mg_timeout_seconds = Fin 60, mg_connect_timeout_seconds = Fin 10, mg_reasoning_effort = None,
     mg_temperature = None, mg_max_tokens = None, mg_include_usage = True, mg_max_input_chars = 1000,
     mg_max_error_body_bytes = 256, mg_max_sse_event_bytes = 1024\<rparr>"

definition demo_request :: DialogueRequest where
  "demo_request = \<lparr>dq_session_id = 1, dq_turn_id = 2, dq_generation = 3,
     dq_user_text = lit ''hello'', dq_system_context = [], dq_metadata = []\<rparr>"

theorem model_stream_protocol_witness:
  "sr_yielded (fst (model_stream demo_model_config False demo_request (Some (3, \<lambda>t. 7 \<le> t))
     \<lparr>ex_opening = Some (Opened 503 None), ex_arrivals = [Chunk [111, 110], Exhausted]\<rparr>)) = []"
  using model_stream_protocol [OF surjective_pairing, of demo_model_config False demo_request
      "Some (3, \<lambda>t. 7 \<le> t)" "\<lparr>ex_opening = Some (Opened 503 None), ex_arrivals = [Chunk [111, 110], Exhausted]\<rparr>"]
  by simp

section \<open>Texts received from an endpoint that follows the protocol\<close>

text \<open>Without a cancellation the loop over events depends on what it has yielded and learnt only.\<close>

definition same_view :: "stream_run \<Rightarrow> stream_run \<Rightarrow> bool" where
  "same_view s t \<longleftrightarrow> sr_yielded s = sr_yielded t \<and> sr_state s = sr_state t \<and> sr_saw_done s = sr_saw_done t"

lemma poll_None: "poll None s = (s\<lparr>sr_tick := Suc (sr_tick s)\<rparr>, None)"
  by (simp add: poll_def)

lemma and_then_simps [simp]: "and_then (s, None) f = f s" "and_then (s, Some h) f = (s, Some h)"
  by (simp_all add: and_then_def)

lemma yield_texts_None:
  "yield_texts None ts s =
     (s\<lparr>sr_yielded := sr_yielded s @ map ModelTextDelta ts, sr_tick := sr_tick s + length ts\<rparr>, None)"
  by (induction ts arbitrary: s) (simp_all add: poll_None yield_event_def)

lemma handle_events_view:
  "same_view s t \<Longrightarrow>
   same_view (fst (handle_events stops None es s)) (fst (handle_events stops None es t)) \<and>
   snd (handle_events stops None es s) = snd (handle_events stops None es t)"
proof (induction es arbitrary: s t)
  case (Cons e es)
  have st: "sr_state s = sr_state t" using Cons.prems by (simp add: same_view_def)
  show ?case
  proof (cases "strip e = lit ''[DONE]'' \<or> blank e")
    case True
    have "same_view (s\<lparr>sr_saw_done := True\<rparr>) (t\<lparr>sr_saw_done := True\<rparr>)"
      using Cons.prems by (simp add: same_view_def)
    note seen = this Cons.IH [OF this]
    show ?thesis
    proof (cases "strip e = lit ''[DONE]''")
      case True
      then show ?thesis using seen by (cases stops) (simp_all del: lit_simps)
    next
      case False
      then show ?thesis using \<open>strip e = lit ''[DONE]'' \<or> blank e\<close> Cons.IH [OF Cons.prems] by (simp del: lit_simps)
    qed
  next
    case False
    show ?thesis
    proof (cases "normalize_data_event e (sr_state s)")
      case (Inl h)
      then show ?thesis using False Cons.prems by (simp add: st del: lit_simps)
    next
      case (Inr r)
      let ?f = "\<lambda>u. u\<lparr>sr_state := snd r, sr_yielded := sr_yielded u @ map ModelTextDelta (fst r),
        sr_tick := sr_tick u + length (fst r)\<rparr>"
      have "same_view (?f s) (?f t)" using Cons.prems by (simp add: same_view_def)
      then show ?thesis
        using False Inr Cons.IH [of "?f s" "?f t"]
        by (cases r) (simp add: yield_texts_None st del: lit_simps)
    qed
  qed
qed simp

lemma handle_events_decoder: "sr_decoder (fst (handle_events stops None es s)) = sr_decoder s"
  by (induction es arbitrary: s) (auto simp: yield_texts_None simp del: lit_simps split: sum.splits)

lemma handle_events_append:
  "\<not> sr_saw_done s \<Longrightarrow>
   handle_events True None (es @ fs) s =
     and_then (handle_events True None es s)
       (\<lambda>s. if sr_saw_done s then (s, None) else handle_events True None fs s)"
proof (induction es arbitrary: s)
  case (Cons e es)
  show ?case
  proof (cases "strip e = lit ''[DONE]'' \<or> blank e")
    case True
    then show ?thesis using Cons by (auto simp del: lit_simps)
  next
    case False
    show ?thesis
    proof (cases "normalize_data_event e (sr_state s)")
      case (Inl h)
      then show ?thesis using False by (simp del: lit_simps)
    next
      case (Inr r)
      then show ?thesis using False Cons.prems
        by (cases r) (simp add: yield_texts_None Cons.IH del: lit_simps)
    qed
  qed
qed simp

lemma read_loop_view:
  "\<not> sr_saw_done s \<Longrightarrow> same_view s t \<Longrightarrow> sse_feed_all (sr_decoder s) cs = Inr (es, d) \<Longrightarrow>
   same_view (fst (read_loop None (map Chunk cs @ [Exhausted]) s)) (fst (handle_events True None es t)) \<and>
   snd (read_loop None (map Chunk cs @ [Exhausted]) s) = snd (handle_events True None es t)"
proof (induction cs arbitrary: s t es)
  case Nil
  then show ?case by (simp add: poll_None same_view_def)
next
  case (Cons c cs)
  from Cons.prems(3) obtain es1 d1 es2
    where d1: "sse_feed (sr_decoder s) c = Inr (es1, d1)" "sse_feed_all d1 cs = Inr (es2, d)" "es = es1 @ es2"
    by (auto split: sum.splits)
  let ?s = "s\<lparr>sr_tick := Suc (Suc (sr_tick s)), sr_decoder := d1\<rparr>"
  have nd: "\<not> sr_saw_done t" using Cons.prems(1,2) by (simp add: same_view_def)
  obtain s1 h where s1: "handle_events True None es1 ?s = (s1, h)" by force
  obtain t1 h' where t1: "handle_events True None es1 t = (t1, h')" by force
  have view: "same_view s1 t1" "h = h'"
    using handle_events_view [of ?s t True es1] Cons.prems(2) s1 t1 by (simp_all add: same_view_def)
  have "sr_decoder s1 = d1" using handle_events_decoder [of True es1 ?s] s1 by simp
  then have IH: "\<not> sr_saw_done s1 \<Longrightarrow>
     same_view (fst (read_loop None (map Chunk cs @ [Exhausted]) s1)) (fst (handle_events True None es2 t1)) \<and>
     snd (read_loop None (map Chunk cs @ [Exhausted]) s1) = snd (handle_events True None es2 t1)"
    using Cons.IH [of s1 t1 es2] view(1) d1(2) by simp
  have "read_loop None (map Chunk (c # cs) @ [Exhausted]) s =
      and_then (s1, h) (\<lambda>s. if sr_saw_done s then (s, None) else read_loop None (map Chunk cs @ [Exhausted]) s)"
    by (simp add: poll_None decode_with_def d1(1) s1)
  moreover have "handle_events True None es t =
      and_then (t1, h) (\<lambda>s. if sr_saw_done s then (s, None) else handle_events True None es2 s)"
    by (simp add: d1(3) handle_events_append [OF nd] t1 view(2))
  moreover have "sr_saw_done s1 = sr_saw_done t1" using view(1) by (simp add: same_view_def)
  ultimately show ?case using IH view(1) by (cases h) auto
qed

text \<open>The events of an answer: a delta per text, the finish reason, and the end mark.\<close>

definition choice_event :: "(pystr \<times> json) list \<Rightarrow> pystr" where
  "choice_event fs = json_dumps (JObj [(lit ''choices'', JArr [JObj ((lit ''index'', JInt 0) # fs)])])"

definition delta_event :: "pystr \<Rightarrow> pystr" where
  "delta_event t = choice_event [(lit ''delta'', JObj [(lit ''content'', JStr t)])]"

definition finish_event :: "pystr \<Rightarrow> pystr" where
  "finish_event r = choice_event [(lit ''delta'', JObj []), (lit ''finish_reason'', JStr r)]"

definition answer_events :: "pystr list \<Rightarrow> pystr \<Rightarrow> pystr list" where
  "answer_events ts r = map delta_event ts @ [finish_event r, lit ''[DONE]'']"

lemma normalize_delta:
  "normalize_data_event (delta_event t) st = Inr (if t \<noteq> [] then [t] else [], st)"
proof -
  have "json_loads (delta_event t) = Inr (jvalue_of (JObj [(lit ''choices'', JArr [JObj ((lit ''index'', JInt 0) #
      [(lit ''delta'', JObj [(lit ''content'', JStr t)])])])]))"
    unfolding delta_event_def choice_event_def
    by (rule json_loads_dumps) (simp add: nat_digits.simps)
  then show ?thesis
    by (simp add: normalize_data_event_def normalize_object_def jget_def apply_usage_def
        normalize_choices_def select_choice_def equals_zero_def delta_texts_def extract_text_def
        apply_finish_reason_def)
qed

lemma normalize_finish:
  assumes "r \<noteq> []" "ss_raw_stop_reason st = None"
  shows "normalize_data_event (finish_event r) st =
    Inr ([], st\<lparr>ss_raw_stop_reason := Some r, ss_stop_reason := Some (map_stop_reason r)\<rparr>)"
proof -
  have "json_loads (finish_event r) = Inr (jvalue_of (JObj [(lit ''choices'', JArr [JObj ((lit ''index'', JInt 0) #
      [(lit ''delta'', JObj []), (lit ''finish_reason'', JStr r)])])]))"
    unfolding finish_event_def choice_event_def
    by (rule json_loads_dumps) (simp add: nat_digits.simps)
  then show ?thesis
    using assms
    by (simp add: normalize_data_event_def normalize_object_def jget_def apply_usage_def
        normalize_choices_def select_choice_def equals_zero_def delta_texts_def extract_text_def
        apply_finish_reason_def)
qed

lemma strip_start: "\<not> isspace c \<Longrightarrow> \<exists>r. strip (c # s) = c # r"
  by (auto simp: strip_def lstrip_def rstrip_def dropWhile_append) (metis rev_rev_ident)

lemma choice_event_shape: "strip (choice_event fs) \<noteq> lit ''[DONE]'' \<and> \<not> blank (choice_event fs)"
proof -
  obtain r where r: "choice_event fs = 123 # r" by (simp add: choice_event_def)
  have "\<not> isspace 123" by (simp add: isspace_def)
  then obtain r' where "strip (choice_event fs) = 123 # r'" using strip_start r by metis
  then show ?thesis by (simp add: blank_def)
qed

lemma answer_event_simps:
  "strip (delta_event t) \<noteq> lit ''[DONE]''" "\<not> blank (delta_event t)"
  "strip (finish_event r) \<noteq> lit ''[DONE]''" "\<not> blank (finish_event r)"
  unfolding delta_event_def finish_event_def using choice_event_shape by blast+

lemma handle_answer:
  assumes "r \<noteq> []" "ss_raw_stop_reason (sr_state s) = None"
  shows "\<exists>n. handle_events True None (answer_events ts r) s =
    (s\<lparr>sr_yielded := sr_yielded s @ map ModelTextDelta (filter (\<lambda>t. t \<noteq> []) ts),
       sr_state := (sr_state s)\<lparr>ss_raw_stop_reason := Some r, ss_stop_reason := Some (map_stop_reason r)\<rparr>,
       sr_saw_done := True, sr_tick := n\<rparr>, None)"
  using assms(2)
proof (induction ts arbitrary: s)
  case Nil
  have "strip (lit ''[DONE]'') = lit ''[DONE]''" by (simp add: strip_def lstrip_def rstrip_def isspace_def)
  then show ?case
    using assms(1) Nil
    by (intro exI [of _ "sr_tick s"], cases s)
      (simp add: answer_events_def answer_event_simps normalize_finish yield_texts_None del: lit_simps)
next
  case (Cons t ts)
  let ?s = "s\<lparr>sr_yielded := sr_yielded s @ (if t \<noteq> [] then [ModelTextDelta t] else []),
    sr_tick := sr_tick s + (if t \<noteq> [] then 1 else 0)\<rparr>"
  have "handle_events True None (answer_events (t # ts) r) s = handle_events True None (answer_events ts r) ?s"
    by (simp add: answer_events_def answer_event_simps normalize_delta yield_texts_None del: lit_simps)
  then show ?case using Cons.IH [of ?s] Cons.prems by auto
qed

text \<open>Rendered JSON keeps scalar texts scalar and holds no control character.\<close>

lemma scalar_text_simps [simp]:
  "scalar_text []" "scalar_text (c # s) \<longleftrightarrow> scalar c \<and> scalar_text s"
  "scalar_text (s @ t) \<longleftrightarrow> scalar_text s \<and> scalar_text t"
  by (simp_all add: scalar_text_def)

fun json_scalar :: "json \<Rightarrow> bool" where
  "json_scalar (JStr s) \<longleftrightarrow> scalar_text s"
| "json_scalar (JArr xs) \<longleftrightarrow> list_all json_scalar xs"
| "json_scalar (JObj kvs) \<longleftrightarrow> list_all (\<lambda>(k, v). scalar_text k \<and> json_scalar v) kvs"
| "json_scalar _ \<longleftrightarrow> True"

lemma scalar_json_string: "scalar_text s \<Longrightarrow> scalar_text (json_string s)"
proof -
  have "scalar_text (json_char c)" if "scalar c" for c
    using that by (auto simp: json_char_def hex_digit_def scalar_def)
  then have "scalar_text s \<Longrightarrow> scalar_text (concat (map json_char s))" by (induction s) simp_all
  then show "scalar_text s \<Longrightarrow> scalar_text (json_string s)" by (simp add: json_string_def scalar_def)
qed

lemma scalar_small [simp]: "c < 0xD800 \<Longrightarrow> scalar c"
  by (simp add: scalar_def)

lemma json_dumps_text: "json_scalar v \<Longrightarrow> list_all (\<lambda>c. 32 \<le> c \<and> scalar c) (json_dumps v)"
proof (induction v)
  case (JInt i)
  have "list_all (\<lambda>c. 32 \<le> c \<and> scalar c) (nat_digits n)" for n
    using nat_digits_digit [of n] by (auto simp: list_all_iff is_digit_def scalar_def)
  then show ?case by (simp add: str_int_def scalar_def)
next
  case (JStr s)
  then show ?case
    using scalar_json_string [of s] json_string_printable [of s] by (simp add: scalar_text_def list_all_iff)
next
  case (JArr xs)
  then have "list_all (\<lambda>c. 32 \<le> c \<and> scalar c) (join_with [44] (map json_dumps xs))"
    by (intro join_with_all) (auto simp: list_all_iff)
  then show ?case by simp
next
  case (JObj kvs)
  have str: "list_all (\<lambda>c. 32 \<le> c \<and> scalar c) (json_string k)" if "scalar_text k" for k
    using scalar_json_string [OF that] json_string_printable [of k] by (simp add: scalar_text_def list_all_iff)
  have "list_all (\<lambda>c. 32 \<le> c \<and> scalar c) (render_member kv)" if "kv \<in> set kvs" for kv
  proof -
    obtain k v where kv: "kv = (k, v)" by force
    have "scalar_text k" "json_scalar v" using JObj.prems that by (auto simp: kv list_all_iff)
    moreover have "list_all (\<lambda>c. 32 \<le> c \<and> scalar c) (json_dumps v)"
      using JObj.IH [of kv v] that calculation(2) by (simp add: kv)
    ultimately show ?thesis using str by (simp add: kv render_member_def)
  qed
  then have "list_all (\<lambda>c. 32 \<le> c \<and> scalar c) (join_with [44] (map render_member kvs))"
    by (intro join_with_all) auto
  then show ?case by (simp add: render_member_def)
qed simp_all

lemma choice_event_text:
  assumes "json_scalar (JObj fs)"
  shows "scalar_text (choice_event fs) \<and> 13 \<notin> set (choice_event fs)"
proof -
  have "json_scalar (JObj [(lit ''choices'', JArr [JObj ((lit ''index'', JInt 0) # fs)])])"
    using assms by (simp add: scalar_text_def scalar_def)
  then have "list_all (\<lambda>c. 32 \<le> c \<and> scalar c) (choice_event fs)"
    unfolding choice_event_def by (rule json_dumps_text)
  then show ?thesis by (auto simp: scalar_text_def list_all_iff)
qed

lemma delta_event_text: "scalar_text t \<Longrightarrow> scalar_text (delta_event t) \<and> 13 \<notin> set (delta_event t)"
  unfolding delta_event_def by (intro choice_event_text) (simp add: scalar_text_def scalar_def)

lemma finish_event_text: "scalar_text r \<Longrightarrow> scalar_text (finish_event r) \<and> 13 \<notin> set (finish_event r)"
  unfolding finish_event_def by (intro choice_event_text) (simp add: scalar_text_def scalar_def)

text \<open>
  C13: An endpoint answers with the texts \<open>ts\<close>, one event each, a finish reason and \<open>[DONE]\<close>,
  all within the size limits. However the transport cuts its response, the generator yields
  exactly the non-empty texts, in order and unaltered, and the completion with the mapped
  reason.
\<close>

theorem model_stream_roundtrip:
  assumes "\<forall>t \<in> set ts. scalar_text t \<and> int (length (utf8_encode (delta_event t))) + 6 \<le> mg_max_sse_event_bytes cfg"
    and "r \<noteq> []" "scalar_text r" "int (length (utf8_encode (finish_event r))) + 6 \<le> mg_max_sse_event_bytes cfg"
    and "12 \<le> mg_max_sse_event_bytes cfg"
    and "int (length (dq_system_context q) + length (dq_user_text q)) \<le> mg_max_input_chars cfg"
    and "concat cs = concat (map sse_format (answer_events ts r))"
    and "200 \<le> status" "status < 300"
  shows "\<exists>s. model_stream cfg False q None
      \<lparr>ex_opening = Some (Opened status rid), ex_arrivals = map Chunk cs @ [Exhausted]\<rparr> = (s, None) \<and>
    sr_yielded s = map ModelTextDelta (filter (\<lambda>t. t \<noteq> []) ts) @ [ModelCompleted (map_stop_reason r) None None]"
proof -
  let ?mx = "mg_max_sse_event_bytes cfg"
  let ?s = "(new_run cfg)\<lparr>sr_tick := 3\<rparr>"
  have "scalar_text t \<and> 13 \<notin> set t \<and> int (length (utf8_encode t)) + 6 \<le> ?mx" if "t \<in> set (answer_events ts r)" for t
  proof -
    from that consider u where "u \<in> set ts" "t = delta_event u" | "t = finish_event r" | "t = lit ''[DONE]''"
      by (auto simp: answer_events_def simp del: lit_simps)
    then show ?thesis
    proof cases
      case (1 u)
      then show ?thesis using assms(1) delta_event_text [of u] by auto
    next
      case 2
      then show ?thesis using assms(3,4) finish_event_text [of r] by auto
    next
      case 3
      then show ?thesis using assms(5) by (simp add: scalar_text_def scalar_def utf8_char_def)
    qed
  qed
  then obtain d where d: "sse_feed_all (sse_init ?mx) cs = Inr (answer_events ts r, d)"
    using sse_roundtrip [of "answer_events ts r" ?mx cs] assms(5,7) by auto
  obtain n where answer: "handle_events True None (answer_events ts r) ?s =
    (?s\<lparr>sr_yielded := map ModelTextDelta (filter (\<lambda>t. t \<noteq> []) ts),
       sr_state := new_stream_state\<lparr>ss_raw_stop_reason := Some r, ss_stop_reason := Some (map_stop_reason r)\<rparr>,
       sr_saw_done := True, sr_tick := n\<rparr>, None)"
    using handle_answer [OF assms(2), of ?s ts] by (auto simp: new_run_def new_stream_state_def)
  obtain t h where t: "read_loop None (map Chunk cs @ [Exhausted]) ?s = (t, h)" by force
  have "h = None" "sr_yielded t = map ModelTextDelta (filter (\<lambda>t. t \<noteq> []) ts)" "sr_saw_done t"
    "ss_stop_reason (sr_state t) = Some (map_stop_reason r)"
    "ss_input_tokens (sr_state t) = None" "ss_output_tokens (sr_state t) = None"
    using read_loop_view [of ?s ?s cs "answer_events ts r" d] d t answer
    by (simp_all add: new_run_def same_view_def new_stream_state_def)
  note t' = this
  have "after_opening cfg None \<lparr>ex_opening = Some (Opened status rid), ex_arrivals = map Chunk cs @ [Exhausted]\<rparr>
      ((new_run cfg)\<lparr>sr_tick := 2\<rparr>) = finish_stream None t"
    using assms(8,9) t t'(1) by (simp add: after_opening_def poll_None numeral_3_eq_3 numeral_2_eq_2)
  moreover have "\<exists>payload. build_payload cfg q = Inr payload"
    using assms(6) by (simp add: build_payload_def Let_def del: lit_simps)
  ultimately have "model_stream cfg False q None
      \<lparr>ex_opening = Some (Opened status rid), ex_arrivals = map Chunk cs @ [Exhausted]\<rparr> = finish_stream None t"
    by (auto simp: model_stream_def poll_None new_run_def numeral_2_eq_2)
  then show ?thesis
    using t' by (simp add: finish_stream_def poll_None yield_event_def)
qed

theorem model_stream_roundtrip_witness:
  "\<exists>s. model_stream demo_model_config False demo_request None
      \<lparr>ex_opening = Some (Opened 200 None),
       ex_arrivals = map Chunk [take 40 (concat (map sse_format (answer_events [lit ''Hi, '', [], lit ''you''] (lit ''stop'')))),
         drop 40 (concat (map sse_format (answer_events [lit ''Hi, '', [], lit ''you''] (lit ''stop''))))] @ [Exhausted]\<rparr> = (s, None) \<and>
    sr_yielded s = map ModelTextDelta (filter (\<lambda>t. t \<noteq> []) [lit ''Hi, '', [], lit ''you'']) @ [ModelCompleted (map_stop_reason (lit ''stop'')) None None]"
proof (rule model_stream_roundtrip)
  show "\<forall>t \<in> set [lit ''Hi, '', [], lit ''you'']. scalar_text t \<and>
      int (length (utf8_encode (delta_event t))) + 6 \<le> mg_max_sse_event_bytes demo_model_config"
    by (simp add: demo_model_config_def delta_event_def choice_event_def json_string_def json_char_def
        utf8_char_def str_int_def nat_digits.simps)
  show "int (length (utf8_encode (finish_event (lit ''stop'')))) + 6 \<le> mg_max_sse_event_bytes demo_model_config"
    by (simp add: demo_model_config_def finish_event_def choice_event_def json_string_def json_char_def
        utf8_char_def str_int_def nat_digits.simps)
qed (simp_all add: demo_model_config_def demo_request_def)

end
