(* ===== verification/EventRecorder.thy ===== *)
theory EventRecorder
  imports Events PyJson "HOL-Library.AList" "HOL-Library.Sublist"
begin

text \<open>
  \<^verbatim>\<open>application/event_recorder.py\<close>: the bounded queue of events that await persistence, and the
  task that writes them. The rendering of an envelope as a dictionary is \<open>to_dict\<close> of
  \<^verbatim>\<open>domain/events.py\<close>. The writer runs without interruption from one \<open>await\<close> to the next; what the
  sink answers to a write, and when the task is resumed, are operations of the machine. The
  calls of the sink are kept in \<open>rc_written\<close>, in order.
\<close>

section \<open>Rendering an envelope\<close>

fun trust_value :: "TrustLabel \<Rightarrow> pystr" where
  "trust_value Trust_SYSTEM = lit ''system''"
| "trust_value Trust_OWNER = lit ''owner''"
| "trust_value Trust_TRUSTED_OPERATOR = lit ''trusted_operator''"
| "trust_value Trust_LOCAL_SENSOR = lit ''local_sensor''"
| "trust_value Trust_PUBLIC_VIEWER = lit ''public_viewer''"
| "trust_value Trust_RETRIEVED_DOCUMENT = lit ''retrieved_document''"
| "trust_value Trust_TOOL = lit ''tool''"
| "trust_value Trust_PLUGIN = lit ''plugin''"
| "trust_value Trust_UNKNOWN = lit ''unknown''"

fun visibility_value :: "Visibility \<Rightarrow> pystr" where
  "visibility_value Vis_PRIVATE = lit ''private''"
| "visibility_value Vis_OWNER_ONLY = lit ''owner_only''"
| "visibility_value Vis_SESSION = lit ''session''"
| "visibility_value Vis_STREAM_SAFE = lit ''stream_safe''"
| "visibility_value Vis_PUBLIC = lit ''public''"

fun retention_value :: "RetentionClass \<Rightarrow> pystr" where
  "retention_value Ret_EPHEMERAL_MEDIA = lit ''ephemeral_media''"
| "retention_value Ret_OPERATIONAL_TRACE = lit ''operational_trace''"
| "retention_value Ret_TRANSCRIPT = lit ''transcript''"
| "retention_value Ret_AUDIT = lit ''audit''"
| "retention_value Ret_DURABLE_DOMAIN = lit ''durable_domain''"

text \<open>\<open>str\<close> of a UUID: 32 hexadecimal digits in groups of 8, 4, 4, 4 and 12.\<close>

primrec hex_digits :: "nat \<Rightarrow> nat \<Rightarrow> pystr" where
  "hex_digits 0 n = []"
| "hex_digits (Suc k) n = hex_digits k (n div 16) @ [hex_digit (n mod 16)]"

definition uuid_str :: "uuid \<Rightarrow> pystr" where
  "uuid_str u =
     (let h = hex_digits 32 (unat u)
      in take 8 h @ [45] @ take 4 (drop 8 h) @ [45] @ take 4 (drop 12 h) @ [45] @
         take 4 (drop 16 h) @ [45] @ drop 20 h)"

text \<open>
  \<open>datetime.isoformat\<close>: the civil date of a day number since 1970-01-01, in the proleptic
  Gregorian calendar with years counted from March, and zero-padded decimal fields.
\<close>

definition civil_date :: "int \<Rightarrow> int \<times> int \<times> int" where
  "civil_date days =
     (let z = days + 719468;
          doe = z mod 146097;
          yoe = (doe - doe div 1460 + doe div 36524 - doe div 146096) div 365;
          doy = doe - (365 * yoe + yoe div 4 - yoe div 100);
          mp = (5 * doy + 2) div 153;
          m = (if mp < 10 then mp + 3 else mp - 9)
      in (yoe + z div 146097 * 400 + (if m \<le> 2 then 1 else 0), m, doy - (153 * mp + 2) div 5 + 1))"

primrec padded :: "nat \<Rightarrow> int \<Rightarrow> pystr" where
  "padded 0 n = []"
| "padded (Suc k) n = padded k (n div 10) @ [48 + nat (n mod 10)]"

definition clock_str :: "int \<Rightarrow> bool \<Rightarrow> pystr" where
  "clock_str micros with_seconds =
     (let s = micros div 1000000; us = micros mod 1000000
      in padded 2 (s div 3600) @ [58] @ padded 2 (s div 60 mod 60) @
         (if with_seconds \<or> s mod 60 \<noteq> 0 \<or> us \<noteq> 0 then [58] @ padded 2 (s mod 60) else []) @
         (if us \<noteq> 0 then [46] @ padded 6 us else []))"

definition isoformat :: "datetime \<Rightarrow> pystr" where
  "isoformat d =
     (let offset = (case dt_utcoffset d of None \<Rightarrow> 0 | Some x \<Rightarrow> x);
          local_micros = dt_micros d + offset;
          (year, month, day) = civil_date (local_micros div 86400000000)
      in padded 4 year @ [45] @ padded 2 month @ [45] @ padded 2 day @ [84] @
         clock_str (local_micros mod 86400000000) True @
         (case dt_utcoffset d of
            None \<Rightarrow> []
          | Some x \<Rightarrow> [if x < 0 then 45 else 43] @ clock_str \<bar>x\<bar> False))"

definition optional_str :: "uuid option \<Rightarrow> pyval" where
  "optional_str u = (case u of None \<Rightarrow> PNone | Some x \<Rightarrow> PStr (uuid_str x))"

definition thaw_payload :: "(pystr \<times> frozen) list \<Rightarrow> (pystr \<times> pyval) list" where
  "thaw_payload m = map (\<lambda>(k, v). (k, thaw_json v)) m"

definition str_dict :: "(pystr \<times> pyval) list \<Rightarrow> pyval" where
  "str_dict kvs = PDict (map (\<lambda>(k, v). (KStr k, v)) kvs)"

text \<open>\<open>to_dict\<close>, with the value of its \<open>payload\<close> key as an argument.\<close>

definition to_dict_with :: "pyval \<Rightarrow> EventEnvelope \<Rightarrow> (pystr \<times> pyval) list" where
  "to_dict_with payload e =
     [(lit ''event_id'', PStr (uuid_str (ev_event_id e))),
      (lit ''type'', PStr (ev_type e)),
      (lit ''schema_version'', PInt (ev_schema_version e)),
      (lit ''occurred_at'', PStr (isoformat (ev_occurred_at e))),
      (lit ''monotonic_at_ms'', PInt (ev_monotonic_at_ms e)),
      (lit ''session_id'', optional_str (ev_session_id e)),
      (lit ''actor_id'', case ev_actor_id e of None \<Rightarrow> PNone | Some a \<Rightarrow> PStr a),
      (lit ''correlation_id'', PStr (uuid_str (ev_correlation_id e))),
      (lit ''causation_id'', optional_str (ev_causation_id e)),
      (lit ''sequence'', case ev_sequence e of None \<Rightarrow> PNone | Some n \<Rightarrow> PInt n),
      (lit ''priority'', PInt (ev_priority e)),
      (lit ''trust'', PStr (trust_value (ev_trust e))),
      (lit ''visibility'', PStr (visibility_value (ev_visibility e))),
      (lit ''retention'', PStr (retention_value (ev_retention e))),
      (lit ''payload'', payload)]"

definition event_to_dict :: "EventEnvelope \<Rightarrow> (pystr \<times> pyval) list" where
  "event_to_dict e = to_dict_with (thaw_json (FMap (ev_payload e))) e"

section \<open>The record of an event\<close>

record EventRecord =
  el_event_id :: pystr
  el_event_type :: pystr
  el_payload :: "(pystr \<times> pyval) list"
  el_created_at :: datetime
  el_session_id :: "pystr option"
  el_correlation_id :: pystr
  el_causation_id :: "pystr option"
  el_actor_id :: "pystr option"

text \<open>
  The thawed payload is changed in place inside the dictionary: \<open>audio_base64\<close> is removed, and if it
  was a string its length is noted.
\<close>

definition redact_audio :: "(pystr \<times> pyval) list \<Rightarrow> (pystr \<times> pyval) list" where
  "redact_audio payload =
     (case map_of payload (lit ''audio_base64'') of
        Some (PStr audio) \<Rightarrow>
          AList.update (lit ''audio_base64_chars'') (PInt (int (length audio)))
            (AList.update (lit ''audio_redacted'') (PBool True)
              (AList.delete (lit ''audio_base64'') payload))
      | _ \<Rightarrow> AList.delete (lit ''audio_base64'') payload)"

definition event_record :: "EventEnvelope \<Rightarrow> EventRecord" where
  "event_record e =
     (let payload = thaw_payload (ev_payload e);
          payload = (if ev_retention e = Ret_EPHEMERAL_MEDIA then redact_audio payload else payload)
      in \<lparr>el_event_id = uuid_str (ev_event_id e), el_event_type = ev_type e,
          el_payload = to_dict_with (str_dict payload) e, el_created_at = ev_occurred_at e,
          el_session_id = map_option uuid_str (ev_session_id e),
          el_correlation_id = uuid_str (ev_correlation_id e),
          el_causation_id = map_option uuid_str (ev_causation_id e),
          el_actor_id = ev_actor_id e\<rparr>)"

lemma event_record_plain:
  "ev_retention e \<noteq> Ret_EPHEMERAL_MEDIA \<Longrightarrow> el_payload (event_record e) = event_to_dict e"
  by (simp add: event_record_def event_to_dict_def thaw_payload_def str_dict_def Let_def o_def
      case_prod_unfold)

section \<open>Recorder\<close>

datatype writer =
  Not_started | Running | Writing EventEnvelope | Waiting | Returned

record recorder =
  rc_capacity :: int
  rc_pending :: "EventEnvelope list"
  rc_wake :: bool
  rc_writer :: writer
  rc_closed :: bool
  rc_persisted :: nat
  rc_dropped :: nat
  rc_failures :: nat
  rc_written :: "EventRecord list"

datatype recorder_error = Capacity_not_positive | Already_started | Recorder_closed

record recorder_counts =
  rs_queued :: nat
  rs_persisted :: nat
  rs_dropped :: nat
  rs_failures :: nat

definition recorder_init :: "int \<Rightarrow> recorder_error + recorder" where
  "recorder_init capacity =
     (if capacity < 1 then Inl Capacity_not_positive
      else Inr \<lparr>rc_capacity = capacity, rc_pending = [], rc_wake = False, rc_writer = Not_started,
             rc_closed = False, rc_persisted = 0, rc_dropped = 0, rc_failures = 0, rc_written = []\<rparr>)"

definition recorder_stats :: "recorder \<Rightarrow> recorder_counts" where
  "recorder_stats r = \<lparr>rs_queued = length (rc_pending r), rs_persisted = rc_persisted r,
     rs_dropped = rc_dropped r, rs_failures = rc_failures r\<rparr>"

definition recorder_start :: "recorder \<Rightarrow> (recorder_error + unit) \<times> recorder" where
  "recorder_start r =
     (if rc_writer r \<noteq> Not_started then (Inl Already_started, r)
      else if rc_closed r then (Inl Recorder_closed, r)
      else (Inr (), r\<lparr>rc_writer := Running\<rparr>))"

definition displaceable :: "EventEnvelope \<Rightarrow> bool" where
  "displaceable e \<longleftrightarrow> ev_retention e \<in> {Ret_EPHEMERAL_MEDIA, Ret_OPERATIONAL_TRACE}"

definition never_persist :: "EventEnvelope \<Rightarrow> bool" where
  "never_persist e \<longleftrightarrow> ev_type e = lit ''voice.transcript_partial''"

fun find_displaceable :: "EventEnvelope list \<Rightarrow> nat option" where
  "find_displaceable [] = None"
| "find_displaceable (q # qs) =
     (if displaceable q then Some 0 else map_option Suc (find_displaceable qs))"

definition make_room :: "recorder \<Rightarrow> EventEnvelope \<Rightarrow> bool \<times> recorder" where
  "make_room r incoming =
     (if displaceable incoming then (False, r)
      else
        (case find_displaceable (rc_pending r) of
           None \<Rightarrow> (False, r)
         | Some i \<Rightarrow>
             (True, r\<lparr>rc_pending := pop_at i (rc_pending r), rc_dropped := rc_dropped r + 1\<rparr>)))"

definition recorder_observe :: "recorder \<Rightarrow> EventEnvelope \<Rightarrow> recorder" where
  "recorder_observe r e =
     (if never_persist e then r
      else if rc_closed r then r\<lparr>rc_dropped := rc_dropped r + 1\<rparr>
      else
        (case (if rc_capacity r \<le> int (length (rc_pending r)) then make_room r e else (True, r)) of
           (False, r) \<Rightarrow> r\<lparr>rc_dropped := rc_dropped r + 1\<rparr>
         | (True, r) \<Rightarrow> r\<lparr>rc_pending := rc_pending r @ [e], rc_wake := True\<rparr>))"

text \<open>\<open>close\<close> up to where it awaits the task.\<close>

definition recorder_close :: "recorder \<Rightarrow> recorder" where
  "recorder_close r = (if rc_closed r then r else r\<lparr>rc_closed := True, rc_wake := True\<rparr>)"

text \<open>
  \<open>_run\<close> from the head of its loop to the next point where it is suspended: in the write of an
  event, in the wait for a wake-up, or at its return. Starting a write hands the event's record to the
  sink.
\<close>

definition writer_loop :: "recorder \<Rightarrow> recorder" where
  "writer_loop r =
     (case rc_pending r of
        e # rest \<Rightarrow>
          r\<lparr>rc_pending := rest, rc_writer := Writing e,
            rc_written := rc_written r @ [event_record e]\<rparr>
      | [] \<Rightarrow>
          if rc_closed r then r\<lparr>rc_writer := Returned\<rparr>
          else r\<lparr>rc_wake := False, rc_writer := Waiting\<rparr>)"

text \<open>The event loop runs the task again, if it is ready.\<close>

definition writer_resume :: "recorder \<Rightarrow> recorder" where
  "writer_resume r =
     (if rc_writer r = Running \<or> (rc_writer r = Waiting \<and> rc_wake r) then writer_loop r else r)"

text \<open>The sink has returned (\<open>ok\<close>) or raised; \<open>_persist\<close> counts and the loop goes on.\<close>

definition write_done :: "bool \<Rightarrow> recorder \<Rightarrow> recorder" where
  "write_done ok r =
     (case rc_writer r of
        Writing _ \<Rightarrow>
          writer_loop (if ok then r\<lparr>rc_persisted := rc_persisted r + 1\<rparr>
                       else r\<lparr>rc_failures := rc_failures r + 1\<rparr>)
      | _ \<Rightarrow> r)"

datatype recorder_op =
  Rec_start | Rec_observe EventEnvelope | Rec_close | Rec_resume | Rec_write_done bool

fun recorder_apply :: "recorder \<Rightarrow> recorder_op \<Rightarrow> recorder" where
  "recorder_apply r Rec_start = snd (recorder_start r)"
| "recorder_apply r (Rec_observe e) = recorder_observe r e"
| "recorder_apply r Rec_close = recorder_close r"
| "recorder_apply r Rec_resume = writer_resume r"
| "recorder_apply r (Rec_write_done ok) = write_done ok r"

section \<open>Invariant\<close>

definition in_flight :: "recorder \<Rightarrow> nat" where
  "in_flight r = (case rc_writer r of Writing _ \<Rightarrow> 1 | _ \<Rightarrow> 0)"

definition recorder_inv :: "recorder \<Rightarrow> bool" where
  "recorder_inv r \<longleftrightarrow>
     1 \<le> rc_capacity r \<and> int (length (rc_pending r)) \<le> rc_capacity r \<and>
     length (rc_written r) = rc_persisted r + rc_failures r + in_flight r \<and>
     (rc_writer r = Returned \<longrightarrow> rc_closed r \<and> rc_pending r = []) \<and>
     (rc_writer r = Waiting \<and> \<not> rc_wake r \<longrightarrow> \<not> rc_closed r \<and> rc_pending r = [])"

lemma find_displaceable_Some:
  "find_displaceable qs = Some i \<Longrightarrow> i < length qs \<and> displaceable (qs ! i)"
  by (induction qs arbitrary: i) (auto split: if_splits)

lemma find_displaceable_None: "find_displaceable qs = None \<longleftrightarrow> list_all (\<lambda>q. \<not> displaceable q) qs"
  by (induction qs) auto

lemma filter_pop_at:
  "i < length qs \<Longrightarrow> \<not> P (qs ! i) \<Longrightarrow> filter P (pop_at i qs) = filter P qs"
  by (induction qs arbitrary: i) (auto simp: nth_Cons split: nat.splits)

lemma subseq_pop_at: "subseq (pop_at i qs) qs"
proof (induction qs arbitrary: i)
  case (Cons q qs)
  then show ?case by (cases i) auto
qed (simp add: pop_at_def)

text \<open>What \<open>observe\<close> does, by cases.\<close>

lemma recorder_observe_cases:
  obtains (ignored) "never_persist e" "recorder_observe r e = r"
  | (dropped) "\<not> never_persist e" "recorder_observe r e = r\<lparr>rc_dropped := rc_dropped r + 1\<rparr>"
      "rc_closed r \<or> (rc_capacity r \<le> int (length (rc_pending r)) \<and>
        (displaceable e \<or> list_all (\<lambda>q. \<not> displaceable q) (rc_pending r)))"
  | (queued) "\<not> never_persist e" "\<not> rc_closed r" "int (length (rc_pending r)) < rc_capacity r"
      "recorder_observe r e = r\<lparr>rc_pending := rc_pending r @ [e], rc_wake := True\<rparr>"
  | (displaced) i where "\<not> never_persist e" "\<not> rc_closed r" "\<not> displaceable e"
      "i < length (rc_pending r)" "displaceable (rc_pending r ! i)"
      "recorder_observe r e = r\<lparr>rc_dropped := rc_dropped r + 1, rc_pending := pop_at i (rc_pending r) @ [e], rc_wake := True\<rparr>"
proof -
  consider "never_persist e" | "\<not> never_persist e" "rc_closed r"
    | "\<not> never_persist e" "\<not> rc_closed r" "int (length (rc_pending r)) < rc_capacity r"
    | "\<not> never_persist e" "\<not> rc_closed r" "rc_capacity r \<le> int (length (rc_pending r))"
      "displaceable e \<or> find_displaceable (rc_pending r) = None"
    | i where "\<not> never_persist e" "\<not> rc_closed r" "rc_capacity r \<le> int (length (rc_pending r))"
      "\<not> displaceable e" "find_displaceable (rc_pending r) = Some i"
    by (cases "find_displaceable (rc_pending r)") force+
  then show thesis
  proof cases
    case 1
    then show ?thesis by (intro ignored) (simp_all add: recorder_observe_def)
  next
    case 2
    then show ?thesis by (intro dropped) (simp_all add: recorder_observe_def)
  next
    case 3
    then show ?thesis by (intro queued) (simp_all add: recorder_observe_def)
  next
    case 4
    then show ?thesis
      by (intro dropped) (auto simp: recorder_observe_def make_room_def find_displaceable_None [symmetric])
  next
    case (5 i)
    then show ?thesis
      using find_displaceable_Some [OF 5(5)]
      by (intro displaced [of i]) (simp_all add: recorder_observe_def make_room_def)
  qed
qed

lemma recorder_observe_inv: "recorder_inv r \<Longrightarrow> recorder_inv (recorder_observe r e)"
  by (cases rule: recorder_observe_cases [of e r]) (auto simp: recorder_inv_def in_flight_def)

lemma writer_loop_inv:
  assumes "recorder_inv (r\<lparr>rc_writer := Running\<rparr>)"
  shows "recorder_inv (writer_loop r)"
  using assms by (auto simp: recorder_inv_def writer_loop_def in_flight_def split: list.splits)

lemma writer_resume_inv: "recorder_inv r \<Longrightarrow> recorder_inv (writer_resume r)"
proof -
  assume r: "recorder_inv r"
  have "recorder_inv (r\<lparr>rc_writer := Running\<rparr>)" if "rc_writer r = Running \<or> rc_writer r = Waiting"
    using r that by (auto simp: recorder_inv_def in_flight_def)
  then show ?thesis using r by (auto simp: writer_resume_def intro: writer_loop_inv)
qed

lemma write_done_inv: "recorder_inv r \<Longrightarrow> recorder_inv (write_done ok r)"
proof (cases "rc_writer r")
  case (Writing e)
  assume "recorder_inv r"
  then have "recorder_inv (r\<lparr>rc_persisted := rc_persisted r + 1, rc_writer := Running\<rparr>)"
    "recorder_inv (r\<lparr>rc_failures := rc_failures r + 1, rc_writer := Running\<rparr>)"
    by (simp_all add: recorder_inv_def in_flight_def Writing)
  then show ?thesis
    using writer_loop_inv [of "r\<lparr>rc_persisted := rc_persisted r + 1\<rparr>"]
      writer_loop_inv [of "r\<lparr>rc_failures := rc_failures r + 1\<rparr>"]
    by (simp add: write_done_def Writing)
qed (simp_all add: write_done_def)

lemma recorder_apply_inv: "recorder_inv r \<Longrightarrow> recorder_inv (recorder_apply r p)"
proof (cases p)
  case Rec_start
  assume "recorder_inv r"
  then show ?thesis by (auto simp: Rec_start recorder_start_def recorder_inv_def in_flight_def)
next
  case Rec_close
  assume "recorder_inv r"
  then show ?thesis
    by (auto simp: Rec_close recorder_close_def recorder_inv_def in_flight_def split: writer.splits)
qed (simp_all add: recorder_observe_inv writer_resume_inv write_done_inv)

interpretation rcd: op_system recorder_apply recorder_inv
  by unfold_locales (rule recorder_apply_inv)

lemma recorder_init_inv: "recorder_init n = Inr r \<Longrightarrow> recorder_inv r"
  by (auto simp: recorder_init_def recorder_inv_def in_flight_def split: if_splits)

section \<open>Accounting and order\<close>

text \<open>The events of a sequence of operations that are offered for persistence.\<close>

definition offered :: "recorder_op list \<Rightarrow> EventEnvelope list" where
  "offered ps = filter (\<lambda>e. \<not> never_persist e) (concat (map (\<lambda>p. case p of Rec_observe e \<Rightarrow> [e] | _ \<Rightarrow> []) ps))"

lemma offered_snoc:
  "offered (ps @ [p]) = offered ps @ (case p of Rec_observe e \<Rightarrow> if never_persist e then [] else [e] | _ \<Rightarrow> [])"
  by (simp add: offered_def split: recorder_op.splits)

definition accounted :: "EventEnvelope list \<Rightarrow> recorder \<Rightarrow> bool" where
  "accounted es r \<longleftrightarrow>
     length es = length (rc_pending r) + in_flight r + rc_persisted r + rc_failures r + rc_dropped r \<and>
     (\<exists>ws. rc_written r = map event_record ws \<and> subseq (ws @ rc_pending r) es)"

lemma accounted_writer_loop:
  "accounted es (r\<lparr>rc_writer := Running\<rparr>) \<Longrightarrow> accounted es (writer_loop r)"
  by (force simp: accounted_def writer_loop_def in_flight_def split: list.splits
      intro: exI [of _ "_ @ [_]"])

lemma accounted_observe:
  assumes "accounted es r"
  shows "accounted (es @ (if never_persist e then [] else [e])) (recorder_observe r e)"
proof -
  obtain ws where n: "length es = length (rc_pending r) + in_flight r + rc_persisted r + rc_failures r + rc_dropped r"
    and ws: "rc_written r = map event_record ws" "subseq (ws @ rc_pending r) es"
    using assms by (auto simp: accounted_def)
  show ?thesis
  proof (cases rule: recorder_observe_cases [of e r])
    case dropped
    then show ?thesis using n ws by (auto simp: accounted_def in_flight_def intro!: exI [of _ ws])
  next
    case queued
    have "subseq ((ws @ rc_pending r) @ [e]) (es @ [e])" using ws(2) by (simp only: subseq_append)
    then show ?thesis using queued n ws by (auto simp: accounted_def in_flight_def intro!: exI [of _ ws])
  next
    case (displaced i)
    have "subseq (ws @ pop_at i (rc_pending r)) (ws @ rc_pending r)"
      by (intro list_emb_append_mono subseq_pop_at) simp
    then have "subseq (ws @ pop_at i (rc_pending r)) es" using ws(2) by (rule subseq_order.trans)
    then have "subseq ((ws @ pop_at i (rc_pending r)) @ [e]) (es @ [e])" by (simp only: subseq_append)
    then show ?thesis using displaced n ws by (auto simp: accounted_def in_flight_def intro!: exI [of _ ws])
  qed (use assms in simp)
qed

lemma accounted_resume: "accounted es r \<Longrightarrow> accounted es (writer_resume r)"
proof -
  assume r: "accounted es r"
  have "accounted es (r\<lparr>rc_writer := Running\<rparr>)" if "rc_writer r = Running \<or> rc_writer r = Waiting"
    using r that by (auto simp: accounted_def in_flight_def)
  then show ?thesis using r by (auto simp: writer_resume_def intro: accounted_writer_loop)
qed

lemma accounted_write_done: "accounted es r \<Longrightarrow> accounted es (write_done ok r)"
proof (cases "rc_writer r")
  case (Writing e)
  assume "accounted es r"
  then have "accounted es (r\<lparr>rc_persisted := rc_persisted r + 1, rc_writer := Running\<rparr>)"
    "accounted es (r\<lparr>rc_failures := rc_failures r + 1, rc_writer := Running\<rparr>)"
    by (simp_all add: accounted_def in_flight_def Writing)
  then show ?thesis
    using accounted_writer_loop [of es "r\<lparr>rc_persisted := rc_persisted r + 1\<rparr>"]
      accounted_writer_loop [of es "r\<lparr>rc_failures := rc_failures r + 1\<rparr>"]
    by (simp add: write_done_def Writing)
qed (simp_all add: write_done_def)

lemma accounted_apply:
  assumes "accounted (offered ps) r"
  shows "accounted (offered (ps @ [p])) (recorder_apply r p)"
proof (cases p)
  case Rec_start
  then show ?thesis using assms by (auto simp: offered_snoc recorder_start_def accounted_def in_flight_def)
next
  case (Rec_observe e)
  then show ?thesis using accounted_observe [OF assms, of e] by (simp add: offered_snoc)
next
  case Rec_close
  then show ?thesis
    using assms by (auto simp: offered_snoc recorder_close_def accounted_def in_flight_def)
qed (use assms in \<open>simp_all add: offered_snoc accounted_resume accounted_write_done\<close>)

lemma accounted_run:
  assumes "recorder_init n = Inr r"
  shows "accounted (offered ps) (rcd.run r ps)"
proof (induction ps rule: rev_induct)
  case Nil
  then show ?case
    using assms by (auto simp: recorder_init_def accounted_def offered_def in_flight_def split: if_splits)
next
  case (snoc p ps)
  then show ?case using accounted_apply [of ps "rcd.run r ps" p] by simp
qed

lemma redact_audio_keys: "lit ''audio_base64'' \<notin> fst ` set (redact_audio m)"
proof -
  have del: "lit ''audio_base64'' \<notin> fst ` set (AList.delete (lit ''audio_base64'') m)"
    by (simp add: AList.delete_eq image_iff)
  then have "lit ''audio_base64'' \<notin> fst ` set (AList.update (lit ''audio_base64_chars'') x
      (AList.update (lit ''audio_redacted'') y (AList.delete (lit ''audio_base64'') m)))" for x y
    by (simp add: dom_update)
  then show ?thesis
    using del by (simp add: redact_audio_def del: lit_simps split: option.splits pyval.splits)
qed

lemma event_record_redacted:
  assumes "ev_retention e = Ret_EPHEMERAL_MEDIA"
  shows "\<exists>m. map_of (el_payload (event_record e)) (lit ''payload'') = Some (str_dict m) \<and>
    lit ''audio_base64'' \<notin> fst ` set m"
  by (rule exI [of _ "redact_audio (thaw_payload (ev_payload e))"])
    (use redact_audio_keys [of "thaw_payload (ev_payload e)"] in
      \<open>simp add: assms event_record_def to_dict_with_def\<close>)

lemma observe_keeps_durable:
  "filter (\<lambda>q. \<not> displaceable q) (rc_pending (recorder_observe r e)) =
     filter (\<lambda>q. \<not> displaceable q) (rc_pending r) @
     (if displaceable e \<or> never_persist e \<or> rc_closed r \<or>
         (rc_capacity r \<le> int (length (rc_pending r)) \<and> list_all (\<lambda>q. \<not> displaceable q) (rc_pending r))
      then [] else [e])"
proof (cases rule: recorder_observe_cases [of e r])
  case (displaced i)
  then have "\<not> list_all (\<lambda>q. \<not> displaceable q) (rc_pending r)" by (auto simp: list_all_length)
  then show ?thesis using displaced by (simp add: filter_pop_at)
qed auto

section \<open>Properties\<close>

text \<open>
  C34: Whatever the interleaving of observations, writes and a close, every event offered for
  persistence is queued, being written, persisted, failed or counted as dropped; the queue
  stays within its capacity; the sink receives records of offered events in the order they were
  observed, never a partial transcript and never the audio of ephemeral media. Transcripts, audit
  and domain events already queued are never displaced, and a further one is refused only by a
  closed recorder or a queue full of such events.
\<close>

theorem event_recorder_accounting:
  assumes "recorder_init n = Inr r0" and "r = foldl recorder_apply r0 ps"
  shows "int (length (rc_pending r)) \<le> rc_capacity r \<and>
    length (offered ps) = length (rc_pending r) + in_flight r + rc_persisted r + rc_failures r + rc_dropped r \<and>
    (\<exists>ws. rc_written r = map event_record ws \<and> subseq (ws @ rc_pending r) (offered ps) \<and>
       (\<forall>e \<in> set ws. \<not> never_persist e \<and>
          (ev_retention e = Ret_EPHEMERAL_MEDIA \<longrightarrow>
             (\<exists>m. map_of (el_payload (event_record e)) (lit ''payload'') = Some (str_dict m) \<and>
                lit ''audio_base64'' \<notin> fst ` set m)))) \<and>
    (\<forall>e. filter (\<lambda>q. \<not> displaceable q) (rc_pending (recorder_observe r e)) =
       filter (\<lambda>q. \<not> displaceable q) (rc_pending r) @
       (if displaceable e \<or> never_persist e \<or> rc_closed r \<or>
           (rc_capacity r \<le> int (length (rc_pending r)) \<and> list_all (\<lambda>q. \<not> displaceable q) (rc_pending r))
        then [] else [e]))"
proof (intro conjI allI observe_keeps_durable)
  have r: "r = rcd.run r0 ps" using assms(2) by (simp add: rcd.run_def)
  have "recorder_inv r" unfolding r using recorder_init_inv [OF assms(1)] by (rule rcd.run_inv)
  then show "int (length (rc_pending r)) \<le> rc_capacity r" by (simp add: recorder_inv_def)
  have acc: "accounted (offered ps) r" unfolding r using assms(1) by (rule accounted_run)
  then show "length (offered ps) = length (rc_pending r) + in_flight r + rc_persisted r + rc_failures r + rc_dropped r"
    by (simp add: accounted_def)
  from acc obtain ws where ws: "rc_written r = map event_record ws" "subseq (ws @ rc_pending r) (offered ps)"
    by (auto simp: accounted_def)
  have "e \<in> set (offered ps)" if "e \<in> set ws" for e
    using list_emb_set [OF ws(2), of e] that by (metis in_set_conv_decomp append.assoc append_Cons)
  then have "\<forall>e \<in> set ws. \<not> never_persist e" by (auto simp: offered_def)
  then show "\<exists>ws. rc_written r = map event_record ws \<and> subseq (ws @ rc_pending r) (offered ps) \<and>
       (\<forall>e \<in> set ws. \<not> never_persist e \<and>
          (ev_retention e = Ret_EPHEMERAL_MEDIA \<longrightarrow>
             (\<exists>m. map_of (el_payload (event_record e)) (lit ''payload'') = Some (str_dict m) \<and>
                lit ''audio_base64'' \<notin> fst ` set m)))"
    using ws event_record_redacted by blast
qed

text \<open>The queue of a started recorder that is being closed, one completed write at a time.\<close>

lemma drain_writes:
  assumes "rc_closed r" "rc_writer r = Writing e" "length oks = Suc (length (rc_pending r))"
  shows "rc_writer (foldl recorder_apply r (map Rec_write_done oks)) = Returned \<and>
    rc_pending (foldl recorder_apply r (map Rec_write_done oks)) = [] \<and>
    rc_written (foldl recorder_apply r (map Rec_write_done oks)) =
      rc_written r @ map event_record (rc_pending r) \<and>
    rc_dropped (foldl recorder_apply r (map Rec_write_done oks)) = rc_dropped r"
  using assms
proof (induction oks arbitrary: r e)
  case (Cons ok oks)
  show ?case
  proof (cases "rc_pending r")
    case Nil
    then show ?thesis using Cons.prems by (simp add: write_done_def writer_loop_def)
  next
    case (Cons q qs)
    have "rc_closed (write_done ok r)" "rc_writer (write_done ok r) = Writing q"
      "rc_pending (write_done ok r) = qs" "rc_written (write_done ok r) = rc_written r @ [event_record q]"
      "rc_dropped (write_done ok r) = rc_dropped r"
      using Cons.prems(1,2) Cons by (simp_all add: write_done_def writer_loop_def)
    then show ?thesis using Cons.IH [of "write_done ok r" q] Cons.prems(3) Cons by simp
  qed
qed simp

text \<open>
  After \<open>close\<close> a started recorder takes no more events, and as long as the sink answers
  each write, by returning or by raising, the task writes everything that was queued, in order,
  drops none of it, and returns.
\<close>

theorem event_recorder_close_drains:
  assumes "recorder_init n = Inr r0" and "r = foldl recorder_apply r0 ps"
    and "rc_writer r = Writing e" and "length oks = Suc (length (rc_pending r))"
    and "r' = foldl recorder_apply (recorder_close r) (map Rec_write_done oks)"
  shows "rc_writer r' = Returned \<and> rc_pending r' = [] \<and>
    rc_written r' = rc_written r @ map event_record (rc_pending r) \<and> rc_dropped r' = rc_dropped r \<and>
    rc_persisted r' + rc_failures r' = rc_persisted r + rc_failures r + Suc (length (rc_pending r))"
proof -
  have close: "rc_closed (recorder_close r)" "rc_writer (recorder_close r) = Writing e"
    "rc_pending (recorder_close r) = rc_pending r" "rc_written (recorder_close r) = rc_written r"
    "rc_dropped (recorder_close r) = rc_dropped r"
    using assms(3) by (simp_all add: recorder_close_def)
  have inv: "recorder_inv r"
    using rcd.run_inv [OF recorder_init_inv [OF assms(1)]] assms(2) by (simp add: rcd.run_def)
  then have "recorder_inv (recorder_close r)" using recorder_apply_inv [of r Rec_close] by simp
  then have inv': "recorder_inv r'"
    using rcd.run_inv [of "recorder_close r" "map Rec_write_done oks"] assms(5) by (simp add: rcd.run_def)
  have d: "rc_writer r' = Returned" "rc_pending r' = []"
    "rc_written r' = rc_written r @ map event_record (rc_pending r)" "rc_dropped r' = rc_dropped r"
    using drain_writes [OF close(1,2), of oks] close assms(4,5) by simp_all
  moreover have "rc_persisted r' + rc_failures r' = length (rc_written r')"
    using inv' d(1) by (simp add: recorder_inv_def in_flight_def)
  moreover have "length (rc_written r) = rc_persisted r + rc_failures r + 1"
    using inv assms(3) by (simp add: recorder_inv_def in_flight_def)
  ultimately show ?thesis by simp
qed

definition demo_recorded :: "RetentionClass \<Rightarrow> EventEnvelope" where
  "demo_recorded c = \<lparr>ev_type = lit ''turn.completed'', ev_payload = [(lit ''audio_base64'', FStr (lit ''AAAA''))],
     ev_event_id = 1, ev_schema_version = 1, ev_occurred_at = \<lparr>dt_micros = 0, dt_utcoffset = Some 0\<rparr>,
     ev_monotonic_at_ms = 0, ev_session_id = None, ev_actor_id = None, ev_correlation_id = 1,
     ev_causation_id = None, ev_sequence = Some 0, ev_priority = 50, ev_trust = Trust_SYSTEM,
     ev_visibility = Vis_SESSION, ev_retention = c\<rparr>"

definition demo_ops :: "recorder_op list" where
  "demo_ops = [Rec_observe (demo_recorded Ret_EPHEMERAL_MEDIA), Rec_observe (demo_recorded Ret_TRANSCRIPT),
     Rec_start, Rec_resume, Rec_observe (demo_recorded Ret_AUDIT), Rec_write_done True]"

definition demo_recorder :: recorder where
  "demo_recorder = \<lparr>rc_capacity = 1, rc_pending = [], rc_wake = False, rc_writer = Not_started,
     rc_closed = False, rc_persisted = 0, rc_dropped = 0, rc_failures = 0, rc_written = []\<rparr>"

lemma demo_recorder_init: "recorder_init 1 = Inr demo_recorder"
  by (simp add: recorder_init_def demo_recorder_def)

theorem event_recorder_accounting_witness:
  "length (offered demo_ops) =
     length (rc_pending (foldl recorder_apply demo_recorder demo_ops)) +
     in_flight (foldl recorder_apply demo_recorder demo_ops) +
     rc_persisted (foldl recorder_apply demo_recorder demo_ops) +
     rc_failures (foldl recorder_apply demo_recorder demo_ops) +
     rc_dropped (foldl recorder_apply demo_recorder demo_ops)"
  using event_recorder_accounting [OF demo_recorder_init refl, of demo_ops] by blast

lemma demo_not_never: "\<not> never_persist (demo_recorded c)"
  by (simp add: never_persist_def demo_recorded_def)

lemma demo_run:
  "rc_writer (foldl recorder_apply demo_recorder demo_ops) = Writing (demo_recorded Ret_AUDIT)"
  "rc_pending (foldl recorder_apply demo_recorder demo_ops) = []"
  "rc_dropped (foldl recorder_apply demo_recorder demo_ops) = 1"
  by (simp_all add: demo_ops_def recorder_observe_def demo_not_never make_room_def recorder_start_def
      writer_resume_def writer_loop_def write_done_def demo_recorder_def)

theorem event_recorder_close_drains_witness:
  "rc_writer (foldl recorder_apply (recorder_close (foldl recorder_apply demo_recorder demo_ops))
     (map Rec_write_done [False])) = Returned"
  using event_recorder_close_drains [OF demo_recorder_init refl demo_run(1) _ refl, of "[False]"]
  by (simp add: demo_run)

end
