(* ===== verification/ConversationHistory.thy ===== *)
theory ConversationHistory
  imports JsonParse Events
begin

text \<open>
  \<^verbatim>\<open>application/conversation_history.py\<close>: the bounded projection of stored messages into a prompt
  section, newest messages first within a budget of characters, the oldest selected one possibly cut by
  a binary search. The stored message is \<open>MessageRecord\<close> of \<^verbatim>\<open>storage/types.py\<close>.
\<close>

section \<open>Values\<close>

datatype MessageRole = Role_SYSTEM | Role_USER | Role_ASSISTANT | Role_TOOL

fun role_value :: "MessageRole \<Rightarrow> pystr" where
  "role_value Role_SYSTEM = lit ''system''"
| "role_value Role_USER = lit ''user''"
| "role_value Role_ASSISTANT = lit ''assistant''"
| "role_value Role_TOOL = lit ''tool''"

record MessageRecord =
  mr_message_id :: pystr
  mr_session_id :: pystr
  mr_sequence :: int
  mr_role :: MessageRole
  mr_content :: pystr
  mr_created_at :: datetime
  mr_actor_id :: "pystr option"
  mr_source_event_id :: "pystr option"
  mr_metadata :: "(pystr \<times> pyval) list"

definition check_message_record :: "MessageRecord \<Rightarrow> bool" where
  "check_message_record r \<longleftrightarrow>
     1 \<le> mr_sequence r \<and> \<not> (mr_role r \<in> {Role_USER, Role_ASSISTANT} \<and> blank (mr_content r))"

record history_policy =
  hp_max_messages :: int
  hp_max_chars :: int
  hp_max_message_chars :: int
  hp_load_timeout_ms :: int

datatype policy_error = Bounds_negative | Max_message_chars_not_positive | Max_messages_too_large

definition check_history_policy :: "history_policy \<Rightarrow> policy_error option" where
  "check_history_policy p =
     (if hp_max_messages p < 0 \<or> hp_max_chars p < 0 \<or> hp_load_timeout_ms p < 0 then Some Bounds_negative
      else if hp_max_message_chars p \<le> 0 then Some Max_message_chars_not_positive
      else if 1000 < hp_max_messages p then Some Max_messages_too_large
      else None)"

definition history_enabled :: "history_policy \<Rightarrow> bool" where
  "history_enabled p \<longleftrightarrow> 0 < hp_max_messages p \<and> 0 < hp_max_chars p \<and> 0 < hp_load_timeout_ms p"

definition fetch_limit :: "history_policy \<Rightarrow> int" where
  "fetch_limit p = min 1000 (max (hp_max_messages p) (hp_max_messages p * 2))"

record history_message =
  hm_message_id :: pystr
  hm_sequence :: int
  hm_generation :: int
  hm_role :: MessageRole
  hm_content :: pystr
  hm_truncated :: bool

record history =
  hy_messages :: "history_message list"
  hy_rendered_context :: pystr

definition empty_history :: history where
  "empty_history = \<lparr>hy_messages = [], hy_rendered_context = []\<rparr>"

definition character_count :: "history \<Rightarrow> nat" where
  "character_count h = length (hy_rendered_context h)"

definition last_sequence :: "history \<Rightarrow> int option" where
  "last_sequence h = (if hy_messages h = [] then None else Some (hm_sequence (last (hy_messages h))))"

section \<open>Rendering\<close>

definition message_json :: "history_message \<Rightarrow> json" where
  "message_json m = JObj
     [(lit ''message_id'', JStr (hm_message_id m)),
      (lit ''sequence'', JInt (hm_sequence m)),
      (lit ''generation'', JInt (hm_generation m)),
      (lit ''role'', JStr (role_value (hm_role m))),
      (lit ''content'', JStr (hm_content m)),
      (lit ''truncated'', JBool (hm_truncated m))]"

definition history_open :: pystr where
  "history_open = lit ''<recent_conversation instruction_authority='' @ [34] @ lit ''false'' @ [34] @
     lit '' data_only='' @ [34] @ lit ''true'' @ [34] @ lit '' may_be_incomplete='' @ [34] @
     lit ''true'' @ [34] @ lit ''>''"

definition history_close :: pystr where
  "history_close = lit ''</recent_conversation>''"

definition render_history :: "history_message list \<Rightarrow> pystr" where
  "render_history ms =
     join_with [10] [history_open, json_dumps (JArr (map message_json ms)), history_close]"

section \<open>Selection\<close>

definition eligible_generation :: "int \<Rightarrow> MessageRecord \<Rightarrow> int option" where
  "eligible_generation before_generation r =
     (case map_of (mr_metadata r) (lit ''generation'') of
        Some (PInt g) \<Rightarrow> if g < 0 \<or> before_generation \<le> g then None else Some g
      | _ \<Rightarrow> None)"

text \<open>The body of the first loop for a record of the session that was not seen before.\<close>

definition eligible_message :: "history_policy \<Rightarrow> int \<Rightarrow> MessageRecord \<Rightarrow> history_message option" where
  "eligible_message p before_generation r =
     (if mr_role r \<notin> {Role_USER, Role_ASSISTANT} then None
      else
        (case eligible_generation before_generation r of
           None \<Rightarrow> None
         | Some g \<Rightarrow>
             (let content = strip (mr_content r);
                  bounded = take (nat (hp_max_message_chars p)) content
              in if content = [] then None
                 else Some \<lparr>hm_message_id = mr_message_id r, hm_sequence = mr_sequence r,
                        hm_generation = g, hm_role = mr_role r, hm_content = bounded,
                        hm_truncated = (length bounded < length content)\<rparr>)))"

fun collect_eligible ::
  "history_policy \<Rightarrow> pystr \<Rightarrow> int \<Rightarrow> pystr set \<Rightarrow> MessageRecord list \<Rightarrow> history_message list" where
  "collect_eligible p session_id g seen_ids [] = []"
| "collect_eligible p session_id g seen_ids (r # rs) =
     (if mr_message_id r \<in> seen_ids \<or> mr_session_id r \<noteq> session_id
      then collect_eligible p session_id g seen_ids rs
      else
        (case eligible_message p g r of
           None \<Rightarrow> collect_eligible p session_id g (insert (mr_message_id r) seen_ids) rs
         | Some m \<Rightarrow> m # collect_eligible p session_id g (insert (mr_message_id r) seen_ids) rs))"

definition fits :: "history_policy \<Rightarrow> history_message list \<Rightarrow> bool" where
  "fits p ms \<longleftrightarrow> int (length (render_history ms)) \<le> hp_max_chars p"

definition cut_message :: "history_message \<Rightarrow> nat \<Rightarrow> history_message" where
  "cut_message m k = m\<lparr>hm_content := take k (hm_content m), hm_truncated := True\<rparr>"

function fit_search ::
  "history_policy \<Rightarrow> history_message \<Rightarrow> history_message list \<Rightarrow> int \<Rightarrow> int \<Rightarrow> history_message option \<Rightarrow>
   history_message option" where
  "fit_search p m newer low high best =
     (if low \<le> high then
        (let midpoint = (low + high) div 2
         in if 0 < midpoint \<and> fits p (cut_message m (nat midpoint) # newer)
            then fit_search p m newer (midpoint + 1) high (Some (cut_message m (nat midpoint)))
            else fit_search p m newer low (midpoint - 1) best)
      else best)"
  by pat_completeness auto
termination
  by (relation "measure (\<lambda>(p, m, newer, low, high, best). nat (high - low + 1))") auto

declare fit_search.simps [simp del]

definition fit_message :: "history_policy \<Rightarrow> history_message \<Rightarrow> history_message list \<Rightarrow> history_message option" where
  "fit_message p m newer =
     (if fits p (m # newer) then Some m
      else fit_search p m newer 0 (int (length (hm_content m))) None)"

text \<open>The second loop, over the candidates from the newest; \<open>selected\<close> grows at its front.\<close>

fun select_messages :: "history_policy \<Rightarrow> history_message list \<Rightarrow> history_message list \<Rightarrow> history_message list" where
  "select_messages p [] selected = selected"
| "select_messages p (m # ms) selected =
     select_messages p ms
       (case fit_message p m selected of None \<Rightarrow> selected | Some m' \<Rightarrow> m' # selected)"

definition compile_history ::
  "history_policy \<Rightarrow> MessageRecord list \<Rightarrow> pystr \<Rightarrow> int \<Rightarrow> history" where
  "compile_history p records session_id before_generation =
     (if \<not> history_enabled p then empty_history
      else
        (let eligible = collect_eligible p session_id before_generation {}
               (sort_key (\<lambda>r. (mr_sequence r, mr_message_id r)) records);
             recent = drop (length eligible - nat (hp_max_messages p)) eligible;
             selected = select_messages p (rev recent) []
         in if selected = [] then empty_history
            else \<lparr>hy_messages = selected, hy_rendered_context = render_history selected\<rparr>))"

section \<open>The search\<close>

text \<open>Rendering grows with the content.\<close>

definition json_length :: "pystr \<Rightarrow> nat" where
  "json_length s = length (json_string s)"

lemma json_length_take_mono: "j \<le> k \<Longrightarrow> json_length (take j s) \<le> json_length (take k s)"
proof -
  assume "j \<le> k"
  then have "take k s = take j s @ take (k - j) (drop j s)" by (metis le_add_diff_inverse take_add)
  then show ?thesis by (simp add: json_length_def json_string_def)
qed

lemma length_join_json:
  "length (json_dumps (JArr (v # vs))) =
     length (json_dumps v) + (if vs = [] then 2 else length (json_dumps (JArr vs)) + 1)"
  by (cases vs) simp_all

lemma length_message_json:
  "length (json_dumps (message_json m)) =
     length (json_dumps (message_json (m\<lparr>hm_content := [], hm_truncated := True\<rparr>))) +
     (length (json_string (hm_content m)) - 2) + (if hm_truncated m then 0 else 1)"
  by (simp add: message_json_def json_string_def)

lemma fits_cut_mono:
  assumes "j \<le> k" "fits p (cut_message m k # newer)"
  shows "fits p (cut_message m j # newer)"
proof -
  have "length (json_dumps (message_json (cut_message m j))) \<le> length (json_dumps (message_json (cut_message m k)))"
    using json_length_take_mono [OF assms(1), of "hm_content m"]
    by (simp add: length_message_json [of "cut_message m _"]) (simp add: cut_message_def json_length_def)
  then have "length (render_history (cut_message m j # newer)) \<le> length (render_history (cut_message m k # newer))"
    by (simp add: render_history_def length_join_json del: json_dumps.simps)
  then show ?thesis using assms(2) by (simp add: fits_def)
qed

definition longest_cut :: "history_policy \<Rightarrow> history_message \<Rightarrow> history_message list \<Rightarrow> nat \<Rightarrow> bool" where
  "longest_cut p m newer k \<longleftrightarrow>
     1 \<le> k \<and> k \<le> length (hm_content m) \<and> fits p (cut_message m k # newer) \<and>
     (\<forall>j. k < j \<and> j \<le> length (hm_content m) \<longrightarrow> \<not> fits p (cut_message m j # newer))"

definition search_state ::
  "history_policy \<Rightarrow> history_message \<Rightarrow> history_message list \<Rightarrow> int \<Rightarrow> int \<Rightarrow> history_message option \<Rightarrow> bool" where
  "search_state p m newer low high best \<longleftrightarrow>
     low \<le> high + 1 \<and> high \<le> int (length (hm_content m)) \<and>
     (low = 0 \<and> best = None \<or>
      (\<exists>k. 1 \<le> k \<and> k \<le> length (hm_content m) \<and> low = int k + 1 \<and> best = Some (cut_message m k) \<and>
         fits p (cut_message m k # newer))) \<and>
     (\<forall>j. high < int j \<and> 2 \<le> j \<and> j \<le> length (hm_content m) \<longrightarrow> \<not> fits p (cut_message m j # newer))"

lemma fit_search_ok:
  "search_state p m newer low high best \<Longrightarrow>
   (case fit_search p m newer low high best of
      None \<Rightarrow> \<forall>j. 2 \<le> j \<and> j \<le> length (hm_content m) \<longrightarrow> \<not> fits p (cut_message m j # newer)
    | Some m' \<Rightarrow> \<exists>k. m' = cut_message m k \<and> longest_cut p m newer k)"
proof (induction p m newer low high best rule: fit_search.induct)
  case (1 p m newer low high best)
  note st = "1.prems" [unfolded search_state_def]
  show ?case
  proof (cases "low \<le> high")
    case False
    then have "high + 1 = low" using st by linarith
    then have "best = None \<and> low = 0 \<or> (\<exists>k. best = Some (cut_message m k) \<and> longest_cut p m newer k)"
      using st unfolding longest_cut_def by (elim conjE disjE exE) (force+)
    then show ?thesis using st False by (auto simp: fit_search.simps [of p m newer low high best])
  next
    case True
    let ?mid = "(low + high) div 2"
    have mid: "low \<le> ?mid" "?mid \<le> high" using True by linarith+
    show ?thesis
    proof (cases "0 < ?mid \<and> fits p (cut_message m (nat ?mid) # newer)")
      case fit: True
      have "search_state p m newer (?mid + 1) high (Some (cut_message m (nat ?mid)))"
        unfolding search_state_def using st fit mid
        by (intro conjI disjI2 exI [of _ "nat ?mid"]) (auto simp: nat_le_iff)
      from "1.IH"(1) [OF True refl fit this] show ?thesis
        using True fit by (simp add: fit_search.simps [of p m newer low high best] Let_def)
    next
      case no_fit: False
      have "\<not> fits p (cut_message m j # newer)" if "?mid - 1 < int j" "2 \<le> j" "j \<le> length (hm_content m)" for j
      proof (cases "0 < ?mid")
        case True
        then have "\<not> fits p (cut_message m (nat ?mid) # newer)" using no_fit by blast
        moreover have "nat ?mid \<le> j" using that(1) by linarith
        ultimately show ?thesis using fits_cut_mono by blast
      next
        case False
        moreover have "0 \<le> low" using st by auto
        ultimately have "high \<le> 1" by presburger
        then show ?thesis using st that by auto
      qed
      then have "search_state p m newer low (?mid - 1) best"
        unfolding search_state_def using st mid by auto
      from "1.IH"(2) [OF True refl no_fit this] show ?thesis
        using True no_fit by (auto simp: fit_search.simps [of p m newer low high best] Let_def)
    qed
  qed
qed

lemma fit_message_ok:
  "case fit_message p m newer of
     None \<Rightarrow> \<not> fits p (m # newer) \<and>
       (\<forall>j. 2 \<le> j \<and> j \<le> length (hm_content m) \<longrightarrow> \<not> fits p (cut_message m j # newer))
   | Some m' \<Rightarrow> fits p (m' # newer) \<and>
       (m' = m \<or> \<not> fits p (m # newer) \<and> (\<exists>k. m' = cut_message m k \<and> longest_cut p m newer k))"
proof (cases "fits p (m # newer)")
  case True
  then show ?thesis by (simp add: fit_message_def)
next
  case False
  have "search_state p m newer 0 (int (length (hm_content m))) None" by (auto simp: search_state_def)
  from fit_search_ok [OF this] False show ?thesis
    by (auto simp: fit_message_def longest_cut_def split: option.splits)
qed

text \<open>
  The search misses one case: its first midpoint with a positive index is 1 only when the
  content has two characters or more, so a content of one character is never tried again as a
  truncated one, although the shorter \<open>true\<close> may make it fit.
\<close>

lemma fit_search_skips_single:
  assumes "length (hm_content m) = 1" "\<not> fits p (m # newer)"
  shows "fit_message p m newer = None"
  using assms by (simp add: fit_message_def fit_search.simps)

text \<open>
  The mark of a text cut at its full length is one character shorter than the mark of the whole text: when the
  rendering is one character too long, the search keeps the whole text and marks it as truncated.
\<close>

lemma render_mark:
  assumes "\<not> hm_truncated m"
  shows "length (render_history (m # ms)) = Suc (length (render_history (cut_message m (length (hm_content m)) # ms)))"
  using assms
  by (cases ms) (simp_all add: render_history_def message_json_def cut_message_def)

lemma whole_text_marked_truncated:
  assumes "\<not> hm_truncated m" "2 \<le> length (hm_content m)"
    and "int (length (render_history (m # newer))) = hp_max_chars p + 1"
  shows "\<exists>m'. fit_message p m newer = Some m' \<and> hm_content m' = hm_content m \<and> hm_truncated m'"
proof -
  let ?n = "length (hm_content m)"
  have "\<not> fits p (m # newer)" "fits p (cut_message m ?n # newer)"
    using assms(3) render_mark [OF assms(1), of newer] by (simp_all add: fits_def)
  then obtain k where k: "fit_message p m newer = Some (cut_message m k)" "longest_cut p m newer k"
    using fit_message_ok [of p m newer] assms(2) by (fastforce split: option.splits)
  then have "k = ?n" using \<open>fits p (cut_message m ?n # newer)\<close>
    unfolding longest_cut_def by (metis le_neq_implies_less order_refl)
  then show ?thesis using k(1) by (simp add: cut_message_def)
qed

section \<open>The selection\<close>

definition cut_of :: "history_message \<Rightarrow> history_message \<Rightarrow> bool" where
  "cut_of m m' \<longleftrightarrow> m' = m \<or> (\<exists>k. 1 \<le> k \<and> m' = cut_message m k)"

lemma fit_message_cut: "fit_message p m newer = Some m' \<Longrightarrow> fits p (m' # newer) \<and> cut_of m m'"
  using fit_message_ok [of p m newer] by (auto simp: cut_of_def longest_cut_def)

text \<open>What is selected is, in order, a choice of the candidates, each whole or cut.\<close>

inductive chosen :: "history_message list \<Rightarrow> history_message list \<Rightarrow> bool" where
  chosen_Nil: "chosen [] []"
| chosen_skip: "chosen ms xs \<Longrightarrow> chosen (m # ms) xs"
| chosen_take: "chosen ms xs \<Longrightarrow> cut_of m m' \<Longrightarrow> chosen (m # ms) (m' # xs)"

inductive_cases chosen_ConsE: "chosen (m # ms) xs"

lemma select_messages_chosen:
  "chosen newer selected \<Longrightarrow> selected = [] \<or> fits p selected \<Longrightarrow>
   chosen (rev ms @ newer) (select_messages p ms selected) \<and>
   (select_messages p ms selected = [] \<or> fits p (select_messages p ms selected))"
proof (induction ms arbitrary: newer selected)
  case (Cons m ms)
  let ?sel = "case fit_message p m selected of None \<Rightarrow> selected | Some m' \<Rightarrow> m' # selected"
  have "chosen (m # newer) ?sel \<and> (?sel = [] \<or> fits p ?sel)"
    using Cons.prems fit_message_cut [of p m selected]
    by (auto intro: chosen_skip chosen_take split: option.splits)
  then show ?case using Cons.IH [of "m # newer" ?sel] by simp
qed simp

lemma chosen_length: "chosen ms xs \<Longrightarrow> length xs \<le> length ms"
  by (induction rule: chosen.induct) auto

lemma chosen_in: "chosen ms xs \<Longrightarrow> x \<in> set xs \<Longrightarrow> \<exists>m \<in> set ms. cut_of m x"
  by (induction rule: chosen.induct) auto

lemma cut_of_simps:
  "cut_of m m' \<Longrightarrow> hm_message_id m' = hm_message_id m" "cut_of m m' \<Longrightarrow> hm_sequence m' = hm_sequence m"
  "cut_of m m' \<Longrightarrow> hm_generation m' = hm_generation m" "cut_of m m' \<Longrightarrow> hm_role m' = hm_role m"
  by (auto simp: cut_of_def cut_message_def)

lemma chosen_sorted:
  "chosen ms xs \<Longrightarrow> sorted_wrt (\<lambda>x y. (hm_sequence x, hm_message_id x) \<le> (hm_sequence y, hm_message_id y)) ms \<Longrightarrow>
   sorted_wrt (\<lambda>x y. (hm_sequence x, hm_message_id x) \<le> (hm_sequence y, hm_message_id y)) xs"
proof (induction rule: chosen.induct)
  case (chosen_take ms xs m m')
  then show ?case by (auto dest!: chosen_in simp: cut_of_simps)
qed auto

lemma chosen_distinct:
  "chosen ms xs \<Longrightarrow> distinct (map hm_message_id ms) \<Longrightarrow> distinct (map hm_message_id xs)"
proof (induction rule: chosen.induct)
  case (chosen_take ms xs m m')
  have "hm_message_id m' \<notin> set (map hm_message_id xs)"
  proof
    assume "hm_message_id m' \<in> set (map hm_message_id xs)"
    then obtain x where x: "x \<in> set xs" "hm_message_id x = hm_message_id m'" by auto
    obtain y where "y \<in> set ms" "cut_of y x" using chosen_in [OF chosen_take.hyps(1) x(1)] by blast
    then have "hm_message_id m = hm_message_id y"
      using x cut_of_simps(1) [of y x] cut_of_simps(1) [OF chosen_take.hyps(2)] by simp
    then show False using chosen_take.prems \<open>y \<in> set ms\<close> by simp
  qed
  then show ?case using chosen_take by simp
qed auto

section \<open>The candidates\<close>

definition candidate_of :: "history_policy \<Rightarrow> pystr \<Rightarrow> int \<Rightarrow> MessageRecord \<Rightarrow> history_message \<Rightarrow> bool" where
  "candidate_of p session_id g r m \<longleftrightarrow>
     mr_session_id r = session_id \<and> mr_role r \<in> {Role_USER, Role_ASSISTANT} \<and>
     eligible_generation g r = Some (hm_generation m) \<and> 0 \<le> hm_generation m \<and> hm_generation m < g \<and>
     hm_message_id m = mr_message_id r \<and> hm_sequence m = mr_sequence r \<and> hm_role m = mr_role r \<and>
     hm_content m = take (nat (hp_max_message_chars p)) (strip (mr_content r)) \<and> strip (mr_content r) \<noteq> [] \<and>
     (hm_truncated m \<longleftrightarrow> hm_content m \<noteq> strip (mr_content r))"

lemma eligible_message_candidate:
  assumes "eligible_message p g r = Some m" "mr_session_id r = session_id"
  shows "candidate_of p session_id g r m"
proof -
  let ?c = "strip (mr_content r)" and ?n = "nat (hp_max_message_chars p)"
  have "length (take ?n ?c) < length ?c \<longleftrightarrow> take ?n ?c \<noteq> ?c" by (auto simp: not_less)
  then show ?thesis
    using assms
    by (auto simp: candidate_of_def eligible_message_def eligible_generation_def Let_def
        split: if_splits option.splits pyval.splits)
qed

lemma collect_eligible_in:
  "m \<in> set (collect_eligible p sid g seen rs) \<Longrightarrow> \<exists>r \<in> set rs. candidate_of p sid g r m"
  by (induction p sid g seen rs rule: collect_eligible.induct)
    (auto split: if_splits option.splits intro: eligible_message_candidate)

lemma collect_eligible_ids:
  "distinct (map hm_message_id (collect_eligible p sid g seen rs)) \<and>
   hm_message_id ` set (collect_eligible p sid g seen rs) \<inter> seen = {}"
proof (induction p sid g seen rs rule: collect_eligible.induct)
  case (2 p sid g seen r rs)
  have "hm_message_id m = mr_message_id r" if "eligible_message p g r = Some m" for m
    using eligible_message_candidate [OF that refl] by (simp add: candidate_of_def)
  then show ?case using 2 by (auto split: option.splits)
qed simp

lemma collect_eligible_sorted:
  "sorted (map (\<lambda>r. (mr_sequence r, mr_message_id r)) rs) \<Longrightarrow>
   sorted_wrt (\<lambda>x y. (hm_sequence x, hm_message_id x) \<le> (hm_sequence y, hm_message_id y))
     (collect_eligible p sid g seen rs)"
proof (induction p sid g seen rs rule: collect_eligible.induct)
  case (2 p sid g seen r rs)
  have "(hm_sequence m, hm_message_id m) \<le> (hm_sequence x, hm_message_id x)"
    if m: "eligible_message p g r = Some m" and x: "x \<in> set (collect_eligible p sid g s rs)" for m x s
  proof -
    obtain q where q: "q \<in> set rs" "candidate_of p sid g q x" using collect_eligible_in [OF x] by blast
    have "(mr_sequence r, mr_message_id r) \<le> (mr_sequence q, mr_message_id q)"
      using "2.prems" q(1) by auto
    then show ?thesis
      using q(2) eligible_message_candidate [OF m refl] by (simp add: candidate_of_def)
  qed
  then show ?case using 2 by (auto split: option.splits)
qed simp

lemma chosen_prefix: "chosen ms xs \<Longrightarrow> chosen (ks @ ms) xs"
  by (induction ks) (auto intro: chosen_skip)

lemma compile_history_ok:
  assumes "h = compile_history p records session_id g" "0 \<le> hp_max_chars p"
  obtains ms where
    "chosen ms (hy_messages h)" "length ms \<le> nat (hp_max_messages p)"
    "\<forall>m \<in> set ms. \<exists>r \<in> set records. candidate_of p session_id g r m"
    "sorted_wrt (\<lambda>x y. (hm_sequence x, hm_message_id x) \<le> (hm_sequence y, hm_message_id y)) ms"
    "distinct (map hm_message_id ms)"
    "int (length (hy_rendered_context h)) \<le> hp_max_chars p"
    "hy_rendered_context h = (if hy_messages h = [] then [] else render_history (hy_messages h))"
proof (cases "history_enabled p")
  case False
  then show thesis
    using assms that [of "[]"] by (simp add: compile_history_def empty_history_def chosen_Nil)
next
  case True
  define sorted_records where "sorted_records = sort_key (\<lambda>r. (mr_sequence r, mr_message_id r)) records"
  define eligible where "eligible = collect_eligible p session_id g {} sorted_records"
  define recent where "recent = drop (length eligible - nat (hp_max_messages p)) eligible"
  define selected where "selected = select_messages p (rev recent) []"
  have h: "hy_messages h = selected"
    "hy_rendered_context h = (if selected = [] then [] else render_history selected)"
    using True by (simp_all add: assms(1) compile_history_def Let_def empty_history_def selected_def
        recent_def eligible_def sorted_records_def)
  have sel: "chosen recent selected" "selected = [] \<or> fits p selected"
    using select_messages_chosen [of "[]" "[]" p "rev recent"] by (simp_all add: chosen_Nil selected_def)
  have "sorted (map (\<lambda>r. (mr_sequence r, mr_message_id r)) sorted_records)"
    unfolding sorted_records_def by (rule sorted_sort_key)
  from collect_eligible_sorted [OF this]
  have sorted: "sorted_wrt (\<lambda>x y. (hm_sequence x, hm_message_id x) \<le> (hm_sequence y, hm_message_id y)) recent"
    unfolding recent_def eligible_def by (rule sorted_wrt_drop)
  show thesis
  proof (rule that [of recent])
    show "\<forall>m \<in> set recent. \<exists>r \<in> set records. candidate_of p session_id g r m"
      using collect_eligible_in [of _ p session_id g "{}" sorted_records]
      by (auto simp: recent_def eligible_def sorted_records_def dest!: in_set_dropD)
    show "distinct (map hm_message_id recent)"
      using collect_eligible_ids [of p session_id g "{}" sorted_records]
      by (simp add: recent_def eligible_def drop_map [symmetric] distinct_drop)
    show "int (length (hy_rendered_context h)) \<le> hp_max_chars p"
      using sel(2) assms(2) by (auto simp: h fits_def)
  qed (use sel(1) sorted in \<open>simp_all add: h recent_def\<close>)
qed

text \<open>What a selected message owes to its record.\<close>

lemma cut_candidate:
  assumes "candidate_of p session_id g r c" "cut_of c m" "0 < hp_max_message_chars p"
  shows "mr_session_id r = session_id \<and> mr_role r \<in> {Role_USER, Role_ASSISTANT} \<and>
       mr_message_id r = hm_message_id m \<and> mr_sequence r = hm_sequence m \<and> mr_role r = hm_role m \<and>
       map_of (mr_metadata r) (lit ''generation'') = Some (PInt (hm_generation m)) \<and>
       0 \<le> hm_generation m \<and> hm_generation m < g \<and>
       hm_content m \<noteq> [] \<and> int (length (hm_content m)) \<le> hp_max_message_chars p \<and>
       (\<exists>rest. strip (mr_content r) = hm_content m @ rest \<and> (rest \<noteq> [] \<longrightarrow> hm_truncated m))"
proof -
  note c = assms(1) [unfolded candidate_of_def]
  have gen: "map_of (mr_metadata r) (lit ''generation'') = Some (PInt (hm_generation c))"
    using c by (auto simp: eligible_generation_def split: option.splits pyval.splits if_splits)
  have pos: "0 < nat (hp_max_message_chars p)" using assms(3) by simp
  obtain k where m: "hm_content m = take k (hm_content c)" "1 \<le> k"
    "hm_truncated m \<or> hm_content m = hm_content c \<and> hm_truncated m = hm_truncated c"
  proof -
    have ne: "hm_content c \<noteq> []" using c pos by simp
    from assms(2) consider "m = c" | k where "1 \<le> k" "m = cut_message c k" by (auto simp: cut_of_def)
    then show thesis
    proof cases
      case 1
      then show ?thesis using ne by (intro that [of "length (hm_content c)"]) (simp_all add: Suc_le_eq)
    next
      case (2 k)
      then show ?thesis by (intro that [of k]) (simp_all add: cut_message_def)
    qed
  qed
  let ?k = "min k (nat (hp_max_message_chars p))"
  have content: "hm_content m = take ?k (strip (mr_content r))" using m(1) c by simp
  then have "strip (mr_content r) = hm_content m @ drop ?k (strip (mr_content r))" by simp
  moreover have "drop ?k (strip (mr_content r)) \<noteq> [] \<longrightarrow> hm_truncated m"
    using m(3) c calculation by auto
  moreover have "hm_content m \<noteq> []" using content c m(2) pos by simp
  moreover have "int (length (hm_content m)) \<le> hp_max_message_chars p"
  proof -
    have "length (hm_content m) \<le> nat (hp_max_message_chars p)" using content by simp
    then show ?thesis using assms(3) by (simp add: le_nat_iff)
  qed
  ultimately show ?thesis using c gen cut_of_simps [OF assms(2)] by auto
qed

text \<open>
  C35: The compiled history holds at most \<open>max_messages\<close> messages and its rendering at most
  \<open>max_chars\<close> characters. The messages are in the order of their sequence numbers, no message
  appears twice, and each comes from a stored user or assistant message of this session and of an earlier
  generation: its text is a non-empty beginning of the stored text, at most \<open>max_message_chars\<close>
  long, and is marked as truncated whenever something is missing (the converse does not hold, see
  \<open>whole_text_marked_truncated\<close>). The rendering is one line of JSON
  between its two tags, and the JSON reads back as exactly these messages.
\<close>

theorem history_bounded:
  assumes "check_history_policy p = None" and "h = compile_history p records session_id g"
  shows "int (length (hy_messages h)) \<le> hp_max_messages p \<and>
    int (length (hy_rendered_context h)) \<le> hp_max_chars p \<and>
    sorted (map (\<lambda>m. (hm_sequence m, hm_message_id m)) (hy_messages h)) \<and>
    distinct (map hm_message_id (hy_messages h)) \<and>
    (\<forall>m \<in> set (hy_messages h). \<exists>r \<in> set records.
       mr_session_id r = session_id \<and> mr_role r \<in> {Role_USER, Role_ASSISTANT} \<and>
       mr_message_id r = hm_message_id m \<and> mr_sequence r = hm_sequence m \<and> mr_role r = hm_role m \<and>
       map_of (mr_metadata r) (lit ''generation'') = Some (PInt (hm_generation m)) \<and>
       0 \<le> hm_generation m \<and> hm_generation m < g \<and>
       hm_content m \<noteq> [] \<and> int (length (hm_content m)) \<le> hp_max_message_chars p \<and>
       (\<exists>rest. strip (mr_content r) = hm_content m @ rest \<and> (rest \<noteq> [] \<longrightarrow> hm_truncated m))) \<and>
    (hy_messages h \<noteq> [] \<longrightarrow>
       (\<exists>body. hy_rendered_context h = history_open @ [10] @ body @ [10] @ history_close \<and> 10 \<notin> set body \<and>
          (list_all (\<lambda>m. json_clean (message_json m)) (hy_messages h) \<longrightarrow>
             json_loads body = Inr (VArr (map (jvalue_of \<circ> message_json) (hy_messages h))))))"
proof (intro conjI ballI impI)
  have p: "0 \<le> hp_max_chars p" "0 \<le> hp_max_messages p" "0 < hp_max_message_chars p"
    using assms(1) by (simp_all add: check_history_policy_def not_less split: if_splits)
  obtain ms where ms: "chosen ms (hy_messages h)" "length ms \<le> nat (hp_max_messages p)"
    "\<forall>m \<in> set ms. \<exists>r \<in> set records. candidate_of p session_id g r m"
    "sorted_wrt (\<lambda>x y. (hm_sequence x, hm_message_id x) \<le> (hm_sequence y, hm_message_id y)) ms"
    "distinct (map hm_message_id ms)"
    "int (length (hy_rendered_context h)) \<le> hp_max_chars p"
    "hy_rendered_context h = (if hy_messages h = [] then [] else render_history (hy_messages h))"
    by (rule compile_history_ok [OF assms(2) p(1)])
  show "int (length (hy_messages h)) \<le> hp_max_messages p"
    using chosen_length [OF ms(1)] ms(2) p(2) by linarith
  show "int (length (hy_rendered_context h)) \<le> hp_max_chars p" by (rule ms(6))
  show "sorted (map (\<lambda>m. (hm_sequence m, hm_message_id m)) (hy_messages h))"
    using chosen_sorted [OF ms(1,4)] by (simp add: sorted_wrt_map)
  show "distinct (map hm_message_id (hy_messages h))" using chosen_distinct [OF ms(1,5)] .
  {
    fix m assume "m \<in> set (hy_messages h)"
    then obtain c where c: "c \<in> set ms" "cut_of c m" using chosen_in [OF ms(1)] by blast
    then obtain r where r: "r \<in> set records" "candidate_of p session_id g r c" using ms(3) by blast
    show "\<exists>r \<in> set records.
       mr_session_id r = session_id \<and> mr_role r \<in> {Role_USER, Role_ASSISTANT} \<and>
       mr_message_id r = hm_message_id m \<and> mr_sequence r = hm_sequence m \<and> mr_role r = hm_role m \<and>
       map_of (mr_metadata r) (lit ''generation'') = Some (PInt (hm_generation m)) \<and>
       0 \<le> hm_generation m \<and> hm_generation m < g \<and>
       hm_content m \<noteq> [] \<and> int (length (hm_content m)) \<le> hp_max_message_chars p \<and>
       (\<exists>rest. strip (mr_content r) = hm_content m @ rest \<and> (rest \<noteq> [] \<longrightarrow> hm_truncated m))"
      by (rule bexI [of _ r]) (rule cut_candidate [OF r(2) c(2) p(3)], rule r(1))
  }
  assume ne: "hy_messages h \<noteq> []"
  let ?body = "json_dumps (JArr (map message_json (hy_messages h)))"
  have "hy_rendered_context h = history_open @ [10] @ ?body @ [10] @ history_close"
    using ms(7) ne by (simp add: render_history_def del: json_dumps.simps)
  moreover have "10 \<notin> set ?body"
    using json_dumps_printable [of "JArr (map message_json (hy_messages h))"]
    by (force simp: list_all_iff simp del: json_dumps.simps)
  moreover have "json_loads ?body = Inr (VArr (map (jvalue_of \<circ> message_json) (hy_messages h)))"
    if "list_all (\<lambda>m. json_clean (message_json m)) (hy_messages h)"
    using json_loads_dumps [of "JArr (map message_json (hy_messages h))"] that
    by (simp add: list_all_iff del: json_dumps.simps)
  ultimately show "\<exists>body. hy_rendered_context h = history_open @ [10] @ body @ [10] @ history_close \<and> 10 \<notin> set body \<and>
          (list_all (\<lambda>m. json_clean (message_json m)) (hy_messages h) \<longrightarrow>
             json_loads body = Inr (VArr (map (jvalue_of \<circ> message_json) (hy_messages h))))"
    by blast
qed

text \<open>
  C36: A candidate that fits is taken whole. One that does not is cut to the longest beginning that
  fits, with its mark, and is left out only when no beginning of two or more characters fits.
\<close>

theorem history_fit_longest:
  "case fit_message p m newer of
     None \<Rightarrow> \<not> fits p (m # newer) \<and>
       (\<forall>j. 2 \<le> j \<and> j \<le> length (hm_content m) \<longrightarrow> \<not> fits p (cut_message m j # newer))
   | Some m' \<Rightarrow> fits p (m' # newer) \<and>
       (m' = m \<or> \<not> fits p (m # newer) \<and> (\<exists>k. m' = cut_message m k \<and> longest_cut p m newer k))"
  by (rule fit_message_ok)

definition demo_policy :: history_policy where
  "demo_policy = \<lparr>hp_max_messages = 2, hp_max_chars = 300, hp_max_message_chars = 50, hp_load_timeout_ms = 50\<rparr>"

definition demo_records :: "MessageRecord list" where
  "demo_records = [\<lparr>mr_message_id = lit ''m1'', mr_session_id = lit ''s'', mr_sequence = 1, mr_role = Role_USER,
     mr_content = lit '' hello '', mr_created_at = \<lparr>dt_micros = 0, dt_utcoffset = Some 0\<rparr>, mr_actor_id = None,
     mr_source_event_id = None, mr_metadata = [(lit ''generation'', PInt 0)]\<rparr>]"

theorem history_bounded_witness:
  "int (length (hy_messages (compile_history demo_policy demo_records (lit ''s'') 1))) \<le> 2 \<and>
   int (length (hy_rendered_context (compile_history demo_policy demo_records (lit ''s'') 1))) \<le> 300"
proof -
  have "check_history_policy demo_policy = None"
    by (simp add: check_history_policy_def demo_policy_def)
  from history_bounded [OF this refl, of demo_records "lit ''s''" 1]
  have "int (length (hy_messages (compile_history demo_policy demo_records (lit ''s'') 1))) \<le> hp_max_messages demo_policy"
    "int (length (hy_rendered_context (compile_history demo_policy demo_records (lit ''s'') 1))) \<le> hp_max_chars demo_policy"
    by (blast+)
  then show ?thesis by (simp add: demo_policy_def)
qed

definition demo_message :: history_message where
  "demo_message = \<lparr>hm_message_id = lit ''m1'', hm_sequence = 1, hm_generation = 0, hm_role = Role_USER,
     hm_content = lit ''hello'', hm_truncated = False\<rparr>"

lemma demo_message_fits: "fits demo_policy [demo_message]"
  by (simp add: fits_def render_history_def demo_policy_def demo_message_def message_json_def
      history_open_def history_close_def json_string_def json_char_def str_int_def nat_digits.simps)

theorem history_fit_longest_witness:
  "\<exists>m'. fit_message demo_policy demo_message [] = Some m' \<and> fits demo_policy [m']"
proof -
  have "fit_message demo_policy demo_message [] \<noteq> None"
    using demo_message_fits by (simp add: fit_message_def)
  then show ?thesis
    using history_fit_longest [of demo_policy demo_message "[]"] by (auto split: option.splits)
qed

end
