(* ===== verification/Pipeline.thy ===== *)
theory Pipeline
  imports Assembler
begin

text \<open>
  The dialogue pipeline of \<^verbatim>\<open>dialogue/pipeline.py\<close>: a producer task that turns the model's
  stream into segments, a dispatcher that starts a bounded number of synthesis tasks, and the
  generator \<open>run\<close> that publishes segments and audio in order. Each task is a program counter
  with its local variables; a step takes a task from one \<open>await\<close> to the next, which is where
  asyncio may switch tasks. A blocked step is \<open>None\<close>. The model and the speech synthesizer
  are arguments: each reply of theirs is an operation, as are the outside events (the token
  is cancelled, the generation callback changes its answer, the caller abandons the generator).
\<close>

section \<open>State\<close>

datatype pipeline_error =
  Task_cancelled | Dialogue_cancelled | More_than_one_completion | Unsupported_model_event
| Audio_after_final | Audio_wrong_segment | Audio_wrong_sequence | Audio_wrong_index
| No_audio_chunks | No_final_chunk | Assembler_error assembler_error | Provider_error nat

datatype terminal = Production_finished UtterancePlan | Stage_failed pipeline_error

datatype production_item = Segment_item segment | Terminal_item terminal

text \<open>An output item refers to its \<open>_SynthesisJob\<close> object by its number.\<close>

datatype output_item = Job_item nat | Output_end terminal

datatype audio_item = Chunk_item AudioChunk | Synthesis_finished | Audio_failed pipeline_error

text \<open>
  \<open>P_put items is_last\<close> waits to put the first item; after the items the task ends or goes
  back to the model. \<open>P_diverged\<close> is a call of the assembler that never returns.
\<close>

datatype producer =
  P_start | P_model | P_put "production_item list" bool | P_done | P_raised pipeline_error | P_diverged

datatype dispatcher = D_get | D_acquire segment | D_put_job segment | D_put_end terminal | D_done | D_cancelled

text \<open>The two numbers are \<open>expected_chunk_index\<close> and \<open>received_final\<close>.\<close>

datatype synthesis = S_speech nat bool | S_put audio_item nat bool | S_done

datatype outcome = Returned | Raised pipeline_error | Abandoned

text \<open>
  \<open>At_get w\<close> is about to wait for an item of the output queue (\<open>None\<close>) or of the audio queue
  of a job; it is also where the generator is suspended after it published an event.
\<close>

datatype run_state =
  At_get "nat option" | Waiting "nat option" | Joining UtterancePlan | Completed_published UtterancePlan
| Cleaning outcome | Ended outcome

datatype task = T_producer | T_dispatcher | T_synthesis nat

record job =
  jb_segment :: segment
  jb_audio :: "audio_item list"
  jb_task :: synthesis

record pipeline_config =
  pg_turn_id :: uuid
  pg_generation :: int
  pg_has_token :: bool
  pg_max_segment_chars :: int
  pg_segment_queue_capacity :: nat
  pg_max_concurrent_synthesis :: nat
  pg_audio_queue_capacity :: nat
  pg_fresh :: "nat \<Rightarrow> uuid"

text \<open>
  \<open>pl_published\<close> (what the generator yielded) and \<open>pl_deltas\<close> (the text deltas pushed into the
  assembler) are history variables; no step reads them.
\<close>

record pipeline =
  pl_cancelled :: bool
  pl_current :: bool
  pl_assembler :: "assembler option"
  pl_completion :: "(ModelStopReason \<times> int option \<times> int option) option"
  pl_producer :: producer
  pl_segments :: "production_item list"
  pl_dispatcher :: dispatcher
  pl_slots :: nat
  pl_output :: "output_item list"
  pl_jobs :: "job list"
  pl_tasks :: "nat list"
  pl_stopping :: bool
  pl_cancelling :: "task list"
  pl_run :: run_state
  pl_published :: "DialogueStreamEvent list"
  pl_deltas :: "pystr list"

datatype capacity_error = Segment_queue_capacity | Max_concurrent_synthesis | Audio_queue_capacity

text \<open>\<open>DialoguePipeline.__init__\<close> together with the arguments of one \<open>run\<close>.\<close>

definition pipeline_config_init ::
  "uuid \<Rightarrow> int \<Rightarrow> bool \<Rightarrow> (nat \<Rightarrow> uuid) \<Rightarrow> int \<Rightarrow> int \<Rightarrow> int \<Rightarrow> int \<Rightarrow> capacity_error + pipeline_config" where
  "pipeline_config_init turn_id generation has_token fresh max_segment_chars
     segment_queue_capacity max_concurrent_synthesis audio_queue_capacity =
     (if segment_queue_capacity \<le> 0 then Inl Segment_queue_capacity
      else if max_concurrent_synthesis \<le> 0 then Inl Max_concurrent_synthesis
      else if audio_queue_capacity \<le> 0 then Inl Audio_queue_capacity
      else Inr \<lparr>pg_turn_id = turn_id, pg_generation = generation, pg_has_token = has_token,
        pg_max_segment_chars = max_segment_chars, pg_segment_queue_capacity = nat segment_queue_capacity,
        pg_max_concurrent_synthesis = nat max_concurrent_synthesis,
        pg_audio_queue_capacity = nat audio_queue_capacity, pg_fresh = fresh\<rparr>)"

definition check_active :: "pipeline \<Rightarrow> pipeline_error option" where
  "check_active s =
     (if pl_cancelled s then Some Task_cancelled
      else if \<not> pl_current s then Some Dialogue_cancelled
      else None)"

text \<open>The head of \<open>run\<close>: the first check, the queues, the semaphore and the two tasks.\<close>

definition run_begin :: "pipeline_config \<Rightarrow> bool \<Rightarrow> bool \<Rightarrow> pipeline_error + pipeline" where
  "run_begin cfg cancelled current =
     (let s = \<lparr>pl_cancelled = (pg_has_token cfg \<and> cancelled), pl_current = current,
        pl_assembler = None, pl_completion = None, pl_producer = P_start, pl_segments = [],
        pl_dispatcher = D_get, pl_slots = pg_max_concurrent_synthesis cfg, pl_output = [],
        pl_jobs = [], pl_tasks = [], pl_stopping = False, pl_cancelling = [], pl_run = At_get None,
        pl_published = [], pl_deltas = []\<rparr>
      in case check_active s of Some e \<Rightarrow> Inl e | None \<Rightarrow> Inr s)"

section \<open>The producer\<close>

datatype model_reply = Model_event ModelStreamEvent | Model_unsupported | Model_ends | Model_raises pipeline_error

definition producer_next :: "production_item list \<Rightarrow> bool \<Rightarrow> producer" where
  "producer_next items is_last =
     (if items = [] then (if is_last then P_done else P_model) else P_put items is_last)"

text \<open>The \<open>except\<close> clauses.\<close>

definition producer_except :: "pipeline_error \<Rightarrow> pipeline \<Rightarrow> pipeline" where
  "producer_except e s =
     s\<lparr>pl_producer := (if e = Task_cancelled \<and> pl_stopping s then P_raised e
                      else P_put [Terminal_item (Stage_failed e)] True)\<rparr>"

text \<open>The assembler is constructed before the \<open>try\<close>.\<close>

definition producer_start :: "pipeline_config \<Rightarrow> pipeline \<Rightarrow> pipeline" where
  "producer_start cfg s =
     (case assembler_init (pg_max_segment_chars cfg) of
        Inl e \<Rightarrow> s\<lparr>pl_producer := P_raised (Assembler_error e)\<rparr>
      | Inr a \<Rightarrow> s\<lparr>pl_assembler := Some a, pl_producer := P_model\<rparr>)"

definition producer_delta :: "pipeline_config \<Rightarrow> assembler \<Rightarrow> pystr \<Rightarrow> pipeline \<Rightarrow> pipeline" where
  "producer_delta cfg a text s =
     (case push (pg_fresh cfg) a text of
        None \<Rightarrow> s\<lparr>pl_producer := P_diverged\<rparr>
      | Some (Inl e) \<Rightarrow> producer_except (Assembler_error e) s
      | Some (Inr (emitted, a')) \<Rightarrow>
          s\<lparr>pl_assembler := Some a', pl_producer := producer_next (map Segment_item emitted) False,
            pl_deltas := pl_deltas s @ [text]\<rparr>)"

definition producer_completed :: "ModelStopReason \<times> int option \<times> int option \<Rightarrow> pipeline \<Rightarrow> pipeline" where
  "producer_completed c s =
     (if pl_completion s \<noteq> None then producer_except More_than_one_completion s
      else s\<lparr>pl_completion := Some c\<rparr>)"

definition the_plan :: "pipeline_config \<Rightarrow> assembler \<Rightarrow> (ModelStopReason \<times> int option \<times> int option) option \<Rightarrow> UtterancePlan" where
  "the_plan cfg a completion =
     (case (case completion of None \<Rightarrow> (Stop_COMPLETE, None, None) | Some c \<Rightarrow> c) of
        (stop_reason, tokens_in, tokens_out) \<Rightarrow>
          \<lparr>up_turn_id = pg_turn_id cfg, up_generation = pg_generation cfg, up_segments = as_segments a,
           up_stop_reason = stop_reason, up_input_tokens = tokens_in, up_output_tokens = tokens_out\<rparr>)"

definition producer_finish :: "pipeline_config \<Rightarrow> assembler \<Rightarrow> pipeline \<Rightarrow> pipeline" where
  "producer_finish cfg a s =
     (case finish (pg_fresh cfg) a of
        Inl e \<Rightarrow> producer_except (Assembler_error e) s
      | Inr (emitted, a') \<Rightarrow>
          s\<lparr>pl_assembler := Some a',
            pl_producer := P_put (map Segment_item emitted @
              [Terminal_item (Production_finished (the_plan cfg a' (pl_completion s)))]) True\<rparr>)"

definition producer_receive :: "pipeline_config \<Rightarrow> assembler \<Rightarrow> model_reply \<Rightarrow> pipeline \<Rightarrow> pipeline" where
  "producer_receive cfg a r s =
     (case r of
        Model_raises e \<Rightarrow> producer_except e s
      | Model_ends \<Rightarrow> producer_finish cfg a s
      | Model_unsupported \<Rightarrow>
          (case check_active s of Some e \<Rightarrow> producer_except e s | None \<Rightarrow> producer_except Unsupported_model_event s)
      | Model_event ev \<Rightarrow>
          (case check_active s of
             Some e \<Rightarrow> producer_except e s
           | None \<Rightarrow>
               (case ev of
                  ModelTextDelta text \<Rightarrow> producer_delta cfg a text s
                | ModelCompleted stop tin tout \<Rightarrow> producer_completed (stop, tin, tout) s)))"

text \<open>The step of the producer that waits for a reply of the model.\<close>

definition producer_reply :: "pipeline_config \<Rightarrow> model_reply \<Rightarrow> pipeline \<Rightarrow> pipeline option" where
  "producer_reply cfg r s =
     (case (pl_producer s, pl_assembler s) of
        (P_model, Some a) \<Rightarrow>
          if T_producer \<in> set (pl_cancelling s) then None else Some (producer_receive cfg a r s)
      | _ \<Rightarrow> None)"

text \<open>The other steps of the producer: its start, and a put that does not block.\<close>

definition producer_step :: "pipeline_config \<Rightarrow> pipeline \<Rightarrow> pipeline option" where
  "producer_step cfg s =
     (if T_producer \<in> set (pl_cancelling s) then None
      else (case pl_producer s of
              P_start \<Rightarrow> Some (producer_start cfg s)
            | P_put (i # items) is_last \<Rightarrow>
                if length (pl_segments s) < pg_segment_queue_capacity cfg
                then Some (s\<lparr>pl_segments := pl_segments s @ [i], pl_producer := producer_next items is_last\<rparr>)
                else None
            | _ \<Rightarrow> None))"

section \<open>The dispatcher\<close>

definition discard_finished :: "job list \<Rightarrow> nat list \<Rightarrow> nat list" where
  "discard_finished jobs ks = filter (\<lambda>k. \<not> (k < length jobs \<and> jb_task (jobs ! k) = S_done)) ks"

text \<open>
  A job is put and its task created without an \<open>await\<close> in between. No statement of the loop
  raises an \<open>Exception\<close>, so the \<open>except Exception\<close> clause has no step.
\<close>

definition dispatch_job :: "segment \<Rightarrow> pipeline \<Rightarrow> pipeline" where
  "dispatch_job g s =
     (let k = length (pl_jobs s)
      in s\<lparr>pl_output := pl_output s @ [Job_item k],
           pl_jobs := pl_jobs s @ [\<lparr>jb_segment = g, jb_audio = [], jb_task = S_speech 0 False\<rparr>],
           pl_tasks := discard_finished (pl_jobs s) (pl_tasks s) @ [k],
           pl_dispatcher := D_get\<rparr>)"

definition dispatcher_step :: "pipeline_config \<Rightarrow> pipeline \<Rightarrow> pipeline option" where
  "dispatcher_step cfg s =
     (if T_dispatcher \<in> set (pl_cancelling s) then None
      else (case pl_dispatcher s of
              D_get \<Rightarrow>
                (case pl_segments s of
                   [] \<Rightarrow> None
                 | Segment_item g # rest \<Rightarrow> Some (s\<lparr>pl_segments := rest, pl_dispatcher := D_acquire g\<rparr>)
                 | Terminal_item t # rest \<Rightarrow> Some (s\<lparr>pl_segments := rest, pl_dispatcher := D_put_end t\<rparr>))
            | D_acquire g \<Rightarrow>
                if 0 < pl_slots s then Some (s\<lparr>pl_slots := pl_slots s - 1, pl_dispatcher := D_put_job g\<rparr>) else None
            | D_put_job g \<Rightarrow>
                if length (pl_output s) < pg_max_concurrent_synthesis cfg + 1 then Some (dispatch_job g s) else None
            | D_put_end t \<Rightarrow>
                if length (pl_output s) < pg_max_concurrent_synthesis cfg + 1
                then Some (s\<lparr>pl_output := pl_output s @ [Output_end t], pl_dispatcher := D_done\<rparr>) else None
            | _ \<Rightarrow> None))"

section \<open>Synthesis\<close>

datatype speech_reply = Speech_chunk AudioChunk | Speech_ends | Speech_raises pipeline_error

definition check_chunk :: "segment \<Rightarrow> nat \<Rightarrow> bool \<Rightarrow> AudioChunk \<Rightarrow> pipeline_error option" where
  "check_chunk g n received_final c =
     (if received_final then Some Audio_after_final
      else if ac_segment_id c \<noteq> sg_segment_id g then Some Audio_wrong_segment
      else if ac_sequence c \<noteq> int (sg_sequence g) then Some Audio_wrong_sequence
      else if ac_chunk_index c \<noteq> int n then Some Audio_wrong_index
      else None)"

text \<open>What the task puts next, given the reply to its iteration over the speech.\<close>

definition synthesis_receive :: "segment \<Rightarrow> nat \<Rightarrow> bool \<Rightarrow> speech_reply \<Rightarrow> synthesis" where
  "synthesis_receive g n received_final r =
     (case r of
        Speech_chunk c \<Rightarrow>
          (case check_chunk g n received_final c of
             Some e \<Rightarrow> S_put (Audio_failed e) n received_final
           | None \<Rightarrow> S_put (Chunk_item c) (n + 1) (ac_is_final c))
      | Speech_ends \<Rightarrow>
          (if n = 0 then S_put (Audio_failed No_audio_chunks) n received_final
           else if \<not> received_final then S_put (Audio_failed No_final_chunk) n received_final
           else S_put Synthesis_finished n received_final)
      | Speech_raises e \<Rightarrow> S_put (Audio_failed e) n received_final)"

definition set_job :: "nat \<Rightarrow> job \<Rightarrow> pipeline \<Rightarrow> pipeline" where
  "set_job k j s = s\<lparr>pl_jobs := (pl_jobs s)[k := j]\<rparr>"

text \<open>The end of the task releases its slot (the \<open>finally\<close> clause).\<close>

definition end_synthesis :: "nat \<Rightarrow> job \<Rightarrow> pipeline \<Rightarrow> pipeline" where
  "end_synthesis k j s = (set_job k (j\<lparr>jb_task := S_done\<rparr>) s)\<lparr>pl_slots := pl_slots s + 1\<rparr>"

definition synthesis_reply :: "nat \<Rightarrow> speech_reply \<Rightarrow> pipeline \<Rightarrow> pipeline option" where
  "synthesis_reply k r s =
     (if length (pl_jobs s) \<le> k \<or> T_synthesis k \<in> set (pl_cancelling s) then None
      else (let j = pl_jobs s ! k
            in case jb_task j of
                 S_speech n received_final \<Rightarrow>
                   if r = Speech_raises Task_cancelled \<and> pl_stopping s then Some (end_synthesis k j s)
                   else Some (set_job k (j\<lparr>jb_task := synthesis_receive (jb_segment j) n received_final r\<rparr>) s)
               | _ \<Rightarrow> None))"

definition synthesis_step :: "pipeline_config \<Rightarrow> nat \<Rightarrow> pipeline \<Rightarrow> pipeline option" where
  "synthesis_step cfg k s =
     (if length (pl_jobs s) \<le> k \<or> T_synthesis k \<in> set (pl_cancelling s) then None
      else (let j = pl_jobs s ! k
            in case jb_task j of
                 S_put i n received_final \<Rightarrow>
                   if length (jb_audio j) < pg_audio_queue_capacity cfg
                   then (let j' = j\<lparr>jb_audio := jb_audio j @ [i]\<rparr>
                         in case i of
                              Chunk_item c \<Rightarrow> Some (set_job k (j'\<lparr>jb_task := S_speech n received_final\<rparr>) s)
                            | _ \<Rightarrow> Some (end_synthesis k j' s))
                   else None
               | _ \<Rightarrow> None))"

section \<open>The generator\<close>

definition producer_over :: "producer \<Rightarrow> bool" where
  "producer_over p = (case p of P_done \<Rightarrow> True | P_raised _ \<Rightarrow> True | _ \<Rightarrow> False)"

definition dispatcher_over :: "dispatcher \<Rightarrow> bool" where
  "dispatcher_over d = (d = D_done \<or> d = D_cancelled)"

definition synthesis_over :: "pipeline \<Rightarrow> nat \<Rightarrow> bool" where
  "synthesis_over s k = (k < length (pl_jobs s) \<and> jb_task (pl_jobs s ! k) = S_done)"

definition tasks_over :: "pipeline \<Rightarrow> bool" where
  "tasks_over s \<longleftrightarrow> producer_over (pl_producer s) \<and> dispatcher_over (pl_dispatcher s) \<and>
     list_all (synthesis_over s) (pl_tasks s)"

text \<open>
  The \<open>finally\<close> clause: \<open>stopping\<close> is set and every unfinished task is cancelled; the tasks
  of \<open>pl_cancelling\<close> receive their \<open>CancelledError\<close> when they are resumed next.
\<close>

definition clean_up :: "outcome \<Rightarrow> pipeline \<Rightarrow> pipeline" where
  "clean_up result s =
     s\<lparr>pl_stopping := True, pl_run := Cleaning result,
       pl_cancelling := (if producer_over (pl_producer s) then [] else [T_producer]) @
         (if dispatcher_over (pl_dispatcher s) then [] else [T_dispatcher]) @
         map T_synthesis (filter (\<lambda>k. \<not> synthesis_over s k) (pl_tasks s))\<rparr>"

text \<open>\<open>yield\<close>, after the check that guards it.\<close>

definition publish :: "DialogueStreamEvent \<Rightarrow> run_state \<Rightarrow> pipeline \<Rightarrow> pipeline" where
  "publish ev next s =
     (case check_active s of
        Some e \<Rightarrow> clean_up (Raised e) s
      | None \<Rightarrow> s\<lparr>pl_published := pl_published s @ [ev], pl_run := next\<rparr>)"

definition take_output :: "pipeline_config \<Rightarrow> output_item \<Rightarrow> pipeline \<Rightarrow> pipeline" where
  "take_output cfg i s =
     (case i of
        Output_end (Stage_failed e) \<Rightarrow> clean_up (Raised e) s
      | Output_end (Production_finished plan) \<Rightarrow> s\<lparr>pl_run := Joining plan\<rparr>
      | Job_item k \<Rightarrow>
          publish (SegmentReady (pg_turn_id cfg) (pg_generation cfg) (jb_segment (pl_jobs s ! k))) (At_get (Some k)) s)"

definition take_audio :: "pipeline_config \<Rightarrow> nat \<Rightarrow> audio_item \<Rightarrow> pipeline \<Rightarrow> pipeline" where
  "take_audio cfg k i s =
     (case i of
        Audio_failed e \<Rightarrow> clean_up (Raised e) s
      | Synthesis_finished \<Rightarrow> s\<lparr>pl_run := At_get None\<rparr>
      | Chunk_item c \<Rightarrow>
          publish (SegmentAudioReady (pg_turn_id cfg) (pg_generation cfg) (jb_segment (pl_jobs s ! k)) c) (At_get (Some k)) s)"

text \<open>
  One step of \<open>run\<close>. \<open>_queue_get_or_cancel\<close> first looks at the token, then waits for the queue
  and the token together; an item that arrives with the cancellation may still be returned.
\<close>

definition run_step :: "pipeline_config \<Rightarrow> pipeline \<Rightarrow> pipeline option" where
  "run_step cfg s =
     (case pl_run s of
        At_get w \<Rightarrow>
          Some (if pl_cancelled s then clean_up (Raised Task_cancelled) s else s\<lparr>pl_run := Waiting w\<rparr>)
      | Waiting None \<Rightarrow>
          (case pl_output s of [] \<Rightarrow> None | i # rest \<Rightarrow> Some (take_output cfg i (s\<lparr>pl_output := rest\<rparr>)))
      | Waiting (Some k) \<Rightarrow>
          if length (pl_jobs s) \<le> k then None
          else (let j = pl_jobs s ! k
                in case jb_audio j of
                     [] \<Rightarrow> None
                   | i # rest \<Rightarrow> Some (take_audio cfg k i (set_job k (j\<lparr>jb_audio := rest\<rparr>) s)))
      | Joining plan \<Rightarrow>
          (case pl_producer s of
             P_raised e \<Rightarrow> Some (clean_up (Raised e) s)
           | _ \<Rightarrow>
               if tasks_over s
               then Some (publish (UtteranceCompleted (pg_turn_id cfg) (pg_generation cfg) plan) (Completed_published plan) s)
               else None)
      | Completed_published _ \<Rightarrow> Some (clean_up Returned s)
      | Cleaning result \<Rightarrow> if tasks_over s then Some (s\<lparr>pl_run := Ended result\<rparr>) else None
      | Ended _ \<Rightarrow> None)"

definition run_interrupted :: "pipeline \<Rightarrow> pipeline option" where
  "run_interrupted s =
     (case pl_run s of
        Waiting _ \<Rightarrow> if pl_cancelled s then Some (clean_up (Raised Task_cancelled) s) else None
      | _ \<Rightarrow> None)"

text \<open>
  The caller closes the generator, or the task that runs it is cancelled. A cancellation that
  arrives while the \<open>finally\<close> clause waits cancels every task that \<open>gather\<close> still waits for once
  more, and the wait ends with it when they are all done.
\<close>

definition run_abandoned :: "pipeline \<Rightarrow> pipeline option" where
  "run_abandoned s =
     (case pl_run s of
        Ended _ \<Rightarrow> None
      | _ \<Rightarrow> Some (clean_up Abandoned s))"

text \<open>
  A cancelled task is resumed with \<open>CancelledError\<close>. Inside a provider the error may come out
  as another exception (\<open>Some e\<close>), which the task reports like any other.
\<close>

definition deliver_cancel :: "task \<Rightarrow> pipeline_error option \<Rightarrow> pipeline \<Rightarrow> pipeline option" where
  "deliver_cancel t raised s =
     (if t \<notin> set (pl_cancelling s) then None
      else (let s' = s\<lparr>pl_cancelling := removeAll t (pl_cancelling s)\<rparr>;
                e = (case raised of None \<Rightarrow> Task_cancelled | Some e \<Rightarrow> e)
            in case t of
                 T_producer \<Rightarrow>
                   (if pl_producer s = P_model then Some (producer_except e s')
                    else Some (s'\<lparr>pl_producer := P_raised Task_cancelled\<rparr>))
               | T_dispatcher \<Rightarrow> Some (s'\<lparr>pl_dispatcher := D_cancelled\<rparr>)
               | T_synthesis k \<Rightarrow>
                   if length (pl_jobs s) \<le> k then None
                   else (let j = pl_jobs s ! k
                         in case jb_task j of
                              S_speech n received_final \<Rightarrow>
                                if e = Task_cancelled then Some (end_synthesis k j s')
                                else Some (set_job k (j\<lparr>jb_task := S_put (Audio_failed e) n received_final\<rparr>) s')
                            | _ \<Rightarrow> Some (end_synthesis k j s'))))"

section \<open>The system\<close>

datatype pipeline_op =
  Op_model model_reply | Op_speech nat speech_reply
| Op_produce | Op_dispatch | Op_synthesize nat | Op_run | Op_run_cancelled
| Op_deliver task "pipeline_error option"
| Op_abandon | Op_cancel_token | Op_generation bool

definition pipeline_step :: "pipeline_config \<Rightarrow> pipeline \<Rightarrow> pipeline_op \<Rightarrow> pipeline option" where
  "pipeline_step cfg s p =
     (case p of
        Op_model r \<Rightarrow> producer_reply cfg r s
      | Op_speech k r \<Rightarrow> synthesis_reply k r s
      | Op_produce \<Rightarrow> producer_step cfg s
      | Op_dispatch \<Rightarrow> dispatcher_step cfg s
      | Op_synthesize k \<Rightarrow> synthesis_step cfg k s
      | Op_run \<Rightarrow> run_step cfg s
      | Op_run_cancelled \<Rightarrow> run_interrupted s
      | Op_deliver t e \<Rightarrow> deliver_cancel t e s
      | Op_abandon \<Rightarrow> run_abandoned s
      | Op_cancel_token \<Rightarrow> if pg_has_token cfg then Some (s\<lparr>pl_cancelled := True\<rparr>) else None
      | Op_generation b \<Rightarrow> Some (s\<lparr>pl_current := b\<rparr>))"

text \<open>An operation that is not possible in a state leaves it as it is.\<close>

definition pipeline_apply :: "pipeline_config \<Rightarrow> pipeline \<Rightarrow> pipeline_op \<Rightarrow> pipeline" where
  "pipeline_apply cfg s p = (case pipeline_step cfg s p of None \<Rightarrow> s | Some s' \<Rightarrow> s')"

definition pipeline_run :: "pipeline_config \<Rightarrow> pipeline \<Rightarrow> pipeline_op list \<Rightarrow> pipeline" where
  "pipeline_run cfg s ps = foldl (pipeline_apply cfg) s ps"

end
