(* ===== verification/PipelineInv.thy ===== *)
theory PipelineInv
  imports Pipeline
begin

text \<open>
  The invariant of the dialogue pipeline and its safety properties. The abstract specification
  of what \<open>run\<close> may publish is an acceptor of event sequences, independent of tasks and
  queues; the invariant relates its state to the queues, so that every published event is one
  the acceptor admits.
\<close>

section \<open>What a reply may look like\<close>

definition chunk_fits :: "segment \<Rightarrow> nat \<Rightarrow> AudioChunk \<Rightarrow> bool" where
  "chunk_fits g n c \<longleftrightarrow> ac_segment_id c = sg_segment_id g \<and> ac_sequence c = int (sg_sequence g) \<and>
     ac_chunk_index c = int n"

text \<open>
  \<open>Open gs n fin\<close>: the segments published so far, the number of chunks of the last one, and
  whether its last chunk was final (there is nothing to finish before the first segment).
\<close>

datatype phase = Open "segment list" nat bool | Shut

fun accept :: "pipeline_config \<Rightarrow> phase \<Rightarrow> DialogueStreamEvent \<Rightarrow> phase option" where
  "accept cfg Shut ev = None"
| "accept cfg (Open gs n fin) (SegmentReady t v g) =
     (if t = pg_turn_id cfg \<and> v = pg_generation cfg \<and> fin \<and> sg_sequence g = length gs
      then Some (Open (gs @ [g]) 0 False) else None)"
| "accept cfg (Open gs n fin) (SegmentAudioReady t v g c) =
     (if t = pg_turn_id cfg \<and> v = pg_generation cfg \<and> \<not> fin \<and> gs \<noteq> [] \<and> g = last gs \<and> chunk_fits g n c
      then Some (Open gs (Suc n) (ac_is_final c)) else None)"
| "accept cfg (Open gs n fin) (UtteranceCompleted t v plan) =
     (if t = pg_turn_id cfg \<and> v = pg_generation cfg \<and> fin \<and> up_segments plan = gs \<and>
         up_turn_id plan = t \<and> up_generation plan = v
      then Some Shut else None)"

fun follow :: "pipeline_config \<Rightarrow> phase \<Rightarrow> DialogueStreamEvent list \<Rightarrow> phase option" where
  "follow cfg ph [] = Some ph"
| "follow cfg ph (ev # evs) =
     (case accept cfg ph ev of None \<Rightarrow> None | Some ph' \<Rightarrow> follow cfg ph' evs)"

abbreviation followed :: "pipeline_config \<Rightarrow> DialogueStreamEvent list \<Rightarrow> phase option" where
  "followed cfg evs \<equiv> follow cfg (Open [] 0 True) evs"

lemma follow_snoc:
  "follow cfg ph (evs @ [ev]) = (case follow cfg ph evs of None \<Rightarrow> None | Some ph' \<Rightarrow> accept cfg ph' ev)"
  by (induction evs arbitrary: ph) (auto split: option.splits)

section \<open>The stream of one job\<close>

text \<open>
  \<open>job_ok g n fin audio task\<close>: after \<open>n\<close> accepted chunks, what waits in the audio queue followed
  by what the task still puts is a stream of fitting chunks that ends with a final one, unless
  it fails.
\<close>

fun job_ok :: "segment \<Rightarrow> nat \<Rightarrow> bool \<Rightarrow> audio_item list \<Rightarrow> synthesis \<Rightarrow> bool" where
  "job_ok g n fin [] task =
     (case task of
        S_speech m f \<Rightarrow> m = n \<and> f = fin
      | S_put (Chunk_item c) m f \<Rightarrow> \<not> fin \<and> chunk_fits g n c \<and> m = Suc n \<and> f = ac_is_final c
      | S_put Synthesis_finished m f \<Rightarrow> fin
      | S_put (Audio_failed e) m f \<Rightarrow> True
      | S_done \<Rightarrow> False)"
| "job_ok g n fin (Chunk_item c # audio) task =
     (\<not> fin \<and> chunk_fits g n c \<and> job_ok g (Suc n) (ac_is_final c) audio task)"
| "job_ok g n fin (Synthesis_finished # audio) task = (fin \<and> audio = [] \<and> task = S_done)"
| "job_ok g n fin (Audio_failed e # audio) task = (audio = [] \<and> task = S_done)"

lemma job_ok_receive:
  "job_ok g n fin audio (S_speech m f) \<Longrightarrow> job_ok g n fin audio (synthesis_receive g m f r)"
  by (induction g n fin audio "S_speech m f" rule: job_ok.induct)
    (auto simp: synthesis_receive_def check_chunk_def chunk_fits_def split: speech_reply.splits option.splits if_splits)

lemma job_ok_put:
  "job_ok g n fin audio (S_put i m f) \<Longrightarrow>
   job_ok g n fin (audio @ [i]) (case i of Chunk_item c \<Rightarrow> S_speech m f | _ \<Rightarrow> S_done)"
  by (induction g n fin audio "S_put i m f" rule: job_ok.induct) (auto split: audio_item.splits)

text \<open>A job is untouched, the one whose audio is being published, or published completely.\<close>

definition job_place :: "nat option \<Rightarrow> nat \<Rightarrow> nat \<Rightarrow> bool \<Rightarrow> nat \<Rightarrow> job \<Rightarrow> bool" where
  "job_place current c n fin i j \<longleftrightarrow>
     (if current = Some i then job_ok (jb_segment j) n fin (jb_audio j) (jb_task j)
      else if i < c then jb_audio j = [] \<and> jb_task j = S_done
      else job_ok (jb_segment j) 0 False (jb_audio j) (jb_task j))"

lemma job_place_receive:
  assumes "job_place current c n fin i j" and "jb_task j = S_speech m f"
  shows "job_place current c n fin i (j\<lparr>jb_task := synthesis_receive (jb_segment j) m f r\<rparr>)"
  using assms by (auto simp: job_place_def job_ok_receive split: if_splits)

lemma job_place_put:
  assumes "job_place current c n fin i j" and "jb_task j = S_put x m f"
  shows "job_place current c n fin i
    (j\<lparr>jb_audio := jb_audio j @ [x], jb_task := (case x of Chunk_item c \<Rightarrow> S_speech m f | _ \<Rightarrow> S_done)\<rparr>)"
  using assms by (auto simp: job_place_def job_ok_put split: if_splits)

section \<open>The invariant\<close>

definition current_job :: "run_state \<Rightarrow> nat option" where
  "current_job r = (case r of At_get w \<Rightarrow> w | Waiting w \<Rightarrow> w | _ \<Rightarrow> None)"

fun ends_run :: "run_state \<Rightarrow> production_item list" where
  "ends_run (Joining p) = [Terminal_item (Production_finished p)]"
| "ends_run (Completed_published p) = [Terminal_item (Production_finished p)]"
| "ends_run _ = []"

fun held :: "dispatcher \<Rightarrow> production_item list" where
  "held (D_acquire g) = [Segment_item g]"
| "held (D_put_job g) = [Segment_item g]"
| "held (D_put_end t) = [Terminal_item t]"
| "held _ = []"

fun pending :: "producer \<Rightarrow> production_item list" where
  "pending (P_put items is_last) = items"
| "pending _ = []"

fun producing :: "producer \<Rightarrow> bool" where
  "producing (P_put items is_last) = (\<not> is_last)"
| "producing P_done = False"
| "producing _ = True"

fun out_ends :: "output_item list \<Rightarrow> production_item list" where
  "out_ends [] = []"
| "out_ends (Job_item k # items) = out_ends items"
| "out_ends (Output_end t # items) = Terminal_item t # out_ends items"

definition assembled :: "pipeline \<Rightarrow> segment list" where
  "assembled s = (case pl_assembler s of None \<Rightarrow> [] | Some a \<Rightarrow> as_segments a)"

text \<open>The assembler and what was pushed into it.\<close>

definition text_inv :: "pipeline_config \<Rightarrow> pipeline \<Rightarrow> bool" where
  "text_inv cfg s \<longleftrightarrow>
     (case pl_assembler s of
        None \<Rightarrow> (pl_producer s = P_start \<or> (\<exists>e. pl_producer s = P_raised e)) \<and> pl_deltas s = []
      | Some a \<Rightarrow>
          segments_ok (pg_fresh cfg) (as_segments a) \<and>
          visible (spoken (as_segments a)) @ visible (as_buffer a) = visible (concat (pl_deltas s)) \<and>
          pl_producer s \<noteq> P_start \<and> pl_producer s \<noteq> P_diverged \<and>
          (\<forall>l. pl_producer s \<noteq> P_put [] l) \<and>
          (pl_producer s = P_model \<or> (\<exists>items. pl_producer s = P_put items False) \<longrightarrow>
             assembler_inv (pg_fresh cfg) a))"

text \<open>The capacities, and the bookkeeping of the tasks.\<close>

definition active :: "job list \<Rightarrow> nat" where
  "active jobs = length (filter (\<lambda>j. jb_task j \<noteq> S_done) jobs)"

definition slot_held :: "dispatcher \<Rightarrow> nat" where
  "slot_held d = (case d of D_put_job g \<Rightarrow> 1 | _ \<Rightarrow> 0)"

definition bounds_inv :: "pipeline_config \<Rightarrow> pipeline \<Rightarrow> bool" where
  "bounds_inv cfg s \<longleftrightarrow>
     length (pl_segments s) \<le> pg_segment_queue_capacity cfg \<and>
     length (pl_output s) \<le> pg_max_concurrent_synthesis cfg + 1 \<and>
     (\<forall>j \<in> set (pl_jobs s). length (jb_audio j) \<le> pg_audio_queue_capacity cfg) \<and>
     pl_slots s + active (pl_jobs s) + slot_held (pl_dispatcher s) \<le> pg_max_concurrent_synthesis cfg"

definition tasks_inv :: "pipeline \<Rightarrow> bool" where
  "tasks_inv s \<longleftrightarrow>
     (\<forall>k < length (pl_jobs s). jb_task (pl_jobs s ! k) \<noteq> S_done \<longrightarrow> k \<in> set (pl_tasks s)) \<and>
     (\<forall>k \<in> set (pl_tasks s). k < length (pl_jobs s)) \<and>
     (\<forall>k. T_synthesis k \<in> set (pl_cancelling s) \<longrightarrow> k < length (pl_jobs s) \<and> jb_task (pl_jobs s ! k) \<noteq> S_done)"

text \<open>Before the \<open>finally\<close> clause: where every item is, from the assembler to the generator.\<close>

definition flow :: "pipeline \<Rightarrow> production_item list" where
  "flow s = ends_run (pl_run s) @
     out_ends (pl_output s) @ held (pl_dispatcher s) @ pl_segments s @ pending (pl_producer s)"

definition tail_ok :: "pipeline_config \<Rightarrow> bool \<Rightarrow> segment list \<Rightarrow> pystr list \<Rightarrow> production_item list \<Rightarrow> bool" where
  "tail_ok cfg open_ended gs ds stop \<longleftrightarrow>
     (if open_ended then stop = []
      else \<exists>t. stop = [Terminal_item t] \<and>
        (\<forall>p. t = Production_finished p \<longrightarrow> up_segments p = gs \<and> up_turn_id p = pg_turn_id cfg \<and>
           up_generation p = pg_generation cfg \<and> visible (spoken gs) = visible (concat ds)))"

definition flow_inv :: "pipeline_config \<Rightarrow> pipeline \<Rightarrow> bool" where
  "flow_inv cfg s \<longleftrightarrow>
     (\<exists>stop. map Segment_item (map jb_segment (pl_jobs s)) @ flow s = map Segment_item (assembled s) @ stop \<and>
        tail_ok cfg (producing (pl_producer s)) (assembled s) (pl_deltas s) stop)"

definition output_inv :: "pipeline \<Rightarrow> nat \<Rightarrow> bool" where
  "output_inv s c \<longleftrightarrow>
     (\<exists>ts. pl_output s = map Job_item [c..<length (pl_jobs s)] @ map Output_end ts \<and>
        (ts \<noteq> [] \<longrightarrow> pl_dispatcher s = D_done) \<and>
        (pl_dispatcher s = D_done \<longrightarrow> ts \<noteq> [] \<or> ends_run (pl_run s) \<noteq> [])) \<and>
     (ends_run (pl_run s) \<noteq> [] \<longrightarrow> pl_output s = [] \<and> pl_dispatcher s = D_done) \<and> pl_dispatcher s \<noteq> D_cancelled"

definition place_inv :: "pipeline_config \<Rightarrow> pipeline \<Rightarrow> nat \<Rightarrow> nat \<Rightarrow> bool \<Rightarrow> bool" where
  "place_inv cfg s c n fin \<longleftrightarrow>
     c \<le> length (pl_jobs s) \<and>
     followed cfg (pl_published s) =
       Some (case pl_run s of Completed_published p \<Rightarrow> Shut | _ \<Rightarrow> Open (map jb_segment (take c (pl_jobs s))) n fin) \<and>
     (case current_job (pl_run s) of None \<Rightarrow> fin | Some k \<Rightarrow> c = Suc k) \<and>
     (\<forall>i < length (pl_jobs s). job_place (current_job (pl_run s)) c n fin i (pl_jobs s ! i))"

definition live_inv :: "pipeline_config \<Rightarrow> pipeline \<Rightarrow> bool" where
  "live_inv cfg s \<longleftrightarrow> pl_cancelling s = [] \<and> (\<forall>r. pl_run s \<noteq> Cleaning r \<and> pl_run s \<noteq> Ended r) \<and>
     pl_slots s + active (pl_jobs s) + slot_held (pl_dispatcher s) = pg_max_concurrent_synthesis cfg \<and>
     flow_inv cfg s \<and> (\<exists>c n fin. output_inv s c \<and> place_inv cfg s c n fin)"

text \<open>In the \<open>finally\<close> clause and after it.\<close>

definition ending_inv :: "pipeline_config \<Rightarrow> pipeline \<Rightarrow> bool" where
  "ending_inv cfg s \<longleftrightarrow> (\<exists>r. pl_run s = Cleaning r \<or> pl_run s = Ended r) \<and>
     (\<not> producer_over (pl_producer s) \<longrightarrow>
        T_producer \<in> set (pl_cancelling s) \<or> (\<exists>e. pl_producer s = P_put [Terminal_item (Stage_failed e)] True)) \<and>
     (T_producer \<in> set (pl_cancelling s) \<longrightarrow> \<not> producer_over (pl_producer s)) \<and>
     (\<not> dispatcher_over (pl_dispatcher s) \<longrightarrow> T_dispatcher \<in> set (pl_cancelling s)) \<and>
     (\<forall>k < length (pl_jobs s). jb_task (pl_jobs s ! k) \<noteq> S_done \<longrightarrow>
        T_synthesis k \<in> set (pl_cancelling s) \<or> (\<exists>e n f. jb_task (pl_jobs s ! k) = S_put (Audio_failed e) n f))"

definition published_inv :: "pipeline_config \<Rightarrow> pipeline \<Rightarrow> bool" where
  "published_inv cfg s \<longleftrightarrow> followed cfg (pl_published s) \<noteq> None \<and>
     (\<forall>t v p. UtteranceCompleted t v p \<in> set (pl_published s) \<longrightarrow>
        producer_over (pl_producer s) \<and> visible (spoken (up_segments p)) = visible (concat (pl_deltas s)))"

definition pipeline_inv :: "pipeline_config \<Rightarrow> pipeline \<Rightarrow> bool" where
  "pipeline_inv cfg s \<longleftrightarrow> text_inv cfg s \<and> bounds_inv cfg s \<and> tasks_inv s \<and> published_inv cfg s \<and>
     (if pl_stopping s then ending_inv cfg s else live_inv cfg s)"


text \<open>What each part of the invariant does not read.\<close>

lemma text_inv_frame [simp]:
  "text_inv cfg (s\<lparr>pl_cancelled := xcancelled\<rparr>) = text_inv cfg s"
  "text_inv cfg (s\<lparr>pl_current := xcurrent\<rparr>) = text_inv cfg s"
  "text_inv cfg (s\<lparr>pl_completion := xcompletion\<rparr>) = text_inv cfg s"
  "text_inv cfg (s\<lparr>pl_segments := xsegments\<rparr>) = text_inv cfg s"
  "text_inv cfg (s\<lparr>pl_dispatcher := xdispatcher\<rparr>) = text_inv cfg s"
  "text_inv cfg (s\<lparr>pl_slots := xslots\<rparr>) = text_inv cfg s"
  "text_inv cfg (s\<lparr>pl_output := xoutput\<rparr>) = text_inv cfg s"
  "text_inv cfg (s\<lparr>pl_jobs := xjobs\<rparr>) = text_inv cfg s"
  "text_inv cfg (s\<lparr>pl_tasks := xtasks\<rparr>) = text_inv cfg s"
  "text_inv cfg (s\<lparr>pl_stopping := xstopping\<rparr>) = text_inv cfg s"
  "text_inv cfg (s\<lparr>pl_cancelling := xcancelling\<rparr>) = text_inv cfg s"
  "text_inv cfg (s\<lparr>pl_run := xrun\<rparr>) = text_inv cfg s"
  "text_inv cfg (s\<lparr>pl_published := xpublished\<rparr>) = text_inv cfg s"
  by (simp_all add: text_inv_def cong: option.case_cong)

lemma bounds_inv_frame [simp]:
  "bounds_inv cfg (s\<lparr>pl_cancelled := xcancelled\<rparr>) = bounds_inv cfg s"
  "bounds_inv cfg (s\<lparr>pl_current := xcurrent\<rparr>) = bounds_inv cfg s"
  "bounds_inv cfg (s\<lparr>pl_assembler := xassembler\<rparr>) = bounds_inv cfg s"
  "bounds_inv cfg (s\<lparr>pl_completion := xcompletion\<rparr>) = bounds_inv cfg s"
  "bounds_inv cfg (s\<lparr>pl_producer := xproducer\<rparr>) = bounds_inv cfg s"
  "bounds_inv cfg (s\<lparr>pl_tasks := xtasks\<rparr>) = bounds_inv cfg s"
  "bounds_inv cfg (s\<lparr>pl_stopping := xstopping\<rparr>) = bounds_inv cfg s"
  "bounds_inv cfg (s\<lparr>pl_cancelling := xcancelling\<rparr>) = bounds_inv cfg s"
  "bounds_inv cfg (s\<lparr>pl_run := xrun\<rparr>) = bounds_inv cfg s"
  "bounds_inv cfg (s\<lparr>pl_published := xpublished\<rparr>) = bounds_inv cfg s"
  "bounds_inv cfg (s\<lparr>pl_deltas := xdeltas\<rparr>) = bounds_inv cfg s"
  by (simp_all add: bounds_inv_def)

lemma tasks_inv_frame [simp]:
  "tasks_inv (s\<lparr>pl_cancelled := xcancelled\<rparr>) = tasks_inv s"
  "tasks_inv (s\<lparr>pl_current := xcurrent\<rparr>) = tasks_inv s"
  "tasks_inv (s\<lparr>pl_assembler := xassembler\<rparr>) = tasks_inv s"
  "tasks_inv (s\<lparr>pl_completion := xcompletion\<rparr>) = tasks_inv s"
  "tasks_inv (s\<lparr>pl_producer := xproducer\<rparr>) = tasks_inv s"
  "tasks_inv (s\<lparr>pl_segments := xsegments\<rparr>) = tasks_inv s"
  "tasks_inv (s\<lparr>pl_dispatcher := xdispatcher\<rparr>) = tasks_inv s"
  "tasks_inv (s\<lparr>pl_slots := xslots\<rparr>) = tasks_inv s"
  "tasks_inv (s\<lparr>pl_output := xoutput\<rparr>) = tasks_inv s"
  "tasks_inv (s\<lparr>pl_stopping := xstopping\<rparr>) = tasks_inv s"
  "tasks_inv (s\<lparr>pl_run := xrun\<rparr>) = tasks_inv s"
  "tasks_inv (s\<lparr>pl_published := xpublished\<rparr>) = tasks_inv s"
  "tasks_inv (s\<lparr>pl_deltas := xdeltas\<rparr>) = tasks_inv s"
  by (simp_all add: tasks_inv_def)

lemma published_inv_frame [simp]:
  "published_inv cfg (s\<lparr>pl_cancelled := xcancelled\<rparr>) = published_inv cfg s"
  "published_inv cfg (s\<lparr>pl_current := xcurrent\<rparr>) = published_inv cfg s"
  "published_inv cfg (s\<lparr>pl_assembler := xassembler\<rparr>) = published_inv cfg s"
  "published_inv cfg (s\<lparr>pl_completion := xcompletion\<rparr>) = published_inv cfg s"
  "published_inv cfg (s\<lparr>pl_segments := xsegments\<rparr>) = published_inv cfg s"
  "published_inv cfg (s\<lparr>pl_dispatcher := xdispatcher\<rparr>) = published_inv cfg s"
  "published_inv cfg (s\<lparr>pl_slots := xslots\<rparr>) = published_inv cfg s"
  "published_inv cfg (s\<lparr>pl_output := xoutput\<rparr>) = published_inv cfg s"
  "published_inv cfg (s\<lparr>pl_jobs := xjobs\<rparr>) = published_inv cfg s"
  "published_inv cfg (s\<lparr>pl_tasks := xtasks\<rparr>) = published_inv cfg s"
  "published_inv cfg (s\<lparr>pl_stopping := xstopping\<rparr>) = published_inv cfg s"
  "published_inv cfg (s\<lparr>pl_cancelling := xcancelling\<rparr>) = published_inv cfg s"
  "published_inv cfg (s\<lparr>pl_run := xrun\<rparr>) = published_inv cfg s"
  by (simp_all add: published_inv_def)

lemma flow_inv_frame [simp]:
  "flow_inv cfg (s\<lparr>pl_cancelled := xcancelled\<rparr>) = flow_inv cfg s"
  "flow_inv cfg (s\<lparr>pl_current := xcurrent\<rparr>) = flow_inv cfg s"
  "flow_inv cfg (s\<lparr>pl_completion := xcompletion\<rparr>) = flow_inv cfg s"
  "flow_inv cfg (s\<lparr>pl_slots := xslots\<rparr>) = flow_inv cfg s"
  "flow_inv cfg (s\<lparr>pl_tasks := xtasks\<rparr>) = flow_inv cfg s"
  "flow_inv cfg (s\<lparr>pl_stopping := xstopping\<rparr>) = flow_inv cfg s"
  "flow_inv cfg (s\<lparr>pl_cancelling := xcancelling\<rparr>) = flow_inv cfg s"
  "flow_inv cfg (s\<lparr>pl_published := xpublished\<rparr>) = flow_inv cfg s"
  by (simp_all add: flow_inv_def flow_def assembled_def)

lemma output_inv_frame [simp]:
  "output_inv (s\<lparr>pl_cancelled := xcancelled\<rparr>) c = output_inv s c"
  "output_inv (s\<lparr>pl_current := xcurrent\<rparr>) c = output_inv s c"
  "output_inv (s\<lparr>pl_assembler := xassembler\<rparr>) c = output_inv s c"
  "output_inv (s\<lparr>pl_completion := xcompletion\<rparr>) c = output_inv s c"
  "output_inv (s\<lparr>pl_producer := xproducer\<rparr>) c = output_inv s c"
  "output_inv (s\<lparr>pl_segments := xsegments\<rparr>) c = output_inv s c"
  "output_inv (s\<lparr>pl_slots := xslots\<rparr>) c = output_inv s c"
  "output_inv (s\<lparr>pl_tasks := xtasks\<rparr>) c = output_inv s c"
  "output_inv (s\<lparr>pl_stopping := xstopping\<rparr>) c = output_inv s c"
  "output_inv (s\<lparr>pl_cancelling := xcancelling\<rparr>) c = output_inv s c"
  "output_inv (s\<lparr>pl_published := xpublished\<rparr>) c = output_inv s c"
  "output_inv (s\<lparr>pl_deltas := xdeltas\<rparr>) c = output_inv s c"
  by (simp_all add: output_inv_def)

lemma place_inv_frame [simp]:
  "place_inv cfg (s\<lparr>pl_cancelled := xcancelled\<rparr>) c n fin = place_inv cfg s c n fin"
  "place_inv cfg (s\<lparr>pl_current := xcurrent\<rparr>) c n fin = place_inv cfg s c n fin"
  "place_inv cfg (s\<lparr>pl_assembler := xassembler\<rparr>) c n fin = place_inv cfg s c n fin"
  "place_inv cfg (s\<lparr>pl_completion := xcompletion\<rparr>) c n fin = place_inv cfg s c n fin"
  "place_inv cfg (s\<lparr>pl_producer := xproducer\<rparr>) c n fin = place_inv cfg s c n fin"
  "place_inv cfg (s\<lparr>pl_segments := xsegments\<rparr>) c n fin = place_inv cfg s c n fin"
  "place_inv cfg (s\<lparr>pl_dispatcher := xdispatcher\<rparr>) c n fin = place_inv cfg s c n fin"
  "place_inv cfg (s\<lparr>pl_slots := xslots\<rparr>) c n fin = place_inv cfg s c n fin"
  "place_inv cfg (s\<lparr>pl_output := xoutput\<rparr>) c n fin = place_inv cfg s c n fin"
  "place_inv cfg (s\<lparr>pl_tasks := xtasks\<rparr>) c n fin = place_inv cfg s c n fin"
  "place_inv cfg (s\<lparr>pl_stopping := xstopping\<rparr>) c n fin = place_inv cfg s c n fin"
  "place_inv cfg (s\<lparr>pl_cancelling := xcancelling\<rparr>) c n fin = place_inv cfg s c n fin"
  "place_inv cfg (s\<lparr>pl_deltas := xdeltas\<rparr>) c n fin = place_inv cfg s c n fin"
  by (simp_all add: place_inv_def cong: run_state.case_cong)

lemma ending_inv_frame [simp]:
  "ending_inv cfg (s\<lparr>pl_cancelled := xcancelled\<rparr>) = ending_inv cfg s"
  "ending_inv cfg (s\<lparr>pl_current := xcurrent\<rparr>) = ending_inv cfg s"
  "ending_inv cfg (s\<lparr>pl_assembler := xassembler\<rparr>) = ending_inv cfg s"
  "ending_inv cfg (s\<lparr>pl_completion := xcompletion\<rparr>) = ending_inv cfg s"
  "ending_inv cfg (s\<lparr>pl_segments := xsegments\<rparr>) = ending_inv cfg s"
  "ending_inv cfg (s\<lparr>pl_slots := xslots\<rparr>) = ending_inv cfg s"
  "ending_inv cfg (s\<lparr>pl_output := xoutput\<rparr>) = ending_inv cfg s"
  "ending_inv cfg (s\<lparr>pl_tasks := xtasks\<rparr>) = ending_inv cfg s"
  "ending_inv cfg (s\<lparr>pl_stopping := xstopping\<rparr>) = ending_inv cfg s"
  "ending_inv cfg (s\<lparr>pl_published := xpublished\<rparr>) = ending_inv cfg s"
  "ending_inv cfg (s\<lparr>pl_deltas := xdeltas\<rparr>) = ending_inv cfg s"
  by (simp_all add: ending_inv_def)

lemma active_simps [simp]:
  "active [] = 0" "active (js @ [j]) = active js + (if jb_task j = S_done then 0 else 1)"
  by (simp_all add: active_def)

lemma active_Cons: "active (j # js) = (if jb_task j = S_done then 0 else 1) + active js"
  by (simp add: active_def)

lemma active_update:
  "k < length js \<Longrightarrow>
   active (js[k := j]) + (if jb_task (js ! k) = S_done then 0 else 1) = active js + (if jb_task j = S_done then 0 else 1)"
proof (induction js arbitrary: k)
  case (Cons x xs)
  then show ?case using Cons.IH [of "k - 1"] by (cases k) (auto simp: active_Cons)
qed simp

text \<open>Items in a line: a terminal item is the last one.\<close>

lemma segments_prefix:
  assumes "map Segment_item xs @ rest = map Segment_item ys @ stop" and "stop = [] \<or> (\<exists>t. stop = [Terminal_item t])"
  shows "\<exists>zs. ys = xs @ zs \<and> rest = map Segment_item zs @ stop"
  using assms
proof (induction xs arbitrary: ys)
  case (Cons x xs)
  then show ?case by (cases ys) auto
qed simp

lemma terminal_last:
  assumes "Terminal_item t # rest = map Segment_item zs @ stop" and "stop = [] \<or> (\<exists>u. stop = [Terminal_item u])"
  shows "rest = [] \<and> zs = [] \<and> stop = [Terminal_item t]"
  using assms by (cases zs) auto

section \<open>The producer\<close>

lemma finish_segments:
  "finish fresh a = Inr (emitted, a') \<Longrightarrow> as_segments a' = as_segments a @ emitted"
  by (auto simp: finish_def add_segment_def Let_def split: sum.splits option.splits if_splits)

lemma producer_put_inv:
  assumes "pipeline_inv cfg s" and "\<not> producer_over (pl_producer s)"
    and "text_inv cfg (s\<lparr>pl_producer := p\<rparr>)" and "flow_inv cfg s \<Longrightarrow> flow_inv cfg (s\<lparr>pl_producer := p\<rparr>)"
    and "pl_stopping s \<Longrightarrow> T_producer \<notin> set (pl_cancelling s) \<and>
       (producer_over p \<or> (\<exists>e. p = P_put [Terminal_item (Stage_failed e)] True))"
  shows "pipeline_inv cfg (s\<lparr>pl_producer := p\<rparr>)"
proof (cases "pl_stopping s")
  case True
  with assms show ?thesis by (auto simp: pipeline_inv_def published_inv_def ending_inv_def)
next
  case False
  with assms show ?thesis
    by (simp add: pipeline_inv_def published_inv_def live_inv_def)
qed

lemma producer_next_simps [simp]:
  "pending (producer_next items l) = items" "producing (producer_next items l) = (\<not> l)"
  "producer_over (producer_next items l) \<longleftrightarrow> items = [] \<and> l"
  by (auto simp: producer_next_def producer_over_def)

lemma producer_over_simps [simp]:
  "\<not> producer_over P_start" "\<not> producer_over P_model" "\<not> producer_over (P_put items l)"
  "producer_over P_done" "producer_over (P_raised e)" "\<not> producer_over P_diverged"
  by (simp_all add: producer_over_def)

text \<open>The line of items grows at its end, by segments of the assembler and at last a terminal.\<close>

lemma flow_extend:
  assumes "flow_inv cfg s" and "pending (pl_producer s) = []" and "producing (pl_producer s)"
    and "assembled (s\<lparr>pl_assembler := a\<rparr>) = assembled s @ emitted"
    and "pending p = map Segment_item emitted @ stop"
    and "tail_ok cfg (producing p) (assembled s @ emitted) ds stop"
  shows "flow_inv cfg (s\<lparr>pl_assembler := a, pl_producer := p, pl_deltas := ds\<rparr>)"
proof -
  let ?s = "s\<lparr>pl_assembler := a, pl_producer := p, pl_deltas := ds\<rparr>"
  have "map Segment_item (map jb_segment (pl_jobs s)) @ flow s = map Segment_item (assembled s)"
    using assms(1,3) by (simp add: flow_inv_def tail_ok_def)
  moreover have "flow ?s = flow s @ map Segment_item emitted @ stop"
    using assms(2,5) by (simp add: flow_def)
  ultimately have "map Segment_item (map jb_segment (pl_jobs ?s)) @ flow ?s = map Segment_item (assembled s @ emitted) @ stop"
    by (simp flip: append_assoc)
  moreover have "assembled ?s = assembled s @ emitted"
    using assms(4) by (simp add: assembled_def)
  ultimately show ?thesis
    using assms(6) unfolding flow_inv_def by force
qed

lemma flow_inv_moved:
  assumes "flow_inv cfg s"
    and "map Segment_item (map jb_segment (pl_jobs s')) @ flow s' = map Segment_item (map jb_segment (pl_jobs s)) @ flow s"
    and "assembled s' = assembled s" "producing (pl_producer s') = producing (pl_producer s)" "pl_deltas s' = pl_deltas s"
  shows "flow_inv cfg s'"
  using assms by (simp add: flow_inv_def)

lemma assembled_frame:
  "pl_assembler s' = pl_assembler s \<Longrightarrow> assembled s' = assembled s"
  by (simp add: assembled_def)

lemma except_inv:
  assumes "pipeline_inv cfg s" and "pl_producer s = P_model" and "T_producer \<notin> set (pl_cancelling s)"
  shows "pipeline_inv cfg (producer_except e s)"
proof -
  have *: "flow_inv cfg s \<Longrightarrow> flow_inv cfg (s\<lparr>pl_producer := P_put [Terminal_item (Stage_failed e)] True\<rparr>)"
    using flow_extend [of cfg s "pl_assembler s" "[]" "P_put [Terminal_item (Stage_failed e)] True"
        "[Terminal_item (Stage_failed e)]" "pl_deltas s"] assms(2) by (simp add: tail_ok_def)
  have "text_inv cfg s" using assms(1) by (simp add: pipeline_inv_def)
  then have t: "text_inv cfg (s\<lparr>pl_producer := P_raised e\<rparr>)"
    "text_inv cfg (s\<lparr>pl_producer := P_put [Terminal_item (Stage_failed e)] True\<rparr>)"
    using assms(2) by (auto simp: text_inv_def split: option.splits)
  show ?thesis
  proof (cases "e = Task_cancelled \<and> pl_stopping s")
    case True
    have "pl_stopping s \<Longrightarrow> pipeline_inv cfg (s\<lparr>pl_producer := P_raised e\<rparr>)"
      using assms t(1) by (auto simp: pipeline_inv_def published_inv_def ending_inv_def)
    then show ?thesis using True by (simp add: producer_except_def)
  next
    case False
    then show ?thesis
      using assms t(2) * by (auto simp: producer_except_def intro!: producer_put_inv)
  qed
qed

lemma producer_move_inv:
  assumes "pipeline_inv cfg s" and "pl_producer s = P_model" and "T_producer \<notin> set (pl_cancelling s)"
    and "text_inv cfg (s\<lparr>pl_assembler := a, pl_producer := p, pl_deltas := ds\<rparr>)"
    and "flow_inv cfg s \<Longrightarrow> flow_inv cfg (s\<lparr>pl_assembler := a, pl_producer := p, pl_deltas := ds\<rparr>)"
  shows "pipeline_inv cfg (s\<lparr>pl_assembler := a, pl_producer := p, pl_deltas := ds\<rparr>)"
proof -
  have "\<not> pl_stopping s"
    using assms(1-3) by (auto simp: pipeline_inv_def ending_inv_def)
  then show ?thesis
    using assms by (simp add: pipeline_inv_def published_inv_def live_inv_def)
qed

lemma delta_inv:
  assumes "pipeline_inv cfg s" and "pl_producer s = P_model" and "T_producer \<notin> set (pl_cancelling s)"
    and "pl_assembler s = Some a"
  shows "pipeline_inv cfg (producer_delta cfg a d s)"
proof -
  have t: "text_inv cfg s" using assms(1) by (simp add: pipeline_inv_def)
  with assms(2,4) have "assembler_inv (pg_fresh cfg) a" by (simp add: text_inv_def)
  from push_ok [OF this, of d] obtain emitted a' where a': "push (pg_fresh cfg) a d = Some (Inr (emitted, a'))"
    "assembler_inv (pg_fresh cfg) a'" "as_segments a' = as_segments a @ emitted"
    "visible (spoken (as_segments a')) @ visible (as_buffer a') =
       visible (spoken (as_segments a)) @ visible (as_buffer a) @ visible d" by blast
  let ?p = "producer_next (map Segment_item emitted) False"
  have "text_inv cfg (s\<lparr>pl_assembler := Some a', pl_producer := ?p, pl_deltas := pl_deltas s @ [d]\<rparr>)"
    using t assms(2,4) a'(2-4) by (auto simp: text_inv_def assembler_inv_def producer_next_def)
  moreover have "flow_inv cfg (s\<lparr>pl_assembler := Some a', pl_producer := ?p, pl_deltas := pl_deltas s @ [d]\<rparr>)"
    if "flow_inv cfg s"
    by (rule flow_extend [OF that, where stop = "[]" and emitted = emitted]) (use assms(2,4) a'(3) in \<open>simp_all add: assembled_def tail_ok_def\<close>)
  ultimately have "pipeline_inv cfg (s\<lparr>pl_assembler := Some a', pl_producer := ?p, pl_deltas := pl_deltas s @ [d]\<rparr>)"
    by (rule producer_move_inv [OF assms(1-3)])
  then show ?thesis using a'(1) by (simp add: producer_delta_def)
qed

lemma finish_inv:
  assumes "pipeline_inv cfg s" and "pl_producer s = P_model" and "T_producer \<notin> set (pl_cancelling s)"
    and "pl_assembler s = Some a"
  shows "pipeline_inv cfg (producer_finish cfg a s)"
proof -
  have t: "text_inv cfg s" using assms(1) by (simp add: pipeline_inv_def)
  with assms(2,4) have "assembler_inv (pg_fresh cfg) a" by (simp add: text_inv_def)
  from finish_ok [OF this] obtain emitted a' where a': "finish (pg_fresh cfg) a = Inr (emitted, a')"
    "as_buffer a' = []" "segments_ok (pg_fresh cfg) (as_segments a')"
    "visible (spoken (as_segments a')) = visible (spoken (as_segments a)) @ visible (as_buffer a)" by blast
  have seg: "as_segments a' = as_segments a @ emitted" using a'(1) by (rule finish_segments)
  let ?t = "Terminal_item (Production_finished (the_plan cfg a' (pl_completion s)))"
  let ?p = "P_put (map Segment_item emitted @ [?t]) True"
  have plan: "up_segments (the_plan cfg a' c) = as_segments a' \<and> up_turn_id (the_plan cfg a' c) = pg_turn_id cfg \<and>
      up_generation (the_plan cfg a' c) = pg_generation cfg" for c
    by (simp add: the_plan_def split: prod.splits)
  have vis: "visible (spoken (as_segments a')) = visible (concat (pl_deltas s))"
    using t assms(2,4) a'(4) by (simp add: text_inv_def)
  have "text_inv cfg (s\<lparr>pl_assembler := Some a', pl_producer := ?p, pl_deltas := pl_deltas s\<rparr>)"
    using vis a'(2,3) by (simp add: text_inv_def)
  moreover have "flow_inv cfg (s\<lparr>pl_assembler := Some a', pl_producer := ?p, pl_deltas := pl_deltas s\<rparr>)"
    if "flow_inv cfg s"
    by (rule flow_extend [OF that, where stop = "[?t]" and emitted = emitted])
      (use assms(2,4) seg plan vis in \<open>simp_all add: assembled_def tail_ok_def\<close>)
  ultimately have "pipeline_inv cfg (s\<lparr>pl_assembler := Some a', pl_producer := ?p, pl_deltas := pl_deltas s\<rparr>)"
    by (rule producer_move_inv [OF assms(1-3)])
  then show ?thesis using a'(1) by (simp add: producer_finish_def)
qed

lemma pipeline_inv_env [simp]:
  "pipeline_inv cfg (s\<lparr>pl_completion := c\<rparr>) = pipeline_inv cfg s"
  "pipeline_inv cfg (s\<lparr>pl_cancelled := b\<rparr>) = pipeline_inv cfg s"
  "pipeline_inv cfg (s\<lparr>pl_current := b\<rparr>) = pipeline_inv cfg s"
  by (simp_all add: pipeline_inv_def live_inv_def)

lemma producer_reply_inv:
  assumes "pipeline_inv cfg s" and "producer_reply cfg r s = Some s'"
  shows "pipeline_inv cfg s'"
proof -
  obtain a where a: "pl_producer s = P_model" "T_producer \<notin> set (pl_cancelling s)" "pl_assembler s = Some a"
    "s' = producer_receive cfg a r s"
    using assms(2) by (auto simp: producer_reply_def split: producer.splits option.splits if_splits)
  note inv = except_inv [OF assms(1) a(1,2)] delta_inv [OF assms(1) a(1-3)] finish_inv [OF assms(1) a(1-3)]
  have "pipeline_inv cfg (producer_completed c s)" for c
    using inv(1) assms(1) by (simp add: producer_completed_def)
  then show ?thesis
    unfolding a(4) producer_receive_def
    by (auto simp: inv split: model_reply.splits option.splits ModelStreamEvent.splits)
qed

lemma producer_start_inv:
  assumes "pipeline_inv cfg s" and "pl_producer s = P_start" and "T_producer \<notin> set (pl_cancelling s)"
  shows "pipeline_inv cfg (producer_start cfg s)"
proof -
  have "text_inv cfg s" and live: "\<not> pl_stopping s"
    using assms by (auto simp: pipeline_inv_def ending_inv_def)
  then have none: "pl_assembler s = None" "pl_deltas s = []"
    using assms(2) by (auto simp: text_inv_def split: option.splits)
  show ?thesis
  proof (cases "assembler_init (pg_max_segment_chars cfg)")
    case (Inl e)
    have "flow_inv cfg s \<Longrightarrow> flow_inv cfg (s\<lparr>pl_producer := P_raised (Assembler_error e)\<rparr>)"
      using assms(2) by (simp add: flow_inv_def flow_def assembled_def)
    then show ?thesis
      using assms none live Inl
      by (auto simp: producer_start_def text_inv_def intro!: producer_put_inv)
  next
    case (Inr a)
    then have a: "assembler_inv (pg_fresh cfg) a" "as_segments a = []" "as_buffer a = []"
      by (auto simp: assembler_init_def assembler_inv_def segments_ok_def split: if_splits)
    have "text_inv cfg (s\<lparr>pl_assembler := Some a, pl_producer := P_model\<rparr>)"
      using none a by (simp add: text_inv_def spoken_def segments_ok_def)
    moreover have "flow_inv cfg s \<Longrightarrow> flow_inv cfg (s\<lparr>pl_assembler := Some a, pl_producer := P_model\<rparr>)"
      using none a assms(2) by (simp add: flow_inv_def flow_def assembled_def)
    ultimately show ?thesis
      using assms live Inr by (simp add: producer_start_def pipeline_inv_def published_inv_def live_inv_def)
  qed
qed

lemma producer_step_inv:
  assumes "pipeline_inv cfg s" and "producer_step cfg s = Some s'"
  shows "pipeline_inv cfg s'"
proof (cases "pl_producer s = P_start")
  case True
  then show ?thesis using assms producer_start_inv [OF assms(1)] by (auto simp: producer_step_def split: if_splits)
next
  case False
  then obtain i items l where p: "pl_producer s = P_put (i # items) l" "T_producer \<notin> set (pl_cancelling s)"
    "length (pl_segments s) < pg_segment_queue_capacity cfg"
    and s': "s' = s\<lparr>pl_segments := pl_segments s @ [i], pl_producer := producer_next items l\<rparr>"
    using assms(2) by (auto simp: producer_step_def split: producer.splits list.splits if_splits)
  have tinv: "text_inv cfg s'"
    using assms(1) p(1) unfolding s' pipeline_inv_def text_inv_def
    by (auto simp: producer_next_def split: option.splits)
  have rest: "bounds_inv cfg s'" "tasks_inv s'" "published_inv cfg s'"
    using assms(1) p(1,3) by (auto simp: s' pipeline_inv_def bounds_inv_def published_inv_def)
  have flow: "flow_inv cfg s'" if "flow_inv cfg s"
    by (rule flow_inv_moved [OF that]) (use p(1) in \<open>simp_all add: s' flow_def assembled_def\<close>)
  have ending: "ending_inv cfg s \<Longrightarrow> ending_inv cfg s'"
    using p(1,2) by (auto simp: s' ending_inv_def)
  show ?thesis
    using assms(1) tinv rest flow ending by (auto simp: pipeline_inv_def live_inv_def s')
qed

section \<open>The dispatcher\<close>

lemma output_before_end:
  assumes "output_inv s c" and "pl_dispatcher s \<noteq> D_done"
  shows "pl_output s = map Job_item [c..<length (pl_jobs s)]" "ends_run (pl_run s) = []"
  using assms by (auto simp: output_inv_def)

lemma out_ends_append [simp]: "out_ends (xs @ ys) = out_ends xs @ out_ends ys"
  by (induction xs rule: out_ends.induct) auto

lemma out_ends_simps [simp]:
  "out_ends (map Job_item ks) = []" "out_ends (map Output_end ts) = map Terminal_item ts"
  by (induction ks) (auto, induction ts, auto)

lemma dispatch_job_place:
  assumes "place_inv cfg s c n fin" and "j = \<lparr>jb_segment = g, jb_audio = [], jb_task = S_speech 0 False\<rparr>"
  shows "place_inv cfg (s\<lparr>pl_jobs := pl_jobs s @ [j]\<rparr>) c n fin"
proof -
  have "job_place (current_job (pl_run s)) c n fin (length (pl_jobs s)) j"
    using assms by (auto simp: place_inv_def job_place_def split: option.splits)
  then show ?thesis
    using assms(1) by (auto simp: place_inv_def nth_append less_Suc_eq cong: run_state.case_cong)
qed

lemma dispatcher_move_inv:
  assumes "pipeline_inv cfg s" and "\<not> pl_stopping s" and "pl_dispatcher s \<noteq> D_done"
    and "s' = s\<lparr>pl_segments := q, pl_dispatcher := d, pl_slots := m\<rparr>"
    and "d \<noteq> D_done" "d \<noteq> D_cancelled" and "held (pl_dispatcher s) @ pl_segments s = held d @ q"
    and "length q \<le> length (pl_segments s)" and "m + slot_held d = pl_slots s + slot_held (pl_dispatcher s)"
  shows "pipeline_inv cfg s'"
proof -
  have "flow_inv cfg s'" if "flow_inv cfg s"
    using that by (rule flow_inv_moved) (use assms(7) in \<open>simp_all add: assms(4) flow_def assembled_def\<close>)
  moreover have "output_inv s' c" if "output_inv s c" for c
    using that assms(3,5,6) unfolding assms(4) output_inv_def by auto
  moreover have "bounds_inv cfg s'"
    using assms by (auto simp: pipeline_inv_def bounds_inv_def)
  ultimately show ?thesis
    using assms unfolding pipeline_inv_def live_inv_def by auto
qed

lemma dispatch_job_inv:
  assumes "pipeline_inv cfg s" and "\<not> pl_stopping s" and "pl_dispatcher s = D_put_job g"
    and "length (pl_output s) < pg_max_concurrent_synthesis cfg + 1"
  shows "pipeline_inv cfg (dispatch_job g s)"
proof -
  let ?k = "length (pl_jobs s)"
  let ?s = "dispatch_job g s"
  from assms(1,2) obtain c n fin where o: "output_inv s c" and pl: "place_inv cfg s c n fin"
    and live: "live_inv cfg s" by (auto simp: pipeline_inv_def live_inv_def)
  have out: "pl_output s = map Job_item [c..<?k]" "ends_run (pl_run s) = []"
    using output_before_end [OF o] assms(3) by simp_all
  have "c \<le> ?k" using pl by (simp add: place_inv_def)
  then have "output_inv ?s c"
    using out by (auto simp: output_inv_def dispatch_job_def Let_def intro!: exI [of _ "[]"])
  moreover have "place_inv cfg ?s c n fin"
    using dispatch_job_place [of cfg "s\<lparr>pl_output := pl_output s @ [Job_item ?k]\<rparr>", OF _ refl, of c n fin g] pl by (simp add: dispatch_job_def Let_def)
  moreover have "flow_inv cfg ?s"
    by (rule flow_inv_moved [of cfg s]) (use live out assms(3) in \<open>simp_all add: live_inv_def flow_def assembled_def dispatch_job_def Let_def\<close>)
  moreover have "bounds_inv cfg ?s"
    using assms by (auto simp: pipeline_inv_def bounds_inv_def dispatch_job_def Let_def slot_held_def)
  moreover have "tasks_inv ?s"
    using assms(1,2) live by (auto simp: pipeline_inv_def live_inv_def tasks_inv_def dispatch_job_def Let_def discard_finished_def nth_append less_Suc_eq)
  ultimately show ?thesis
    using assms live by (auto simp: pipeline_inv_def live_inv_def dispatch_job_def Let_def slot_held_def)
qed

lemma dispatch_end_inv:
  assumes "pipeline_inv cfg s" and "\<not> pl_stopping s" and "pl_dispatcher s = D_put_end t"
    and "length (pl_output s) < pg_max_concurrent_synthesis cfg + 1"
  shows "pipeline_inv cfg (s\<lparr>pl_output := pl_output s @ [Output_end t], pl_dispatcher := D_done\<rparr>)"
proof -
  let ?s = "s\<lparr>pl_output := pl_output s @ [Output_end t], pl_dispatcher := D_done\<rparr>"
  from assms(1,2) obtain c n fin where o: "output_inv s c" and pl: "place_inv cfg s c n fin"
    and live: "live_inv cfg s" by (auto simp: pipeline_inv_def live_inv_def)
  have out: "pl_output s = map Job_item [c..<length (pl_jobs s)]" "ends_run (pl_run s) = []"
    using output_before_end [OF o] assms(3) by simp_all
  have "output_inv ?s c"
    using out by (auto simp: output_inv_def intro!: exI [of _ "[t]"])
  moreover have "flow_inv cfg ?s"
    by (rule flow_inv_moved [of cfg s]) (use live out assms(3) in \<open>simp_all add: live_inv_def flow_def assembled_def\<close>)
  moreover have "bounds_inv cfg ?s"
    using assms by (auto simp: pipeline_inv_def bounds_inv_def slot_held_def)
  ultimately show ?thesis
    using assms live pl by (auto simp: pipeline_inv_def live_inv_def slot_held_def)
qed

lemma dispatcher_step_inv:
  assumes "pipeline_inv cfg s" and "dispatcher_step cfg s = Some s'"
  shows "pipeline_inv cfg s'"
proof -
  have nc: "T_dispatcher \<notin> set (pl_cancelling s)" using assms(2) by (simp add: dispatcher_step_def split: if_splits)
  have act: "pl_dispatcher s \<noteq> D_done \<and> pl_dispatcher s \<noteq> D_cancelled"
    using assms(2) by (auto simp: dispatcher_step_def split: if_splits)
  then have live: "\<not> pl_stopping s"
    using assms(1) nc by (auto simp: pipeline_inv_def ending_inv_def dispatcher_over_def)
  note move = dispatcher_move_inv [OF assms(1) live]
  show ?thesis
  proof (cases "pl_dispatcher s")
    case D_get
    then show ?thesis
      using assms(2) nc act
      by (auto simp: dispatcher_step_def slot_held_def split: list.splits production_item.splits
          intro!: move [where m = "pl_slots s"])
  next
    case (D_acquire g)
    then have "0 < pl_slots s" "s' = s\<lparr>pl_segments := pl_segments s, pl_dispatcher := D_put_job g, pl_slots := pl_slots s - 1\<rparr>"
      using assms(2) nc by (auto simp: dispatcher_step_def split: if_splits)
    then show ?thesis
      using D_acquire by (intro move [where q = "pl_segments s" and d = "D_put_job g" and m = "pl_slots s - 1"]) (simp_all add: slot_held_def)
  next
    case (D_put_job g)
    then show ?thesis
      using assms(2) nc dispatch_job_inv [OF assms(1) live] by (auto simp: dispatcher_step_def split: if_splits)
  next
    case (D_put_end t)
    then show ?thesis
      using assms(2) nc dispatch_end_inv [OF assms(1) live] by (auto simp: dispatcher_step_def split: if_splits)
  qed (use act in auto)
qed

section \<open>Synthesis\<close>

text \<open>A step of one synthesis task: its job keeps its segment and its place.\<close>

lemma place_inv_job:
  assumes "place_inv cfg s c n fin" and "k < length (pl_jobs s)" and "jb_segment j = jb_segment (pl_jobs s ! k)"
    and "\<And>current. job_place current c n fin k (pl_jobs s ! k) \<Longrightarrow> job_place current c n fin k j"
  shows "place_inv cfg (s\<lparr>pl_jobs := (pl_jobs s)[k := j]\<rparr>) c n fin"
proof -
  have "map jb_segment (take m ((pl_jobs s)[k := j])) = map jb_segment (take m (pl_jobs s))" for m
    using assms(2,3) by (intro nth_equalityI) (auto simp: nth_list_update)
  then show ?thesis
    using assms by (auto simp: place_inv_def nth_list_update cong: run_state.case_cong)
qed

lemma map_segment_update:
  "k < length js \<Longrightarrow> jb_segment j = jb_segment (js ! k) \<Longrightarrow> map jb_segment (js[k := j]) = map jb_segment js"
  by (metis list_update_id map_update)

lemma flow_inv_job:
  assumes "flow_inv cfg s" and "k < length (pl_jobs s)" and "jb_segment j = jb_segment (pl_jobs s ! k)"
  shows "flow_inv cfg (s\<lparr>pl_jobs := (pl_jobs s)[k := j]\<rparr>)"
  by (rule flow_inv_moved [OF assms(1)])
    (use map_segment_update [OF assms(2,3)] in \<open>simp_all add: flow_def assembled_def del: map_map\<close>)

lemma job_step_inv:
  assumes "pipeline_inv cfg s" and k: "k < length (pl_jobs s)" and t: "T_synthesis k \<notin> set (pl_cancelling s)"
    and "jb_segment j = jb_segment (pl_jobs s ! k)"
    and "length (jb_audio j) \<le> pg_audio_queue_capacity cfg"
    and "jb_task (pl_jobs s ! k) \<noteq> S_done" and "m + (if jb_task j = S_done then 0 else 1) = pl_slots s + 1"
    and "\<And>current c n fin. job_place current c n fin k (pl_jobs s ! k) \<Longrightarrow> job_place current c n fin k j"
    and "pl_stopping s \<Longrightarrow> jb_task j = S_done \<or> (\<exists>e x y. jb_task j = S_put (Audio_failed e) x y)"
    and s': "s' = s\<lparr>pl_jobs := (pl_jobs s)[k := j], pl_slots := m\<rparr>"
  shows "pipeline_inv cfg s'"
proof -
  have ac: "m + active ((pl_jobs s)[k := j]) = pl_slots s + active (pl_jobs s)"
    using active_update [OF k, of j] assms(6,7) by (auto split: if_splits)
  have "text_inv cfg s'" "published_inv cfg s'"
    using assms(1) by (simp_all add: pipeline_inv_def s')
  moreover have "bounds_inv cfg s'"
    using assms(1,5) ac set_update_subset_insert [of "pl_jobs s" k j] unfolding s'
    by (auto simp: pipeline_inv_def bounds_inv_def)
  moreover have "tasks_inv s'"
    using assms(1,6) t k unfolding s' by (auto simp: pipeline_inv_def tasks_inv_def nth_list_update)
  moreover have "ending_inv cfg s'" if "pl_stopping s"
    using assms(1,9) that k unfolding s' by (auto simp: pipeline_inv_def ending_inv_def nth_list_update)
  moreover have "live_inv cfg s'" if "\<not> pl_stopping s"
  proof -
    from assms(1) that obtain c n fin where o: "output_inv s c" and pl: "place_inv cfg s c n fin"
      and live: "live_inv cfg s" by (auto simp: pipeline_inv_def live_inv_def)
    have "output_inv s' c" using o unfolding s' by (simp add: output_inv_def)
    moreover have "place_inv cfg s' c n fin"
      using place_inv_job [OF pl k assms(4,8)] unfolding s' by simp
    moreover have "flow_inv cfg s'"
      using flow_inv_job [OF _ k assms(4)] live unfolding s' by (simp add: live_inv_def)
    ultimately show ?thesis
      using live ac unfolding live_inv_def s' by auto
  qed
  ultimately show ?thesis
    by (simp add: pipeline_inv_def s')
qed

lemma synthesis_receive_busy [simp]: "synthesis_receive g m f r \<noteq> S_done"
  by (auto simp: synthesis_receive_def split: speech_reply.splits option.splits)

lemma stopping_task:
  assumes "pipeline_inv cfg s" and "pl_stopping s" and "k < length (pl_jobs s)" and "T_synthesis k \<notin> set (pl_cancelling s)"
  shows "jb_task (pl_jobs s ! k) = S_done \<or> (\<exists>e n f. jb_task (pl_jobs s ! k) = S_put (Audio_failed e) n f)"
  using assms by (auto simp: pipeline_inv_def ending_inv_def)

lemma job_audio_bound:
  "pipeline_inv cfg s \<Longrightarrow> k < length (pl_jobs s) \<Longrightarrow> length (jb_audio (pl_jobs s ! k)) \<le> pg_audio_queue_capacity cfg"
  by (auto simp: pipeline_inv_def bounds_inv_def)

lemma synthesis_reply_inv:
  assumes "pipeline_inv cfg s" and "synthesis_reply k r s = Some s'"
  shows "pipeline_inv cfg s'"
proof -
  let ?j = "pl_jobs s ! k"
  obtain n f where k: "k < length (pl_jobs s)" "T_synthesis k \<notin> set (pl_cancelling s)" and t: "jb_task ?j = S_speech n f"
    using assms(2) by (auto simp: synthesis_reply_def Let_def split: synthesis.splits if_splits)
  have live: "\<not> pl_stopping s" using stopping_task [OF assms(1) _ k] t by auto
  have s': "s' = s\<lparr>pl_jobs := (pl_jobs s)[k := ?j\<lparr>jb_task := synthesis_receive (jb_segment ?j) n f r\<rparr>], pl_slots := pl_slots s\<rparr>"
    using assms(2) k t live by (auto simp: synthesis_reply_def Let_def set_job_def)
  show ?thesis
    by (rule job_step_inv [OF assms(1) k _ _ _ _ _ _ s'])
      (use t live job_audio_bound [OF assms(1) k(1)] in \<open>simp_all add: job_place_receive\<close>)
qed

lemma synthesis_step_inv:
  assumes "pipeline_inv cfg s" and "synthesis_step cfg k s = Some s'"
  shows "pipeline_inv cfg s'"
proof -
  let ?j = "pl_jobs s ! k"
  obtain i n f where k: "k < length (pl_jobs s)" "T_synthesis k \<notin> set (pl_cancelling s)" and t: "jb_task ?j = S_put i n f"
    and len: "length (jb_audio ?j) < pg_audio_queue_capacity cfg"
    using assms(2) by (auto simp: synthesis_step_def Let_def split: synthesis.splits if_splits)
  let ?t = "case i of Chunk_item c \<Rightarrow> S_speech n f | _ \<Rightarrow> S_done"
  let ?m = "if ?t = S_done then pl_slots s + 1 else pl_slots s"
  have s': "s' = s\<lparr>pl_jobs := (pl_jobs s)[k := ?j\<lparr>jb_audio := jb_audio ?j @ [i], jb_task := ?t\<rparr>], pl_slots := ?m\<rparr>"
    using assms(2) k t len
    by (auto simp: synthesis_step_def Let_def set_job_def end_synthesis_def split: audio_item.splits)
  have err: "?t = S_done" if "pl_stopping s"
    using stopping_task [OF assms(1) that k] t by auto
  show ?thesis
    by (rule job_step_inv [OF assms(1) k _ _ _ _ _ _ s'])
      (use t len job_place_put [OF _ t] err in auto)
qed

section \<open>The generator\<close>

definition base_inv :: "pipeline_config \<Rightarrow> pipeline \<Rightarrow> bool" where
  "base_inv cfg s \<longleftrightarrow> text_inv cfg s \<and> bounds_inv cfg s \<and> tasks_inv s \<and> published_inv cfg s"

lemma base_inv_frame [simp]:
  "base_inv cfg (s\<lparr>pl_run := r\<rparr>) = base_inv cfg s"
  by (simp add: base_inv_def)

lemma pipeline_inv_base: "pipeline_inv cfg s \<Longrightarrow> base_inv cfg s"
  by (simp add: pipeline_inv_def base_inv_def)

lemma base_inv_output:
  "base_inv cfg s \<Longrightarrow> pl_output s = i # rest \<Longrightarrow> base_inv cfg (s\<lparr>pl_output := rest\<rparr>)"
  by (simp add: base_inv_def bounds_inv_def)

lemma base_inv_audio:
  assumes "base_inv cfg s" and k: "k < length (pl_jobs s)" and "jb_audio (pl_jobs s ! k) = i # rest"
  shows "base_inv cfg (s\<lparr>pl_jobs := (pl_jobs s)[k := (pl_jobs s ! k)\<lparr>jb_audio := rest\<rparr>]\<rparr>)"
proof -
  let ?j = "(pl_jobs s ! k)\<lparr>jb_audio := rest\<rparr>"
  have "active ((pl_jobs s)[k := ?j]) = active (pl_jobs s)"
    using active_update [OF k, of ?j] by (auto split: if_splits)
  moreover have "length rest \<le> pg_audio_queue_capacity cfg"
    using assms(1,3) bspec [OF _ nth_mem [OF k], of "\<lambda>j. length (jb_audio j) \<le> pg_audio_queue_capacity cfg"]
    by (simp add: base_inv_def bounds_inv_def)
  ultimately have "bounds_inv cfg (s\<lparr>pl_jobs := (pl_jobs s)[k := ?j]\<rparr>)"
    using assms(1) set_update_subset_insert [of "pl_jobs s" k ?j] by (auto simp: base_inv_def bounds_inv_def)
  moreover have "tasks_inv (s\<lparr>pl_jobs := (pl_jobs s)[k := ?j]\<rparr>)"
    using assms(1) k by (auto simp: base_inv_def tasks_inv_def nth_list_update)
  ultimately show ?thesis
    using assms(1) by (simp add: base_inv_def)
qed

lemma clean_up_cancelling [simp]:
  "T_producer \<in> set (pl_cancelling (clean_up r s)) \<longleftrightarrow> \<not> producer_over (pl_producer s)"
  "T_dispatcher \<in> set (pl_cancelling (clean_up r s)) \<longleftrightarrow> \<not> dispatcher_over (pl_dispatcher s)"
  "T_synthesis k \<in> set (pl_cancelling (clean_up r s)) \<longleftrightarrow> k \<in> set (pl_tasks s) \<and> \<not> synthesis_over s k"
  unfolding clean_up_def by (cases "producer_over (pl_producer s)"; cases "dispatcher_over (pl_dispatcher s)"; auto)+

lemma clean_up_inv:
  assumes "base_inv cfg s"
  shows "pipeline_inv cfg (clean_up r s)"
proof -
  have t: "tasks_inv s" using assms by (simp add: base_inv_def)
  have same: "pl_jobs (clean_up r s) = pl_jobs s" "pl_tasks (clean_up r s) = pl_tasks s"
    "pl_producer (clean_up r s) = pl_producer s" "pl_dispatcher (clean_up r s) = pl_dispatcher s"
    "pl_run (clean_up r s) = Cleaning r" "pl_stopping (clean_up r s)"
    by (simp_all add: clean_up_def)
  have "tasks_inv (clean_up r s)"
    using t by (auto simp: tasks_inv_def same synthesis_over_def)
  moreover have "ending_inv cfg (clean_up r s)"
    using t by (simp add: tasks_inv_def ending_inv_def same synthesis_over_def)
  ultimately show ?thesis
    using assms same(6) by (simp add: pipeline_inv_def base_inv_def) (simp add: clean_up_def)
qed

lemma publish_inv:
  assumes "base_inv cfg s"
    and "check_active s = None \<Longrightarrow> pipeline_inv cfg (s\<lparr>pl_published := pl_published s @ [ev], pl_run := nxt\<rparr>)"
  shows "pipeline_inv cfg (publish ev nxt s)"
  using assms by (auto simp: publish_def clean_up_inv split: option.splits)

text \<open>The segments of the jobs are a prefix of what the assembler emitted, so they are numbered.\<close>

lemma flow_jobs:
  assumes "flow_inv cfg s"
  obtains zs stop where "assembled s = map jb_segment (pl_jobs s) @ zs" "flow s = map Segment_item zs @ stop"
    "tail_ok cfg (producing (pl_producer s)) (assembled s) (pl_deltas s) stop" "stop = [] \<or> (\<exists>t. stop = [Terminal_item t])"
proof -
  from assms obtain stop where stop: "map Segment_item (map jb_segment (pl_jobs s)) @ flow s = map Segment_item (assembled s) @ stop"
    "tail_ok cfg (producing (pl_producer s)) (assembled s) (pl_deltas s) stop" by (auto simp: flow_inv_def)
  then have *: "stop = [] \<or> (\<exists>t. stop = [Terminal_item t])" by (auto simp: tail_ok_def split: if_splits)
  from segments_prefix [OF stop(1) this] show ?thesis using that stop(2) * by blast
qed

lemma job_sequence:
  assumes "flow_inv cfg s" and "text_inv cfg s" and "k < length (pl_jobs s)"
  shows "sg_sequence (jb_segment (pl_jobs s ! k)) = k"
proof -
  obtain zs where "assembled s = map jb_segment (pl_jobs s) @ zs" using flow_jobs [OF assms(1)] by metis
  then have "assembled s ! k = jb_segment (pl_jobs s ! k)" "k < length (assembled s)"
    using assms(3) by (simp_all add: nth_append)
  then show ?thesis
    using assms(2) by (auto simp: text_inv_def assembled_def segments_ok_def split: option.splits)
qed

lemma take_job_inv:
  assumes "pipeline_inv cfg s" and live: "\<not> pl_stopping s" and r: "pl_run s = Waiting None"
    and "pl_output s = Job_item k # rest"
  shows "pipeline_inv cfg (take_output cfg (Job_item k) (s\<lparr>pl_output := rest\<rparr>))"
proof -
  from assms(1) live obtain c n fin where o: "output_inv s c" and pl: "place_inv cfg s c n fin"
    and lv: "live_inv cfg s" and tinv: "text_inv cfg s" by (auto simp: pipeline_inv_def live_inv_def)
  from o assms(4) have ck: "k = c" "c < length (pl_jobs s)"
    by (auto simp: output_inv_def upt_eq_Cons_conv Cons_eq_append_conv map_eq_Cons_conv)
  then have o': "output_inv (s\<lparr>pl_output := rest, pl_published := e, pl_run := At_get (Some c)\<rparr>) (Suc c)" for e
    using o assms(4) r by (auto simp: output_inv_def upt_conv_Cons)
  let ?g = "jb_segment (pl_jobs s ! c)"
  let ?ev = "SegmentReady (pg_turn_id cfg) (pg_generation cfg) ?g"
  let ?s = "s\<lparr>pl_output := rest, pl_published := pl_published s @ [?ev], pl_run := At_get (Some c)\<rparr>"
  have "sg_sequence ?g = c" using job_sequence [OF _ tinv ck(2)] lv by (simp add: live_inv_def)
  then have f: "followed cfg (pl_published s @ [?ev]) = Some (Open (map jb_segment (take (Suc c) (pl_jobs s))) 0 False)"
    using pl r ck(2) by (simp add: place_inv_def current_job_def follow_snoc take_Suc_conv_app_nth)
  have pl': "place_inv cfg ?s (Suc c) 0 False"
    using pl r ck(2) f by (auto simp: place_inv_def current_job_def job_place_def)
  have "flow_inv cfg ?s"
    by (rule flow_inv_moved [of cfg s]) (use lv r assms(4) in \<open>simp_all add: live_inv_def flow_def assembled_def\<close>)
  moreover have "base_inv cfg ?s"
    using base_inv_output [OF pipeline_inv_base [OF assms(1)] assms(4)] f by (auto simp: base_inv_def published_inv_def)
  ultimately have "pipeline_inv cfg ?s"
    using lv o' pl' live unfolding pipeline_inv_def base_inv_def live_inv_def by auto
  then show ?thesis
    using base_inv_output [OF pipeline_inv_base [OF assms(1)] assms(4)] ck(1)
    by (simp add: take_output_def publish_inv)
qed

lemma take_end_inv:
  assumes "pipeline_inv cfg s" and live: "\<not> pl_stopping s" and r: "pl_run s = Waiting None"
    and q: "pl_output s = Output_end t # rest"
  shows "pipeline_inv cfg (take_output cfg (Output_end t) (s\<lparr>pl_output := rest\<rparr>))"
proof (cases t)
  case (Stage_failed e)
  then show ?thesis
    using base_inv_output [OF pipeline_inv_base [OF assms(1)] q] by (simp add: take_output_def clean_up_inv)
next
  case (Production_finished p)
  from assms(1) live obtain c n fin where o: "output_inv s c" and pl: "place_inv cfg s c n fin"
    and lv: "live_inv cfg s" by (auto simp: pipeline_inv_def live_inv_def)
  let ?s = "s\<lparr>pl_output := rest, pl_run := Joining p\<rparr>"
  have "flow_inv cfg s" using lv by (simp add: live_inv_def)
  then obtain zs stop where fl: "flow s = map Segment_item zs @ stop" "stop = [] \<or> (\<exists>t. stop = [Terminal_item t])"
    by (rule flow_jobs)
  have "flow s = Terminal_item t # (out_ends rest @ held (pl_dispatcher s) @ pl_segments s @ pending (pl_producer s))"
    using q r by (simp add: flow_def)
  from terminal_last [OF this [symmetric, unfolded fl(1)] fl(2)] have "out_ends rest = []" by simp
  then have "rest = []" and d: "pl_dispatcher s = D_done"
    using o q by (auto simp: output_inv_def upt_eq_Cons_conv Cons_eq_append_conv map_eq_Cons_conv Cons_eq_map_conv)
  moreover have "c = length (pl_jobs s)"
    using o pl q by (auto simp: output_inv_def place_inv_def Cons_eq_append_conv map_eq_Cons_conv Cons_eq_map_conv)
  ultimately have "output_inv ?s c"
    using o by (auto simp: output_inv_def)
  moreover have "place_inv cfg ?s c n fin"
    using pl r by (auto simp: place_inv_def current_job_def)
  moreover have "flow_inv cfg ?s"
    by (rule flow_inv_moved [of cfg s]) (use lv r q Production_finished in \<open>simp_all add: live_inv_def flow_def assembled_def\<close>)
  ultimately have "pipeline_inv cfg ?s"
    using lv live base_inv_output [OF pipeline_inv_base [OF assms(1)] q]
    unfolding pipeline_inv_def base_inv_def live_inv_def by auto
  then show ?thesis using Production_finished by (simp add: take_output_def)
qed

lemma take_audio_inv:
  assumes "pipeline_inv cfg s" and live: "\<not> pl_stopping s" and r: "pl_run s = Waiting (Some k)"
    and k: "k < length (pl_jobs s)" and a: "jb_audio (pl_jobs s ! k) = i # rest"
  shows "pipeline_inv cfg (take_audio cfg k i (set_job k ((pl_jobs s ! k)\<lparr>jb_audio := rest\<rparr>) s))"
proof -
  let ?j = "(pl_jobs s ! k)\<lparr>jb_audio := rest\<rparr>"
  let ?s = "s\<lparr>pl_jobs := (pl_jobs s)[k := ?j]\<rparr>"
  have base: "base_inv cfg ?s"
    using base_inv_audio [OF pipeline_inv_base [OF assms(1)] k a] .
  from assms(1) live obtain c n fin where o: "output_inv s c" and pl: "place_inv cfg s c n fin"
    and lv: "live_inv cfg s" by (auto simp: pipeline_inv_def live_inv_def)
  have segs: "map jb_segment (take m ((pl_jobs s)[k := ?j])) = map jb_segment (take m (pl_jobs s))" for m
    using k by (intro nth_equalityI) (auto simp: nth_list_update)
  have "job_place (Some k) (Suc k) n fin k (pl_jobs s ! k)"
    using pl r k by (auto simp: place_inv_def current_job_def)
  then have job: "job_ok (jb_segment (pl_jobs s ! k)) n fin (i # rest) (jb_task (pl_jobs s ! k))"
    using a by (simp add: job_place_def)
  have c: "c = Suc k" and ph: "followed cfg (pl_published s) = Some (Open (map jb_segment (take (Suc k) (pl_jobs s))) n fin)"
    using pl r by (auto simp: place_inv_def current_job_def)
  have move: "pipeline_inv cfg (?s\<lparr>pl_published := pub, pl_run := At_get w\<rparr>)"
    if "place_inv cfg (?s\<lparr>pl_published := pub, pl_run := At_get w\<rparr>) c n' fin'"
      "base_inv cfg (?s\<lparr>pl_published := pub, pl_run := At_get w\<rparr>)" for pub w n' fin'
  proof -
    let ?t = "?s\<lparr>pl_published := pub, pl_run := At_get w\<rparr>"
    have "active ((pl_jobs s)[k := ?j]) = active (pl_jobs s)"
      using active_update [OF k, of ?j] by (auto split: if_splits)
    moreover have "output_inv ?t c" using o r by (simp add: output_inv_def)
    moreover have "flow_inv cfg ?t"
      by (rule flow_inv_moved [of cfg s])
        (use lv r map_segment_update [OF k, of ?j] in \<open>simp_all add: live_inv_def flow_def assembled_def del: map_map\<close>)
    ultimately show ?thesis
      using that lv live unfolding pipeline_inv_def base_inv_def live_inv_def by auto
  qed
  show ?thesis
  proof (cases i)
    case (Chunk_item x)
    let ?ev = "SegmentAudioReady (pg_turn_id cfg) (pg_generation cfg) (jb_segment (pl_jobs s ! k)) x"
    have f: "followed cfg (pl_published s @ [?ev]) =
        Some (Open (map jb_segment (take (Suc k) (pl_jobs s))) (Suc n) (ac_is_final x))"
      using ph job Chunk_item k by (simp add: follow_snoc take_Suc_conv_app_nth)
    have "place_inv cfg (?s\<lparr>pl_published := pl_published s @ [?ev], pl_run := At_get (Some k)\<rparr>) c (Suc n) (ac_is_final x)"
      using pl r f c job Chunk_item k segs
      by (auto simp: place_inv_def current_job_def job_place_def nth_list_update)
    moreover have "base_inv cfg (?s\<lparr>pl_published := pl_published s @ [?ev], pl_run := At_get (Some k)\<rparr>)"
      using base f by (auto simp: base_inv_def published_inv_def)
    ultimately have "pipeline_inv cfg (?s\<lparr>pl_published := pl_published s @ [?ev], pl_run := At_get (Some k)\<rparr>)"
      by (rule move)
    then show ?thesis
      using base k Chunk_item by (auto simp: take_audio_def set_job_def intro!: publish_inv)
  next
    case Synthesis_finished
    have "place_inv cfg (?s\<lparr>pl_published := pl_published s, pl_run := At_get None\<rparr>) c n fin"
      using pl r c job Synthesis_finished k segs
      by (auto simp: place_inv_def current_job_def job_place_def nth_list_update less_Suc_eq)
    moreover have "base_inv cfg (?s\<lparr>pl_published := pl_published s, pl_run := At_get None\<rparr>)"
      using base by (simp add: base_inv_def published_inv_def)
    ultimately have "pipeline_inv cfg (?s\<lparr>pl_published := pl_published s, pl_run := At_get None\<rparr>)"
      by (rule move)
    then show ?thesis using Synthesis_finished by (simp add: take_audio_def set_job_def)
  next
    case (Audio_failed e)
    then show ?thesis using base by (simp add: take_audio_def set_job_def clean_up_inv)
  qed
qed

lemma complete_inv:
  assumes "pipeline_inv cfg s" and live: "\<not> pl_stopping s" and r: "pl_run s = Joining p" and over: "tasks_over s"
  shows "pipeline_inv cfg
    (s\<lparr>pl_published := pl_published s @ [UtteranceCompleted (pg_turn_id cfg) (pg_generation cfg) p],
       pl_run := Completed_published p\<rparr>)"
proof -
  let ?ev = "UtteranceCompleted (pg_turn_id cfg) (pg_generation cfg) p"
  let ?s = "s\<lparr>pl_published := pl_published s @ [?ev], pl_run := Completed_published p\<rparr>"
  from assms(1) live obtain c n fin where o: "output_inv s c" and pl: "place_inv cfg s c n fin"
    and lv: "live_inv cfg s" by (auto simp: pipeline_inv_def live_inv_def)
  have c: "c = length (pl_jobs s)" using o pl r by (auto simp: output_inv_def place_inv_def)
  have "flow_inv cfg s" using lv by (simp add: live_inv_def)
  then obtain zs stop where fl: "assembled s = map jb_segment (pl_jobs s) @ zs" "flow s = map Segment_item zs @ stop"
    "tail_ok cfg (producing (pl_producer s)) (assembled s) (pl_deltas s) stop" "stop = [] \<or> (\<exists>t. stop = [Terminal_item t])"
    by (rule flow_jobs)
  have "flow s = Terminal_item (Production_finished p) # (out_ends (pl_output s) @ held (pl_dispatcher s) @ pl_segments s @ pending (pl_producer s))"
    using r by (simp add: flow_def)
  from terminal_last [OF this [symmetric, unfolded fl(2)] fl(4)]
  have zs: "zs = []" "stop = [Terminal_item (Production_finished p)]" by simp_all
  then have plan: "up_segments p = map jb_segment (pl_jobs s)" "up_turn_id p = pg_turn_id cfg" "up_generation p = pg_generation cfg"
    "visible (spoken (up_segments p)) = visible (concat (pl_deltas s))"
    using fl(1,3) by (auto simp: tail_ok_def split: if_splits)
  have "followed cfg (pl_published s) = Some (Open (map jb_segment (pl_jobs s)) n True)"
    using pl r c by (auto simp: place_inv_def current_job_def)
  then have f: "followed cfg (pl_published s @ [?ev]) = Some Shut"
    using plan by (simp add: follow_snoc)
  have "place_inv cfg ?s c n fin"
    using pl r f by (auto simp: place_inv_def current_job_def)
  moreover have "output_inv ?s c" using o r by (auto simp: output_inv_def)
  moreover have "flow_inv cfg ?s"
    by (rule flow_inv_moved [of cfg s]) (use lv r in \<open>simp_all add: live_inv_def flow_def assembled_def\<close>)
  moreover have "base_inv cfg ?s"
  proof -
    have "producer_over (pl_producer s)" using over by (simp add: tasks_over_def)
    then show ?thesis
      using pipeline_inv_base [OF assms(1)] f plan(4) by (auto simp: base_inv_def published_inv_def)
  qed
  ultimately show ?thesis
    using lv live unfolding pipeline_inv_def base_inv_def live_inv_def by auto
qed

lemma run_wait_inv:
  assumes "pipeline_inv cfg s" and "\<not> pl_stopping s" and r: "pl_run s = At_get w"
  shows "pipeline_inv cfg (s\<lparr>pl_run := Waiting w\<rparr>)"
proof -
  let ?s = "s\<lparr>pl_run := Waiting w\<rparr>"
  from assms(1,2) obtain c n fin where o: "output_inv s c" and pl: "place_inv cfg s c n fin"
    and lv: "live_inv cfg s" by (auto simp: pipeline_inv_def live_inv_def)
  have "flow_inv cfg ?s"
    by (rule flow_inv_moved [of cfg s]) (use lv r in \<open>simp_all add: live_inv_def flow_def assembled_def\<close>)
  moreover have "output_inv ?s c" using o r by (simp add: output_inv_def)
  moreover have "place_inv cfg ?s c n fin" using pl r by (simp add: place_inv_def current_job_def)
  ultimately show ?thesis
    using assms lv unfolding pipeline_inv_def live_inv_def by auto
qed

lemma live_run:
  assumes "pipeline_inv cfg s"
  shows "pl_stopping s \<longleftrightarrow> (\<exists>r. pl_run s = Cleaning r \<or> pl_run s = Ended r)"
  using assms by (auto simp: pipeline_inv_def live_inv_def ending_inv_def split: if_splits)

lemma run_step_cases:
  assumes "run_step cfg s = Some s'"
  obtains (clean) e where "s' = clean_up (Raised e) s"
    | (returned) p where "pl_run s = Completed_published p" "s' = clean_up Returned s"
    | (wait) w where "pl_run s = At_get w" "s' = s\<lparr>pl_run := Waiting w\<rparr>"
    | (item) i rest where "pl_run s = Waiting None" "pl_output s = i # rest"
        "s' = take_output cfg i (s\<lparr>pl_output := rest\<rparr>)"
    | (audio) k i rest where "pl_run s = Waiting (Some k)" "k < length (pl_jobs s)" "jb_audio (pl_jobs s ! k) = i # rest"
        "s' = take_audio cfg k i (set_job k ((pl_jobs s ! k)\<lparr>jb_audio := rest\<rparr>) s)"
    | (complete) p where "pl_run s = Joining p" "tasks_over s"
        "s' = publish (UtteranceCompleted (pg_turn_id cfg) (pg_generation cfg) p) (Completed_published p) s"
    | (ended) r where "pl_run s = Cleaning r" "tasks_over s" "s' = s\<lparr>pl_run := Ended r\<rparr>"
proof (cases "pl_run s")
  case (At_get w)
  with assms clean wait show thesis by (auto simp: run_step_def split: if_splits)
next
  case (Waiting w)
  show thesis
  proof (cases w)
    case None
    with assms Waiting item show thesis by (auto simp: run_step_def split: list.splits)
  next
    case (Some k)
    with assms Waiting audio show thesis by (auto simp: run_step_def Let_def split: list.splits if_splits)
  qed
next
  case (Joining p)
  with assms have "(\<exists>e. s' = clean_up (Raised e) s) \<or> tasks_over s \<and>
      s' = publish (UtteranceCompleted (pg_turn_id cfg) (pg_generation cfg) p) (Completed_published p) s"
    unfolding run_step_def by (cases "pl_producer s") (auto split: if_splits)
  with Joining clean complete show thesis by blast
next
  case (Completed_published p)
  with assms returned show thesis by (auto simp: run_step_def)
next
  case (Cleaning r)
  with assms ended show thesis by (auto simp: run_step_def split: if_splits)
next
  case (Ended r)
  with assms show thesis by (simp add: run_step_def)
qed

lemma run_step_inv:
  assumes "pipeline_inv cfg s" and "run_step cfg s = Some s'"
  shows "pipeline_inv cfg s'"
  using assms(2)
proof (cases rule: run_step_cases)
  case (wait w)
  then show ?thesis using run_wait_inv [OF assms(1)] live_run [OF assms(1)] by simp
next
  case (item i rest)
  then show ?thesis
    using take_job_inv [OF assms(1)] take_end_inv [OF assms(1)] live_run [OF assms(1)] by (cases i) auto
next
  case (audio k i rest)
  then show ?thesis using take_audio_inv [OF assms(1)] live_run [OF assms(1)] by simp
next
  case (complete p)
  then show ?thesis
    using publish_inv [OF pipeline_inv_base [OF assms(1)] complete_inv [OF assms(1)]] live_run [OF assms(1)] by simp
next
  case (ended r)
  then have "pl_stopping s" using live_run [OF assms(1)] by simp
  moreover have "ending_inv cfg (s\<lparr>pl_run := Ended r\<rparr>)" if "ending_inv cfg s"
    using that by (simp add: ending_inv_def)
  ultimately show ?thesis
    using assms(1) ended(3) by (simp add: pipeline_inv_def)
qed (simp_all add: clean_up_inv pipeline_inv_base [OF assms(1)])

lemma run_interrupted_inv:
  "pipeline_inv cfg s \<Longrightarrow> run_interrupted s = Some s' \<Longrightarrow> pipeline_inv cfg s'"
  by (auto simp: run_interrupted_def clean_up_inv pipeline_inv_base split: run_state.splits if_splits)

lemma run_abandoned_inv:
  "pipeline_inv cfg s \<Longrightarrow> run_abandoned s = Some s' \<Longrightarrow> pipeline_inv cfg s'"
  by (auto simp: run_abandoned_def clean_up_inv pipeline_inv_base split: run_state.splits)

section \<open>Cancellation of the tasks\<close>

lemma deliver_inv_parts:
  assumes "pipeline_inv cfg s" and "T \<in> set (pl_cancelling s)"
  shows "pl_stopping s" "text_inv cfg s" "bounds_inv cfg s" "tasks_inv s" "published_inv cfg s" "ending_inv cfg s"
  using assms by (auto simp: pipeline_inv_def live_inv_def split: if_splits)

lemma deliver_producer_inv:
  assumes "pipeline_inv cfg s" and c: "T_producer \<in> set (pl_cancelling s)"
    and p: "(\<exists>e. p = P_raised e) \<or> pl_producer s = P_model \<and> (\<exists>e. p = P_put [Terminal_item (Stage_failed e)] True)"
  shows "pipeline_inv cfg (s\<lparr>pl_cancelling := removeAll T_producer (pl_cancelling s), pl_producer := p\<rparr>)"
proof -
  let ?s = "s\<lparr>pl_cancelling := removeAll T_producer (pl_cancelling s), pl_producer := p\<rparr>"
  note inv = deliver_inv_parts [OF assms(1) c]
  have "\<not> producer_over (pl_producer s)" using inv(6) c by (simp add: ending_inv_def)
  then have "published_inv cfg ?s" using inv(5) by (auto simp: published_inv_def)
  moreover have "text_inv cfg ?s"
    using inv(2) p by (auto simp: text_inv_def split: option.splits)
  moreover have "tasks_inv ?s" using inv(4) by (simp add: tasks_inv_def)
  moreover have "ending_inv cfg ?s" using inv(6) p by (auto simp: ending_inv_def)
  ultimately show ?thesis
    using inv(1,3) by (simp add: pipeline_inv_def)
qed

lemma deliver_dispatcher_inv:
  assumes "pipeline_inv cfg s" and c: "T_dispatcher \<in> set (pl_cancelling s)"
  shows "pipeline_inv cfg (s\<lparr>pl_cancelling := removeAll T_dispatcher (pl_cancelling s), pl_dispatcher := D_cancelled\<rparr>)"
proof -
  let ?s = "s\<lparr>pl_cancelling := removeAll T_dispatcher (pl_cancelling s), pl_dispatcher := D_cancelled\<rparr>"
  note inv = deliver_inv_parts [OF assms(1) c]
  have "tasks_inv ?s" using inv(4) by (simp add: tasks_inv_def)
  moreover have "bounds_inv cfg ?s" using inv(3) by (simp add: bounds_inv_def slot_held_def)
  moreover have "ending_inv cfg ?s" using inv(6) by (auto simp: ending_inv_def dispatcher_over_def)
  ultimately show ?thesis
    using inv(1,2,5) by (simp add: pipeline_inv_def)
qed

lemma deliver_synthesis_inv:
  assumes "pipeline_inv cfg s" and c: "T_synthesis k \<in> set (pl_cancelling s)"
    and j: "jb_segment j = jb_segment (pl_jobs s ! k)" "jb_audio j = jb_audio (pl_jobs s ! k)"
    and t: "jb_task j = S_done \<and> m = pl_slots s + 1 \<or> (\<exists>e x y. jb_task j = S_put (Audio_failed e) x y) \<and> m = pl_slots s"
    and s': "s' = s\<lparr>pl_cancelling := removeAll (T_synthesis k) (pl_cancelling s), pl_jobs := (pl_jobs s)[k := j], pl_slots := m\<rparr>"
  shows "pipeline_inv cfg s'"
proof -
  let ?s = "s\<lparr>pl_cancelling := removeAll (T_synthesis k) (pl_cancelling s)\<rparr>"
  note inv = deliver_inv_parts [OF assms(1) c]
  have k: "k < length (pl_jobs s)" "jb_task (pl_jobs s ! k) \<noteq> S_done"
    using inv(4) c by (auto simp: tasks_inv_def)
  have ac: "m + active ((pl_jobs s)[k := j]) = pl_slots s + active (pl_jobs s)"
    using active_update [OF k(1), of j] k(2) t by (auto split: if_splits)
  have "length (jb_audio j) \<le> pg_audio_queue_capacity cfg"
    using job_audio_bound [OF assms(1) k(1)] j(2) by simp
  then have "bounds_inv cfg s'"
    using inv(3) ac set_update_subset_insert [of "pl_jobs s" k j] unfolding s' by (auto simp: bounds_inv_def)
  moreover have "tasks_inv s'"
    using inv(4) k t unfolding s' by (auto simp: tasks_inv_def nth_list_update)
  moreover have "ending_inv cfg s'"
    using inv(6) k t unfolding s' by (auto simp: ending_inv_def nth_list_update)
  ultimately show ?thesis
    using inv(1,2,5) by (simp add: pipeline_inv_def s')
qed

lemma deliver_cancel_inv:
  assumes "pipeline_inv cfg s" and "deliver_cancel t raised s = Some s'"
  shows "pipeline_inv cfg s'"
proof (cases t)
  case T_producer
  have c: "T_producer \<in> set (pl_cancelling s)"
    using assms(2) T_producer by (auto simp: deliver_cancel_def split: if_splits)
  show ?thesis
    using assms(2) T_producer c deliver_inv_parts(1) [OF assms(1) c]
    by (auto simp: deliver_cancel_def Let_def producer_except_def split: if_splits
        intro!: deliver_producer_inv [OF assms(1) c])
next
  case T_dispatcher
  then show ?thesis
    using assms by (auto simp: deliver_cancel_def Let_def deliver_dispatcher_inv split: if_splits)
next
  case (T_synthesis k)
  have c: "T_synthesis k \<in> set (pl_cancelling s)"
    using assms(2) T_synthesis by (auto simp: deliver_cancel_def split: if_splits)
  let ?j = "pl_jobs s ! k"
  let ?c = "removeAll (T_synthesis k) (pl_cancelling s)"
  let ?e = "case raised of None \<Rightarrow> Task_cancelled | Some e \<Rightarrow> e"
  have k: "k < length (pl_jobs s)"
    using deliver_inv_parts(4) [OF assms(1) c] c by (auto simp: tasks_inv_def)
  note move = deliver_synthesis_inv [OF assms(1) c]
  have "s' = end_synthesis k ?j (s\<lparr>pl_cancelling := ?c\<rparr>) \<or>
    (\<exists>n f. s' = set_job k (?j\<lparr>jb_task := S_put (Audio_failed ?e) n f\<rparr>) (s\<lparr>pl_cancelling := ?c\<rparr>))"
    using assms(2) T_synthesis c k unfolding deliver_cancel_def Let_def
    by (cases "jb_task ?j"; cases "?e = Task_cancelled") (simp_all, blast)
  then consider (over) "s' = end_synthesis k ?j (s\<lparr>pl_cancelling := ?c\<rparr>)"
    | (failed) n f where "s' = set_job k (?j\<lparr>jb_task := S_put (Audio_failed ?e) n f\<rparr>) (s\<lparr>pl_cancelling := ?c\<rparr>)"
    by blast
  then show ?thesis
  proof cases
    case over
    then show ?thesis
      by (intro move [of "?j\<lparr>jb_task := S_done\<rparr>" "pl_slots s + 1"]) (simp_all add: end_synthesis_def set_job_def)
  next
    case failed
    then show ?thesis
      by (intro move [of "?j\<lparr>jb_task := S_put (Audio_failed ?e) n f\<rparr>" "pl_slots s"]) (simp_all add: set_job_def)
  qed
qed

section \<open>The system\<close>

lemmas pipeline_step_invs = producer_reply_inv synthesis_reply_inv producer_step_inv dispatcher_step_inv synthesis_step_inv
  run_step_inv run_interrupted_inv deliver_cancel_inv run_abandoned_inv

lemma pipeline_step_inv:
  assumes "pipeline_inv cfg s" and "pipeline_step cfg s p = Some s'"
  shows "pipeline_inv cfg s'"
  using assms(2) unfolding pipeline_step_def
  by (cases p; simp only: pipeline_op.case)
    (erule pipeline_step_invs [OF assms(1)] | use assms(1) in \<open>auto split: if_splits\<close>)+

interpretation pipe: op_system "pipeline_apply cfg" "pipeline_inv cfg" for cfg
  by unfold_locales (auto simp: pipeline_apply_def pipeline_step_inv split: option.splits)

lemma pipeline_run_eq: "pipeline_run cfg s ps = pipe.run cfg s ps"
  by (simp add: pipeline_run_def pipe.run_def)

lemma run_begin_inv:
  assumes "run_begin cfg cancelled current = Inr s"
  shows "pipeline_inv cfg s" "pl_published s = []" "pl_run s = At_get None" "\<not> pl_stopping s"
proof -
  have s: "s = \<lparr>pl_cancelled = (pg_has_token cfg \<and> cancelled), pl_current = current,
        pl_assembler = None, pl_completion = None, pl_producer = P_start, pl_segments = [],
        pl_dispatcher = D_get, pl_slots = pg_max_concurrent_synthesis cfg, pl_output = [],
        pl_jobs = [], pl_tasks = [], pl_stopping = False, pl_cancelling = [], pl_run = At_get None,
        pl_published = [], pl_deltas = []\<rparr>"
    using assms by (simp add: run_begin_def Let_def split: option.splits)
  show "pipeline_inv cfg s"
    by (simp add: s pipeline_inv_def text_inv_def bounds_inv_def tasks_inv_def published_inv_def live_inv_def
        flow_inv_def flow_def tail_ok_def assembled_def output_inv_def place_inv_def current_job_def slot_held_def)
      blast
  show "pl_published s = []" "pl_run s = At_get None" "\<not> pl_stopping s"
    by (simp_all add: s)
qed

end
