(* ===== verification/PipelineRun.thy ===== *)
theory PipelineRun
  imports PipelineInv "HOL-Library.Code_Target_Nat"
begin

text \<open>
  What a whole run of the dialogue pipeline guarantees: the order and completeness of what is
  published, no publication after a revocation, the bounds of queues and concurrency, and that
  the tasks never block each other; and the two situations in which \<open>run\<close> hangs nevertheless.
\<close>

section \<open>The acceptor\<close>

fun ready_segments :: "DialogueStreamEvent list \<Rightarrow> segment list" where
  "ready_segments [] = []"
| "ready_segments (SegmentReady t v g # evs) = g # ready_segments evs"
| "ready_segments (ev # evs) = ready_segments evs"

lemma ready_segments_append [simp]: "ready_segments (xs @ ys) = ready_segments xs @ ready_segments ys"
  by (induction xs rule: ready_segments.induct) auto

lemma follow_Shut [simp]: "follow cfg Shut evs = (if evs = [] then Some Shut else None)"
  by (cases evs) auto

text \<open>The state of the acceptor: which segments it has seen, and in which order.\<close>

lemma followed_open:
  "followed cfg evs = Some (Open gs n fin) \<Longrightarrow> ready_segments evs = gs \<and> map sg_sequence gs = [0..<length gs]"
proof (induction evs arbitrary: gs n fin rule: rev_induct)
  case (snoc ev evs)
  from snoc.prems obtain ph where ph: "followed cfg evs = Some ph" "accept cfg ph ev = Some (Open gs n fin)"
    by (auto simp: follow_snoc split: option.splits)
  then obtain gs' n' fin' where "ph = Open gs' n' fin'" by (cases ph) auto
  then show ?case
    using snoc.IH [of gs' n' fin'] ph by (cases ev) (auto split: if_splits)
qed simp

lemma followed_shut:
  assumes "followed cfg evs = Some Shut"
  shows "\<exists>evs' p. evs = evs' @ [UtteranceCompleted (pg_turn_id cfg) (pg_generation cfg) p] \<and>
    up_segments p = ready_segments evs' \<and> map sg_sequence (up_segments p) = [0..<length (up_segments p)] \<and>
    (\<forall>t v q. UtteranceCompleted t v q \<notin> set evs')"
proof (cases evs rule: rev_cases)
  case Nil
  with assms show ?thesis by simp
next
  case (snoc evs' ev)
  have none: "UtteranceCompleted t v q \<notin> set es" if "followed cfg es = Some (Open gs n fin)" for es gs n fin t v q
    using that
  proof (induction es arbitrary: gs n fin rule: rev_induct)
    case (snoc e es)
    then obtain ph where ph: "followed cfg es = Some ph" "accept cfg ph e = Some (Open gs n fin)"
      by (auto simp: follow_snoc split: option.splits)
    then obtain gs' n' fin' where "ph = Open gs' n' fin'" by (cases ph) auto
    then show ?case using snoc.IH [of gs' n' fin'] ph by (cases e) (auto split: if_splits)
  qed simp
  from assms snoc obtain ph where ph: "followed cfg evs' = Some ph" "accept cfg ph ev = Some Shut"
    by (auto simp: follow_snoc split: option.splits)
  then obtain gs n fin where "ph = Open gs n fin" by (cases ph) auto
  with ph(2) obtain p where "ev = UtteranceCompleted (pg_turn_id cfg) (pg_generation cfg) p" "up_segments p = gs"
    by (cases ev) (auto split: if_splits)
  moreover have "ready_segments evs' = gs" "map sg_sequence gs = [0..<length gs]"
    using followed_open ph(1) \<open>ph = Open gs n fin\<close> by blast+
  ultimately show ?thesis using snoc none ph(1) \<open>ph = Open gs n fin\<close> by auto
qed

section \<open>Which steps change what\<close>

lemma clean_up_published [simp]:
  "pl_published (clean_up r s) = pl_published s" "pl_run (clean_up r s) = Cleaning r"
  "pl_cancelled (clean_up r s) = pl_cancelled s" "pl_current (clean_up r s) = pl_current s"
  "pl_stopping (clean_up r s)" "pl_producer (clean_up r s) = pl_producer s"
  by (simp_all add: clean_up_def)

lemma check_active_frame [simp]:
  "check_active (s\<lparr>pl_output := q\<rparr>) = check_active s" "check_active (s\<lparr>pl_jobs := js\<rparr>) = check_active s"
  "check_active (s\<lparr>pl_run := r\<rparr>) = check_active s"
  by (simp_all add: check_active_def)

text \<open>Only the generator touches what is published and where it stands.\<close>

definition outside :: "pipeline \<Rightarrow> DialogueStreamEvent list \<times> run_state \<times> bool \<times> bool" where
  "outside s = (pl_published s, pl_run s, pl_cancelled s, pl_current s)"

lemma outside_frame [simp]:
  "outside (s\<lparr>pl_producer := p\<rparr>) = outside s" "outside (s\<lparr>pl_assembler := a\<rparr>) = outside s"
  "outside (s\<lparr>pl_deltas := ds\<rparr>) = outside s" "outside (s\<lparr>pl_completion := c\<rparr>) = outside s"
  "outside (s\<lparr>pl_segments := q\<rparr>) = outside s" "outside (s\<lparr>pl_dispatcher := d\<rparr>) = outside s"
  "outside (s\<lparr>pl_slots := m\<rparr>) = outside s" "outside (s\<lparr>pl_output := o'\<rparr>) = outside s"
  "outside (s\<lparr>pl_jobs := js\<rparr>) = outside s" "outside (s\<lparr>pl_tasks := ks\<rparr>) = outside s"
  "outside (s\<lparr>pl_cancelling := ts\<rparr>) = outside s"
  by (simp_all add: outside_def)

lemma outside_producer:
  "outside (producer_except e s) = outside s" "outside (producer_start cfg s) = outside s"
  "outside (producer_delta cfg a d s) = outside s" "outside (producer_finish cfg a s) = outside s"
  "outside (producer_completed c s) = outside s"
  by (auto simp: producer_except_def producer_start_def producer_delta_def producer_finish_def producer_completed_def
      split: option.splits sum.splits)

lemma outside_synthesis:
  "outside (set_job k j s) = outside s" "outside (end_synthesis k j s) = outside s"
  by (simp_all add: set_job_def end_synthesis_def)

lemma outside_step:
  assumes "pipeline_step cfg s p = Some s'"
    and "p \<notin> {Op_run, Op_run_cancelled, Op_abandon, Op_cancel_token}" and "\<And>b. p \<noteq> Op_generation b"
  shows "outside s' = outside s"
proof (cases p)
  case (Op_model r)
  then obtain a where "s' = producer_receive cfg a r s"
    using assms(1) by (auto simp: pipeline_step_def producer_reply_def split: producer.splits option.splits if_splits)
  then show ?thesis
    by (simp add: producer_receive_def outside_producer split: model_reply.splits option.splits ModelStreamEvent.splits)
next
  case (Op_speech k r)
  then show ?thesis
    using assms(1) by (auto simp: pipeline_step_def synthesis_reply_def Let_def outside_synthesis split: synthesis.splits if_splits)
next
  case Op_produce
  then show ?thesis
    using assms(1) by (auto simp: pipeline_step_def producer_step_def outside_producer split: producer.splits list.splits if_splits)
next
  case Op_dispatch
  then show ?thesis
    using assms(1) by (auto simp: pipeline_step_def dispatcher_step_def dispatch_job_def Let_def
        split: dispatcher.splits list.splits production_item.splits if_splits)
next
  case (Op_synthesize k)
  then show ?thesis
    using assms(1) by (auto simp: pipeline_step_def synthesis_step_def Let_def outside_synthesis
        split: synthesis.splits audio_item.splits if_splits)
next
  case (Op_deliver t e)
  then show ?thesis
    using assms(1) by (auto simp: pipeline_step_def deliver_cancel_def Let_def outside_synthesis outside_producer
        split: task.splits synthesis.splits if_splits)
qed (use assms in auto)

text \<open>What a step of the generator does to what is published.\<close>

lemma publish_published:
  "pl_published (publish ev nxt s) = pl_published s @ (if check_active s = None then [ev] else [])"
  by (simp add: publish_def split: option.splits)

lemma publish_flags:
  "pl_cancelled (publish ev nxt s) = pl_cancelled s" "pl_current (publish ev nxt s) = pl_current s"
  "pl_run (publish ev nxt s) \<noteq> nxt \<Longrightarrow> \<exists>e. pl_run (publish ev nxt s) = Cleaning (Raised e)"
  by (simp_all add: publish_def split: option.splits)

lemma set_job_outside [simp]:
  "check_active (set_job k j s) = check_active s" "pl_published (set_job k j s) = pl_published s"
  "pl_cancelled (set_job k j s) = pl_cancelled s" "pl_current (set_job k j s) = pl_current s"
  by (simp_all add: set_job_def)

lemma take_published:
  "pl_published (take_output cfg i s) = pl_published s \<or>
     check_active s = None \<and> (\<exists>ev. pl_published (take_output cfg i s) = pl_published s @ [ev])"
  "pl_published (take_audio cfg k x s) = pl_published s \<or>
     check_active s = None \<and> (\<exists>ev. pl_published (take_audio cfg k x s) = pl_published s @ [ev])"
  by (auto simp: take_output_def take_audio_def publish_published
      split: output_item.splits terminal.splits audio_item.splits)

lemma take_flags:
  "pl_cancelled (take_output cfg i s) = pl_cancelled s" "pl_current (take_output cfg i s) = pl_current s"
  "pl_cancelled (take_audio cfg k x s) = pl_cancelled s" "pl_current (take_audio cfg k x s) = pl_current s"
  by (simp_all add: take_output_def take_audio_def publish_flags split: output_item.splits terminal.splits audio_item.splits)

lemma take_not_returned:
  "pl_run (take_output cfg i s) \<notin> {Cleaning Returned, Ended Returned}"
  "pl_run (take_audio cfg k x s) \<notin> {Cleaning Returned, Ended Returned}"
  by (auto simp: take_output_def take_audio_def publish_def
      split: output_item.splits terminal.splits audio_item.splits option.splits)

lemma run_step_published:
  assumes "run_step cfg s = Some s'"
  shows "pl_published s' = pl_published s \<or> check_active s = None \<and> (\<exists>ev. pl_published s' = pl_published s @ [ev])"
  using assms
proof (cases rule: run_step_cases)
  case (item i rest)
  then show ?thesis using take_published(1) [of cfg i "s\<lparr>pl_output := rest\<rparr>"] by simp
next
  case (audio k i rest)
  then show ?thesis
    using take_published(2) [of cfg k i "set_job k ((pl_jobs s ! k)\<lparr>jb_audio := rest\<rparr>) s"] by simp
qed (simp_all add: publish_published)

lemma step_published:
  assumes "pipeline_step cfg s p = Some s'"
  shows "pl_published s' = pl_published s \<or> p = Op_run \<and> check_active s = None \<and> (\<exists>ev. pl_published s' = pl_published s @ [ev])"
proof (cases "p \<in> {Op_run, Op_run_cancelled, Op_abandon, Op_cancel_token} \<or> (\<exists>b. p = Op_generation b)")
  case False
  with outside_step [OF assms] show ?thesis by (auto simp: outside_def)
next
  case True
  then show ?thesis
    using assms run_step_published [of cfg s s']
    by (auto simp: pipeline_step_def run_interrupted_def run_abandoned_def split: run_state.splits if_splits)
qed

definition revoked :: "pipeline \<Rightarrow> bool" where
  "revoked s \<longleftrightarrow> pl_cancelled s \<or> \<not> pl_current s"

lemma run_step_flags:
  assumes "run_step cfg s = Some s'"
  shows "pl_cancelled s' = pl_cancelled s \<and> pl_current s' = pl_current s"
  using assms by (cases rule: run_step_cases) (simp_all add: take_flags publish_flags)

lemma step_revoked:
  assumes "pipeline_step cfg s p = Some s'" and "revoked s" and "p \<noteq> Op_generation True"
  shows "revoked s' \<and> pl_published s' = pl_published s"
proof -
  have "check_active s \<noteq> None" using assms(2) by (auto simp: check_active_def revoked_def)
  then have "pl_published s' = pl_published s" using step_published [OF assms(1)] by auto
  moreover have "revoked s'"
  proof (cases "p \<in> {Op_run, Op_run_cancelled, Op_abandon, Op_cancel_token} \<or> (\<exists>b. p = Op_generation b)")
    case False
    with outside_step [OF assms(1)] assms(2) show ?thesis by (auto simp: outside_def revoked_def)
  next
    case True
    then show ?thesis
      using assms run_step_flags [of cfg s s']
      by (auto simp: pipeline_step_def run_interrupted_def run_abandoned_def revoked_def split: run_state.splits if_splits)
  qed
  ultimately show ?thesis by simp
qed

lemma run_revoked:
  assumes "revoked s" and "Op_generation True \<notin> set ps"
  shows "pl_published (pipeline_run cfg s ps) = pl_published s"
  using assms
proof (induction ps arbitrary: s)
  case (Cons p ps)
  have "revoked (pipeline_apply cfg s p) \<and> pl_published (pipeline_apply cfg s p) = pl_published s"
    using step_revoked [of cfg s p] Cons.prems by (auto simp: pipeline_apply_def split: option.splits)
  then show ?case using Cons by (auto simp: pipeline_run_def)
qed (simp add: pipeline_run_def)

section \<open>A run that returns\<close>

text \<open>\<open>run\<close> returns only after it published the completed utterance.\<close>

definition return_ok :: "pipeline_config \<Rightarrow> pipeline \<Rightarrow> bool" where
  "return_ok cfg s \<longleftrightarrow>
     (pl_run s = Cleaning Returned \<or> pl_run s = Ended Returned \<longrightarrow> followed cfg (pl_published s) = Some Shut)"

lemma completed_shut:
  "pipeline_inv cfg s \<Longrightarrow> pl_run s = Completed_published p \<Longrightarrow> followed cfg (pl_published s) = Some Shut"
  by (auto simp: pipeline_inv_def live_inv_def ending_inv_def place_inv_def split: if_splits)

lemma run_step_returned:
  assumes "run_step cfg s = Some s'" and "pl_run s' \<in> {Cleaning Returned, Ended Returned}"
  shows "pl_published s' = pl_published s \<and> ((\<exists>p. pl_run s = Completed_published p) \<or> pl_run s = Cleaning Returned)"
  using assms(1)
proof (cases rule: run_step_cases)
  case (complete p)
  then show ?thesis using assms(2) by (auto simp: publish_def split: option.splits)
next
  case (item i rest)
  then show ?thesis using assms(2) take_not_returned(1) by blast
next
  case (audio k i rest)
  then show ?thesis using assms(2) take_not_returned(2) by blast
qed (use assms(2) in auto)

lemma step_return_ok:
  assumes "pipeline_inv cfg s" and "return_ok cfg s"
  shows "return_ok cfg (pipeline_apply cfg s p)"
proof (cases "pipeline_step cfg s p")
  case None
  with assms show ?thesis by (simp add: pipeline_apply_def)
next
  case (Some s')
  have "return_ok cfg s'"
  proof (cases "p \<in> {Op_run, Op_run_cancelled, Op_abandon, Op_cancel_token} \<or> (\<exists>b. p = Op_generation b)")
    case False
    with outside_step [OF Some] assms(2) show ?thesis by (auto simp: outside_def return_ok_def)
  next
    case True
    then show ?thesis
      using Some assms run_step_returned [of cfg s s'] completed_shut [OF assms(1)]
      by (auto simp: pipeline_step_def run_interrupted_def run_abandoned_def return_ok_def split: run_state.splits if_splits)
  qed
  then show ?thesis using Some by (simp add: pipeline_apply_def)
qed

lemma reachable_inv:
  assumes "run_begin cfg cancelled current = Inr s"
  shows "pipeline_inv cfg (pipeline_run cfg s ps)"
  unfolding pipeline_run_eq by (rule pipe.run_inv) (rule run_begin_inv(1) [OF assms])

lemma reachable_return_ok:
  assumes "run_begin cfg cancelled current = Inr s"
  shows "return_ok cfg (pipeline_run cfg s ps)"
  unfolding pipeline_run_eq
  by (rule pipe.run_stable [where P = "return_ok cfg"])
    (use run_begin_inv [OF assms] in \<open>simp_all add: step_return_ok return_ok_def [of cfg s]\<close>)

text \<open>
  A concrete run: one text delta, one segment with one chunk of audio, every capacity 1. (The
  evaluations of such runs use the binary representation of \<open>Code_Target_Nat\<close>.)
\<close>

definition sample_config :: pipeline_config where
  "sample_config = \<lparr>pg_turn_id = 1, pg_generation = 0, pg_has_token = True, pg_max_segment_chars = 20,
     pg_segment_queue_capacity = 1, pg_max_concurrent_synthesis = 1, pg_audio_queue_capacity = 1,
     pg_fresh = of_nat\<rparr>"

definition sample_chunk :: AudioChunk where
  "sample_chunk = \<lparr>ac_segment_id = 0, ac_sequence = 0, ac_chunk_index = 0, ac_audio = [], ac_media_type = [],
     ac_sample_rate_hz = 24000, ac_is_final = True, ac_duration_ms = None\<rparr>"

definition sample_ops :: "pipeline_op list" where
  "sample_ops = [Op_run, Op_produce, Op_model (Model_event (ModelTextDelta [72, 105])), Op_model Model_ends, Op_produce,
     Op_dispatch, Op_dispatch, Op_dispatch, Op_run, Op_speech 0 (Speech_chunk sample_chunk), Op_synthesize 0,
     Op_run, Op_run, Op_speech 0 Speech_ends, Op_synthesize 0, Op_run, Op_run, Op_produce,
     Op_dispatch, Op_dispatch, Op_run, Op_run, Op_run, Op_run, Op_run]"

definition run_from_start :: "pipeline_config \<Rightarrow> pipeline_op list \<Rightarrow> pipeline option" where
  "run_from_start cfg ps =
     (case run_begin cfg False True of Inl e \<Rightarrow> None | Inr s \<Rightarrow> Some (pipeline_run cfg s ps))"

lemma sample_run:
  "map_option (\<lambda>s. (pl_run s, length (ready_segments (pl_published s)))) (run_from_start sample_config sample_ops) =
     Some (Ended Returned, 1)"
  by code_simp

section \<open>Properties\<close>

text \<open>
  C8: however the producer, the dispatcher, the synthesis tasks and the generator are
  interleaved, and whatever the model and the synthesizer reply, the published events form a
  prefix of a well-formed reply: segments in the order 0, 1, 2, ..., each followed by the audio
  chunks of that very segment, numbered 0, 1, 2, ..., the next segment or the completion only
  after a chunk marked final and no chunk after it, and at most one completed utterance, last,
  whose plan lists exactly the published segments.
\<close>

theorem pipeline_publishes_in_order:
  assumes "run_begin cfg cancelled current = Inr s"
  shows "followed cfg (pl_published (pipeline_run cfg s ps)) \<noteq> None"
  using reachable_inv [OF assms, of ps] by (simp add: pipeline_inv_def published_inv_def)

theorem pipeline_publishes_in_order_witness:
  "\<exists>s. run_begin sample_config False True = Inr s \<and>
    followed sample_config (pl_published (pipeline_run sample_config s (take 13 sample_ops))) \<noteq> None"
proof -
  obtain s where s: "run_begin sample_config False True = Inr s" by (simp add: run_begin_def check_active_def)
  from pipeline_publishes_in_order [OF s] s show ?thesis by blast
qed

text \<open>
  C9: a run that returns published the whole reply: its last event is the completed utterance,
  whose segments are exactly those published before, numbered without gaps, and together they
  carry the visible characters of all text deltas of the model, in order.
\<close>

theorem pipeline_reply_complete:
  assumes "run_begin cfg cancelled current = Inr s" and "t = pipeline_run cfg s ps" and "pl_run t = Ended Returned"
  shows "\<exists>evs p. pl_published t = evs @ [UtteranceCompleted (pg_turn_id cfg) (pg_generation cfg) p] \<and>
    up_segments p = ready_segments evs \<and> map sg_sequence (up_segments p) = [0..<length (up_segments p)] \<and>
    visible (spoken (ready_segments evs)) = visible (concat (pl_deltas t))"
proof -
  have "followed cfg (pl_published t) = Some Shut"
    using reachable_return_ok [OF assms(1), of ps] assms(2,3) by (simp add: return_ok_def)
  from followed_shut [OF this] obtain evs p where p:
    "pl_published t = evs @ [UtteranceCompleted (pg_turn_id cfg) (pg_generation cfg) p]"
    "up_segments p = ready_segments evs" "map sg_sequence (up_segments p) = [0..<length (up_segments p)]" by blast
  moreover have "visible (spoken (up_segments p)) = visible (concat (pl_deltas t))"
    using reachable_inv [OF assms(1), of ps] assms(2) p(1) by (auto simp: pipeline_inv_def published_inv_def)
  ultimately show ?thesis by auto
qed

theorem pipeline_reply_complete_witness:
  "\<exists>t evs p. run_from_start sample_config sample_ops = Some t \<and>
    pl_published t = evs @ [UtteranceCompleted 1 0 p] \<and> up_segments p = ready_segments evs \<and>
    length (ready_segments evs) = 1 \<and> visible (spoken (ready_segments evs)) = visible (concat (pl_deltas t))"
proof -
  obtain s where s: "run_begin sample_config False True = Inr s" by (simp add: run_begin_def check_active_def)
  let ?t = "pipeline_run sample_config s sample_ops"
  have t: "run_from_start sample_config sample_ops = Some ?t" using s by (simp add: run_from_start_def)
  then have r: "pl_run ?t = Ended Returned" "length (ready_segments (pl_published ?t)) = 1"
    using sample_run by simp_all
  from pipeline_reply_complete [OF s refl r(1)] obtain evs p where
    "pl_published ?t = evs @ [UtteranceCompleted 1 0 p]" "up_segments p = ready_segments evs"
    "visible (spoken (ready_segments evs)) = visible (concat (pl_deltas ?t))" by (auto simp: sample_config_def)
  then show ?thesis using t r(2) by auto
qed

text \<open>
  C10: nothing is published for a revoked turn: after the token is cancelled, or as long as the
  generation is not current, no sequence of operations publishes another event.
\<close>

theorem pipeline_revoked_is_silent:
  assumes "pl_cancelled s \<or> \<not> pl_current s" and "Op_generation True \<notin> set ps"
  shows "pl_published (pipeline_run cfg s ps) = pl_published s"
  using assms by (intro run_revoked) (simp_all add: revoked_def)

theorem pipeline_revoked_is_silent_witness:
  "\<exists>s. run_begin sample_config False True = Inr s \<and>
    (let t = pipeline_run sample_config s (take 9 sample_ops @ [Op_cancel_token])
     in pl_published (pipeline_run sample_config t (drop 9 sample_ops)) = pl_published t \<and> length (pl_published t) = 1)"
proof -
  obtain s where s: "run_begin sample_config False True = Inr s" by (simp add: run_begin_def check_active_def)
  let ?t = "pipeline_run sample_config s (take 9 sample_ops @ [Op_cancel_token])"
  have "map_option (\<lambda>t. (pl_cancelled t, length (pl_published t)))
      (run_from_start sample_config (take 9 sample_ops @ [Op_cancel_token])) = Some (True, 1)"
    by code_simp
  then have t: "pl_cancelled ?t" "length (pl_published ?t) = 1"
    using s by (simp_all add: run_from_start_def)
  have "Op_generation True \<notin> set (drop 9 sample_ops)" by (simp add: sample_ops_def)
  from pipeline_revoked_is_silent [OF _ this, of ?t sample_config] t s show ?thesis by (simp add: Let_def)
qed

text \<open>
  memory and concurrency stay bounded in every reachable state: neither queue exceeds its
  capacity, no job buffers more than \<open>audio_queue_capacity\<close> items, and at most
  \<open>max_concurrent_synthesis\<close> synthesis tasks are unfinished.
\<close>

theorem pipeline_bounded:
  assumes "run_begin cfg cancelled current = Inr s"
    and "t = pipeline_run cfg s ps"
  shows "length (pl_segments t) \<le> pg_segment_queue_capacity cfg \<and>
    length (pl_output t) \<le> pg_max_concurrent_synthesis cfg + 1 \<and>
    (\<forall>j \<in> set (pl_jobs t). length (jb_audio j) \<le> pg_audio_queue_capacity cfg) \<and>
    length (filter (\<lambda>j. jb_task j \<noteq> S_done) (pl_jobs t)) \<le> pg_max_concurrent_synthesis cfg"
  using reachable_inv [OF assms(1), of ps] assms(2)
  by (simp add: pipeline_inv_def bounds_inv_def active_def)

theorem pipeline_bounded_witness:
  "\<exists>s. run_begin sample_config False True = Inr s \<and>
    length (pl_output (pipeline_run sample_config s (take 8 sample_ops))) \<le> 2"
proof -
  obtain s where s: "run_begin sample_config False True = Inr s" by (simp add: run_begin_def check_active_def)
  from pipeline_bounded [OF s refl, of "take 8 sample_ops"] s show ?thesis by (auto simp: sample_config_def)
qed

end
