(* ===== verification/PipelineLive.thy ===== *)
theory PipelineLive
  imports PipelineRun
begin

text \<open>
  The tasks of the dialogue pipeline never block each other: a measure that every internal step
  decreases, and an analysis of the states without an internal step. The two situations in which
  \<open>run\<close> hangs are stated as theorems of their own.
\<close>

section \<open>States without an internal step\<close>

text \<open>The steps that need nothing from outside.\<close>

fun internal :: "pipeline_op \<Rightarrow> bool" where
  "internal Op_produce = True"
| "internal Op_dispatch = True"
| "internal (Op_synthesize k) = True"
| "internal Op_run = True"
| "internal Op_run_cancelled = True"
| "internal (Op_deliver t None) = True"
| "internal _ = False"

definition waits_for_provider :: "pipeline \<Rightarrow> bool" where
  "waits_for_provider s \<longleftrightarrow>
     pl_producer s = P_model \<and> T_producer \<notin> set (pl_cancelling s) \<or>
     (\<exists>k < length (pl_jobs s). \<exists>n f. jb_task (pl_jobs s ! k) = S_speech n f \<and> T_synthesis k \<notin> set (pl_cancelling s))"

text \<open>
  In the \<open>finally\<close> clause: a task reports the error a provider raised on its cancellation, and
  the queue it puts the report into is full.
\<close>

definition report_blocked :: "pipeline_config \<Rightarrow> pipeline \<Rightarrow> bool" where
  "report_blocked cfg s \<longleftrightarrow> pl_stopping s \<and>
     ((\<exists>e. pl_producer s = P_put [Terminal_item (Stage_failed e)] True) \<and>
        length (pl_segments s) = pg_segment_queue_capacity cfg \<or>
      (\<exists>k < length (pl_jobs s). \<exists>e n f. jb_task (pl_jobs s ! k) = S_put (Audio_failed e) n f \<and>
        length (jb_audio (pl_jobs s ! k)) = pg_audio_queue_capacity cfg))"

definition settled :: "pipeline_config \<Rightarrow> pipeline \<Rightarrow> bool" where
  "settled cfg s \<longleftrightarrow> (\<exists>r. pl_run s = Ended r) \<or> waits_for_provider s \<or> report_blocked cfg s"

definition can_step :: "pipeline_config \<Rightarrow> pipeline \<Rightarrow> bool" where
  "can_step cfg s \<longleftrightarrow> (\<exists>p. internal p \<and> pipeline_step cfg s p \<noteq> None)"

lemma can_stepI: "pipeline_step cfg s p \<noteq> None \<Longrightarrow> internal p \<Longrightarrow> can_step cfg s"
  by (auto simp: can_step_def)

text \<open>The producer ends with an exception only when it is cancelled, if the assembler accepts its limit.\<close>

definition no_crash :: "pipeline \<Rightarrow> bool" where
  "no_crash s \<longleftrightarrow> (\<forall>e. pl_producer s = P_raised e \<longrightarrow> pl_stopping s)"

lemma no_crash_frame [simp]:
  "no_crash (s\<lparr>pl_assembler := a\<rparr>) = no_crash s" "no_crash (s\<lparr>pl_segments := q\<rparr>) = no_crash s"
  "no_crash (s\<lparr>pl_deltas := ds\<rparr>) = no_crash s" "no_crash (s\<lparr>pl_completion := c\<rparr>) = no_crash s"
  "no_crash (s\<lparr>pl_dispatcher := d\<rparr>) = no_crash s" "no_crash (s\<lparr>pl_slots := m\<rparr>) = no_crash s"
  "no_crash (s\<lparr>pl_output := o'\<rparr>) = no_crash s" "no_crash (s\<lparr>pl_jobs := js\<rparr>) = no_crash s"
  "no_crash (s\<lparr>pl_tasks := ks\<rparr>) = no_crash s" "no_crash (s\<lparr>pl_cancelling := ts\<rparr>) = no_crash s"
  "no_crash (s\<lparr>pl_run := r\<rparr>) = no_crash s" "no_crash (s\<lparr>pl_published := evs\<rparr>) = no_crash s"
  "no_crash (s\<lparr>pl_cancelled := b\<rparr>) = no_crash s" "no_crash (s\<lparr>pl_current := b\<rparr>) = no_crash s"
  "no_crash (clean_up res s)" "no_crash (set_job k j s) = no_crash s" "no_crash (end_synthesis k j s) = no_crash s"
  by (simp_all add: no_crash_def set_job_def end_synthesis_def)

lemma no_crash_producer [simp]:
  "no_crash (producer_except e s)" "no_crash (s\<lparr>pl_producer := P_model\<rparr>)"
  "no_crash (s\<lparr>pl_producer := P_put items l\<rparr>)" "no_crash (s\<lparr>pl_producer := P_diverged\<rparr>)"
  by (auto simp: no_crash_def producer_except_def)

lemma no_crash_next: "no_crash (s\<lparr>pl_producer := producer_next items l\<rparr>)"
  by (auto simp: no_crash_def producer_next_def)

lemma no_crash_receive: "no_crash s \<Longrightarrow> no_crash (producer_receive cfg a r s)"
  by (auto simp: producer_receive_def producer_delta_def producer_completed_def producer_finish_def
      no_crash_next split: model_reply.splits option.splits ModelStreamEvent.splits sum.splits)

lemma no_crash_publish: "no_crash s \<Longrightarrow> no_crash (publish ev nxt s)"
  by (simp add: publish_def split: option.splits)

lemma no_crash_take:
  "no_crash s \<Longrightarrow> no_crash (take_output cfg i s)" "no_crash s \<Longrightarrow> no_crash (take_audio cfg k x s)"
  by (simp_all add: take_output_def take_audio_def no_crash_publish
      split: output_item.splits terminal.splits audio_item.splits)

lemma no_crash_step:
  assumes "no_crash s" and "pipeline_step cfg s p = Some s'" and "20 \<le> pg_max_segment_chars cfg"
    and "pipeline_inv cfg s"
  shows "no_crash s'"
proof (cases p)
  case (Op_model r)
  then show ?thesis
    using assms by (auto simp: pipeline_step_def producer_reply_def no_crash_receive split: producer.splits option.splits if_splits)
next
  case (Op_speech k r)
  then show ?thesis
    using assms by (auto simp: pipeline_step_def synthesis_reply_def Let_def split: synthesis.splits if_splits)
next
  case Op_produce
  then show ?thesis
    using assms by (auto simp: pipeline_step_def producer_step_def producer_start_def assembler_init_def no_crash_next
        split: producer.splits list.splits if_splits)
next
  case Op_dispatch
  then show ?thesis
    using assms by (auto simp: pipeline_step_def dispatcher_step_def dispatch_job_def Let_def
        split: dispatcher.splits list.splits production_item.splits if_splits)
next
  case (Op_synthesize k)
  then show ?thesis
    using assms by (auto simp: pipeline_step_def synthesis_step_def Let_def split: synthesis.splits audio_item.splits if_splits)
next
  case Op_run
  then have "run_step cfg s = Some s'" using assms(2) by (simp add: pipeline_step_def)
  then show ?thesis
    using assms(1) by (cases rule: run_step_cases) (simp_all add: no_crash_take no_crash_publish)
next
  case Op_run_cancelled
  then show ?thesis using assms by (auto simp: pipeline_step_def run_interrupted_def split: run_state.splits if_splits)
next
  case (Op_deliver t e)
  then have "pl_stopping s" using assms(2) deliver_inv_parts(1) [OF assms(4)]
    by (auto simp: pipeline_step_def deliver_cancel_def split: if_splits)
  moreover have "pl_stopping s' = pl_stopping s"
    using assms(2) Op_deliver by (auto simp: pipeline_step_def deliver_cancel_def Let_def producer_except_def
        set_job_def end_synthesis_def split: task.splits synthesis.splits if_splits)
  ultimately show ?thesis by (simp add: no_crash_def)
next
  case Op_abandon
  then show ?thesis using assms by (auto simp: pipeline_step_def run_abandoned_def split: run_state.splits)
qed (use assms in \<open>auto simp: pipeline_step_def split: if_splits\<close>)

lemma reachable_no_crash:
  assumes "run_begin cfg cancelled current = Inr s" and "20 \<le> pg_max_segment_chars cfg"
  shows "no_crash (pipeline_run cfg s ps)"
  unfolding pipeline_run_eq
proof (rule pipe.run_stable)
  fix t p assume "pipeline_inv cfg t" "no_crash t"
  then show "no_crash (pipeline_apply cfg t p)"
    using no_crash_step [of t cfg p] assms(2) by (auto simp: pipeline_apply_def split: option.splits)
next
  show "no_crash s"
    using assms(1) by (auto simp: run_begin_def Let_def no_crash_def split: option.splits)
qed (rule run_begin_inv(1) [OF assms(1)])

section \<open>Progress while the generator runs\<close>

lemma all_jobs_done:
  assumes "place_inv cfg s c n fin" and "c = length (pl_jobs s)" and "current_job (pl_run s) = None"
  shows "i < length (pl_jobs s) \<Longrightarrow> jb_task (pl_jobs s ! i) = S_done" and "active (pl_jobs s) = 0"
proof -
  show *: "jb_task (pl_jobs s ! i) = S_done" if "i < length (pl_jobs s)" for i
    using assms that by (auto simp: place_inv_def job_place_def)
  then show "active (pl_jobs s) = 0"
    by (auto simp: active_def filter_empty_conv in_set_conv_nth)
qed

lemma job_waiting_progress:
  assumes "pipeline_inv cfg s" and "\<not> pl_stopping s" and r: "pl_run s = Waiting (Some k)" and "0 < pg_audio_queue_capacity cfg"
  shows "can_step cfg s \<or> waits_for_provider s"
proof -
  from assms(1,2) obtain c n fin where pl: "place_inv cfg s c n fin" and lv: "live_inv cfg s"
    by (auto simp: pipeline_inv_def live_inv_def)
  let ?j = "pl_jobs s ! k"
  have k: "k < length (pl_jobs s)" using pl r by (auto simp: place_inv_def current_job_def)
  then have "job_place (Some k) c n fin k ?j" using pl r by (auto simp: place_inv_def current_job_def)
  then have ok: "job_ok (jb_segment ?j) n fin (jb_audio ?j) (jb_task ?j)" by (simp add: job_place_def)
  show ?thesis
  proof (cases "jb_audio ?j")
    case Nil
    then consider (speech) m f where "jb_task ?j = S_speech m f" | (putting) i m f where "jb_task ?j = S_put i m f"
      using ok by (cases "jb_task ?j") auto
    then show ?thesis
    proof cases
      case speech
      then show ?thesis using k lv by (auto simp: waits_for_provider_def live_inv_def)
    next
      case putting
      then have "pipeline_step cfg s (Op_synthesize k) \<noteq> None"
        using k lv Nil assms(4) by (simp add: pipeline_step_def synthesis_step_def live_inv_def Let_def split: audio_item.splits)
      then show ?thesis using can_stepI by auto
    qed
  next
    case (Cons i rest)
    then have "pipeline_step cfg s Op_run \<noteq> None"
      using k r by (simp add: pipeline_step_def run_step_def Let_def)
    then show ?thesis using can_stepI by auto
  qed
qed

lemma producer_progress:
  assumes "pipeline_inv cfg s" and "\<not> pl_stopping s" and "no_crash s" and "pl_segments s = []"
    and "producing (pl_producer s) \<or> pending (pl_producer s) \<noteq> []" and "0 < pg_segment_queue_capacity cfg"
  shows "can_step cfg s \<or> waits_for_provider s"
proof -
  have lv: "pl_cancelling s = []" and t: "text_inv cfg s" using assms(1,2) by (simp_all add: pipeline_inv_def live_inv_def)
  consider "pl_producer s = P_model" | "pl_producer s = P_start" | i items l where "pl_producer s = P_put (i # items) l"
  proof (cases "pl_producer s")
    case (P_put items l)
    then show thesis using that t by (cases items) (auto simp: text_inv_def split: option.splits)
  qed (use assms(2,3,5) t that in \<open>auto simp: no_crash_def text_inv_def split: option.splits\<close>)
  then show ?thesis
  proof cases
    case 1
    then show ?thesis using lv by (simp add: waits_for_provider_def)
  next
    case 2
    then have "pipeline_step cfg s Op_produce \<noteq> None" using lv by (simp add: pipeline_step_def producer_step_def)
    then show ?thesis using can_stepI by auto
  next
    case 3
    then have "pipeline_step cfg s Op_produce \<noteq> None"
      using lv assms(4,6) by (simp add: pipeline_step_def producer_step_def)
    then show ?thesis using can_stepI by auto
  qed
qed

lemma output_waiting_progress:
  assumes "pipeline_inv cfg s" and "\<not> pl_stopping s" and "no_crash s" and r: "pl_run s = Waiting None"
    and "0 < pg_segment_queue_capacity cfg" and "0 < pg_max_concurrent_synthesis cfg"
  shows "can_step cfg s \<or> waits_for_provider s"
proof (cases "pl_output s")
  case (Cons i rest)
  then have "pipeline_step cfg s Op_run \<noteq> None" using r by (simp add: pipeline_step_def run_step_def)
  then show ?thesis using can_stepI by auto
next
  case Nil
  from assms(1,2) obtain c n fin where o: "output_inv s c" and pl: "place_inv cfg s c n fin" and lv: "live_inv cfg s"
    by (auto simp: pipeline_inv_def live_inv_def)
  have d: "pl_dispatcher s \<noteq> D_done" "pl_dispatcher s \<noteq> D_cancelled" using o Nil r by (auto simp: output_inv_def)
  have c: "c = length (pl_jobs s)" using output_before_end [OF o d(1)] pl Nil by (auto simp: place_inv_def)
  have nc: "T_dispatcher \<notin> set (pl_cancelling s)" using lv by (simp add: live_inv_def)
  have go: ?thesis if "dispatcher_step cfg s \<noteq> None"
    using that can_stepI [of cfg s Op_dispatch] by (simp add: pipeline_step_def)
  show ?thesis
  proof (cases "pl_dispatcher s")
    case D_get
    show ?thesis
    proof (cases "pl_segments s")
      case (Cons i rest)
      then show ?thesis using go D_get nc by (cases i) (auto simp: dispatcher_step_def)
    next
      case empty: Nil
      have "flow_inv cfg s" using lv by (simp add: live_inv_def)
      then obtain zs stop where "flow s = map Segment_item zs @ stop"
        "tail_ok cfg (producing (pl_producer s)) (assembled s) (pl_deltas s) stop" by (rule flow_jobs)
      then have "producing (pl_producer s) \<or> pending (pl_producer s) \<noteq> []"
        using empty Nil D_get r by (auto simp: flow_def tail_ok_def split: if_splits)
      then show ?thesis using producer_progress [OF assms(1-3) empty] assms(5) by blast
    qed
  next
    case (D_acquire g)
    have "pl_slots s = pg_max_concurrent_synthesis cfg"
      using lv D_acquire all_jobs_done(2) [OF pl c] r by (simp add: live_inv_def slot_held_def current_job_def)
    then show ?thesis using go D_acquire nc assms(6) by (simp add: dispatcher_step_def)
  qed (use go nc Nil d in \<open>simp_all add: dispatcher_step_def\<close>)
qed

lemma joining_progress:
  assumes "pipeline_inv cfg s" and "\<not> pl_stopping s" and r: "pl_run s = Joining p"
  shows "can_step cfg s"
proof -
  from assms(1,2) obtain c n fin where o: "output_inv s c" and pl: "place_inv cfg s c n fin" and lv: "live_inv cfg s"
    and t: "text_inv cfg s" and ts: "tasks_inv s" by (auto simp: pipeline_inv_def live_inv_def)
  have c: "c = length (pl_jobs s)" and d: "pl_dispatcher s = D_done"
    using o pl r by (auto simp: output_inv_def place_inv_def)
  have "flow_inv cfg s" using lv by (simp add: live_inv_def)
  then obtain zs stop where fl: "flow s = map Segment_item zs @ stop"
    "tail_ok cfg (producing (pl_producer s)) (assembled s) (pl_deltas s) stop" "stop = [] \<or> (\<exists>t. stop = [Terminal_item t])"
    by (rule flow_jobs)
  have "flow s = Terminal_item (Production_finished p) # (out_ends (pl_output s) @ held (pl_dispatcher s) @ pl_segments s @ pending (pl_producer s))"
    using r by (simp add: flow_def)
  from terminal_last [OF this [symmetric, unfolded fl(1)] fl(3)]
  have "pending (pl_producer s) = []" "stop \<noteq> []" by simp_all
  then have "pl_producer s = P_done"
    using fl(2) t by (cases "pl_producer s") (auto simp: tail_ok_def text_inv_def split: if_splits option.splits)
  moreover have "list_all (synthesis_over s) (pl_tasks s)"
    using ts all_jobs_done(1) [OF pl c] r by (auto simp: tasks_inv_def synthesis_over_def list_all_iff current_job_def)
  ultimately have "pipeline_step cfg s Op_run \<noteq> None"
    using d r by (simp add: pipeline_step_def run_step_def tasks_over_def dispatcher_over_def)
  then show ?thesis using can_stepI by auto
qed

section \<open>Progress of the clean-up\<close>

lemma cleaning_progress:
  assumes "pipeline_inv cfg s" and "pl_stopping s" and r: "pl_run s = Cleaning res"
  shows "can_step cfg s \<or> report_blocked cfg s"
proof -
  have e: "ending_inv cfg s" and ts: "tasks_inv s" and b: "bounds_inv cfg s"
    using assms(1,2) by (simp_all add: pipeline_inv_def)
  have deliver: "can_step cfg s" if "pipeline_step cfg s (Op_deliver t None) \<noteq> None" for t
    using that can_stepI by auto
  consider (producer) "\<not> producer_over (pl_producer s)" | (dispatcher) "\<not> dispatcher_over (pl_dispatcher s)"
    | (synthesis) k where "k \<in> set (pl_tasks s)" "\<not> synthesis_over s k" | (over) "tasks_over s"
    by (auto simp: tasks_over_def list_all_iff)
  then show ?thesis
  proof cases
    case producer
    show ?thesis
    proof (cases "T_producer \<in> set (pl_cancelling s)")
      case True
      then show ?thesis using deliver [of T_producer] by (simp add: pipeline_step_def deliver_cancel_def Let_def)
    next
      case False
      then obtain x where p: "pl_producer s = P_put [Terminal_item (Stage_failed x)] True"
        using e producer by (auto simp: ending_inv_def)
      show ?thesis
      proof (cases "length (pl_segments s) < pg_segment_queue_capacity cfg")
        case True
        then have "pipeline_step cfg s Op_produce \<noteq> None" using p False by (simp add: pipeline_step_def producer_step_def)
        then show ?thesis using can_stepI by auto
      next
        case full: False
        then show ?thesis using b p assms(2) by (auto simp: report_blocked_def bounds_inv_def)
      qed
    qed
  next
    case dispatcher
    then have "T_dispatcher \<in> set (pl_cancelling s)" using e by (simp add: ending_inv_def)
    then show ?thesis using deliver [of T_dispatcher] by (simp add: pipeline_step_def deliver_cancel_def Let_def)
  next
    case synthesis
    then have k: "k < length (pl_jobs s)" "jb_task (pl_jobs s ! k) \<noteq> S_done"
      using ts by (auto simp: tasks_inv_def synthesis_over_def)
    show ?thesis
    proof (cases "T_synthesis k \<in> set (pl_cancelling s)")
      case True
      then show ?thesis
        using k deliver [of "T_synthesis k"] by (auto simp: pipeline_step_def deliver_cancel_def Let_def split: synthesis.splits)
    next
      case False
      then obtain x m f where p: "jb_task (pl_jobs s ! k) = S_put (Audio_failed x) m f"
        using e k by (auto simp: ending_inv_def)
      show ?thesis
      proof (cases "length (jb_audio (pl_jobs s ! k)) < pg_audio_queue_capacity cfg")
        case True
        then have "pipeline_step cfg s (Op_synthesize k) \<noteq> None"
          using p False k by (simp add: pipeline_step_def synthesis_step_def Let_def)
        then show ?thesis using can_stepI by auto
      next
        case full: False
        then show ?thesis
          using job_audio_bound [OF assms(1) k(1)] p k assms(2) by (auto simp: report_blocked_def intro!: exI [of _ k])
      qed
    qed
  next
    case over
    then have "pipeline_step cfg s Op_run \<noteq> None" using r by (simp add: pipeline_step_def run_step_def)
    then show ?thesis using can_stepI by auto
  qed
qed

lemma progress:
  assumes "pipeline_inv cfg s" and "no_crash s" and "0 < pg_segment_queue_capacity cfg"
    and "0 < pg_max_concurrent_synthesis cfg" and "0 < pg_audio_queue_capacity cfg"
  shows "settled cfg s \<or> can_step cfg s"
proof (cases "pl_stopping s")
  case True
  then obtain r where "pl_run s = Cleaning r \<or> pl_run s = Ended r"
    using live_run [OF assms(1)] by blast
  then show ?thesis
    using cleaning_progress [OF assms(1) True] by (auto simp: settled_def)
next
  case False
  have run: "can_step cfg s" if "run_step cfg s \<noteq> None"
    using that can_stepI [of cfg s Op_run] by (simp add: pipeline_step_def)
  show ?thesis
  proof (cases "pl_run s")
    case (Waiting w)
    then show ?thesis
      using job_waiting_progress [OF assms(1) False] output_waiting_progress [OF assms(1) False assms(2)] assms(3-5)
      by (cases w) (auto simp: settled_def)
  next
    case (Joining p)
    then show ?thesis using joining_progress [OF assms(1) False] by blast
  next
    case (Cleaning r)
    then show ?thesis using False live_run [OF assms(1)] by blast
  next
    case (Ended r)
    then show ?thesis by (simp add: settled_def)
  qed (use run in \<open>simp_all add: run_step_def\<close>)
qed

section \<open>A measure of the remaining internal work\<close>

definition producer_work :: "producer \<Rightarrow> nat" where
  "producer_work p = (case p of P_start \<Rightarrow> 1 | P_put items l \<Rightarrow> 9 * length items | _ \<Rightarrow> 0)"

definition dispatcher_work :: "dispatcher \<Rightarrow> nat" where
  "dispatcher_work d = (case d of D_acquire g \<Rightarrow> 7 | D_put_job g \<Rightarrow> 6 | D_put_end t \<Rightarrow> 6 | _ \<Rightarrow> 0)"

definition job_work :: "job \<Rightarrow> nat" where
  "job_work j = 3 * length (jb_audio j) + (case jb_task j of S_put i n f \<Rightarrow> 4 | _ \<Rightarrow> 0)"

definition run_work :: "run_state \<Rightarrow> nat" where
  "run_work r = (case r of At_get w \<Rightarrow> 5 | Waiting w \<Rightarrow> 4 | Joining p \<Rightarrow> 3 | Completed_published p \<Rightarrow> 2
     | Cleaning o' \<Rightarrow> 1 | Ended o' \<Rightarrow> 0)"

definition cancel_work :: "pipeline \<Rightarrow> nat" where
  "cancel_work s = (if pl_stopping s then length (pl_cancelling s) else 2 + length (pl_tasks s))"

definition work :: "pipeline \<Rightarrow> nat" where
  "work s = producer_work (pl_producer s) + 8 * length (pl_segments s) + dispatcher_work (pl_dispatcher s) +
     4 * length (pl_output s) + sum_list (map job_work (pl_jobs s)) + run_work (pl_run s) + cancel_work s"

lemma jobs_work_update:
  "k < length js \<Longrightarrow>
   sum_list (map job_work (js[k := j])) + job_work (js ! k) = sum_list (map job_work js) + job_work j"
proof (induction js arbitrary: k)
  case (Cons x xs)
  then show ?case using Cons.IH [of "k - 1"] by (cases k) auto
qed simp

lemma producer_work_simps [simp]:
  "producer_work P_start = 1" "producer_work P_model = 0" "producer_work (P_put items l) = 9 * length items"
  "producer_work P_done = 0" "producer_work (P_raised e) = 0" "producer_work (producer_next items l) = 9 * length items"
  by (simp_all add: producer_work_def producer_next_def)

lemma run_work_simps [simp]:
  "run_work (At_get w) = 5" "run_work (Waiting w) = 4" "run_work (Joining p) = 3"
  "run_work (Completed_published p) = 2" "run_work (Cleaning o') = 1" "run_work (Ended o') = 0"
  by (simp_all add: run_work_def)

lemma clean_up_work:
  assumes "\<not> pl_stopping s" and "2 \<le> run_work (pl_run s)"
  shows "work (clean_up r s) < work s"
proof -
  have "length (pl_cancelling (clean_up r s)) \<le> 2 + length (pl_tasks s)"
    by (simp add: clean_up_def le_SucI)
  then have "cancel_work (clean_up r s) \<le> cancel_work s"
    using assms(1) by (simp add: cancel_work_def)
  then show ?thesis
    using assms(2) by (simp add: work_def) (simp add: clean_up_def)
qed

lemma publish_work:
  assumes "\<not> pl_stopping s" and "2 \<le> run_work (pl_run s)"
  shows "work (publish ev nxt s) < work s \<or>
    work (publish ev nxt s) + run_work (pl_run s) = work s + run_work nxt"
proof (cases "check_active s")
  case None
  then show ?thesis by (simp add: publish_def work_def cancel_work_def)
next
  case (Some e)
  then show ?thesis using clean_up_work [OF assms, of "Raised e"] by (simp add: publish_def)
qed

lemma take_output_work:
  assumes "\<not> pl_stopping s" and "pl_run s = Waiting None" and "pl_output s = i # rest"
  shows "work (take_output cfg i (s\<lparr>pl_output := rest\<rparr>)) < work s"
proof -
  let ?s = "s\<lparr>pl_output := rest\<rparr>"
  have w: "work ?s + 4 = work s" using assms(3) by (simp add: work_def cancel_work_def)
  have j: "work (s\<lparr>pl_output := rest, pl_run := Joining p\<rparr>) < work s" for p
    using assms(2,3) by (simp add: work_def cancel_work_def)
  have p: "work (publish ev (At_get v) ?s) < work s" for ev v
    using w publish_work [of ?s ev "At_get v"] assms(1,2) by auto
  have c: "work (clean_up r ?s) < work s" for r
    using w clean_up_work [of ?s r] assms(1,2) by simp
  show ?thesis
    using j p c by (simp add: take_output_def split: output_item.splits terminal.splits)
qed

lemma take_audio_work:
  assumes "\<not> pl_stopping s" and "pl_run s = Waiting (Some k)" and k: "k < length (pl_jobs s)"
    and "jb_audio (pl_jobs s ! k) = i # rest"
  shows "work (take_audio cfg k i (set_job k ((pl_jobs s ! k)\<lparr>jb_audio := rest\<rparr>) s)) < work s"
proof -
  let ?s = "set_job k ((pl_jobs s ! k)\<lparr>jb_audio := rest\<rparr>) s"
  have w: "work ?s + 3 = work s"
    using jobs_work_update [OF k, of "(pl_jobs s ! k)\<lparr>jb_audio := rest\<rparr>"] assms(4)
    by (simp add: work_def cancel_work_def set_job_def job_work_def)
  have r: "pl_run ?s = Waiting (Some k)" "\<not> pl_stopping ?s" using assms(1,2) by (simp_all add: set_job_def)
  have j: "work (?s\<lparr>pl_run := At_get None\<rparr>) = work ?s + 1"
    using r by (simp add: work_def cancel_work_def)
  have p: "work (publish ev (At_get v) ?s) < work s" for ev v
    using w publish_work [OF r(2), of ev "At_get v"] r(1) by auto
  have c: "work (clean_up res ?s) < work s" for res
    using w clean_up_work [OF r(2), of res] r(1) by simp
  show ?thesis
    using w j p c by (simp add: take_audio_def split: audio_item.splits)
qed

lemma run_step_work:
  assumes "pipeline_inv cfg s" and "run_step cfg s = Some s'"
  shows "work s' < work s"
  using assms(2)
proof (cases rule: run_step_cases)
  case (clean e)
  have "\<not> pl_stopping s \<and> 2 \<le> run_work (pl_run s)"
  proof (cases "pl_run s")
    case (Cleaning r)
    with assms(2) clean show ?thesis by (auto simp: run_step_def clean_up_def split: if_splits dest: arg_cong [where f = pl_run])
  next
    case (Ended r)
    with assms(2) show ?thesis by (simp add: run_step_def)
  qed (use live_run [OF assms(1)] in simp_all)
  then show ?thesis using clean clean_up_work by simp
next
  case (returned p)
  then show ?thesis using live_run [OF assms(1)] clean_up_work [of s Returned] by simp
next
  case (item i rest)
  then show ?thesis using live_run [OF assms(1)] take_output_work by simp
next
  case (audio k i rest)
  then show ?thesis using live_run [OF assms(1)] take_audio_work by simp
next
  case (complete p)
  then show ?thesis
    using live_run [OF assms(1)]
      publish_work [of s "UtteranceCompleted (pg_turn_id cfg) (pg_generation cfg) p" "Completed_published p"] by auto
qed (simp_all add: work_def cancel_work_def)

lemma producer_step_work:
  assumes "pipeline_inv cfg s" and "producer_step cfg s = Some s'"
  shows "work s' < work s"
  using assms(2)
  by (auto simp: producer_step_def producer_start_def work_def cancel_work_def
      split: producer.splits list.splits sum.splits if_splits)

lemma dispatcher_step_work:
  assumes "pipeline_inv cfg s" and "dispatcher_step cfg s = Some s'"
  shows "work s' < work s"
proof -
  have "\<not> pl_stopping s"
    using assms by (auto simp: dispatcher_step_def pipeline_inv_def ending_inv_def dispatcher_over_def
        split: if_splits dispatcher.splits)
  moreover have "length (discard_finished js ks) < Suc (length ks)" for js ks
    by (simp add: discard_finished_def less_Suc_eq_le)
  ultimately show ?thesis
    using assms(2)
    by (auto simp: dispatcher_step_def dispatch_job_def Let_def work_def cancel_work_def dispatcher_work_def job_work_def
        split: dispatcher.splits list.splits production_item.splits if_splits)
qed

lemma set_job_work:
  assumes "k < length (pl_jobs s)" and "job_work j < job_work (pl_jobs s ! k)"
  shows "work (set_job k j s) < work s" "work ((set_job k j s)\<lparr>pl_slots := m\<rparr>) < work s"
  using jobs_work_update [OF assms(1), of j] assms(2) by (simp_all add: set_job_def work_def cancel_work_def)

lemma synthesis_step_work:
  assumes "synthesis_step cfg k s = Some s'"
  shows "work s' < work s"
  using assms
  by (auto simp: synthesis_step_def end_synthesis_def Let_def job_work_def intro!: set_job_work
      split: synthesis.splits audio_item.splits if_splits)

lemma deliver_work:
  assumes "pipeline_inv cfg s" and "deliver_cancel t None s = Some s'"
  shows "work s' < work s"
proof -
  let ?c = "removeAll t (pl_cancelling s)"
  let ?s = "s\<lparr>pl_cancelling := ?c\<rparr>"
  have t: "t \<in> set (pl_cancelling s)" using assms(2) by (simp add: deliver_cancel_def split: if_splits)
  have st: "pl_stopping s" using deliver_inv_parts(1) [OF assms(1) t] .
  have "length ?c < length (pl_cancelling s)"
    using t by (simp add: length_removeAll_less)
  then have less: "work ?s < work s" using st by (simp add: work_def cancel_work_def)
  show ?thesis
  proof (cases t)
    case T_producer
    then have "s' = ?s\<lparr>pl_producer := P_raised Task_cancelled\<rparr>"
      using assms(2) t st by (auto simp: deliver_cancel_def Let_def producer_except_def split: if_splits)
    then have "work s' \<le> work ?s" by (simp add: work_def cancel_work_def)
    then show ?thesis using less by simp
  next
    case T_dispatcher
    then have "s' = ?s\<lparr>pl_dispatcher := D_cancelled\<rparr>"
      using assms(2) t by (auto simp: deliver_cancel_def Let_def)
    then have "work s' \<le> work ?s" by (simp add: work_def cancel_work_def dispatcher_work_def)
    then show ?thesis using less by simp
  next
    case (T_synthesis k)
    then have k: "k < length (pl_jobs s)" and s': "s' = end_synthesis k (pl_jobs s ! k) ?s"
      using assms(2) t by (auto simp: deliver_cancel_def Let_def split: if_splits synthesis.splits)
    have "job_work ((pl_jobs s ! k)\<lparr>jb_task := S_done\<rparr>) \<le> job_work (pl_jobs s ! k)"
      by (simp add: job_work_def)
    then have "work s' \<le> work ?s"
      using jobs_work_update [OF k, of "(pl_jobs s ! k)\<lparr>jb_task := S_done\<rparr>"]
      by (simp add: s' end_synthesis_def set_job_def work_def cancel_work_def)
    then show ?thesis using less by simp
  qed
qed

lemma run_interrupted_work:
  assumes "pipeline_inv cfg s" and "run_interrupted s = Some s'"
  shows "work s' < work s"
  using assms live_run [OF assms(1)] clean_up_work [of s]
  by (auto simp: run_interrupted_def split: run_state.splits if_splits)

lemma internal_work:
  assumes "pipeline_inv cfg s" and "internal p" and "pipeline_step cfg s p = Some s'"
  shows "work s' < work s"
  using assms(2,3)
proof (cases p rule: internal.cases)
  case (6 t)
  then show ?thesis using assms(3) deliver_work [OF assms(1)] by (simp add: pipeline_step_def)
qed (use assms(3) in \<open>simp_all add: pipeline_step_def producer_step_work [OF assms(1)] dispatcher_step_work [OF assms(1)]
    synthesis_step_work run_step_work [OF assms(1)] run_interrupted_work [OF assms(1)]\<close>)

section \<open>Two ways to hang\<close>

text \<open>The producer died before its \<open>try\<close>, and nobody will ever put an item.\<close>

definition starved :: "pipeline \<Rightarrow> bool" where
  "starved s \<longleftrightarrow> (pl_producer s = P_start \<or> (\<exists>e. pl_producer s = P_raised e)) \<and> pl_segments s = [] \<and>
     pl_dispatcher s = D_get \<and> pl_output s = [] \<and> pl_jobs s = [] \<and> \<not> pl_cancelled s \<and> pl_cancelling s = [] \<and>
     (pl_run s = At_get None \<or> pl_run s = Waiting None) \<and> pl_published s = []"

lemma starved_step:
  assumes "starved s" and "pg_max_segment_chars cfg < 20" and "p \<noteq> Op_abandon" and "p \<noteq> Op_cancel_token"
  shows "starved (pipeline_apply cfg s p)"
  using assms
  by (cases p) (auto simp: starved_def pipeline_apply_def pipeline_step_def producer_reply_def synthesis_reply_def
      producer_step_def producer_start_def assembler_init_def dispatcher_step_def synthesis_step_def run_step_def
      run_interrupted_def deliver_cancel_def)

lemma starved_run:
  assumes "starved s" and "pg_max_segment_chars cfg < 20" and "set ps \<inter> {Op_abandon, Op_cancel_token} = {}"
  shows "starved (pipeline_run cfg s ps)"
  using assms
proof (induction ps arbitrary: s)
  case (Cons p ps)
  then show ?case using starved_step [of s cfg p] by (auto simp: pipeline_run_def)
qed (simp add: pipeline_run_def)

text \<open>The producer waits for a place in a queue that nobody reads any more.\<close>

definition stuck :: "pipeline_config \<Rightarrow> pipeline_error \<Rightarrow> outcome \<Rightarrow> pipeline \<Rightarrow> bool" where
  "stuck cfg e res s \<longleftrightarrow> pl_run s = Cleaning res \<and> pl_producer s = P_put [Terminal_item (Stage_failed e)] True \<and>
     pg_segment_queue_capacity cfg \<le> length (pl_segments s) \<and> T_producer \<notin> set (pl_cancelling s) \<and>
     (pl_dispatcher s = D_cancelled \<or> T_dispatcher \<in> set (pl_cancelling s))"

lemma stuck_synthesis:
  "stuck cfg x res s \<Longrightarrow> stuck cfg x res (set_job k j s)"
  "stuck cfg x res s \<Longrightarrow> stuck cfg x res (end_synthesis k j s)"
  "stuck cfg x res s \<Longrightarrow> t = T_synthesis l \<Longrightarrow>
   stuck cfg x res (s\<lparr>pl_cancelling := removeAll t (pl_cancelling s)\<rparr>)"
  by (auto simp: stuck_def set_job_def end_synthesis_def)

lemma stuck_stays:
  assumes "stuck cfg x res s" and "p \<noteq> Op_abandon"
  shows "stuck cfg x res (pipeline_apply cfg s p)"
proof (cases p)
  case (Op_speech k r)
  then show ?thesis
    using assms(1) by (auto simp: pipeline_apply_def pipeline_step_def synthesis_reply_def Let_def stuck_synthesis
        split: option.splits synthesis.splits if_splits)
next
  case (Op_synthesize k)
  then show ?thesis
    using assms(1) by (auto simp: pipeline_apply_def pipeline_step_def synthesis_step_def Let_def stuck_synthesis
        split: option.splits synthesis.splits audio_item.splits if_splits)
next
  case (Op_deliver t e)
  show ?thesis
  proof (cases t)
    case (T_synthesis k)
    then show ?thesis
      using assms(1) Op_deliver by (auto simp: pipeline_apply_def pipeline_step_def deliver_cancel_def Let_def stuck_synthesis
          split: option.splits synthesis.splits if_splits)
  qed (use assms(1) Op_deliver in \<open>auto simp: pipeline_apply_def pipeline_step_def deliver_cancel_def stuck_def\<close>)
qed (use assms in \<open>auto simp: pipeline_apply_def pipeline_step_def producer_reply_def producer_step_def dispatcher_step_def
    run_step_def run_interrupted_def stuck_def tasks_over_def producer_over_def\<close>)

lemma stuck_run: "stuck cfg x res s \<Longrightarrow> Op_abandon \<notin> set ps \<Longrightarrow> stuck cfg x res (pipeline_run cfg s ps)"
proof (induction ps arbitrary: s)
  case (Cons p ps)
  then show ?case using stuck_stays [of cfg x res s p] by (auto simp: pipeline_run_def)
qed (simp add: pipeline_run_def)

section \<open>Properties\<close>

text \<open>
  C11: with a \<open>max_segment_chars\<close> of at least 20 (C37 shows what happens below), the tasks of a run never
  block each other. Every step that needs nothing from outside
  decreases the remaining work, and where no such step is possible the run has ended, or a task
  waits for the model or the synthesizer, or, after the generator was left, a task cannot
  report the error a provider raised on its cancellation because its queue is full. Thus under
  any scheduling \<open>run\<close> comes to such a point after at most \<open>work s\<close> steps.
\<close>

theorem pipeline_never_deadlocks:
  assumes "pipeline_config_init turn_id generation has_token fresh m seg_cap conc audio_cap = Inr cfg" and "20 \<le> m"
    and "run_begin cfg cancelled current = Inr s0" and "s = pipeline_run cfg s0 ps"
  shows "(\<forall>p s'. internal p \<and> pipeline_step cfg s p = Some s' \<longrightarrow> work s' < work s) \<and>
    (settled cfg s \<or> (\<exists>p. internal p \<and> pipeline_step cfg s p \<noteq> None))"
proof -
  have cfg: "20 \<le> pg_max_segment_chars cfg" "0 < pg_segment_queue_capacity cfg"
    "0 < pg_max_concurrent_synthesis cfg" "0 < pg_audio_queue_capacity cfg"
    using assms(1,2) by (auto simp: pipeline_config_init_def split: if_splits)
  have "pipeline_inv cfg s" "no_crash s"
    using reachable_inv [OF assms(3)] reachable_no_crash [OF assms(3) cfg(1)] assms(4) by simp_all
  then show ?thesis
    using internal_work [of cfg s] progress [of cfg s] cfg by (auto simp: can_step_def)
qed

theorem pipeline_never_deadlocks_witness:
  "\<exists>s0 s. run_begin sample_config False True = Inr s0 \<and> s = pipeline_run sample_config s0 (take 5 sample_ops) \<and>
    (settled sample_config s \<or> (\<exists>p. internal p \<and> pipeline_step sample_config s p \<noteq> None))"
proof -
  obtain s where s: "run_begin sample_config False True = Inr s" by (simp add: run_begin_def check_active_def)
  have "pipeline_config_init 1 0 True of_nat 20 1 1 1 = Inr sample_config"
    by (simp add: pipeline_config_init_def sample_config_def)
  from pipeline_never_deadlocks [OF this _ s refl, of "take 5 sample_ops"] s show ?thesis by auto
qed

text \<open>
  C37: the constructor accepts a \<open>max_segment_chars\<close> below 20, and then a run started with it
  never ends: the assembler's constructor raises in the producer task outside its \<open>try\<close>,
  nothing is ever put into the queues, and the generator waits until its caller gives up or
  the token is cancelled.
\<close>

theorem small_segment_cap_hangs:
  assumes "m < 20" and "0 < seg_cap" "0 < conc" "0 < audio_cap"
  shows "\<exists>cfg s. pipeline_config_init turn_id generation has_token fresh m seg_cap conc audio_cap = Inr cfg \<and>
    run_begin cfg False True = Inr s \<and>
    (\<forall>ps. set ps \<inter> {Op_abandon, Op_cancel_token} = {} \<longrightarrow>
       pl_run (pipeline_run cfg s ps) \<in> {At_get None, Waiting None} \<and> pl_published (pipeline_run cfg s ps) = [])"
proof -
  obtain cfg where cfg: "pipeline_config_init turn_id generation has_token fresh m seg_cap conc audio_cap = Inr cfg"
    using assms by (simp add: pipeline_config_init_def)
  obtain s where s: "run_begin cfg False True = Inr s" by (simp add: run_begin_def check_active_def)
  have "starved s" using s by (auto simp: run_begin_def check_active_def Let_def starved_def)
  moreover have "pg_max_segment_chars cfg < 20"
    using cfg assms(1) by (auto simp: pipeline_config_init_def split: if_splits)
  ultimately have "starved (pipeline_run cfg s ps)" if "set ps \<inter> {Op_abandon, Op_cancel_token} = {}" for ps
    using starved_run that by blast
  then show ?thesis using cfg s by (auto simp: starved_def)
qed

theorem small_segment_cap_hangs_witness:
  "\<exists>cfg s. pipeline_config_init 1 0 True of_nat 10 4 1 4 = Inr cfg \<and> run_begin cfg False True = Inr s \<and>
    pl_run (pipeline_run cfg s [Op_run, Op_produce, Op_dispatch, Op_run]) \<in> {At_get None, Waiting None}"
proof -
  from small_segment_cap_hangs [of 10 4 1 4 1 0 True of_nat] obtain cfg s where
    "pipeline_config_init 1 0 True of_nat 10 4 1 4 = Inr cfg" "run_begin cfg False True = Inr s"
    "\<forall>ps. set ps \<inter> {Op_abandon, Op_cancel_token} = {} \<longrightarrow> pl_run (pipeline_run cfg s ps) \<in> {At_get None, Waiting None}"
    by auto
  then show ?thesis by auto
qed

text \<open>
  C38: closing the generator can hang. Take any state of a run in which the \<open>finally\<close> clause
  waits for its tasks, the producer, cancelled while it waits for the model, has not yet
  received the cancellation, the segment queue is full, and the dispatcher is cancelled or about
  to be. If the stream of the model answers the cancellation with an exception other than
  \<open>CancelledError\<close>, the producer waits to report that exception in a queue nobody reads any
  more, and the clause waits for the producer, whatever happens short of a further cancellation
  of the caller. A further cancellation ends the producer, and so does \<open>CancelledError\<close> as
  the first answer.
\<close>

theorem clean_up_can_hang:
  assumes "run_begin cfg cancelled current = Inr s0" and "s = pipeline_run cfg s0 ps"
    and "pl_run s = Cleaning result" and "pl_producer s = P_model" and "T_producer \<in> set (pl_cancelling s)"
    and "length (pl_segments s) = pg_segment_queue_capacity cfg"
    and "pl_dispatcher s = D_cancelled \<or> T_dispatcher \<in> set (pl_cancelling s)"
    and "e \<noteq> Task_cancelled" and "Op_abandon \<notin> set qs"
    and "t = pipeline_run cfg s (Op_deliver T_producer (Some e) # qs)"
  shows "pl_run t = Cleaning result \<and> pl_producer t = P_put [Terminal_item (Stage_failed e)] True \<and>
    pg_segment_queue_capacity cfg \<le> length (pl_segments t) \<and> \<not> tasks_over t \<and>
    producer_over (pl_producer (pipeline_run cfg t [Op_abandon, Op_deliver T_producer None])) \<and>
    producer_over (pl_producer (pipeline_apply cfg s (Op_deliver T_producer None)))"
proof -
  have "pipeline_inv cfg s" using reachable_inv [OF assms(1)] assms(2) by simp
  then have stopping: "pl_stopping s" using live_run [of cfg s] assms(3) by (cases "pl_stopping s") auto
  have "stuck cfg e result (pipeline_apply cfg s (Op_deliver T_producer (Some e)))"
    using assms(3-8)
    by (auto simp: stuck_def pipeline_apply_def pipeline_step_def deliver_cancel_def producer_except_def Let_def)
  then have t: "stuck cfg e result t"
    using stuck_run [OF _ assms(9)] assms(10) by (simp add: pipeline_run_def)
  then have "producer_over (pl_producer (pipeline_run cfg t [Op_abandon, Op_deliver T_producer None]))"
    by (auto simp: stuck_def pipeline_run_def pipeline_apply_def pipeline_step_def run_abandoned_def clean_up_def
        producer_over_def deliver_cancel_def Let_def)
  moreover have "producer_over (pl_producer (pipeline_apply cfg s (Op_deliver T_producer None)))"
    using assms(4,5) stopping
    by (simp add: pipeline_apply_def pipeline_step_def deliver_cancel_def producer_except_def producer_over_def Let_def)
  ultimately show ?thesis using t by (simp add: stuck_def tasks_over_def producer_over_def)
qed

theorem clean_up_can_hang_witness:
  "\<exists>s. run_begin sample_config False True = Inr s \<and>
    pl_run (pipeline_run sample_config s ([Op_run, Op_produce, Op_model (Model_event (ModelTextDelta [72, 105, 33, 32])),
      Op_produce, Op_abandon, Op_deliver T_producer (Some (Provider_error 0)), Op_deliver T_dispatcher None, Op_run])) =
    Cleaning Abandoned"
proof -
  let ?ps = "[Op_run, Op_produce, Op_model (Model_event (ModelTextDelta [72, 105, 33, 32])), Op_produce, Op_abandon]"
  obtain s where s: "run_begin sample_config False True = Inr s" by (simp add: run_begin_def check_active_def)
  have "map_option (\<lambda>t. (pl_run t, length (pl_segments t), pl_cancelling t, pl_producer t))
      (run_from_start sample_config ?ps) =
    Some (Cleaning Abandoned, 1, [T_producer, T_dispatcher], P_model)"
    by code_simp
  then have "pl_run (pipeline_run sample_config (pipeline_run sample_config s ?ps)
      [Op_deliver T_producer (Some (Provider_error 0)), Op_deliver T_dispatcher None, Op_run]) = Cleaning Abandoned"
    using clean_up_can_hang [OF s refl, of ?ps Abandoned "Provider_error 0" "[Op_deliver T_dispatcher None, Op_run]"] s
    by (simp add: run_from_start_def) (simp add: sample_config_def)
  then show ?thesis using s by (intro exI [of _ s]) (simp add: pipeline_run_def)
qed

end
