(* ===== verification/AsrTypes.thy ===== *)
theory AsrTypes
  imports PcmTypes PyFloat
begin

text \<open>
  The speech-recognition results of \<^verbatim>\<open>media/types.py\<close>, with their constructor checks. The checks
  that a text is a \<open>str\<close> and a revision an \<open>int\<close> are types here.
\<close>

datatype transcript_error = Language_blank | Confidence_out_of_range | Revision_negative

definition check_transcript_fields :: "pystr option \<Rightarrow> pyfloat option \<Rightarrow> transcript_error option" where
  "check_transcript_fields language confidence =
     (if (case language of None \<Rightarrow> False | Some l \<Rightarrow> blank l) then Some Language_blank
      else (case confidence of
              Some (Fin q) \<Rightarrow> if 0 \<le> q \<and> q \<le> 1 then None else Some Confidence_out_of_range
            | Some _ \<Rightarrow> Some Confidence_out_of_range
            | None \<Rightarrow> None))"

record AsrPartial =
  ap_utterance_id :: uuid
  ap_revision :: int
  ap_text :: pystr
  ap_language :: "pystr option"
  ap_confidence :: "pyfloat option"

definition check_asr_partial :: "AsrPartial \<Rightarrow> transcript_error option" where
  "check_asr_partial p =
     (if ap_revision p < 0 then Some Revision_negative
      else check_transcript_fields (ap_language p) (ap_confidence p))"

record AsrFinal =
  af_utterance_id :: uuid
  af_text :: pystr
  af_language :: "pystr option"
  af_confidence :: "pyfloat option"

definition check_asr_final :: "AsrFinal \<Rightarrow> transcript_error option" where
  "check_asr_final f = check_transcript_fields (af_language f) (af_confidence f)"

datatype AsrStreamEvent = Asr_partial AsrPartial | Asr_final AsrFinal

end
