(* ===== verification/Commands.thy ===== *)
theory Commands
  imports AsrTypes Vad EventRecorder Interaction
begin

text \<open>
  The commands a transport or the voice input sends to a foreground session: the methods of
  \<^verbatim>\<open>application/foreground_session.py\<close> and \<^verbatim>\<open>application/foreground_voice.py\<close> that create an event
  and submit it to the session actor. A call is a value of \<open>call\<close>; \<open>request_of\<close> is the event it
  creates, \<open>mode_of\<close> the way it is submitted.
\<close>

text \<open>What \<open>EventEnvelope.create\<close> reads from outside: a fresh identity and the two clocks.\<close>

record clock =
  ck_fresh :: uuid
  ck_now :: datetime
  ck_monotonic_ns :: int

definition clock_ok :: "clock \<Rightarrow> bool" where
  "clock_ok ck \<longleftrightarrow> dt_utcoffset (ck_now ck) \<noteq> None \<and> 0 \<le> ck_monotonic_ns ck"

text \<open>The arguments of \<open>EventEnvelope.create\<close> that differ from the defaults.\<close>

record command =
  cq_type :: pystr
  cq_payload :: "(pystr \<times> pyval) list"
  cq_actor_id :: "pystr option"
  cq_causation_id :: "uuid option"
  cq_trust :: TrustLabel
  cq_visibility :: Visibility
  cq_retention :: RetentionClass
  cq_priority :: EventPriority

definition request_event :: "uuid \<Rightarrow> clock \<Rightarrow> command \<Rightarrow> event_error + EventEnvelope" where
  "request_event session_id ck r =
     create_envelope (cq_type r) (Some (str_dict (cq_payload r))) None 1 None None (Some session_id)
       (cq_actor_id r) None (cq_causation_id r) None (priority_value (cq_priority r)) (cq_trust r)
       (cq_visibility r) (cq_retention r) (ck_fresh ck) (ck_now ck) (ck_monotonic_ns ck)"

record playback_ack =
  pa_audio_event_id :: uuid
  pa_generation :: int
  pa_event_sequence :: int
  pa_segment_id :: uuid
  pa_chunk_index :: int
  pa_state :: pystr
  pa_client_monotonic_ms :: int
  pa_played_ms :: "int option"
  pa_detail :: "pystr option"

text \<open>
  One constructor per method; the fresh turn identity of a turn request is an argument. The
  calls that only a blank text tells apart (\<open>voice_transcript_final\<close>) share a constructor.
\<close>

datatype call =
  Submit_text pystr pystr uuid
| Cancel pystr
| Ping uuid
| Request_neutral_avatar uuid
| Acknowledge_playback uuid playback_ack
| Voice_capture_started uuid PcmFormat
| Voice_capture_stopped uuid pystr
| Voice_speech_started VadSpeechStarted bool
| Voice_transcript_partial AsrPartial
| Voice_transcript_final AsrFinal uuid
| Voice_recognition_failed uuid pystr

datatype mode = Foreground_now | Foreground_wait | Plain_now | Plain_wait

definition optional_int :: "int option \<Rightarrow> pyval" where
  "optional_int n = (case n of None \<Rightarrow> PNone | Some i \<Rightarrow> PInt i)"

definition optional_text :: "pystr option \<Rightarrow> pyval" where
  "optional_text t = (case t of None \<Rightarrow> PNone | Some s \<Rightarrow> PStr s)"

definition optional_float :: "pyfloat option \<Rightarrow> pyval" where
  "optional_float x = (case x of None \<Rightarrow> PNone | Some q \<Rightarrow> PFloat q)"

fun encoding_value :: "PcmEncoding \<Rightarrow> pystr" where
  "encoding_value S16_LE = lit ''pcm_s16le''"

definition voice_request :: "string \<Rightarrow> (pystr \<times> pyval) list \<Rightarrow> string \<Rightarrow> TrustLabel \<Rightarrow> RetentionClass \<Rightarrow> EventPriority \<Rightarrow> command" where
  "voice_request ty payload actor trust retention priority =
     \<lparr>cq_type = lit ty, cq_payload = payload, cq_actor_id = Some (lit actor), cq_causation_id = None,
      cq_trust = trust, cq_visibility = Vis_PRIVATE, cq_retention = retention, cq_priority = priority\<rparr>"

definition text_request :: "pystr \<Rightarrow> pystr \<Rightarrow> uuid \<Rightarrow> command" where
  "text_request t actor turn_id =
     \<lparr>cq_type = lit ''turn.requested'',
      cq_payload = [(lit ''text'', PStr (strip t)), (lit ''turn_id'', PStr (uuid_str turn_id))],
      cq_actor_id = Some actor, cq_causation_id = None, cq_trust = Trust_OWNER,
      cq_visibility = Vis_PRIVATE, cq_retention = Ret_TRANSCRIPT, cq_priority = Prio_HIGH\<rparr>"

definition cancel_request :: "pystr \<Rightarrow> command" where
  "cancel_request reason =
     \<lparr>cq_type = lit ''turn.cancel_requested'', cq_payload = [(lit ''reason'', PStr reason)],
      cq_actor_id = Some (lit ''owner''), cq_causation_id = None, cq_trust = Trust_OWNER,
      cq_visibility = Vis_PRIVATE, cq_retention = Ret_OPERATIONAL_TRACE, cq_priority = Prio_CRITICAL\<rparr>"

definition ping_request :: "uuid \<Rightarrow> command" where
  "ping_request cause =
     \<lparr>cq_type = lit ''transport.ping'', cq_payload = [], cq_actor_id = None, cq_causation_id = Some cause,
      cq_trust = Trust_UNKNOWN, cq_visibility = Vis_SESSION, cq_retention = Ret_OPERATIONAL_TRACE,
      cq_priority = Prio_LOW\<rparr>"

definition neutral_request :: "uuid \<Rightarrow> command" where
  "neutral_request cause =
     \<lparr>cq_type = lit ''operator.neutral_avatar_requested'', cq_payload = [], cq_actor_id = Some (lit ''owner''),
      cq_causation_id = Some cause, cq_trust = Trust_OWNER, cq_visibility = Vis_SESSION,
      cq_retention = Ret_OPERATIONAL_TRACE, cq_priority = Prio_CRITICAL\<rparr>"

definition ack_request :: "uuid \<Rightarrow> playback_ack \<Rightarrow> command" where
  "ack_request cause a =
     \<lparr>cq_type = lit ''playback.ack_received'',
      cq_payload =
        [(lit ''audio_event_id'', PStr (uuid_str (pa_audio_event_id a))),
         (lit ''generation'', PInt (pa_generation a)),
         (lit ''event_sequence'', PInt (pa_event_sequence a)),
         (lit ''segment_id'', PStr (uuid_str (pa_segment_id a))),
         (lit ''chunk_index'', PInt (pa_chunk_index a)),
         (lit ''state'', PStr (pa_state a)),
         (lit ''client_monotonic_ms'', PInt (pa_client_monotonic_ms a)),
         (lit ''played_ms'', optional_int (pa_played_ms a)),
         (lit ''detail'', optional_text (pa_detail a))],
      cq_actor_id = Some (lit ''operator''), cq_causation_id = Some cause, cq_trust = Trust_OWNER,
      cq_visibility = Vis_PRIVATE, cq_retention = Ret_OPERATIONAL_TRACE, cq_priority = Prio_LOW\<rparr>"

definition capture_started_request :: "uuid \<Rightarrow> PcmFormat \<Rightarrow> command" where
  "capture_started_request stream f = voice_request ''voice.capture_started''
     [(lit ''stream_id'', PStr (uuid_str stream)), (lit ''sample_rate_hz'', PInt (pf_sample_rate_hz f)),
      (lit ''channels'', PInt (pf_channels f)), (lit ''encoding'', PStr (encoding_value (pf_encoding f)))]
     ''operator_microphone'' Trust_LOCAL_SENSOR Ret_OPERATIONAL_TRACE Prio_CRITICAL"

definition capture_stopped_request :: "uuid \<Rightarrow> pystr \<Rightarrow> command" where
  "capture_stopped_request stream reason = voice_request ''voice.capture_stopped''
     [(lit ''stream_id'', PStr (uuid_str stream)), (lit ''reason'', PStr reason)]
     ''operator_microphone'' Trust_LOCAL_SENSOR Ret_OPERATIONAL_TRACE Prio_CRITICAL"

definition speech_started_request :: "VadSpeechStarted \<Rightarrow> bool \<Rightarrow> command" where
  "speech_started_request e barge_in = voice_request ''voice.speech_started''
     [(lit ''stream_id'', PStr (uuid_str (ss_stream_id e))),
      (lit ''utterance_id'', PStr (uuid_str (ss_utterance_id e))),
      (lit ''captured_at_monotonic_ns'', PInt (ss_at_ns e)),
      (lit ''trigger_sequence'', PInt (ss_trigger_sequence e)),
      (lit ''pre_roll_frame_count'', PInt (ss_pre_roll_frame_count e)),
      (lit ''barge_in'', PBool barge_in)]
     ''operator_microphone'' Trust_LOCAL_SENSOR Ret_OPERATIONAL_TRACE Prio_CRITICAL"

definition transcript_partial_request :: "AsrPartial \<Rightarrow> command" where
  "transcript_partial_request p = voice_request ''voice.transcript_partial''
     [(lit ''utterance_id'', PStr (uuid_str (ap_utterance_id p))), (lit ''revision'', PInt (ap_revision p)),
      (lit ''text'', PStr (ap_text p)), (lit ''language'', optional_text (ap_language p)),
      (lit ''confidence'', optional_float (ap_confidence p))]
     ''speech_recognizer'' Trust_LOCAL_SENSOR Ret_EPHEMERAL_MEDIA Prio_LOW"

definition transcript_empty_request :: "AsrFinal \<Rightarrow> command" where
  "transcript_empty_request f = voice_request ''voice.transcript_empty''
     [(lit ''utterance_id'', PStr (uuid_str (af_utterance_id f)))]
     ''speech_recognizer'' Trust_LOCAL_SENSOR Ret_OPERATIONAL_TRACE Prio_HIGH"

definition voice_turn_request :: "AsrFinal \<Rightarrow> uuid \<Rightarrow> command" where
  "voice_turn_request f turn_id = voice_request ''turn.requested''
     [(lit ''text'', PStr (strip (af_text f))), (lit ''turn_id'', PStr (uuid_str turn_id)),
      (lit ''input_modality'', PStr (lit ''voice'')), (lit ''utterance_id'', PStr (uuid_str (af_utterance_id f))),
      (lit ''language'', optional_text (af_language f)), (lit ''confidence'', optional_float (af_confidence f))]
     ''owner_voice'' Trust_LOCAL_SENSOR Ret_TRANSCRIPT Prio_HIGH"

definition recognition_failed_request :: "uuid \<Rightarrow> pystr \<Rightarrow> command" where
  "recognition_failed_request utterance error_type = voice_request ''voice.recognition_failed''
     [(lit ''utterance_id'', PStr (uuid_str utterance)), (lit ''error_type'', PStr error_type)]
     ''speech_recognizer'' Trust_SYSTEM Ret_OPERATIONAL_TRACE Prio_HIGH"

text \<open>\<open>None\<close>: the call raises \<open>ValueError\<close> before it creates an event.\<close>

fun request_of :: "call \<Rightarrow> command option" where
  "request_of (Submit_text t actor turn_id) = (if blank t then None else Some (text_request t actor turn_id))"
| "request_of (Cancel reason) = Some (cancel_request reason)"
| "request_of (Ping cause) = Some (ping_request cause)"
| "request_of (Request_neutral_avatar cause) = Some (neutral_request cause)"
| "request_of (Acknowledge_playback cause a) = Some (ack_request cause a)"
| "request_of (Voice_capture_started stream f) = Some (capture_started_request stream f)"
| "request_of (Voice_capture_stopped stream reason) = Some (capture_stopped_request stream reason)"
| "request_of (Voice_speech_started e barge_in) = Some (speech_started_request e barge_in)"
| "request_of (Voice_transcript_partial p) = Some (transcript_partial_request p)"
| "request_of (Voice_transcript_final f turn_id) =
     Some (if blank (af_text f) then transcript_empty_request f else voice_turn_request f turn_id)"
| "request_of (Voice_recognition_failed utterance error_type) =
     Some (recognition_failed_request utterance error_type)"

text \<open>
  \<open>submit_foreground_turn\<close>, \<open>submit_foreground_turn_wait\<close>, \<open>submit\<close> or \<open>submit_wait\<close> of the
  session actor. (\<open>_submit_voice_lifecycle\<close> repeats its \<open>submit_wait\<close> when a newer generation
  cancelled it: each attempt is a call of its own.)
\<close>

fun mode_of :: "call \<Rightarrow> mode" where
  "mode_of (Submit_text t actor turn_id) = Foreground_now"
| "mode_of (Cancel reason) = Foreground_now"
| "mode_of (Ping cause) = Plain_now"
| "mode_of (Request_neutral_avatar cause) = Plain_now"
| "mode_of (Acknowledge_playback cause a) = Plain_now"
| "mode_of (Voice_capture_started stream f) = Plain_wait"
| "mode_of (Voice_capture_stopped stream reason) = Plain_wait"
| "mode_of (Voice_speech_started e barge_in) = (if barge_in then Foreground_wait else Plain_wait)"
| "mode_of (Voice_transcript_partial p) = Plain_now"
| "mode_of (Voice_transcript_final f turn_id) = (if blank (af_text f) then Plain_wait else Foreground_wait)"
| "mode_of (Voice_recognition_failed utterance error_type) = Plain_wait"

end
