(* ===== verification/Encodings.thy ===== *)
theory Encodings
  imports EventRecorder JsonParse
begin

text \<open>
  Two conversions of the standard library that the foreground session uses: \<open>UUID\<close> of a text and
  \<open>base64.b64encode\<close>.
\<close>

section \<open>UUIDs\<close>

text \<open>
  \<open>UUID(s)\<close> of a text without \<open>urn:\<close>, \<open>uuid:\<close> or braces: the hyphens are removed and the rest has to be
  32 hexadecimal digits.
\<close>

fun hex_value :: "nat \<Rightarrow> pystr \<Rightarrow> nat option" where
  "hex_value n [] = Some n"
| "hex_value n (c # s) =
     (case hex_digit_value c of None \<Rightarrow> None | Some d \<Rightarrow> hex_value (16 * n + d) s)"

definition parse_uuid :: "pystr \<Rightarrow> uuid option" where
  "parse_uuid s =
     (let h = filter (\<lambda>c. c \<noteq> 45) s
      in if length h \<noteq> 32 then None else map_option of_nat (hex_value 0 h))"

lemma length_hex_digits [simp]: "length (hex_digits k n) = k"
  by (induction k arbitrary: n) simp_all

lemma hex_value_append:
  "hex_value n (s @ t) = (case hex_value n s of None \<Rightarrow> None | Some m \<Rightarrow> hex_value m t)"
  by (induction n s rule: hex_value.induct) (auto split: option.split)

lemma hex_value_digits: "hex_value m (hex_digits k n) = Some (m * 16 ^ k + n mod 16 ^ k)"
proof (induction k arbitrary: m n)
  case 0
  then show ?case by simp
next
  case (Suc k)
  have "n mod 16 ^ Suc k = 16 * (n div 16 mod 16 ^ k) + n mod 16"
    by (simp add: mod_mult2_eq)
  then show ?case
    by (simp add: hex_value_append Suc hex_digit_value_digit algebra_simps)
qed

lemma hex_digits_no_hyphen: "45 \<notin> set (hex_digits k n)"
  by (induction k arbitrary: n) (auto simp: hex_digit_def)

lemma split_groups:
  "take 8 h @ take 4 (drop 8 h) @ take 4 (drop 12 h) @ take 4 (drop 16 h) @ drop 20 h = h"
  using append_take_drop_id [of 4 "drop 16 h"] append_take_drop_id [of 4 "drop 12 h"]
    append_take_drop_id [of 4 "drop 8 h"] append_take_drop_id [of 8 h] by simp

lemma filter_groups:
  assumes "45 \<notin> set h"
  shows "filter (\<lambda>c. c \<noteq> 45) (take 8 h @ [45] @ take 4 (drop 8 h) @ [45] @ take 4 (drop 12 h) @ [45] @
           take 4 (drop 16 h) @ [45] @ drop 20 h) = h"
proof -
  have keep: "filter (\<lambda>c. c \<noteq> 45) s = s" if "set s \<subseteq> set h" for s
    using that assms by (intro filter_True) auto
  have "set (take i (drop j h)) \<subseteq> set h" "set (drop j h) \<subseteq> set h" "set (take i h) \<subseteq> set h" for i j
    by (auto dest: in_set_takeD in_set_dropD)
  then show ?thesis by (simp add: keep split_groups)
qed

lemma uuid_str_digits: "filter (\<lambda>c. c \<noteq> 45) (uuid_str u) = hex_digits 32 (unat u)"
  unfolding uuid_str_def Let_def by (rule filter_groups) (rule hex_digits_no_hyphen)

lemma parse_uuid_str [simp]: "parse_uuid (uuid_str u) = Some u"
proof -
  have "unat u < 16 ^ 32" using unsigned_less [of u] by simp
  then have "hex_value 0 (hex_digits 32 (unat u)) = Some (unat u)"
    using hex_value_digits [of 0 32 "unat u"] by simp
  then show ?thesis unfolding parse_uuid_def uuid_str_digits Let_def by simp
qed

section \<open>Base64\<close>

definition base64_char :: "nat \<Rightarrow> nat" where
  "base64_char n =
     (if n < 26 then 65 + n else if n < 52 then 71 + n else if n < 62 then n - 4
      else if n = 62 then 43 else 47)"

fun base64_encode :: "bytes \<Rightarrow> pystr" where
  "base64_encode [] = []"
| "base64_encode [a] =
     (let n = unat a * 16 in [base64_char (n div 64), base64_char (n mod 64), 61, 61])"
| "base64_encode [a, b] =
     (let n = (unat a * 256 + unat b) * 4
      in [base64_char (n div 4096), base64_char (n div 64 mod 64), base64_char (n mod 64), 61])"
| "base64_encode (a # b # c # s) =
     (let n = (unat a * 256 + unat b) * 256 + unat c
      in base64_char (n div 262144) # base64_char (n div 4096 mod 64) # base64_char (n div 64 mod 64) #
         base64_char (n mod 64) # base64_encode s)"

lemma length_base64: "length (base64_encode s) = 4 * ((length s + 2) div 3)"
proof (induction s rule: base64_encode.induct)
  case (4 a b c s)
  have "(length s + 5) div 3 = (length s + 2) div 3 + 1" by simp
  then show ?case using 4 by (simp add: Let_def algebra_simps)
qed (simp_all add: Let_def)

end
