(* ===== verification/Foreground.thy ===== *)
theory Foreground
  imports Commands Encodings ConversationHistory DialogueTypes SessionInv
begin

text \<open>
  One foreground conversation, \<^verbatim>\<open>application/foreground_session.py\<close> with the handlers of
  \<^verbatim>\<open>application/foreground_voice.py\<close>, on top of the session actor of \<open>Session\<close>: every event goes
  through the actor's mailboxes, every change of the interaction state through its two transition
  methods. A handler and a turn task run without interruption from one wait to the next; a publication
  is begun in one step and attempted in others, as in \<open>SessionInv\<close>. What the pipeline, the history
  store, the context service and the persistence workers answer is part of the scheduler's choice.
\<close>

section \<open>Values\<close>

fun state_value :: "InteractionState \<Rightarrow> pystr" where
  "state_value IDLE = lit ''idle''"
| "state_value LISTENING = lit ''listening''"
| "state_value PROCESSING = lit ''processing''"
| "state_value SPEAKING = lit ''speaking''"
| "state_value WAITING_APPROVAL = lit ''waiting_approval''"
| "state_value INTERRUPTING = lit ''interrupting''"
| "state_value DEGRADED = lit ''degraded''"

fun stop_reason_value :: "ModelStopReason \<Rightarrow> pystr" where
  "stop_reason_value Stop_COMPLETE = lit ''complete''"
| "stop_reason_value Stop_LENGTH = lit ''length''"
| "stop_reason_value Stop_CANCELLED = lit ''cancelled''"
| "stop_reason_value Stop_ERROR = lit ''error''"

text \<open>What may escape from a handler or a child task; \<open>Fg_external\<close> names a foreign exception.\<close>

datatype foreground_error =
  Fg_session session_error | Fg_event event_error | Fg_type_error | Fg_value_error
| Fg_unsupported pystr | Fg_external pystr

fun error_name :: "foreground_error \<Rightarrow> pystr" where
  "error_name (Fg_session (SessionInteractionError (InvalidInteractionTransition s t))) =
     lit ''InvalidInteractionTransition''"
| "error_name (Fg_session SessionLifecycleError) = lit ''SessionLifecycleError''"
| "error_name (Fg_external name) = name"
| "error_name Fg_type_error = lit ''TypeError''"
| "error_name e = lit ''ValueError''"

type_synonym session_actor = "(unit, foreground_error) actor"

text \<open>The arguments of \<open>_output_event\<close>, and the event it creates.\<close>

record draft =
  dr_type :: pystr
  dr_payload :: "(pystr \<times> pyval) list"
  dr_priority :: EventPriority
  dr_retention :: RetentionClass

definition output_event ::
  "uuid \<Rightarrow> EventEnvelope option \<Rightarrow> draft \<Rightarrow> clock \<Rightarrow> event_error + EventEnvelope" where
  "output_event session_id cause d ck =
     create_envelope (dr_type d) (Some (str_dict (dr_payload d))) None 1 None None (Some session_id)
       (Some (lit ''eeveetuber'')) (map_option ev_correlation_id cause) (map_option ev_event_id cause) None
       (priority_value (dr_priority d)) Trust_SYSTEM Vis_PRIVATE (dr_retention d)
       (ck_fresh ck) (ck_now ck) (ck_monotonic_ns ck)"

text \<open>A publication that waits for room in the outbox.\<close>

type_synonym publication = "EventEnvelope \<times> generation \<times> cancel_token"

text \<open>
  What a turn task does when its publication ended: the calls of \<open>publish\<close> in \<open>_run_turn\<close>. The
  flag is \<open>first_segment\<close>.
\<close>

datatype turn_after =
  After_snapshot DialogueRequest
| After_output bool
| After_empty
| After_completed UtterancePlan bool
| After_failed

datatype turn_phase =
  Loading_history
| Awaiting_publish publication turn_after
| In_pipeline bool
| Awaiting_registration UtterancePlan bool
| Turn_ended

record turn =
  tn_message :: SessionMessage
  tn_turn_id :: uuid
  tn_user_text :: pystr
  tn_user_sequence :: int
  tn_assistant_sequence :: int
  tn_child :: nat
  tn_request :: "DialogueRequest option"
  tn_phase :: turn_phase

definition message_generation :: "SessionMessage \<Rightarrow> generation" where
  "message_generation m = tk_generation (sm_token m)"

definition tn_generation :: "turn \<Rightarrow> generation" where
  "tn_generation t = message_generation (tn_message t)"

text \<open>
  The publications of the handlers, in the order of the match statement, and what is left for a handler to
  do: publications, and the spawning of a turn task.
\<close>

datatype notice =
  Pong | Neutral_requested | Playback_acknowledged
| Transcript_final uuid "pystr option" pystr | Turn_accepted uuid pystr
| Capture_changed | Speech_cancelled InteractionState | Barge_in_cancelled | Speech_detected
| Voice_trace | Recognition_failed

datatype handler_step = Say notice | Spawn_turn uuid pystr int int

text \<open>\<open>session.ready\<close>, which \<open>start\<close> publishes.\<close>

datatype ready_phase = Not_announced | Announcing publication | Announced

record foreground =
  fg_actor :: session_actor
  fg_voice_config :: pyval
  fg_voice_capture_active :: bool
  fg_message_sequence :: int
  fg_submits :: "(SessionMessage \<times> EventEnvelope option) list"
  fg_ready :: ready_phase
  fg_steps :: "handler_step list"
  fg_handler_pub :: "publication option"
  fg_turns :: "turn list"
  fg_messages :: "MessageRecord list"
  fg_snapshots :: "pystr list"
  fg_writes :: "nat list"
  fg_next_child :: nat

definition fg_state :: "foreground \<Rightarrow> InteractionState" where
  "fg_state f = im_state (ac_interaction (fg_actor f))"

definition fg_session_id :: "foreground \<Rightarrow> uuid" where
  "fg_session_id f = ac_session_id (fg_actor f)"

definition fg_current :: "foreground \<Rightarrow> generation" where
  "fg_current f = src_generation (ac_cancellation (fg_actor f))"

definition fg_handling :: "foreground \<Rightarrow> SessionMessage option" where
  "fg_handling f = (case ac_task (fg_actor f) of Task_handling m \<Rightarrow> Some m | _ \<Rightarrow> None)"

section \<open>Transitions of the handlers\<close>

definition transit ::
  "InteractionState \<Rightarrow> string \<Rightarrow> session_actor \<Rightarrow> (foreground_error + unit) \<times> session_actor" where
  "transit requested reason a =
     (case transition_interaction a requested (lit reason) of
        (Inl e, a') \<Rightarrow> (Inl (Fg_session e), a')
      | (Inr _, a') \<Rightarrow> (Inr (), a'))"

definition transit_twice ::
  "InteractionState \<times> string \<Rightarrow> InteractionState \<times> string \<Rightarrow> session_actor \<Rightarrow>
   (foreground_error + unit) \<times> session_actor" where
  "transit_twice p q a =
     (case transit (fst p) (snd p) a of
        (Inl e, a') \<Rightarrow> (Inl e, a')
      | (Inr _, a') \<Rightarrow> transit (fst q) (snd q) a')"

definition enter_processing :: "session_actor \<Rightarrow> (foreground_error + unit) \<times> session_actor" where
  "enter_processing a =
     (case im_state (ac_interaction a) of
        PROCESSING \<Rightarrow>
          transit_twice (INTERRUPTING, ''replacement turn accepted'') (PROCESSING, ''replacement turn processing'') a
      | SPEAKING \<Rightarrow>
          transit_twice (INTERRUPTING, ''barge-in turn accepted'') (PROCESSING, ''replacement turn processing'') a
      | WAITING_APPROVAL \<Rightarrow>
          transit_twice (INTERRUPTING, ''owner replaced approval wait'') (PROCESSING, ''replacement turn processing'') a
      | IDLE \<Rightarrow> transit PROCESSING ''turn accepted'' a
      | LISTENING \<Rightarrow> transit PROCESSING ''turn accepted'' a
      | INTERRUPTING \<Rightarrow> transit PROCESSING ''replacement turn processing'' a
      | DEGRADED \<Rightarrow> transit_twice (IDLE, ''retry from degraded'') (PROCESSING, ''retry accepted'') a)"

definition enter_listening :: "string \<Rightarrow> session_actor \<Rightarrow> (foreground_error + unit) \<times> session_actor" where
  "enter_listening reason a =
     (case im_state (ac_interaction a) of
        PROCESSING \<Rightarrow> transit_twice (INTERRUPTING, reason) (LISTENING, reason) a
      | SPEAKING \<Rightarrow> transit_twice (INTERRUPTING, reason) (LISTENING, reason) a
      | WAITING_APPROVAL \<Rightarrow> transit_twice (INTERRUPTING, reason) (LISTENING, reason) a
      | IDLE \<Rightarrow> transit LISTENING reason a
      | INTERRUPTING \<Rightarrow> transit LISTENING reason a
      | DEGRADED \<Rightarrow> transit LISTENING reason a
      | LISTENING \<Rightarrow> (Inr (), a))"

definition cancel_target :: "foreground \<Rightarrow> InteractionState" where
  "cancel_target f = (if fg_voice_capture_active f then LISTENING else IDLE)"

definition leave_foreground ::
  "InteractionState \<Rightarrow> session_actor \<Rightarrow> (foreground_error + unit) \<times> session_actor" where
  "leave_foreground target a =
     (let state = im_state (ac_interaction a)
      in if state = DEGRADED then transit target ''cancel degraded state'' a
         else if state = IDLE \<and> target = LISTENING then transit target ''return to active microphone'' a
         else if state = LISTENING \<and> target = IDLE then transit target ''foreground cancelled'' a
         else if state \<notin> {IDLE, LISTENING} then
           (if state \<noteq> INTERRUPTING then
              transit_twice (INTERRUPTING, ''foreground cancellation accepted'') (target, ''foreground cancelled'') a
            else transit target ''foreground cancelled'' a)
         else (Inr (), a))"

definition capture_started :: "session_actor \<Rightarrow> (foreground_error + unit) \<times> session_actor" where
  "capture_started a =
     (case im_state (ac_interaction a) of
        IDLE \<Rightarrow> transit LISTENING ''microphone capture started'' a
      | DEGRADED \<Rightarrow> transit LISTENING ''microphone capture resumed from degraded state'' a
      | _ \<Rightarrow> (Inr (), a))"

definition capture_stopped :: "session_actor \<Rightarrow> (foreground_error + unit) \<times> session_actor" where
  "capture_stopped a =
     (case im_state (ac_interaction a) of
        LISTENING \<Rightarrow> transit IDLE ''microphone capture stopped'' a
      | _ \<Rightarrow> (Inr (), a))"

definition speech_started :: "bool \<Rightarrow> session_actor \<Rightarrow> (foreground_error + unit) \<times> session_actor" where
  "speech_started barge_in a =
     (if barge_in then enter_listening ''voice activity interrupted foreground work'' a
      else if im_state (ac_interaction a) \<in> {IDLE, DEGRADED} then enter_listening ''voice activity detected'' a
      else (Inr (), a))"

section \<open>Payloads\<close>

definition primitive_payload :: "EventEnvelope \<Rightarrow> (pystr \<times> pyval) list" where
  "primitive_payload e = thaw_payload (ev_payload e)"

text \<open>\<open>{**payload, key: value, ...}\<close>.\<close>

definition payload_with :: "(pystr \<times> pyval) list \<Rightarrow> (pystr \<times> pyval) list \<Rightarrow> (pystr \<times> pyval) list" where
  "payload_with payload extra = foldl (\<lambda>d (k, v). AList.update k v d) payload extra"

definition payload_text :: "(pystr \<times> pyval) list \<Rightarrow> string \<Rightarrow> pystr option" where
  "payload_text payload key = (case map_of payload (lit key) of Some (PStr s) \<Rightarrow> Some s | _ \<Rightarrow> None)"

definition payload_value :: "(pystr \<times> pyval) list \<Rightarrow> string \<Rightarrow> pyval" where
  "payload_value payload key = (case map_of payload (lit key) of Some v \<Rightarrow> v | None \<Rightarrow> PNone)"

text \<open>\<open>acknowledged == generation\<close> of a payload value and an \<open>int\<close>.\<close>

definition equals_generation :: "frozen option \<Rightarrow> generation \<Rightarrow> bool" where
  "equals_generation v g =
     (case v of
        Some (FInt i) \<Rightarrow> i = g
      | Some (FBool b) \<Rightarrow> (if b then 1 else 0) = g
      | Some (FFloat q) \<Rightarrow> q = of_int g
      | _ \<Rightarrow> False)"

definition generation_item :: "SessionMessage \<Rightarrow> pystr \<times> pyval" where
  "generation_item m = (lit ''generation'', PInt (message_generation m))"

definition state_item :: "InteractionState \<Rightarrow> pystr \<times> pyval" where
  "state_item s = (lit ''interaction_state'', PStr (state_value s))"

definition plain_draft :: "string \<Rightarrow> (pystr \<times> pyval) list \<Rightarrow> EventPriority \<Rightarrow> draft" where
  "plain_draft ty payload priority =
     \<lparr>dr_type = lit ty, dr_payload = payload, dr_priority = priority, dr_retention = Ret_OPERATIONAL_TRACE\<rparr>"

text \<open>The draft of a handler's publication, with the interaction state at that moment.\<close>

fun handler_draft :: "SessionMessage \<Rightarrow> InteractionState \<Rightarrow> notice \<Rightarrow> draft" where
  "handler_draft m st Pong = plain_draft ''transport.pong'' [generation_item m] Prio_NORMAL"
| "handler_draft m st Neutral_requested =
     plain_draft ''avatar.neutral_requested'' [generation_item m] Prio_CRITICAL"
| "handler_draft m st Playback_acknowledged =
     plain_draft ''playback.acknowledged''
       (payload_with (primitive_payload (sm_event m))
          [(lit ''accepted'',
            PBool (equals_generation (map_of (ev_payload (sm_event m)) (lit ''generation'')) (message_generation m))),
           (lit ''current_generation'', PInt (message_generation m))]) Prio_LOW"
| "handler_draft m st (Transcript_final turn_id utterance_id t) =
     \<lparr>dr_type = lit ''voice.transcript_final'',
      dr_payload =
        [(lit ''turn_id'', PStr (uuid_str turn_id)), generation_item m,
         (lit ''utterance_id'', optional_text utterance_id), (lit ''text'', PStr t),
         (lit ''language'', payload_value (primitive_payload (sm_event m)) ''language''),
         (lit ''confidence'', payload_value (primitive_payload (sm_event m)) ''confidence'')],
      dr_priority = Prio_HIGH, dr_retention = Ret_TRANSCRIPT\<rparr>"
| "handler_draft m st (Turn_accepted turn_id modality) =
     plain_draft ''turn.accepted''
       [(lit ''turn_id'', PStr (uuid_str turn_id)), generation_item m, state_item PROCESSING,
        (lit ''input_modality'', PStr modality)] Prio_NORMAL"
| "handler_draft m st Capture_changed =
     \<lparr>dr_type = ev_type (sm_event m),
      dr_payload = payload_with (primitive_payload (sm_event m)) [generation_item m, state_item st],
      dr_priority = Prio_HIGH, dr_retention = Ret_OPERATIONAL_TRACE\<rparr>"
| "handler_draft m st (Speech_cancelled target) =
     plain_draft ''speech.cancelled'' [generation_item m, state_item target] Prio_CRITICAL"
| "handler_draft m st Barge_in_cancelled =
     plain_draft ''speech.cancelled''
       [generation_item m, state_item st, (lit ''reason'', PStr (lit ''voice_barge_in''))] Prio_CRITICAL"
| "handler_draft m st Speech_detected =
     plain_draft ''voice.speech_started''
       (payload_with (primitive_payload (sm_event m)) [generation_item m, state_item st]) Prio_CRITICAL"
| "handler_draft m st Voice_trace =
     \<lparr>dr_type = ev_type (sm_event m),
      dr_payload = payload_with (primitive_payload (sm_event m)) [generation_item m],
      dr_priority = Prio_LOW, dr_retention = ev_retention (sm_event m)\<rparr>"
| "handler_draft m st Recognition_failed =
     plain_draft ''voice.recognition_failed''
       (payload_with (primitive_payload (sm_event m))
          [generation_item m,
           (lit ''detail'', PStr (lit ''Speech recognition failed; please try again.'')),
           (lit ''recoverable'', PBool True)]) Prio_HIGH"

section \<open>Handlers\<close>

text \<open>
  \<open>persist_message\<close> of the storage coordinator: the write is started, and a child of the session
  awaits it. (The record's constructor raises \<open>ValueError\<close> before that.)
\<close>

definition spawn_write :: "foreground \<Rightarrow> (foreground_error + unit) \<times> foreground" where
  "spawn_write f =
     (case actor_spawn (fg_actor f) (fg_next_child f) of
        (Inl e, a) \<Rightarrow> (Inl (Fg_session e), f\<lparr>fg_actor := a\<rparr>)
      | (Inr _, a) \<Rightarrow>
          (Inr (), f\<lparr>fg_actor := a, fg_writes := fg_writes f @ [fg_next_child f],
                     fg_next_child := Suc (fg_next_child f)\<rparr>))"

definition persist_message :: "foreground \<Rightarrow> MessageRecord \<Rightarrow> (foreground_error + unit) \<times> foreground" where
  "persist_message f r =
     (if \<not> check_message_record r then (Inl Fg_value_error, f)
      else spawn_write (f\<lparr>fg_messages := fg_messages f @ [r]\<rparr>))"

definition persist_snapshot :: "foreground \<Rightarrow> pystr \<Rightarrow> (foreground_error + unit) \<times> foreground" where
  "persist_snapshot f snapshot_id = spawn_write (f\<lparr>fg_snapshots := fg_snapshots f @ [snapshot_id]\<rparr>)"

definition turn_metadata :: "uuid \<Rightarrow> SessionMessage \<Rightarrow> (pystr \<times> pyval) list" where
  "turn_metadata turn_id m = [(lit ''turn_id'', PStr (uuid_str turn_id)), generation_item m]"

definition input_modality :: "(pystr \<times> pyval) list \<Rightarrow> pystr option" where
  "input_modality payload =
     (case map_of payload (lit ''input_modality'') of
        None \<Rightarrow> Some (lit ''text'')
      | Some (PStr s) \<Rightarrow> if s = lit ''text'' \<or> s = lit ''voice'' then Some s else None
      | Some _ \<Rightarrow> None)"

definition user_record ::
  "foreground \<Rightarrow> SessionMessage \<Rightarrow> uuid \<Rightarrow> pystr \<Rightarrow> pystr \<Rightarrow> pystr option \<Rightarrow> pystr \<Rightarrow> MessageRecord" where
  "user_record f m turn_id t modality utterance_id message_id =
     \<lparr>mr_message_id = message_id, mr_session_id = uuid_str (fg_session_id f),
      mr_sequence = fg_message_sequence f + 1, mr_role = Role_USER, mr_content = t,
      mr_created_at = ev_occurred_at (sm_event m), mr_actor_id = ev_actor_id (sm_event m),
      mr_source_event_id = Some (uuid_str (ev_event_id (sm_event m))),
      mr_metadata =
        turn_metadata turn_id m @ [(lit ''input_modality'', PStr modality)] @
        (case utterance_id of None \<Rightarrow> [] | Some u \<Rightarrow> [(lit ''utterance_id'', PStr u)])\<rparr>"

definition accept_turn ::
  "foreground \<Rightarrow> SessionMessage \<Rightarrow> pystr \<Rightarrow> (foreground_error + unit) \<times> foreground" where
  "accept_turn f m message_id =
     (let payload = primitive_payload (sm_event m)
      in (case (payload_text payload ''text'', payload_text payload ''turn_id'', input_modality payload) of
            (Some t, Some raw_turn_id, Some modality) \<Rightarrow>
              (case enter_processing (fg_actor f) of
                 (Inl e, a) \<Rightarrow> (Inl e, f\<lparr>fg_actor := a\<rparr>)
               | (Inr _, a) \<Rightarrow>
                   (case parse_uuid raw_turn_id of
                      None \<Rightarrow> (Inl Fg_value_error, f\<lparr>fg_actor := a\<rparr>)
                    | Some turn_id \<Rightarrow>
                        (let utterance_id = payload_text payload ''utterance_id'';
                             user_sequence = fg_message_sequence f + 1;
                             assistant_sequence = fg_message_sequence f + 2
                         in (case persist_message
                                    (f\<lparr>fg_actor := a, fg_message_sequence := assistant_sequence\<rparr>)
                                    (user_record f m turn_id t modality utterance_id message_id) of
                               (Inl e, f1) \<Rightarrow> (Inl e, f1)
                             | (Inr _, f1) \<Rightarrow>
                                 (Inr (), f1\<lparr>fg_steps :=
                                    (if modality = lit ''voice''
                                     then [Say (Transcript_final turn_id utterance_id t)] else []) @
                                    [Say (Turn_accepted turn_id modality),
                                     Spawn_turn turn_id t user_sequence assistant_sequence]\<rparr>)))))
          | _ \<Rightarrow> (Inl Fg_type_error, f)))"

text \<open>A handler that changes the interaction state first and then publishes.\<close>

definition then_say ::
  "foreground \<Rightarrow> (foreground_error + unit) \<times> session_actor \<Rightarrow> notice list \<Rightarrow>
   (foreground_error + unit) \<times> foreground" where
  "then_say f r notices =
     (case r of
        (Inl e, a) \<Rightarrow> (Inl e, f\<lparr>fg_actor := a\<rparr>)
      | (Inr _, a) \<Rightarrow> (Inr (), f\<lparr>fg_actor := a, fg_steps := map Say notices\<rparr>))"

definition event_barge_in :: "EventEnvelope \<Rightarrow> bool" where
  "event_barge_in e \<longleftrightarrow> map_of (ev_payload e) (lit ''barge_in'') = Some (FBool True)"

definition handle_message ::
  "foreground \<Rightarrow> SessionMessage \<Rightarrow> pystr \<Rightarrow> (foreground_error + unit) \<times> foreground" where
  "handle_message f m message_id =
     (let ty = ev_type (sm_event m); a = fg_actor f; ok = (Inr (), a)
      in if ty = lit ''turn.requested'' then accept_turn f m message_id
         else if ty = lit ''turn.cancel_requested'' then
           then_say f (leave_foreground (cancel_target f) a) [Speech_cancelled (cancel_target f)]
         else if ty = lit ''voice.capture_started'' then
           then_say (f\<lparr>fg_voice_capture_active := True\<rparr>) (capture_started a) [Capture_changed]
         else if ty = lit ''voice.capture_stopped'' then
           then_say (f\<lparr>fg_voice_capture_active := False\<rparr>) (capture_stopped a) [Capture_changed]
         else if ty = lit ''voice.speech_started'' then
           then_say f (speech_started (event_barge_in (sm_event m)) a)
             ((if event_barge_in (sm_event m) then [Barge_in_cancelled] else []) @ [Speech_detected])
         else if ty = lit ''voice.transcript_partial'' then then_say f ok [Voice_trace]
         else if ty = lit ''voice.transcript_empty'' then then_say f ok [Voice_trace]
         else if ty = lit ''voice.recognition_failed'' then then_say f ok [Recognition_failed]
         else if ty = lit ''transport.ping'' then then_say f ok [Pong]
         else if ty = lit ''operator.neutral_avatar_requested'' then then_say f ok [Neutral_requested]
         else if ty = lit ''playback.ack_received'' then then_say f ok [Playback_acknowledged]
         else (Inl (Fg_unsupported ty), f))"

text \<open>The beginning of \<open>publish\<close>; \<open>Inr None\<close>: the generation is stale and it returns \<open>False\<close>.\<close>

definition begin_publication ::
  "foreground \<Rightarrow> SessionMessage \<Rightarrow> draft \<Rightarrow> clock \<Rightarrow> (foreground_error + publication option) \<times> foreground" where
  "begin_publication f m d ck =
     (case output_event (fg_session_id f) (Some (sm_event m)) d ck of
        Inl e \<Rightarrow> (Inl (Fg_event e), f)
      | Inr ev \<Rightarrow>
          (case publish_begin (fg_actor f) ev (message_generation m) of
             (Inl e, a) \<Rightarrow> (Inl (Fg_session e), f\<lparr>fg_actor := a\<rparr>)
           | (Inr None, a) \<Rightarrow> (Inr None, f\<lparr>fg_actor := a\<rparr>)
           | (Inr (Some (stamped, token)), a) \<Rightarrow>
               (Inr (Some (stamped, message_generation m, token)), f\<lparr>fg_actor := a\<rparr>)))"

definition handler_raises :: "foreground \<Rightarrow> foreground_error \<Rightarrow> int \<Rightarrow> foreground" where
  "handler_raises f e now =
     f\<lparr>fg_actor := run_handler_raised (fg_actor f) e now, fg_steps := [], fg_handler_pub := None\<rparr>"

definition new_turn :: "SessionMessage \<Rightarrow> uuid \<Rightarrow> pystr \<Rightarrow> int \<Rightarrow> int \<Rightarrow> nat \<Rightarrow> turn" where
  "new_turn m turn_id t user_sequence assistant_sequence child =
     \<lparr>tn_message = m, tn_turn_id = turn_id, tn_user_text = t, tn_user_sequence = user_sequence,
      tn_assistant_sequence = assistant_sequence, tn_child = child, tn_request = None,
      tn_phase = Loading_history\<rparr>"

definition handler_advances :: "foreground \<Rightarrow> SessionMessage \<Rightarrow> clock \<Rightarrow> int \<Rightarrow> foreground" where
  "handler_advances f m ck now =
     (case fg_steps f of
        [] \<Rightarrow> f\<lparr>fg_actor := run_handler_returned (fg_actor f)\<rparr>
      | Spawn_turn turn_id t user_sequence assistant_sequence # rest \<Rightarrow>
          (case actor_spawn (fg_actor f) (fg_next_child f) of
             (Inl e, a) \<Rightarrow> handler_raises (f\<lparr>fg_actor := a\<rparr>) (Fg_session e) now
           | (Inr _, a) \<Rightarrow>
               f\<lparr>fg_actor := a, fg_steps := rest, fg_next_child := Suc (fg_next_child f),
                 fg_turns := fg_turns f @
                   [new_turn m turn_id t user_sequence assistant_sequence (fg_next_child f)]\<rparr>)
      | Say n # rest \<Rightarrow>
          (case begin_publication f m (handler_draft m (fg_state f) n) ck of
             (Inl e, f1) \<Rightarrow> handler_raises f1 e now
           | (Inr p, f1) \<Rightarrow> f1\<lparr>fg_steps := rest, fg_handler_pub := p\<rparr>))"

definition handler_attempts :: "foreground \<Rightarrow> publication \<Rightarrow> int \<Rightarrow> foreground" where
  "handler_attempts f p now =
     (case publish_attempt (fg_actor f) (fst p) (fst (snd p)) of
        (Inl e, a) \<Rightarrow> handler_raises (f\<lparr>fg_actor := a\<rparr>) (Fg_session e) now
      | (Inr None, a) \<Rightarrow> f\<lparr>fg_actor := a\<rparr>
      | (Inr (Some _), a) \<Rightarrow> f\<lparr>fg_actor := a, fg_handler_pub := None\<rparr>)"

text \<open>One iteration of the actor's loop up to the first wait of the handler.\<close>

definition receive_command :: "foreground \<Rightarrow> pystr \<Rightarrow> int \<Rightarrow> foreground" where
  "receive_command f message_id now =
     (let f1 = f\<lparr>fg_actor := run_get (fg_actor f) now\<rparr>
      in (case fg_handling f1 of
            None \<Rightarrow> f1
          | Some m \<Rightarrow>
              (case handle_message f1 m message_id of
                 (Inl e, f2) \<Rightarrow> handler_raises f2 e now
               | (Inr _, f2) \<Rightarrow> f2)))"

section \<open>Turns\<close>

text \<open>What \<open>compile_for_turn\<close> returns, as far as a turn reads it.\<close>

record context_view =
  cv_snapshot_id :: pystr
  cv_memory_generation :: int
  cv_total_tokens :: int
  cv_rendered_context :: pystr

definition turn_draft ::
  "turn \<Rightarrow> string \<Rightarrow> (pystr \<times> pyval) list \<Rightarrow> EventPriority \<Rightarrow> RetentionClass \<Rightarrow> draft" where
  "turn_draft t ty payload priority retention =
     \<lparr>dr_type = lit ty, dr_payload = turn_metadata (tn_turn_id t) (tn_message t) @ payload,
      dr_priority = priority, dr_retention = retention\<rparr>"

definition snapshot_draft :: "turn \<Rightarrow> context_view \<Rightarrow> draft" where
  "snapshot_draft t c = turn_draft t ''context.snapshot_published''
     [(lit ''snapshot_id'', PStr (cv_snapshot_id c)),
      (lit ''memory_generation'', PInt (cv_memory_generation c)),
      (lit ''estimated_tokens'', PInt (cv_total_tokens c))] Prio_NORMAL Ret_OPERATIONAL_TRACE"

definition segment_draft :: "turn \<Rightarrow> segment \<Rightarrow> draft" where
  "segment_draft t s = turn_draft t ''utterance.segment_ready''
     [(lit ''segment_id'', PStr (uuid_str (sg_segment_id s))), (lit ''sequence'', PInt (int (sg_sequence s))),
      (lit ''speakable_text'', PStr (sg_speakable_text s)),
      (lit ''display_text'', PStr (sg_display_text s))] Prio_NORMAL Ret_OPERATIONAL_TRACE"

definition audio_draft :: "turn \<Rightarrow> segment \<Rightarrow> AudioChunk \<Rightarrow> draft" where
  "audio_draft t s c = turn_draft t ''speech.audio_chunk''
     [(lit ''segment_id'', PStr (uuid_str (sg_segment_id s))),
      (lit ''sequence'', PInt (DialogueTypes.ac_sequence c)),
      (lit ''chunk_index'', PInt (ac_chunk_index c)), (lit ''media_type'', PStr (ac_media_type c)),
      (lit ''sample_rate_hz'', PInt (ac_sample_rate_hz c)), (lit ''is_final'', PBool (ac_is_final c)),
      (lit ''duration_ms'', optional_int (ac_duration_ms c)),
      (lit ''audio_base64'', PStr (base64_encode (ac_audio c)))] Prio_NORMAL Ret_EPHEMERAL_MEDIA"

definition plan_items :: "UtterancePlan \<Rightarrow> (pystr \<times> pyval) list" where
  "plan_items p =
     [(lit ''stop_reason'', PStr (stop_reason_value (up_stop_reason p))),
      (lit ''input_tokens'', optional_int (up_input_tokens p)),
      (lit ''output_tokens'', optional_int (up_output_tokens p))]"

definition empty_output_detail :: "pystr \<Rightarrow> pystr" where
  "empty_output_detail stop_reason =
     (if stop_reason = lit ''length''
      then lit (''The model reached its output limit before producing visible text. '' @
                ''For realtime chat, use reasoning_effort=none or increase the output limit.'')
      else lit ''The model returned no visible text. Please try the turn again.'')"

definition failure_items :: "pystr \<Rightarrow> pystr \<Rightarrow> (pystr \<times> pyval) list" where
  "failure_items error_type detail =
     [(lit ''error_type'', PStr error_type), (lit ''detail'', PStr detail), (lit ''recoverable'', PBool True)]"

definition empty_draft :: "turn \<Rightarrow> UtterancePlan \<Rightarrow> draft" where
  "empty_draft t p = turn_draft t ''turn.failed''
     (failure_items (lit ''ModelEmptyOutput'') (empty_output_detail (stop_reason_value (up_stop_reason p))) @
      plan_items p) Prio_HIGH Ret_OPERATIONAL_TRACE"

definition completed_draft :: "turn \<Rightarrow> UtterancePlan \<Rightarrow> draft" where
  "completed_draft t p = turn_draft t ''utterance.completed''
     ([(lit ''speakable_text'', PStr (plan_speakable_text p)), (lit ''display_text'', PStr (plan_display_text p)),
       (lit ''segment_count'', PInt (int (length (up_segments p))))] @ plan_items p) Prio_NORMAL Ret_TRANSCRIPT"

definition failed_draft :: "turn \<Rightarrow> foreground_error \<Rightarrow> draft" where
  "failed_draft t e = turn_draft t ''turn.failed''
     (failure_items (error_name e) (lit ''The turn failed before a reply could be produced.''))
     Prio_HIGH Ret_OPERATIONAL_TRACE"

definition turn_request :: "foreground \<Rightarrow> turn \<Rightarrow> history \<Rightarrow> context_view \<Rightarrow> DialogueRequest" where
  "turn_request f t h c =
     \<lparr>dq_session_id = fg_session_id f, dq_turn_id = tn_turn_id t, dq_generation = tn_generation t,
      dq_user_text = tn_user_text t,
      dq_system_context =
        (if hy_rendered_context h \<noteq> [] then cv_rendered_context c @ [10] @ hy_rendered_context h
         else cv_rendered_context c),
      dq_metadata =
        [(lit ''context_snapshot_id'', cv_snapshot_id c),
         (lit ''history_message_count'', str_int (int (length (hy_messages h)))),
         (lit ''history_character_count'', str_int (int (character_count h)))]\<rparr>"

definition assistant_record :: "foreground \<Rightarrow> turn \<Rightarrow> UtterancePlan \<Rightarrow> datetime \<Rightarrow> pystr \<Rightarrow> MessageRecord" where
  "assistant_record f t p now message_id =
     \<lparr>mr_message_id = message_id, mr_session_id = uuid_str (fg_session_id f),
      mr_sequence = tn_assistant_sequence t, mr_role = Role_ASSISTANT,
      mr_content = strip (plan_display_text p), mr_created_at = now, mr_actor_id = None,
      mr_source_event_id = Some (uuid_str (ev_event_id (sm_event (tn_message t)))),
      mr_metadata = turn_metadata (tn_turn_id t) (tn_message t)\<rparr>"

definition set_phase :: "foreground \<Rightarrow> nat \<Rightarrow> turn_phase \<Rightarrow> foreground" where
  "set_phase f i ph = f\<lparr>fg_turns := (fg_turns f)[i := (fg_turns f ! i)\<lparr>tn_phase := ph\<rparr>]\<rparr>"

definition turn_ends :: "foreground \<Rightarrow> nat \<Rightarrow> foreground_error child_outcome \<Rightarrow> foreground" where
  "turn_ends f i outcome =
     (set_phase f i Turn_ended)\<lparr>fg_actor := child_done (fg_actor f) (tn_child (fg_turns f ! i)) outcome\<rparr>"

text \<open>\<open>transition_interaction_if_current\<close> of the turn's context.\<close>

definition turn_transit ::
  "foreground \<Rightarrow> nat \<Rightarrow> InteractionState \<Rightarrow> string \<Rightarrow> (foreground_error + bool) \<times> foreground" where
  "turn_transit f i requested reason =
     (case transition_interaction_if_current (fg_actor f) requested (tn_generation (fg_turns f ! i)) (lit reason) of
        (Inl e, a) \<Rightarrow> (Inl (Fg_session e), f\<lparr>fg_actor := a\<rparr>)
      | (Inr b, a) \<Rightarrow> (Inr b, f\<lparr>fg_actor := a\<rparr>))"

definition turn_degrades :: "foreground \<Rightarrow> nat \<Rightarrow> bool \<Rightarrow> string \<Rightarrow> (foreground_error + unit) \<times> foreground" where
  "turn_degrades f i published reason =
     (if published then
        (case turn_transit f i DEGRADED reason of
           (Inl e, f1) \<Rightarrow> (Inl e, f1)
         | (Inr _, f1) \<Rightarrow> (Inr (), turn_ends f1 i Child_returned))
      else (Inr (), turn_ends f i Child_returned))"

text \<open>The turn goes on after a publication that returned \<open>published\<close>.\<close>

fun turn_published ::
  "foreground \<Rightarrow> nat \<Rightarrow> turn_after \<Rightarrow> bool \<Rightarrow> clock \<Rightarrow> pystr \<Rightarrow> (foreground_error + unit) \<times> foreground" where
  "turn_published f i (After_snapshot rq) published ck message_id =
     (if check_dialogue_request rq \<noteq> None then (Inl Fg_value_error, f)
      else (Inr (), f\<lparr>fg_turns := (fg_turns f)[i :=
              (fg_turns f ! i)\<lparr>tn_request := Some rq, tn_phase := In_pipeline True\<rparr>]\<rparr>))"
| "turn_published f i (After_output first) published ck message_id = (Inr (), set_phase f i (In_pipeline first))"
| "turn_published f i After_empty published ck message_id =
     turn_degrades f i published ''model completed without visible output''"
| "turn_published f i (After_completed p first) published ck message_id =
     (if published \<and> strip (plan_display_text p) \<noteq> [] then
        (case persist_message f (assistant_record f (fg_turns f ! i) p (ck_now ck) message_id) of
           (Inl e, f1) \<Rightarrow> (Inl e, f1)
         | (Inr _, f1) \<Rightarrow> (Inr (), set_phase f1 i (In_pipeline first)))
      else (Inr (), set_phase f i (In_pipeline first)))"
| "turn_published f i After_failed published ck message_id =
     turn_degrades f i published ''foreground dialogue failed''"

definition turn_publish ::
  "foreground \<Rightarrow> nat \<Rightarrow> draft \<Rightarrow> turn_after \<Rightarrow> clock \<Rightarrow> pystr \<Rightarrow> (foreground_error + unit) \<times> foreground" where
  "turn_publish f i d after ck message_id =
     (case begin_publication f (tn_message (fg_turns f ! i)) d ck of
        (Inl e, f1) \<Rightarrow> (Inl e, f1)
      | (Inr None, f1) \<Rightarrow> turn_published f1 i after False ck message_id
      | (Inr (Some p), f1) \<Rightarrow> (Inr (), set_phase f1 i (Awaiting_publish p after)))"

text \<open>The \<open>except Exception\<close> clause; what it raises ends the task.\<close>

definition turn_fails :: "foreground \<Rightarrow> nat \<Rightarrow> foreground_error \<Rightarrow> clock \<Rightarrow> pystr \<Rightarrow> foreground" where
  "turn_fails f i e ck message_id =
     (case turn_publish f i (failed_draft (fg_turns f ! i) e) After_failed ck message_id of
        (Inl e1, f1) \<Rightarrow> turn_ends f1 i (Child_raised e1)
      | (Inr _, f1) \<Rightarrow> f1)"

definition turn_tries ::
  "nat \<Rightarrow> clock \<Rightarrow> pystr \<Rightarrow> (foreground_error + unit) \<times> foreground \<Rightarrow> foreground" where
  "turn_tries i ck message_id r =
     (case r of
        (Inl e, f) \<Rightarrow> turn_fails f i e ck message_id
      | (Inr _, f) \<Rightarrow> f)"

text \<open>After \<open>load_recent_history\<close>: compile, persist and publish the context.\<close>

definition turn_loaded ::
  "foreground \<Rightarrow> nat \<Rightarrow> history \<Rightarrow> foreground_error + context_view \<Rightarrow> clock \<Rightarrow> pystr \<Rightarrow>
   (foreground_error + unit) \<times> foreground" where
  "turn_loaded f i h compiled ck message_id =
     (case compiled of
        Inl e \<Rightarrow> (Inl e, f)
      | Inr c \<Rightarrow>
          (case persist_snapshot f (cv_snapshot_id c) of
             (Inl e, f1) \<Rightarrow> (Inl e, f1)
           | (Inr _, f1) \<Rightarrow>
               turn_publish f1 i (snapshot_draft (fg_turns f1 ! i) c)
                 (After_snapshot (turn_request f1 (fg_turns f1 ! i) h c)) ck message_id))"

text \<open>\<open>_finish_interaction_after_turn\<close>, at the end of the pipeline's stream.\<close>

definition turn_finishes :: "foreground \<Rightarrow> nat \<Rightarrow> (foreground_error + unit) \<times> foreground" where
  "turn_finishes f i =
     (case (if fg_state f \<noteq> IDLE then turn_transit f i IDLE ''utterance stream completed'' else (Inr True, f)) of
        (Inl e, f1) \<Rightarrow> (Inl e, f1)
      | (Inr False, f1) \<Rightarrow> (Inr (), turn_ends f1 i Child_returned)
      | (Inr True, f1) \<Rightarrow>
          (if fg_voice_capture_active f1 then
             (case turn_transit f1 i LISTENING ''microphone remains active after utterance'' of
                (Inl e, f2) \<Rightarrow> (Inl e, f2)
              | (Inr _, f2) \<Rightarrow> (Inr (), turn_ends f2 i Child_returned))
           else (Inr (), turn_ends f1 i Child_returned)))"

text \<open>The next thing the pipeline's iterator does, and the turn's reaction up to its next wait.\<close>

datatype pipeline_reply =
  Reply_event DialogueStreamEvent | Reply_end | Reply_cancelled | Reply_raised foreground_error

fun turn_receives ::
  "foreground \<Rightarrow> nat \<Rightarrow> bool \<Rightarrow> pipeline_reply \<Rightarrow> clock \<Rightarrow> pystr \<Rightarrow> (foreground_error + unit) \<times> foreground" where
  "turn_receives f i first (Reply_event (SegmentReady turn_id g s)) ck message_id =
     (case (if first then turn_transit f i SPEAKING ''first validated utterance segment'' else (Inr True, f)) of
        (Inl e, f1) \<Rightarrow> (Inl e, f1)
      | (Inr False, f1) \<Rightarrow> (Inr (), turn_ends f1 i Child_returned)
      | (Inr True, f1) \<Rightarrow>
          turn_publish f1 i (segment_draft (fg_turns f1 ! i) s) (After_output False) ck message_id)"
| "turn_receives f i first (Reply_event (SegmentAudioReady turn_id g s c)) ck message_id =
     turn_publish f i (audio_draft (fg_turns f ! i) s c) (After_output first) ck message_id"
| "turn_receives f i first (Reply_event (UtteranceCompleted turn_id g p)) ck message_id =
     (if up_segments p = [] then turn_publish f i (empty_draft (fg_turns f ! i) p) After_empty ck message_id
      else (Inr (), set_phase f i (Awaiting_registration p first)))"
| "turn_receives f i first Reply_end ck message_id = turn_finishes f i"
| "turn_receives f i first Reply_cancelled ck message_id = (Inr (), turn_ends f i Child_returned)"
| "turn_receives f i first (Reply_raised e) ck message_id = (Inl e, f)"

text \<open>The registration lock is held while \<open>utterance.completed\<close> is being published.\<close>

fun holds_registration :: "turn_phase \<Rightarrow> bool" where
  "holds_registration (Awaiting_publish p (After_completed plan first)) = True"
| "holds_registration _ = False"

definition registration_free :: "foreground \<Rightarrow> bool" where
  "registration_free f \<longleftrightarrow> list_all (\<lambda>t. \<not> holds_registration (tn_phase t)) (fg_turns f)"

text \<open>A publication of the turn is resolved.\<close>

definition turn_resolved ::
  "foreground \<Rightarrow> nat \<Rightarrow> turn_after \<Rightarrow> bool \<Rightarrow> clock \<Rightarrow> pystr \<Rightarrow> foreground" where
  "turn_resolved f i after published ck message_id =
     (case turn_published f i after published ck message_id of
        (Inl e, f1) \<Rightarrow>
          (if after = After_failed then turn_ends f1 i (Child_raised e) else turn_fails f1 i e ck message_id)
      | (Inr _, f1) \<Rightarrow> f1)"

definition turn_attempts ::
  "foreground \<Rightarrow> nat \<Rightarrow> publication \<Rightarrow> turn_after \<Rightarrow> clock \<Rightarrow> pystr \<Rightarrow> foreground" where
  "turn_attempts f i p after ck message_id =
     (case publish_attempt (fg_actor f) (fst p) (fst (snd p)) of
        (Inl e, a) \<Rightarrow>
          (if after = After_failed then turn_ends (f\<lparr>fg_actor := a\<rparr>) i (Child_raised (Fg_session e))
           else turn_fails (f\<lparr>fg_actor := a\<rparr>) i (Fg_session e) ck message_id)
      | (Inr None, a) \<Rightarrow> f\<lparr>fg_actor := a\<rparr>
      | (Inr (Some b), a) \<Rightarrow> turn_resolved (f\<lparr>fg_actor := a\<rparr>) i after b ck message_id)"

section \<open>The session as a machine\<close>

datatype foreground_op =
  Op_call call clock int
| Op_submit_attempt nat
| Op_submit_cancelled nat
| Op_receive
| Op_schedule
| Op_get pystr int
| Op_announce clock
| Op_announce_attempt
| Op_handler clock int
| Op_handler_attempt int
| Op_handler_cancelled
| Op_write_done nat "pystr option"
| Op_history nat "foreground_error + history" "foreground_error + context_view" clock clock pystr
| Op_pipeline nat pipeline_reply clock clock pystr
| Op_register nat clock clock pystr
| Op_turn_attempt nat clock pystr
| Op_turn_cancelled nat clock pystr

definition foreground_reason :: "call \<Rightarrow> pystr" where
  "foreground_reason c =
     (case c of
        Cancel reason \<Rightarrow> reason
      | Voice_speech_started e barge_in \<Rightarrow> lit ''voice_barge_in''
      | Voice_transcript_final e turn_id \<Rightarrow> lit ''voice_transcript_ready''
      | _ \<Rightarrow> lit ''foreground turn replaced'')"

text \<open>
  A call that waits keeps, if it is a voice lifecycle call, the event with which
  \<open>_submit_voice_lifecycle\<close> tries again after a cancellation.
\<close>

definition retried_event :: "call \<Rightarrow> EventEnvelope \<Rightarrow> EventEnvelope option" where
  "retried_event c e =
     (case c of
        Voice_capture_started stream fmt \<Rightarrow> Some e
      | Voice_capture_stopped stream reason \<Rightarrow> Some e
      | _ \<Rightarrow> None)"

definition await_admission ::
  "foreground \<Rightarrow> EventEnvelope option \<Rightarrow> (session_error + SessionMessage) \<times> session_actor \<Rightarrow> foreground" where
  "await_admission f retry r =
     (case r of
        (Inl _, a) \<Rightarrow> f\<lparr>fg_actor := a\<rparr>
      | (Inr m, a) \<Rightarrow> f\<lparr>fg_actor := a, fg_submits := fg_submits f @ [(m, retry)]\<rparr>)"

definition submit_call :: "foreground \<Rightarrow> call \<Rightarrow> clock \<Rightarrow> int \<Rightarrow> foreground" where
  "submit_call f c ck now =
     (case request_of c of
        None \<Rightarrow> f
      | Some r \<Rightarrow>
          (case request_event (fg_session_id f) ck r of
             Inl _ \<Rightarrow> f
           | Inr e \<Rightarrow>
               (case mode_of c of
                  Foreground_now \<Rightarrow>
                    f\<lparr>fg_actor := snd (submit_foreground_turn (fg_actor f) e (foreground_reason c) now)\<rparr>
                | Foreground_wait \<Rightarrow>
                    await_admission f None
                      (submit_foreground_wait_begin (fg_actor f) e (foreground_reason c) now)
                | Plain_now \<Rightarrow> f\<lparr>fg_actor := snd (submit (fg_actor f) e)\<rparr>
                | Plain_wait \<Rightarrow>
                    await_admission f (retried_event c e) (submit_wait_begin (fg_actor f) e))))"

text \<open>A waiting call is cancelled: a lifecycle event is submitted again.\<close>

definition retry_submission :: "foreground \<Rightarrow> nat \<Rightarrow> session_actor \<Rightarrow> foreground" where
  "retry_submission f i a =
     (let f1 = f\<lparr>fg_actor := a, fg_submits := pop_at i (fg_submits f)\<rparr>
      in (case snd (fg_submits f ! i) of
            None \<Rightarrow> f1
          | Some e \<Rightarrow> await_admission f1 (Some e) (submit_wait_begin a e)))"

definition attempt_submission :: "foreground \<Rightarrow> nat \<Rightarrow> foreground" where
  "attempt_submission f i =
     (case submit_stamped_attempt (fg_actor f) (fst (fg_submits f ! i)) of
        (Inr None, a) \<Rightarrow> f\<lparr>fg_actor := a\<rparr>
      | (Inr (Some s), a) \<Rightarrow>
          (if sb_outcome s = CANCELLED then retry_submission f i a
           else f\<lparr>fg_actor := a, fg_submits := pop_at i (fg_submits f)\<rparr>)
      | (Inl _, a) \<Rightarrow> f\<lparr>fg_actor := a, fg_submits := pop_at i (fg_submits f)\<rparr>)"

definition ready_payload :: "foreground \<Rightarrow> (pystr \<times> pyval) list" where
  "ready_payload f =
     [(lit ''generation'', PInt 0), state_item IDLE, (lit ''voice_input'', fg_voice_config f)]"

text \<open>The publication in \<open>start\<close>. (If it raises, \<open>start\<close> stops the session, which the model does not follow.)\<close>

definition announce :: "foreground \<Rightarrow> clock \<Rightarrow> foreground" where
  "announce f ck =
     (case output_event (fg_session_id f) None (plain_draft ''session.ready'' (ready_payload f) Prio_NORMAL) ck of
        Inl _ \<Rightarrow> f
      | Inr ev \<Rightarrow>
          (case publish_begin (fg_actor f) ev (fg_current f) of
             (Inr (Some (stamped, token)), a) \<Rightarrow>
               f\<lparr>fg_actor := a, fg_ready := Announcing (stamped, fg_current f, token)\<rparr>
           | (_, a) \<Rightarrow> f\<lparr>fg_actor := a, fg_ready := Announced\<rparr>))"

text \<open>
  The machine stops when a child of the session failed: \<open>_child_done\<close> then cancels the actor, whose
  shutdown is the subject of \<open>SessionLife\<close>.
\<close>

definition fg_failed :: "foreground \<Rightarrow> bool" where
  "fg_failed f \<longleftrightarrow> ac_failure (fg_actor f) \<noteq> None"

fun fg_step :: "foreground \<Rightarrow> foreground_op \<Rightarrow> foreground" where
  "fg_step f (Op_call c ck now) = submit_call f c ck now"
| "fg_step f (Op_submit_attempt i) = (if i < length (fg_submits f) then attempt_submission f i else f)"
| "fg_step f (Op_submit_cancelled i) =
     (if i < length (fg_submits f) \<and>
         token_cancelled (ac_cancellation (fg_actor f)) (sm_token (fst (fg_submits f ! i)))
      then retry_submission f i (snd (submit_stamped_cancelled (fg_actor f) (fst (fg_submits f ! i)))) else f)"
| "fg_step f Op_receive = f\<lparr>fg_actor := snd (receive_output (fg_actor f))\<rparr>"
| "fg_step f Op_schedule =
     (if ac_task (fg_actor f) = Task_created then f\<lparr>fg_actor := run_schedule (fg_actor f)\<rparr> else f)"
| "fg_step f (Op_get message_id now) =
     (if ac_task (fg_actor f) = Task_getting then receive_command f message_id now else f)"
| "fg_step f (Op_announce ck) = (if fg_ready f = Not_announced then announce f ck else f)"
| "fg_step f Op_announce_attempt =
     (case fg_ready f of
        Announcing p \<Rightarrow>
          (case publish_attempt (fg_actor f) (fst p) (fst (snd p)) of
             (Inr None, a) \<Rightarrow> f\<lparr>fg_actor := a\<rparr>
           | (_, a) \<Rightarrow> f\<lparr>fg_actor := a, fg_ready := Announced\<rparr>)
      | _ \<Rightarrow> f)"
| "fg_step f (Op_handler ck now) =
     (case (fg_handling f, fg_handler_pub f) of
        (Some m, None) \<Rightarrow> handler_advances f m ck now
      | _ \<Rightarrow> f)"
| "fg_step f (Op_handler_attempt now) =
     (case (fg_handling f, fg_handler_pub f) of
        (Some m, Some p) \<Rightarrow> handler_attempts f p now
      | _ \<Rightarrow> f)"
| "fg_step f Op_handler_cancelled =
     (case (fg_handling f, fg_handler_pub f) of
        (Some m, Some p) \<Rightarrow>
          if token_cancelled (ac_cancellation (fg_actor f)) (snd (snd p))
          then f\<lparr>fg_actor := snd (publish_cancelled (fg_actor f)), fg_handler_pub := None\<rparr> else f
      | _ \<Rightarrow> f)"
| "fg_step f (Op_write_done i failure) =
     (if i < length (fg_writes f) then
        f\<lparr>fg_actor := child_done (fg_actor f) (fg_writes f ! i)
             (case failure of None \<Rightarrow> Child_returned | Some name \<Rightarrow> Child_raised (Fg_external name)),
          fg_writes := pop_at i (fg_writes f)\<rparr>
      else f)"
| "fg_step f (Op_history i loaded compiled ck ck' message_id) =
     (if i < length (fg_turns f) \<and> tn_phase (fg_turns f ! i) = Loading_history then
        turn_tries i ck' message_id
          (case loaded of
             Inl e \<Rightarrow> (Inl e, f)
           | Inr h \<Rightarrow> turn_loaded f i h compiled ck message_id)
      else f)"
| "fg_step f (Op_pipeline i reply ck ck' message_id) =
     (if i < length (fg_turns f) then
        (case tn_phase (fg_turns f ! i) of
           In_pipeline first \<Rightarrow> turn_tries i ck' message_id (turn_receives f i first reply ck message_id)
         | _ \<Rightarrow> f)
      else f)"
| "fg_step f (Op_register i ck ck' message_id) =
     (if i < length (fg_turns f) \<and> registration_free f then
        (case tn_phase (fg_turns f ! i) of
           Awaiting_registration p first \<Rightarrow>
             turn_tries i ck' message_id
               (turn_publish f i (completed_draft (fg_turns f ! i) p) (After_completed p first) ck message_id)
         | _ \<Rightarrow> f)
      else f)"
| "fg_step f (Op_turn_attempt i ck message_id) =
     (if i < length (fg_turns f) then
        (case tn_phase (fg_turns f ! i) of
           Awaiting_publish p after \<Rightarrow> turn_attempts f i p after ck message_id
         | _ \<Rightarrow> f)
      else f)"
| "fg_step f (Op_turn_cancelled i ck message_id) =
     (if i < length (fg_turns f) then
        (case tn_phase (fg_turns f ! i) of
           Awaiting_publish p after \<Rightarrow>
             if token_cancelled (ac_cancellation (fg_actor f)) (snd (snd p))
             then turn_resolved (f\<lparr>fg_actor := snd (publish_cancelled (fg_actor f))\<rparr>) i after False ck message_id
             else f
         | _ \<Rightarrow> f)
      else f)"

definition fg_apply :: "foreground \<Rightarrow> foreground_op \<Rightarrow> foreground" where
  "fg_apply f p = (if fg_failed f then f else fg_step f p)"

definition fg_init :: "session_actor \<Rightarrow> pyval \<Rightarrow> foreground" where
  "fg_init a voice_config =
     \<lparr>fg_actor = snd (actor_start a), fg_voice_config = voice_config, fg_voice_capture_active = False,
      fg_message_sequence = 0, fg_submits = [], fg_ready = Not_announced, fg_steps = [], fg_handler_pub = None,
      fg_turns = [], fg_messages = [], fg_snapshots = [], fg_writes = [], fg_next_child = 0\<rparr>"

end
