(* ===== verification/ForegroundActor.thy ===== *)
theory ForegroundActor
  imports Foreground
begin

text \<open>
  What the actor's operations do to the parts of the actor that a foreground session depends on: the
  queue of commands, the current generation, the interaction state, and whether the actor still runs.
\<close>

section \<open>Mailboxes that drop the lowest\<close>

definition same_policy :: "('a, 'k) mailbox \<Rightarrow> ('a, 'k) mailbox \<Rightarrow> bool" where
  "same_policy m m' \<longleftrightarrow> mb_priority_of m' = mb_priority_of m \<and> mb_overflow m' = mb_overflow m \<and>
     mb_closed m' = mb_closed m"

lemma same_policy_refl [simp]: "same_policy m m"
  by (simp add: same_policy_def)

text \<open>
  A put leaves the queue as it was, or appends the item, possibly after one entry was removed; then
  \<open>accept_if\<close> was not false.
\<close>

definition put_effect :: "('a, 'k) mailbox \<Rightarrow> 'a \<Rightarrow> int \<Rightarrow> bool option \<Rightarrow> ('a, 'k) mailbox \<Rightarrow> bool" where
  "put_effect m x p acc m' \<longleftrightarrow> same_policy m m' \<and>
     (mb_items m' = mb_items m \<or>
      acc \<noteq> Some False \<and>
      (\<exists>i. mb_items m' = pop_at i (mb_items m) @ [\<lparr>e_item = x, e_priority = p, e_order = mb_next_order m\<rparr>]))"

lemma pop_at_length [simp]: "pop_at (length xs) xs = xs"
  by (simp add: pop_at_def)

lemma try_put_effect:
  assumes "mb_overflow m = DROP_LOWEST"
  shows "put_effect m x p acc (snd (try_put_locked m x p rej acc allow))"
    and "\<not> mb_closed m \<Longrightarrow> fst (try_put_locked m x p rej acc allow) \<noteq> Inl e"
    and "fst (try_put_locked m x p rej acc allow) \<noteq> Inl MailboxTypeError"
proof -
  have append: "\<exists>i. mb_items m @ [y] = pop_at i (mb_items m) @ [y]" for y
    by (rule exI [of _ "length (mb_items m)"]) simp
  show "put_effect m x p acc (snd (try_put_locked m x p rej acc allow))"
    using append assms
    by (auto simp: put_effect_def try_put_locked_def same_policy_def mb_append_def Let_def)
qed (use assms in \<open>auto simp: try_put_locked_def Let_def\<close>)

lemma put_effect_pop:
  assumes "put_effect m x p acc m'" "mb_items m' \<noteq> mb_items m"
  obtains i where "acc \<noteq> Some False"
    "mb_items m' = pop_at i (mb_items m) @ [\<lparr>e_item = x, e_priority = p, e_order = mb_next_order m\<rparr>]"
  using assms by (auto simp: put_effect_def)

section \<open>Inbox and outbox\<close>

definition inbox_ok :: "(SessionMessage, unit) mailbox \<Rightarrow> bool" where
  "inbox_ok m \<longleftrightarrow> mailbox_inv m \<and> \<not> mb_closed m \<and> mb_overflow m = DROP_LOWEST \<and>
     mb_priority_of m = (\<lambda>x. Some (ev_priority (sm_event x))) \<and>
     (\<forall>e \<in> set (mb_items m). e_priority e = ev_priority (sm_event (e_item e)))"

definition outbox_ok :: "(EventEnvelope, unit) mailbox \<Rightarrow> bool" where
  "outbox_ok m \<longleftrightarrow> mb_overflow m = DROP_LOWEST \<and> mb_priority_of m = (\<lambda>e. Some (ev_priority e))"

definition queue :: "session_actor \<Rightarrow> SessionMessage list" where
  "queue a = map e_item (mb_items (ac_inbox a))"

text \<open>A put into the inbox, seen on the queue.\<close>

definition queued :: "session_actor \<Rightarrow> SessionMessage \<Rightarrow> session_actor \<Rightarrow> bool" where
  "queued a x b \<longleftrightarrow> (\<exists>i. queue b = pop_at i (queue a) @ [x])"

lemma inbox_ok_put:
  assumes ok: "inbox_ok m" and eff: "put_effect m x (ev_priority (sm_event x)) acc m'" and inv: "mailbox_inv m'"
  shows "inbox_ok m'"
proof -
  have "e_priority e = ev_priority (sm_event (e_item e))" if "e \<in> set (mb_items m')" for e
  proof (cases "mb_items m' = mb_items m")
    case True
    then show ?thesis using ok that by (simp add: inbox_ok_def)
  next
    case False
    then obtain i where "mb_items m' = pop_at i (mb_items m) @
        [\<lparr>e_item = x, e_priority = ev_priority (sm_event x), e_order = mb_next_order m\<rparr>]"
      by (rule put_effect_pop [OF eff])
    then have "e \<in> set (mb_items m) \<or> e = \<lparr>e_item = x, e_priority = ev_priority (sm_event x), e_order = mb_next_order m\<rparr>"
      using that set_pop_at_subset [of i "mb_items m"] by auto
    then show ?thesis using ok by (auto simp: inbox_ok_def)
  qed
  then show ?thesis using ok inv eff by (simp add: inbox_ok_def put_effect_def same_policy_def)
qed

lemma mb_put_inbox:
  assumes "inbox_ok m"
  shows "inbox_ok (snd (mb_put m x))" and "put_effect m x (ev_priority (sm_event x)) None (snd (mb_put m x))"
proof -
  show eff: "put_effect m x (ev_priority (sm_event x)) None (snd (mb_put m x))"
    using assms by (simp add: mb_put_def inbox_ok_def try_put_effect(1))
  show "inbox_ok (snd (mb_put m x))"
    by (rule inbox_ok_put [OF assms eff]) (use assms mb_put_inv [of m x] in \<open>simp add: inbox_ok_def\<close>)
qed

lemma put_wait_inbox:
  assumes "inbox_ok m"
  shows "inbox_ok (snd (mb_put_wait m x acc allow []))"
    and "put_effect m x (ev_priority (sm_event x)) acc (snd (mb_put_wait m x acc allow []))"
proof -
  show eff: "put_effect m x (ev_priority (sm_event x)) acc (snd (mb_put_wait m x acc allow []))"
    using assms by (simp add: put_wait_attempt inbox_ok_def try_put_effect(1))
  show "inbox_ok (snd (mb_put_wait m x acc allow []))"
    by (rule inbox_ok_put [OF assms eff])
      (use assms mb_apply_inv [of m "Op_put_attempt x acc allow"] in \<open>simp add: inbox_ok_def\<close>)
qed

lemma put_wait_error:
  assumes "mb_overflow m = DROP_LOWEST" "mb_priority_of m x = Some p"
    "fst (mb_put_wait m x acc allow []) = Some (Inl e)"
  shows "e \<noteq> MailboxTypeError" "\<not> mb_closed m \<Longrightarrow> False"
  using assms try_put_effect(2,3) [OF assms(1), where x = x and p = p and rej = False and acc = acc and allow = allow]
  by (auto simp: mb_put_wait_def put_wait_loop.simps split: sum.splits prod.splits option.splits)

lemma try_put_errors: "fst (try_put_locked m x p rej acc allow) = Inl e \<Longrightarrow> e \<in> {MailboxClosed, MailboxTypeError}"
  by (auto simp: try_put_locked_def Let_def split: if_splits option.splits)

section \<open>Frames\<close>

text \<open>
  \<open>aside a b\<close>: nothing but the queue, the generations and the outbox changed. \<open>steady a b\<close>: nor the
  queue and the generations.
\<close>

definition aside :: "session_actor \<Rightarrow> session_actor \<Rightarrow> bool" where
  "aside a b \<longleftrightarrow> ac_interaction b = ac_interaction a \<and> ac_task b = ac_task a \<and>
     ac_lifecycle b = ac_lifecycle a \<and> ac_failure b = ac_failure a \<and>
     ac_session_id b = ac_session_id a \<and> ac_cancel_requested b = ac_cancel_requested a \<and>
     ac_sequence a \<le> ac_sequence b \<and> (outbox_ok (ac_outbox a) \<longrightarrow> outbox_ok (ac_outbox b))"

definition steady :: "session_actor \<Rightarrow> session_actor \<Rightarrow> bool" where
  "steady a b \<longleftrightarrow> aside a b \<and> ac_inbox b = ac_inbox a \<and> ac_cancellation b = ac_cancellation a"

lemma aside_refl [simp]: "aside a a" and steady_refl [simp]: "steady a a"
  by (simp_all add: steady_def aside_def)

lemma steady_trans: "steady a b \<Longrightarrow> steady b c \<Longrightarrow> steady a c"
  by (auto simp: steady_def aside_def)

text \<open>A live actor, and its generation.\<close>

definition current_of :: "session_actor \<Rightarrow> generation" where
  "current_of a = src_generation (ac_cancellation a)"

definition granting :: "cancel_source \<Rightarrow> bool" where
  "granting s \<longleftrightarrow> source_inv s \<and> \<not> src_closed s \<and> \<not> cs_event (current_state s)"

definition actor_ok :: "session_actor \<Rightarrow> bool" where
  "actor_ok a \<longleftrightarrow> ac_lifecycle a = Life_RUNNING \<and> ac_failure a = None \<and> \<not> ac_cancel_requested a \<and>
     0 \<le> ac_sequence a \<and> granting (ac_cancellation a) \<and> inbox_ok (ac_inbox a) \<and> outbox_ok (ac_outbox a)"

lemma actor_ok_aside:
  "actor_ok a \<Longrightarrow> aside a b \<Longrightarrow> inbox_ok (ac_inbox b) \<Longrightarrow> granting (ac_cancellation b) \<Longrightarrow> actor_ok b"
  by (auto simp: actor_ok_def aside_def)

lemma actor_ok_steady: "actor_ok a \<Longrightarrow> steady a b \<Longrightarrow> actor_ok b"
  by (auto simp: actor_ok_def aside_def steady_def)

lemma granting_current: "granting s \<Longrightarrow>
    ensure_current s g = (if g = src_generation s then Inr (source_token s)
      else Inl (StaleGenerationError g (src_generation s) False))"
  by (simp add: granting_def ensure_current_def)

lemma granting_accepts: "granting s \<Longrightarrow> accepts s g \<longleftrightarrow> g = src_generation s"
  by (auto simp: granting_def accepts_def)

lemma granting_advance:
  assumes "granting s"
  shows "advance s reason now = (Inl CancelValueError, s) \<or>
    (\<exists>t s'. advance s reason now = (Inr t, s') \<and> tk_generation t = src_generation s + 1 \<and>
       src_generation s' = src_generation s + 1 \<and> granting s')"
proof (cases "blank reason")
  case True
  then show ?thesis by (simp add: advance_def)
next
  case False
  then obtain t s' where adv: "advance s reason now = (Inr t, s')" "tk_generation t = src_generation s + 1"
    "\<forall>g. accepts s' g \<longleftrightarrow> g = src_generation s + 1"
    using assms advance_revokes_then_grants [of s reason now] by (auto simp: granting_def)
  moreover have "source_inv s'"
    using assms advance_inv [of s reason now] adv(1) by (simp add: granting_def)
  moreover have "accepts s' (src_generation s + 1)" using adv(3) by simp
  ultimately show ?thesis by (auto simp: granting_def accepts_def)
qed

section \<open>Publication\<close>

lemma outbox_put_wait:
  assumes "outbox_ok m"
  shows "outbox_ok (snd (mb_put_wait m x acc allow []))"
    and "fst (mb_put_wait m x acc allow []) \<noteq> Some (Inl MailboxTypeError)"
    and "fst (mb_put_wait m x acc allow []) \<noteq> Some (Inl MailboxValueError)"
proof -
  show "outbox_ok (snd (mb_put_wait m x acc allow []))"
    using assms try_put_effect(1) [of m x "ev_priority x" acc False allow]
    by (simp add: put_wait_attempt outbox_ok_def put_effect_def same_policy_def)
  have "mb_overflow m = DROP_LOWEST" "mb_priority_of m x = Some (ev_priority x)"
    using assms by (simp_all add: outbox_ok_def)
  from put_wait_error(1) [OF this] show "fst (mb_put_wait m x acc allow []) \<noteq> Some (Inl MailboxTypeError)"
    by blast
  show "fst (mb_put_wait m x acc allow []) \<noteq> Some (Inl MailboxValueError)"
    using try_put_errors [of m x "ev_priority x" False acc allow] assms
    by (auto simp: outbox_ok_def mb_put_wait_def put_wait_loop.simps split: sum.splits prod.splits option.splits)
qed

lemma observe_steady [simp]: "steady a (observe_event a e)"
  by (auto simp: observe_event_def steady_def aside_def split: option.split)

lemma stamp_own:
  assumes "envelope_ok e" "ev_session_id e = Some (ac_session_id a)" "0 \<le> ac_sequence a"
  shows "stamp a e = (Inr (e\<lparr>ev_sequence := Some (ac_sequence a)\<rparr>), a\<lparr>ac_sequence := ac_sequence a + 1\<rparr>)"
    and "envelope_ok (e\<lparr>ev_sequence := Some (ac_sequence a)\<rparr>)"
  using with_sequence_ok [OF assms(1,3)] assms(2)
  by (simp_all add: stamp_def for_session_def Let_def)

lemma publish_begin_own:
  assumes "actor_ok a" "envelope_ok e" "ev_session_id e = Some (ac_session_id a)"
  shows "(fst (publish_begin a e g) = Inr None \<or> (\<exists>st t. fst (publish_begin a e g) = Inr (Some (st, t)))) \<and>
    steady a (snd (publish_begin a e g))"
proof -
  have "0 \<le> ac_sequence a" "granting (ac_cancellation a)" using assms(1) by (simp_all add: actor_ok_def)
  then show ?thesis
    using stamp_own(1) [OF assms(2,3)] by (simp add: publish_begin_def granting_current steady_def aside_def)
qed

lemma publish_attempt_own:
  assumes "actor_ok a"
  shows "(\<exists>r. fst (publish_attempt a st g) = Inr r) \<and> steady a (snd (publish_attempt a st g))"
proof -
  let ?w = "mb_put_wait (ac_outbox a) st (Some (accepts (ac_cancellation a) g)) True []"
  have ob: "outbox_ok (ac_outbox a)" using assms by (simp add: actor_ok_def)
  then have ok: "outbox_ok (snd ?w)" by (rule outbox_put_wait(1))
  have st: "steady a (a\<lparr>ac_outbox := snd ?w\<rparr>)" using ok by (simp add: steady_def aside_def)
  have st': "steady a (observe_event (a\<lparr>ac_outbox := snd ?w\<rparr>) st)"
    using steady_trans [OF st observe_steady] .
  have st'': "steady a (a\<lparr>ac_outbox := snd ?w, ac_stale_results := Suc (ac_stale_results a)\<rparr>)"
    using ok by (simp add: steady_def aside_def)
  have "fst ?w = None \<or> fst ?w = Some (Inl MailboxClosed) \<or> (\<exists>r. fst ?w = Some (Inr r))"
    using outbox_put_wait(2,3) [OF ob, of st "Some (accepts (ac_cancellation a) g)" True]
    by (cases "fst ?w"; cases "the (fst ?w)"; cases "projl (the (fst ?w))") auto
  then show ?thesis
    using st st' st'' by (cases ?w) (auto simp: publish_attempt_def Let_def split: option.splits)
qed

lemma publish_cancelled_steady: "steady a (snd (publish_cancelled a))"
  by (simp add: publish_cancelled_def steady_def aside_def outbox_ok_def)

lemma receive_steady: "steady a (snd (receive_output a))"
proof -
  have "outbox_ok (snd (mb_get (ac_outbox a)))" if "outbox_ok (ac_outbox a)"
    using that by (auto simp: outbox_ok_def mb_get_def Let_def)
  then show ?thesis
    by (auto simp: receive_output_def steady_def aside_def split: prod.splits sum.splits)
qed

lemma spawn_own: "actor_ok a \<Longrightarrow> fst (actor_spawn a c) = Inr () \<and> steady a (snd (actor_spawn a c))"
  by (simp add: actor_ok_def actor_spawn_def steady_def aside_def)

lemma child_returned_steady: "steady a (child_done a c Child_returned)"
  by (simp add: child_done_def steady_def aside_def)

section \<open>Interaction\<close>

definition interacts :: "session_actor \<Rightarrow> InteractionState \<Rightarrow> session_actor \<Rightarrow> bool" where
  "interacts a s b \<longleftrightarrow> (\<exists>m. b = a\<lparr>ac_interaction := m\<rparr> \<and> im_state m = s)"

lemma actor_ok_interacts: "actor_ok a \<Longrightarrow> interacts a s b \<Longrightarrow> actor_ok b"
  by (auto simp: interacts_def actor_ok_def)

lemma interacts_self: "im_state (ac_interaction a) = s \<Longrightarrow> interacts a s a"
  by (auto simp: interacts_def intro: exI [of _ "ac_interaction a"])

lemma interacts_state: "interacts a s b \<Longrightarrow> im_state (ac_interaction b) = s"
  by (auto simp: interacts_def)

lemma interacts_trans: "interacts a s b \<Longrightarrow> interacts b t c \<Longrightarrow> interacts a t c"
  by (auto simp: interacts_def)

lemma interactsI: "im_state m = s \<Longrightarrow> interacts a s (a\<lparr>ac_interaction := m\<rparr>)"
  by (auto simp: interacts_def)

lemma transition_own:
  assumes "actor_ok a" "q \<in> transitions (im_state (ac_interaction a))" "\<not> blank r"
  obtains b where "transition_interaction a q r = (Inr (), b)" "interacts a q b"
proof
  let ?m = "\<lparr>im_state = q, im_revision = Suc (im_revision (ac_interaction a))\<rparr>"
  show "transition_interaction a q r = (Inr (), a\<lparr>ac_interaction := ?m\<rparr>)"
    using assms by (simp add: transition_interaction_def transition_def actor_ok_def Let_def)
  show "interacts a q (a\<lparr>ac_interaction := ?m\<rparr>)" by (rule interactsI) simp
qed

lemma transit_own:
  assumes "actor_ok a" "q \<in> transitions (im_state (ac_interaction a))" "\<not> blank (lit r)"
  obtains b where "transit q r a = (Inr (), b)" "interacts a q b"
proof -
  obtain b where "transition_interaction a q (lit r) = (Inr (), b)" "interacts a q b"
    by (rule transition_own [OF assms])
  then show thesis by (intro that [of b]) (simp_all add: transit_def)
qed

lemma transit_twice_own:
  assumes "actor_ok a" "q \<in> transitions (im_state (ac_interaction a))" "q' \<in> transitions q"
    "\<not> blank (lit r)" "\<not> blank (lit r')"
  obtains b where "transit_twice (q, r) (q', r') a = (Inr (), b)" "interacts a q' b"
proof -
  obtain b where b: "transit q r a = (Inr (), b)" "interacts a q b"
    using transit_own [OF assms(1,2,4)] .
  have "q' \<in> transitions (im_state (ac_interaction b))" using b(2) assms(3) by (simp add: interacts_state)
  then obtain c where "transit q' r' b = (Inr (), c)" "interacts b q' c"
    using transit_own [OF actor_ok_interacts [OF assms(1) b(2)]] assms(5) by blast
  then show thesis using that [of c] b interacts_trans by (simp add: transit_twice_def)
qed

text \<open>The moves of a handler succeed and end in the state they are after.\<close>

definition settles :: "session_actor \<Rightarrow> InteractionState \<Rightarrow> (foreground_error + unit) \<times> session_actor \<Rightarrow> bool" where
  "settles a s r \<longleftrightarrow> (\<exists>b. r = (Inr (), b) \<and> interacts a s b)"

lemma settles_transit:
  "actor_ok a \<Longrightarrow> q \<in> transitions (im_state (ac_interaction a)) \<Longrightarrow> \<not> blank (lit r) \<Longrightarrow>
   settles a q (transit q r a)"
  unfolding settles_def by (meson transit_own)

lemma settles_twice:
  "actor_ok a \<Longrightarrow> q \<in> transitions (im_state (ac_interaction a)) \<Longrightarrow> q' \<in> transitions q \<Longrightarrow>
   \<not> blank (lit r) \<Longrightarrow> \<not> blank (lit r') \<Longrightarrow> settles a q' (transit_twice (q, r) (q', r') a)"
  unfolding settles_def by (meson transit_twice_own)

lemma settles_same: "im_state (ac_interaction a) = s \<Longrightarrow> settles a s (Inr (), a)"
  by (simp add: settles_def interacts_self)

lemmas settling = settles_transit settles_twice settles_same

lemma reasons_visible [simp]:
  "\<not> blank (lit ''replacement turn accepted'')" "\<not> blank (lit ''replacement turn processing'')"
  "\<not> blank (lit ''barge-in turn accepted'')" "\<not> blank (lit ''owner replaced approval wait'')"
  "\<not> blank (lit ''turn accepted'')" "\<not> blank (lit ''retry from degraded'')" "\<not> blank (lit ''retry accepted'')"
  "\<not> blank (lit ''voice activity interrupted foreground work'')" "\<not> blank (lit ''voice activity detected'')"
  "\<not> blank (lit ''cancel degraded state'')" "\<not> blank (lit ''return to active microphone'')"
  "\<not> blank (lit ''foreground cancelled'')" "\<not> blank (lit ''foreground cancellation accepted'')"
  "\<not> blank (lit ''microphone capture started'')" "\<not> blank (lit ''microphone capture stopped'')"
  "\<not> blank (lit ''microphone capture resumed from degraded state'')"
  "\<not> blank (lit ''first validated utterance segment'')" "\<not> blank (lit ''utterance stream completed'')"
  "\<not> blank (lit ''microphone remains active after utterance'')"
  "\<not> blank (lit ''model completed without visible output'')" "\<not> blank (lit ''foreground dialogue failed'')"
  by (simp_all add: blank_iff isspace_def)

lemma enter_processing_settles: "actor_ok a \<Longrightarrow> settles a PROCESSING (enter_processing a)"
  by (cases "im_state (ac_interaction a)")
    (simp_all del: lit_simps add: enter_processing_def settling)

lemma enter_listening_settles:
  "actor_ok a \<Longrightarrow> \<not> blank (lit r) \<Longrightarrow> settles a LISTENING (enter_listening r a)"
  by (cases "im_state (ac_interaction a)")
    (simp_all del: lit_simps add: enter_listening_def settling)

lemma leave_foreground_settles:
  "actor_ok a \<Longrightarrow> target = IDLE \<or> target = LISTENING \<Longrightarrow> settles a target (leave_foreground target a)"
  by (cases "im_state (ac_interaction a)")
    (auto simp del: lit_simps simp: leave_foreground_def Let_def settling)

text \<open>The handlers of the microphone leave a state of the foreground alone.\<close>

definition microphone_state :: "bool \<Rightarrow> InteractionState \<Rightarrow> InteractionState" where
  "microphone_state active s =
     (if active then (if s \<in> {IDLE, DEGRADED} then LISTENING else s)
      else if s = LISTENING then IDLE else s)"

lemma capture_settles:
  "actor_ok a \<Longrightarrow> settles a (microphone_state True (im_state (ac_interaction a))) (capture_started a)"
  "actor_ok a \<Longrightarrow> settles a (microphone_state False (im_state (ac_interaction a))) (capture_stopped a)"
  by (cases "im_state (ac_interaction a)";
      simp del: lit_simps add: capture_started_def capture_stopped_def microphone_state_def settling)+

lemma speech_started_settles:
  "actor_ok a \<Longrightarrow> settles a (if barge_in then LISTENING else microphone_state True (im_state (ac_interaction a)))
     (speech_started barge_in a)"
  by (cases "im_state (ac_interaction a)")
    (auto simp del: lit_simps simp: speech_started_def microphone_state_def enter_listening_settles settles_same)

lemma if_current_own:
  assumes "actor_ok a" "\<not> blank r"
  shows "g \<noteq> current_of a \<Longrightarrow>
      \<exists>b. transition_interaction_if_current a q g r = (Inr False, b) \<and> steady a b"
    and "g = current_of a \<Longrightarrow> q \<in> transitions (im_state (ac_interaction a)) \<Longrightarrow>
      \<exists>b. transition_interaction_if_current a q g r = (Inr True, b) \<and> interacts a q b"
proof -
  have gr: "granting (ac_cancellation a)" using assms by (simp add: actor_ok_def)
  show "\<exists>b. transition_interaction_if_current a q g r = (Inr False, b) \<and> steady a b" if "g \<noteq> current_of a"
    using that gr
    by (simp add: transition_interaction_if_current_def granting_current current_of_def steady_def aside_def)
  show "\<exists>b. transition_interaction_if_current a q g r = (Inr True, b) \<and> interacts a q b"
    if here: "g = current_of a" "q \<in> transitions (im_state (ac_interaction a))"
  proof -
    obtain b where "transition_interaction a q r = (Inr (), b)" "interacts a q b"
      by (rule transition_own [OF assms(1) here(2) assms(2)])
    then show ?thesis using here(1) gr
      by (intro exI [of _ b]) (simp add: transition_interaction_if_current_def granting_current current_of_def)
  qed
qed

section \<open>Submission\<close>

lemma put_effect_queue:
  assumes "put_effect (ac_inbox a) x p acc (ac_inbox b)"
  shows "queue b = queue a \<or> acc \<noteq> Some False \<and> queued a x b"
proof (cases "mb_items (ac_inbox b) = mb_items (ac_inbox a)")
  case False
  obtain i where "acc \<noteq> Some False" "mb_items (ac_inbox b) =
      pop_at i (mb_items (ac_inbox a)) @ [\<lparr>e_item = x, e_priority = p, e_order = mb_next_order (ac_inbox a)\<rparr>]"
    by (rule put_effect_pop [OF assms False])
  then show ?thesis by (auto simp: queued_def queue_def map_pop_at)
qed (simp add: queue_def)

text \<open>The message of a submission: the event with its sequence number, and the current token.\<close>

definition message_of :: "session_actor \<Rightarrow> EventEnvelope \<Rightarrow> cancel_token \<Rightarrow> SessionMessage" where
  "message_of a e t = \<lparr>sm_event = e\<lparr>ev_sequence := Some (ac_sequence a)\<rparr>, sm_token = t\<rparr>"

text \<open>
  What a submission does: the queue stays or gets the message of the event under the generation \<open>g\<close>, which
  is the current one afterwards.
\<close>

definition submits :: "session_actor \<Rightarrow> EventEnvelope \<Rightarrow> session_actor \<Rightarrow> bool" where
  "submits a e b \<longleftrightarrow> aside a b \<and> inbox_ok (ac_inbox b) \<and> granting (ac_cancellation b) \<and>
     (queue b = queue a \<or>
      (\<exists>t. tk_generation t = current_of b \<and> queued a (message_of a e t) b))"

lemma observe_parts:
  "queue (observe_event c x) = queue c" "ac_cancellation (observe_event c x) = ac_cancellation c"
  "ac_inbox (observe_event c x) = ac_inbox c" "aside a (observe_event c x) \<longleftrightarrow> aside a c"
  by (auto simp: observe_event_def queue_def aside_def split: option.split)

lemma submits_observe: "submits a e (observe_event b x) \<longleftrightarrow> submits a e b"
  by (simp add: submits_def observe_parts current_of_def queued_def)

lemma submit_with_token_own:
  assumes "actor_ok a" "envelope_ok e" "ev_session_id e = Some (ac_session_id a)"
    "tk_generation t = current_of a"
  shows "submits a e (snd (submit_with_token a e t))" "ac_cancellation (snd (submit_with_token a e t)) = ac_cancellation a"
proof -
  let ?m = "message_of a e t"
  let ?a1 = "a\<lparr>ac_sequence := ac_sequence a + 1\<rparr>"
  have ok: "inbox_ok (ac_inbox a)" "0 \<le> ac_sequence a" "granting (ac_cancellation a)"
    using assms by (simp_all add: actor_ok_def)
  let ?b = "a\<lparr>ac_sequence := ac_sequence a + 1, ac_inbox := snd (mb_put (ac_inbox a) ?m)\<rparr>"
  have shape: "snd (submit_with_token a e t) = ?b \<or> snd (submit_with_token a e t) = observe_event ?b (sm_event ?m)"
    using stamp_own(1) [OF assms(2,3) ok(2)]
    by (cases "mb_put (ac_inbox a) ?m")
      (auto simp: submit_with_token_def message_of_def Let_def split: sum.splits option.splits)
  have eff: "put_effect (ac_inbox a) ?m (ev_priority (sm_event ?m)) None (ac_inbox ?b)"
    using mb_put_inbox(2) [OF ok(1)] by simp
  have "queue ?b = queue a \<or> queued a ?m ?b"
    using put_effect_queue [OF eff] by blast
  then have b: "submits a e ?b"
    unfolding submits_def using ok mb_put_inbox(1) [OF ok(1), of ?m] assms(4)
    by (auto simp: aside_def current_of_def)
  then show "submits a e (snd (submit_with_token a e t))"
    using shape submits_observe [of a e ?b "sm_event ?m"] by metis
  show "ac_cancellation (snd (submit_with_token a e t)) = ac_cancellation a"
    using shape observe_parts(2) [of ?b "sm_event ?m"] by auto
qed

lemma current_token_own: "actor_ok a \<Longrightarrow> current_token a = Inr (source_token (ac_cancellation a))"
  by (simp add: current_token_def actor_ok_def granting_current)

lemma source_token_current [simp]: "tk_generation (source_token (ac_cancellation a)) = current_of a"
  by (simp add: source_token_def current_of_def)

lemma submit_own:
  assumes "actor_ok a" "envelope_ok e" "ev_session_id e = Some (ac_session_id a)"
  shows "submits a e (snd (submit a e)) \<and> current_of (snd (submit a e)) = current_of a"
  using submit_with_token_own [OF assms, of "source_token (ac_cancellation a)"] assms(1)
    current_token_own [OF assms(1)]
  by (simp add: submit_def ensure_running_def actor_ok_def current_of_def)

text \<open>The actor under the next generation.\<close>

definition advanced :: "session_actor \<Rightarrow> session_actor \<Rightarrow> bool" where
  "advanced a c \<longleftrightarrow> (\<exists>s. c = a\<lparr>ac_cancellation := s\<rparr> \<and> granting s \<and> src_generation s = current_of a + 1)"

lemma actor_ok_advanced: "actor_ok a \<Longrightarrow> advanced a c \<Longrightarrow> actor_ok c"
  by (auto simp: advanced_def actor_ok_def)

lemma advanced_current: "advanced a c \<Longrightarrow> current_of c = current_of a + 1"
  by (auto simp: advanced_def current_of_def)

lemma advanced_parts:
  "advanced a c \<Longrightarrow> ac_session_id c = ac_session_id a" "advanced a c \<Longrightarrow> ac_sequence c = ac_sequence a"
  "advanced a c \<Longrightarrow> queue c = queue a" "advanced a c \<Longrightarrow> aside c b \<longleftrightarrow> aside a b"
  "advanced a c \<Longrightarrow> message_of c e t = message_of a e t"
  by (auto simp: advanced_def queue_def aside_def message_of_def)

text \<open>A foreground submission whose reason is blank changes nothing.\<close>

lemma advance_own:
  assumes "actor_ok a"
  obtains "advance (ac_cancellation a) r now = (Inl CancelValueError, ac_cancellation a)"
  | t s where "advance (ac_cancellation a) r now = (Inr t, s)"
      "advanced a (a\<lparr>ac_cancellation := s\<rparr>)" "tk_generation t = current_of a + 1"
proof -
  have "granting (ac_cancellation a)" using assms by (simp add: actor_ok_def)
  from granting_advance [OF this, of r now] show thesis
    using that by (auto simp: advanced_def current_of_def)
qed

lemma submits_advanced: "advanced a c \<Longrightarrow> submits c e b \<longleftrightarrow> submits a e b"
  by (simp add: submits_def advanced_parts queued_def)

lemma submit_foreground_own:
  assumes "actor_ok a" "envelope_ok e" "ev_session_id e = Some (ac_session_id a)"
  shows "snd (submit_foreground_turn a e r now) = a \<or>
    submits a e (snd (submit_foreground_turn a e r now)) \<and>
    current_of (snd (submit_foreground_turn a e r now)) = current_of a + 1"
proof (rule advance_own [OF assms(1), of r now])
  assume "advance (ac_cancellation a) r now = (Inl CancelValueError, ac_cancellation a)"
  then show ?thesis using assms(1) by (simp add: submit_foreground_turn_def ensure_running_def actor_ok_def)
next
  fix t s
  assume adv: "advance (ac_cancellation a) r now = (Inr t, s)" "advanced a (a\<lparr>ac_cancellation := s\<rparr>)"
    "tk_generation t = current_of a + 1"
  let ?c = "a\<lparr>ac_cancellation := s\<rparr>"
  have c: "actor_ok ?c" "ev_session_id e = Some (ac_session_id ?c)" "tk_generation t = current_of ?c"
    using actor_ok_advanced [OF assms(1) adv(2)] assms(3) adv(3) advanced_current [OF adv(2)] by simp_all
  have "snd (submit_foreground_turn a e r now) = snd (submit_with_token ?c e t)"
    using assms(1) adv(1) by (simp add: submit_foreground_turn_def ensure_running_def actor_ok_def)
  then show ?thesis
    using submit_with_token_own [OF c(1) assms(2) c(2,3)] submits_advanced [OF adv(2)] advanced_current [OF adv(2)]
    by (simp add: current_of_def)
qed

text \<open>The calls that wait: the message they wait with.\<close>

lemma submit_wait_own:
  assumes "actor_ok a" "envelope_ok e" "ev_session_id e = Some (ac_session_id a)"
  obtains b t where "submit_wait_begin a e = (Inr (message_of a e t), b)" "steady a b" "tk_generation t = current_of a"
proof
  let ?t = "source_token (ac_cancellation a)" and ?b = "a\<lparr>ac_sequence := ac_sequence a + 1\<rparr>"
  have "0 \<le> ac_sequence a" "ensure_running a" using assms by (simp_all add: actor_ok_def ensure_running_def)
  then show "submit_wait_begin a e = (Inr (message_of a e ?t), ?b)"
    using stamp_own(1) [OF assms(2,3)] current_token_own [OF assms(1)]
    by (simp add: submit_wait_begin_def message_of_def)
  show "steady a ?b" by (simp add: steady_def aside_def)
qed simp

lemma submit_foreground_wait_own:
  assumes "actor_ok a" "envelope_ok e" "ev_session_id e = Some (ac_session_id a)"
  obtains "submit_foreground_wait_begin a e r now = (Inl (SessionCancelError CancelValueError), a)"
  | b c t where "submit_foreground_wait_begin a e r now = (Inr (message_of a e t), b)" "advanced a c" "steady c b"
      "tk_generation t = current_of c"
proof (rule advance_own [OF assms(1), of r now])
  assume "advance (ac_cancellation a) r now = (Inl CancelValueError, ac_cancellation a)"
  then show thesis
    using assms(1) by (intro that(1)) (simp add: submit_foreground_wait_begin_def ensure_running_def actor_ok_def)
next
  fix t s
  assume adv: "advance (ac_cancellation a) r now = (Inr t, s)" "advanced a (a\<lparr>ac_cancellation := s\<rparr>)"
    "tk_generation t = current_of a + 1"
  let ?c = "a\<lparr>ac_cancellation := s\<rparr>"
  let ?b = "?c\<lparr>ac_sequence := ac_sequence ?c + 1\<rparr>"
  have c: "ev_session_id e = Some (ac_session_id ?c)" "0 \<le> ac_sequence ?c" "ensure_running a"
    using assms(1,3) by (simp_all add: actor_ok_def ensure_running_def)
  show thesis
  proof (rule that(2))
    show "submit_foreground_wait_begin a e r now = (Inr (message_of a e t), ?b)"
      using stamp_own(1) [OF assms(2) c(1,2)] c(3) adv(1)
      by (simp add: submit_foreground_wait_begin_def message_of_def)
    show "steady ?c ?b" by (simp add: steady_def aside_def)
    show "tk_generation t = current_of ?c" using adv advanced_current [OF adv(2)] by simp
  qed (rule adv(2))
qed

text \<open>An attempt of a waiting call: the message is admitted, or the queue stays.\<close>

lemma attempt_own:
  assumes "actor_ok a"
  obtains (waits) b where "submit_stamped_attempt a m = (Inr None, b)" "aside a b" "inbox_ok (ac_inbox b)"
      "ac_cancellation b = ac_cancellation a" "queue b = queue a"
  | (refused) s b where "submit_stamped_attempt a m = (Inr (Some s), b)" "aside a b" "inbox_ok (ac_inbox b)"
      "ac_cancellation b = ac_cancellation a" "queue b = queue a"
  | (admitted) s b where "submit_stamped_attempt a m = (Inr (Some s), b)" "aside a b" "inbox_ok (ac_inbox b)"
      "ac_cancellation b = ac_cancellation a" "queued a m b" "sb_outcome s \<noteq> CANCELLED"
      "message_generation m = current_of a"
proof -
  let ?acc = "accepts (ac_cancellation a) (message_generation m)" and ?p = "ev_priority (sm_event m)"
  let ?attempt = "try_put_locked (ac_inbox a) m ?p False (Some ?acc) False"
  have ok: "inbox_ok (ac_inbox a)" "granting (ac_cancellation a)" using assms by (simp_all add: actor_ok_def)
  have prio: "mb_priority_of (ac_inbox a) m = Some ?p" "mb_overflow (ac_inbox a) = DROP_LOWEST"
    "\<not> mb_closed (ac_inbox a)"
    using ok by (simp_all add: inbox_ok_def)
  let ?w = "mb_put_wait (ac_inbox a) m (Some ?acc) False []"
  have w: "snd ?w = snd ?attempt" "fst ?w = (case fst ?attempt of Inl e \<Rightarrow> Some (Inl e) | Inr None \<Rightarrow> None | Inr (Some r) \<Rightarrow> Some (Inr r))"
    using prio(1) by (auto simp: mb_put_wait_def put_wait_loop.simps split: sum.split option.split prod.split)
  have in_ok: "inbox_ok (snd ?attempt)" and eff: "put_effect (ac_inbox a) m ?p (Some ?acc) (snd ?attempt)"
    using put_wait_inbox [OF ok(1), of m "Some ?acc" False] w(1) by simp_all
  let ?b = "a\<lparr>ac_inbox := snd ?attempt\<rparr>"
  have b: "aside a ?b" "inbox_ok (ac_inbox ?b)" "ac_cancellation ?b = ac_cancellation a"
    using in_ok by (simp_all add: aside_def)
  have q: "queue ?b = queue a \<or> ?acc \<and> queued a m ?b"
    using put_effect_queue [of a m ?p "Some ?acc" ?b] eff by simp
  have no_error: "fst ?attempt \<noteq> Inl e" for e
    using try_put_effect(2) [OF prio(2,3)] by simp
  show thesis
  proof (cases "fst ?attempt")
    case (Inl e)
    then show thesis using no_error by simp
  next
    case (Inr r)
    show thesis
    proof (cases r)
      case None
      have "queue ?b = queue a"
        using Inr None prio by (auto simp: try_put_locked_def queue_def Let_def split: if_splits)
      then show thesis
        using b Inr None w by (intro waits [of ?b])
          (auto simp: submit_stamped_attempt_def message_generation_def split: prod.split)
    next
      case (Some res)
      let ?s = "submission (sm_event m) (sm_token m) res"
      let ?c = "if pr_accepted res then observe_event ?b (sm_event m) else ?b"
      have res: "submit_stamped_attempt a m = (Inr (Some ?s), ?c)"
        using Inr Some w by (auto simp: submit_stamped_attempt_def message_generation_def Let_def split: prod.split)
      have c: "aside a ?c" "inbox_ok (ac_inbox ?c)" "ac_cancellation ?c = ac_cancellation a" "queue ?c = queue ?b"
        using b by (auto simp: observe_parts)
      show thesis
      proof (cases "queue ?b = queue a")
        case True
        then show thesis using res c by (intro refused [of ?s ?c]) simp_all
      next
        case False
        then have adm: "?acc" "queued a m ?b" using q by auto
        have "pr_outcome res \<noteq> CANCELLED"
          using Inr Some prio adm(1) by (auto simp: try_put_locked_def Let_def split: if_splits)
        then show thesis using res c adm ok(2)
          by (intro admitted [of ?s ?c])
            (simp_all add: queued_def submission_def granting_accepts current_of_def)
      qed
    qed
  qed
qed

lemma submit_cancelled_own:
  assumes "actor_ok a"
  shows "aside a (snd (submit_stamped_cancelled a m))" "inbox_ok (ac_inbox (snd (submit_stamped_cancelled a m)))"
    "ac_cancellation (snd (submit_stamped_cancelled a m)) = ac_cancellation a"
    "queue (snd (submit_stamped_cancelled a m)) = queue a"
  using assms mb_apply_inv [of "ac_inbox a" Op_put_cancelled]
  by (simp_all add: submit_stamped_cancelled_def aside_def queue_def actor_ok_def inbox_ok_def)

section \<open>Delivery\<close>

lemma queue_nth: "i < length (queue a) \<Longrightarrow> queue a ! i = e_item (mb_items (ac_inbox a) ! i)"
  by (simp add: queue_def)

text \<open>
  A delivery takes a message out of the queue of which no other has a higher priority, nor the same
  priority and an earlier place.
\<close>

definition delivers :: "session_actor \<Rightarrow> nat \<Rightarrow> session_actor \<Rightarrow> bool" where
  "delivers a i b \<longleftrightarrow> i < length (queue a) \<and> queue b = pop_at i (queue a) \<and>
     ac_task b = Task_handling (queue a ! i) \<and>
     (\<forall>j < length (queue a).
        ev_priority (sm_event (queue a ! j)) \<le> ev_priority (sm_event (queue a ! i)) \<and>
        (ev_priority (sm_event (queue a ! j)) = ev_priority (sm_event (queue a ! i)) \<longrightarrow> i \<le> j))"

lemma run_get_own:
  assumes ok: "actor_ok a" and task: "ac_task a = Task_getting"
  obtains (idle) "run_get a now = a" "queue a = []"
  | (got) i where "delivers a i (run_get a now)" "actor_ok (run_get a now)"
      "ac_interaction (run_get a now) = ac_interaction a" "ac_cancellation (run_get a now) = ac_cancellation a"
      "ac_session_id (run_get a now) = ac_session_id a"
proof (cases "mb_items (ac_inbox a) = []")
  case True
  then show thesis
    using ok by (intro idle) (simp_all add: run_get_def mb_get_def actor_ok_def inbox_ok_def queue_def)
next
  case False
  let ?es = "mb_items (ac_inbox a)"
  let ?i = "get_index ?es"
  let ?m = "snd (mb_get (ac_inbox a))"
  let ?b = "a\<lparr>ac_inbox := ?m, ac_task := Task_handling (e_item (?es ! ?i))\<rparr>"
  have inb: "inbox_ok (ac_inbox a)" using ok by (simp add: actor_ok_def)
  have get: "mb_get (ac_inbox a) = (Inr (Some (e_item (?es ! ?i))), ?m)" "mb_items ?m = pop_at ?i ?es"
    "same_policy (ac_inbox a) ?m"
    using False by (simp_all add: mb_get_def Let_def same_policy_def)
  have run: "run_get a now = ?b" using False by (simp add: run_get_def mb_get_def Let_def)
  have i: "?i < length ?es" using False by (rule get_index_less)
  have "inbox_ok ?m"
    using inb get(2,3) mb_get_inv [of "ac_inbox a"] set_pop_at_subset [of ?i ?es]
    by (auto simp: inbox_ok_def same_policy_def)
  then have "actor_ok ?b" using ok by (simp add: actor_ok_def)
  have prio: "e_priority (?es ! j) = ev_priority (sm_event (queue a ! j))" if "j < length ?es" for j
    using inb that by (simp add: inbox_ok_def queue_def)
  have order: "e_order (?es ! j) < e_order (?es ! k)" if "j < k" "k < length ?es" for j k
    using inb that by (auto simp: inbox_ok_def mailbox_inv_def entries_ok_def sorted_wrt_map sorted_wrt_iff_nth_less)
  have best: "ev_priority (sm_event (queue a ! j)) \<le> ev_priority (sm_event (queue a ! ?i)) \<and>
      (ev_priority (sm_event (queue a ! j)) = ev_priority (sm_event (queue a ! ?i)) \<longrightarrow> ?i \<le> j)"
    if "j < length (queue a)" for j
  proof -
    have j: "j < length ?es" using that by (simp add: queue_def)
    have "rank (?es ! ?i) \<le> rank (?es ! j)" using j by (intro get_index_minimal) simp
    then have "e_priority (?es ! j) \<le> e_priority (?es ! ?i)"
      "e_priority (?es ! j) = e_priority (?es ! ?i) \<Longrightarrow> e_order (?es ! ?i) \<le> e_order (?es ! j)"
      by auto
    then show ?thesis using prio [OF j] prio [OF i] order [of j ?i] i by force
  qed
  have "delivers a ?i ?b"
    using i best get(2) by (simp add: delivers_def queue_def map_pop_at)
  then show thesis using \<open>actor_ok ?b\<close> unfolding run [symmetric] by (rule got) (simp_all add: run)
qed

end
