(* ===== verification/ForegroundEvents.thy ===== *)
theory ForegroundEvents
  imports ForegroundActor
begin

text \<open>
  The events of a foreground session: a command carries the payload of the call that created it, every draft
  makes a valid event, and the handler of a turn request finds in the payload what the call put there.
\<close>

section \<open>Payloads of drafts\<close>

definition items_ok :: "(pystr \<times> pyval) list \<Rightarrow> bool" where
  "items_ok kvs \<longleftrightarrow> (\<forall>p \<in> set kvs. json_ok (snd p))"

lemma items_ok_simps [simp]:
  "items_ok []" "items_ok (p # kvs) \<longleftrightarrow> json_ok (snd p) \<and> items_ok kvs"
  "items_ok (xs @ ys) \<longleftrightarrow> items_ok xs \<and> items_ok ys"
  by (auto simp: items_ok_def)

lemma str_dict_ok: "json_ok (str_dict kvs) \<longleftrightarrow> items_ok kvs"
  by (auto simp: str_dict_def items_ok_def)

lemma thaw_ok: "json_ok (thaw_json f)"
  using freeze_thaw [of f] freeze_total(1) [of "thaw_json f"] by auto

lemma primitive_payload_ok [simp]: "items_ok (primitive_payload e)"
  by (auto simp: primitive_payload_def thaw_payload_def items_ok_def thaw_ok)

lemma update_ok: "items_ok kvs \<Longrightarrow> json_ok v \<Longrightarrow> items_ok (AList.update k v kvs)"
  by (induction kvs) simp_all

lemma payload_with_ok: "items_ok kvs \<Longrightarrow> items_ok extra \<Longrightarrow> items_ok (payload_with kvs extra)"
  unfolding payload_with_def
  by (induction extra arbitrary: kvs) (simp_all add: update_ok case_prod_beta)

lemma payload_value_ok [simp]: "json_ok (payload_value (primitive_payload e) k)"
  using primitive_payload_ok [of e]
  by (auto simp: payload_value_def items_ok_def dest!: map_of_SomeD split: option.split)

lemma optional_ok [simp]: "json_ok (optional_int n)" "json_ok (optional_text t)"
  by (simp_all add: optional_int_def optional_text_def split: option.split)

lemma freeze_str_dict:
  assumes "items_ok kvs"
  obtains m where "freeze_payload (str_dict kvs) = Inr m"
proof -
  obtain m where "freeze_items (map (\<lambda>(k, v). (KStr k, v)) kvs) = Inr m"
    using assms freeze_total(2) [of "map (\<lambda>(k, v). (KStr k, v)) kvs"] by (auto simp: items_ok_def)
  then show thesis by (intro that [of m]) (simp add: freeze_payload_def str_dict_def)
qed

text \<open>\<open>draft_ok\<close>: \<open>_output_event\<close> creates an event from it.\<close>

definition draft_ok :: "draft \<Rightarrow> bool" where
  "draft_ok d \<longleftrightarrow> event_type_ok (dr_type d) \<and> items_ok (dr_payload d)"

lemma own_actor_visible [simp]: "\<not> blank (lit ''eeveetuber'')"
  by (simp add: blank_iff isspace_def)

lemma output_event_ok:
  assumes "draft_ok d" "clock_ok ck"
  obtains ev where "output_event sid cause d ck = Inr ev" "envelope_ok ev" "ev_session_id ev = Some sid"
    "ev_type ev = dr_type d" "ev_priority ev = priority_value (dr_priority d)"
proof -
  obtain m where m: "freeze_payload (str_dict (dr_payload d)) = Inr m"
    using assms(1) by (auto simp: draft_ok_def elim: freeze_str_dict)
  let ?e = "\<lparr>ev_type = dr_type d, ev_payload = m, ev_event_id = ck_fresh ck, ev_schema_version = 1,
     ev_occurred_at = ck_now ck, ev_monotonic_at_ms = ck_monotonic_ns ck div 1000000,
     ev_session_id = Some sid, ev_actor_id = Some (lit ''eeveetuber''),
     ev_correlation_id = (case map_option ev_correlation_id cause of None \<Rightarrow> ck_fresh ck | Some c \<Rightarrow> c),
     ev_causation_id = map_option ev_event_id cause, ev_sequence = None,
     ev_priority = priority_value (dr_priority d), ev_trust = Trust_SYSTEM, ev_visibility = Vis_PRIVATE,
     ev_retention = dr_retention d\<rparr>"
  have "0 \<le> ck_monotonic_ns ck div 1000000"
    using assms(2) by (simp add: clock_ok_def pos_imp_zdiv_nonneg_iff)
  then have ok: "envelope_ok ?e"
    using assms by (simp del: lit_simps add: envelope_ok_def check_envelope_def draft_ok_def clock_ok_def)
  then have "output_event sid cause d ck = Inr ?e"
    by (simp del: lit_simps add: output_event_def create_envelope_def m Let_def)
  then show thesis using ok by (rule that) simp_all
qed

section \<open>Commands\<close>

text \<open>An event of the call \<open>c\<close>, with whatever sequence number the session gave it.\<close>

definition command_of :: "call \<Rightarrow> EventEnvelope \<Rightarrow> bool" where
  "command_of c e \<longleftrightarrow> (\<exists>r. request_of c = Some r \<and> ev_type e = cq_type r \<and>
     freeze_payload (str_dict (cq_payload r)) = Inr (ev_payload e) \<and>
     ev_priority e = priority_value (cq_priority r))"

definition command_event :: "EventEnvelope \<Rightarrow> bool" where
  "command_event e \<longleftrightarrow> (\<exists>c. command_of c e)"

lemma command_of_sequence [simp]: "command_of c (e\<lparr>ev_sequence := n\<rparr>) \<longleftrightarrow> command_of c e"
  by (simp add: command_of_def)

lemma freeze_payload_Inr: "freeze_payload v = Inr m \<Longrightarrow> freeze_json v = Inr (FMap m)"
  by (auto simp: freeze_payload_def split: sum.splits frozen.splits)

lemma thaw_str_dict:
  assumes "freeze_payload (str_dict kvs) = Inr m"
  shows "thaw_payload m = kvs"
proof -
  have "thaw_json (FMap m) = str_dict kvs"
    using thaw_freeze(1) [OF freeze_payload_Inr [OF assms]] .
  then have "map (\<lambda>(k, v). (KStr k, v)) (thaw_payload m) = map (\<lambda>(k, v). (KStr k, v)) kvs"
    by (simp add: str_dict_def thaw_payload_def case_prod_unfold o_def)
  then show ?thesis
    by (rule map_injective) (auto intro!: injI)
qed

lemma command_payload:
  assumes "command_of c e" "request_of c = Some r"
  shows "primitive_payload e = cq_payload r" "ev_type e = cq_type r" "ev_priority e = priority_value (cq_priority r)"
  using assms by (auto simp: command_of_def primitive_payload_def thaw_str_dict)

lemma request_event_command:
  assumes "request_event sid ck r = Inr e" "request_of c = Some r"
  shows "command_of c e" "envelope_ok e" "ev_session_id e = Some sid"
proof -
  let ?p = "freeze_payload (str_dict (cq_payload r))"
  obtain m where m: "?p = Inr m"
    using assms(1) by (cases ?p) (simp_all add: request_event_def create_envelope_def)
  have "envelope_ok e \<and> ev_type e = cq_type r \<and> ev_payload e = m \<and> ev_session_id e = Some sid \<and>
      ev_priority e = priority_value (cq_priority r)"
    using assms(1) by (auto simp: request_event_def create_envelope_def m Let_def split: if_splits)
  then show "command_of c e" "envelope_ok e" "ev_session_id e = Some sid"
    using assms(2) m by (auto simp: command_of_def)
qed

lemmas request_defs = voice_request_def text_request_def cancel_request_def ping_request_def neutral_request_def
  ack_request_def capture_started_request_def capture_stopped_request_def speech_started_request_def
  transcript_partial_request_def transcript_empty_request_def voice_turn_request_def recognition_failed_request_def

text \<open>The kinds of commands, by the call.\<close>

definition foreground_call :: "call \<Rightarrow> bool" where
  "foreground_call c \<longleftrightarrow> mode_of c = Foreground_now \<or> mode_of c = Foreground_wait"

fun turn_call :: "call \<Rightarrow> bool" where
  "turn_call (Submit_text t actor turn_id) = True"
| "turn_call (Voice_transcript_final f turn_id) = (\<not> blank (af_text f))"
| "turn_call _ = False"

definition foreground_event :: "EventEnvelope \<Rightarrow> bool" where
  "foreground_event e \<longleftrightarrow> ev_type e = lit ''turn.requested'' \<or> ev_type e = lit ''turn.cancel_requested'' \<or>
     ev_type e = lit ''voice.speech_started'' \<and> event_barge_in e"

lemma lit_inject: "lit s = lit t \<longleftrightarrow> s = t"
proof
  have "inj (of_char :: char \<Rightarrow> nat)" by (rule injI) simp
  then show "lit s = lit t \<Longrightarrow> s = t" unfolding lit_def by (simp add: inj_map_eq_map)
qed simp

lemma thaw_bool: "thaw_json f = PBool b \<longleftrightarrow> f = FBool b"
  by (cases f) auto

lemma map_of_thaw: "map_of (thaw_payload m) k = map_option thaw_json (map_of m k)"
  by (induction m) (auto simp: thaw_payload_def)

lemma barge_in_payload:
  "event_barge_in e \<longleftrightarrow> map_of (primitive_payload e) (lit ''barge_in'') = Some (PBool True)"
  by (auto simp: event_barge_in_def primitive_payload_def map_of_thaw thaw_bool)

lemmas request_types = request_defs lit_inject

lemma request_kinds:
  assumes "request_of c = Some r"
  shows "event_type_ok (cq_type r)"
    and "cq_type r = lit ''turn.requested'' \<longleftrightarrow> turn_call c"
    and "turn_call c \<Longrightarrow> foreground_call c \<and> cq_priority r = Prio_HIGH"
    and "foreground_call c \<Longrightarrow> cq_priority r \<in> {Prio_HIGH, Prio_CRITICAL}"
    and "cq_type r = lit ''voice.speech_started'' \<longleftrightarrow> (\<exists>e b. c = Voice_speech_started e b)"
    and "cq_type r = lit ''turn.cancel_requested'' \<longleftrightarrow> (\<exists>t. c = Cancel t)"
proof -
  show "event_type_ok (cq_type r)"
    using assms by (cases c) (auto simp: request_defs event_type_ok_def is_lower_def is_lower_digit_def
        is_separator_def split: if_splits)
  show "cq_type r = lit ''turn.requested'' \<longleftrightarrow> turn_call c"
    using assms by (cases c) (auto simp del: lit_simps simp: request_types split: if_splits)
  show "turn_call c \<Longrightarrow> foreground_call c \<and> cq_priority r = Prio_HIGH"
    using assms by (cases c) (auto simp del: lit_simps simp: request_defs foreground_call_def split: if_splits)
  show "foreground_call c \<Longrightarrow> cq_priority r \<in> {Prio_HIGH, Prio_CRITICAL}"
    using assms by (cases c) (auto simp del: lit_simps simp: request_defs foreground_call_def split: if_splits)
  show "cq_type r = lit ''voice.speech_started'' \<longleftrightarrow> (\<exists>e b. c = Voice_speech_started e b)"
    using assms by (cases c) (auto simp del: lit_simps simp: request_types split: if_splits)
  show "cq_type r = lit ''turn.cancel_requested'' \<longleftrightarrow> (\<exists>t. c = Cancel t)"
    using assms by (cases c) (auto simp del: lit_simps simp: request_types split: if_splits)
qed

lemma command_kinds:
  assumes "command_of c e"
  shows "event_type_ok (ev_type e)"
    and "ev_type e = lit ''turn.requested'' \<longleftrightarrow> turn_call c"
    and "foreground_event e \<longleftrightarrow> foreground_call c"
    and "turn_call c \<Longrightarrow> ev_priority e = 75"
    and "foreground_call c \<Longrightarrow> 75 \<le> ev_priority e"
proof -
  obtain r where r: "request_of c = Some r" using assms by (auto simp: command_of_def)
  note p = command_payload [OF assms r]
  note k = request_kinds [OF r]
  show "event_type_ok (ev_type e)" "ev_type e = lit ''turn.requested'' \<longleftrightarrow> turn_call c"
    using k(1,2) p by simp_all
  show "turn_call c \<Longrightarrow> ev_priority e = 75" using k(3) p by simp
  show "foreground_call c \<Longrightarrow> 75 \<le> ev_priority e" using k(4) p by auto
  have barge: "event_barge_in e \<longleftrightarrow> b" if "c = Voice_speech_started x b" for x b
    using r that unfolding barge_in_payload p(1)
    by (auto simp del: lit_simps simp: speech_started_request_def voice_request_def lit_inject)
  show "foreground_event e \<longleftrightarrow> foreground_call c"
    using k(2,5,6) barge unfolding foreground_event_def p(2)
    by (cases c) (auto simp del: lit_simps simp: foreground_call_def)
qed

text \<open>What the handler of a turn request reads.\<close>

definition turn_payload :: "EventEnvelope \<Rightarrow> bool" where
  "turn_payload e \<longleftrightarrow> (\<exists>t u md. payload_text (primitive_payload e) ''text'' = Some t \<and> \<not> blank t \<and>
     payload_text (primitive_payload e) ''turn_id'' = Some (uuid_str u) \<and>
     input_modality (primitive_payload e) = Some md)"

lemma turn_call_payload:
  assumes "command_of c e" "turn_call c"
  shows "turn_payload e"
proof -
  obtain r where r: "request_of c = Some r" using assms by (auto simp: command_of_def)
  show ?thesis
    using assms(2) r unfolding turn_payload_def command_payload(1) [OF assms(1) r]
    by (cases c) (auto simp del: lit_simps
        simp: payload_text_def input_modality_def request_types split: if_splits)
qed

text \<open>Every draft of a handler is good, and every draft of a turn.\<close>

lemma item_ok [simp]: "json_ok (snd (generation_item m))" "json_ok (snd (state_item st))"
  by (simp_all add: generation_item_def state_item_def)

lemma types_ok:
  "event_type_ok (lit ''transport.pong'')" "event_type_ok (lit ''avatar.neutral_requested'')"
  "event_type_ok (lit ''playback.acknowledged'')" "event_type_ok (lit ''voice.transcript_final'')"
  "event_type_ok (lit ''turn.accepted'')" "event_type_ok (lit ''speech.cancelled'')"
  "event_type_ok (lit ''voice.speech_started'')" "event_type_ok (lit ''voice.recognition_failed'')"
  "event_type_ok (lit ''context.snapshot_published'')" "event_type_ok (lit ''utterance.segment_ready'')"
  "event_type_ok (lit ''speech.audio_chunk'')" "event_type_ok (lit ''turn.failed'')"
  "event_type_ok (lit ''utterance.completed'')" "event_type_ok (lit ''session.ready'')"
  by (simp_all add: event_type_ok_def is_lower_def is_lower_digit_def is_separator_def)

lemma handler_draft_ok:
  assumes "event_type_ok (ev_type (sm_event m))"
  shows "draft_ok (handler_draft m st n)"
  by (cases n) (simp_all del: lit_simps add: draft_ok_def plain_draft_def types_ok payload_with_ok assms)

lemma turn_metadata_ok [simp]: "items_ok (turn_metadata u m)"
  by (simp add: turn_metadata_def)

lemma turn_draft_ok: "event_type_ok (lit ty) \<Longrightarrow> items_ok payload \<Longrightarrow> draft_ok (turn_draft t ty payload p ret)"
  by (simp add: turn_draft_def draft_ok_def)

lemma turn_drafts_ok:
  "draft_ok (snapshot_draft t c)" "draft_ok (segment_draft t s)" "draft_ok (audio_draft t s ch)"
  "draft_ok (empty_draft t p)" "draft_ok (completed_draft t p)" "draft_ok (failed_draft t e)"
  by (simp_all del: lit_simps add: snapshot_draft_def segment_draft_def audio_draft_def empty_draft_def
      completed_draft_def failed_draft_def plan_items_def failure_items_def turn_draft_ok types_ok)

end
