(* ===== verification/ForegroundInv.thy ===== *)
theory ForegroundInv
  imports ForegroundEvents
begin

text \<open>
  The invariant of a foreground session. Its heart is the order of the foreground submissions: each has a
  generation of its own, the queue holds them in increasing order, and a turn is only ever spawned when no older
  foreground submission is queued. So no handler moves the interaction state away from under the turn whose
  generation is current, and every transition a handler or a turn asks for is in the table.
\<close>

section \<open>Generations of the foreground submissions\<close>

text \<open>
  The generations that are queued, waiting for admission, about to be spawned, spawned; all at most the
  current one.
\<close>

definition below :: "int \<Rightarrow> int list \<Rightarrow> bool" where
  "below c xs \<longleftrightarrow> (\<forall>g \<in> set xs. g \<le> c)"

definition before :: "int list \<Rightarrow> int list \<Rightarrow> bool" where
  "before xs ys \<longleftrightarrow> (\<forall>x \<in> set xs. \<forall>y \<in> set ys. x < y)"

definition gen_ok :: "int \<Rightarrow> int list \<Rightarrow> int list \<Rightarrow> int list \<Rightarrow> int list \<Rightarrow> bool" where
  "gen_ok c Q P H T \<longleftrightarrow> distinct (Q @ P @ H @ T) \<and> below c Q \<and> below c P \<and> below c H \<and> below c T \<and>
     sorted_wrt (<) Q \<and> before H Q \<and> before T Q \<and> before T H"

lemma below_simps [simp]:
  "below c []" "below c (x # xs) \<longleftrightarrow> x \<le> c \<and> below c xs" "below c (xs @ ys) \<longleftrightarrow> below c xs \<and> below c ys"
  by (auto simp: below_def)

lemma before_simps [simp]:
  "before [] ys" "before xs []" "before (x # xs) ys \<longleftrightarrow> (\<forall>y \<in> set ys. x < y) \<and> before xs ys"
  "before xs (y # ys) \<longleftrightarrow> (\<forall>x \<in> set xs. x < y) \<and> before xs ys"
  "before xs (ys @ zs) \<longleftrightarrow> before xs ys \<and> before xs zs" "before (xs @ ys) zs \<longleftrightarrow> before xs zs \<and> before ys zs"
  by (auto simp: before_def)

lemma below_next: "below c xs \<Longrightarrow> below (c + 1) xs" "below c xs \<Longrightarrow> c + 1 \<notin> set xs"
    "below c xs \<Longrightarrow> \<forall>x \<in> set xs. x < c + 1"
  by (auto simp: below_def)

lemma below_strict: "below c xs \<Longrightarrow> c \<notin> set xs \<Longrightarrow> \<forall>x \<in> set xs. x < c"
  by (auto simp: below_def order_less_le)

lemma subset_below: "below c ys \<Longrightarrow> set xs \<subseteq> set ys \<Longrightarrow> below c xs"
  by (auto simp: below_def)

lemma subset_before: "before zs ys \<Longrightarrow> set xs \<subseteq> set ys \<Longrightarrow> before zs xs"
  by (auto simp: before_def)

lemma subseq_facts:
  assumes "subseq xs ys"
  shows "set xs \<subseteq> set ys" "distinct ys \<Longrightarrow> distinct xs" "sorted_wrt R ys \<Longrightarrow> sorted_wrt R xs"
proof -
  show "set xs \<subseteq> set ys" using assms by (induction rule: list_emb.induct) auto
  have "set xs \<subseteq> set ys \<and> (distinct ys \<longrightarrow> distinct xs) \<and> (sorted_wrt R ys \<longrightarrow> sorted_wrt R xs)"
    using assms by (induction rule: list_emb.induct) (auto simp: subset_iff)
  then show "distinct ys \<Longrightarrow> distinct xs" "sorted_wrt R ys \<Longrightarrow> sorted_wrt R xs" by simp_all
qed

lemma gen_ok_drop:
  assumes "gen_ok c Q P H T" "subseq Q' Q" "subseq P' P"
  shows "gen_ok c Q' P' H T"
proof -
  note q = subseq_facts [OF assms(2)] and p = subseq_facts [OF assms(3)]
  have "distinct (Q' @ P' @ H @ T)" using assms(1) q(1,2) p(1,2) by (auto simp: gen_ok_def)
  then show ?thesis
    using assms(1) q p by (auto simp: gen_ok_def intro: subset_below subset_before)
qed

lemma gen_ok_next: "gen_ok c Q P H T \<Longrightarrow> gen_ok (c + 1) Q P H T"
  by (simp add: gen_ok_def below_next)

lemma gen_ok_new_queued: "gen_ok c Q P H T \<Longrightarrow> gen_ok (c + 1) (Q @ [c + 1]) P H T"
  by (auto simp: gen_ok_def sorted_wrt_append below_next dest: below_next)

lemma gen_ok_new_waiting: "gen_ok c Q P H T \<Longrightarrow> gen_ok (c + 1) Q (P @ [c + 1]) H T"
  by (auto simp: gen_ok_def below_next dest: below_next)

lemma gen_ok_admit:
  assumes "gen_ok c Q P H T" "mset P = add_mset c (mset P')"
  shows "gen_ok c (Q @ [c]) P' H T"
proof -
  have P: "set P = insert c (set P')" "distinct P \<longleftrightarrow> c \<notin> set P' \<and> distinct P'"
    using assms(2) mset_eq_setD [of P "c # P'"] mset_eq_imp_distinct_iff [of P "c # P'"] by simp_all
  then have "below c P'" "c \<notin> set Q" "c \<notin> set H" "c \<notin> set T"
    using assms(1) by (auto simp: gen_ok_def below_def)
  then show ?thesis
    using assms(1) P by (auto simp: gen_ok_def sorted_wrt_append below_strict)
qed

lemma gen_ok_deliver:
  assumes "gen_ok c Q P [] T" "subseq Q' Q" "g \<in> set Q" "\<forall>q \<in> set Q'. g < q"
  shows "gen_ok c Q' P [g] T"
proof -
  have "gen_ok c Q' P [] T" using gen_ok_drop [OF assms(1,2)] by simp
  moreover have "g \<le> c" "g \<notin> set P" "g \<notin> set T" "\<forall>t \<in> set T. t < g"
    using assms(1,3) by (auto simp: gen_ok_def below_def before_def)
  ultimately show ?thesis using assms(4) by (auto simp: gen_ok_def)
qed

lemma gen_ok_spawn: "gen_ok c Q P [g] T \<Longrightarrow> gen_ok c Q P [] (T @ [g])"
  by (auto simp: gen_ok_def)

lemma gen_ok_current: "gen_ok c Q P H T \<Longrightarrow> c \<in> set T \<Longrightarrow> H = [] \<and> Q = []"
  by (cases H; cases Q) (auto simp: gen_ok_def before_def)

definition foreground_message :: "SessionMessage \<Rightarrow> bool" where
  "foreground_message m \<longleftrightarrow> foreground_event (sm_event m)"

definition gens :: "SessionMessage list \<Rightarrow> int list" where
  "gens ms = map message_generation (filter foreground_message ms)"

lemma gens_simps [simp]:
  "gens [] = []" "gens (xs @ ys) = gens xs @ gens ys"
  "gens (m # ms) = (if foreground_message m then [message_generation m] else []) @ gens ms"
  by (simp_all add: gens_def)

lemma pop_at_out: "length xs \<le> i \<Longrightarrow> pop_at i xs = xs"
  by (simp add: pop_at_def)

lemma gens_pop_at:
  "i < length ms \<Longrightarrow> mset (gens ms) =
     mset (if foreground_message (ms ! i) then [message_generation (ms ! i)] else []) + mset (gens (pop_at i ms))"
  by (induction ms arbitrary: i) (auto simp: nth_Cons split: nat.split)

lemma gens_pop_other: "i < length ms \<Longrightarrow> \<not> foreground_message (ms ! i) \<Longrightarrow> gens (pop_at i ms) = gens ms"
  by (induction ms arbitrary: i) (auto simp: nth_Cons split: nat.splits)

lemma subseq_gens: "subseq xs ys \<Longrightarrow> subseq (gens xs) (gens ys)"
  unfolding gens_def by (intro subseq_map subseq_filter)

lemma gens_order: "sorted_wrt (<) (gens ms) \<longleftrightarrow>
    sorted_wrt (\<lambda>x y. foreground_message x \<longrightarrow> foreground_message y \<longrightarrow> message_generation x < message_generation y) ms"
  by (induction ms) (auto simp: gens_def)

section \<open>The invariant\<close>

definition spawning :: "handler_step list \<Rightarrow> bool" where
  "spawning ss \<longleftrightarrow> (\<exists>u t i j. Spawn_turn u t i j \<in> set ss)"

fun one_spawn :: "handler_step list \<Rightarrow> bool" where
  "one_spawn [] = True"
| "one_spawn (Say n # ss) = one_spawn ss"
| "one_spawn (Spawn_turn u t i j # ss) = (\<not> spawning ss)"

lemma spawning_simps [simp]:
  "\<not> spawning []" "spawning (Say n # ss) \<longleftrightarrow> spawning ss" "spawning (Spawn_turn u t i j # ss)"
  "\<not> spawning (map Say ns)"
  by (auto simp: spawning_def)

lemma one_spawn_says [simp]: "one_spawn (map Say ns)"
  by (induction ns) simp_all

definition pending :: "foreground \<Rightarrow> int list" where
  "pending f = (case fg_handling f of
      Some m \<Rightarrow> if spawning (fg_steps f) then [message_generation m] else [] | None \<Rightarrow> [])"

definition turn_gens :: "foreground \<Rightarrow> int list" where
  "turn_gens f = map tn_generation (fg_turns f)"

definition gen_inv :: "foreground \<Rightarrow> bool" where
  "gen_inv f \<longleftrightarrow> gen_ok (fg_current f) (gens (queue (fg_actor f))) (gens (map fst (fg_submits f)))
     (pending f) (turn_gens f)"

text \<open>The interaction state a phase of the current turn relies on.\<close>

definition speaking_after :: "bool \<Rightarrow> InteractionState" where
  "speaking_after first = (if first then PROCESSING else SPEAKING)"

fun after_ok :: "turn_after \<Rightarrow> InteractionState \<Rightarrow> bool" where
  "after_ok (After_snapshot rq) s \<longleftrightarrow> s = PROCESSING"
| "after_ok (After_output first) s \<longleftrightarrow> s = speaking_after first"
| "after_ok After_empty s \<longleftrightarrow> s = PROCESSING \<or> s = SPEAKING"
| "after_ok (After_completed p first) s \<longleftrightarrow> s = speaking_after first"
| "after_ok After_failed s \<longleftrightarrow> s = PROCESSING \<or> s = SPEAKING"

fun phase_ok :: "turn_phase \<Rightarrow> InteractionState \<Rightarrow> bool" where
  "phase_ok Loading_history s \<longleftrightarrow> s = PROCESSING"
| "phase_ok (Awaiting_publish p after) s \<longleftrightarrow> after_ok after s"
| "phase_ok (In_pipeline first) s \<longleftrightarrow> s = speaking_after first"
| "phase_ok (Awaiting_registration p first) s \<longleftrightarrow> s = speaking_after first"
| "phase_ok Turn_ended s \<longleftrightarrow> True"

lemma after_ok_busy: "after_ok a s \<Longrightarrow> s = PROCESSING \<or> s = SPEAKING"
  by (cases a) (auto simp: speaking_after_def)

lemma phase_ok_busy: "phase_ok ph s \<Longrightarrow> ph \<noteq> Turn_ended \<Longrightarrow> s = PROCESSING \<or> s = SPEAKING"
  by (cases ph) (auto simp: speaking_after_def dest: after_ok_busy)

definition turn_ok :: "foreground \<Rightarrow> turn \<Rightarrow> bool" where
  "turn_ok f t \<longleftrightarrow> (tn_generation t = fg_current f \<longrightarrow> phase_ok (tn_phase t) (fg_state f))"

text \<open>\<open>loose i f\<close>: the invariant, but for the phase of the turn \<open>i\<close>.\<close>

definition loose :: "nat \<Rightarrow> foreground \<Rightarrow> bool" where
  "loose i f \<longleftrightarrow> (\<forall>j < length (fg_turns f). j \<noteq> i \<longrightarrow> turn_ok f (fg_turns f ! j)) \<and>
     (pending f \<noteq> [] \<longrightarrow> fg_state f = PROCESSING)"

definition retry_ok :: "uuid \<Rightarrow> SessionMessage \<times> EventEnvelope option \<Rightarrow> bool" where
  "retry_ok sid x \<longleftrightarrow> command_event (sm_event (fst x)) \<and>
     (\<forall>e. snd x = Some e \<longrightarrow> command_event e \<and> \<not> foreground_event e \<and> envelope_ok e \<and> ev_session_id e = Some sid)"

definition event_inv :: "foreground \<Rightarrow> bool" where
  "event_inv f \<longleftrightarrow> (\<forall>m \<in> set (queue (fg_actor f)). command_event (sm_event m)) \<and>
     (\<forall>m. fg_handling f = Some m \<longrightarrow> command_event (sm_event m)) \<and>
     (\<forall>x \<in> set (fg_submits f). retry_ok (fg_session_id f) x)"

definition runs :: "foreground \<Rightarrow> bool" where
  "runs f \<longleftrightarrow> actor_ok (fg_actor f) \<and>
     (ac_task (fg_actor f) = Task_created \<or> ac_task (fg_actor f) = Task_getting \<or> fg_handling f \<noteq> None) \<and>
     (fg_handling f = None \<longrightarrow> fg_steps f = []) \<and> 0 \<le> fg_message_sequence f \<and> one_spawn (fg_steps f)"

definition base_inv :: "foreground \<Rightarrow> bool" where
  "base_inv f \<longleftrightarrow> runs f \<and> event_inv f \<and> gen_inv f"

definition fg_inv :: "foreground \<Rightarrow> bool" where
  "fg_inv f \<longleftrightarrow> base_inv f \<and> loose (length (fg_turns f)) f"

definition inv_but :: "nat \<Rightarrow> foreground \<Rightarrow> bool" where
  "inv_but i f \<longleftrightarrow> base_inv f \<and> loose i f \<and> i < length (fg_turns f)"

lemma fg_inv_but:
  "i < length (fg_turns f) \<Longrightarrow> fg_inv f \<longleftrightarrow> inv_but i f \<and> turn_ok f (fg_turns f ! i)"
  by (auto simp: fg_inv_def inv_but_def loose_def)

end
