(* ===== verification/ForegroundTurns.thy ===== *)
theory ForegroundTurns
  imports ForegroundInv
begin

text \<open>The steps of the turn tasks keep the invariant, and no exception escapes from a turn.\<close>

section \<open>Frames of the invariant\<close>

lemmas inv_defs = base_inv_def runs_def event_inv_def gen_inv_def loose_def turn_ok_def
  pending_def turn_gens_def fg_handling_def fg_state_def fg_current_def fg_session_id_def

lemma unread_fields [simp]:
  "base_inv (f\<lparr>fg_messages := x1\<rparr>) = base_inv f" "base_inv (f\<lparr>fg_snapshots := x2\<rparr>) = base_inv f"
  "base_inv (f\<lparr>fg_writes := x3\<rparr>) = base_inv f" "base_inv (f\<lparr>fg_next_child := x4\<rparr>) = base_inv f"
  "base_inv (f\<lparr>fg_ready := x5\<rparr>) = base_inv f" "base_inv (f\<lparr>fg_handler_pub := x6\<rparr>) = base_inv f"
  "base_inv (f\<lparr>fg_voice_capture_active := x7\<rparr>) = base_inv f"
  "loose i (f\<lparr>fg_messages := x1\<rparr>) = loose i f" "loose i (f\<lparr>fg_snapshots := x2\<rparr>) = loose i f"
  "loose i (f\<lparr>fg_writes := x3\<rparr>) = loose i f" "loose i (f\<lparr>fg_next_child := x4\<rparr>) = loose i f"
  "loose i (f\<lparr>fg_ready := x5\<rparr>) = loose i f" "loose i (f\<lparr>fg_handler_pub := x6\<rparr>) = loose i f"
  "loose i (f\<lparr>fg_voice_capture_active := x7\<rparr>) = loose i f"
  by (simp_all add: inv_defs cong: option.case_cong)

lemma unread_views [simp]:
  "fg_state (f\<lparr>fg_messages := x1\<rparr>) = fg_state f" "fg_state (f\<lparr>fg_snapshots := x2\<rparr>) = fg_state f"
  "fg_state (f\<lparr>fg_writes := x3\<rparr>) = fg_state f" "fg_state (f\<lparr>fg_next_child := x4\<rparr>) = fg_state f"
  "fg_state (f\<lparr>fg_handler_pub := x6\<rparr>) = fg_state f" "fg_state (f\<lparr>fg_steps := x7\<rparr>) = fg_state f"
  "fg_state (f\<lparr>fg_turns := x8\<rparr>) = fg_state f" "fg_state (f\<lparr>fg_submits := x9\<rparr>) = fg_state f"
  "fg_current (f\<lparr>fg_messages := x1\<rparr>) = fg_current f" "fg_current (f\<lparr>fg_snapshots := x2\<rparr>) = fg_current f"
  "fg_current (f\<lparr>fg_writes := x3\<rparr>) = fg_current f" "fg_current (f\<lparr>fg_next_child := x4\<rparr>) = fg_current f"
  "fg_current (f\<lparr>fg_handler_pub := x6\<rparr>) = fg_current f" "fg_current (f\<lparr>fg_steps := x7\<rparr>) = fg_current f"
  "fg_current (f\<lparr>fg_turns := x8\<rparr>) = fg_current f" "fg_current (f\<lparr>fg_submits := x9\<rparr>) = fg_current f"
  by (simp_all add: fg_state_def fg_current_def)

lemma current_of_actor: "current_of (fg_actor f) = fg_current f"
  by (simp add: current_of_def fg_current_def)

text \<open>A steady change of the actor.\<close>

lemma steady_views:
  assumes "steady (fg_actor f) a"
  shows "fg_state (f\<lparr>fg_actor := a\<rparr>) = fg_state f" "fg_current (f\<lparr>fg_actor := a\<rparr>) = fg_current f"
    "fg_handling (f\<lparr>fg_actor := a\<rparr>) = fg_handling f" "fg_session_id (f\<lparr>fg_actor := a\<rparr>) = fg_session_id f"
    "pending (f\<lparr>fg_actor := a\<rparr>) = pending f" "queue a = queue (fg_actor f)" "ac_task a = ac_task (fg_actor f)"
  using assms by (simp_all add: steady_def aside_def inv_defs queue_def cong: option.case_cong)

lemma base_inv_steady:
  assumes "base_inv f" "steady (fg_actor f) a"
  shows "base_inv (f\<lparr>fg_actor := a\<rparr>)"
  using assms steady_views [OF assms(2)] actor_ok_steady [OF _ assms(2)]
  by (simp add: base_inv_def runs_def event_inv_def gen_inv_def turn_gens_def)

lemma loose_steady: "steady (fg_actor f) a \<Longrightarrow> loose i (f\<lparr>fg_actor := a\<rparr>) = loose i f"
  by (simp add: loose_def turn_ok_def steady_views)

lemma fg_inv_steady: "fg_inv f \<Longrightarrow> steady (fg_actor f) a \<Longrightarrow> fg_inv (f\<lparr>fg_actor := a\<rparr>)"
  by (simp add: fg_inv_def base_inv_steady loose_steady)

lemma inv_but_steady: "inv_but i f \<Longrightarrow> steady (fg_actor f) a \<Longrightarrow> inv_but i (f\<lparr>fg_actor := a\<rparr>)"
  by (simp add: inv_but_def base_inv_steady loose_steady)

text \<open>A move of the turn whose generation is current.\<close>

definition current_turn :: "foreground \<Rightarrow> nat \<Rightarrow> bool" where
  "current_turn f i \<longleftrightarrow> tn_generation (fg_turns f ! i) = fg_current f"

lemma current_turn_alone:
  assumes "inv_but i f" "current_turn f i"
  shows "pending f = []" "\<And>j. j < length (fg_turns f) \<Longrightarrow> j \<noteq> i \<Longrightarrow> tn_generation (fg_turns f ! j) \<noteq> fg_current f"
proof -
  have g: "gen_ok (fg_current f) (gens (queue (fg_actor f))) (gens (map fst (fg_submits f))) (pending f) (turn_gens f)"
    and i: "i < length (fg_turns f)"
    using assms by (simp_all add: inv_but_def base_inv_def gen_inv_def)
  have "fg_current f \<in> set (turn_gens f)"
    using assms(2) i by (force simp: current_turn_def turn_gens_def in_set_conv_nth)
  with g show "pending f = []" using gen_ok_current by blast
  have d: "distinct (turn_gens f)" using g by (simp add: gen_ok_def)
  show "tn_generation (fg_turns f ! j) \<noteq> fg_current f" if "j < length (fg_turns f)" "j \<noteq> i" for j
    using nth_eq_iff_index_eq [OF d, of j i] that i assms(2) by (simp add: current_turn_def turn_gens_def)
qed

lemma interacts_views:
  assumes "interacts (fg_actor f) s b"
  shows "fg_state (f\<lparr>fg_actor := b\<rparr>) = s" "fg_current (f\<lparr>fg_actor := b\<rparr>) = fg_current f"
    "fg_handling (f\<lparr>fg_actor := b\<rparr>) = fg_handling f" "fg_session_id (f\<lparr>fg_actor := b\<rparr>) = fg_session_id f"
    "pending (f\<lparr>fg_actor := b\<rparr>) = pending f" "queue b = queue (fg_actor f)" "ac_task b = ac_task (fg_actor f)"
  using assms by (auto simp: interacts_def inv_defs queue_def cong: option.case_cong)

lemma base_inv_interacts:
  assumes "base_inv f" "interacts (fg_actor f) s b"
  shows "base_inv (f\<lparr>fg_actor := b\<rparr>)"
  using assms interacts_views [OF assms(2)] actor_ok_interacts [OF _ assms(2)]
  by (simp add: base_inv_def runs_def event_inv_def gen_inv_def turn_gens_def)

lemma inv_but_interacts:
  assumes "inv_but i f" "current_turn f i" "interacts (fg_actor f) s b"
  shows "inv_but i (f\<lparr>fg_actor := b\<rparr>)"
  using assms current_turn_alone [OF assms(1,2)] base_inv_interacts [of f s b]
  by (simp add: inv_but_def loose_def turn_ok_def interacts_views)

text \<open>The turn enters a phase.\<close>

lemma turn_update:
  assumes "inv_but i f" "tn_generation t = tn_generation (fg_turns f ! i)"
    "current_turn f i \<Longrightarrow> phase_ok (tn_phase t) (fg_state f)"
  shows "fg_inv (f\<lparr>fg_turns := (fg_turns f)[i := t]\<rparr>)"
proof -
  let ?f = "f\<lparr>fg_turns := (fg_turns f)[i := t]\<rparr>"
  have i: "i < length (fg_turns f)" using assms(1) by (simp add: inv_but_def)
  have g: "turn_gens ?f = turn_gens f"
    using i assms(2) by (simp add: turn_gens_def map_update list_update_same_conv)
  have v: "pending ?f = pending f" "fg_handling ?f = fg_handling f" "fg_session_id ?f = fg_session_id f"
    by (simp_all add: pending_def fg_handling_def fg_session_id_def cong: option.case_cong)
  have "base_inv ?f"
    using assms(1) g v by (simp add: inv_but_def base_inv_def runs_def event_inv_def gen_inv_def)
  moreover have "loose i ?f"
    using assms(1) v by (simp add: inv_but_def loose_def turn_ok_def)
  moreover have "turn_ok ?f (fg_turns ?f ! i)"
    using assms(2,3) i by (simp add: turn_ok_def current_turn_def)
  ultimately show ?thesis using fg_inv_but [of i ?f] i by (simp add: inv_but_def)
qed

lemma set_phase_inv:
  "inv_but i f \<Longrightarrow> (current_turn f i \<Longrightarrow> phase_ok ph (fg_state f)) \<Longrightarrow> fg_inv (set_phase f i ph)"
  unfolding set_phase_def by (rule turn_update) (simp_all add: tn_generation_def)

lemma turn_ends_inv: "inv_but i f \<Longrightarrow> fg_inv (turn_ends f i Child_returned)"
  using fg_inv_steady [OF set_phase_inv [of i f Turn_ended], of "child_done (fg_actor f) (tn_child (fg_turns f ! i)) Child_returned"]
    child_returned_steady [of "fg_actor f"]
  by (simp add: turn_ends_def set_phase_def)

section \<open>Turn tasks\<close>

text \<open>
  A turn that raises is still busy if its generation is current, so that it can move to \<open>DEGRADED\<close>;
  \<open>outcome_ok\<close> is what each piece of \<open>_run_turn\<close> guarantees.
\<close>

definition busy :: "nat \<Rightarrow> foreground \<Rightarrow> bool" where
  "busy i f \<longleftrightarrow> inv_but i f \<and> (current_turn f i \<longrightarrow> fg_state f = PROCESSING \<or> fg_state f = SPEAKING)"

definition outcome_ok :: "nat \<Rightarrow> (foreground_error + unit) \<times> foreground \<Rightarrow> bool" where
  "outcome_ok i r \<longleftrightarrow> (case r of (Inl e, f) \<Rightarrow> busy i f | (Inr _, f) \<Rightarrow> fg_inv f)"

lemma busy_steady: "busy i f \<Longrightarrow> steady (fg_actor f) a \<Longrightarrow> busy i (f\<lparr>fg_actor := a\<rparr>)"
  by (simp add: busy_def inv_but_steady current_turn_def steady_views)

lemma current_turn_steady: "steady (fg_actor f) a \<Longrightarrow> current_turn (f\<lparr>fg_actor := a\<rparr>) i = current_turn f i"
  by (simp add: current_turn_def steady_views)

lemma phase_busy:
  assumes "fg_inv f" "i < length (fg_turns f)" "tn_phase (fg_turns f ! i) \<noteq> Turn_ended"
  shows "busy i f" "current_turn f i \<Longrightarrow> phase_ok (tn_phase (fg_turns f ! i)) (fg_state f)"
  using assms fg_inv_but [of i f] phase_ok_busy [of "tn_phase (fg_turns f ! i)" "fg_state f"]
  by (auto simp: busy_def turn_ok_def current_turn_def)

lemma spawn_write_inv:
  assumes "base_inv f"
  shows "fst (spawn_write f) = Inr ()"
    and "\<exists>a. steady (fg_actor f) a \<and>
      snd (spawn_write f) = f\<lparr>fg_actor := a, fg_writes := fg_writes f @ [fg_next_child f],
                               fg_next_child := Suc (fg_next_child f)\<rparr>"
  using spawn_own [of "fg_actor f" "fg_next_child f"] assms
  by (auto simp: spawn_write_def base_inv_def runs_def split: prod.splits sum.splits)

text \<open>A write leaves the invariant, the turns and the state alone.\<close>

definition writes :: "foreground \<Rightarrow> foreground \<Rightarrow> bool" where
  "writes f f' \<longleftrightarrow> fg_turns f' = fg_turns f \<and> fg_state f' = fg_state f \<and> fg_current f' = fg_current f \<and>
     (\<forall>i. loose i f' = loose i f) \<and> (base_inv f \<longrightarrow> base_inv f') \<and> fg_steps f' = fg_steps f \<and>
     fg_handling f' = fg_handling f \<and> fg_message_sequence f' = fg_message_sequence f"

lemma spawn_write_writes:
  assumes "base_inv f"
  shows "writes f (snd (spawn_write f))"
proof -
  obtain a where a: "steady (fg_actor f) a" "snd (spawn_write f) =
      f\<lparr>fg_actor := a, fg_writes := fg_writes f @ [fg_next_child f], fg_next_child := Suc (fg_next_child f)\<rparr>"
    using spawn_write_inv(2) [OF assms] by blast
  have "fg_handling (f\<lparr>fg_actor := a, fg_writes := x, fg_next_child := y\<rparr>) = fg_handling f" for x y
    using steady_views(3) [OF a(1)] by (simp add: fg_handling_def)
  then show ?thesis
    unfolding writes_def a(2)
    using base_inv_steady [OF assms a(1)] loose_steady [OF a(1)] steady_views [OF a(1)] by simp
qed

lemma writes_inv_but: "writes f f' \<Longrightarrow> inv_but i f \<Longrightarrow> inv_but i f'"
  by (simp add: writes_def inv_but_def)

lemma persist_message_cases:
  assumes "base_inv f"
  obtains "persist_message f r = (Inl Fg_value_error, f)" "\<not> check_message_record r"
  | f' where "persist_message f r = (Inr (), f')" "writes f f'" "check_message_record r"
proof (cases "check_message_record r")
  case True
  let ?f = "f\<lparr>fg_messages := fg_messages f @ [r]\<rparr>"
  have "base_inv ?f" using assms by simp
  note w = spawn_write_inv(1) [OF this] spawn_write_writes [OF this]
  have "writes f (snd (spawn_write ?f))"
    using w(2) by (simp add: writes_def fg_handling_def)
  moreover have "persist_message f r = (Inr (), snd (spawn_write ?f))"
    using True w(1) by (simp add: persist_message_def prod_eq_iff)
  ultimately show thesis using True that(2) by blast
qed (use that(1) in \<open>simp add: persist_message_def\<close>)

lemma persist_snapshot_cases:
  assumes "base_inv f"
  obtains f' where "persist_snapshot f s = (Inr (), f')" "writes f f'"
proof -
  let ?f = "f\<lparr>fg_snapshots := fg_snapshots f @ [s]\<rparr>"
  have "base_inv ?f" using assms by simp
  note w = spawn_write_inv(1) [OF this] spawn_write_writes [OF this]
  show thesis
    by (rule that [of "snd (spawn_write ?f)"])
      (use w in \<open>simp_all add: persist_snapshot_def prod_eq_iff writes_def fg_handling_def\<close>)
qed

text \<open>\<open>transition_interaction_if_current\<close> of a turn.\<close>

lemma turn_transit_cases:
  assumes "inv_but i f" "\<not> blank (lit r)" "current_turn f i \<Longrightarrow> q \<in> transitions (fg_state f)"
  obtains (stale) a where "turn_transit f i q r = (Inr False, f\<lparr>fg_actor := a\<rparr>)" "steady (fg_actor f) a"
      "\<not> current_turn f i"
  | (moved) b where "turn_transit f i q r = (Inr True, f\<lparr>fg_actor := b\<rparr>)" "interacts (fg_actor f) q b"
      "current_turn f i"
proof -
  have ok: "actor_ok (fg_actor f)" using assms(1) by (simp add: inv_but_def base_inv_def runs_def)
  show thesis
  proof (cases "current_turn f i")
    case False
    then obtain a where "transition_interaction_if_current (fg_actor f) q (tn_generation (fg_turns f ! i)) (lit r) = (Inr False, a)"
      "steady (fg_actor f) a"
      using if_current_own(1) [OF ok assms(2)] by (auto simp: current_turn_def current_of_actor)
    then show thesis using False by (intro stale [of a]) (simp_all add: turn_transit_def)
  next
    case True
    then obtain b where "transition_interaction_if_current (fg_actor f) q (tn_generation (fg_turns f ! i)) (lit r) = (Inr True, b)"
      "interacts (fg_actor f) q b"
      using if_current_own(2) [OF ok assms(2)] assms(3)
      by (auto simp: current_turn_def current_of_actor fg_state_def)
    then show thesis using True by (intro moved [of b]) (simp_all add: turn_transit_def)
  qed
qed

lemma degraded_reachable: "s \<noteq> DEGRADED \<Longrightarrow> DEGRADED \<in> transitions s" "s \<noteq> IDLE \<Longrightarrow> IDLE \<in> transitions s"
  by (cases s; simp)+

text \<open>A turn that reports a failure never raises.\<close>

lemma turn_degrades_inv:
  assumes "busy i f" "\<not> blank (lit r)"
  shows "\<exists>f'. turn_degrades f i published r = (Inr (), f') \<and> fg_inv f'"
proof -
  have b: "inv_but i f" using assms(1) by (simp add: busy_def)
  have d: "current_turn f i \<Longrightarrow> DEGRADED \<in> transitions (fg_state f)"
    using assms(1) by (auto simp: busy_def)
  show ?thesis
  proof (cases published)
    case True
    show ?thesis
    proof (rule turn_transit_cases [OF b assms(2) d])
      fix a assume "turn_transit f i DEGRADED r = (Inr False, f\<lparr>fg_actor := a\<rparr>)" "steady (fg_actor f) a"
      then show ?thesis
        using True turn_ends_inv [OF inv_but_steady [OF b]] by (simp add: turn_degrades_def)
    next
      fix a assume "turn_transit f i DEGRADED r = (Inr True, f\<lparr>fg_actor := a\<rparr>)"
        "interacts (fg_actor f) DEGRADED a" "current_turn f i"
      then show ?thesis
        using True turn_ends_inv [OF inv_but_interacts [OF b]] by (simp add: turn_degrades_def)
    qed
  next
    case False
    then show ?thesis using turn_ends_inv [OF b] by (simp add: turn_degrades_def)
  qed
qed

definition ready_for :: "nat \<Rightarrow> turn_after \<Rightarrow> foreground \<Rightarrow> bool" where
  "ready_for i after f \<longleftrightarrow> inv_but i f \<and> (current_turn f i \<longrightarrow> after_ok after (fg_state f))"

lemma ready_busy: "ready_for i after f \<Longrightarrow> busy i f"
  by (auto simp: ready_for_def busy_def dest: after_ok_busy)

lemma ready_steady: "ready_for i after f \<Longrightarrow> steady (fg_actor f) a \<Longrightarrow> ready_for i after (f\<lparr>fg_actor := a\<rparr>)"
  by (simp add: ready_for_def inv_but_steady current_turn_steady steady_views)

lemma turn_published_inv:
  assumes "ready_for i after f"
  shows "outcome_ok i (turn_published f i after published ck mid)"
    and "after = After_failed \<or> after = After_empty \<Longrightarrow> fst (turn_published f i after published ck mid) = Inr ()"
proof -
  have b: "inv_but i f" and base: "base_inv f" using assms by (simp_all add: ready_for_def inv_but_def)
  have cur: "current_turn f i \<Longrightarrow> after_ok after (fg_state f)" using assms by (simp add: ready_for_def)
  note bus = ready_busy [OF assms]
  obtain f1 where f1: "turn_degrades f i published ''model completed without visible output'' = (Inr (), f1)" "fg_inv f1"
    using turn_degrades_inv [OF bus reasons_visible(20)] by blast
  obtain f2 where f2: "turn_degrades f i published ''foreground dialogue failed'' = (Inr (), f2)" "fg_inv f2"
    using turn_degrades_inv [OF bus reasons_visible(21)] by blast
  show "fst (turn_published f i after published ck mid) = Inr ()" if "after = After_failed \<or> after = After_empty"
    using that f1 f2 by auto
  show "outcome_ok i (turn_published f i after published ck mid)"
  proof (cases after)
    case (After_snapshot rq)
    have "fg_inv (f\<lparr>fg_turns := (fg_turns f)[i := (fg_turns f ! i)\<lparr>tn_request := Some rq, tn_phase := In_pipeline True\<rparr>]\<rparr>)"
      using b by (rule turn_update) (use cur After_snapshot in \<open>simp_all add: tn_generation_def speaking_after_def\<close>)
    then show ?thesis using After_snapshot bus by (simp add: outcome_ok_def)
  next
    case (After_output first)
    then show ?thesis using set_phase_inv [OF b, of "In_pipeline first"] cur by (simp add: outcome_ok_def)
  next
    case After_empty
    then show ?thesis using f1 by (simp add: outcome_ok_def)
  next
    case (After_completed p first)
    have here: "fg_inv (set_phase f i (In_pipeline first))"
      using set_phase_inv [OF b, of "In_pipeline first"] cur After_completed by simp
    let ?r = "assistant_record f (fg_turns f ! i) p (ck_now ck) mid"
    show ?thesis
    proof (cases "published \<and> strip (plan_display_text p) \<noteq> []")
      case True
      show ?thesis
      proof (rule persist_message_cases [OF base, of ?r])
        assume "persist_message f ?r = (Inl Fg_value_error, f)"
        then show ?thesis using True After_completed bus by (simp add: outcome_ok_def)
      next
        fix f' assume w: "persist_message f ?r = (Inr (), f')" "writes f f'"
        have "fg_inv (set_phase f' i (In_pipeline first))"
          using writes_inv_but [OF w(2) b] cur After_completed w(2)
          by (intro set_phase_inv) (simp_all add: writes_def current_turn_def)
        then show ?thesis using True After_completed w(1) by (simp add: outcome_ok_def)
      qed
    next
      case False
      then have "turn_published f i after published ck mid = (Inr (), set_phase f i (In_pipeline first))"
        unfolding After_completed turn_published.simps by (rule if_not_P)
      then show ?thesis using here by (simp add: outcome_ok_def)
    qed
  next
    case After_failed
    then show ?thesis using f2 by (simp add: outcome_ok_def)
  qed
qed

lemma begin_publication_cases:
  assumes "base_inv f" "draft_ok d" "clock_ok ck"
  obtains a p where "begin_publication f m d ck = (Inr p, f\<lparr>fg_actor := a\<rparr>)" "steady (fg_actor f) a"
proof -
  have ok: "actor_ok (fg_actor f)" using assms(1) by (simp add: base_inv_def runs_def)
  obtain ev where ev: "output_event (fg_session_id f) (Some (sm_event m)) d ck = Inr ev" "envelope_ok ev"
    "ev_session_id ev = Some (fg_session_id f)"
    using output_event_ok [OF assms(2,3), of "fg_session_id f" "Some (sm_event m)"] by metis
  let ?p = "publish_begin (fg_actor f) ev (message_generation m)"
  have "(fst ?p = Inr None \<or> (\<exists>st t. fst ?p = Inr (Some (st, t)))) \<and> steady (fg_actor f) (snd ?p)"
    using publish_begin_own [OF ok ev(2)] ev(3) by (simp add: fg_session_id_def)
  then show thesis
    using ev(1) by (cases ?p) (auto simp: begin_publication_def intro: that)
qed

lemma turn_publish_inv:
  assumes "ready_for i after f" "draft_ok d" "clock_ok ck"
  shows "outcome_ok i (turn_publish f i d after ck mid)"
    and "after = After_failed \<Longrightarrow> fst (turn_publish f i d after ck mid) = Inr ()"
proof -
  have base: "base_inv f" using assms(1) by (simp add: ready_for_def inv_but_def)
  obtain a p where bp: "begin_publication f (tn_message (fg_turns f ! i)) d ck = (Inr p, f\<lparr>fg_actor := a\<rparr>)"
    "steady (fg_actor f) a"
    using begin_publication_cases [OF base assms(2,3)] by metis
  note r = ready_steady [OF assms(1) bp(2)]
  have "fg_inv (set_phase (f\<lparr>fg_actor := a\<rparr>) i (Awaiting_publish q after))" for q
    using r by (intro set_phase_inv) (simp_all add: ready_for_def)
  then show "outcome_ok i (turn_publish f i d after ck mid)"
    using turn_published_inv(1) [OF r, of False ck mid] bp(1)
    by (cases p) (auto simp: turn_publish_def outcome_ok_def)
  show "fst (turn_publish f i d after ck mid) = Inr ()" if "after = After_failed"
    using turn_published_inv(2) [OF r, of False ck mid] bp(1) that by (cases p) (simp_all add: turn_publish_def)
qed

lemma turn_fails_inv:
  assumes "busy i f" "clock_ok ck"
  shows "fg_inv (turn_fails f i e ck mid)"
proof -
  have "ready_for i After_failed f" using assms(1) by (auto simp: busy_def ready_for_def)
  note p = turn_publish_inv [OF this turn_drafts_ok(6) assms(2), of _ e mid]
  show ?thesis
    using p [of "fg_turns f ! i"] by (cases "turn_publish f i (failed_draft (fg_turns f ! i) e) After_failed ck mid")
      (auto simp: turn_fails_def outcome_ok_def)
qed

lemma turn_tries_inv: "outcome_ok i r \<Longrightarrow> clock_ok ck \<Longrightarrow> fg_inv (turn_tries i ck mid r)"
  by (cases r) (auto simp: turn_tries_def outcome_ok_def turn_fails_inv split: sum.splits)

section \<open>The operations of a turn\<close>

lemma turn_loaded_inv:
  assumes "busy i f" "current_turn f i \<Longrightarrow> fg_state f = PROCESSING" "clock_ok ck"
  shows "outcome_ok i (turn_loaded f i h compiled ck mid)"
proof (cases compiled)
  case (Inl e)
  then show ?thesis using assms(1) by (simp add: turn_loaded_def outcome_ok_def)
next
  case (Inr c)
  have b: "inv_but i f" "base_inv f" using assms(1) by (simp_all add: busy_def inv_but_def)
  obtain f' where f': "persist_snapshot f (cv_snapshot_id c) = (Inr (), f')" "writes f f'"
    by (rule persist_snapshot_cases [OF b(2), of "cv_snapshot_id c"])
  have "ready_for i (After_snapshot rq) f'" for rq
    using writes_inv_but [OF f'(2) b(1)] assms(2) f'(2)
    by (simp add: ready_for_def writes_def current_turn_def)
  then show ?thesis
    using turn_publish_inv(1) [OF _ turn_drafts_ok(1) assms(3)] f'(1) Inr
    by (simp add: turn_loaded_def)
qed

lemma turn_finishes_inv:
  assumes "busy i f"
  shows "outcome_ok i (turn_finishes f i)"
proof -
  have b: "inv_but i f" using assms by (simp add: busy_def)
  have to_idle: "current_turn f i \<Longrightarrow> IDLE \<in> transitions (fg_state f)"
    using assms degraded_reachable(2) [of "fg_state f"] by (auto simp: busy_def)
  have listen: "outcome_ok i (if fg_voice_capture_active f1
        then (case turn_transit f1 i LISTENING ''microphone remains active after utterance'' of
                (Inl e, f2) \<Rightarrow> (Inl e, f2)
              | (Inr _, f2) \<Rightarrow> (Inr (), turn_ends f2 i Child_returned))
        else (Inr (), turn_ends f1 i Child_returned))"
    if f1: "inv_but i f1" "current_turn f1 i \<Longrightarrow> fg_state f1 = IDLE" for f1
  proof (cases "fg_voice_capture_active f1")
    case True
    have l: "current_turn f1 i \<Longrightarrow> LISTENING \<in> transitions (fg_state f1)" using f1(2) by simp
    show ?thesis
    proof (rule turn_transit_cases [OF f1(1) reasons_visible(19) l])
      fix a assume "turn_transit f1 i LISTENING ''microphone remains active after utterance'' = (Inr False, f1\<lparr>fg_actor := a\<rparr>)"
        "steady (fg_actor f1) a"
      then show ?thesis
        using True turn_ends_inv [OF inv_but_steady [OF f1(1)]] by (simp add: outcome_ok_def)
    next
      fix a assume "turn_transit f1 i LISTENING ''microphone remains active after utterance'' = (Inr True, f1\<lparr>fg_actor := a\<rparr>)"
        "interacts (fg_actor f1) LISTENING a" "current_turn f1 i"
      then show ?thesis
        using True turn_ends_inv [OF inv_but_interacts [OF f1(1)]] by (simp add: outcome_ok_def)
    qed
  qed (use turn_ends_inv [OF f1(1)] in \<open>simp add: outcome_ok_def\<close>)
  show ?thesis
  proof (cases "fg_state f = IDLE")
    case True
    then show ?thesis using listen [OF b] by (simp add: turn_finishes_def)
  next
    case False
    show ?thesis
    proof (rule turn_transit_cases [OF b reasons_visible(18) to_idle])
      fix a assume "turn_transit f i IDLE ''utterance stream completed'' = (Inr False, f\<lparr>fg_actor := a\<rparr>)"
        "steady (fg_actor f) a"
      then show ?thesis
        using False turn_ends_inv [OF inv_but_steady [OF b]] by (simp add: turn_finishes_def outcome_ok_def)
    next
      fix a assume a: "turn_transit f i IDLE ''utterance stream completed'' = (Inr True, f\<lparr>fg_actor := a\<rparr>)"
        "interacts (fg_actor f) IDLE a" "current_turn f i"
      have "outcome_ok i (turn_finishes f i) = outcome_ok i (if fg_voice_capture_active (f\<lparr>fg_actor := a\<rparr>)
          then (case turn_transit (f\<lparr>fg_actor := a\<rparr>) i LISTENING ''microphone remains active after utterance'' of
                  (Inl e, f2) \<Rightarrow> (Inl e, f2)
                | (Inr _, f2) \<Rightarrow> (Inr (), turn_ends f2 i Child_returned))
          else (Inr (), turn_ends (f\<lparr>fg_actor := a\<rparr>) i Child_returned))"
        using False a(1) by (simp add: turn_finishes_def)
      then show ?thesis
        using listen [OF inv_but_interacts [OF b a(3,2)]] interacts_views(1) [OF a(2)] by blast
    qed
  qed
qed

lemma turn_receives_inv:
  assumes "busy i f" "current_turn f i \<Longrightarrow> fg_state f = speaking_after first" "clock_ok ck"
  shows "outcome_ok i (turn_receives f i first reply ck mid)"
proof -
  have b: "inv_but i f" using assms(1) by (simp add: busy_def)
  have segment: "outcome_ok i (turn_publish f1 i (segment_draft (fg_turns f1 ! i) s) (After_output False) ck mid)"
    if "inv_but i f1" "current_turn f1 i \<Longrightarrow> fg_state f1 = SPEAKING" for f1 s
    using that by (intro turn_publish_inv(1) turn_drafts_ok assms(3)) (simp add: ready_for_def speaking_after_def)
  show ?thesis
  proof (cases reply)
    case (Reply_event e)
    show ?thesis
    proof (cases e)
      case (SegmentReady u g s)
      show ?thesis
      proof (cases first)
        case True
        then have m: "current_turn f i \<Longrightarrow> SPEAKING \<in> transitions (fg_state f)"
          using assms(2) by (simp add: speaking_after_def)
        show ?thesis
        proof (rule turn_transit_cases [OF b reasons_visible(17) m])
          fix a assume "turn_transit f i SPEAKING ''first validated utterance segment'' = (Inr False, f\<lparr>fg_actor := a\<rparr>)"
            "steady (fg_actor f) a"
          then show ?thesis
            using True Reply_event SegmentReady turn_ends_inv [OF inv_but_steady [OF b]] by (simp add: outcome_ok_def)
        next
          fix a assume a: "turn_transit f i SPEAKING ''first validated utterance segment'' = (Inr True, f\<lparr>fg_actor := a\<rparr>)"
            "interacts (fg_actor f) SPEAKING a" "current_turn f i"
          then show ?thesis
            using True Reply_event SegmentReady segment [OF inv_but_interacts [OF b a(3,2)]] interacts_views(1) [OF a(2)]
            by simp
        qed
      next
        case False
        then show ?thesis
          using Reply_event SegmentReady segment [OF b] assms(2) by (simp add: speaking_after_def)
      qed
    next
      case (SegmentAudioReady u g s c)
      have "ready_for i (After_output first) f" using b assms(2) by (simp add: ready_for_def)
      then show ?thesis
        using turn_publish_inv(1) [OF _ turn_drafts_ok(3) assms(3)] Reply_event SegmentAudioReady by simp
    next
      case (UtteranceCompleted u g p)
      have "ready_for i After_empty f" using assms(1) by (auto simp: ready_for_def busy_def)
      note empty = turn_publish_inv(1) [OF this turn_drafts_ok(4) assms(3)]
      have "fg_inv (set_phase f i (Awaiting_registration p first))"
        using b by (rule set_phase_inv) (use assms(2) in simp)
      then show ?thesis using empty Reply_event UtteranceCompleted by (simp add: outcome_ok_def)
    qed
  next
    case Reply_end
    then show ?thesis using turn_finishes_inv [OF assms(1)] by simp
  next
    case Reply_cancelled
    then show ?thesis using turn_ends_inv [OF b] by (simp add: outcome_ok_def)
  next
    case (Reply_raised e)
    then show ?thesis using assms(1) by (simp add: outcome_ok_def)
  qed
qed

lemma turn_resolved_inv:
  assumes "ready_for i after f" "clock_ok ck"
  shows "fg_inv (turn_resolved f i after published ck mid)"
proof (cases "turn_published f i after published ck mid")
  case (Pair r f1)
  have out: "outcome_ok i (r, f1)" using turn_published_inv(1) [OF assms(1)] Pair by metis
  show ?thesis
  proof (cases r)
    case (Inl e)
    then have "after \<noteq> After_failed"
      using turn_published_inv(2) [OF assms(1), of published ck mid] Pair by auto
    then show ?thesis
      using Pair Inl out turn_fails_inv [OF _ assms(2)] by (simp add: turn_resolved_def outcome_ok_def)
  next
    case (Inr u)
    then show ?thesis using Pair out by (simp add: turn_resolved_def outcome_ok_def)
  qed
qed

lemma awaiting_ready:
  assumes "fg_inv f" "i < length (fg_turns f)" "tn_phase (fg_turns f ! i) = Awaiting_publish p after"
  shows "ready_for i after f"
  using phase_busy [OF assms(1,2)] assms(3) by (simp add: ready_for_def busy_def)

lemma turn_attempts_inv:
  assumes "fg_inv f" "i < length (fg_turns f)" "tn_phase (fg_turns f ! i) = Awaiting_publish p after" "clock_ok ck"
  shows "fg_inv (turn_attempts f i p after ck mid)"
proof -
  note r = awaiting_ready [OF assms(1-3)]
  have ok: "actor_ok (fg_actor f)" using assms(1) by (simp add: fg_inv_def base_inv_def runs_def)
  let ?a = "publish_attempt (fg_actor f) (fst p) (fst (snd p))"
  obtain x where x: "fst ?a = Inr x" "steady (fg_actor f) (snd ?a)"
    using publish_attempt_own [OF ok] by blast
  show ?thesis
  proof (cases x)
    case None
    then show ?thesis using x fg_inv_steady [OF assms(1) x(2)] by (cases ?a) (simp add: turn_attempts_def)
  next
    case (Some pub)
    then show ?thesis
      using x turn_resolved_inv [OF ready_steady [OF r x(2)] assms(4)] by (cases ?a) (simp add: turn_attempts_def)
  qed
qed

end
