(* ===== verification/ForegroundHandlers.thy ===== *)
theory ForegroundHandlers
  imports ForegroundTurns
begin

text \<open>The handlers and the submissions keep the invariant, and no handler raises.\<close>

section \<open>Delivery of a command\<close>

lemma foreground_sequence [simp]:
  "foreground_event (e\<lparr>ev_sequence := n\<rparr>) = foreground_event e" "command_event (e\<lparr>ev_sequence := n\<rparr>) = command_event e"
  by (simp_all add: foreground_event_def event_barge_in_def command_event_def)

lemma foreground_in_gens: "m \<in> set ms \<Longrightarrow> foreground_message m \<Longrightarrow> message_generation m \<in> set (gens ms)"
  by (auto simp: gens_def)

lemma foreground_priority: "command_event (sm_event m) \<Longrightarrow> foreground_message m \<Longrightarrow> 75 \<le> ev_priority (sm_event m)"
  unfolding command_event_def foreground_message_def using command_kinds(3,5) by blast

lemma in_pop_at: "x \<in> set (pop_at i xs) \<Longrightarrow> \<exists>j < length xs. j \<noteq> i \<and> x = xs ! j"
proof (induction xs arbitrary: i)
  case (Cons y ys)
  show ?case
  proof (cases i)
    case 0
    then show ?thesis using Cons.prems by (auto simp: in_set_conv_nth)
  next
    case (Suc k)
    then consider "x = y" | "x \<in> set (pop_at k ys)" using Cons.prems by auto
    then show ?thesis
    proof cases
      case 2
      then obtain j where "j < length ys" "j \<noteq> k" "x = ys ! j" using Cons.IH by blast
      then show ?thesis using Suc by (intro exI [of _ "Suc j"]) simp
    qed (use Suc in auto)
  qed
qed (simp add: pop_at_def)

text \<open>When a turn request is delivered, every queued foreground command is younger.\<close>

lemma delivered_turn_oldest:
  assumes "delivers a i b" "\<forall>m \<in> set (queue a). command_event (sm_event m)" "sorted_wrt (<) (gens (queue a))"
    "foreground_message (queue a ! i)" "ev_priority (sm_event (queue a ! i)) = 75"
    "q \<in> set (gens (queue b))"
  shows "message_generation (queue a ! i) < q"
proof -
  let ?ms = "queue a"
  have b: "queue b = pop_at i ?ms" and i: "i < length ?ms" using assms(1) by (simp_all add: delivers_def)
  obtain x where x: "x \<in> set (pop_at i ?ms)" "foreground_message x" "q = message_generation x"
    using assms(6) unfolding b by (auto simp: gens_def)
  then obtain j where j: "j < length ?ms" "j \<noteq> i" "x = ?ms ! j"
    using in_pop_at by metis
  have "75 \<le> ev_priority (sm_event x)" using assms(2) j x(2) by (auto intro: foreground_priority)
  moreover have "ev_priority (sm_event (?ms ! j)) \<le> 75"
    "ev_priority (sm_event (?ms ! j)) = 75 \<longrightarrow> i \<le> j"
    using assms(1,5) j(1) by (auto simp: delivers_def)
  ultimately have "i < j" using j by auto
  then show ?thesis
    using assms(3,4) x(2,3) j(1,3) i unfolding gens_order
    by (auto dest: sorted_wrt_nth_less [of _ ?ms i j])
qed

text \<open>The state after a handler's synchronous part.\<close>

definition received ::
  "foreground \<Rightarrow> session_actor \<Rightarrow> handler_step list \<Rightarrow> int \<Rightarrow> foreground" where
  "received f b steps n = f\<lparr>fg_actor := b, fg_steps := steps, fg_message_sequence := n\<rparr>"

lemma delivered_inv:
  assumes inv: "fg_inv f" and task: "ac_task (fg_actor f) = Task_getting"
    and del: "delivers (fg_actor f) i a" "actor_ok a" "ac_cancellation a = ac_cancellation (fg_actor f)"
      "ac_session_id a = ac_session_id (fg_actor f)"
    and moved: "interacts a s b'" "steady b' b"
    and steps: "one_spawn steps" "0 \<le> n"
      "spawning steps \<Longrightarrow> foreground_message (queue (fg_actor f) ! i) \<and> s = PROCESSING \<and>
         ev_priority (sm_event (queue (fg_actor f) ! i)) = 75"
    and calm: "\<not> foreground_message (queue (fg_actor f) ! i) \<Longrightarrow> fg_state f = PROCESSING \<or> fg_state f = SPEAKING \<Longrightarrow>
         s = fg_state f"
  shows "fg_inv (received f b steps n)"
proof -
  let ?f = "received f b steps n" and ?q = "queue (fg_actor f)" and ?m = "queue (fg_actor f) ! i"
  have base: "base_inv f" and loose: "loose (length (fg_turns f)) f" using inv by (simp_all add: fg_inv_def)
  have idle: "fg_handling f = None" using task by (simp add: fg_handling_def)
  then have none: "pending f = []" by (simp add: pending_def)
  have i: "i < length ?q" using del(1) by (simp add: delivers_def)
  have b: "ac_task b = Task_handling ?m" "queue b = pop_at i ?q" "ac_cancellation b = ac_cancellation (fg_actor f)"
    "ac_session_id b = ac_session_id (fg_actor f)" "im_state (ac_interaction b) = s" "actor_ok b"
    using del moved actor_ok_steady [OF actor_ok_interacts [OF del(2) moved(1)] moved(2)]
    by (auto simp: delivers_def interacts_def steady_def aside_def queue_def)
  have views: "fg_handling ?f = Some ?m" "fg_current ?f = fg_current f" "fg_state ?f = s"
    "fg_session_id ?f = fg_session_id f" "turn_gens ?f = turn_gens f" "fg_submits ?f = fg_submits f" "fg_turns ?f = fg_turns f"
    using b by (simp_all add: received_def inv_defs)
  have pend: "pending ?f = (if spawning steps then [message_generation ?m] else [])"
    using views(1) by (simp add: pending_def received_def)
  have ev: "\<forall>m \<in> set ?q. command_event (sm_event m)" using base by (simp add: base_inv_def event_inv_def)
  have events: "event_inv ?f"
    using base ev i set_pop_at_subset [of i ?q] views b(2)
    by (auto simp: base_inv_def event_inv_def received_def)
  have g: "gen_ok (fg_current f) (gens ?q) (gens (map fst (fg_submits f))) [] (turn_gens f)"
    using base none by (simp add: base_inv_def gen_inv_def)
  have sub: "subseq (gens (pop_at i ?q)) (gens ?q)" by (intro subseq_gens subseq_pop_at)
  have "gen_ok (fg_current f) (gens (pop_at i ?q)) (gens (map fst (fg_submits f))) (pending ?f) (turn_gens f)"
  proof (cases "spawning steps")
    case True
    note st = steps(3) [OF True]
    have "\<forall>q \<in> set (gens (pop_at i ?q)). message_generation ?m < q"
      using delivered_turn_oldest [OF del(1) ev] g st b(2) del(1) by (simp add: gen_ok_def delivers_def)
    then show ?thesis
      using gen_ok_deliver [OF g sub] foreground_in_gens [of ?m ?q] st i pend True by simp
  next
    case False
    then show ?thesis using gen_ok_drop [OF g sub] pend by simp
  qed
  then have gens: "gen_inv ?f" using views b(2) by (simp add: gen_inv_def received_def)
  have runs: "runs ?f"
    using b(6) views(1) steps(1,2) by (simp add: runs_def received_def)
  have "turn_ok ?f (fg_turns f ! j)" if j: "j < length (fg_turns f)" for j
  proof (cases "foreground_message ?m")
    case True
    have "tn_generation (fg_turns f ! j) \<in> set (turn_gens f)" using j by (simp add: turn_gens_def)
    then have "tn_generation (fg_turns f ! j) < message_generation ?m" "message_generation ?m \<le> fg_current f"
      using g foreground_in_gens [of ?m ?q] True i by (auto simp: gen_ok_def before_def below_def)
    then show ?thesis by (simp add: turn_ok_def views)
  next
    case False
    have "turn_ok f (fg_turns f ! j)" using loose j by (simp add: loose_def)
    then show ?thesis
      using calm [OF False] phase_ok_busy [of "tn_phase (fg_turns f ! j)" "fg_state f"]
      by (cases "tn_phase (fg_turns f ! j) = Turn_ended") (auto simp: turn_ok_def views)
  qed
  moreover have "pending ?f \<noteq> [] \<longrightarrow> s = PROCESSING" using pend steps(3) by auto
  ultimately show ?thesis
    using runs events gens by (simp add: fg_inv_def base_inv_def loose_def views)
qed

section \<open>Handlers\<close>

text \<open>The situation in which a handler starts: its message has just been taken from the queue.\<close>

definition delivered :: "foreground \<Rightarrow> nat \<Rightarrow> session_actor \<Rightarrow> bool" where
  "delivered f i a \<longleftrightarrow> fg_inv f \<and> ac_task (fg_actor f) = Task_getting \<and> delivers (fg_actor f) i a \<and> actor_ok a \<and>
     ac_cancellation a = ac_cancellation (fg_actor f) \<and> ac_session_id a = ac_session_id (fg_actor f) \<and>
     ac_interaction a = ac_interaction (fg_actor f)"

lemma delivered_facts:
  assumes "delivered f i a"
  shows "fg_inv f" "ac_task (fg_actor f) = Task_getting" "delivers (fg_actor f) i a" "actor_ok a"
    "ac_cancellation a = ac_cancellation (fg_actor f)" "ac_session_id a = ac_session_id (fg_actor f)"
    "im_state (ac_interaction a) = fg_state f" "fg_steps f = []" "0 \<le> fg_message_sequence f"
    "command_event (sm_event (queue (fg_actor f) ! i))"
proof -
  show fi: "fg_inv f" and task: "ac_task (fg_actor f) = Task_getting" and d: "delivers (fg_actor f) i a" and "actor_ok a"
    "ac_cancellation a = ac_cancellation (fg_actor f)" "ac_session_id a = ac_session_id (fg_actor f)"
    "im_state (ac_interaction a) = fg_state f"
    using assms by (simp_all add: delivered_def fg_state_def)
  have "runs f" "event_inv f" using fi by (simp_all add: fg_inv_def base_inv_def)
  then show "fg_steps f = []" "0 \<le> fg_message_sequence f" "command_event (sm_event (queue (fg_actor f) ! i))"
    using task d by (simp_all add: runs_def fg_handling_def event_inv_def delivers_def)
qed

text \<open>A handler got to its first wait.\<close>

definition handled :: "(foreground_error + unit) \<times> foreground \<Rightarrow> bool" where
  "handled r \<longleftrightarrow> (\<exists>f2. r = (Inr (), f2) \<and> fg_inv f2)"

lemma handled_if: "(P \<Longrightarrow> handled x) \<Longrightarrow> (\<not> P \<Longrightarrow> handled y) \<Longrightarrow> handled (if P then x else y)"
  by simp

text \<open>Handlers that move the state and then publish.\<close>

lemma then_say_inv:
  assumes d: "delivered f i a" and st: "settles a s r"
    and calm: "\<not> foreground_message (queue (fg_actor f) ! i) \<Longrightarrow> fg_state f = PROCESSING \<or> fg_state f = SPEAKING \<Longrightarrow>
      s = fg_state f"
    and f': "f' = f\<lparr>fg_actor := a\<rparr> \<or> f' = f\<lparr>fg_actor := a, fg_voice_capture_active := c\<rparr>"
  shows "handled (then_say f' r ns)"
proof -
  note df = delivered_facts [OF d]
  obtain b where b: "r = (Inr (), b)" "interacts a s b" using st by (auto simp: settles_def)
  have inv: "fg_inv (received f b (map Say ns) (fg_message_sequence f))"
    using delivered_inv [OF df(1-6) b(2) steady_refl, of "map Say ns" "fg_message_sequence f"] df(9) calm by simp
  have "then_say f' r ns = (Inr (), f'\<lparr>fg_actor := b, fg_steps := map Say ns\<rparr>)"
    using b(1) by (simp add: then_say_def)
  moreover have "fg_inv (f'\<lparr>fg_actor := b, fg_steps := map Say ns\<rparr>)"
    using f'
  proof
    assume "f' = f\<lparr>fg_actor := a\<rparr>"
    then have "f'\<lparr>fg_actor := b, fg_steps := map Say ns\<rparr> = received f b (map Say ns) (fg_message_sequence f)"
      by (simp add: received_def)
    then show ?thesis using inv by simp
  next
    assume "f' = f\<lparr>fg_actor := a, fg_voice_capture_active := c\<rparr>"
    then have "f'\<lparr>fg_actor := b, fg_steps := map Say ns\<rparr> =
        (received f b (map Say ns) (fg_message_sequence f))\<lparr>fg_voice_capture_active := c\<rparr>"
      by (simp add: received_def)
    then show ?thesis using inv by (simp add: fg_inv_def)
  qed
  ultimately show ?thesis by (auto simp: handled_def)
qed

lemma persist_message_shape:
  assumes "actor_ok (fg_actor f)" "check_message_record r"
  obtains a where "persist_message f r = (Inr (), f\<lparr>fg_messages := fg_messages f @ [r], fg_actor := a,
      fg_writes := fg_writes f @ [fg_next_child f], fg_next_child := Suc (fg_next_child f)\<rparr>)"
    "steady (fg_actor f) a"
proof -
  let ?s = "actor_spawn (fg_actor f) (fg_next_child f)"
  have "fst ?s = Inr ()" "steady (fg_actor f) (snd ?s)" using spawn_own [OF assms(1)] by auto
  then show thesis
    using assms(2) by (intro that [of "snd ?s"]) (auto simp: persist_message_def spawn_write_def split: prod.split sum.split)
qed

lemma accept_turn_inv:
  assumes d: "delivered f i a" and p: "turn_payload (sm_event (queue (fg_actor f) ! i))"
    and fore: "foreground_message (queue (fg_actor f) ! i)" "ev_priority (sm_event (queue (fg_actor f) ! i)) = 75"
  shows "handled (accept_turn (f\<lparr>fg_actor := a\<rparr>) (queue (fg_actor f) ! i) mid)"
proof -
  note df = delivered_facts [OF d]
  let ?m = "queue (fg_actor f) ! i"
  let ?pay = "primitive_payload (sm_event ?m)"
  obtain t u md where pay: "payload_text ?pay ''text'' = Some t" "\<not> blank t"
    "payload_text ?pay ''turn_id'' = Some (uuid_str u)" "input_modality ?pay = Some md"
    using p by (auto simp: turn_payload_def)
  obtain b where b: "enter_processing a = (Inr (), b)" "interacts a PROCESSING b"
    using enter_processing_settles [OF df(4)] by (auto simp: settles_def)
  let ?n = "fg_message_sequence f"
  let ?f1 = "f\<lparr>fg_actor := b, fg_message_sequence := ?n + 2\<rparr>"
  let ?utt = "payload_text ?pay ''utterance_id''"
  let ?r = "user_record (f\<lparr>fg_actor := a\<rparr>) ?m u t md ?utt mid"
  have chk: "check_message_record ?r" using df(9) pay(2) by (simp add: check_message_record_def user_record_def)
  have ok: "actor_ok (fg_actor ?f1)" using actor_ok_interacts [OF df(4) b(2)] by simp
  obtain c where c: "persist_message ?f1 ?r = (Inr (), ?f1\<lparr>fg_messages := fg_messages ?f1 @ [?r], fg_actor := c,
      fg_writes := fg_writes ?f1 @ [fg_next_child ?f1], fg_next_child := Suc (fg_next_child ?f1)\<rparr>)"
    "steady (fg_actor ?f1) c"
    by (rule persist_message_shape [OF ok chk])
  let ?steps = "(if md = lit ''voice'' then [Say (Transcript_final u ?utt t)] else []) @
      [Say (Turn_accepted u md), Spawn_turn u t (?n + 1) (?n + 2)]"
  let ?f2 = "(received f c ?steps (?n + 2))\<lparr>fg_messages := fg_messages f @ [?r],
      fg_writes := fg_writes f @ [fg_next_child f], fg_next_child := Suc (fg_next_child f)\<rparr>"
  have "accept_turn (f\<lparr>fg_actor := a\<rparr>) ?m mid = (Inr (), ?f2)"
    using pay b(1) c(1) by (simp del: lit_simps add: accept_turn_def Let_def received_def)
  moreover have "fg_inv (received f c ?steps (?n + 2))"
    using delivered_inv [OF df(1-6) b(2) _, of c ?steps "?n + 2"] c(2) df(9) fore by simp
  then have "fg_inv ?f2" by (simp add: fg_inv_def received_def)
  ultimately show ?thesis by (auto simp: handled_def)
qed

lemma handle_message_inv:
  assumes d: "delivered f i a"
  shows "handled (handle_message (f\<lparr>fg_actor := a\<rparr>) (queue (fg_actor f) ! i) mid)"
proof -
  note df = delivered_facts [OF d]
  let ?m = "queue (fg_actor f) ! i" and ?f1 = "f\<lparr>fg_actor := a\<rparr>"
  let ?e = "sm_event ?m"
  obtain c where c: "command_of c ?e" using df(10) by (auto simp: command_event_def)
  have fore: "foreground_message ?m \<longleftrightarrow> foreground_event ?e" by (simp add: foreground_message_def)
  let ?s = "im_state (ac_interaction a)"
  have same: "settles a ?s (Inr (), a)" by (simp add: settles_same)
  have quiet: "handled (then_say ?f1 (Inr (), a) ns)" for ns
    using then_say_inv [OF d same, of ?f1] df(7) by simp
  have turn: "handled (accept_turn ?f1 ?m mid)" if "ev_type ?e = lit ''turn.requested''"
  proof (rule accept_turn_inv [OF d])
    have "turn_call c" using that command_kinds(2) [OF c] by simp
    then show "turn_payload ?e" "ev_priority ?e = 75"
      using turn_call_payload [OF c] command_kinds(4) [OF c] by simp_all
    show "foreground_message ?m" using that by (simp del: lit_simps add: fore foreground_event_def)
  qed
  have cancel: "handled (then_say ?f1 (leave_foreground (cancel_target ?f1) a) ns)"
    if "ev_type ?e = lit ''turn.cancel_requested''" for ns
  proof -
    have st: "settles a (cancel_target ?f1) (leave_foreground (cancel_target ?f1) a)"
      using leave_foreground_settles [OF df(4)] by (simp add: cancel_target_def)
    show ?thesis
      by (rule then_say_inv [OF d st]) (use that in \<open>simp_all del: lit_simps add: fore foreground_event_def\<close>)
  qed
  have busy: "microphone_state x (fg_state f) = fg_state f" if "fg_state f = PROCESSING \<or> fg_state f = SPEAKING" for x
    using that by (auto simp: microphone_state_def)
  have capture: "handled (then_say (?f1\<lparr>fg_voice_capture_active := True\<rparr>) (capture_started a) ns)"
    "handled (then_say (?f1\<lparr>fg_voice_capture_active := False\<rparr>) (capture_stopped a) ns)" for ns
    using then_say_inv [OF d capture_settles(1) [OF df(4)], of "?f1\<lparr>fg_voice_capture_active := True\<rparr>" True ns]
      then_say_inv [OF d capture_settles(2) [OF df(4)], of "?f1\<lparr>fg_voice_capture_active := False\<rparr>" False ns] busy df(7)
    by simp_all
  have speech: "handled (then_say ?f1 (speech_started (event_barge_in ?e) a) ns)"
    if "ev_type ?e = lit ''voice.speech_started''" for ns
  proof (rule then_say_inv [OF d speech_started_settles [OF df(4)]])
    show "(if event_barge_in ?e then LISTENING else microphone_state True ?s) = fg_state f"
      if "\<not> foreground_message ?m" "fg_state f = PROCESSING \<or> fg_state f = SPEAKING"
      using that busy df(7) \<open>ev_type ?e = _\<close> by (simp del: lit_simps add: fore foreground_event_def)
  qed simp
  obtain r where r: "request_of c = Some r" using c by (auto simp: command_of_def)
  have "ev_type ?e \<in> lit ` {''turn.requested'', ''turn.cancel_requested'', ''voice.capture_started'', ''voice.capture_stopped'',
      ''voice.speech_started'', ''voice.transcript_partial'', ''voice.transcript_empty'', ''voice.recognition_failed'',
      ''transport.ping'', ''operator.neutral_avatar_requested'', ''playback.ack_received''}"
    using r unfolding command_payload(2) [OF c r]
    by (cases c) (auto simp del: lit_simps simp: request_defs split: if_splits)
  then have types: "ev_type ?e = lit ''turn.requested'' \<or> ev_type ?e = lit ''turn.cancel_requested'' \<or>
      ev_type ?e = lit ''voice.capture_started'' \<or> ev_type ?e = lit ''voice.capture_stopped'' \<or>
      ev_type ?e = lit ''voice.speech_started'' \<or> ev_type ?e = lit ''voice.transcript_partial'' \<or>
      ev_type ?e = lit ''voice.transcript_empty'' \<or> ev_type ?e = lit ''voice.recognition_failed'' \<or>
      ev_type ?e = lit ''transport.ping'' \<or> ev_type ?e = lit ''operator.neutral_avatar_requested'' \<or>
      ev_type ?e = lit ''playback.ack_received''"
    by (simp del: lit_simps)
  have actor: "fg_actor ?f1 = a" by simp
  show ?thesis
    unfolding handle_message_def Let_def actor
    by (intro handled_if turn cancel capture speech quiet; (rule quiet)?) (use types in blast)+
qed

end
