(* ===== verification/ForegroundRun.thy ===== *)
theory ForegroundRun
  imports ForegroundHandlers
begin

text \<open>
  The foreground session as a machine: every operation keeps the invariant or is the failure of a storage
  write, and what follows for whole runs.
\<close>

section \<open>The handler in the actor's loop\<close>

lemma receive_command_inv:
  assumes "fg_inv f" "ac_task (fg_actor f) = Task_getting"
  shows "fg_inv (receive_command f mid now)"
proof -
  have ok: "actor_ok (fg_actor f)" using assms(1) by (simp add: fg_inv_def base_inv_def runs_def)
  show ?thesis
  proof (rule run_get_own [OF ok assms(2), of now])
    assume "run_get (fg_actor f) now = fg_actor f"
    then have "receive_command f mid now = f"
      using assms(2) by (simp add: receive_command_def Let_def fg_handling_def)
    then show ?thesis using assms(1) by simp
  next
    fix i
    let ?a = "run_get (fg_actor f) now"
    assume got: "delivers (fg_actor f) i ?a" "actor_ok ?a" "ac_interaction ?a = ac_interaction (fg_actor f)"
      "ac_cancellation ?a = ac_cancellation (fg_actor f)" "ac_session_id ?a = ac_session_id (fg_actor f)"
    then have d: "delivered f i ?a" using assms by (simp add: delivered_def)
    have "fg_handling (f\<lparr>fg_actor := ?a\<rparr>) = Some (queue (fg_actor f) ! i)"
      using got(1) by (simp add: fg_handling_def delivers_def)
    then show ?thesis
      using handle_message_inv [OF d, of mid] by (auto simp: handled_def receive_command_def Let_def)
  qed
qed

lemma not_spawning: "\<not> spawning ss \<Longrightarrow> one_spawn ss"
  by (induction ss rule: one_spawn.induct) (auto simp: spawning_def)

lemma handler_advances_inv:
  assumes inv: "fg_inv f" and m: "fg_handling f = Some m" and ck: "clock_ok ck"
  shows "fg_inv (handler_advances f m ck now)"
proof -
  have base: "base_inv f" and loose: "loose (length (fg_turns f)) f" using inv by (simp_all add: fg_inv_def)
  have ok: "actor_ok (fg_actor f)" and one: "one_spawn (fg_steps f)" and seq: "0 \<le> fg_message_sequence f"
    and ev: "event_inv f" and g: "gen_inv f"
    using base by (simp_all add: base_inv_def runs_def)
  show ?thesis
  proof (cases "fg_steps f")
    case Nil
    let ?a = "run_handler_returned (fg_actor f)"
    have a: "actor_ok ?a" "queue ?a = queue (fg_actor f)" "ac_task ?a = Task_getting"
      using ok by (simp_all add: run_handler_returned_def actor_ok_def queue_def)
    have v: "fg_handling (f\<lparr>fg_actor := ?a\<rparr>) = None" "fg_current (f\<lparr>fg_actor := ?a\<rparr>) = fg_current f"
      "fg_state (f\<lparr>fg_actor := ?a\<rparr>) = fg_state f" "fg_session_id (f\<lparr>fg_actor := ?a\<rparr>) = fg_session_id f"
      by (simp_all add: inv_defs run_handler_returned_def)
    have p: "pending f = []" "pending (f\<lparr>fg_actor := ?a\<rparr>) = []" using Nil m v by (simp_all add: pending_def)
    have "fg_inv (f\<lparr>fg_actor := ?a\<rparr>)"
      using loose ev g a v p seq Nil
      by (simp add: fg_inv_def base_inv_def runs_def event_inv_def gen_inv_def loose_def turn_ok_def turn_gens_def)
    then show ?thesis using Nil by (simp add: handler_advances_def)
  next
    case (Cons s rest)
    show ?thesis
    proof (cases s)
      case (Say n)
      have "command_event (sm_event m)" using ev m by (simp add: event_inv_def)
      then have d: "draft_ok (handler_draft m (fg_state f) n)"
        by (intro handler_draft_ok) (auto simp: command_event_def dest: command_kinds(1))
      obtain a p where bp: "begin_publication f m (handler_draft m (fg_state f) n) ck = (Inr p, f\<lparr>fg_actor := a\<rparr>)"
        "steady (fg_actor f) a"
        using begin_publication_cases [OF base d ck] by metis
      let ?f1 = "f\<lparr>fg_actor := a\<rparr>"
      have f1: "fg_inv ?f1" using fg_inv_steady [OF inv bp(2)] .
      have v: "fg_handling (?f1\<lparr>fg_steps := rest\<rparr>) = fg_handling ?f1" "fg_session_id (?f1\<lparr>fg_steps := rest\<rparr>) = fg_session_id ?f1"
        by (simp_all add: inv_defs)
      have "pending (?f1\<lparr>fg_steps := rest\<rparr>) = pending ?f1"
        using Cons Say by (simp add: pending_def fg_handling_def cong: option.case_cong)
      moreover have "fg_handling ?f1 = Some m" using m steady_views(3) [OF bp(2)] by simp
      ultimately have "fg_inv (?f1\<lparr>fg_steps := rest\<rparr>)"
        using f1 one Cons Say v
        by (simp add: fg_inv_def base_inv_def runs_def event_inv_def gen_inv_def loose_def turn_ok_def turn_gens_def)
      then have "fg_inv (?f1\<lparr>fg_steps := rest, fg_handler_pub := p\<rparr>)" by (simp add: fg_inv_def)
      then show ?thesis using Cons Say bp(1) by (simp add: handler_advances_def)
    next
      case (Spawn_turn u t i j)
      let ?s = "actor_spawn (fg_actor f) (fg_next_child f)"
      let ?n = "new_turn m u t i j (fg_next_child f)"
      have s: "fst ?s = Inr ()" "steady (fg_actor f) (snd ?s)" using spawn_own [OF ok] by auto
      let ?f2 = "f\<lparr>fg_actor := snd ?s, fg_steps := rest, fg_next_child := Suc (fg_next_child f),
          fg_turns := fg_turns f @ [?n]\<rparr>"
      have res: "handler_advances f m ck now = ?f2"
        using Cons Spawn_turn s(1) by (cases ?s) (simp add: handler_advances_def)
      have rest: "\<not> spawning rest" "one_spawn rest"
        using one Cons Spawn_turn not_spawning by auto
      have v: "fg_handling ?f2 = Some m" "fg_current ?f2 = fg_current f" "fg_state ?f2 = fg_state f"
        "fg_session_id ?f2 = fg_session_id f" "queue (snd ?s) = queue (fg_actor f)" "actor_ok (snd ?s)"
        using m s(2) ok steady_views [OF s(2)] actor_ok_steady [OF ok s(2)] by (simp_all add: inv_defs)
      have p: "pending f = [message_generation m]" "pending ?f2 = []"
        using Cons Spawn_turn m v(1) rest by (simp_all add: pending_def)
      have tg: "turn_gens ?f2 = turn_gens f @ [message_generation m]"
        by (simp add: turn_gens_def new_turn_def tn_generation_def)
      have "gen_inv ?f2"
        using g v tg p gen_ok_spawn [of "fg_current f" "gens (queue (fg_actor f))" _ "message_generation m" "turn_gens f"]
        by (simp add: gen_inv_def)
      moreover have "runs ?f2" using v(1,6) rest seq by (simp add: runs_def)
      moreover have "event_inv ?f2" using ev v m by (simp add: event_inv_def)
      moreover have "fg_state f = PROCESSING" using loose p(1) by (simp add: loose_def)
      then have "loose (length (fg_turns ?f2)) ?f2"
        using loose v p by (auto simp: loose_def turn_ok_def nth_append new_turn_def tn_generation_def)
      ultimately show ?thesis unfolding res by (simp only: fg_inv_def base_inv_def)
    qed
  qed
qed

lemma handler_attempts_inv:
  assumes "fg_inv f"
  shows "fg_inv (handler_attempts f p now)"
proof -
  have ok: "actor_ok (fg_actor f)" using assms by (simp add: fg_inv_def base_inv_def runs_def)
  let ?a = "publish_attempt (fg_actor f) (fst p) (fst (snd p))"
  obtain x where x: "fst ?a = Inr x" "steady (fg_actor f) (snd ?a)"
    using publish_attempt_own [OF ok] by blast
  have "fg_inv (f\<lparr>fg_actor := snd ?a\<rparr>)" using fg_inv_steady [OF assms x(2)] .
  then show ?thesis
    using x(1) by (cases ?a; cases x) (simp_all add: handler_attempts_def fg_inv_def)
qed

section \<open>Submissions\<close>

text \<open>A change of the queue and of the generation that leaves the rest of the actor alone.\<close>

lemma aside_views:
  assumes "aside (fg_actor f) b"
  shows "fg_state (f\<lparr>fg_actor := b, fg_submits := x\<rparr>) = fg_state f"
    "fg_handling (f\<lparr>fg_actor := b, fg_submits := x\<rparr>) = fg_handling f"
    "fg_session_id (f\<lparr>fg_actor := b, fg_submits := x\<rparr>) = fg_session_id f"
    "pending (f\<lparr>fg_actor := b, fg_submits := x\<rparr>) = pending f"
  using assms by (simp_all add: aside_def inv_defs cong: option.case_cong)

lemma aside_task: "aside a b \<Longrightarrow> ac_task b = ac_task a"
  by (simp add: aside_def)

lemma resubmit_inv:
  assumes inv: "fg_inv f" and as: "aside (fg_actor f) b" "inbox_ok (ac_inbox b)" "granting (ac_cancellation b)"
    and gens: "gen_ok (current_of b) (gens (queue b)) (gens (map fst x)) (pending f) (turn_gens f)"
    and later: "fg_current f \<le> current_of b"
    and queue: "\<forall>m \<in> set (queue b). command_event (sm_event m)"
    and waiting: "\<forall>y \<in> set x. retry_ok (fg_session_id f) y"
  shows "fg_inv (f\<lparr>fg_actor := b, fg_submits := x\<rparr>)"
proof -
  let ?f = "f\<lparr>fg_actor := b, fg_submits := x\<rparr>"
  note v = aside_views [OF as(1), of x]
  have base: "base_inv f" and loose: "loose (length (fg_turns f)) f" using inv by (simp_all add: fg_inv_def)
  have c: "fg_current ?f = current_of b" by (simp add: current_of_def fg_current_def)
  have "actor_ok b" using base actor_ok_aside [OF _ as] by (simp add: base_inv_def runs_def)
  then have "runs ?f" using base v aside_task [OF as(1)] by (simp add: base_inv_def runs_def)
  moreover have "event_inv ?f" using base v queue waiting by (simp add: base_inv_def event_inv_def)
  moreover have "gen_inv ?f" using gens v c by (simp add: gen_inv_def turn_gens_def)
  moreover have "turn_ok ?f (fg_turns f ! j)" if j: "j < length (fg_turns f)" for j
  proof (cases "current_of b = fg_current f")
    case True
    then show ?thesis using loose j c v by (simp add: loose_def turn_ok_def)
  next
    case False
    have "gen_inv f" using base by (simp add: base_inv_def)
    then have "tn_generation (fg_turns f ! j) \<le> fg_current f"
      using j by (auto simp: gen_inv_def gen_ok_def below_def turn_gens_def)
    then show ?thesis using False later c by (simp add: turn_ok_def)
  qed
  ultimately show ?thesis using loose v by (simp add: fg_inv_def base_inv_def loose_def)
qed

lemma fg_inv_parts:
  assumes "fg_inv f"
  shows "actor_ok (fg_actor f)"
    "gen_ok (fg_current f) (gens (queue (fg_actor f))) (gens (map fst (fg_submits f))) (pending f) (turn_gens f)"
    "\<forall>m \<in> set (queue (fg_actor f)). command_event (sm_event m)"
    "\<forall>y \<in> set (fg_submits f). retry_ok (fg_session_id f) y"
  using assms by (simp_all add: fg_inv_def base_inv_def runs_def gen_inv_def event_inv_def)

lemma message_of_event [simp]:
  "foreground_message (message_of a e t) \<longleftrightarrow> foreground_event e" "message_generation (message_of a e t) = tk_generation t"
  "command_event (sm_event (message_of a e t)) \<longleftrightarrow> command_event e"
  by (simp_all add: message_of_def foreground_message_def message_generation_def)

lemma queued_events:
  assumes "queued a x b" "\<forall>m \<in> set (queue a). command_event (sm_event m)" "command_event (sm_event x)"
  shows "\<forall>m \<in> set (queue b). command_event (sm_event m)"
  using assms set_pop_at_subset by (fastforce simp: queued_def)

lemma queued_gens:
  assumes "queued a x b"
  obtains Q where "subseq Q (gens (queue a))"
    "gens (queue b) = Q @ (if foreground_message x then [message_generation x] else [])"
proof -
  obtain i where "queue b = pop_at i (queue a) @ [x]" using assms by (auto simp: queued_def)
  then show thesis
    by (intro that [of "gens (pop_at i (queue a))"]) (simp_all add: subseq_gens subseq_pop_at)
qed

text \<open>An immediate submission, under the current generation or the next.\<close>

lemma submits_inv:
  assumes inv: "fg_inv f" and s: "submits (fg_actor f) e b" and ev: "command_event e"
    and g: "current_of b = fg_current f \<and> \<not> foreground_event e \<or> current_of b = fg_current f + 1"
  shows "fg_inv (f\<lparr>fg_actor := b\<rparr>)"
proof -
  note p = fg_inv_parts [OF inv]
  have as: "aside (fg_actor f) b" "inbox_ok (ac_inbox b)" "granting (ac_cancellation b)"
    using s by (simp_all add: submits_def)
  let ?P = "gens (map fst (fg_submits f))"
  have next_ok: "gen_ok (current_of b) Q ?P (pending f) (turn_gens f)"
    if "subseq Q (gens (queue (fg_actor f)))" for Q
    using g gen_ok_next gen_ok_drop [OF p(2) that] by auto
  have "gen_ok (current_of b) (gens (queue b)) ?P (pending f) (turn_gens f) \<and>
      (\<forall>m \<in> set (queue b). command_event (sm_event m))"
  proof (cases "queue b = queue (fg_actor f)")
    case True
    then show ?thesis using next_ok [of "gens (queue (fg_actor f))"] p(3) by simp
  next
    case False
    then obtain t where t: "tk_generation t = current_of b" "queued (fg_actor f) (message_of (fg_actor f) e t) b"
      using s by (auto simp: submits_def)
    obtain Q where Q: "subseq Q (gens (queue (fg_actor f)))"
      "gens (queue b) = Q @ (if foreground_event e then [current_of b] else [])"
      using queued_gens [OF t(2)] t(1) by (metis message_of_event(1,2))
    have "gen_ok (current_of b) (gens (queue b)) ?P (pending f) (turn_gens f)"
    proof (cases "foreground_event e")
      case True
      then have "current_of b = fg_current f + 1" using g by auto
      then show ?thesis using gen_ok_new_queued [OF gen_ok_drop [OF p(2) Q(1)], of ?P] Q(2) True by simp
    qed (use next_ok [OF Q(1)] Q(2) in simp)
    then show ?thesis using queued_events [OF t(2) p(3)] ev by simp
  qed
  then have "fg_inv (f\<lparr>fg_actor := b, fg_submits := fg_submits f\<rparr>)"
    using g p(4) by (intro resubmit_inv [OF inv as]) auto
  then show ?thesis by simp
qed

text \<open>A call begins to wait.\<close>

lemma waiting_inv:
  assumes inv: "fg_inv f" and st: "steady (fg_actor f) b" and m: "command_event (sm_event m)" "\<not> foreground_message m"
    and retry: "retry_ok (fg_session_id f) (m, r)"
  shows "fg_inv (f\<lparr>fg_actor := b, fg_submits := fg_submits f @ [(m, r)]\<rparr>)"
proof -
  note p = fg_inv_parts [OF inv]
  have as: "aside (fg_actor f) b" and q: "ac_inbox b = ac_inbox (fg_actor f)" "ac_cancellation b = ac_cancellation (fg_actor f)"
    using st by (simp_all add: steady_def)
  show ?thesis
    by (rule resubmit_inv [OF inv as])
      (use p q m retry in \<open>auto simp: actor_ok_def queue_def current_of_def fg_current_def\<close>)
qed

lemma waiting_foreground_inv:
  assumes inv: "fg_inv f" and c: "advanced (fg_actor f) c" "steady c b" "tk_generation t = current_of c"
    and e: "command_event e" "foreground_event e"
  shows "fg_inv (f\<lparr>fg_actor := b, fg_submits := fg_submits f @ [(message_of (fg_actor f) e t, None)]\<rparr>)"
proof -
  note p = fg_inv_parts [OF inv]
  have ok: "actor_ok c" using actor_ok_advanced [OF p(1) c(1)] .
  have as: "aside (fg_actor f) b" using c(1,2) advanced_parts(4) [OF c(1)] by (simp add: steady_def)
  have b: "ac_inbox b = ac_inbox c" "ac_cancellation b = ac_cancellation c" using c(2) by (simp_all add: steady_def)
  have q: "queue b = queue (fg_actor f)" using b(1) advanced_parts(3) [OF c(1)] by (simp add: queue_def)
  have cur: "current_of b = fg_current f + 1" "tk_generation t = fg_current f + 1"
    using b(2) c(3) advanced_current [OF c(1)] by (simp_all add: current_of_def fg_current_def)
  show ?thesis
    by (rule resubmit_inv [OF inv as])
      (use ok b q cur e p gen_ok_new_waiting [OF p(2)] in \<open>auto simp: actor_ok_def retry_ok_def\<close>)
qed

lemma await_admission_inv:
  assumes inv: "fg_inv f" and e: "envelope_ok e" "ev_session_id e = Some (fg_session_id f)" "command_event e"
    "\<not> foreground_event e" and r: "r = None \<or> r = Some e"
  shows "fg_inv (await_admission f r (submit_wait_begin (fg_actor f) e))"
proof -
  have ok: "actor_ok (fg_actor f)" using fg_inv_parts(1) [OF inv] .
  have sid: "ev_session_id e = Some (ac_session_id (fg_actor f))" using e(2) by (simp add: fg_session_id_def)
  obtain b t where b: "submit_wait_begin (fg_actor f) e = (Inr (message_of (fg_actor f) e t), b)" "steady (fg_actor f) b"
    using submit_wait_own [OF ok e(1) sid] by metis
  have "fg_inv (f\<lparr>fg_actor := b, fg_submits := fg_submits f @ [(message_of (fg_actor f) e t, r)]\<rparr>)"
    by (rule waiting_inv [OF inv b(2)]) (use e r in \<open>auto simp: retry_ok_def\<close>)
  then show ?thesis using b(1) by (simp add: await_admission_def)
qed

lemma submit_call_inv:
  assumes inv: "fg_inv f"
  shows "fg_inv (submit_call f c ck now)"
proof (cases "request_of c")
  case None
  then show ?thesis using inv by (simp add: submit_call_def)
next
  case (Some r)
  have ok: "actor_ok (fg_actor f)" using fg_inv_parts(1) [OF inv] .
  show ?thesis
  proof (cases "request_event (fg_session_id f) ck r")
    case (Inl err)
    then show ?thesis using inv Some by (simp add: submit_call_def)
  next
    case (Inr e)
    note cmd = request_event_command [OF Inr Some]
    have ev: "command_event e" using cmd(1) by (auto simp: command_event_def)
    have kind: "foreground_event e \<longleftrightarrow> foreground_call c" using command_kinds(3) [OF cmd(1)] .
    have sid: "ev_session_id e = Some (ac_session_id (fg_actor f))" using cmd(3) by (simp add: fg_session_id_def)
    have call: "submit_call f c ck now =
        (case mode_of c of
           Foreground_now \<Rightarrow> f\<lparr>fg_actor := snd (submit_foreground_turn (fg_actor f) e (foreground_reason c) now)\<rparr>
         | Foreground_wait \<Rightarrow>
             await_admission f None (submit_foreground_wait_begin (fg_actor f) e (foreground_reason c) now)
         | Plain_now \<Rightarrow> f\<lparr>fg_actor := snd (submit (fg_actor f) e)\<rparr>
         | Plain_wait \<Rightarrow> await_admission f (retried_event c e) (submit_wait_begin (fg_actor f) e))"
      using Some Inr by (simp add: submit_call_def)
    show ?thesis
    proof (cases "mode_of c")
      case Foreground_now
      let ?b = "snd (submit_foreground_turn (fg_actor f) e (foreground_reason c) now)"
      consider "?b = fg_actor f" | "submits (fg_actor f) e ?b" "current_of ?b = fg_current f + 1"
        using submit_foreground_own [OF ok cmd(2) sid, of "foreground_reason c" now] by (auto simp: current_of_actor)
      then have "fg_inv (f\<lparr>fg_actor := ?b\<rparr>)"
      proof cases
        case 1
        then show ?thesis using inv by simp
      next
        case 2
        then show ?thesis using submits_inv [OF inv 2(1) ev] by blast
      qed
      then show ?thesis using call Foreground_now by simp
    next
      case Foreground_wait
      then have fore: "foreground_event e" using kind by (simp add: foreground_call_def)
      show ?thesis
      proof (rule submit_foreground_wait_own [OF ok cmd(2) sid, of "foreground_reason c" now])
        assume "submit_foreground_wait_begin (fg_actor f) e (foreground_reason c) now =
          (Inl (SessionCancelError CancelValueError), fg_actor f)"
        then show ?thesis using call Foreground_wait inv by (simp add: await_admission_def)
      next
        fix b d t
        assume "submit_foreground_wait_begin (fg_actor f) e (foreground_reason c) now =
            (Inr (message_of (fg_actor f) e t), b)"
          "advanced (fg_actor f) d" "steady d b" "tk_generation t = current_of d"
        then show ?thesis
          using call Foreground_wait waiting_foreground_inv [OF inv _ _ _ ev fore] by (simp add: await_admission_def)
      qed
    next
      case Plain_now
      then have "\<not> foreground_event e" using kind by (simp add: foreground_call_def)
      then have "fg_inv (f\<lparr>fg_actor := snd (submit (fg_actor f) e)\<rparr>)"
        using submit_own [OF ok cmd(2) sid] by (intro submits_inv [OF inv _ ev]) (auto simp: current_of_actor)
      then show ?thesis using call Plain_now by simp
    next
      case Plain_wait
      then have "\<not> foreground_event e" using kind by (simp add: foreground_call_def)
      moreover have "retried_event c e = None \<or> retried_event c e = Some e"
        by (simp add: retried_event_def split: call.split)
      ultimately show ?thesis
        using call Plain_wait await_admission_inv [OF inv cmd(2,3) ev] by simp
    qed
  qed
qed

text \<open>A waiting call leaves the list.\<close>

lemma popped_inv:
  assumes inv: "fg_inv f" and as: "aside (fg_actor f) b" "inbox_ok (ac_inbox b)"
    "ac_cancellation b = ac_cancellation (fg_actor f)" "queue b = queue (fg_actor f)"
  shows "fg_inv (f\<lparr>fg_actor := b, fg_submits := pop_at i (fg_submits f)\<rparr>)"
proof -
  note p = fg_inv_parts [OF inv]
  have "subseq (gens (map fst (pop_at i (fg_submits f)))) (gens (map fst (fg_submits f)))"
    unfolding map_pop_at by (intro subseq_gens subseq_pop_at)
  then have "gen_ok (fg_current f) (gens (queue (fg_actor f))) (gens (map fst (pop_at i (fg_submits f)))) (pending f) (turn_gens f)"
    using gen_ok_drop [OF p(2)] by blast
  then show ?thesis
    using p as set_pop_at_subset [of i "fg_submits f"]
    by (intro resubmit_inv [OF inv as(1,2)]) (auto simp: actor_ok_def current_of_def fg_current_def)
qed

lemma attempt_kept_inv:
  assumes inv: "fg_inv f" and as: "aside (fg_actor f) b" "inbox_ok (ac_inbox b)"
    "ac_cancellation b = ac_cancellation (fg_actor f)" "queue b = queue (fg_actor f)"
  shows "fg_inv (f\<lparr>fg_actor := b\<rparr>)"
proof -
  note p = fg_inv_parts [OF inv]
  have "fg_inv (f\<lparr>fg_actor := b, fg_submits := fg_submits f\<rparr>)"
    using p as by (intro resubmit_inv [OF inv as(1,2)]) (auto simp: actor_ok_def current_of_def fg_current_def)
  then show ?thesis by simp
qed

lemma retry_submission_inv:
  assumes inv: "fg_inv f" and i: "i < length (fg_submits f)" and as: "aside (fg_actor f) b" "inbox_ok (ac_inbox b)"
    "ac_cancellation b = ac_cancellation (fg_actor f)" "queue b = queue (fg_actor f)"
  shows "fg_inv (retry_submission f i b)"
proof -
  let ?f1 = "f\<lparr>fg_actor := b, fg_submits := pop_at i (fg_submits f)\<rparr>"
  have f1: "fg_inv ?f1" by (rule popped_inv [OF inv as])
  show ?thesis
  proof (cases "snd (fg_submits f ! i)")
    case None
    then show ?thesis using f1 by (simp add: retry_submission_def)
  next
    case (Some e)
    have "retry_ok (fg_session_id f) (fg_submits f ! i)" using fg_inv_parts(4) [OF inv] i by simp
    then have "command_event e" "\<not> foreground_event e" "envelope_ok e" "ev_session_id e = Some (fg_session_id f)"
      using Some by (simp_all add: retry_ok_def)
    moreover have "fg_session_id ?f1 = fg_session_id f" using aside_views(3) [OF as(1)] by simp
    ultimately have "fg_inv (await_admission ?f1 (Some e) (submit_wait_begin (fg_actor ?f1) e))"
      by (intro await_admission_inv [OF f1]) simp_all
    then show ?thesis using Some by (simp add: retry_submission_def)
  qed
qed

lemma attempt_submission_inv:
  assumes inv: "fg_inv f" and i: "i < length (fg_submits f)"
  shows "fg_inv (attempt_submission f i)"
proof -
  note p = fg_inv_parts [OF inv]
  let ?m = "fst (fg_submits f ! i)"
  show ?thesis
  proof (rule attempt_own [OF p(1), of ?m])
    fix b assume "submit_stamped_attempt (fg_actor f) ?m = (Inr None, b)" "aside (fg_actor f) b" "inbox_ok (ac_inbox b)"
      "ac_cancellation b = ac_cancellation (fg_actor f)" "queue b = queue (fg_actor f)"
    then show ?thesis using attempt_kept_inv [OF inv] by (simp add: attempt_submission_def)
  next
    fix s b assume "submit_stamped_attempt (fg_actor f) ?m = (Inr (Some s), b)" "aside (fg_actor f) b"
      "inbox_ok (ac_inbox b)" "ac_cancellation b = ac_cancellation (fg_actor f)" "queue b = queue (fg_actor f)"
    then show ?thesis
      using retry_submission_inv [OF inv i] popped_inv [OF inv, of b i] by (simp add: attempt_submission_def)
  next
    fix s b assume a: "submit_stamped_attempt (fg_actor f) ?m = (Inr (Some s), b)" "aside (fg_actor f) b"
      "inbox_ok (ac_inbox b)" "ac_cancellation b = ac_cancellation (fg_actor f)" "queued (fg_actor f) ?m b"
      "sb_outcome s \<noteq> CANCELLED" "message_generation ?m = current_of (fg_actor f)"
    let ?rest = "pop_at i (fg_submits f)"
    obtain Q where Q: "subseq Q (gens (queue (fg_actor f)))"
      "gens (queue b) = Q @ (if foreground_message ?m then [message_generation ?m] else [])"
      using queued_gens [OF a(5)] by metis
    have g: "gen_ok (fg_current f) Q (gens (map fst (fg_submits f))) (pending f) (turn_gens f)"
      using gen_ok_drop [OF p(2) Q(1)] by simp
    have ms: "mset (gens (map fst (fg_submits f))) =
        mset (if foreground_message ?m then [message_generation ?m] else []) + mset (gens (map fst ?rest))"
      using gens_pop_at [of i "map fst (fg_submits f)"] i by (simp add: map_pop_at)
    have "gen_ok (fg_current f) (gens (queue b)) (gens (map fst ?rest)) (pending f) (turn_gens f)"
    proof (cases "foreground_message ?m")
      case True
      then show ?thesis using gen_ok_admit [OF g, of "gens (map fst ?rest)"] ms Q(2) a(7) by (simp add: current_of_actor)
    next
      case False
      then have "gens (map fst ?rest) = gens (map fst (fg_submits f))"
        using gens_pop_other [of i "map fst (fg_submits f)"] i by (simp add: map_pop_at)
      then show ?thesis using g Q(2) False by simp
    qed
    moreover have "command_event (sm_event ?m)" using p(4) i by (auto simp: retry_ok_def)
    ultimately have "fg_inv (f\<lparr>fg_actor := b, fg_submits := ?rest\<rparr>)"
      using queued_events [OF a(5) p(3)] p a(4) set_pop_at_subset [of i "fg_submits f"]
      by (intro resubmit_inv [OF inv a(2,3)]) (auto simp: actor_ok_def current_of_def fg_current_def)
    then show ?thesis using a(1,6) by (simp add: attempt_submission_def)
  qed
qed

section \<open>The machine\<close>

text \<open>Clock readings are aware and not negative.\<close>

fun op_ok :: "foreground_op \<Rightarrow> bool" where
  "op_ok (Op_handler ck now) = clock_ok ck"
| "op_ok (Op_history i loaded compiled ck ck' mid) = (clock_ok ck \<and> clock_ok ck')"
| "op_ok (Op_pipeline i reply ck ck' mid) = (clock_ok ck \<and> clock_ok ck')"
| "op_ok (Op_register i ck ck' mid) = (clock_ok ck \<and> clock_ok ck')"
| "op_ok (Op_turn_attempt i ck mid) = clock_ok ck"
| "op_ok (Op_turn_cancelled i ck mid) = clock_ok ck"
| "op_ok _ = True"

fun failed_write :: "foreground_op \<Rightarrow> pystr option" where
  "failed_write (Op_write_done i failure) = failure"
| "failed_write _ = None"

lemma announce_inv:
  assumes "fg_inv f"
  shows "fg_inv (announce f ck)"
proof (cases "output_event (fg_session_id f) None (plain_draft ''session.ready'' (ready_payload f) Prio_NORMAL) ck")
  case (Inl e)
  then show ?thesis using assms by (simp add: announce_def)
next
  case (Inr ev)
  let ?p = "publish_begin (fg_actor f) ev (fg_current f)"
  have "steady (fg_actor f) (snd ?p)"
  proof (cases "fst ?p")
    case (Inl e)
    show ?thesis
      by (auto simp: publish_begin_def stamp_def Let_def steady_def aside_def split: sum.splits)
  qed (auto simp: publish_begin_def stamp_def Let_def steady_def aside_def split: sum.splits)
  then have "fg_inv (f\<lparr>fg_actor := snd ?p\<rparr>)" by (rule fg_inv_steady [OF assms])
  then show ?thesis
    using Inr by (cases ?p) (auto simp: announce_def fg_inv_def split: sum.split option.split)
qed

lemma turn_phase_inv:
  assumes "fg_inv f" "i < length (fg_turns f)" "tn_phase (fg_turns f ! i) = ph" "ph \<noteq> Turn_ended"
  shows "busy i f" "current_turn f i \<Longrightarrow> phase_ok ph (fg_state f)"
  using phase_busy [OF assms(1,2)] assms(3,4) by auto

lemma fg_step_inv:
  assumes inv: "fg_inv f" and ok: "op_ok p" and unfailing: "failed_write p = None"
  shows "fg_inv (fg_step f p)"
proof (cases p)
  case (Op_call c ck now)
  then show ?thesis using submit_call_inv [OF inv] by simp
next
  case (Op_submit_attempt i)
  then show ?thesis using attempt_submission_inv [OF inv] inv by simp
next
  case (Op_submit_cancelled i)
  then show ?thesis
    using retry_submission_inv [OF inv _ submit_cancelled_own [OF fg_inv_parts(1) [OF inv]]] inv by simp
next
  case Op_receive
  then show ?thesis using fg_inv_steady [OF inv receive_steady] by simp
next
  case Op_schedule
  let ?a = "run_schedule (fg_actor f)"
  show ?thesis
  proof (cases "ac_task (fg_actor f) = Task_created")
    case True
    have "\<not> ac_cancel_requested (fg_actor f)" using fg_inv_parts(1) [OF inv] by (simp add: actor_ok_def)
    then have a: "?a = (fg_actor f)\<lparr>ac_task := Task_getting\<rparr>" by (simp add: run_schedule_def)
    have none: "fg_handling f = None" "fg_handling (f\<lparr>fg_actor := ?a\<rparr>) = None" using True a by (simp_all add: fg_handling_def)
    then have "pending f = []" "pending (f\<lparr>fg_actor := ?a\<rparr>) = []" by (simp_all add: pending_def)
    then have "fg_inv (f\<lparr>fg_actor := ?a\<rparr>)"
      using inv none a
      by (simp add: fg_inv_def base_inv_def runs_def event_inv_def gen_inv_def loose_def turn_ok_def turn_gens_def
          actor_ok_def queue_def fg_state_def fg_current_def fg_session_id_def)
    then show ?thesis using Op_schedule True by simp
  qed (use Op_schedule inv in simp)
next
  case (Op_get mid now)
  then show ?thesis using receive_command_inv [OF inv] inv by simp
next
  case (Op_announce ck)
  then show ?thesis using announce_inv [OF inv] inv by simp
next
  case Op_announce_attempt
  show ?thesis
  proof (cases "fg_ready f")
    case (Announcing q)
    let ?a = "publish_attempt (fg_actor f) (fst q) (fst (snd q))"
    have "steady (fg_actor f) (snd ?a)" using publish_attempt_own [OF fg_inv_parts(1) [OF inv]] by blast
    then have "fg_inv (f\<lparr>fg_actor := snd ?a\<rparr>)" by (rule fg_inv_steady [OF inv])
    then show ?thesis
      using Op_announce_attempt Announcing
      by (cases ?a) (auto simp: fg_inv_def split: sum.split option.split)
  qed (use Op_announce_attempt inv in simp_all)
next
  case (Op_handler ck now)
  then show ?thesis using handler_advances_inv [OF inv] inv ok by (auto split: option.split)
next
  case (Op_handler_attempt now)
  then show ?thesis using handler_attempts_inv [OF inv] inv by (auto split: option.split)
next
  case Op_handler_cancelled
  have "fg_inv (f\<lparr>fg_actor := snd (publish_cancelled (fg_actor f)), fg_handler_pub := None\<rparr>)"
    using fg_inv_steady [OF inv publish_cancelled_steady] by (simp add: fg_inv_def)
  then show ?thesis using Op_handler_cancelled inv by (auto split: option.split)
next
  case (Op_write_done i failure)
  then have "failure = None" using unfailing by simp
  moreover have "fg_inv (f\<lparr>fg_actor := child_done (fg_actor f) (fg_writes f ! i) Child_returned, fg_writes := x\<rparr>)" for x
    using fg_inv_steady [OF inv child_returned_steady] by (simp add: fg_inv_def)
  ultimately show ?thesis using Op_write_done inv by simp
next
  case (Op_history i loaded compiled ck ck' mid)
  show ?thesis
  proof (cases "i < length (fg_turns f) \<and> tn_phase (fg_turns f ! i) = Loading_history")
    case True
    note b = turn_phase_inv [OF inv conjunct1 [OF True] conjunct2 [OF True]]
    have ck: "clock_ok ck" "clock_ok ck'" using ok Op_history by simp_all
    have "outcome_ok i (case loaded of Inl e \<Rightarrow> (Inl e, f) | Inr h \<Rightarrow> turn_loaded f i h compiled ck mid)"
      using turn_loaded_inv [OF b(1) _ ck(1)] b by (auto simp: outcome_ok_def [of i "(Inl _, f)"] split: sum.split)
    then show ?thesis using Op_history True turn_tries_inv [OF _ ck(2)] by simp
  qed (use Op_history inv in auto)
next
  case (Op_pipeline i reply ck ck' mid)
  show ?thesis
  proof (cases "i < length (fg_turns f)")
    case True
    have ck: "clock_ok ck" "clock_ok ck'" using ok Op_pipeline by simp_all
    show ?thesis
    proof (cases "tn_phase (fg_turns f ! i)")
      case (In_pipeline first)
      note b = turn_phase_inv [OF inv True In_pipeline]
      show ?thesis
        using Op_pipeline True In_pipeline turn_tries_inv [OF turn_receives_inv [OF b(1) _ ck(1)] ck(2)] b(2) by simp
    qed (use Op_pipeline True inv in simp_all)
  qed (use Op_pipeline inv in simp)
next
  case (Op_register i ck ck' mid)
  show ?thesis
  proof (cases "i < length (fg_turns f) \<and> registration_free f")
    case True
    have ck: "clock_ok ck" "clock_ok ck'" using ok Op_register by simp_all
    show ?thesis
    proof (cases "tn_phase (fg_turns f ! i)")
      case (Awaiting_registration p first)
      note b = turn_phase_inv [OF inv conjunct1 [OF True] Awaiting_registration]
      have "ready_for i (After_completed p first) f" using b by (simp add: ready_for_def busy_def)
      then show ?thesis
        using Op_register True Awaiting_registration
          turn_tries_inv [OF turn_publish_inv(1) [OF _ turn_drafts_ok(5) ck(1)] ck(2)] by simp
    qed (use Op_register True inv in simp_all)
  qed (use Op_register inv in auto)
next
  case (Op_turn_attempt i ck mid)
  then show ?thesis
    using turn_attempts_inv [OF inv] inv ok by (auto split: turn_phase.split)
next
  case (Op_turn_cancelled i ck mid)
  show ?thesis
  proof (cases "i < length (fg_turns f)")
    case True
    show ?thesis
    proof (cases "tn_phase (fg_turns f ! i)")
      case (Awaiting_publish p after)
      have "ready_for i after (f\<lparr>fg_actor := snd (publish_cancelled (fg_actor f))\<rparr>)"
        using ready_steady [OF awaiting_ready [OF inv True Awaiting_publish] publish_cancelled_steady] .
      then show ?thesis
        using Op_turn_cancelled True Awaiting_publish turn_resolved_inv ok inv by simp
    qed (use Op_turn_cancelled True inv in simp_all)
  qed (use Op_turn_cancelled inv in simp)
qed

text \<open>A run ends in a session that keeps the invariant, or one that a failed write has stopped.\<close>

definition fg_safe :: "foreground \<Rightarrow> bool" where
  "fg_safe f \<longleftrightarrow> fg_inv f \<or> (\<exists>name. ac_failure (fg_actor f) = Some (Fg_external name))"

definition checked_apply :: "foreground \<Rightarrow> foreground_op \<Rightarrow> foreground" where
  "checked_apply f p = (if op_ok p then fg_apply f p else f)"

lemma write_fails:
  assumes "fg_inv f" "failed_write p = Some name"
  shows "fg_step f p = f \<or> ac_failure (fg_actor (fg_step f p)) = Some (Fg_external name)"
proof -
  obtain i where p: "p = Op_write_done i (Some name)" using assms(2) by (cases p) auto
  have "ac_lifecycle (fg_actor f) = Life_RUNNING" using fg_inv_parts(1) [OF assms(1)] by (simp add: actor_ok_def)
  then show ?thesis
    by (auto simp: p child_done_def cancel_actor_task_def Let_def)
qed

lemma fg_safe_apply:
  assumes "fg_safe f"
  shows "fg_safe (checked_apply f p)"
proof (cases "fg_failed f \<or> \<not> op_ok p")
  case True
  then show ?thesis using assms by (auto simp: checked_apply_def fg_apply_def)
next
  case False
  then have inv: "fg_inv f" using assms by (auto simp: fg_safe_def fg_failed_def)
  have eq: "checked_apply f p = fg_step f p" using False by (simp add: checked_apply_def fg_apply_def)
  show ?thesis
  proof (cases "failed_write p")
    case None
    then show ?thesis using fg_step_inv [OF inv] False unfolding eq fg_safe_def by blast
  next
    case (Some name)
    then show ?thesis using write_fails [OF inv Some] inv unfolding eq fg_safe_def by auto
  qed
qed

interpretation fgs: op_system checked_apply fg_safe
  by unfold_locales (rule fg_safe_apply)

definition fg_run :: "foreground \<Rightarrow> foreground_op list \<Rightarrow> foreground" where
  "fg_run f ps = foldl fg_apply f ps"

lemma fg_run_checked: "list_all op_ok ps \<Longrightarrow> fg_run f ps = fgs.run f ps"
  unfolding fg_run_def fgs.run_def by (induction ps arbitrary: f) (simp_all add: checked_apply_def)

lemma mailbox_init_facts:
  "mailbox_init c DROP_LOWEST pf None None = Inr m \<Longrightarrow>
   mb_items m = [] \<and> \<not> mb_closed m \<and> mb_overflow m = DROP_LOWEST \<and> mb_priority_of m = pf"
  by (auto simp: mailbox_init_def split: if_splits)

lemma source_init_granting: "source_init 0 = Inr s \<Longrightarrow> granting s"
  using source_init_inv [of 0 s]
  by (auto simp: granting_def source_init_def make_generation_def current_state_def new_state_def)

lemma fg_init_inv:
  assumes "actor_init sid inbox_capacity outbox_capacity DROP_LOWEST None None observer = Inr a"
  shows "fg_inv (fg_init a config)"
proof -
  have a: "ac_lifecycle a = Life_NEW" "ac_failure a = None" "\<not> ac_cancel_requested a" "ac_sequence a = 0"
    "mailbox_init inbox_capacity DROP_LOWEST (\<lambda>m. Some (ev_priority (sm_event m))) None None = Inr (ac_inbox a)"
    "mailbox_init outbox_capacity DROP_LOWEST (\<lambda>e. Some (ev_priority e)) None None = Inr (ac_outbox a)"
    "source_init 0 = Inr (ac_cancellation a)"
    using assms by (auto simp: actor_init_def split: sum.splits)
  have "inbox_ok (ac_inbox a)" "queue a = []"
    using mailbox_init_facts [OF a(5)] mailbox_init_inv [OF a(5)] by (simp_all add: inbox_ok_def queue_def)
  moreover have "outbox_ok (ac_outbox a)" using mailbox_init_facts [OF a(6)] by (simp add: outbox_ok_def)
  moreover have "granting (ac_cancellation a)"
    using a(7) by (rule source_init_granting)
  ultimately show ?thesis
    using a by (simp add: fg_init_def actor_start_def fg_inv_def base_inv_def runs_def event_inv_def gen_inv_def
        loose_def pending_def turn_gens_def actor_ok_def queue_def fg_handling_def gen_ok_def)
qed

text \<open>Nothing but a failed write fails the session.\<close>

lemma failure_needs_write:
  assumes "fg_safe f" "\<forall>p \<in> set ps. op_ok p \<and> failed_write p = None" "fg_inv f"
  shows "fg_inv (fgs.run f ps)"
  using assms(2,3)
proof (induction ps arbitrary: f)
  case (Cons p ps)
  have "\<not> fg_failed f" using fg_inv_parts(1) [OF Cons.prems(2)] by (simp add: fg_failed_def actor_ok_def)
  then have "fg_inv (checked_apply f p)"
    using Cons.prems fg_step_inv [of f p] by (simp add: checked_apply_def fg_apply_def)
  then show ?case using Cons by simp
qed simp

end
