(* ===== verification/ForegroundProps.thy ===== *)
theory ForegroundProps
  imports ForegroundRun "HOL-Library.Code_Target_Nat" "HOL-Library.Code_Target_Int"
begin

text \<open>
  What holds of every run of a foreground session: it survives, its turns keep their order, a superseded
  turn is harmless, and a turn that is accepted after it has been cancelled strands the session.
\<close>

section \<open>Superseded turns\<close>

text \<open>Nothing that other components read is changed.\<close>

definition spares :: "foreground \<Rightarrow> foreground \<Rightarrow> bool" where
  "spares f g \<longleftrightarrow> ac_interaction (fg_actor g) = ac_interaction (fg_actor f) \<and>
     ac_cancellation (fg_actor g) = ac_cancellation (fg_actor f) \<and> ac_inbox (fg_actor g) = ac_inbox (fg_actor f) \<and>
     turn_gens g = turn_gens f \<and> fg_steps g = fg_steps f \<and> fg_submits g = fg_submits f \<and>
     ac_task (fg_actor g) = ac_task (fg_actor f)"

definition superseded :: "nat \<Rightarrow> foreground \<Rightarrow> bool" where
  "superseded i f \<longleftrightarrow> i < length (fg_turns f) \<and> tn_generation (fg_turns f ! i) \<noteq> fg_current f"

lemma spares_refl [simp, intro]: "spares f f"
  by (simp add: spares_def)

lemma spares_trans: "spares f g \<Longrightarrow> spares g h \<Longrightarrow> spares f h"
  by (simp add: spares_def)

lemma spares_superseded: "spares f g \<Longrightarrow> superseded i f \<Longrightarrow> superseded i g"
  by (metis (no_types, lifting) fg_current_def length_map nth_map spares_def superseded_def turn_gens_def)

lemma spares_views: "spares f g \<Longrightarrow> fg_state g = fg_state f" "spares f g \<Longrightarrow> fg_current g = fg_current f"
  by (simp_all add: spares_def fg_state_def fg_current_def)

lemma spares_turns: "spares f g \<Longrightarrow> length (fg_turns g) = length (fg_turns f)"
  unfolding spares_def turn_gens_def by (metis length_map)

lemma spares_actor:
  "ac_interaction a = ac_interaction (fg_actor f) \<Longrightarrow> ac_cancellation a = ac_cancellation (fg_actor f) \<Longrightarrow>
   ac_inbox a = ac_inbox (fg_actor f) \<Longrightarrow> ac_task a = ac_task (fg_actor f) \<Longrightarrow> spares f (f\<lparr>fg_actor := a\<rparr>)"
  by (simp add: spares_def turn_gens_def)

lemma turn_gens_update:
  "tn_message t = tn_message (fg_turns f ! i) \<Longrightarrow> map tn_generation ((fg_turns f)[i := t]) = map tn_generation (fg_turns f)"
  by (metis list_update_id map_update tn_generation_def)

lemma spares_phase: "spares f (set_phase f i ph)"
  by (simp add: spares_def set_phase_def turn_gens_def turn_gens_update)

lemma child_done_views:
  "ac_interaction (child_done a c x) = ac_interaction a" "ac_cancellation (child_done a c x) = ac_cancellation a"
  "ac_inbox (child_done a c x) = ac_inbox a" "ac_task (child_done a c x) = ac_task a"
  by (auto simp: child_done_def cancel_actor_task_def Let_def split: child_outcome.split)

lemma spares_ends: "spares f (turn_ends f i x)"
proof -
  have "spares (set_phase f i Turn_ended) (turn_ends f i x)"
    unfolding turn_ends_def by (rule spares_actor) (simp_all add: child_done_views set_phase_def)
  with spares_phase show ?thesis by (rule spares_trans)
qed

lemma spawn_write_spares: "spares f (snd (spawn_write f))"
  by (auto simp: spawn_write_def actor_spawn_def spares_def turn_gens_def split: sum.split prod.split)

lemma spares_records:
  "spares f (f\<lparr>fg_messages := x\<rparr>)" "spares f (f\<lparr>fg_snapshots := y\<rparr>)"
  by (simp_all add: spares_def turn_gens_def)

lemma persist_snapshot_spares: "spares f (snd (persist_snapshot f x))"
  unfolding persist_snapshot_def by (rule spares_trans [OF spares_records(2) spawn_write_spares])

lemma persist_message_spares: "spares f (snd (persist_message f x))"
  unfolding persist_message_def
  by (auto intro: spares_trans [OF spares_records(1) spawn_write_spares] split: if_split)

text \<open>The interaction is not the turn's any more.\<close>

lemma ensure_stale: "g \<noteq> src_generation s \<Longrightarrow> \<exists>e. ensure_current s g = Inl e"
  by (simp add: ensure_current_def Let_def)

lemma transit_superseded:
  assumes "superseded i f"
  shows "\<exists>g. turn_transit f i s reason = (Inr False, g) \<and> spares f g"
proof -
  obtain e where "ensure_current (ac_cancellation (fg_actor f)) (tn_generation (fg_turns f ! i)) = Inl e"
    using assms ensure_stale unfolding superseded_def fg_current_def by blast
  then show ?thesis
    by (simp add: turn_transit_def transition_interaction_if_current_def spares_def turn_gens_def)
qed

lemma degrades_spares:
  assumes "superseded i f"
  shows "spares f (snd (turn_degrades f i b reason))"
proof -
  obtain g where g: "turn_transit f i DEGRADED reason = (Inr False, g)" "spares f g"
    using transit_superseded [OF assms] by blast
  show ?thesis using spares_trans [OF g(2) spares_ends] spares_ends by (simp add: turn_degrades_def g(1))
qed

lemma published_spares:
  assumes "superseded i f"
  shows "spares f (snd (turn_published f i after b ck mid))"
proof (cases after)
  case (After_completed p first)
  let ?p = "persist_message f (assistant_record f (fg_turns f ! i) p (ck_now ck) mid)"
  have "spares f (snd ?p)" by (rule persist_message_spares)
  then show ?thesis
    using After_completed spares_trans [OF _ spares_phase] spares_phase
    by (cases ?p) (auto split: sum.split)
next
  case (After_snapshot rq)
  then show ?thesis by (auto simp: spares_def turn_gens_def turn_gens_update)
qed (use degrades_spares [OF assms] spares_phase in simp_all)

text \<open>A superseded turn publishes nothing: the publication ends before it begins.\<close>

lemma begin_superseded:
  assumes "superseded i f"
  shows "(\<exists>e. begin_publication f (tn_message (fg_turns f ! i)) d ck = (Inl e, f)) \<or>
    (\<exists>g. begin_publication f (tn_message (fg_turns f ! i)) d ck = (Inr None, g) \<and> spares f g)"
proof -
  obtain e where "ensure_current (ac_cancellation (fg_actor f)) (message_generation (tn_message (fg_turns f ! i))) = Inl e"
    using assms ensure_stale unfolding superseded_def fg_current_def tn_generation_def by blast
  then show ?thesis
    by (auto simp: begin_publication_def publish_begin_def spares_def turn_gens_def split: sum.split)
qed

lemma publish_spares:
  assumes "superseded i f"
  shows "spares f (snd (turn_publish f i d after ck mid))"
  using begin_superseded [OF assms, of d ck]
proof (elim disjE exE conjE)
  fix g assume g: "begin_publication f (tn_message (fg_turns f ! i)) d ck = (Inr None, g)" "spares f g"
  show ?thesis
    using spares_trans [OF g(2) published_spares [OF spares_superseded [OF g(2) assms]]]
    by (simp add: turn_publish_def g(1))
qed (simp add: turn_publish_def)

lemma fails_spares:
  assumes "superseded i f"
  shows "spares f (turn_fails f i e ck mid)"
proof -
  let ?p = "turn_publish f i (failed_draft (fg_turns f ! i) e) After_failed ck mid"
  have "spares f (snd ?p)" using publish_spares [OF assms] .
  then show ?thesis
    using spares_trans [OF _ spares_ends] by (cases ?p) (auto simp: turn_fails_def split: sum.split)
qed

lemma tries_spares:
  assumes "superseded i f" "spares f (snd r)"
  shows "spares f (turn_tries i ck mid r)"
  using assms(2) spares_trans [OF _ fails_spares [OF spares_superseded [OF _ assms(1)]]]
  by (cases r) (auto simp: turn_tries_def split: sum.split)

lemma finishes_spares:
  assumes "superseded i f"
  shows "spares f (snd (turn_finishes f i))"
proof (cases "fg_state f = IDLE")
  case True
  obtain g where g: "turn_transit f i LISTENING ''microphone remains active after utterance'' = (Inr False, g)" "spares f g"
    using transit_superseded [OF assms] by blast
  show ?thesis using True spares_trans [OF g(2) spares_ends] spares_ends by (simp add: turn_finishes_def g(1))
next
  case False
  obtain g where g: "turn_transit f i IDLE ''utterance stream completed'' = (Inr False, g)" "spares f g"
    using transit_superseded [OF assms] by blast
  show ?thesis using False spares_trans [OF g(2) spares_ends] by (simp add: turn_finishes_def g(1))
qed

lemma receives_spares:
  assumes "superseded i f"
  shows "spares f (snd (turn_receives f i first reply ck mid))"
proof (cases reply)
  case (Reply_event e)
  show ?thesis
  proof (cases e)
    case (SegmentReady u g s)
    obtain h where h: "turn_transit f i SPEAKING ''first validated utterance segment'' = (Inr False, h)" "spares f h"
      using transit_superseded [OF assms] by blast
    show ?thesis
      using Reply_event SegmentReady spares_trans [OF h(2) spares_ends] publish_spares [OF assms]
      by (cases first) (simp_all add: h(1))
  qed (use Reply_event publish_spares [OF assms] spares_phase in simp_all)
qed (use finishes_spares [OF assms] spares_ends in simp_all)

lemma loaded_spares:
  assumes "superseded i f"
  shows "spares f (snd (turn_loaded f i h compiled ck mid))"
proof (cases compiled)
  case (Inr c)
  let ?p = "persist_snapshot f (cv_snapshot_id c)"
  have p: "spares f (snd ?p)" by (rule persist_snapshot_spares)
  then show ?thesis
    using Inr spares_trans [OF p publish_spares [OF spares_superseded [OF p assms]]]
    by (cases ?p) (auto simp: turn_loaded_def split: sum.split)
qed (simp add: turn_loaded_def)

lemma resolved_spares:
  assumes "superseded i f"
  shows "spares f (turn_resolved f i after b ck mid)"
proof -
  let ?p = "turn_published f i after b ck mid"
  have p: "spares f (snd ?p)" using published_spares [OF assms] .
  then show ?thesis
    using spares_trans [OF p spares_ends] spares_trans [OF p fails_spares [OF spares_superseded [OF p assms]]]
    by (cases ?p) (auto simp: turn_resolved_def split: sum.split)
qed

lemma publish_attempt_spares: "spares f (f\<lparr>fg_actor := snd (publish_attempt (fg_actor f) e g)\<rparr>)"
  by (rule spares_actor)
    (auto simp: publish_attempt_def observe_event_def Let_def split: prod.split option.split sum.split mailbox_error.split)

lemma attempts_spares:
  assumes "superseded i f"
  shows "spares f (turn_attempts f i p after ck mid)"
proof -
  let ?p = "publish_attempt (fg_actor f) (fst p) (fst (snd p))"
  let ?f = "f\<lparr>fg_actor := snd ?p\<rparr>"
  have p: "spares f ?f" by (rule publish_attempt_spares)
  note s = spares_superseded [OF p assms]
  show ?thesis
    using p spares_trans [OF p spares_ends] spares_trans [OF p fails_spares [OF s]] spares_trans [OF p resolved_spares [OF s]]
    by (cases ?p) (auto simp: turn_attempts_def split: sum.split option.split)
qed

text \<open>The operations of turns.\<close>

fun op_of_turn :: "foreground_op \<Rightarrow> nat option" where
  "op_of_turn (Op_history i loaded compiled ck ck' mid) = Some i"
| "op_of_turn (Op_pipeline i reply ck ck' mid) = Some i"
| "op_of_turn (Op_register i ck ck' mid) = Some i"
| "op_of_turn (Op_turn_attempt i ck mid) = Some i"
| "op_of_turn (Op_turn_cancelled i ck mid) = Some i"
| "op_of_turn _ = None"

lemma step_spares:
  assumes "op_of_turn p = Some i" "superseded i f"
  shows "spares f (fg_step f p)"
proof -
  have c: "spares f (f\<lparr>fg_actor := snd (publish_cancelled (fg_actor f))\<rparr>)"
    by (rule spares_actor) (simp_all add: publish_cancelled_def)
  note rc = spares_trans [OF c resolved_spares [OF spares_superseded [OF c assms(2)]]]
  show ?thesis
    using assms(1) assms(2)
    by (cases p)
      (auto intro!: tries_spares loaded_spares receives_spares publish_spares attempts_spares rc
        split: turn_phase.split sum.split)
qed


text \<open>C7: A turn whose generation is over leaves the interaction state, the inbox and the generations as they
  are, whatever its pipeline, its history or its publications do.\<close>
theorem superseded_turn_harmless:
  assumes "op_of_turn p = Some i" "i < length (fg_turns f)" "tn_generation (fg_turns f ! i) \<noteq> fg_current f"
  shows "fg_state (fg_apply f p) = fg_state f \<and> queue (fg_actor (fg_apply f p)) = queue (fg_actor f) \<and>
    fg_current (fg_apply f p) = fg_current f \<and>
    map tn_generation (fg_turns (fg_apply f p)) = map tn_generation (fg_turns f)"
proof -
  have "spares f (fg_apply f p)"
    using step_spares [OF assms(1)] assms(2,3) by (simp add: fg_apply_def superseded_def)
  then show ?thesis by (simp add: spares_def fg_state_def fg_current_def queue_def turn_gens_def)
qed

section \<open>Whole runs\<close>

lemma unfailing_run_inv:
  assumes "actor_init sid inbox_capacity outbox_capacity DROP_LOWEST None None observer = Inr a"
    and "\<forall>p \<in> set ps. op_ok p \<and> failed_write p = None"
  shows "fg_inv (fg_run (fg_init a config) ps)"
proof -
  have "fg_inv (fg_init a config)" using fg_init_inv [OF assms(1)] .
  then have "fg_inv (fgs.run (fg_init a config) ps)"
    using failure_needs_write assms(2) by (simp add: fg_safe_def)
  then show ?thesis using assms(2) by (simp add: fg_run_checked list_all_iff)
qed

text \<open>A session that has failed did so with the exception of a write, and stays as it is.\<close>

lemma failed_stays: "fg_failed f \<Longrightarrow> fg_run f ps = f"
  unfolding fg_run_def by (induction ps) (simp_all add: fg_apply_def)

lemma run_failure:
  "fg_inv f \<Longrightarrow> \<forall>p \<in> set ps. op_ok p \<Longrightarrow>
   fg_inv (fg_run f ps) \<or>
   (\<exists>p \<in> set ps. \<exists>name. failed_write p = Some name \<and> ac_failure (fg_actor (fg_run f ps)) = Some (Fg_external name))"
proof (induction ps arbitrary: f)
  case (Cons p ps)
  have "\<not> fg_failed f" using fg_inv_parts(1) [OF Cons.prems(1)] by (simp add: fg_failed_def actor_ok_def)
  then have run: "fg_run f (p # ps) = fg_run (fg_step f p) ps" by (simp add: fg_run_def fg_apply_def)
  show ?case
  proof (cases "fg_inv (fg_step f p)")
    case True
    then show ?thesis using Cons.IH [OF True] Cons.prems(2) by (auto simp: run)
  next
    case False
    then obtain name where name: "failed_write p = Some name"
      using fg_step_inv [OF Cons.prems(1)] Cons.prems(2) by fastforce
    then have x: "ac_failure (fg_actor (fg_step f p)) = Some (Fg_external name)"
      using write_fails [OF Cons.prems(1) name] False Cons.prems(1) by auto
    then have "fg_run (fg_step f p) ps = fg_step f p" by (intro failed_stays) (simp add: fg_failed_def)
    then show ?thesis using name x by (auto simp: run)
  qed
qed (simp add: fg_run_def)

text \<open>C4: No call, no reply of the history, the context or the pipeline and no order of the steps makes a
  handler raise or a turn end with an exception: as long as no write to the storage fails, the session goes on
  running; and when the session has failed, it is with the exception of a write that failed.\<close>
theorem foreground_session_survives:
  assumes "actor_init sid inbox_capacity outbox_capacity DROP_LOWEST None None observer = Inr a"
    and "\<forall>p \<in> set ps. op_ok p" and "fg_run (fg_init a config) ps = f"
  shows "ac_lifecycle (fg_actor f) = Life_RUNNING \<and> ac_failure (fg_actor f) = None \<and>
      \<not> ac_cancel_requested (fg_actor f) \<and> \<not> mb_closed (ac_inbox (fg_actor f)) \<and>
      (ac_task (fg_actor f) = Task_created \<or> ac_task (fg_actor f) = Task_getting \<or> fg_handling f \<noteq> None) \<or>
    (\<exists>p \<in> set ps. \<exists>name. failed_write p = Some name \<and> ac_failure (fg_actor f) = Some (Fg_external name))"
  using run_failure [OF fg_init_inv [OF assms(1)] assms(2), of config] assms(3)
  by (auto simp: fg_inv_def base_inv_def runs_def actor_ok_def inbox_ok_def)

text \<open>C6: As long as no write fails: no two turns have the same generation, every turn is older than every
  queued request for a turn, and the queued requests are in the order of their generations; an unfinished turn
  of the current generation finds the session processing before its first segment and speaking afterwards.\<close>
theorem foreground_turns_ordered:
  assumes "actor_init sid inbox_capacity outbox_capacity DROP_LOWEST None None observer = Inr a"
    and "\<forall>p \<in> set ps. op_ok p \<and> failed_write p = None" and "fg_run (fg_init a config) ps = f"
  shows "distinct (map tn_generation (fg_turns f)) \<and>
    sorted_wrt (<) (gens (queue (fg_actor f))) \<and>
    (\<forall>t \<in> set (fg_turns f). tn_generation t \<le> fg_current f \<and> (\<forall>g \<in> set (gens (queue (fg_actor f))). tn_generation t < g)) \<and>
    (\<forall>t \<in> set (fg_turns f). tn_generation t = fg_current f \<longrightarrow> phase_ok (tn_phase t) (fg_state f))"
proof -
  have inv: "fg_inv f" using unfailing_run_inv [OF assms(1,2)] assms(3) by blast
  have g: "gen_ok (fg_current f) (gens (queue (fg_actor f))) (gens (map fst (fg_submits f))) (pending f)
      (map tn_generation (fg_turns f))"
    using fg_inv_parts(2) [OF inv] by (simp only: turn_gens_def)
  have "\<forall>t \<in> set (fg_turns f). turn_ok f t"
    using inv unfolding fg_inv_def loose_def by (auto simp: in_set_conv_nth)
  then show ?thesis using g by (auto simp: gen_ok_def below_def before_def turn_ok_def)
qed


section \<open>A cancellation that overtakes its turn\<close>

text \<open>
  The owner sends a text and cancels before the actor's task has run. The cancellation is handled first, for its
  priority; then the request, whose generation is over, is handled like any other.
\<close>

definition overtaken_ops :: "foreground_op list" where
  "overtaken_ops =
     (let ck = \<lparr>ck_fresh = 7, ck_now = \<lparr>dt_micros = 0, dt_utcoffset = Some 0\<rparr>, ck_monotonic_ns = 5\<rparr>
      in [Op_schedule, Op_call (Submit_text (lit ''hi'') (lit ''owner'') 9) ck 1,
          Op_call (Cancel (lit ''user_requested'')) ck 2,
          Op_get [109] 3, Op_handler ck 3, Op_handler_attempt 3, Op_handler ck 3,
          Op_get [110] 4, Op_handler ck 4, Op_handler ck 4, Op_handler ck 4])"

definition demo_actor :: session_actor where
  "demo_actor = projr (actor_init 5 4 4 DROP_LOWEST None None None)"

definition demo_fg :: foreground where
  "demo_fg = fg_init demo_actor (PDict [])"

lemma demo_fg_actor_init: "actor_init 5 4 4 DROP_LOWEST None None None = Inr demo_actor"
proof -
  have "isl (actor_init 5 4 4 DROP_LOWEST None None None :: session_error + session_actor) = False" by code_simp
  then show ?thesis by (metis demo_actor_def sum.collapse(2))
qed

lemma overtaken_ok: "\<forall>p \<in> set overtaken_ops. op_ok p \<and> failed_write p = None"
  by (simp add: overtaken_ops_def clock_ok_def Let_def del: lit_simps)

definition overtaken_fg :: foreground where
  "overtaken_fg = fg_run demo_fg overtaken_ops"

text \<open>What the run leaves, as one value, so that it is evaluated once.\<close>

definition leftover :: "foreground \<Rightarrow> InteractionState \<times> bool \<times> bool \<times> bool \<times> int list \<times> int" where
  "leftover f =
     (fg_state f, queue (fg_actor f) = [], fg_handling f = None, fg_submits f = [], turn_gens f, fg_current f)"


lemma overtaken_leftover: "leftover (fg_run demo_fg overtaken_ops) = (PROCESSING, True, True, True, [1], 2)"
  by code_simp

lemma overtaken_result:
  "fg_state overtaken_fg = PROCESSING \<and> queue (fg_actor overtaken_fg) = [] \<and> fg_handling overtaken_fg = None \<and>
   fg_submits overtaken_fg = [] \<and> turn_gens overtaken_fg = [1] \<and> fg_current overtaken_fg = 2"
  using overtaken_leftover by (simp add: leftover_def overtaken_fg_def)

lemma single_turn:
  "length (fg_turns overtaken_fg) = 1" "tn_generation (fg_turns overtaken_fg ! 0) = 1"
  using overtaken_result by (auto simp: turn_gens_def)

lemma superseded_run:
  "(\<And>j. j < length (fg_turns f) \<Longrightarrow> superseded j f) \<Longrightarrow> \<forall>p \<in> set ps. op_of_turn p \<noteq> None \<Longrightarrow> spares f (fg_run f ps)"
proof (induction ps arbitrary: f)
  case (Cons p ps)
  then obtain i where p: "op_of_turn p = Some i" by auto
  have step: "spares f (fg_apply f p)"
  proof (cases "i < length (fg_turns f)")
    case True
    then show ?thesis using step_spares [OF p] Cons.prems(1) by (simp add: fg_apply_def)
  next
    case False
    then have "fg_step f p = f" using p by (cases p) auto
    then show ?thesis by (simp add: fg_apply_def)
  qed
  then have "spares (fg_apply f p) (fg_run (fg_apply f p) ps)"
    using Cons.prems spares_superseded [OF step] by (intro Cons.IH) (auto simp: spares_turns)
  with step show ?case unfolding fg_run_def by (auto intro: spares_trans)
qed (simp add: fg_run_def)

text \<open>Nothing that decides which turn is the current one is changed; spawned turns were accepted before.\<close>

definition keeps :: "foreground \<Rightarrow> foreground \<Rightarrow> bool" where
  "keeps f g \<longleftrightarrow> ac_interaction (fg_actor g) = ac_interaction (fg_actor f) \<and>
     ac_cancellation (fg_actor g) = ac_cancellation (fg_actor f) \<and> queue (fg_actor g) = queue (fg_actor f) \<and>
     fg_submits g = fg_submits f \<and> set (pending g) \<union> set (turn_gens g) \<subseteq> set (pending f) \<union> set (turn_gens f)"

lemma keeps_refl [simp, intro]: "keeps f f"
  by (simp add: keeps_def)













section \<open>Witnesses\<close>


theorem foreground_session_survives_witness:
  "ac_lifecycle (fg_actor (fg_run demo_fg overtaken_ops)) = Life_RUNNING \<and>
   ac_failure (fg_actor (fg_run demo_fg overtaken_ops)) = None"
  using foreground_session_survives [OF demo_fg_actor_init, of overtaken_ops "PDict []"] overtaken_ok
  by (auto simp: demo_fg_def)

theorem foreground_turns_ordered_witness:
  "\<exists>t. set (fg_turns (fg_run demo_fg overtaken_ops)) = {t} \<and> tn_generation t \<le> fg_current (fg_run demo_fg overtaken_ops)"
proof -
  obtain t where "fg_turns (fg_run demo_fg overtaken_ops) = [t]"
    using single_turn(1) unfolding overtaken_fg_def by (auto simp: length_Suc_conv)
  then show ?thesis
    using foreground_turns_ordered [OF demo_fg_actor_init overtaken_ok, of "PDict []"]
    unfolding demo_fg_def [symmetric] by auto
qed

theorem superseded_turn_harmless_witness:
  "fg_state (fg_apply (fg_run demo_fg overtaken_ops)
     (Op_history 0 (Inl Fg_value_error) (Inl Fg_value_error) \<lparr>ck_fresh = 7, ck_now = \<lparr>dt_micros = 0, dt_utcoffset = Some 0\<rparr>,
        ck_monotonic_ns = 5\<rparr> \<lparr>ck_fresh = 7, ck_now = \<lparr>dt_micros = 0, dt_utcoffset = Some 0\<rparr>, ck_monotonic_ns = 5\<rparr> [])) = PROCESSING"
  using superseded_turn_harmless [OF op_of_turn.simps(1), of 0 overtaken_fg] single_turn overtaken_result
  unfolding overtaken_fg_def by simp

end
