(* ===== verification/VoiceInput.thy ===== *)
theory VoiceInput
  imports Commands Generations
begin

text \<open>
  The voice input coordinator of \<^verbatim>\<open>application/voice_input.py\<close>: one record with the fields of
  \<open>VoiceInputCoordinator\<close>, and a machine of its three tasks. The client's task runs \<open>start_stream\<close>,
  \<open>process_frame\<close> and \<open>finish_stream\<close>, the worker's task is \<open>_run_asr\<close>, and each recognition is a task
  \<open>_recognize\<close>; a step goes from one \<open>await\<close> to the next. What the sink answers to a call and what the
  recognizer yields are arguments of the steps. The calls of the sink are recorded in their order.
\<close>

section \<open>Policy\<close>

record VoiceInputPolicy =
  vp_enabled :: bool
  vp_pcm_format :: PcmFormat
  vp_frame_duration_ms :: int
  vp_max_frame_bytes :: int
  vp_vad :: EnergyVadConfig
  vp_asr_timeout_ms :: int
  vp_max_pending_utterances :: int
  vp_max_transcript_chars :: int
  vp_barge_in_enabled :: bool

datatype voice_policy_error =
  Frame_duration_not_positive | Frame_bytes_too_small | Asr_timeout_not_positive
| Pending_not_positive | Transcript_chars_not_positive

definition check_voice_policy :: "VoiceInputPolicy \<Rightarrow> voice_policy_error option" where
  "check_voice_policy p =
     (if vp_frame_duration_ms p < 1 then Some Frame_duration_not_positive
      else if vp_max_frame_bytes p < bytes_per_sample_frame (vp_pcm_format p) then Some Frame_bytes_too_small
      else if vp_asr_timeout_ms p < 1 then Some Asr_timeout_not_positive
      else if vp_max_pending_utterances p < 1 then Some Pending_not_positive
      else if vp_max_transcript_chars p < 1 then Some Transcript_chars_not_positive
      else None)"

definition public_config :: "VoiceInputPolicy \<Rightarrow> pyval" where
  "public_config p =
     str_dict
       [(lit ''enabled'', PBool (vp_enabled p)),
        (lit ''sample_rate_hz'', PInt (pf_sample_rate_hz (vp_pcm_format p))),
        (lit ''channels'', PInt (pf_channels (vp_pcm_format p))),
        (lit ''encoding'', PStr (encoding_value (pf_encoding (vp_pcm_format p)))),
        (lit ''frame_duration_ms'', PInt (vp_frame_duration_ms p)),
        (lit ''max_frame_bytes'', PInt (vp_max_frame_bytes p)),
        (lit ''barge_in_enabled'', PBool (vp_barge_in_enabled p))]"

definition expected_frame_sample_count :: "VoiceInputPolicy \<Rightarrow> int" where
  "expected_frame_sample_count p =
     (pf_sample_rate_hz (vp_pcm_format p) * vp_frame_duration_ms p + 999) div 1000"

section \<open>State\<close>

text \<open>The calls of the sink, the exceptions of the client's calls, and how an awaited call ends.\<close>

datatype sink_call =
  Sink_capture_started uuid PcmFormat
| Sink_capture_stopped uuid pystr
| Sink_speech_started VadSpeechStarted bool
| Sink_partial AsrPartial
| Sink_final AsrFinal
| Sink_failed uuid pystr

datatype capture_error =
  Coordinator_closed | Voice_disabled | Already_capturing | Format_mismatch | No_capture | Other_stream
| Format_changed_in_capture | Frame_bytes_exceeded | Frame_duration_differs | Frame_refused
| Reason_blank | Stop_mismatch | Ended_without_start | Detector_failed | Sink_raised

datatype failure = Fail_cancelled | Fail_timeout | Fail_error pystr

text \<open>\<open>_RecognitionJob\<close>.\<close>

record recognition_job =
  vj_epoch :: nat
  vj_utterance :: PcmUtterance

text \<open>
  The task \<open>_recognize\<close>: created; awaiting the next event of the recognizer (with \<open>last_partial_revision\<close>
  and \<open>final\<close>); awaiting the sink with a partial or the final; ended, with the exception of its result.
\<close>

datatype recognition =
  Rec_created
| Rec_streaming int "AsrFinal option"
| Rec_partial int "AsrFinal option"
| Rec_final
| Rec_ended "failure option"

text \<open>
  The task \<open>_run_asr\<close>: awaiting \<open>get\<close>, the recognition of a job, or the report of its failure.
\<close>

datatype asr_worker =
  Worker_none | Worker_getting | Worker_recognizing recognition_job recognition | Worker_reporting recognition_job | Worker_ended

text \<open>
  The client's task: free to call; awaiting the sink in a call, with what the call goes on to do. The
  exceptions of a report of back-pressure are swallowed. After an exception of the sink the loop of
  the WebSocket in \<^verbatim>\<open>api/app.py\<close> is left: what remains is \<open>close\<close>.
\<close>

datatype ingress_step = Handle_event VadEvent | Report_stopped uuid pystr

datatype ingress = Ingress_free | Ingress_calling "ingress_step list" | Ingress_failing "ingress_step list" | Ingress_left

record voice_input =
  vi_policy :: VoiceInputPolicy
  vi_detector :: "vad option"
  vi_stream_id :: "uuid option"
  vi_utterances :: "recognition_job list"
  vi_worker :: asr_worker
  vi_recognition_cancelled :: bool
  vi_worker_cancelled :: bool
  vi_active_asr :: "cancel_source option"
  vi_speech_epoch :: nat
  vi_active_utterance_epoch :: "nat option"
  vi_closed :: bool
  vi_ingress :: ingress
  vi_sink :: "sink_call list"
  vi_raised :: "capture_error list"

definition voice_init :: "VoiceInputPolicy \<Rightarrow> voice_input" where
  "voice_init p =
     \<lparr>vi_policy = p, vi_detector = None, vi_stream_id = None, vi_utterances = [], vi_worker = Worker_none,
      vi_recognition_cancelled = False, vi_worker_cancelled = False, vi_active_asr = None,
      vi_speech_epoch = 0, vi_active_utterance_epoch = None, vi_closed = False, vi_ingress = Ingress_free,
      vi_sink = [], vi_raised = []\<rparr>"

definition capture_active :: "voice_input \<Rightarrow> bool" where
  "capture_active s \<longleftrightarrow> vi_stream_id s \<noteq> None"

definition sink_calls :: "sink_call \<Rightarrow> voice_input \<Rightarrow> voice_input" where
  "sink_calls c s = s\<lparr>vi_sink := vi_sink s @ [c]\<rparr>"

definition raises :: "capture_error \<Rightarrow> voice_input \<Rightarrow> voice_input" where
  "raises e s = s\<lparr>vi_raised := vi_raised s @ [e]\<rparr>"

section \<open>The client's calls\<close>

text \<open>\<open>_active_asr.cancel_current\<close> and \<open>_active_recognition_task.cancel\<close>; an ended task ignores it.\<close>

definition recognition_live :: "voice_input \<Rightarrow> bool" where
  "recognition_live s =
     (case vi_worker s of
        Worker_recognizing j (Rec_ended r) \<Rightarrow> False
      | Worker_recognizing j r \<Rightarrow> True
      | _ \<Rightarrow> False)"

definition cancel_recognition :: "voice_input \<Rightarrow> voice_input" where
  "cancel_recognition s =
     s\<lparr>vi_recognition_cancelled := vi_recognition_cancelled s \<or> recognition_live s\<rparr>"

definition supersede_recognition :: "int \<Rightarrow> voice_input \<Rightarrow> voice_input" where
  "supersede_recognition now s =
     cancel_recognition
       (s\<lparr>vi_active_asr :=
            map_option (\<lambda>src. snd (cancel_current src (lit ''superseded by newer speech'') now)) (vi_active_asr s)\<rparr>)"

text \<open>
  The rest of a call, up to its next await: the loop over the events in \<open>process_frame\<close>,
  \<open>_take_utterance_epoch\<close> and \<open>_enqueue_utterance\<close>, and the last call of \<open>finish_stream\<close>.
\<close>

fun ingress_run :: "int \<Rightarrow> ingress_step list \<Rightarrow> voice_input \<Rightarrow> voice_input" where
  "ingress_run now [] s = s\<lparr>vi_ingress := Ingress_free\<rparr>"
| "ingress_run now (Handle_event (Speech_started e) # rest) s =
     (let s1 = supersede_recognition now
                 (s\<lparr>vi_speech_epoch := Suc (vi_speech_epoch s),
                    vi_active_utterance_epoch := Some (Suc (vi_speech_epoch s))\<rparr>)
      in (sink_calls (Sink_speech_started e (vp_barge_in_enabled (vi_policy s1))) s1)
           \<lparr>vi_ingress := Ingress_calling rest\<rparr>)"
| "ingress_run now (Handle_event (Speech_ended e) # rest) s =
     (case vi_active_utterance_epoch s of
        None \<Rightarrow> (raises Ended_without_start s)\<lparr>vi_ingress := Ingress_free\<rparr>
      | Some n \<Rightarrow>
          (let s1 = s\<lparr>vi_active_utterance_epoch := None\<rparr>
           in if int (length (vi_utterances s1)) < vp_max_pending_utterances (vi_policy s1) then
                ingress_run now rest
                  (s1\<lparr>vi_utterances := vi_utterances s1 @ [\<lparr>vj_epoch = n, vj_utterance = se_utterance e\<rparr>]\<rparr>)
              else
                (sink_calls (Sink_failed (se_utterance_id e) (lit ''VoiceInputBackpressure'')) s1)
                  \<lparr>vi_ingress := Ingress_failing rest\<rparr>))"
| "ingress_run now (Report_stopped stream reason # rest) s =
     (sink_calls (Sink_capture_stopped stream reason) s)\<lparr>vi_ingress := Ingress_calling rest\<rparr>"

definition ensure_worker :: "voice_input \<Rightarrow> voice_input" where
  "ensure_worker s =
     (if vi_worker s = Worker_none \<or> vi_worker s = Worker_ended
      then s\<lparr>vi_worker := Worker_getting, vi_worker_cancelled := False\<rparr> else s)"

definition start_stream :: "uuid \<Rightarrow> PcmFormat \<Rightarrow> voice_input \<Rightarrow> voice_input" where
  "start_stream stream fmt s =
     (if vi_closed s then raises Coordinator_closed s
      else if \<not> vp_enabled (vi_policy s) then raises Voice_disabled s
      else if vi_stream_id s \<noteq> None then raises Already_capturing s
      else if fmt \<noteq> vp_pcm_format (vi_policy s) then raises Format_mismatch s
      else
        (sink_calls (Sink_capture_started stream fmt)
           (ensure_worker (s\<lparr>vi_stream_id := Some stream, vi_detector := Some (vad_init (Some (vp_vad (vi_policy s))))\<rparr>)))
          \<lparr>vi_ingress := Ingress_calling []\<rparr>)"

text \<open>\<open>_require_detector\<close>.\<close>

definition require_detector :: "voice_input \<Rightarrow> vad option" where
  "require_detector s = (if vi_stream_id s = None then None else vi_detector s)"

fun frame_error :: "vad_error \<Rightarrow> capture_error" where
  "frame_error Required_missing = Detector_failed"
| "frame_error History_underflow = Detector_failed"
| "frame_error _ = Frame_refused"

definition process_frame ::
  "(uuid \<Rightarrow> pystr \<Rightarrow> uuid) \<Rightarrow> PcmFrame \<Rightarrow> int \<Rightarrow> voice_input \<Rightarrow> voice_input" where
  "process_frame name_uuid f now s =
     (if vi_closed s then raises Coordinator_closed s
      else
        (case require_detector s of
           None \<Rightarrow> raises No_capture s
         | Some v \<Rightarrow>
             if Some (fr_stream_id f) \<noteq> vi_stream_id s then raises Other_stream s
             else if fr_format f \<noteq> vp_pcm_format (vi_policy s) then raises Format_changed_in_capture s
             else if vp_max_frame_bytes (vi_policy s) < int (length (fr_pcm f)) then raises Frame_bytes_exceeded s
             else if sample_frame_count f \<noteq> expected_frame_sample_count (vi_policy s)
               then raises Frame_duration_differs s
             else
               (case vad_process name_uuid v f of
                  (Inl e, v') \<Rightarrow> raises (frame_error e) (s\<lparr>vi_detector := Some v'\<rparr>)
                | (Inr events, v') \<Rightarrow>
                    ingress_run now (map Handle_event events) (s\<lparr>vi_detector := Some v'\<rparr>))))"

definition finish_voice_stream :: "uuid \<Rightarrow> pystr \<Rightarrow> int \<Rightarrow> voice_input \<Rightarrow> voice_input" where
  "finish_voice_stream stream reason now s =
     (if vi_closed s then raises Coordinator_closed s
      else if blank reason then raises Reason_blank s
      else if Some stream \<noteq> vi_stream_id s then raises Stop_mismatch s
      else
        (case require_detector s of
           None \<Rightarrow> raises No_capture s
         | Some v \<Rightarrow>
             (case vad_finish_stream v of
                (Inl e, v') \<Rightarrow> raises Detector_failed (s\<lparr>vi_detector := Some v'\<rparr>)
              | (Inr ended, v') \<Rightarrow>
                  ingress_run now
                    ((case ended of None \<Rightarrow> [] | Some e \<Rightarrow> [Handle_event (Speech_ended e)]) @ [Report_stopped stream reason])
                    (s\<lparr>vi_detector := None, vi_stream_id := None\<rparr>))))"

text \<open>The sink answers the client's task.\<close>

definition ingress_answered :: "int \<Rightarrow> failure option \<Rightarrow> voice_input \<Rightarrow> voice_input" where
  "ingress_answered now answer s =
     (case vi_ingress s of
        Ingress_calling rest \<Rightarrow>
          (case answer of
             None \<Rightarrow> ingress_run now rest s
           | Some _ \<Rightarrow> (raises Sink_raised s)\<lparr>vi_ingress := Ingress_left\<rparr>)
      | Ingress_failing rest \<Rightarrow>
          (if answer = Some Fail_cancelled then (raises Sink_raised s)\<lparr>vi_ingress := Ingress_left\<rparr>
           else ingress_run now rest s)
      | _ \<Rightarrow> s)"

section \<open>The worker\<close>

text \<open>The \<open>finally\<close> clause of an iteration, and the next \<open>get\<close>.\<close>

definition next_job :: "voice_input \<Rightarrow> voice_input" where
  "next_job s = s\<lparr>vi_active_asr := None, vi_recognition_cancelled := False, vi_worker := Worker_getting\<rparr>"

definition worker_ends :: "voice_input \<Rightarrow> voice_input" where
  "worker_ends s =
     s\<lparr>vi_active_asr := None, vi_recognition_cancelled := False, vi_worker := Worker_ended, vi_worker_cancelled := False\<rparr>"

definition worker_gets :: "voice_input \<Rightarrow> voice_input" where
  "worker_gets s =
     (if vi_worker_cancelled s then worker_ends s
      else
        (case vi_utterances s of
           [] \<Rightarrow> s
         | j # js \<Rightarrow>
             (if vj_epoch j = vi_speech_epoch s
              then s\<lparr>vi_utterances := js, vi_worker := Worker_recognizing j Rec_created\<rparr>
              else next_job (s\<lparr>vi_utterances := js\<rparr>))))"

definition failure_name :: "failure \<Rightarrow> pystr" where
  "failure_name e =
     (case e of
        Fail_cancelled \<Rightarrow> lit ''VoiceRecognitionCancelled''
      | Fail_timeout \<Rightarrow> lit ''VoiceRecognitionTimeout''
      | Fail_error name \<Rightarrow> name)"

text \<open>The recognition task has ended and the worker goes on, with the exception or without.\<close>

definition worker_resumes :: "recognition_job \<Rightarrow> failure option \<Rightarrow> voice_input \<Rightarrow> voice_input" where
  "worker_resumes j r s =
     (let r' = (if vi_worker_cancelled s then Some Fail_cancelled else r)
      in (case r' of
            None \<Rightarrow> next_job s
          | Some e \<Rightarrow>
              if e = Fail_cancelled \<and> (vi_closed s \<or> vi_worker_cancelled s) then worker_ends s
              else if vj_epoch j = vi_speech_epoch s then
                (sink_calls (Sink_failed (ut_utterance_id (vj_utterance j)) (failure_name e)) s)
                  \<lparr>vi_worker := Worker_reporting j\<rparr>
              else next_job s))"

definition worker_reported :: "failure option \<Rightarrow> voice_input \<Rightarrow> voice_input" where
  "worker_reported answer s = (if answer = Some Fail_cancelled then worker_ends s else next_job s)"

section \<open>A recognition\<close>

text \<open>The end of \<open>_recognize\<close>, with its \<open>except TimeoutError\<close> and its \<open>finally\<close>.\<close>

definition close_asr :: "int \<Rightarrow> failure option \<Rightarrow> cancel_source \<Rightarrow> cancel_source" where
  "close_asr now r src =
     (let src1 = (if r = Some Fail_timeout then snd (cancel_current src (lit ''voice recognition timed out'') now) else src)
      in snd (source_close src1 (lit ''voice recognition finished'') now))"

definition recognition_ends :: "recognition_job \<Rightarrow> int \<Rightarrow> failure option \<Rightarrow> voice_input \<Rightarrow> voice_input" where
  "recognition_ends j now r s =
     s\<lparr>vi_active_asr := map_option (close_asr now r) (vi_active_asr s),
       vi_recognition_cancelled := False, vi_worker := Worker_recognizing j (Rec_ended r)\<rparr>"

text \<open>Its first step; a task cancelled before that does not run at all.\<close>

definition recognition_begins :: "recognition_job \<Rightarrow> voice_input \<Rightarrow> voice_input" where
  "recognition_begins j s =
     (if vi_recognition_cancelled s
      then s\<lparr>vi_recognition_cancelled := False, vi_worker := Worker_recognizing j (Rec_ended (Some Fail_cancelled))\<rparr>
      else
        s\<lparr>vi_active_asr := (case source_init 0 of Inl _ \<Rightarrow> None | Inr src \<Rightarrow> Some src),
          vi_worker := Worker_recognizing j (Rec_streaming (-1) None)\<rparr>)"

datatype asr_reply = Asr_event AsrStreamEvent | Asr_end | Asr_raised failure

fun event_utterance :: "AsrStreamEvent \<Rightarrow> uuid" where
  "event_utterance (Asr_partial p) = ap_utterance_id p"
| "event_utterance (Asr_final f) = af_utterance_id f"

fun event_text :: "AsrStreamEvent \<Rightarrow> pystr" where
  "event_text (Asr_partial p) = ap_text p"
| "event_text (Asr_final f) = af_text f"

definition recognition_protocol_error :: failure where
  "recognition_protocol_error = Fail_error (lit ''VoiceRecognitionProtocolError'')"

definition recognition_receives ::
  "recognition_job \<Rightarrow> int \<Rightarrow> AsrFinal option \<Rightarrow> int \<Rightarrow> asr_reply \<Rightarrow> voice_input \<Rightarrow> voice_input" where
  "recognition_receives j revision final now reply s =
     (case reply of
        Asr_event e \<Rightarrow>
          (if event_utterance e \<noteq> ut_utterance_id (vj_utterance j) then recognition_ends j now (Some recognition_protocol_error) s
           else if vj_epoch j \<noteq> vi_speech_epoch s then recognition_ends j now None s
           else if final \<noteq> None then recognition_ends j now (Some recognition_protocol_error) s
           else if vp_max_transcript_chars (vi_policy s) < int (length (event_text e))
             then recognition_ends j now (Some recognition_protocol_error) s
           else
             (case e of
                Asr_partial p \<Rightarrow>
                  (if ap_revision p \<le> revision then recognition_ends j now (Some recognition_protocol_error) s
                   else
                     (sink_calls (Sink_partial p) s)
                       \<lparr>vi_worker := Worker_recognizing j (Rec_partial (ap_revision p) final)\<rparr>)
              | Asr_final f \<Rightarrow> s\<lparr>vi_worker := Worker_recognizing j (Rec_streaming revision (Some f))\<rparr>))
      | Asr_end \<Rightarrow>
          (case final of
             None \<Rightarrow> recognition_ends j now (Some recognition_protocol_error) s
           | Some f \<Rightarrow>
               (if vj_epoch j = vi_speech_epoch s
                then (sink_calls (Sink_final f) s)\<lparr>vi_worker := Worker_recognizing j Rec_final\<rparr>
                else recognition_ends j now None s))
      | Asr_raised e \<Rightarrow> recognition_ends j now (Some e) s)"

section \<open>Closing\<close>

text \<open>
  \<open>close\<close>, up to the wait for the worker. The cancellation of a worker that awaits a recognition or the
  sink is passed on to it, and its answer is the argument of a later step; otherwise the worker is
  cancelled at its next step. The client's task no longer runs its loop.
\<close>

definition voice_close :: "int \<Rightarrow> voice_input \<Rightarrow> voice_input" where
  "voice_close now s =
     (if vi_closed s then s
      else
        (let s1 = cancel_recognition
               (s\<lparr>vi_closed := True, vi_detector := None, vi_stream_id := None, vi_active_utterance_epoch := None,
                  vi_active_asr := map_option (\<lambda>src. snd (source_close src (lit ''voice input closed'') now)) (vi_active_asr s),
                  vi_ingress := Ingress_left\<rparr>)
         in (case vi_worker s1 of
               Worker_getting \<Rightarrow> s1\<lparr>vi_worker_cancelled := True\<rparr>
             | Worker_recognizing j (Rec_ended r) \<Rightarrow> s1\<lparr>vi_worker_cancelled := True\<rparr>
             | _ \<Rightarrow> s1)))"

text \<open>The worker has ended: the queue is emptied. (Then the recognizer is closed.)\<close>

definition close_drains :: "voice_input \<Rightarrow> voice_input" where
  "close_drains s =
     (if vi_closed s \<and> (vi_worker s = Worker_none \<or> vi_worker s = Worker_ended) then s\<lparr>vi_utterances := []\<rparr> else s)"

section \<open>The machine\<close>

datatype voice_op =
  Op_start uuid PcmFormat
| Op_frame PcmFrame int
| Op_finish uuid pystr int
| Op_answer "failure option" int
| Op_worker_get
| Op_recognition_begin
| Op_asr_reply asr_reply int
| Op_asr_timeout int
| Op_sink_answer "failure option" int
| Op_worker_resume
| Op_worker_reported "failure option"
| Op_close int
| Op_close_drain

fun voice_step :: "(uuid \<Rightarrow> pystr \<Rightarrow> uuid) \<Rightarrow> voice_input \<Rightarrow> voice_op \<Rightarrow> voice_input" where
  "voice_step nu s (Op_start stream fmt) = (if vi_ingress s = Ingress_free then start_stream stream fmt s else s)"
| "voice_step nu s (Op_frame f now) = (if vi_ingress s = Ingress_free then process_frame nu f now s else s)"
| "voice_step nu s (Op_finish stream reason now) =
     (if vi_ingress s = Ingress_free then finish_voice_stream stream reason now s else s)"
| "voice_step nu s (Op_answer answer now) = ingress_answered now answer s"
| "voice_step nu s Op_worker_get = (if vi_worker s = Worker_getting then worker_gets s else s)"
| "voice_step nu s Op_recognition_begin =
     (case vi_worker s of Worker_recognizing j Rec_created \<Rightarrow> recognition_begins j s | _ \<Rightarrow> s)"
| "voice_step nu s (Op_asr_reply reply now) =
     (case vi_worker s of
        Worker_recognizing j (Rec_streaming revision final) \<Rightarrow> recognition_receives j revision final now reply s
      | _ \<Rightarrow> s)"
| "voice_step nu s (Op_asr_timeout now) =
     (case vi_worker s of
        Worker_recognizing j (Rec_streaming revision final) \<Rightarrow> recognition_ends j now (Some Fail_timeout) s
      | Worker_recognizing j (Rec_partial revision final) \<Rightarrow> recognition_ends j now (Some Fail_timeout) s
      | _ \<Rightarrow> s)"
| "voice_step nu s (Op_sink_answer answer now) =
     (case vi_worker s of
        Worker_recognizing j (Rec_partial revision final) \<Rightarrow>
          (case answer of
             None \<Rightarrow> s\<lparr>vi_worker := Worker_recognizing j (Rec_streaming revision final)\<rparr>
           | Some e \<Rightarrow> recognition_ends j now (Some e) s)
      | Worker_recognizing j Rec_final \<Rightarrow> recognition_ends j now answer s
      | _ \<Rightarrow> s)"
| "voice_step nu s Op_worker_resume =
     (case vi_worker s of Worker_recognizing j (Rec_ended r) \<Rightarrow> worker_resumes j r s | _ \<Rightarrow> s)"
| "voice_step nu s (Op_worker_reported answer) =
     (case vi_worker s of Worker_reporting j \<Rightarrow> worker_reported answer s | _ \<Rightarrow> s)"
| "voice_step nu s (Op_close now) = voice_close now s"
| "voice_step nu s Op_close_drain = close_drains s"

end
