(* ===== verification/VoiceInputInv.thy ===== *)
theory VoiceInputInv
  imports VoiceInput VadInv
begin

text \<open>
  What the coordinator of \<open>VoiceInput\<close> promises to its sink, as an acceptor of sequences of calls, and the
  invariant that every step of the machine keeps.
\<close>

section \<open>The protocol of the sink\<close>

text \<open>
  The utterance that was started last: the revision of its last partial transcript, and whether its final
  transcript or its failure has been reported.
\<close>

record hearing =
  hr_utterance :: "uuid option"
  hr_revision :: int
  hr_final :: bool
  hr_failed :: bool

definition silence :: hearing where
  "silence = \<lparr>hr_utterance = None, hr_revision = -1, hr_final = False, hr_failed = False\<rparr>"

fun hears :: "int \<Rightarrow> hearing \<Rightarrow> sink_call \<Rightarrow> hearing option" where
  "hears limit h (Sink_speech_started e barge_in) =
     Some \<lparr>hr_utterance = Some (ss_utterance_id e), hr_revision = -1, hr_final = False, hr_failed = False\<rparr>"
| "hears limit h (Sink_partial p) =
     (if hr_utterance h = Some (ap_utterance_id p) \<and> \<not> hr_final h \<and> \<not> hr_failed h \<and>
         hr_revision h < ap_revision p \<and> int (length (ap_text p)) \<le> limit
      then Some (h\<lparr>hr_revision := ap_revision p\<rparr>) else None)"
| "hears limit h (Sink_final f) =
     (if hr_utterance h = Some (af_utterance_id f) \<and> \<not> hr_final h \<and> \<not> hr_failed h \<and>
         int (length (af_text f)) \<le> limit
      then Some (h\<lparr>hr_final := True\<rparr>) else None)"
| "hears limit h (Sink_failed u name) =
     (if hr_utterance h = Some u \<and> \<not> hr_failed h then Some (h\<lparr>hr_failed := True\<rparr>) else None)"
| "hears limit h (Sink_capture_started u fmt) = Some h"
| "hears limit h (Sink_capture_stopped u reason) = Some h"

fun hears_all :: "int \<Rightarrow> hearing \<Rightarrow> sink_call list \<Rightarrow> hearing option" where
  "hears_all limit h [] = Some h"
| "hears_all limit h (c # cs) = (case hears limit h c of None \<Rightarrow> None | Some h' \<Rightarrow> hears_all limit h' cs)"

lemma hears_all_snoc:
  "hears_all limit h (cs @ [c]) = (case hears_all limit h cs of None \<Rightarrow> None | Some h' \<Rightarrow> hears limit h' c)"
  by (induction limit h cs rule: hears_all.induct) (auto split: option.split)

section \<open>The invariant\<close>

definition fresh :: "hearing \<Rightarrow> bool" where
  "fresh h \<longleftrightarrow> hr_revision h = -1 \<and> \<not> hr_final h \<and> \<not> hr_failed h"

text \<open>The job of the worker, and the phase of its recognition against what the sink has heard.\<close>

fun worker_jobs :: "asr_worker \<Rightarrow> recognition_job list" where
  "worker_jobs (Worker_recognizing j r) = [j]"
| "worker_jobs (Worker_reporting j) = [j]"
| "worker_jobs _ = []"

fun phase_heard :: "int \<Rightarrow> recognition_job \<Rightarrow> recognition \<Rightarrow> hearing \<Rightarrow> bool" where
  "phase_heard limit j Rec_created h \<longleftrightarrow> fresh h"
| "phase_heard limit j (Rec_streaming r f) h \<longleftrightarrow> hr_revision h = r \<and> \<not> hr_final h \<and> \<not> hr_failed h"
| "phase_heard limit j (Rec_partial r f) h \<longleftrightarrow> hr_revision h = r \<and> \<not> hr_final h \<and> \<not> hr_failed h"
| "phase_heard limit j Rec_final h \<longleftrightarrow> hr_final h \<and> \<not> hr_failed h"
| "phase_heard limit j (Rec_ended r) h \<longleftrightarrow> \<not> hr_failed h \<and> (r = None \<longrightarrow> hr_final h)"

fun kept_final :: "int \<Rightarrow> recognition_job \<Rightarrow> recognition \<Rightarrow> bool" where
  "kept_final limit j (Rec_streaming r (Some f)) \<longleftrightarrow>
     af_utterance_id f = ut_utterance_id (vj_utterance j) \<and> int (length (af_text f)) \<le> limit"
| "kept_final limit j (Rec_partial r (Some f)) \<longleftrightarrow> False"
| "kept_final limit j _ \<longleftrightarrow> True"

fun worker_heard :: "int \<Rightarrow> nat \<Rightarrow> asr_worker \<Rightarrow> hearing \<Rightarrow> bool" where
  "worker_heard limit n (Worker_recognizing j r) h \<longleftrightarrow>
     kept_final limit j r \<and> (vj_epoch j = n \<longrightarrow> phase_heard limit j r h)"
| "worker_heard limit n (Worker_reporting j) h \<longleftrightarrow> (vj_epoch j = n \<longrightarrow> hr_failed h)"
| "worker_heard limit n _ h \<longleftrightarrow> True"

definition jobs :: "voice_input \<Rightarrow> recognition_job list" where
  "jobs s = worker_jobs (vi_worker s) @ vi_utterances s"

definition limit_of_text :: "voice_input \<Rightarrow> int" where
  "limit_of_text s = vp_max_transcript_chars (vi_policy s)"

definition jobs_inv :: "voice_input \<Rightarrow> hearing \<Rightarrow> bool" where
  "jobs_inv s h \<longleftrightarrow>
     sorted_wrt (<) (map vj_epoch (jobs s)) \<and>
     (\<forall>j \<in> set (jobs s). vj_epoch j \<le> vi_speech_epoch s \<and>
        (vj_epoch j = vi_speech_epoch s \<longrightarrow> hr_utterance h = Some (ut_utterance_id (vj_utterance j)))) \<and>
     (\<forall>j \<in> set (vi_utterances s). vj_epoch j = vi_speech_epoch s \<longrightarrow> fresh h) \<and>
     worker_heard (limit_of_text s) (vi_speech_epoch s) (vi_worker s) h \<and>
     (\<forall>n. vi_active_utterance_epoch s = Some n \<longrightarrow> n = vi_speech_epoch s \<and> hr_utterance h \<noteq> None \<and> fresh h \<and>
        (\<forall>j \<in> set (jobs s). vj_epoch j < n))"

text \<open>The events a call has still to handle follow what is open, and lead to the state of the detector.\<close>

fun step_events :: "ingress_step list \<Rightarrow> VadEvent list" where
  "step_events [] = []"
| "step_events (Handle_event e # rest) = e # step_events rest"
| "step_events (Report_stopped u reason # rest) = step_events rest"

fun ingress_steps :: "ingress \<Rightarrow> ingress_step list" where
  "ingress_steps (Ingress_calling rest) = rest"
| "ingress_steps (Ingress_failing rest) = rest"
| "ingress_steps _ = []"

definition open_utterance :: "voice_input \<Rightarrow> hearing \<Rightarrow> uuid option" where
  "open_utterance s h = (if vi_active_utterance_epoch s = None then None else hr_utterance h)"

definition detector_utterance :: "voice_input \<Rightarrow> uuid option" where
  "detector_utterance s = (case vi_detector s of None \<Rightarrow> None | Some v \<Rightarrow> va_utterance_id v)"

definition ids_match :: "VadEvent list \<Rightarrow> bool" where
  "ids_match es \<longleftrightarrow> (\<forall>e. Speech_ended e \<in> set es \<longrightarrow> se_utterance_id e = ut_utterance_id (se_utterance e))"

definition flow_inv :: "voice_input \<Rightarrow> hearing \<Rightarrow> ingress_step list \<Rightarrow> bool" where
  "flow_inv s h steps \<longleftrightarrow>
     follows (open_utterance s h) (step_events steps) (detector_utterance s) \<and> ids_match (step_events steps)"

definition detector_inv :: "voice_input \<Rightarrow> bool" where
  "detector_inv s \<longleftrightarrow> config_ok (vp_vad (vi_policy s)) \<and>
     (\<forall>v. vi_detector s = Some v \<longrightarrow> vad_inv v \<and> va_config v = vp_vad (vi_policy s))"

definition answered_inv :: "voice_input \<Rightarrow> hearing \<Rightarrow> bool" where
  "answered_inv s h \<longleftrightarrow> vi_closed s \<or> vi_speech_epoch s = 0 \<or> vi_active_utterance_epoch s \<noteq> None \<or>
     (\<exists>j \<in> set (jobs s). vj_epoch j = vi_speech_epoch s) \<or> hr_final h \<or> hr_failed h"

definition rest_inv :: "voice_input \<Rightarrow> bool" where
  "rest_inv s \<longleftrightarrow> (vi_worker_cancelled s \<longrightarrow> vi_closed s) \<and>
     int (length (vi_utterances s)) \<le> max 0 (vp_max_pending_utterances (vi_policy s)) \<and>
     Ended_without_start \<notin> set (vi_raised s) \<and> Detector_failed \<notin> set (vi_raised s)"

definition heard_inv :: "voice_input \<Rightarrow> hearing \<Rightarrow> bool" where
  "heard_inv s h \<longleftrightarrow> hears_all (limit_of_text s) silence (vi_sink s) = Some h"

definition core_inv :: "voice_input \<Rightarrow> hearing \<Rightarrow> bool" where
  "core_inv s h \<longleftrightarrow> heard_inv s h \<and> jobs_inv s h \<and> detector_inv s \<and> answered_inv s h \<and> rest_inv s"

definition voice_inv :: "voice_input \<Rightarrow> bool" where
  "voice_inv s \<longleftrightarrow> (\<exists>h. core_inv s h \<and> (vi_ingress s \<noteq> Ingress_left \<longrightarrow> flow_inv s h (ingress_steps (vi_ingress s))))"

lemmas voice_defs = heard_inv_def jobs_inv_def answered_inv_def rest_inv_def detector_inv_def jobs_def limit_of_text_def

lemma voice_init_inv: "check_vad_config (vp_vad p) = None \<Longrightarrow> voice_inv (voice_init p)"
  by (simp add: voice_inv_def core_inv_def voice_defs voice_init_def flow_inv_def open_utterance_def
      detector_utterance_def ids_match_def config_ok_def)

section \<open>The client's calls\<close>

text \<open>What a change of the fields the invariant does not read leaves true.\<close>

lemma frame_simps [simp]:
  "jobs (s\<lparr>vi_ingress := a\<rparr>) = jobs s" "jobs (s\<lparr>vi_sink := b\<rparr>) = jobs s" "jobs (s\<lparr>vi_raised := c\<rparr>) = jobs s"
  "jobs (s\<lparr>vi_active_asr := d\<rparr>) = jobs s" "jobs (s\<lparr>vi_recognition_cancelled := e\<rparr>) = jobs s"
  "jobs (s\<lparr>vi_speech_epoch := n\<rparr>) = jobs s" "jobs (s\<lparr>vi_active_utterance_epoch := m\<rparr>) = jobs s"
  "jobs (s\<lparr>vi_detector := v\<rparr>) = jobs s" "jobs (s\<lparr>vi_stream_id := u\<rparr>) = jobs s" "jobs (s\<lparr>vi_closed := k\<rparr>) = jobs s"
  "jobs (s\<lparr>vi_worker_cancelled := w\<rparr>) = jobs s"
  by (simp_all add: jobs_def)

lemma sink_calls_simps [simp]:
  "vi_policy (sink_calls c s) = vi_policy s" "vi_detector (sink_calls c s) = vi_detector s"
  "vi_utterances (sink_calls c s) = vi_utterances s" "vi_worker (sink_calls c s) = vi_worker s"
  "vi_speech_epoch (sink_calls c s) = vi_speech_epoch s" "vi_closed (sink_calls c s) = vi_closed s"
  "vi_active_utterance_epoch (sink_calls c s) = vi_active_utterance_epoch s"
  "vi_worker_cancelled (sink_calls c s) = vi_worker_cancelled s" "vi_raised (sink_calls c s) = vi_raised s"
  "vi_ingress (sink_calls c s) = vi_ingress s" "vi_sink (sink_calls c s) = vi_sink s @ [c]" "jobs (sink_calls c s) = jobs s"
  by (simp_all add: sink_calls_def)

lemma supersede_simps [simp]:
  "vi_policy (supersede_recognition now s) = vi_policy s" "vi_detector (supersede_recognition now s) = vi_detector s"
  "vi_utterances (supersede_recognition now s) = vi_utterances s" "vi_worker (supersede_recognition now s) = vi_worker s"
  "vi_speech_epoch (supersede_recognition now s) = vi_speech_epoch s" "vi_closed (supersede_recognition now s) = vi_closed s"
  "vi_active_utterance_epoch (supersede_recognition now s) = vi_active_utterance_epoch s"
  "vi_worker_cancelled (supersede_recognition now s) = vi_worker_cancelled s"
  "vi_raised (supersede_recognition now s) = vi_raised s" "vi_sink (supersede_recognition now s) = vi_sink s"
  "jobs (supersede_recognition now s) = jobs s"
  by (simp_all add: supersede_recognition_def cancel_recognition_def)

lemma voice_invI:
  "core_inv s h \<Longrightarrow> (vi_ingress s \<noteq> Ingress_left \<Longrightarrow> flow_inv s h (ingress_steps (vi_ingress s))) \<Longrightarrow> voice_inv s"
  by (auto simp: voice_inv_def)

text \<open>The parts of the invariant read only some of the fields.\<close>

definition same_core :: "voice_input \<Rightarrow> voice_input \<Rightarrow> bool" where
  "same_core s t \<longleftrightarrow> vi_policy t = vi_policy s \<and> vi_utterances t = vi_utterances s \<and> vi_worker t = vi_worker s \<and>
     vi_speech_epoch t = vi_speech_epoch s \<and> vi_closed t = vi_closed s \<and>
     vi_active_utterance_epoch t = vi_active_utterance_epoch s \<and> vi_worker_cancelled t = vi_worker_cancelled s \<and>
     vi_sink t = vi_sink s"

lemma same_coreD:
  assumes "same_core s t" "core_inv s h" "detector_inv t"
    "Ended_without_start \<notin> set (vi_raised t)" "Detector_failed \<notin> set (vi_raised t)"
  shows "core_inv t h"
  using assms by (simp add: same_core_def core_inv_def heard_inv_def jobs_inv_def answered_inv_def rest_inv_def jobs_def limit_of_text_def)

text \<open>A job of another epoch is not concerned by what the sink hears.\<close>

lemma worker_heard_other:
  "worker_heard limit n w h \<Longrightarrow> \<forall>j \<in> set (worker_jobs w). vj_epoch j \<noteq> m \<Longrightarrow> worker_heard limit m w h'"
  by (cases w) auto

lemma jobs_parts:
  "set (vi_utterances s) \<subseteq> set (jobs s)" "set (worker_jobs (vi_worker s)) \<subseteq> set (jobs s)"
  by (auto simp: jobs_def)

lemma core_ingress [simp]: "core_inv (s\<lparr>vi_ingress := g\<rparr>) h = core_inv s h"
  by (simp add: core_inv_def heard_inv_def jobs_inv_def answered_inv_def rest_inv_def detector_inv_def limit_of_text_def)

lemma open_facts:
  assumes "core_inv s h" "vi_active_utterance_epoch s = Some n"
  shows "n = vi_speech_epoch s" "fresh h" "\<forall>j \<in> set (jobs s). vj_epoch j < n"
  using assms unfolding core_inv_def jobs_inv_def by blast+

lemma speech_started_inv:
  assumes core: "core_inv s h"
    and t: "t = supersede_recognition now
      (s\<lparr>vi_speech_epoch := Suc (vi_speech_epoch s), vi_active_utterance_epoch := Some (Suc (vi_speech_epoch s))\<rparr>)"
  shows "core_inv ((sink_calls (Sink_speech_started e b) t)\<lparr>vi_ingress := g\<rparr>)
    \<lparr>hr_utterance = Some (ss_utterance_id e), hr_revision = -1, hr_final = False, hr_failed = False\<rparr>"
    (is "core_inv ?s ?h")
proof -
  have heard: "heard_inv ?s ?h"
    using core by (simp add: core_inv_def heard_inv_def t limit_of_text_def hears_all_snoc)
  have old: "vj_epoch j \<le> vi_speech_epoch s" if "j \<in> set (jobs s)" for j
    using core that by (simp add: core_inv_def jobs_inv_def)
  note mem = jobs_parts [of s]
  have wh: "worker_heard (limit_of_text s) (vi_speech_epoch s) (vi_worker s) h"
    using core by (simp add: core_inv_def jobs_inv_def)
  have "worker_heard (limit_of_text s) (Suc (vi_speech_epoch s)) (vi_worker s) ?h"
    by (rule worker_heard_other [OF wh]) (use old mem(2) in fastforce)
  then have "jobs_inv ?s ?h"
    using core old mem by (fastforce simp: core_inv_def jobs_inv_def t fresh_def limit_of_text_def less_Suc_eq_le)
  then show ?thesis
    using core heard by (simp add: core_inv_def detector_inv_def rest_inv_def answered_inv_def t)
qed

lemma ended_inv:
  assumes core: "core_inv s h" and n: "vi_active_utterance_epoch s = Some n"
    and u: "hr_utterance h = Some (ut_utterance_id (se_utterance e))"
    and room: "int (length (vi_utterances s)) < vp_max_pending_utterances (vi_policy s)"
  shows "core_inv (s\<lparr>vi_active_utterance_epoch := None,
      vi_utterances := vi_utterances s @ [\<lparr>vj_epoch = n, vj_utterance = se_utterance e\<rparr>]\<rparr>) h"
    (is "core_inv ?s h")
proof -
  have j: "jobs ?s = jobs s @ [\<lparr>vj_epoch = n, vj_utterance = se_utterance e\<rparr>]" by (simp add: jobs_def)
  have o: "n = vi_speech_epoch s" "fresh h" "\<forall>j \<in> set (jobs s). vj_epoch j < n"
    using open_facts [OF core n] .
  have "jobs_inv ?s h"
    using core o u unfolding core_inv_def jobs_inv_def j
    by (auto simp: sorted_wrt_append limit_of_text_def)
  moreover have "answered_inv ?s h" using o unfolding answered_inv_def j by simp
  ultimately show ?thesis
    using core room by (simp add: core_inv_def heard_inv_def detector_inv_def rest_inv_def limit_of_text_def)
qed

lemma refused_inv:
  assumes core: "core_inv s h" and n: "vi_active_utterance_epoch s = Some n"
    and u: "hr_utterance h = Some u"
  shows "core_inv ((sink_calls (Sink_failed u name) (s\<lparr>vi_active_utterance_epoch := None\<rparr>))\<lparr>vi_ingress := g\<rparr>)
    (h\<lparr>hr_failed := True\<rparr>)" (is "core_inv ?s ?h")
proof -
  have o: "n = vi_speech_epoch s" "fresh h" "\<forall>j \<in> set (jobs s). vj_epoch j < n"
    using open_facts [OF core n] .
  note mem = jobs_parts [of s]
  have heard: "heard_inv ?s ?h"
    using core o(2) u by (simp add: core_inv_def heard_inv_def limit_of_text_def hears_all_snoc fresh_def)
  have wh: "worker_heard (limit_of_text s) (vi_speech_epoch s) (vi_worker s) h"
    using core by (simp add: core_inv_def jobs_inv_def)
  have "worker_heard (limit_of_text s) n (vi_worker s) ?h"
    by (rule worker_heard_other [OF wh]) (use o(3) mem(2) in fastforce)
  then have "jobs_inv ?s ?h"
    using core o mem by (fastforce simp: core_inv_def jobs_inv_def limit_of_text_def)
  then show ?thesis
    using core heard by (simp add: core_inv_def detector_inv_def rest_inv_def answered_inv_def)
qed

lemma ingress_run_inv:
  assumes "core_inv s h" "flow_inv s h steps"
  shows "voice_inv (ingress_run now steps s)"
  using assms
proof (induction now steps s arbitrary: h rule: ingress_run.induct)
  case (1 now s)
  then show ?case
    by (intro voice_invI [of _ h]) (auto simp: flow_inv_def open_utterance_def detector_utterance_def)
next
  case (2 now e rest s)
  have o: "open_utterance s h = None" "follows (Some (ss_utterance_id e)) (step_events rest) (detector_utterance s)"
    "ids_match (step_events rest)"
    using 2 by (cases "open_utterance s h"; auto simp: flow_inv_def ids_match_def)+
  show ?case
    unfolding ingress_run.simps Let_def
    by (rule voice_invI [OF speech_started_inv [OF 2(1) refl]])
      (use o in \<open>simp add: flow_inv_def open_utterance_def detector_utterance_def\<close>)
next
  case (3 now e rest s)
  have flow: "open_utterance s h = Some (se_utterance_id e)" "follows None (step_events rest) (detector_utterance s)"
    "ids_match (step_events rest)" "se_utterance_id e = ut_utterance_id (se_utterance e)"
    using 3(3) by (cases "open_utterance s h"; auto simp: flow_inv_def ids_match_def)+
  then obtain n where n: "vi_active_utterance_epoch s = Some n" "hr_utterance h = Some (se_utterance_id e)"
    by (auto simp: open_utterance_def split: if_splits)
  show ?case
  proof (cases "int (length (vi_utterances s)) < vp_max_pending_utterances (vi_policy s)")
    case True
    let ?s = "s\<lparr>vi_active_utterance_epoch := None,
      vi_utterances := vi_utterances s @ [\<lparr>vj_epoch = n, vj_utterance = se_utterance e\<rparr>]\<rparr>"
    have "core_inv ?s h" by (rule ended_inv [OF 3(2) n(1) _ True]) (use n(2) flow(4) in simp)
    moreover have "flow_inv ?s h rest" using flow by (simp add: flow_inv_def open_utterance_def detector_utterance_def)
    ultimately show ?thesis using 3(1) [OF n(1) refl] True n(1) by simp
  next
    case False
    let ?s = "(sink_calls (Sink_failed (se_utterance_id e) (lit ''VoiceInputBackpressure''))
      (s\<lparr>vi_active_utterance_epoch := None\<rparr>))\<lparr>vi_ingress := Ingress_failing rest\<rparr>"
    have "voice_inv ?s"
      by (rule voice_invI [OF refused_inv [OF 3(2) n]])
        (use flow in \<open>simp add: flow_inv_def open_utterance_def detector_utterance_def\<close>)
    then show ?thesis using False n(1) by (simp add: Let_def del: lit_simps)
  qed
next
  case (4 now stream reason rest s)
  have "core_inv ((sink_calls (Sink_capture_stopped stream reason) s)\<lparr>vi_ingress := Ingress_calling rest\<rparr>) h"
    using 4(1) by (simp add: core_inv_def heard_inv_def jobs_inv_def answered_inv_def rest_inv_def detector_inv_def
        limit_of_text_def hears_all_snoc)
  then show ?case
    using 4(2) by (intro voice_invI [of _ h]) (auto simp: flow_inv_def open_utterance_def detector_utterance_def)
qed


text \<open>The beginnings of the calls.\<close>

lemma raises_core:
  assumes "core_inv s h" "e \<noteq> Ended_without_start" "e \<noteq> Detector_failed"
  shows "core_inv (raises e s) h"
  using assms by (auto simp: core_inv_def heard_inv_def jobs_inv_def answered_inv_def rest_inv_def detector_inv_def
      limit_of_text_def raises_def)

lemma raises_inv:
  assumes "voice_inv s" "e \<noteq> Ended_without_start" "e \<noteq> Detector_failed"
  shows "voice_inv (raises e s)"
proof -
  obtain h where h: "core_inv s h" "vi_ingress s \<noteq> Ingress_left \<longrightarrow> flow_inv s h (ingress_steps (vi_ingress s))"
    using assms(1) by (auto simp: voice_inv_def)
  show ?thesis
    by (rule voice_invI [OF raises_core [OF h(1) assms(2,3)]])
      (use h(2) in \<open>simp add: raises_def flow_inv_def open_utterance_def detector_utterance_def\<close>)
qed

lemma free_flow:
  assumes "voice_inv s" "vi_ingress s = Ingress_free"
  obtains h where "core_inv s h" "open_utterance s h = detector_utterance s"
  using assms by (auto simp: voice_inv_def flow_inv_def)

lemma detector_core:
  assumes "core_inv s h" "\<And>v. d = Some v \<Longrightarrow> vad_inv v \<and> va_config v = vp_vad (vi_policy s)"
  shows "core_inv (s\<lparr>vi_detector := d\<rparr>) h"
  using assms by (auto simp: core_inv_def heard_inv_def jobs_inv_def answered_inv_def rest_inv_def detector_inv_def
      limit_of_text_def)

lemma stream_core: "core_inv (s\<lparr>vi_stream_id := u\<rparr>) h = core_inv s h"
  by (simp add: core_inv_def heard_inv_def jobs_inv_def answered_inv_def rest_inv_def detector_inv_def limit_of_text_def)

lemma ensure_worker_core: "core_inv s h \<Longrightarrow> core_inv (ensure_worker s) h"
  by (auto simp: ensure_worker_def core_inv_def heard_inv_def jobs_inv_def answered_inv_def rest_inv_def detector_inv_def
      limit_of_text_def jobs_def)

lemma quiet_call_core:
  assumes "core_inv s h" "hears (limit_of_text s) h c = Some h"
  shows "core_inv (sink_calls c s) h"
  using assms by (simp add: core_inv_def heard_inv_def jobs_inv_def answered_inv_def rest_inv_def detector_inv_def
      limit_of_text_def hears_all_snoc)

lemma idle_detector: "va_utterance_id (vad_init c) = None"
  by (simp add: vad_init_def)

lemma start_stream_inv:
  assumes inv: "voice_inv s" and free: "vi_ingress s = Ingress_free" and none: "vi_stream_id s = None \<longrightarrow> vi_detector s = None"
  shows "voice_inv (start_stream stream fmt s)"
proof (cases "vi_closed s \<or> \<not> vp_enabled (vi_policy s) \<or> vi_stream_id s \<noteq> None \<or> fmt \<noteq> vp_pcm_format (vi_policy s)")
  case True
  then show ?thesis using raises_inv [OF inv] by (auto simp: start_stream_def)
next
  case False
  obtain h where h: "core_inv s h" "open_utterance s h = detector_utterance s" using free_flow [OF inv free] .
  let ?d = "vad_init (Some (vp_vad (vi_policy s)))"
  have d: "vad_inv ?d" "va_config ?d = vp_vad (vi_policy s)"
    using h(1) vad_init_inv [of "Some (vp_vad (vi_policy s))"] by (simp_all add: vad_init_def core_inv_def detector_inv_def)
  let ?s = "ensure_worker (s\<lparr>vi_stream_id := Some stream, vi_detector := Some ?d\<rparr>)"
  have "core_inv ?s h" using h(1) d by (intro ensure_worker_core detector_core) (simp_all add: stream_core)
  then have "core_inv (sink_calls (Sink_capture_started stream fmt) ?s) h" by (rule quiet_call_core) simp
  moreover have "open_utterance s h = None" using h(2) none False by (simp add: detector_utterance_def)
  ultimately show ?thesis
    using False
    by (auto simp: start_stream_def flow_inv_def open_utterance_def detector_utterance_def ids_match_def
        ensure_worker_def idle_detector split: if_splits intro!: voice_invI)
qed

lemma good_ids: "good_events c es \<Longrightarrow> ids_match es"
  by (simp add: good_events_def ids_match_def good_end_def)

lemma step_events_handle: "step_events (map Handle_event es) = es"
  by (induction es) simp_all

lemma process_frame_inv:
  assumes inv: "voice_inv s" and free: "vi_ingress s = Ingress_free" and f: "frame_ok f"
  shows "voice_inv (process_frame nu f now s)"
proof -
  obtain h where h: "core_inv s h" "open_utterance s h = detector_utterance s" using free_flow [OF inv free] .
  have accepts: "voice_inv (ingress_run now (map Handle_event es) (s\<lparr>vi_detector := Some v'\<rparr>))"
    if v: "vi_detector s = Some v" "vad_process nu v f = (Inr es, v')" for v es v'
  proof -
    have vi: "vad_inv v" "va_config v = vp_vad (vi_policy s)" using h(1) v(1) by (simp_all add: core_inv_def detector_inv_def)
    have nr: "\<not> frame_refused v f" using vad_process_refuses [OF vi(1), of f nu] v(2) by auto
    have p: "vad_inv v'" "va_config v' = va_config v" "follows (va_utterance_id v) es (va_utterance_id v')"
      "good_events (va_config v) es"
      using vad_process_ok [OF vi(1) f nr, of nu] v(2) by auto
    show ?thesis
      by (rule ingress_run_inv [of _ h])
        (use h p vi good_ids [OF p(4)] v(1) in
          \<open>auto simp: flow_inv_def open_utterance_def detector_utterance_def step_events_handle intro!: detector_core\<close>)
  qed
  have refuses: "voice_inv (raises (frame_error e) (s\<lparr>vi_detector := Some v'\<rparr>))"
    if v: "vi_detector s = Some v" "vad_process nu v f = (Inl e, v')" for v e v'
  proof -
    have vi: "vad_inv v" using h(1) v(1) by (simp add: core_inv_def detector_inv_def)
    then have "frame_refused v f" using vad_process_ok [OF vi f, of nu] v(2) by auto
    then have val: "validate_stream_frame v f = (Inl e, v')" "v' = v"
      using validate_refuses [of v f] vi v(2) by (auto simp: vad_inv_def vad_process_def)
    then have "frame_error e \<noteq> Ended_without_start \<and> frame_error e \<noteq> Detector_failed"
      using v(1) vi by (auto simp: validate_stream_frame_def split: if_splits option.splits)
    moreover have "s\<lparr>vi_detector := Some v'\<rparr> = s" using v(1) val(2) by simp
    ultimately show ?thesis using raises_inv [OF inv] by simp
  qed
  show ?thesis
    using raises_inv [OF inv] accepts refuses
    by (auto simp: process_frame_def require_detector_def split: option.split sum.split prod.split)
qed

lemma finish_voice_stream_inv:
  assumes inv: "voice_inv s" and free: "vi_ingress s = Ingress_free"
  shows "voice_inv (finish_voice_stream stream reason now s)"
proof -
  obtain h where h: "core_inv s h" "open_utterance s h = detector_utterance s" using free_flow [OF inv free] .
  have main: "\<exists>r v'. vad_finish_stream v = (Inr r, v') \<and> voice_inv (ingress_run now
      ((case r of None \<Rightarrow> [] | Some e \<Rightarrow> [Handle_event (Speech_ended e)]) @ [Report_stopped stream reason])
      (s\<lparr>vi_detector := None, vi_stream_id := None\<rparr>))" if v: "vi_detector s = Some v" for v
  proof -
    have vi: "vad_inv v" using h(1) v by (simp add: core_inv_def detector_inv_def)
    obtain r v' where r: "vad_finish_stream v = (Inr r, v')"
      "case r of None \<Rightarrow> va_utterance_id v = None
       | Some e \<Rightarrow> va_utterance_id v = Some (se_utterance_id e) \<and> good_end (va_config v) e"
      using vad_finish_ok [OF vi] by auto
    have "voice_inv (ingress_run now
      ((case r of None \<Rightarrow> [] | Some e \<Rightarrow> [Handle_event (Speech_ended e)]) @ [Report_stopped stream reason])
      (s\<lparr>vi_detector := None, vi_stream_id := None\<rparr>))"
    proof (rule ingress_run_inv [of _ h])
      show "core_inv (s\<lparr>vi_detector := None, vi_stream_id := None\<rparr>) h" using detector_core [OF h(1), of None] by (simp add: stream_core)
      show "flow_inv (s\<lparr>vi_detector := None, vi_stream_id := None\<rparr>) h
        ((case r of None \<Rightarrow> [] | Some e \<Rightarrow> [Handle_event (Speech_ended e)]) @ [Report_stopped stream reason])"
        using r(2) h(2) v
        by (auto simp: flow_inv_def open_utterance_def detector_utterance_def ids_match_def good_end_def split: option.splits if_splits)
    qed
    then show ?thesis using r(1) by blast
  qed
  show ?thesis
    using raises_inv [OF inv] main
    by (fastforce simp: finish_voice_stream_def require_detector_def split: option.split)
qed

lemma ingress_answered_inv:
  assumes inv: "voice_inv s"
  shows "voice_inv (ingress_answered now answer s)"
proof (cases "vi_ingress s \<noteq> Ingress_left")
  case True
  obtain h where h: "core_inv s h" "flow_inv s h (ingress_steps (vi_ingress s))"
    using inv True by (auto simp: voice_inv_def)
  have left: "voice_inv ((raises Sink_raised s)\<lparr>vi_ingress := Ingress_left\<rparr>)"
    using raises_core [OF h(1), of Sink_raised] by (intro voice_invI) auto
  show ?thesis
    using ingress_run_inv [OF h(1), of _ now] h(2) left inv
    by (auto simp: ingress_answered_def split: ingress.split option.split)
qed (use inv in \<open>simp add: ingress_answered_def\<close>)


section \<open>The worker and the recognition\<close>

text \<open>A step of the worker changes its phase, the queue and what the sink has heard.\<close>

lemma worker_step_inv:
  assumes inv: "core_inv s h"
    and same: "vi_policy t = vi_policy s" "vi_detector t = vi_detector s" "vi_speech_epoch t = vi_speech_epoch s"
      "vi_active_utterance_epoch t = vi_active_utterance_epoch s" "vi_closed t = vi_closed s"
      "vi_raised t = vi_raised s" "vi_worker_cancelled t \<longrightarrow> vi_worker_cancelled s"
    and heard: "hears_all (limit_of_text s) silence (vi_sink t) = Some h'" "hr_utterance h' = hr_utterance h"
    and jobs: "\<exists>xs. jobs s = xs @ jobs t" "set (vi_utterances t) \<subseteq> set (vi_utterances s)"
      "length (vi_utterances t) \<le> length (vi_utterances s)"
    and fresh: "(\<exists>j \<in> set (vi_utterances t). vj_epoch j = vi_speech_epoch s) \<or> vi_active_utterance_epoch s \<noteq> None \<Longrightarrow> fresh h'"
    and phase: "worker_heard (limit_of_text s) (vi_speech_epoch s) (vi_worker t) h'"
    and answered: "(\<exists>j \<in> set (jobs s) - set (jobs t). vj_epoch j = vi_speech_epoch s) \<longrightarrow>
      vi_closed s \<or> hr_final h' \<or> hr_failed h'" "hr_final h \<longrightarrow> hr_final h'" "hr_failed h \<longrightarrow> hr_failed h'"
  shows "core_inv t h'"
proof -
  obtain xs where xs: "jobs s = xs @ jobs t" using jobs(1) by blast
  have "heard_inv t h'" using heard(1) same(1) by (simp add: heard_inv_def limit_of_text_def)
  moreover have "jobs_inv t h'"
    using inv same heard(2) fresh phase xs jobs(2)
    by (auto simp: core_inv_def jobs_inv_def limit_of_text_def sorted_wrt_append)
  moreover have "answered_inv t h'"
    using inv same answered by (auto simp: core_inv_def answered_inv_def)
  ultimately show ?thesis
    using inv same jobs(3) by (auto simp: core_inv_def detector_inv_def rest_inv_def)
qed


lemma current_job_facts:
  assumes "core_inv s h" "worker_jobs (vi_worker s) = [j]" "vj_epoch j = vi_speech_epoch s"
  shows "hr_utterance h = Some (ut_utterance_id (vj_utterance j))" "vi_active_utterance_epoch s = None"
    "\<forall>q \<in> set (vi_utterances s). vj_epoch q \<noteq> vi_speech_epoch s"
proof -
  have j: "jobs s = j # vi_utterances s" using assms(2) by (simp add: jobs_def)
  show "hr_utterance h = Some (ut_utterance_id (vj_utterance j))"
    using assms(1,3) j by (auto simp: core_inv_def jobs_inv_def)
  show "vi_active_utterance_epoch s = None"
    using assms(1,3) j by (cases "vi_active_utterance_epoch s") (auto simp: core_inv_def jobs_inv_def)
  show "\<forall>q \<in> set (vi_utterances s). vj_epoch q \<noteq> vi_speech_epoch s"
    using assms(1,3) j by (auto simp: core_inv_def jobs_inv_def)
qed

lemma core_heard: "core_inv s h \<Longrightarrow> hears_all (limit_of_text s) silence (vi_sink s) = Some h"
  by (simp add: core_inv_def heard_inv_def)

lemma core_worker: "core_inv s h \<Longrightarrow> worker_heard (limit_of_text s) (vi_speech_epoch s) (vi_worker s) h"
  by (simp add: core_inv_def jobs_inv_def)

lemma core_fresh:
  "core_inv s h \<Longrightarrow> (\<exists>j \<in> set (vi_utterances s). vj_epoch j = vi_speech_epoch s) \<or> vi_active_utterance_epoch s \<noteq> None \<Longrightarrow> fresh h"
  by (auto simp: core_inv_def jobs_inv_def)

text \<open>Steps within a recognition that the sink does not hear.\<close>

lemma silent_step_inv:
  assumes inv: "core_inv s h" and w: "vi_worker s = Worker_recognizing j r"
    and t: "t = s\<lparr>vi_active_asr := a, vi_recognition_cancelled := c, vi_worker := Worker_recognizing j r'\<rparr>"
    and phase: "kept_final (limit_of_text s) j r'"
      "vj_epoch j = vi_speech_epoch s \<Longrightarrow> phase_heard (limit_of_text s) j r h \<Longrightarrow> phase_heard (limit_of_text s) j r' h"
  shows "core_inv t h"
proof -
  have "worker_heard (limit_of_text s) (vi_speech_epoch s) (vi_worker t) h"
    using core_worker [OF inv] w phase t by simp
  then show ?thesis
    using core_heard [OF inv] core_fresh [OF inv] w
    by (intro worker_step_inv [OF inv]) (auto simp: t jobs_def intro: exI [of _ "[]"])
qed

lemma recognition_ends_inv:
  assumes inv: "core_inv s h" and w: "vi_worker s = Worker_recognizing j r"
    and phase: "vj_epoch j = vi_speech_epoch s \<Longrightarrow> phase_heard (limit_of_text s) j r h \<Longrightarrow>
      \<not> hr_failed h \<and> (e = None \<longrightarrow> hr_final h)"
  shows "core_inv (recognition_ends j now e s) h"
  unfolding recognition_ends_def
  by (rule silent_step_inv [OF inv w refl]) (use phase in auto)

lemma phase_not_failed: "phase_heard limit j r h \<Longrightarrow> \<not> hr_failed h"
  by (cases r) (auto simp: fresh_def)

text \<open>A step in which the sink hears a transcript of the current utterance, or the failure of its recognition.\<close>

lemma heard_step_inv:
  assumes inv: "core_inv s h" and w: "worker_jobs (vi_worker s) = [j]" "vj_epoch j = vi_speech_epoch s"
    and c: "hears (limit_of_text s) h c = Some h'" "hr_utterance h' = hr_utterance h"
      "hr_final h \<longrightarrow> hr_final h'" "hr_failed h \<longrightarrow> hr_failed h'"
    and t: "t = (sink_calls c s)\<lparr>vi_worker := w'\<rparr>" "worker_jobs w' = [j]"
      "worker_heard (limit_of_text s) (vi_speech_epoch s) w' h'"
  shows "core_inv t h'"
  using current_job_facts [OF inv w] core_heard [OF inv] c w t(2,3)
  by (intro worker_step_inv [OF inv]) (auto simp: t(1) jobs_def hears_all_snoc intro: exI [of _ "[]"])

lemma recognition_receives_inv:
  assumes inv: "core_inv s h" and w: "vi_worker s = Worker_recognizing j (Rec_streaming revision final)"
  shows "\<exists>h'. core_inv (recognition_receives j revision final now reply s) h' \<and>
    hr_utterance h' = hr_utterance h"
proof -
  have wj: "worker_jobs (vi_worker s) = [j]" using w by simp
  have kept: "kept_final (limit_of_text s) j (Rec_streaming revision final)"
    and phase: "vj_epoch j = vi_speech_epoch s \<Longrightarrow> hr_revision h = revision \<and> \<not> hr_final h \<and> \<not> hr_failed h"
    using core_worker [OF inv] w by simp_all
  have fails: "core_inv (recognition_ends j now (Some e) s) h" for e
    by (rule recognition_ends_inv [OF inv w]) (use phase in auto)
  have stale: "core_inv (recognition_ends j now None s) h" if "vj_epoch j \<noteq> vi_speech_epoch s"
    by (rule recognition_ends_inv [OF inv w]) (use that in auto)
  show ?thesis
  proof (cases reply)
    case (Asr_event e)
    show ?thesis
    proof (cases "event_utterance e \<noteq> ut_utterance_id (vj_utterance j) \<or> vj_epoch j \<noteq> vi_speech_epoch s \<or> final \<noteq> None \<or>
        vp_max_transcript_chars (vi_policy s) < int (length (event_text e))")
      case True
      then show ?thesis using Asr_event fails stale by (auto simp: recognition_receives_def)
    next
      case ok: False
      then have cur: "vj_epoch j = vi_speech_epoch s" by blast
      note facts = current_job_facts [OF inv wj cur]
      show ?thesis
      proof (cases e)
        case (Asr_partial p)
        show ?thesis
        proof (cases "ap_revision p \<le> revision")
          case True
          then show ?thesis using Asr_event Asr_partial ok fails by (auto simp: recognition_receives_def)
        next
          case False
          let ?h = "h\<lparr>hr_revision := ap_revision p\<rparr>"
          have "core_inv ((sink_calls (Sink_partial p) s)
              \<lparr>vi_worker := Worker_recognizing j (Rec_partial (ap_revision p) final)\<rparr>) ?h"
            by (rule heard_step_inv [OF inv wj cur _ _ _ _ refl])
              (use False ok phase [OF cur] facts Asr_partial in \<open>auto simp: limit_of_text_def\<close>)
          then show ?thesis using Asr_event Asr_partial ok False by (auto simp: recognition_receives_def)
        qed
      next
        case (Asr_final f)
        have "core_inv (s\<lparr>vi_worker := Worker_recognizing j (Rec_streaming revision (Some f))\<rparr>) h"
          by (rule silent_step_inv [OF inv w, where a = "vi_active_asr s" and c = "vi_recognition_cancelled s"])
            (use ok Asr_final in \<open>auto simp: limit_of_text_def\<close>)
        then show ?thesis using Asr_event Asr_final ok by (auto simp: recognition_receives_def)
      qed
    qed
  next
    case Asr_end
    show ?thesis
    proof (cases final)
      case None
      then show ?thesis using Asr_end fails by (auto simp: recognition_receives_def)
    next
      case (Some f)
      show ?thesis
      proof (cases "vj_epoch j = vi_speech_epoch s")
        case True
        note facts = current_job_facts [OF inv wj True]
        let ?h = "h\<lparr>hr_final := True\<rparr>"
        have "core_inv ((sink_calls (Sink_final f) s)\<lparr>vi_worker := Worker_recognizing j Rec_final\<rparr>) ?h"
          by (rule heard_step_inv [OF inv wj True _ _ _ _ refl]) (use phase [OF True] facts kept Some in auto)
        then show ?thesis using Asr_end Some True by (auto simp: recognition_receives_def)
      qed (use Asr_end Some stale in \<open>auto simp: recognition_receives_def\<close>)
    qed
  next
    case (Asr_raised e)
    then show ?thesis using fails by (auto simp: recognition_receives_def)
  qed
qed

text \<open>The worker leaves its job.\<close>

lemma next_job_inv:
  assumes inv: "core_inv s h" and w: "worker_jobs (vi_worker s) = [j]"
    and answered: "vj_epoch j = vi_speech_epoch s \<longrightarrow> vi_closed s \<or> hr_final h \<or> hr_failed h"
  shows "core_inv (next_job s) h" "core_inv (worker_ends s) h"
proof -
  have js: "jobs s = [j] @ vi_utterances s" using w by (simp add: jobs_def)
  show "core_inv (next_job s) h"
    by (rule worker_step_inv [OF inv])
      (use core_heard [OF inv] core_fresh [OF inv] answered js in \<open>auto simp: next_job_def jobs_def\<close>)
  show "core_inv (worker_ends s) h"
    by (rule worker_step_inv [OF inv])
      (use core_heard [OF inv] core_fresh [OF inv] answered js in \<open>auto simp: worker_ends_def jobs_def\<close>)
qed

lemma worker_resumes_inv:
  assumes inv: "core_inv s h" and w: "vi_worker s = Worker_recognizing j (Rec_ended r)"
  shows "\<exists>h'. core_inv (worker_resumes j r s) h' \<and> hr_utterance h' = hr_utterance h"
proof -
  have wj: "worker_jobs (vi_worker s) = [j]" using w by simp
  have phase: "vj_epoch j = vi_speech_epoch s \<Longrightarrow> \<not> hr_failed h \<and> (r = None \<longrightarrow> hr_final h)"
    using core_worker [OF inv] w by simp
  have closed: "vi_worker_cancelled s \<Longrightarrow> vi_closed s" using inv by (simp add: core_inv_def rest_inv_def)
  have reports: "\<exists>h'. core_inv ((sink_calls (Sink_failed (ut_utterance_id (vj_utterance j)) name) s)
      \<lparr>vi_worker := Worker_reporting j\<rparr>) h' \<and> hr_utterance h' = hr_utterance h"
    if cur: "vj_epoch j = vi_speech_epoch s" for name
  proof -
    let ?h = "h\<lparr>hr_failed := True\<rparr>"
    have "core_inv ((sink_calls (Sink_failed (ut_utterance_id (vj_utterance j)) name) s)
        \<lparr>vi_worker := Worker_reporting j\<rparr>) ?h"
      by (rule heard_step_inv [OF inv wj cur _ _ _ _ refl])
        (use phase [OF cur] current_job_facts [OF inv wj cur] in auto)
    then show ?thesis by (intro exI [of _ ?h]) simp
  qed
  show ?thesis
    using next_job_inv [OF inv wj] closed phase reports
    by (auto simp: worker_resumes_def Let_def split: option.split)
qed

lemma worker_gets_inv:
  assumes inv: "core_inv s h" and w: "vi_worker s = Worker_getting"
  shows "core_inv (worker_gets s) h"
proof (cases "vi_worker_cancelled s")
  case True
  then have "vi_closed s" using inv by (simp add: core_inv_def rest_inv_def)
  then have "core_inv (worker_ends s) h"
    by (intro worker_step_inv [OF inv])
      (use core_heard [OF inv] core_fresh [OF inv] w in \<open>auto simp: worker_ends_def jobs_def intro: exI [of _ "[]"]\<close>)
  then show ?thesis using True by (simp add: worker_gets_def)
next
  case False
  show ?thesis
  proof (cases "vi_utterances s")
    case Nil
    then show ?thesis using False inv by (simp add: worker_gets_def)
  next
    case (Cons j js)
    have js: "jobs s = j # js" using w Cons by (simp add: jobs_def)
    show ?thesis
    proof (cases "vj_epoch j = vi_speech_epoch s")
      case True
      have "fresh h" using core_fresh [OF inv] Cons True by auto
      then have "core_inv (s\<lparr>vi_utterances := js, vi_worker := Worker_recognizing j Rec_created\<rparr>) h"
        by (intro worker_step_inv [OF inv])
          (use core_heard [OF inv] js Cons in \<open>auto simp: jobs_def intro: exI [of _ "[]"]\<close>)
      then show ?thesis using False Cons True by (simp add: worker_gets_def)
    next
      case stale: False
      have "core_inv (next_job (s\<lparr>vi_utterances := js\<rparr>)) h"
        by (rule worker_step_inv [OF inv])
          (use core_heard [OF inv] core_fresh [OF inv] js Cons stale in \<open>auto simp: jobs_def next_job_def\<close>)
      then show ?thesis using False Cons stale by (simp add: worker_gets_def)
    qed
  qed
qed

end
