(* ===== verification/VoiceInputRun.thy ===== *)
theory VoiceInputRun
  imports VoiceInputInv "HOL-Library.Code_Target_Nat" "HOL-Library.Code_Target_Int"
begin

text \<open>Every step of the voice input coordinator keeps its invariant; the properties of its runs.\<close>

section \<open>Steps\<close>

text \<open>The detector exists while a stream is captured, and not otherwise.\<close>

definition capture_inv :: "voice_input \<Rightarrow> bool" where
  "capture_inv s \<longleftrightarrow> (vi_detector s = None \<longleftrightarrow> vi_stream_id s = None)"

definition coordinator_inv :: "voice_input \<Rightarrow> bool" where
  "coordinator_inv s \<longleftrightarrow> voice_inv s \<and> capture_inv s"

lemma ingress_run_capture: "capture_inv (ingress_run now steps s) = capture_inv s"
  by (induction now steps s rule: ingress_run.induct)
    (auto simp: capture_inv_def Let_def sink_calls_def supersede_recognition_def cancel_recognition_def raises_def
      split: option.split)

lemma start_capture: "capture_inv s \<Longrightarrow> capture_inv (start_stream stream fmt s)"
  by (auto simp: start_stream_def capture_inv_def raises_def sink_calls_def ensure_worker_def)

lemma frame_capture:
  assumes "capture_inv s"
  shows "capture_inv (process_frame nu f now s)"
proof -
  have "capture_inv (raises e s)" for e using assms by (simp add: capture_inv_def raises_def)
  moreover have "capture_inv (raises e (s\<lparr>vi_detector := Some v\<rparr>)) \<and>
      capture_inv (ingress_run now steps (s\<lparr>vi_detector := Some v\<rparr>))"
    if "require_detector s = Some w" for e v w steps
  proof -
    have "vi_stream_id s \<noteq> None" using that by (auto simp: require_detector_def split: if_splits)
    then show ?thesis unfolding ingress_run_capture by (auto simp: capture_inv_def raises_def)
  qed
  ultimately show ?thesis by (auto simp: process_frame_def split: option.split sum.split prod.split)
qed

lemma finish_capture:
  assumes "capture_inv s"
  shows "capture_inv (finish_voice_stream stream reason now s)"
proof -
  have "capture_inv (raises e s)" for e using assms by (simp add: capture_inv_def raises_def)
  moreover have "capture_inv (raises e (s\<lparr>vi_detector := Some v\<rparr>)) \<and>
      capture_inv (ingress_run now steps (s\<lparr>vi_detector := None, vi_stream_id := None\<rparr>))"
    if "require_detector s = Some w" for e v w steps
  proof -
    have "vi_stream_id s \<noteq> None" using that by (auto simp: require_detector_def split: if_splits)
    then show ?thesis unfolding ingress_run_capture by (auto simp: capture_inv_def raises_def)
  qed
  ultimately show ?thesis by (auto simp: finish_voice_stream_def split: option.split sum.split prod.split)
qed

lemma worker_views:
  assumes "core_inv s h" "core_inv t h'" "hr_utterance h' = hr_utterance h" "vi_ingress t = vi_ingress s"
    "vi_detector t = vi_detector s" "vi_active_utterance_epoch t = vi_active_utterance_epoch s"
    and "vi_ingress s \<noteq> Ingress_left \<Longrightarrow> flow_inv s h (ingress_steps (vi_ingress s))"
  shows "voice_inv t"
  by (rule voice_invI [OF assms(2)])
    (use assms(3-) in \<open>auto simp: flow_inv_def open_utterance_def detector_utterance_def\<close>)

text \<open>What the steps of the worker and of the recognition leave alone.\<close>

definition same_client :: "voice_input \<Rightarrow> voice_input \<Rightarrow> bool" where
  "same_client s t \<longleftrightarrow> vi_ingress t = vi_ingress s \<and> vi_detector t = vi_detector s \<and> vi_stream_id t = vi_stream_id s \<and>
     vi_active_utterance_epoch t = vi_active_utterance_epoch s"

lemma same_client_worker:
  "same_client s (worker_gets s)" "same_client s (recognition_begins j s)" "same_client s (worker_resumes j r s)"
  "same_client s (worker_reported answer s)" "same_client s (recognition_ends j now r s)"
  "same_client s (recognition_receives j revision final now reply s)"
  by (auto simp: same_client_def worker_gets_def recognition_begins_def worker_resumes_def worker_reported_def
      recognition_ends_def recognition_receives_def next_job_def worker_ends_def sink_calls_def Let_def
      split: list.split option.split asr_reply.split AsrStreamEvent.split)

lemma recognition_begins_inv:
  assumes inv: "core_inv s h" and w: "vi_worker s = Worker_recognizing j Rec_created"
  shows "core_inv (recognition_begins j s) h"
proof (cases "vi_recognition_cancelled s")
  case True
  have "core_inv (s\<lparr>vi_recognition_cancelled := False, vi_worker := Worker_recognizing j (Rec_ended (Some Fail_cancelled))\<rparr>) h"
    by (rule silent_step_inv [OF inv w, where a = "vi_active_asr s" and c = False]) (auto simp: fresh_def)
  then show ?thesis using True by (simp add: recognition_begins_def)
next
  case False
  let ?a = "case source_init 0 of Inl _ \<Rightarrow> None | Inr src \<Rightarrow> Some src"
  have "core_inv (s\<lparr>vi_active_asr := ?a, vi_worker := Worker_recognizing j (Rec_streaming (-1) None)\<rparr>) h"
    by (rule silent_step_inv [OF inv w, where a = ?a and c = "vi_recognition_cancelled s"]) (auto simp: fresh_def)
  then show ?thesis using False by (simp add: recognition_begins_def)
qed

definition voice_op_ok :: "voice_op \<Rightarrow> bool" where
  "voice_op_ok p \<longleftrightarrow> (\<forall>f now. p = Op_frame f now \<longrightarrow> frame_ok f)"

lemma worker_step_coordinator:
  assumes "coordinator_inv s" "same_client s t"
    and "\<And>h. core_inv s h \<Longrightarrow> \<exists>h'. core_inv t h' \<and> hr_utterance h' = hr_utterance h"
  shows "coordinator_inv t"
proof -
  obtain h where h: "core_inv s h" "vi_ingress s \<noteq> Ingress_left \<Longrightarrow> flow_inv s h (ingress_steps (vi_ingress s))"
    using assms(1) by (auto simp: coordinator_inv_def voice_inv_def)
  obtain h' where h': "core_inv t h'" "hr_utterance h' = hr_utterance h" using assms(3) [OF h(1)] by blast
  have "voice_inv t" using worker_views [OF h(1) h' _ _ _ h(2)] assms(2) by (auto simp: same_client_def)
  then show ?thesis using assms(1,2) by (simp add: coordinator_inv_def same_client_def capture_inv_def)
qed

lemma close_inv:
  assumes "coordinator_inv s"
  shows "coordinator_inv (voice_close now s)"
proof -
  obtain h where h: "core_inv s h" using assms by (auto simp: coordinator_inv_def voice_inv_def)
  have "core_inv t h"
    if "vi_policy t = vi_policy s" "vi_detector t = None" "vi_utterances t = vi_utterances s" "vi_worker t = vi_worker s"
      "vi_speech_epoch t = vi_speech_epoch s" "vi_active_utterance_epoch t = None" "vi_closed t" "vi_sink t = vi_sink s"
      "vi_raised t = vi_raised s" for t
    using h that by (simp add: core_inv_def heard_inv_def jobs_inv_def answered_inv_def rest_inv_def detector_inv_def
        limit_of_text_def jobs_def)
  then have "voice_inv (voice_close now s)" if "\<not> vi_closed s"
    using that
    by (auto simp: voice_close_def Let_def cancel_recognition_def intro!: voice_invI [of _ h]
        split: asr_worker.split recognition.split)
  then show ?thesis
    using assms by (cases "vi_closed s")
      (auto simp: coordinator_inv_def capture_inv_def voice_close_def Let_def cancel_recognition_def
        split: asr_worker.split recognition.split)
qed

lemma drain_inv:
  assumes "coordinator_inv s"
  shows "coordinator_inv (close_drains s)"
proof (cases "vi_closed s \<and> (vi_worker s = Worker_none \<or> vi_worker s = Worker_ended)")
  case True
  then have c: "close_drains s = s\<lparr>vi_utterances := []\<rparr>" by (simp add: close_drains_def)
  show ?thesis
  proof (rule worker_step_coordinator [OF assms])
    fix h assume h: "core_inv s h"
    have "jobs s = vi_utterances s" using True by (auto simp: jobs_def)
    then have "core_inv (close_drains s) h"
      by (intro worker_step_inv [OF h])
        (use core_heard [OF h] core_fresh [OF h] core_worker [OF h] True in \<open>auto simp: c jobs_def\<close>)
    then show "\<exists>h'. core_inv (close_drains s) h' \<and> hr_utterance h' = hr_utterance h" by blast
  qed (simp add: c same_client_def)
next
  case False
  then have "close_drains s = s" unfolding close_drains_def by (simp only: if_False)
  then show ?thesis using assms by simp
qed

lemma voice_step_inv:
  assumes inv: "coordinator_inv s" and ok: "voice_op_ok p"
  shows "coordinator_inv (voice_step nu s p)"
proof -
  have v: "voice_inv s" and c: "capture_inv s" using inv by (simp_all add: coordinator_inv_def)
  note step = worker_step_coordinator [OF inv]
  show ?thesis
  proof (cases p)
    case (Op_start stream fmt)
    then show ?thesis
      using start_stream_inv [OF v] start_capture [OF c] inv c by (auto simp: coordinator_inv_def capture_inv_def)
  next
    case (Op_frame f now)
    then show ?thesis
      using process_frame_inv [OF v] frame_capture [OF c] inv ok by (auto simp: coordinator_inv_def voice_op_ok_def)
  next
    case (Op_finish stream reason now)
    then show ?thesis using finish_voice_stream_inv [OF v] finish_capture [OF c] inv by (auto simp: coordinator_inv_def)
  next
    case (Op_answer answer now)
    have "capture_inv (ingress_answered now answer s)"
      using c ingress_run_capture [of now _ s]
      by (auto simp: ingress_answered_def capture_inv_def raises_def split: ingress.split option.split)
    then show ?thesis using Op_answer ingress_answered_inv [OF v] by (simp add: coordinator_inv_def)
  next
    case Op_worker_get
    then show ?thesis using step [OF same_client_worker(1)] worker_gets_inv inv by auto
  next
    case Op_recognition_begin
    have "coordinator_inv (recognition_begins j s)" if "vi_worker s = Worker_recognizing j Rec_created" for j
      using step [OF same_client_worker(2)] recognition_begins_inv [OF _ that] by blast
    then show ?thesis using Op_recognition_begin inv by (auto split: asr_worker.split recognition.split)
  next
    case (Op_asr_reply reply now)
    then show ?thesis
      using step [OF same_client_worker(6)] recognition_receives_inv inv
      by (auto split: asr_worker.split recognition.split)
  next
    case (Op_asr_timeout now)
    have "coordinator_inv (recognition_ends j now (Some Fail_timeout) s)"
      if "vi_worker s = Worker_recognizing j r" "r \<noteq> Rec_ended x" for j r x
      by (rule step [OF same_client_worker(5)])
        (use recognition_ends_inv [OF _ that(1), of _ "Some Fail_timeout"] phase_not_failed in blast)
    then show ?thesis using Op_asr_timeout inv by (auto split: asr_worker.split recognition.split)
  next
    case (Op_sink_answer answer now)
    have ends: "coordinator_inv (recognition_ends j now e s)"
      if "vi_worker s = Worker_recognizing j r" "e = None \<longrightarrow> r = Rec_final" for j r e
      by (rule step [OF same_client_worker(5)])
        (use recognition_ends_inv [OF _ that(1), of _ e] phase_not_failed that(2) in \<open>metis phase_heard.simps(4)\<close>)
    have streams: "coordinator_inv (s\<lparr>vi_worker := Worker_recognizing j (Rec_streaming revision final)\<rparr>)"
      if w: "vi_worker s = Worker_recognizing j (Rec_partial revision final)" for j revision final
    proof (rule step)
      fix h assume h: "core_inv s h"
      have "final = None" using core_worker [OF h] w by (cases final) auto
      then have "core_inv (s\<lparr>vi_worker := Worker_recognizing j (Rec_streaming revision final)\<rparr>) h"
        by (intro silent_step_inv [OF h w, where a = "vi_active_asr s" and c = "vi_recognition_cancelled s"]) auto
      then show "\<exists>h'. core_inv (s\<lparr>vi_worker := Worker_recognizing j (Rec_streaming revision final)\<rparr>) h' \<and>
          hr_utterance h' = hr_utterance h" by blast
    qed (simp add: same_client_def)
    show ?thesis
      using Op_sink_answer ends streams inv by (auto split: asr_worker.split recognition.split option.split)
  next
    case Op_worker_resume
    then show ?thesis
      using step [OF same_client_worker(3)] worker_resumes_inv inv by (auto split: asr_worker.split recognition.split)
  next
    case (Op_worker_reported answer)
    have "coordinator_inv (worker_reported answer s)" if w: "vi_worker s = Worker_reporting j" for j
    proof (rule step [OF same_client_worker(4)])
      fix h assume h: "core_inv s h"
      have "core_inv (worker_reported answer s) h"
        using next_job_inv [OF h, of j] core_worker [OF h] w by (auto simp: worker_reported_def)
      then show "\<exists>h'. core_inv (worker_reported answer s) h' \<and> hr_utterance h' = hr_utterance h" by blast
    qed
    then show ?thesis using Op_worker_reported inv by (auto split: asr_worker.split)
  next
    case (Op_close now)
    then show ?thesis using close_inv [OF inv] by simp
  next
    case Op_close_drain
    then show ?thesis using drain_inv [OF inv] by simp
  qed
qed

definition voice_apply :: "(uuid \<Rightarrow> pystr \<Rightarrow> uuid) \<Rightarrow> voice_input \<Rightarrow> voice_op \<Rightarrow> voice_input" where
  "voice_apply nu s p = (if voice_op_ok p then voice_step nu s p else s)"

interpretation coordinator: op_system "voice_apply nu" coordinator_inv for nu
  by unfold_locales (simp add: voice_apply_def voice_step_inv)

definition voice_run :: "(uuid \<Rightarrow> pystr \<Rightarrow> uuid) \<Rightarrow> VoiceInputPolicy \<Rightarrow> voice_op list \<Rightarrow> voice_input" where
  "voice_run nu p ps = foldl (voice_step nu) (voice_init p) ps"

lemma voice_run_inv:
  assumes "check_vad_config (vp_vad p) = None" "\<forall>q \<in> set ps. voice_op_ok q"
  shows "coordinator_inv (voice_run nu p ps)"
proof -
  have "coordinator_inv (voice_init p)"
    using voice_init_inv [OF assms(1)] by (simp add: coordinator_inv_def capture_inv_def voice_init_def)
  then have "coordinator_inv (coordinator.run nu (voice_init p) ps)" by (rule coordinator.run_inv)
  moreover have "coordinator.run nu s ps = foldl (voice_step nu) s ps" for s
    using assms(2) unfolding coordinator.run_def by (induction ps arbitrary: s) (simp_all add: voice_apply_def)
  ultimately show ?thesis by (simp add: voice_run_def)
qed


lemma ingress_run_policy: "vi_policy (ingress_run now steps s) = vi_policy s"
  by (induction now steps s rule: ingress_run.induct) (auto simp: Let_def sink_calls_def raises_def split: option.split)

lemma voice_step_policy: "vi_policy (voice_step nu s p) = vi_policy s"
  by (cases p)
    (auto simp: start_stream_def process_frame_def finish_voice_stream_def ingress_answered_def worker_gets_def recognition_begins_def
      recognition_receives_def recognition_ends_def worker_resumes_def worker_reported_def next_job_def worker_ends_def
      voice_close_def close_drains_def cancel_recognition_def ensure_worker_def raises_def sink_calls_def ingress_run_policy Let_def
      split: option.split sum.split prod.split list.split ingress.split asr_worker.split recognition.split asr_reply.split
        AsrStreamEvent.split)

lemma voice_run_policy: "vi_policy (voice_run nu p ps) = p"
proof -
  have "vi_policy (foldl (voice_step nu) s ps) = vi_policy s" for s
    by (induction ps arbitrary: s) (simp_all add: voice_step_policy)
  then show ?thesis by (simp add: voice_run_def voice_init_def)
qed

section \<open>Properties\<close>

text \<open>C14: Whatever the client, the recognizer and the sink do, and in whatever order the three tasks take
  their steps, the sink hears transcripts and failures of the utterance that was started last only: partial
  transcripts with increasing revisions, then at most one final transcript, then at most one failure, all within
  the limit on characters; and there are never more utterances queued than the policy admits.\<close>
theorem voice_sink_protocol:
  assumes "check_vad_config (vp_vad p) = None" and "\<forall>q \<in> set ps. voice_op_ok q"
    and "1 \<le> vp_max_pending_utterances p"
  shows "hears_all (vp_max_transcript_chars p) silence (vi_sink (voice_run nu p ps)) \<noteq> None \<and>
    int (length (vi_utterances (voice_run nu p ps))) \<le> vp_max_pending_utterances p"
proof -
  obtain h where "core_inv (voice_run nu p ps) h"
    using voice_run_inv [OF assms(1,2)] by (auto simp: coordinator_inv_def voice_inv_def)
  then show ?thesis
    using assms(3) by (simp add: core_inv_def heard_inv_def rest_inv_def limit_of_text_def voice_run_policy)
qed

text \<open>C15: An utterance that ended is not forgotten: when the coordinator is open, no speech is being
  recorded, the queue is empty and the worker waits, the utterance started last has had a final transcript or a
  report of its failure.\<close>
theorem voice_utterance_answered:
  assumes "check_vad_config (vp_vad p) = None" and "\<forall>q \<in> set ps. voice_op_ok q"
    and "voice_run nu p ps = s" and "vi_worker s = Worker_getting" and "vi_utterances s = []"
    and "\<not> vi_closed s" and "vi_active_utterance_epoch s = None" and "vi_speech_epoch s \<noteq> 0"
  shows "\<exists>h. hears_all (vp_max_transcript_chars p) silence (vi_sink s) = Some h \<and> (hr_final h \<or> hr_failed h)"
proof -
  obtain h where h: "core_inv s h"
    using voice_run_inv [OF assms(1,2), of nu] assms(3) by (auto simp: coordinator_inv_def voice_inv_def)
  have "vi_policy s = p" using voice_run_policy assms(3) by blast
  moreover have "jobs s = []" using assms(4,5) by (simp add: jobs_def)
  ultimately show ?thesis
    using h assms(6-8) by (auto simp: core_inv_def heard_inv_def answered_inv_def limit_of_text_def)
qed

text \<open>The internal errors are unreachable: the detector never ends an utterance that the coordinator has not
  seen start, and never fails on a frame or at the end of a stream.\<close>
theorem voice_internal_errors_unreachable:
  assumes "check_vad_config (vp_vad p) = None" and "\<forall>q \<in> set ps. voice_op_ok q"
  shows "Ended_without_start \<notin> set (vi_raised (voice_run nu p ps)) \<and>
    Detector_failed \<notin> set (vi_raised (voice_run nu p ps))"
  using voice_run_inv [OF assms] by (auto simp: coordinator_inv_def voice_inv_def core_inv_def rest_inv_def)

section \<open>A long utterance\<close>

text \<open>
  Frames of one millisecond, at most two of them in an utterance, and a speaker who goes on: the third frame
  starts a new utterance, before the worker has taken the first (had it, the recognition would be cancelled).
\<close>

definition demo_voice_policy :: VoiceInputPolicy where
  "demo_voice_policy =
     \<lparr>vp_enabled = True, vp_pcm_format = \<lparr>pf_sample_rate_hz = 8000, pf_channels = 1, pf_encoding = S16_LE\<rparr>,
      vp_frame_duration_ms = 1, vp_max_frame_bytes = 16,
      vp_vad = \<lparr>vc_speech_start_threshold = 1200, vc_speech_end_threshold = 700, vc_speech_start_frames = 1,
        vc_speech_end_frames = 1, vc_pre_roll_frames = 0, vc_max_utterance_duration_ms = 1000, vc_max_utterance_bytes = 32\<rparr>,
      vp_asr_timeout_ms = 1000, vp_max_pending_utterances = 2, vp_max_transcript_chars = 100, vp_barge_in_enabled = True\<rparr>"

definition speech_frame :: "int \<Rightarrow> PcmFrame" where
  "speech_frame n = \<lparr>fr_stream_id = 7, fr_sequence = n, fr_captured_at_ns = n * 1000000,
     fr_format = \<lparr>pf_sample_rate_hz = 8000, pf_channels = 1, pf_encoding = S16_LE\<rparr>,
     fr_pcm = [0, 64, 0, 64, 0, 64, 0, 64, 0, 64, 0, 64, 0, 64, 0, 64]\<rparr>"

definition long_speech_ops :: "voice_op list" where
  "long_speech_ops =
     [Op_start 7 \<lparr>pf_sample_rate_hz = 8000, pf_channels = 1, pf_encoding = S16_LE\<rparr>, Op_answer None 0,
      Op_frame (speech_frame 0) 1, Op_answer None 1, Op_frame (speech_frame 1) 2,
      Op_frame (speech_frame 2) 3, Op_worker_get]"

definition long_speech :: voice_input where
  "long_speech = voice_run (\<lambda>s n. s) demo_voice_policy long_speech_ops"

lemma long_speech_ok: "\<forall>q \<in> set long_speech_ops. voice_op_ok q"
  by (simp add: long_speech_ops_def voice_op_ok_def speech_frame_def frame_ok_def check_pcm_format_def check_pcm_frame_def
      fr_len_def bytes_per_sample_frame_def)

lemma demo_voice_policy_ok:
  "check_vad_config (vp_vad demo_voice_policy) = None" "check_voice_policy demo_voice_policy = None"
  by (simp_all add: demo_voice_policy_def check_vad_config_def config_fields_def check_voice_policy_def bytes_per_sample_frame_def)

text \<open>The kinds of the calls the sink has heard.\<close>

datatype call_kind = Heard_capture | Heard_start int | Heard_transcript | Heard_failure

fun heard_kind :: "sink_call \<Rightarrow> call_kind" where
  "heard_kind (Sink_speech_started e b) = Heard_start (ss_trigger_sequence e)"
| "heard_kind (Sink_partial p) = Heard_transcript"
| "heard_kind (Sink_final f) = Heard_transcript"
| "heard_kind (Sink_failed u name) = Heard_failure"
| "heard_kind _ = Heard_capture"

definition summary ::
  "voice_input \<Rightarrow> call_kind list \<times> bool \<times> bool \<times> bool \<times> bool \<times> nat" where
  "summary s = (map heard_kind (vi_sink s), vi_utterances s = [], vi_worker s = Worker_getting, vi_closed s,
     vi_active_utterance_epoch s = None, vi_speech_epoch s)"

text \<open>The theorems at this run, and at one in which the recognition fails.\<close>

theorem voice_sink_protocol_witness:
  "hears_all 100 silence (vi_sink long_speech) \<noteq> None"
  using voice_sink_protocol [OF demo_voice_policy_ok(1) long_speech_ok, of "\<lambda>s n. s"]
  by (simp add: long_speech_def demo_voice_policy_def)

definition failed_speech_ops :: "voice_op list" where
  "failed_speech_ops =
     [Op_start 7 \<lparr>pf_sample_rate_hz = 8000, pf_channels = 1, pf_encoding = S16_LE\<rparr>, Op_answer None 0,
      Op_frame (speech_frame 0) 1, Op_answer None 1, Op_frame (speech_frame 1) 2,
      Op_worker_get, Op_recognition_begin, Op_asr_timeout 3, Op_worker_resume, Op_worker_reported None]"

lemma failed_speech_ok: "\<forall>q \<in> set failed_speech_ops. voice_op_ok q"
  by (simp add: failed_speech_ops_def voice_op_ok_def speech_frame_def frame_ok_def check_pcm_format_def check_pcm_frame_def
      fr_len_def bytes_per_sample_frame_def)

lemma failed_speech_summary:
  "summary (voice_run (\<lambda>s n. s) demo_voice_policy failed_speech_ops) =
     ([Heard_capture, Heard_start 0, Heard_failure], True, True, False, True, 1)"
  by code_simp

theorem voice_utterance_answered_witness:
  "\<exists>h. hears_all 100 silence (vi_sink (voice_run (\<lambda>s n. s) demo_voice_policy failed_speech_ops)) = Some h \<and>
     (hr_final h \<or> hr_failed h)"
  using voice_utterance_answered [OF demo_voice_policy_ok(1) failed_speech_ok refl, of "\<lambda>s n. s"]
    failed_speech_summary
  by (simp add: summary_def demo_voice_policy_def)

theorem voice_internal_errors_unreachable_witness:
  "Ended_without_start \<notin> set (vi_raised long_speech)"
  using voice_internal_errors_unreachable [OF demo_voice_policy_ok(1) long_speech_ok, of "\<lambda>s n. s"]
  by (simp add: long_speech_def)

end
