(* ===== verification/VoiceInputLost.thy ===== *)
theory VoiceInputLost
  imports VoiceInputRun "HOL-Library.Code_Target_Nat" "HOL-Library.Code_Target_Int"
begin

text \<open>
  What becomes of an utterance that has ended when the next one starts before it is answered: its fate in
  every run of the coordinator, and a run in which the two are one speech, cut at the limit of the detector.
\<close>

section \<open>An utterance that is overtaken\<close>

text \<open>The calls that tell the sink of an utterance: that it starts, what was heard, how it ended.\<close>

fun starts_speech :: "sink_call \<Rightarrow> bool" where
  "starts_speech (Sink_speech_started e b) = True"
| "starts_speech _ = False"

fun starts_utterance :: "uuid \<Rightarrow> sink_call \<Rightarrow> bool" where
  "starts_utterance u (Sink_speech_started e b) \<longleftrightarrow> ss_utterance_id e = u"
| "starts_utterance u _ \<longleftrightarrow> False"

fun answers_utterance :: "uuid \<Rightarrow> sink_call \<Rightarrow> bool" where
  "answers_utterance u (Sink_final f) \<longleftrightarrow> af_utterance_id f = u"
| "answers_utterance u (Sink_failed v name) \<longleftrightarrow> v = u"
| "answers_utterance u _ \<longleftrightarrow> False"

fun reports_utterance :: "uuid \<Rightarrow> sink_call \<Rightarrow> bool" where
  "reports_utterance u (Sink_partial p) \<longleftrightarrow> ap_utterance_id p = u"
| "reports_utterance u c \<longleftrightarrow> answers_utterance u c"

lemma answer_reports: "answers_utterance u c \<Longrightarrow> reports_utterance u c"
  by (cases c) simp_all

lemma hears_all_append:
  "hears_all limit h (cs @ ds) = (case hears_all limit h cs of None \<Rightarrow> None | Some h' \<Rightarrow> hears_all limit h' ds)"
  by (induction limit h cs rule: hears_all.induct) (auto split: option.split)

lemma hears_allE:
  assumes "hears_all limit h (cs @ ds) = Some h'"
  obtains g where "hears_all limit h cs = Some g" "hears_all limit g ds = Some h'"
  using assms by (auto simp: hears_all_append split: option.splits)

text \<open>Nothing is reported of an utterance that is not the current one, until it starts.\<close>

lemma other_utterance:
  assumes "hears_all limit h cs = Some h'" "hr_utterance h \<noteq> Some u" "\<forall>c \<in> set cs. \<not> starts_utterance u c"
  shows "(\<forall>c \<in> set cs. \<not> reports_utterance u c) \<and> hr_utterance h' \<noteq> Some u"
  using assms
proof (induction cs arbitrary: h)
  case (Cons c cs)
  then obtain g where g: "hears limit h c = Some g" "hears_all limit g cs = Some h'"
    by (auto split: option.splits)
  have "hr_utterance g \<noteq> Some u \<and> \<not> reports_utterance u c"
    using g(1) Cons.prems(2,3) by (cases c) (auto split: if_splits)
  then show ?case using Cons.IH [OF g(2)] Cons.prems(3) by auto
qed simp

text \<open>The current utterance, not answered yet, has not been answered since it started.\<close>

lemma unanswered_utterance:
  assumes "hears_all limit h cs = Some h'" "hr_utterance h' = Some u" "\<not> hr_final h'" "\<not> hr_failed h'"
    and "\<forall>c \<in> set cs. \<not> starts_utterance u c"
  shows "(\<forall>c \<in> set cs. \<not> answers_utterance u c) \<and> hr_utterance h = Some u \<and> \<not> hr_final h \<and> \<not> hr_failed h"
  using assms
proof (induction cs arbitrary: h)
  case (Cons c cs)
  then obtain g where g: "hears limit h c = Some g" "hears_all limit g cs = Some h'"
    by (auto split: option.splits)
  have "(\<forall>c \<in> set cs. \<not> answers_utterance u c) \<and> hr_utterance g = Some u \<and> \<not> hr_final g \<and> \<not> hr_failed g"
    using Cons.IH [OF g(2)] Cons.prems(2-5) by simp
  then show ?case using g(1) Cons.prems(5) by (cases c) (auto split: if_splits)
qed simp

lemma started_once_unanswered:
  assumes "hears_all limit silence cs = Some h" "hr_utterance h = Some u" "\<not> hr_final h" "\<not> hr_failed h"
    and "length (filter (starts_utterance u) cs) \<le> 1"
  shows "(\<forall>c \<in> set cs. \<not> answers_utterance u c) \<and> length (filter (starts_utterance u) cs) = 1"
proof (cases "\<exists>c \<in> set cs. starts_utterance u c")
  case False
  then show ?thesis
    using other_utterance [OF assms(1), of u] assms(2) by (simp add: silence_def)
next
  case True
  then obtain xs c ys where cs: "cs = xs @ c # ys" "starts_utterance u c" by (meson split_list)
  have none: "\<forall>c \<in> set xs. \<not> starts_utterance u c" "\<forall>c \<in> set ys. \<not> starts_utterance u c"
    using assms(5) cs by (auto simp: filter_empty_conv)
  obtain g where g: "hears_all limit silence xs = Some g" "hears_all limit g (c # ys) = Some h"
    using hears_allE assms(1) unfolding cs(1) by blast
  then obtain k where k: "hears_all limit k ys = Some h" by (auto split: option.splits)
  have "\<forall>c \<in> set xs. \<not> reports_utterance u c"
    using other_utterance [OF g(1) _ none(1)] by (simp add: silence_def)
  then have "\<forall>c \<in> set xs. \<not> answers_utterance u c" using answer_reports by blast
  moreover have "\<forall>c \<in> set ys. \<not> answers_utterance u c"
    using unanswered_utterance [OF k assms(2-4) none(2)] by blast
  moreover have "\<not> answers_utterance u c" using cs(2) by (cases c) simp_all
  ultimately show ?thesis
    using none cs(2) by (auto simp: cs(1) filter_empty_conv)
qed

text \<open>A step only adds calls, and the epoch counts the starts among them.\<close>

definition tells :: "voice_input \<Rightarrow> voice_input \<Rightarrow> bool" where
  "tells s t \<longleftrightarrow> (\<exists>zs. vi_sink t = vi_sink s @ zs \<and>
     vi_speech_epoch t = vi_speech_epoch s + length (filter starts_speech zs))"

lemma tells_refl [simp, intro]: "tells s s"
  by (simp add: tells_def)

lemma tells_trans: "tells s t \<Longrightarrow> tells t u \<Longrightarrow> tells s u"
  unfolding tells_def by force

lemma tells_same: "vi_sink t = vi_sink s \<Longrightarrow> vi_speech_epoch t = vi_speech_epoch s \<Longrightarrow> tells s t"
  by (simp add: tells_def)

lemma tells_call: "\<not> starts_speech c \<Longrightarrow> vi_sink t = vi_sink s @ [c] \<Longrightarrow> vi_speech_epoch t = vi_speech_epoch s \<Longrightarrow> tells s t"
  by (simp add: tells_def)

lemma ingress_run_tells: "tells s (ingress_run now steps s)"
proof (induction now steps s rule: ingress_run.induct)
  case (2 now e rest s)
  then show ?case
    by (simp add: Let_def tells_def sink_calls_def supersede_recognition_def cancel_recognition_def)
next
  case (3 now e rest s)
  show ?case
  proof (cases "vi_active_utterance_epoch s")
    case (Some n)
    show ?thesis
    proof (cases "int (length (vi_utterances s)) < vp_max_pending_utterances (vi_policy s)")
      case True
      have "tells s (s\<lparr>vi_active_utterance_epoch := None,
          vi_utterances := vi_utterances s @ [\<lparr>vj_epoch = n, vj_utterance = se_utterance e\<rparr>]\<rparr>)"
        by (rule tells_same) simp_all
      then show ?thesis
        using True Some 3 [OF Some refl] by (simp add: Let_def) (rule tells_trans)
    qed (simp add: Some Let_def tells_def sink_calls_def)
  qed (simp add: tells_def raises_def)
qed (simp_all add: tells_def sink_calls_def)

lemma tells_ingress:
  assumes "vi_sink t = vi_sink s" "vi_speech_epoch t = vi_speech_epoch s"
  shows "tells s (ingress_run now steps t)"
  by (rule tells_trans [OF tells_same ingress_run_tells]) (use assms in simp_all)

lemma worker_tells:
  "tells s (worker_gets s)" "tells s (recognition_begins j s)" "tells s (worker_resumes j r s)"
  "tells s (worker_reported answer s)" "tells s (recognition_ends j now r s)"
  "tells s (recognition_receives j revision final now reply s)"
  by (auto simp: tells_def worker_gets_def recognition_begins_def worker_resumes_def worker_reported_def
      recognition_ends_def recognition_receives_def next_job_def worker_ends_def sink_calls_def Let_def
      split: list.split option.split asr_reply.split AsrStreamEvent.split)

lemma client_tells:
  "tells s (start_stream stream fmt s)" "tells s (process_frame nu f now s)"
  "tells s (finish_voice_stream stream reason now s)" "tells s (ingress_answered now answer s)"
  "tells s (voice_close now s)" "tells s (close_drains s)"
proof -
  have r: "tells s (raises e (s\<lparr>vi_detector := v\<rparr>))" "tells s (raises e s)" for e v
    by (rule tells_same; simp add: raises_def)+
  show "tells s (start_stream stream fmt s)"
    by (auto simp: start_stream_def tells_def raises_def sink_calls_def ensure_worker_def)
  show "tells s (process_frame nu f now s)"
    by (auto simp: process_frame_def r intro: tells_ingress split: option.split sum.split prod.split)
  show "tells s (finish_voice_stream stream reason now s)"
    by (auto simp: finish_voice_stream_def r simp del: ingress_run.simps intro: tells_ingress
        split: option.split sum.split prod.split)
  show "tells s (ingress_answered now answer s)"
    by (auto simp: ingress_answered_def ingress_run_tells tells_same raises_def split: ingress.split option.split)
  show "tells s (voice_close now s)" "tells s (close_drains s)"
    by (auto simp: voice_close_def close_drains_def cancel_recognition_def Let_def intro!: tells_same
        split: asr_worker.split recognition.split)
qed

lemma voice_step_tells: "tells s (voice_step nu s p)"
  by (cases p) (auto simp: worker_tells client_tells intro: tells_same
      split: asr_worker.split recognition.split option.split)

lemma voice_steps_tell: "tells s (foldl (voice_step nu) s ps)"
  by (induction ps arbitrary: s) (auto intro: tells_trans [OF voice_step_tells])

text \<open>The utterance of \<open>j\<close> has ended, and its final transcript has not been handed over.\<close>

definition unanswered :: "recognition_job \<Rightarrow> voice_input \<Rightarrow> bool" where
  "unanswered j s \<longleftrightarrow> j \<in> set (vi_utterances s) \<or>
     (\<exists>r. vi_worker s = Worker_recognizing j r \<and> r \<noteq> Rec_final \<and> (\<forall>x. r \<noteq> Rec_ended x))"

lemma unanswered_hearing:
  assumes "core_inv s h" "unanswered j s" "vj_epoch j = vi_speech_epoch s"
  shows "hr_utterance h = Some (ut_utterance_id (vj_utterance j)) \<and> \<not> hr_final h \<and> \<not> hr_failed h"
proof -
  have "j \<in> set (jobs s)" using assms(2) by (auto simp: unanswered_def jobs_def)
  then have u: "hr_utterance h = Some (ut_utterance_id (vj_utterance j))"
    using assms(1,3) by (simp add: core_inv_def jobs_inv_def)
  show ?thesis
  proof (cases "j \<in> set (vi_utterances s)")
    case True
    then show ?thesis using u assms(1,3) by (auto simp: core_inv_def jobs_inv_def fresh_def)
  next
    case False
    then obtain r where "vi_worker s = Worker_recognizing j r" "r \<noteq> Rec_final" "\<forall>x. r \<noteq> Rec_ended x"
      using assms(2) by (auto simp: unanswered_def)
    then show ?thesis using u core_worker [OF assms(1)] assms(3) by (cases r) (auto simp: fresh_def)
  qed
qed

lemma voice_run_heard:
  assumes "check_vad_config (vp_vad p) = None" "\<forall>q \<in> set ps. voice_op_ok q"
  obtains h where "core_inv (voice_run nu p ps) h"
    "hears_all (vp_max_transcript_chars p) silence (vi_sink (voice_run nu p ps)) = Some h"
  using voice_run_inv [OF assms, of nu] voice_run_policy [of nu p ps] core_heard
  by (metis coordinator_inv_def limit_of_text_def voice_inv_def)

text \<open>C39: An utterance that has ended is lost when the detector starts the next one before its final
  transcript is handed over. Take any state of the coordinator in which the utterance started last has ended
  and waits in the queue or is being recognized, and any frame on which the next utterance starts: whatever
  happens from then on, the sink has not had and never gets a final transcript or a report of a failure of
  the first one, nor another partial one; the job stays superseded, and when the worker reaches it in the
  queue it drops it without a recognition and without a call. (The utterance is known by its id, which is
  started once.)\<close>
theorem overtaken_utterance_lost:
  assumes "check_vad_config (vp_vad p) = None" and "\<forall>q \<in> set ps \<union> set qs. voice_op_ok q" and "voice_op_ok (Op_frame f now)"
    and "s = voice_run nu p ps" and "unanswered j s" and "vj_epoch j = vi_speech_epoch s"
    and "vi_sink (voice_step nu s (Op_frame f now)) = vi_sink s @ [Sink_speech_started e b]"
    and "t = foldl (voice_step nu) (voice_step nu s (Op_frame f now)) qs"
    and "length (filter (starts_utterance (ut_utterance_id (vj_utterance j))) (vi_sink t)) \<le> 1"
  shows "(\<forall>c \<in> set (vi_sink t). \<not> answers_utterance (ut_utterance_id (vj_utterance j)) c) \<and>
    (\<forall>c \<in> set (drop (length (vi_sink s)) (vi_sink t)). \<not> reports_utterance (ut_utterance_id (vj_utterance j)) c) \<and>
    vj_epoch j < vi_speech_epoch t \<and>
    (\<forall>js. vi_worker t = Worker_getting \<and> \<not> vi_worker_cancelled t \<and> vi_utterances t = j # js \<longrightarrow>
       vi_sink (voice_step nu t Op_worker_get) = vi_sink t \<and> vi_utterances (voice_step nu t Op_worker_get) = js \<and>
       vi_worker (voice_step nu t Op_worker_get) = Worker_getting)"
proof -
  let ?u = "ut_utterance_id (vj_utterance j)" and ?l = "vp_max_transcript_chars p"
  let ?s = "voice_step nu s (Op_frame f now)"
  have ok: "\<forall>q \<in> set ps. voice_op_ok q" "\<forall>q \<in> set (ps @ Op_frame f now # qs). voice_op_ok q"
    using assms(2,3) by auto
  have t: "t = voice_run nu p (ps @ Op_frame f now # qs)" by (simp add: assms(4,8) voice_run_def)
  obtain h where h: "core_inv s h" "hears_all ?l silence (vi_sink s) = Some h"
    using voice_run_heard [OF assms(1) ok(1)] unfolding assms(4) by blast
  obtain k where k: "hears_all ?l silence (vi_sink t) = Some k"
    using voice_run_heard [OF assms(1) ok(2)] unfolding t by blast
  obtain zs where zs: "vi_sink t = vi_sink s @ Sink_speech_started e b # zs"
    using voice_steps_tell [of ?s nu qs] assms(7,8) by (auto simp: tells_def)
  have epoch: "vi_speech_epoch s < vi_speech_epoch t"
    using voice_step_tells [of s nu "Op_frame f now"] voice_steps_tell [of ?s nu qs] assms(7,8) by (auto simp: tells_def)
  have once: "length (filter (starts_utterance ?u) (vi_sink s)) \<le> 1" using assms(9) by (simp add: zs)
  note u = unanswered_hearing [OF h(1) assms(5,6)]
  have first: "(\<forall>c \<in> set (vi_sink s). \<not> answers_utterance ?u c)" "length (filter (starts_utterance ?u) (vi_sink s)) = 1"
    using started_once_unanswered [OF h(2) _ _ _ once] u by blast+
  have new: "ss_utterance_id e \<noteq> ?u" "\<forall>c \<in> set zs. \<not> starts_utterance ?u c"
    using assms(9) first(2) by (auto simp: zs filter_empty_conv split: if_splits)
  have "hears_all ?l \<lparr>hr_utterance = Some (ss_utterance_id e), hr_revision = -1, hr_final = False, hr_failed = False\<rparr> zs = Some k"
    using k h(2) by (simp add: zs hears_all_append)
  from other_utterance [OF this _ new(2)] have later: "\<forall>c \<in> set zs. \<not> reports_utterance ?u c"
    using new(1) by simp
  then have "\<forall>c \<in> set zs. \<not> answers_utterance ?u c" using answer_reports by blast
  then show ?thesis
    using first(1) later epoch assms(6) by (auto simp: zs worker_gets_def next_job_def)
qed

section \<open>A speaker who goes on beyond the limit\<close>

text \<open>
  The frames of \<open>long_speech_ops\<close>: the second one ends the utterance at the limit on its bytes, the third one
  starts the next. Here the ids of the utterances differ.
\<close>

definition demo_uuid :: "uuid \<Rightarrow> pystr \<Rightarrow> uuid" where
  "demo_uuid s name = s + of_nat (sum_list name)"

definition cut_speech :: voice_input where
  "cut_speech = voice_run demo_uuid demo_voice_policy (take 5 long_speech_ops)"

fun started_ids :: "sink_call list \<Rightarrow> uuid list" where
  "started_ids [] = []"
| "started_ids (Sink_speech_started e b # cs) = ss_utterance_id e # started_ids cs"
| "started_ids (c # cs) = started_ids cs"

lemma count_started: "length (filter (starts_utterance u) cs) = length (filter ((=) u) (started_ids cs))"
  by (induction cs rule: started_ids.induct) auto

definition overview ::
  "voice_input \<Rightarrow> (nat \<times> uuid) list \<times> nat \<times> call_kind list \<times> uuid list \<times> asr_worker" where
  "overview s =
     (map (\<lambda>j. (vj_epoch j, ut_utterance_id (vj_utterance j))) (vi_utterances s), vi_speech_epoch s,
      map heard_kind (vi_sink s), started_ids (vi_sink s), vi_worker s)"

lemma cut_overview: "overview cut_speech = ([(1, 745)], 1, [Heard_capture, Heard_start 0], [745], Worker_getting)"
  by code_simp

lemma next_overview:
  "overview (voice_step demo_uuid cut_speech (Op_frame (speech_frame 2) 3)) =
     ([(1, 745)], 2, [Heard_capture, Heard_start 0, Heard_start 2], [745, 747], Worker_getting)"
  by code_simp

lemma drop_overview:
  "overview (voice_step demo_uuid (voice_step demo_uuid cut_speech (Op_frame (speech_frame 2) 3)) Op_worker_get) =
     ([], 2, [Heard_capture, Heard_start 0, Heard_start 2], [745, 747], Worker_getting)"
  by code_simp

lemma heard_start: "heard_kind c = Heard_start n \<Longrightarrow> \<exists>e b. c = Sink_speech_started e b"
  by (cases c) simp_all

theorem overtaken_utterance_lost_witness:
  "list_all (\<lambda>c. \<not> answers_utterance 745 c) (vi_sink (voice_run demo_uuid demo_voice_policy long_speech_ops)) \<and>
   started_ids (vi_sink (voice_run demo_uuid demo_voice_policy long_speech_ops)) = [745, 747] \<and>
   vi_utterances (voice_run demo_uuid demo_voice_policy long_speech_ops) = []"
proof -
  let ?s = "voice_step demo_uuid cut_speech (Op_frame (speech_frame 2) 3)"
  let ?t = "foldl (voice_step demo_uuid) ?s [Op_worker_get]"
  obtain j where j: "vi_utterances cut_speech = [j]" "vj_epoch j = 1" "ut_utterance_id (vj_utterance j) = 745"
    using cut_overview by (auto simp: overview_def map_eq_Cons_conv)
  have s: "vi_speech_epoch cut_speech = 1" "map heard_kind (vi_sink cut_speech) = [Heard_capture, Heard_start 0]"
    using cut_overview by (simp_all add: overview_def)
  obtain zs where zs: "vi_sink ?s = vi_sink cut_speech @ zs"
    using voice_step_tells [of cut_speech demo_uuid "Op_frame (speech_frame 2) 3"] unfolding tells_def by blast
  have "map heard_kind (vi_sink ?s) = [Heard_capture, Heard_start 0, Heard_start 2]"
    using next_overview by (simp only: overview_def prod.inject)
  then obtain c where c: "zs = [c]" "heard_kind c = Heard_start 2"
    unfolding zs map_append s(2) by (auto simp: map_eq_Cons_conv)
  obtain e b where e: "vi_sink ?s = vi_sink cut_speech @ [Sink_speech_started e b]"
    using heard_start [OF c(2)] c(1) zs by blast
  have t: "started_ids (vi_sink ?t) = [745, 747]" "vi_utterances ?t = []"
    using drop_overview by (simp_all only: overview_def prod.inject foldl.simps map_is_Nil_conv)
  have "\<forall>c \<in> set (vi_sink ?t). \<not> answers_utterance (ut_utterance_id (vj_utterance j)) c"
    using overtaken_utterance_lost [OF demo_voice_policy_ok(1) _ _ cut_speech_def _ _ e refl, of "[Op_worker_get]" j]
      long_speech_ok t(1) j s(1)
    by (auto simp: unanswered_def long_speech_ops_def voice_op_ok_def count_started
        simp del: foldl.simps voice_step.simps)
  moreover have "?t = voice_run demo_uuid demo_voice_policy long_speech_ops"
    by (simp add: cut_speech_def voice_run_def long_speech_ops_def del: voice_step.simps)
  ultimately show ?thesis using t j(3) by (simp add: list_all_iff del: foldl.simps voice_step.simps)
qed

end
