(* ===== verification/Spec2Isabelle.thy ===== *)
theory Spec2Isabelle
  imports SessionLife VadInv InputFrames Assembler Promotion ContextInv SchedulerLimits ModelStreamRun
    EventRecorder ConversationHistory PipelineLive ForegroundProps VoiceInputLost
begin

text \<open>
  Eeveetuber is a conversational avatar runtime written in Python (sources under
  \<^verbatim>\<open>src/eeveetuber/\<close>). Microphone packets are decoded and cut into utterances by a voice-activity
  detector; a finished utterance becomes a turn of a session. The session actor runs one
  foreground turn at a time, each under its own cancellation generation, and publishes results through a
  bounded priority mailbox, which refuses what a later turn has made stale. A turn compiles a context
  from stored memories within a token budget, streams an answer from a model endpoint, assembles the
  text into speakable segments, and turns synthesized audio into packets. The performance director
  turns intents into cues, and the presentation scheduler runs them on the avatar under
  leases, cooldowns and rate limits.

  \<^bold>\<open>Conventions.\<close> A class is a record, an enumeration a datatype, a method a function on the
  record. A method that may raise and that changes its object returns the error or the value, and the
  object after the call, so what a raising call has written is visible; asynchronous methods are
  atomic between two points where they may be suspended, and what other tasks do meanwhile is an
  argument or an operation of the state machine. A \<open>str\<close> is its list of code points, \<open>bytes\<close>
  a list of octets (\<open>8 word\<close> where arithmetic on them matters), \<open>int\<close> is \<open>int\<close>, \<open>float\<close> is an
  IEEE 754 binary64 value with correct rounding. Clocks, fresh identities, callbacks and
  services are arguments.

  \<^bold>\<open>Theories and the code they model.\<close>
  \<^item> \<^theory_text>\<open>Prelude\<close>: strings (\<open>str.strip\<close>, \<open>str\<close> of an integer), list operations, \<open>first_error\<close> for
    sequences of checks, and the interface \<open>op_system\<close> of a component driven by operations that keep an
    invariant. \<^theory_text>\<open>PyFloat\<close>: floats and rounding. \<^theory_text>\<open>PyStruct\<close>: \<open>struct.pack\<close> and the interface
    \<open>byte_codec\<close>. \<^theory_text>\<open>Utf8\<close>: the UTF-8 codec, and the token estimator of \<^verbatim>\<open>memory/context.py\<close>
    with its interface \<open>token_estimator\<close>. \<^theory_text>\<open>PyJson\<close>, \<^theory_text>\<open>JsonParse\<close>: \<open>json.dumps\<close>,
    \<open>json.loads\<close>, and that the latter reads back what the former renders.
  \<^item> \<^theory_text>\<open>Mailbox\<close>: \<^verbatim>\<open>runtime/mailbox.py\<close>. Capacity, order, accounting of every item, draining after
    a close, and the loop of \<open>put_wait\<close> as a sequence of wake-ups.
  \<^item> \<^theory_text>\<open>Generations\<close>: \<^verbatim>\<open>runtime/cancellation.py\<close>. Token states live in a store, since tokens share
    them. The interface \<open>generation_gate\<close> states that a revoked generation stays revoked.
  \<^item> \<^theory_text>\<open>Interaction\<close>: \<^verbatim>\<open>domain/interaction.py\<close>, refined to the transition table.
    \<^theory_text>\<open>Events\<close>: \<^verbatim>\<open>domain/events.py\<close>.
  \<^item> \<^theory_text>\<open>Session\<close>, \<^theory_text>\<open>SessionInv\<close>, \<^theory_text>\<open>SessionLife\<close>: \<open>SessionActor\<close> of \<^verbatim>\<open>runtime/session.py\<close>, composed of
    the mailbox, the cancellation source and the interaction machine; late results, superseding turns,
    sequence numbers, and the end of a session.
  \<^item> \<^theory_text>\<open>PcmTypes\<close>: \<^verbatim>\<open>media/types.py\<close>. \<^theory_text>\<open>Vad\<close>, \<^theory_text>\<open>VadInv\<close>: \<^verbatim>\<open>media/vad.py\<close>.
    \<^theory_text>\<open>AudioFrames\<close>, \<^theory_text>\<open>InputFrames\<close>: \<^verbatim>\<open>api/audio_frames.py\<close>, \<^verbatim>\<open>api/input_audio_frames.py\<close>.
  \<^item> \<^theory_text>\<open>DialogueTypes\<close>: \<^verbatim>\<open>dialogue/types.py\<close>. \<^theory_text>\<open>Assembler\<close>: \<^verbatim>\<open>dialogue/assembler.py\<close>. The loop of
    \<open>push\<close> is a partial function, shown to return. \<^theory_text>\<open>Pipeline\<close>, \<^theory_text>\<open>PipelineInv\<close>, \<^theory_text>\<open>PipelineRun\<close>,
    \<^theory_text>\<open>PipelineLive\<close>: \<^verbatim>\<open>dialogue/pipeline.py\<close>, composed of the assembler, two queues, a semaphore and the
    synthesis tasks: each task a program counter, each step from one \<open>await\<close> to the next. An acceptor of
    event sequences is the specification of what a run publishes.
  \<^item> \<^theory_text>\<open>SseDecoder\<close>, \<^theory_text>\<open>ModelStream\<close>, \<^theory_text>\<open>ModelStreamRun\<close>: \<^verbatim>\<open>adapters/openai_compatible/model.py\<close>. The
    decoder against the lines of the whole stream; the generator \<open>stream\<close> for every answer of
    the endpoint and every cancellation.
  \<^item> \<^theory_text>\<open>Promotion\<close>: \<^verbatim>\<open>memory/models.py\<close>, \<^verbatim>\<open>memory/promotion.py\<close>. \<^theory_text>\<open>ContextCompiler\<close>, \<^theory_text>\<open>ContextInv\<close>:
    \<^verbatim>\<open>memory/context.py\<close>, for any estimator that satisfies the interface.
  \<^item> \<^theory_text>\<open>AvatarTypes\<close>, \<^theory_text>\<open>Capabilities\<close>, \<^theory_text>\<open>Director\<close>: \<^verbatim>\<open>avatar/intents.py\<close>, \<^verbatim>\<open>avatar/presentation.py\<close>,
    \<^verbatim>\<open>avatar/capabilities.py\<close>, \<^verbatim>\<open>avatar/director.py\<close>. \<^theory_text>\<open>Scheduler\<close>, \<^theory_text>\<open>SchedulerInv\<close>, \<^theory_text>\<open>SchedulerRun\<close>,
    \<^theory_text>\<open>SchedulerLimits\<close>: \<^verbatim>\<open>avatar/scheduler.py\<close>, with the interface \<open>neutral_provider\<close> for the cue
    that returns the avatar to rest.
  \<^item> \<^theory_text>\<open>EventRecorder\<close>: \<^verbatim>\<open>application/event_recorder.py\<close>, with \<open>to_dict\<close> of an envelope. The writer task is
    a state machine between its awaits. \<^theory_text>\<open>ConversationHistory\<close>:
    \<^verbatim>\<open>application/conversation_history.py\<close>, whose binary search is compared with the longest
    beginning that fits.
  \<^item> \<^theory_text>\<open>Commands\<close>, \<^theory_text>\<open>Foreground\<close>: \<^verbatim>\<open>application/foreground_session.py\<close> and
    \<^verbatim>\<open>application/foreground_voice.py\<close> on top of the session actor, as a machine whose steps are the calls of
    the transport, the iterations of the actor's loop, and the advances of the handler and of each turn task
    from one \<open>await\<close> to the next. \<^theory_text>\<open>AsrTypes\<close>: the recognition results of \<^verbatim>\<open>media/types.py\<close>;
    \<^theory_text>\<open>Encodings\<close>: the text of a \<open>UUID\<close> and Base64. \<^theory_text>\<open>ForegroundActor\<close>,
    \<^theory_text>\<open>ForegroundEvents\<close>, \<^theory_text>\<open>ForegroundInv\<close>, \<^theory_text>\<open>ForegroundTurns\<close>, \<^theory_text>\<open>ForegroundHandlers\<close>,
    \<^theory_text>\<open>ForegroundRun\<close>: what each operation of the actor leaves alone, the validity of every event, the order
    of the generations, and one preservation lemma per step; \<^theory_text>\<open>ForegroundProps\<close>: the properties of runs.

  \<^item> \<^theory_text>\<open>VoiceInput\<close>, \<^theory_text>\<open>VoiceInputInv\<close>, \<^theory_text>\<open>VoiceInputRun\<close>, \<^theory_text>\<open>VoiceInputLost\<close>:
    \<^verbatim>\<open>application/voice_input.py\<close>, composed of the detector, a bounded queue, the worker and its recognition tasks.
    An acceptor of the calls of the sink is the specification; the answers of the sink and of the recognizer are
    arguments of the steps. The last theory follows an utterance that the next one overtakes.

  \<^bold>\<open>What the groups of lemmas show.\<close> Each stateful component has an invariant, one preservation lemma
  per operation, and from them, through an interpretation of \<open>op_system\<close>, the invariant of every
  reachable state. Codecs round-trip and refuse exactly what the code refuses. Algorithms
  (assembler, context compiler, detector, promotion policy, capability resolution) are related to
  what they promise. The streaming theories show that the cut of a transport does not matter.

  \<^bold>\<open>Bounds and fuel.\<close> Loops that are not structural have a measure; the two that might not
  end are a partial function (\<open>push_loop\<close>) and a function with fuel (\<open>scan_value\<close>, whose fuel of twice the
  length of the text is shown to be enough). Queue, byte, token and rate limits are those of the configuration
  records and range over all admitted values.

  \<^bold>\<open>The foreground machine.\<close> The history a turn loads, the context it compiles and the stream of its pipeline
  are arguments of the steps, so they range over all values (\<^theory_text>\<open>ConversationHistory\<close>, \<^theory_text>\<open>ContextCompiler\<close> and
  \<^theory_text>\<open>Pipeline\<close> model the code that makes them). The machine stops when a write to the storage has failed, since
  the actor is then cancelled (\<^theory_text>\<open>SessionLife\<close>). \<open>stop\<close> and the storage row of \<open>start\<close> are outside it.

  \<^bold>\<open>Not modelled.\<close> Sockets, HTTP clients, databases, subprocesses, clocks and logging, which the
  sources only call; the SQL repositories of \<^verbatim>\<open>storage/\<close>; the FastAPI application and its
  Pydantic schemas; the settings loader; the fake adapters; the interpreter's limit on nested JSON; a
  provider that swallows the cancellation of its task and goes on.
  \<^verbatim>\<open>PROJECT.json\<close> lists each part with its status.
\<close>

end
